(* ===== verification/Oer_Prelude.thy ===== *)
theory Oer_Prelude
  imports Main "HOL-Library.Word" "HOL-Library.Multiset"
begin

text \<open>
  Shared vocabulary of the development.  It fixes the machine integers of the Rust sources as
  words of \<open>HOL-Library.Word\<close>, the \<open>Result\<close> type of fallible code, the little-endian readers and
  writers of the frame codecs, and the generic facts on words and arrays that the components use.
  The interfaces the components share are stated here as locales:
  \<^item> \<open>sequence_space\<close>: a cyclic space of sequence numbers with a forward distance;
  \<^item> \<open>invariant_machine\<close>: a state machine whose operations keep an invariant;
  \<^item> \<open>rising_frontier\<close>: a check that admits a number only above the last admitted one of its lane.
  Each of them is interpreted on the model's own definitions in the theory of its provider.
\<close>

unbundle bit_operations_syntax

named_theorems oer_word \<open>reading word operations as arithmetic on natural numbers\<close>
named_theorems oer_split \<open>case splits of the model's results\<close>

type_synonym u8 = "8 word"
type_synonym u16 = "16 word"
type_synonym u32 = "32 word"
type_synonym u64 = "64 word"

text \<open>Rust's \<open>Result\<close>; the \<open>?\<close> operator is \<open>and_then\<close>.\<close>

datatype ('a, 'e) result = Ok 'a | Err 'e

declare result.splits [oer_split] option.splits [oer_split] if_splits [oer_split]

fun map_err :: "('e \<Rightarrow> 'f) \<Rightarrow> ('a, 'e) result \<Rightarrow> ('a, 'f) result" where
  "map_err f (Ok a) = Ok a"
| "map_err f (Err e) = Err (f e)"

fun ok_or :: "'a option \<Rightarrow> 'e \<Rightarrow> ('a, 'e) result" where
  "ok_or (Some a) e = Ok a"
| "ok_or None e = Err e"

lemma map_err_eq_Ok_iff [simp]: "map_err f r = Ok a \<longleftrightarrow> r = Ok a"
  by (cases r) auto

lemma map_err_eq_Err_iff [simp]: "map_err f r = Err e' \<longleftrightarrow> (\<exists>e. r = Err e \<and> e' = f e)"
  by (cases r) auto

lemma ok_or_eq_Ok_iff [simp]: "ok_or r e = Ok a \<longleftrightarrow> r = Some a"
  by (cases r) auto

lemma ok_or_eq_Err_iff [simp]: "ok_or r e = Err e' \<longleftrightarrow> r = None \<and> e' = e"
  by (cases r) auto

subsection \<open>Machine arithmetic\<close>

text \<open>The checked and saturating operations of Rust's unsigned integers.\<close>

definition checked_add :: "'a::len word \<Rightarrow> 'a word \<Rightarrow> 'a word option" where
  "checked_add a b = (if unat a + unat b < 2 ^ LENGTH('a) then Some (a + b) else None)"

definition checked_sub :: "'a::len word \<Rightarrow> 'a word \<Rightarrow> 'a word option" where
  "checked_sub a b = (if b \<le> a then Some (a - b) else None)"

definition saturating_add :: "'a::len word \<Rightarrow> 'a word \<Rightarrow> 'a word" where
  "saturating_add a b = (if unat a + unat b < 2 ^ LENGTH('a) then a + b else - 1)"

definition saturating_sub :: "'a::len word \<Rightarrow> 'a word \<Rightarrow> 'a word" where
  "saturating_sub a b = (if b \<le> a then a - b else 0)"

text \<open>The overflow test by word comparison, for evaluation.\<close>

lemma no_overflow_iff: "unat a + unat b < 2 ^ LENGTH('a) \<longleftrightarrow> a \<le> a + b" for a b :: "'a::len word"
proof (cases "unat a + unat b < 2 ^ LENGTH('a)")
  case True
  then show ?thesis by (simp add: word_le_nat_alt unat_word_ariths)
next
  case False
  have "unat a < 2 ^ LENGTH('a)" "unat b < 2 ^ LENGTH('a)" by (rule unsigned_less)+
  then have "unat a + unat b - 2 ^ LENGTH('a) < 2 ^ LENGTH('a)" by linarith
  with False have "(unat a + unat b) mod 2 ^ LENGTH('a) = unat a + unat b - 2 ^ LENGTH('a)"
    by (simp only: le_mod_geq not_less mod_less)
  also have "\<dots> < unat a" using False \<open>unat b < _\<close> by linarith
  finally show ?thesis using False by (simp add: word_le_nat_alt unat_word_ariths not_le)
qed

lemma checked_add_code [code]: "checked_add a b = (if a \<le> a + b then Some (a + b) else None)"
  by (simp add: checked_add_def no_overflow_iff)

lemma saturating_add_code [code]: "saturating_add a b = (if a \<le> a + b then a + b else - 1)"
  by (simp add: saturating_add_def no_overflow_iff)

lemma unat_u8_less: "unat (w :: u8) < 256"
  by (rule order_less_le_trans [OF unsigned_less]) simp

lemma unat_u16_less: "unat (w :: u16) < 65536"
  by (rule order_less_le_trans [OF unsigned_less]) simp

lemma unat_u32_less: "unat (w :: u32) < 4294967296"
  by (rule order_less_le_trans [OF unsigned_less]) simp

lemma unat_u64_less: "unat (w :: u64) < 18446744073709551616"
  by (rule order_less_le_trans [OF unsigned_less]) simp

lemma unat_ucast_widen:
  "LENGTH('a) \<le> LENGTH('b) \<Longrightarrow> unat (ucast (w :: 'a::len word) :: 'b::len word) = unat w"
  by (simp add: unsigned_ucast_eq take_bit_nat_eq_self_iff)
     (meson nat_less_le power_increasing one_le_numeral order_less_le_trans unsigned_less)

lemma unat_ucasts [simp]:
  "unat (ucast (a :: u8) :: u16) = unat a"
  "unat (ucast (a :: u8) :: u32) = unat a"
  "unat (ucast (a :: u8) :: u64) = unat a"
  "unat (ucast (b :: u16) :: u32) = unat b"
  "unat (ucast (b :: u16) :: u64) = unat b"
  "unat (ucast (c :: u32) :: u64) = unat c"
  by (simp_all add: unat_ucast_widen)

lemma unat_checked_add:
  "checked_add a b = Some c \<Longrightarrow> unat c = unat a + unat (b :: 'a::len word)"
  by (auto simp: checked_add_def unat_word_ariths split: if_splits)

lemma checked_add_eq_None_iff:
  "checked_add a b = None \<longleftrightarrow> 2 ^ LENGTH('a) \<le> unat a + unat (b :: 'a::len word)"
  by (auto simp: checked_add_def)

lemma unat_saturating_add:
  "unat (saturating_add a b) = min (unat a + unat b) (2 ^ LENGTH('a) - 1)"
  for a b :: "'a::len word"
  by (auto simp: saturating_add_def unat_word_ariths unsigned_minus_1_eq_mask mask_eq_exp_minus_1)

lemma unat_saturating_sub:
  "unat (saturating_sub a b) = unat a - unat b"
  for a b :: "'a::len word"
  by (auto simp: saturating_sub_def unat_sub word_le_nat_alt)

lemma unat_and_mask [oer_word]:
  "unat (w AND mask n) = unat w mod 2 ^ n" for w :: "'a::len word"
proof -
  have "unat (w AND mask n) = take_bit n (unat w)"
    by (simp flip: take_bit_eq_mask add: unsigned_take_bit_eq)
  then show ?thesis
    by (simp add: take_bit_eq_mod)
qed

lemma mask_12: "(4095 :: u16) = mask 12"
  by (simp add: mask_eq_exp_minus_1)

lemma mask_4: "(15 :: u16) = mask 4"
  by (simp add: mask_eq_exp_minus_1)

lemma unat_and_4095 [oer_word]: "unat (w AND 4095) = unat w mod 4096" for w :: u16
  using unat_and_mask [of w 12] by (simp add: mask_12)

subsection \<open>Bitmaps\<close>

text \<open>
  Testing, setting and clearing the bit \<open>n\<close>.  The sources write the mask \<open>1 << n\<close>, which the
  model has as \<open>push_bit n 1\<close> and the simplifier normalises to \<open>2 ^ n\<close>.
\<close>

lemma test_bit_mask: "w AND 2 ^ n = 0 \<longleftrightarrow> \<not> bit w n" for w :: "'a::len word"
  by (simp add: and_exp_eq_0_iff_not_bit)

lemma bit_set_mask:
  "bit (w OR 2 ^ n) k \<longleftrightarrow> bit w k \<or> k = n \<and> n < LENGTH('a)" for w :: "'a::len word"
  by (auto simp: bit_or_iff bit_exp_iff)

lemma bit_clear_mask:
  "bit (w AND NOT (2 ^ n)) k \<longleftrightarrow> bit w k \<and> k \<noteq> n" for w :: "'a::len word"
  by (auto simp: bit_and_iff bit_not_iff bit_exp_iff bit_imp_le_length)

lemma bit_less_exp:
  fixes w :: "'a::len word"
  assumes "unat w < 2 ^ n" and "bit w k"
  shows "k < n"
proof -
  have "bit (take_bit n (unat w)) k"
    using assms by (simp add: take_bit_nat_eq_self bit_unsigned_iff)
  then show ?thesis by (simp add: bit_take_bit_iff)
qed

lemma bit_fold_clear:
  "bit (fold (\<lambda>i occ. if P i then occ AND NOT (push_bit i 1) else occ) xs w) k
     \<longleftrightarrow> bit w k \<and> \<not> (k \<in> set xs \<and> P k)" for w :: "'a::len word"
  by (induction xs arbitrary: w) (auto simp: bit_clear_mask)

subsection \<open>Little-endian fields\<close>

definition u16_from_le_bytes :: "u8 \<Rightarrow> u8 \<Rightarrow> u16" where
  "u16_from_le_bytes b0 b1 = ucast b0 OR push_bit 8 (ucast b1)"

definition u16_to_le_bytes :: "u16 \<Rightarrow> u8 list" where
  "u16_to_le_bytes w = [ucast w, ucast (drop_bit 8 w)]"

lemma u16_to_le_bytes_nth [simp]:
  "u16_to_le_bytes w ! 0 = ucast w"
  "u16_to_le_bytes w ! Suc 0 = ucast (drop_bit 8 w)"
  "length (u16_to_le_bytes w) = 2"
  by (simp_all add: u16_to_le_bytes_def)

lemma u16_le_roundtrip [simp]:
  "u16_from_le_bytes (ucast w) (ucast (drop_bit 8 w)) = w"
  by (rule bit_word_eqI)
     (auto simp: u16_from_le_bytes_def bit_simps)

text \<open>The network-order fields of the Ethernet and LLC headers.\<close>

definition u16_from_be_bytes :: "u8 \<Rightarrow> u8 \<Rightarrow> u16" where
  "u16_from_be_bytes b0 b1 = u16_from_le_bytes b1 b0"

definition u16_to_be_bytes :: "u16 \<Rightarrow> u8 list" where
  "u16_to_be_bytes w = [ucast (drop_bit 8 w), ucast w]"

lemma u16_to_be_bytes_nth [simp]:
  "u16_to_be_bytes w ! 0 = ucast (drop_bit 8 w)"
  "u16_to_be_bytes w ! Suc 0 = ucast w"
  "length (u16_to_be_bytes w) = 2"
  by (simp_all add: u16_to_be_bytes_def)

lemma u16_be_roundtrip [simp]:
  "u16_from_be_bytes (ucast (drop_bit 8 w)) (ucast w) = w"
  by (simp add: u16_from_be_bytes_def)

lemma u16_from_le_bytes_parts:
  "(ucast (u16_from_le_bytes a b) :: u8) = a"
  "(ucast (drop_bit 8 (u16_from_le_bytes a b)) :: u8) = b"
  by (rule bit_word_eqI, auto simp: u16_from_le_bytes_def bit_simps dest: bit_imp_le_length)+

lemma u16_to_be_bytes_from [simp]: "u16_to_be_bytes (u16_from_be_bytes a b) = [a, b]"
  by (simp add: u16_to_be_bytes_def u16_from_be_bytes_def u16_from_le_bytes_parts)

text \<open>\<open>slice.get(offset..offset + len)\<close> and \<open>slice.split_first_chunk::<n>()\<close>.\<close>

definition get_slice :: "'a list \<Rightarrow> nat \<Rightarrow> nat \<Rightarrow> 'a list option" where
  "get_slice xs offset len =
     (if offset + len \<le> length xs then Some (take len (drop offset xs)) else None)"

definition split_first_chunk :: "nat \<Rightarrow> 'a list \<Rightarrow> ('a list \<times> 'a list) option" where
  "split_first_chunk n xs = (if length xs < n then None else Some (take n xs, drop n xs))"

lemma split_first_chunk_append [simp]:
  "length xs = n \<Longrightarrow> split_first_chunk n (xs @ ys) = Some (xs, ys)"
  by (simp add: split_first_chunk_def)

lemma split_first_chunk_eq_Some_iff:
  "split_first_chunk n xs = Some (ys, zs) \<longleftrightarrow> xs = ys @ zs \<and> length ys = n"
  by (auto simp: split_first_chunk_def)

lemma split_first_chunk_eq_None_iff [simp]: "split_first_chunk n xs = None \<longleftrightarrow> length xs < n"
  by (simp add: split_first_chunk_def)

lemma get_slice_append [simp]:
  "length xs = a \<Longrightarrow> length ys = n \<Longrightarrow> get_slice (xs @ ys @ zs) a n = Some ys"
  by (simp add: get_slice_def)

text \<open>\<open>copy_from_slice\<close> into \<open>body[i..i + length src]\<close>; the sources only use it in range.\<close>

definition write_at :: "nat \<Rightarrow> 'a list \<Rightarrow> 'a list \<Rightarrow> 'a list" where
  "write_at i src body = take i body @ src @ drop (i + length src) body"

lemma length_write_at [simp]:
  "i + length src \<le> length body \<Longrightarrow> length (write_at i src body) = length body"
  by (simp add: write_at_def)

lemma nth_write_at:
  "i + length src \<le> length body \<Longrightarrow> k < length body \<Longrightarrow>
   write_at i src body ! k = (if i \<le> k \<and> k < i + length src then src ! (k - i) else body ! k)"
  by (auto simp: write_at_def nth_append)

subsection \<open>Lists\<close>

text \<open>\<open>iter().flatten()\<close> over an array of options.\<close>

fun flatten :: "'a option list \<Rightarrow> 'a list" where
  "flatten [] = []"
| "flatten (None # xs) = flatten xs"
| "flatten (Some x # xs) = x # flatten xs"

lemma flatten_Cons: "flatten (x # xs) = (case x of None \<Rightarrow> [] | Some y \<Rightarrow> [y]) @ flatten xs"
  by (cases x) auto

lemma flatten_append [simp]: "flatten (xs @ ys) = flatten xs @ flatten ys"
  by (induction xs rule: flatten.induct) auto

lemma set_flatten: "x \<in> set (flatten xs) \<longleftrightarrow> Some x \<in> set xs"
  by (induction xs rule: flatten.induct) auto

lemma flatten_map_Some [simp]: "flatten (map Some xs) = xs"
  by (induction xs) auto

lemma flatten_replicate_None [simp]: "flatten (replicate n None) = []"
  by (induction n) auto

lemma flatten_filter: "map Some (flatten xs) = filter (\<lambda>x. x \<noteq> None) xs"
  by (induction xs rule: flatten.induct) auto

lemma length_flatten_le: "length (flatten xs) \<le> length xs"
  by (induction xs rule: flatten.induct) auto

lemma mset_flatten_None:
  "mset xs = image_mset Some (mset (flatten xs)) + replicate_mset (length xs - length (flatten xs)) None"
  by (induction xs rule: flatten.induct) (auto simp: Suc_diff_le length_flatten_le)

lemma flatten_select:
  "flatten (map (\<lambda>i. if P (xs ! i) then xs ! i else None) [0..<length xs])
     = filter (\<lambda>x. P (Some x)) (flatten xs)"
proof -
  have "map (\<lambda>i. if P (xs ! i) then xs ! i else None) [0..<length xs]
      = map (\<lambda>x. if P x then x else None) (map ((!) xs) [0..<length xs])"
    by simp
  also have "\<dots> = map (\<lambda>x. if P x then x else None) xs" by (simp only: map_nth)
  also have "flatten \<dots> = filter (\<lambda>x. P (Some x)) (flatten xs)"
    by (induction xs rule: flatten.induct) auto
  finally show ?thesis .
qed

lemma flatten_upt_Suc:
  "flatten (map g [0..<Suc n])
     = flatten (map g [0..<n]) @ (case g n of None \<Rightarrow> [] | Some x \<Rightarrow> [x])"
  by (simp add: flatten_Cons)

lemma flatten_upt_add:
  "flatten (map g [0..<m + n])
     = flatten (map g [0..<m]) @ flatten (map (\<lambda>d. g (m + d)) [0..<n])"
  by (induction n) (simp_all add: flatten_upt_Suc del: upt_Suc)

lemma set_flatten_upt: "x \<in> set (flatten (map g [0..<n])) \<longleftrightarrow> (\<exists>d<n. g d = Some x)"
  by (force simp: set_flatten)

text \<open>Positions outside \<open>[0..<m]\<close> that hold nothing do not show.\<close>

lemma flatten_upt_vacant:
  assumes "\<And>d. m \<le> d \<Longrightarrow> d < n \<Longrightarrow> g d = None" and "m \<le> n"
  shows "flatten (map g [0..<n]) = flatten (map g [0..<m])"
  using assms(2,1)
  by (induction n rule: dec_induct) (auto simp: flatten_upt_Suc simp del: upt_Suc)

lemma flatten_upt_masked:
  assumes "\<And>d. m \<le> d \<Longrightarrow> g d = None"
  shows "flatten (map (\<lambda>d. if d < n then g d else None) [0..<m]) = flatten (map g [0..<n])"
proof (cases "n \<le> m")
  case True
  have "flatten (map (\<lambda>d. if d < n then g d else None) [0..<m])
      = flatten (map (\<lambda>d. if d < n then g d else None) [0..<n])"
    using True by (intro flatten_upt_vacant) auto
  also have "\<dots> = flatten (map g [0..<n])"
    by (intro arg_cong [of _ _ flatten] map_cong) auto
  finally show ?thesis .
next
  case False
  then have "flatten (map g [0..<n]) = flatten (map g [0..<m])"
    using assms by (intro flatten_upt_vacant) auto
  also have "\<dots> = flatten (map (\<lambda>d. if d < n then g d else None) [0..<m])"
    using False by (intro arg_cong [of _ _ flatten] map_cong) auto
  finally show ?thesis by simp
qed

lemma mset_flatten_upt_insert:
  assumes "g k = None"
  shows "mset (flatten (map (g(k \<mapsto> x)) [0..<n]))
           = (if k < n then add_mset x else id) (mset (flatten (map g [0..<n])))"
  using assms
  by (induction n) (auto simp: flatten_upt_Suc less_Suc_eq simp del: upt_Suc split: option.splits)

lemma mset_flatten_update:
  "i < length xs \<Longrightarrow> xs ! i = None
    \<Longrightarrow> mset (flatten (xs[i := Some x])) = add_mset x (mset (flatten xs))"
  by (induction xs arbitrary: i)
     (auto simp: flatten_Cons nth_Cons add_mset_commute split: nat.splits option.splits)

lemma sorted_wrt_irrefl_distinct:
  "sorted_wrt P xs \<Longrightarrow> (\<And>x. \<not> P x x) \<Longrightarrow> distinct xs"
  by (induction xs) auto

text \<open>Positions read in order, and a sort that puts the vacant ones last.\<close>

lemma sorted_wrt_flatten_upt:
  assumes "\<And>d d' x y. d < d' \<Longrightarrow> d' < n \<Longrightarrow> g d = Some x \<Longrightarrow> g d' = Some y \<Longrightarrow> P x y"
  shows "sorted_wrt P (flatten (map g [0..<n]))"
  using assms
proof (induction n)
  case (Suc n)
  have "sorted_wrt P (flatten (map g [0..<n]))"
    by (rule Suc.IH) (use Suc.prems in force)
  moreover have "P x y" if "x \<in> set (flatten (map g [0..<n]))" "g n = Some y" for x y
    using that Suc.prems [of _ n] by (auto simp only: set_flatten_upt lessI)
  ultimately show ?case
    by (auto simp: flatten_upt_Suc sorted_wrt_append simp del: upt_Suc split: option.splits)
qed simp

lemma flatten_sort_key_upt:
  fixes key :: "'a option \<Rightarrow> 'k::linorder"
  assumes same: "mset (flatten xs) = mset (flatten (map g [0..<n]))"
    and rising: "\<And>d d' x y. d < d' \<Longrightarrow> d' < n \<Longrightarrow> g d = Some x \<Longrightarrow> g d' = Some y
      \<Longrightarrow> key (Some x) < key (Some y)"
    and last: "\<And>d x. d < n \<Longrightarrow> g d = Some x \<Longrightarrow> key (Some x) < key None"
  shows "flatten (sort_key key xs) = flatten (map g [0..<n])"
proof -
  let ?L = "flatten (map g [0..<n])"
  let ?T = "map Some ?L @ replicate (length xs - length (flatten xs)) None"
  have asc: "sorted_wrt (\<lambda>x y. key (Some x) < key (Some y)) ?L"
    using rising by (rule sorted_wrt_flatten_upt)
  have vac: "key (Some x) < key None" if "x \<in> set ?L" for x
    using that last by (auto simp: set_flatten_upt)
  have "sorted (map (key \<circ> Some) ?L)"
    using asc by (auto simp: sorted_map intro: sorted_wrt_mono_rel [rotated])
  then have sorted: "sorted (map key ?T)"
    using vac by (auto simp: sorted_append less_imp_le sorted_replicate)
  have perm: "mset xs = mset ?T"
    using mset_flatten_None [of xs] same by (simp add: multiset.map_comp)
  have "inj_on key (set ?T)"
  proof -
    have "distinct (map (key \<circ> Some) ?L)"
      using asc by (intro sorted_wrt_irrefl_distinct [of "(<)"]) (auto simp: sorted_wrt_map)
    then have "inj_on (key \<circ> Some) (set ?L)" by (simp add: distinct_map)
    moreover have "key (Some x) \<noteq> key None" if "x \<in> set ?L" for x
      using vac [OF that] by simp
    ultimately show ?thesis
      by (force simp: inj_on_def set_replicate_conv_if)
  qed
  then have "inj_on key (set xs)" by (simp only: mset_eq_setD [OF perm])
  then have "sort_key key xs = ?T" by (rule sort_key_inj_key_eq [OF perm _ sorted])
  then show ?thesis by simp
qed

text \<open>
  \<open>iter_mut().flatten().find(p)\<close>: the first filled position that satisfies \<open>p\<close>, updated in place.
  On the filled positions it is \<open>map_first\<close>.
\<close>

fun update_first :: "('a \<Rightarrow> bool) \<Rightarrow> ('a \<Rightarrow> 'a) \<Rightarrow> 'a option list \<Rightarrow> 'a option list" where
  "update_first p f [] = []"
| "update_first p f (None # xs) = None # update_first p f xs"
| "update_first p f (Some x # xs) = (if p x then Some (f x) # xs else Some x # update_first p f xs)"

fun map_first :: "('a \<Rightarrow> bool) \<Rightarrow> ('a \<Rightarrow> 'a) \<Rightarrow> 'a list \<Rightarrow> 'a list" where
  "map_first p f [] = []"
| "map_first p f (x # xs) = (if p x then f x # xs else x # map_first p f xs)"

lemma length_update_first [simp]: "length (update_first p f xs) = length xs"
  by (induction xs rule: flatten.induct) auto

lemma flatten_update_first [simp]: "flatten (update_first p f xs) = map_first p f (flatten xs)"
  by (induction xs rule: flatten.induct) auto

lemma flatten_map_map_option [simp]: "flatten (map (map_option f) xs) = map f (flatten xs)"
  by (induction xs rule: flatten.induct) auto

lemma map_first_keep: "(\<And>x. g (f x) = g x) \<Longrightarrow> map g (map_first p f xs) = map g xs"
  by (induction xs) auto

lemma set_map_first:
  "x \<in> set (map_first p f xs) \<Longrightarrow> x \<in> set xs \<or> (\<exists>y. find p xs = Some y \<and> x = f y)"
  by (induction xs) (auto split: if_splits)

lemma find_SomeD: "find p xs = Some x \<Longrightarrow> x \<in> set xs \<and> p x"
  by (induction xs) (auto split: if_splits)

lemma map_first_none: "find p xs = None \<Longrightarrow> map_first p f xs = xs"
  by (induction xs) (auto split: if_splits)

lemma map_first_eq_map:
  assumes "find p xs = Some x" and "distinct (map g xs)"
  shows "map_first p f xs = map (\<lambda>y. if g y = g x then f y else y) xs"
  using assms
proof (induction xs)
  case (Cons y ys)
  show ?case
  proof (cases "p y")
    case True
    with Cons.prems have "x = y" by simp
    moreover have "g z \<noteq> g y" if "z \<in> set ys" for z
      using Cons.prems(2) that by (auto simp: image_iff)
    then have "map (\<lambda>z. if g z = g y then f z else z) ys = ys" by (intro map_idI) simp
    ultimately show ?thesis using True by simp
  next
    case False
    with Cons.prems have "find p ys = Some x" by simp
    moreover from this have "g y \<noteq> g x"
      using Cons.prems(2) find_SomeD [of p ys x] by (auto simp: image_iff)
    ultimately show ?thesis using False Cons by simp
  qed
qed simp

lemma find_key: "distinct (map g xs) \<Longrightarrow> x \<in> set xs \<Longrightarrow> find (\<lambda>y. g y = g x) xs = Some x"
  by (induction xs) force+

lemma find_map_key:
  "(\<And>x. g (h x) = g x) \<Longrightarrow> find (\<lambda>y. g y = k) (map h xs) = map_option h (find (\<lambda>y. g y = k) xs)"
  by (induction xs) auto

lemma sum_list_map_first:
  fixes g :: "'a \<Rightarrow> nat"
  shows "find p xs = Some x
    \<Longrightarrow> sum_list (map g (map_first p f xs)) + g x = sum_list (map g xs) + g (f x)"
  by (induction xs) (auto split: if_splits)

lemma sum_list_if_const:
  "sum_list (map (\<lambda>x. if g x = t then c else 0) xs) = c * count_list (map g xs) t" for c :: nat
  by (induction xs) auto

lemma count_list_distinct: "distinct xs \<Longrightarrow> count_list xs t \<le> 1"
  by (induction xs) (auto simp: count_notin)

lemma sum_list_map_first_le:
  fixes g :: "'a \<Rightarrow> nat"
  shows "(\<And>x. g (f x) \<le> g x) \<Longrightarrow> sum_list (map g (map_first p f xs)) \<le> sum_list (map g xs)"
  by (induction xs) auto

subsection \<open>Rotated arrays\<close>

lemma rotation_inj:
  fixes h d d' W :: nat
  assumes "h < W" "d < W" "d' < W" "(h + d) mod W = (h + d') mod W"
  shows "d = d'"
proof -
  have mod_eq: "(h + e) mod W = (if h + e < W then h + e else h + e - W)" if "e < W" for e
    using assms(1) that by (simp add: le_mod_geq)
  from assms show ?thesis
    by (auto simp: mod_eq split: if_splits)
qed

lemma rotation_surj:
  fixes h i W :: nat
  assumes "h < W" "i < W"
  shows "\<exists>d<W. (h + d) mod W = i"
proof (cases "h \<le> i")
  case True
  with assms show ?thesis by (intro exI [of _ "i - h"]) auto
next
  case False
  with assms show ?thesis by (intro exI [of _ "W + i - h"]) auto
qed

lemma map_rotation:
  "length xs = W \<Longrightarrow> map (\<lambda>d. xs ! ((h + d) mod W)) [0..<W] = rotate h xs"
  by (rule nth_equalityI) (simp_all add: nth_rotate)

lemma mset_flatten_rotate: "mset (flatten (rotate n xs)) = mset (flatten xs)"
proof -
  let ?k = "n mod length xs"
  have "mset (flatten (rotate n xs)) = mset (flatten (drop ?k xs @ take ?k xs))"
    by (simp add: rotate_drop_take)
  also have "\<dots> = mset (flatten (take ?k xs @ drop ?k xs))"
    by (simp del: append_take_drop_id)
  also have "\<dots> = mset (flatten xs)" by (simp only: append_take_drop_id)
  finally show ?thesis .
qed

subsection \<open>Cyclic sequence spaces\<close>

text \<open>
  The interface of a modular sequence-number type: \<open>index\<close> reads a number, \<open>advance\<close> moves
  forward and \<open>dist\<close> is the number of increments from one number to another.  The receive
  window arithmetic of the reorder buffer is proved from these laws only.
\<close>

locale sequence_space =
  fixes valid :: "'s \<Rightarrow> bool"
    and index :: "'s \<Rightarrow> nat"
    and N :: nat
    and advance :: "'s \<Rightarrow> nat \<Rightarrow> 's"
    and dist :: "'s \<Rightarrow> 's \<Rightarrow> nat"
  assumes N_pos: "0 < N"
    and index_less: "valid s \<Longrightarrow> index s < N"
    and index_inj: "valid s \<Longrightarrow> valid t \<Longrightarrow> index s = index t \<Longrightarrow> s = t"
    and valid_advance: "valid s \<Longrightarrow> valid (advance s n)"
    and index_advance: "valid s \<Longrightarrow> index (advance s n) = (index s + n) mod N"
    and dist_eq: "valid s \<Longrightarrow> valid t \<Longrightarrow> dist s t = (index t + N - index s) mod N"
begin

lemma dist_less: "valid s \<Longrightarrow> valid t \<Longrightarrow> dist s t < N"
  using N_pos by (simp add: dist_eq)

lemma dist_self: "valid s \<Longrightarrow> dist s s = 0"
  using index_less [of s] by (simp add: dist_eq)

text \<open>The distance is the unique offset below \<open>N\<close> that leads from one number to the other.\<close>

lemma dist_unique:
  assumes "valid s" "valid t" "d < N" "index t = (index s + d) mod N"
  shows "dist s t = d"
proof -
  have lt: "index s < N" using assms(1) by (rule index_less)
  then have split: "N = index s + (N - index s)" by simp
  have "dist s t = ((index s + d) mod N + (N - index s)) mod N"
    using assms lt by (simp add: dist_eq)
  also have "\<dots> = (index s + d + (N - index s)) mod N"
    by (simp add: mod_add_left_eq)
  also have "\<dots> = (d + N) mod N"
    using lt by (simp add: algebra_simps)
  also have "\<dots> = d"
    using assms(3) by simp
  finally show ?thesis .
qed

lemma dist_advance: "valid s \<Longrightarrow> dist s (advance s n) = n mod N"
  using N_pos by (intro dist_unique) (auto simp: valid_advance index_advance mod_add_right_eq)

lemma index_dist:
  assumes "valid s" "valid t"
  shows "index t = (index s + dist s t) mod N"
proof -
  have lt: "index s < N" "index t < N" using assms by (auto simp: index_less)
  have "(index s + dist s t) mod N = (index s + (index t + N - index s)) mod N"
    using assms by (simp add: dist_eq mod_add_right_eq)
  also have "\<dots> = index t"
    using lt by simp
  finally show ?thesis by simp
qed

lemma advance_dist: "valid s \<Longrightarrow> valid t \<Longrightarrow> advance s (dist s t) = t"
  by (rule index_inj) (simp_all add: valid_advance index_advance flip: index_dist)

lemma dist_inj:
  "valid s \<Longrightarrow> valid t \<Longrightarrow> valid u \<Longrightarrow> dist s t = dist s u \<Longrightarrow> t = u"
  by (metis advance_dist)

lemma dist_zero_iff: "valid s \<Longrightarrow> valid t \<Longrightarrow> dist s t = 0 \<longleftrightarrow> s = t"
  by (metis dist_inj dist_self)

lemma advance_zero: "valid s \<Longrightarrow> advance s 0 = s"
  by (rule index_inj) (simp_all add: valid_advance index_advance index_less)

lemma advance_advance: "valid s \<Longrightarrow> advance (advance s m) n = advance s (m + n)"
  by (rule index_inj)
     (simp_all add: valid_advance index_advance mod_add_left_eq add.assoc)

lemma advance_eq_iff:
  "valid s \<Longrightarrow> m < N \<Longrightarrow> n < N \<Longrightarrow> advance s m = advance s n \<longleftrightarrow> m = n"
  by (metis dist_advance mod_less)

text \<open>Moving the origin forward by no more than the distance shortens the distance.\<close>

lemma dist_shift:
  assumes "valid s" "valid t" "n \<le> dist s t"
  shows "dist (advance s n) t = dist s t - n"
proof (rule dist_unique)
  have "(index (advance s n) + (dist s t - n)) mod N = (index s + n + (dist s t - n)) mod N"
    using assms(1) by (simp add: index_advance mod_add_left_eq)
  also have "\<dots> = index t"
    using assms by (simp flip: index_dist)
  finally show "index t = (index (advance s n) + (dist s t - n)) mod N" by simp
qed (use assms dist_less [of s t] in \<open>auto simp: valid_advance\<close>)

text \<open>Moving the origin past a number puts it behind, at the end of the space.\<close>

lemma dist_shift_past:
  assumes "valid s" "valid t" "dist s t < n" "n \<le> N"
  shows "dist (advance s n) t = N - n + dist s t"
proof (rule dist_unique)
  have "(index (advance s n) + (N - n + dist s t)) mod N
      = (index s + n + (N - n + dist s t)) mod N"
    using assms(1) by (simp add: index_advance mod_add_left_eq)
  also have "\<dots> = ((index s + dist s t) + N) mod N"
    using assms(4) by (simp add: algebra_simps)
  also have "\<dots> = index t"
    using assms by (simp flip: index_dist)
  finally show "index t = (index (advance s n) + (N - n + dist s t)) mod N" by simp
qed (use assms in \<open>auto simp: valid_advance\<close>)

lemma dist_reverse:
  assumes "valid s" "valid t" "s \<noteq> t"
  shows "dist t s = N - dist s t"
proof -
  let ?d = "dist s t"
  have "?d \<noteq> 0" using assms by (simp add: dist_zero_iff)
  moreover have "dist (advance s ?d) s = N - ?d + dist s s"
    using assms dist_less [of s t] \<open>?d \<noteq> 0\<close> by (intro dist_shift_past) (auto simp: dist_self)
  ultimately show ?thesis
    using assms by (simp add: advance_dist dist_self)
qed

end

subsection \<open>State machines that keep an invariant\<close>

text \<open>
  The contract between a component and its caller: the constructor establishes the component's
  invariant and every operation keeps it, so that it holds after any sequence of operations.
  An operation that fails leaves the machine in the state its error path leaves.
\<close>

locale invariant_machine =
  fixes inv :: "'s \<Rightarrow> bool"
    and step :: "'s \<Rightarrow> 'op \<Rightarrow> 's"
  assumes step_inv: "inv s \<Longrightarrow> inv (step s op)"
begin

lemma run_inv: "inv s \<Longrightarrow> inv (foldl step s ops)"
  by (induction ops arbitrary: s) (auto simp: step_inv)

end

subsection \<open>Rising frontiers\<close>

text \<open>
  The interface of a replay check: \<open>admit s l n\<close> is the new state when the number \<open>n\<close> is admitted
  on the lane \<open>l\<close>, \<open>None\<close> when it is refused; \<open>frontier s l\<close> is the highest admitted number of
  the lane.  The laws say that only a number above the frontier is admitted, and that it becomes
  the frontier of its own lane alone.
\<close>

text \<open>A run of the check: the admitted numbers, in order; refused numbers change nothing.\<close>

fun admitted :: "('s \<Rightarrow> 'l \<Rightarrow> 'n \<Rightarrow> 's option) \<Rightarrow> 's \<Rightarrow> ('l \<times> 'n) list \<Rightarrow> ('l \<times> 'n) list" where
  "admitted admit s [] = []"
| "admitted admit s ((l, n) # rest) =
     (case admit s l n of
        None \<Rightarrow> admitted admit s rest
      | Some s' \<Rightarrow> (l, n) # admitted admit s' rest)"

locale rising_frontier =
  fixes valid :: "'s \<Rightarrow> bool"
    and admit :: "'s \<Rightarrow> 'l \<Rightarrow> 'n::linorder \<Rightarrow> 's option"
    and frontier :: "'s \<Rightarrow> 'l \<Rightarrow> 'n"
  assumes admit_valid: "valid s \<Longrightarrow> admit s l n = Some s' \<Longrightarrow> valid s'"
    and admit_above: "valid s \<Longrightarrow> admit s l n = Some s' \<Longrightarrow> frontier s l < n"
    and admit_frontier: "valid s \<Longrightarrow> admit s l n = Some s' \<Longrightarrow> frontier s' = (frontier s)(l := n)"
begin

lemma admit_once:
  assumes "valid s" "admit s l n = Some s'"
  shows "admit s' l n = None"
proof (cases "admit s' l n")
  case (Some s'')
  with admit_above [OF admit_valid [OF assms] Some] admit_frontier [OF assms] show ?thesis by simp
qed

lemma admitted_above:
  "valid s \<Longrightarrow> (l, n) \<in> set (admitted admit s xs) \<Longrightarrow> frontier s l < n"
proof (induction xs arbitrary: s)
  case (Cons x xs)
  obtain l' n' where x: "x = (l', n')" by force
  show ?case
  proof (cases "admit s l' n'")
    case None
    with Cons x show ?thesis by simp
  next
    case (Some s')
    with Cons x admit_valid [OF Cons.prems(1) Some]
    consider "l = l'" "n = n'" | "frontier s' l < n" by auto
    then show ?thesis
      using admit_above [OF Cons.prems(1) Some] admit_frontier [OF Cons.prems(1) Some]
      by cases (auto simp: fun_upd_apply split: if_splits)
  qed
qed simp

lemma admitted_rising:
  "valid s \<Longrightarrow> sorted_wrt (\<lambda>(l, n) (l', n'). l = l' \<longrightarrow> n < n') (admitted admit s xs)"
proof (induction xs arbitrary: s)
  case (Cons x xs)
  obtain l n where x: "x = (l, n)" by force
  show ?case
  proof (cases "admit s l n")
    case (Some s')
    note valid' = admit_valid [OF Cons.prems Some]
    have "n < n'" if "(l, n') \<in> set (admitted admit s' xs)" for n'
      using admitted_above [OF valid' that] admit_frontier [OF Cons.prems Some] by simp
    with Some x Cons.IH [OF valid'] show ?thesis by auto
  qed (use Cons x in simp)
qed simp

lemma admitted_distinct: "valid s \<Longrightarrow> distinct (admitted admit s xs)"
  using admitted_rising [of s xs] by (rule sorted_wrt_irrefl_distinct) auto

end

end
