(* ===== verification/Oer_Time.thy ===== *)
theory Oer_Time
  imports Oer_Prelude
begin

text \<open>
  The monotonic time axis of \<open>crates/time/src/lib.rs\<close>: \<open>Instant\<close> and \<open>Duration\<close> are newtypes over
  \<open>u64\<close> microseconds, ordered as their counts.  Checked arithmetic fails instead of wrapping, and
  \<open>Instant::saturating_add\<close> stops at the end of representable time.
\<close>

datatype Instant = Instant (as_micros: u64)
datatype Duration = Duration (duration_micros: u64)

instantiation Instant :: linorder
begin

definition less_eq_Instant :: "Instant \<Rightarrow> Instant \<Rightarrow> bool" where
  "less_eq_Instant a b \<longleftrightarrow> as_micros a \<le> as_micros b"

definition less_Instant :: "Instant \<Rightarrow> Instant \<Rightarrow> bool" where
  "less_Instant a b \<longleftrightarrow> as_micros a < as_micros b"

instance
  by standard (auto simp: less_eq_Instant_def less_Instant_def intro: Instant.expand)

end

instantiation Duration :: linorder
begin

definition less_eq_Duration :: "Duration \<Rightarrow> Duration \<Rightarrow> bool" where
  "less_eq_Duration a b \<longleftrightarrow> duration_micros a \<le> duration_micros b"

definition less_Duration :: "Duration \<Rightarrow> Duration \<Rightarrow> bool" where
  "less_Duration a b \<longleftrightarrow> duration_micros a < duration_micros b"

instance
  by standard (auto simp: less_eq_Duration_def less_Duration_def intro: Duration.expand)

end

lemmas time_order_defs =
  less_eq_Instant_def less_Instant_def less_eq_Duration_def less_Duration_def

definition Instant_EPOCH :: Instant where
  "Instant_EPOCH = Instant 0"

definition Duration_ZERO :: Duration where
  "Duration_ZERO = Duration 0"

definition Duration_from_millis :: "u32 \<Rightarrow> Duration" where
  "Duration_from_millis millis = Duration (ucast millis * 1000)"

definition Duration_from_secs :: "u32 \<Rightarrow> Duration" where
  "Duration_from_secs secs = Duration (ucast secs * 1000000)"

definition Instant_checked_add :: "Instant \<Rightarrow> Duration \<Rightarrow> Instant option" where
  "Instant_checked_add self duration =
     (case checked_add (as_micros self) (duration_micros duration) of
        Some micros \<Rightarrow> Some (Instant micros)
      | None \<Rightarrow> None)"

definition Instant_saturating_add :: "Instant \<Rightarrow> Duration \<Rightarrow> Instant" where
  "Instant_saturating_add self duration =
     Instant (saturating_add (as_micros self) (duration_micros duration))"

definition Instant_checked_sub :: "Instant \<Rightarrow> Duration \<Rightarrow> Instant option" where
  "Instant_checked_sub self duration =
     (case checked_sub (as_micros self) (duration_micros duration) of
        Some micros \<Rightarrow> Some (Instant micros)
      | None \<Rightarrow> None)"

definition checked_duration_since :: "Instant \<Rightarrow> Instant \<Rightarrow> Duration option" where
  "checked_duration_since self earlier =
     (case checked_sub (as_micros self) (as_micros earlier) of
        Some micros \<Rightarrow> Some (Duration micros)
      | None \<Rightarrow> None)"

definition saturating_duration_since :: "Instant \<Rightarrow> Instant \<Rightarrow> Duration" where
  "saturating_duration_since self earlier =
     Duration (saturating_sub (as_micros self) (as_micros earlier))"

definition Duration_checked_add :: "Duration \<Rightarrow> Duration \<Rightarrow> Duration option" where
  "Duration_checked_add self other =
     (case checked_add (duration_micros self) (duration_micros other) of
        Some micros \<Rightarrow> Some (Duration micros)
      | None \<Rightarrow> None)"

definition Duration_saturating_sub :: "Duration \<Rightarrow> Duration \<Rightarrow> Duration" where
  "Duration_saturating_sub self other =
     Duration (saturating_sub (duration_micros self) (duration_micros other))"

text \<open>\<open>Clock::deadline_after\<close>, given what \<open>Clock::now\<close> returns.\<close>

datatype TimeOverflow = TimeOverflow

definition deadline_after :: "Instant \<Rightarrow> Duration \<Rightarrow> (Instant, TimeOverflow) result" where
  "deadline_after now duration = ok_or (Instant_checked_add now duration) TimeOverflow"

subsection \<open>Facts\<close>

lemma Instant_checked_add_eq_Some_iff:
  "Instant_checked_add t d = Some u
     \<longleftrightarrow> unat (as_micros u) = unat (as_micros t) + unat (duration_micros d)"
proof -
  let ?sum = "unat (as_micros t) + unat (duration_micros d)"
  have "u = Instant (as_micros t + duration_micros d)" "?sum < 2 ^ 64"
    if eq: "unat (as_micros u) = ?sum"
  proof -
    show lt: "?sum < 2 ^ 64" using unat_u64_less [of "as_micros u"] eq by simp
    have "as_micros u = as_micros t + duration_micros d"
      using eq lt by (simp add: word_unat_eq_iff unat_word_ariths)
    then show "u = Instant (as_micros t + duration_micros d)" by (cases u) simp
  qed
  then show ?thesis
    by (auto simp: Instant_checked_add_def checked_add_def unat_word_ariths)
qed

lemma Instant_checked_add_mono: "Instant_checked_add t d = Some u \<Longrightarrow> t \<le> u"
  by (simp add: Instant_checked_add_eq_Some_iff less_eq_Instant_def word_le_nat_alt)

lemma Instant_saturating_add_mono: "t \<le> Instant_saturating_add t d"
  using unat_u64_less [of "as_micros t"]
  by (simp add: Instant_saturating_add_def less_eq_Instant_def word_le_nat_alt
      unat_saturating_add)

lemma Instant_EPOCH_le [simp]: "Instant_EPOCH \<le> t"
  by (simp add: Instant_EPOCH_def less_eq_Instant_def)

text \<open>The two conversions from smaller units never wrap: every \<open>u32\<close> fits.\<close>

lemma Duration_from_millis_exact:
  "unat (duration_micros (Duration_from_millis m)) = unat m * 1000"
  using unat_u32_less [of m]
  by (simp add: Duration_from_millis_def unat_word_ariths)

lemma Duration_from_secs_exact:
  "unat (duration_micros (Duration_from_secs s)) = unat s * 1000000"
  using unat_u32_less [of s]
  by (simp add: Duration_from_secs_def unat_word_ariths)

end
