(* ===== verification/Sequence_Number.thy ===== *)
theory Sequence_Number
  imports Oer_Prelude
begin

text \<open>
  The twelve-bit sequence numbers of \<open>crates/protocols/ieee80211/mac/src/sequence.rs\<close>.  The type
  is a newtype over \<open>u16\<close>; every constructor masks to twelve bits, which is the invariant
  \<open>sequence_ok\<close>.  The theory interprets the interface \<open>sequence_space\<close> on it, with
  \<open>wrapping_add\<close> as the advance and \<open>forward_distance\<close> as the distance, and shows that the masked
  \<open>u16\<close> arithmetic is the arithmetic of twelve-bit words.
\<close>

datatype SequenceNumber = SequenceNumber (get: u16)

definition MODULUS :: u16 where "MODULUS = 4096"
definition HALF_SPACE :: u16 where "HALF_SPACE = MODULUS div 2"
definition MASK :: u16 where "MASK = MODULUS - 1"

definition SequenceNumber_ZERO :: SequenceNumber where
  "SequenceNumber_ZERO = SequenceNumber 0"

definition SequenceNumber_MAX :: SequenceNumber where
  "SequenceNumber_MAX = SequenceNumber MASK"

definition SequenceNumber_new :: "u16 \<Rightarrow> SequenceNumber option" where
  "SequenceNumber_new val = (if val \<le> MASK then Some (SequenceNumber val) else None)"

definition from_low_bits :: "u16 \<Rightarrow> SequenceNumber" where
  "from_low_bits val = SequenceNumber (val AND MASK)"

definition from_sequence_control :: "u16 \<Rightarrow> SequenceNumber" where
  "from_sequence_control sc = SequenceNumber (drop_bit 4 sc)"

definition sequence_control :: "SequenceNumber \<Rightarrow> u16" where
  "sequence_control self = push_bit 4 (get self)"

definition sequence_control_with_fragment :: "SequenceNumber \<Rightarrow> u8 \<Rightarrow> u16" where
  "sequence_control_with_fragment self fragment =
     push_bit 4 (get self) OR (ucast fragment AND 0x000f)"

definition wrapping_add :: "SequenceNumber \<Rightarrow> u16 \<Rightarrow> SequenceNumber" where
  "wrapping_add self increment = SequenceNumber ((get self + increment) AND MASK)"

definition wrapping_sub :: "SequenceNumber \<Rightarrow> u16 \<Rightarrow> SequenceNumber" where
  "wrapping_sub self decrement = SequenceNumber ((get self - decrement) AND MASK)"

definition SequenceNumber_next :: "SequenceNumber \<Rightarrow> SequenceNumber" where
  "SequenceNumber_next self = wrapping_add self 1"

definition forward_distance :: "SequenceNumber \<Rightarrow> SequenceNumber \<Rightarrow> u16" where
  "forward_distance self later = (get later - get self) AND MASK"

definition precedes :: "SequenceNumber \<Rightarrow> SequenceNumber \<Rightarrow> bool" where
  "precedes self later =
     (let distance = forward_distance self later
      in distance \<noteq> 0 \<and> distance < HALF_SPACE)"

subsection \<open>The invariant and its constructors\<close>

definition sequence_ok :: "SequenceNumber \<Rightarrow> bool" where
  "sequence_ok s \<longleftrightarrow> get s \<le> MASK"

lemmas sequence_consts = MODULUS_def HALF_SPACE_def MASK_def

lemma HALF_SPACE_eq: "HALF_SPACE = 2048"
  by (simp add: sequence_consts)

lemma sequence_ok_iff: "sequence_ok s \<longleftrightarrow> unat (get s) < 4096"
  by (auto simp: sequence_ok_def sequence_consts word_le_nat_alt)

lemma unat_and_MASK [oer_word]: "unat (w AND MASK) = unat w mod 4096"
  by (simp add: sequence_consts oer_word)

lemma sequence_ok_constructors [simp, intro]:
  "sequence_ok SequenceNumber_ZERO"
  "sequence_ok SequenceNumber_MAX"
  "sequence_ok (from_low_bits v)"
  "sequence_ok (from_sequence_control v)"
  "sequence_ok (wrapping_add s n)"
  "sequence_ok (wrapping_sub s n)"
  "sequence_ok (SequenceNumber_next s)"
proof -
  show "sequence_ok (from_sequence_control v)"
    using unat_u16_less [of v]
    by (simp add: sequence_ok_iff from_sequence_control_def drop_bit_eq_div unat_div
        div_less_iff_less_mult)
qed (simp_all add: sequence_ok_iff SequenceNumber_ZERO_def SequenceNumber_MAX_def
      from_low_bits_def wrapping_add_def wrapping_sub_def SequenceNumber_next_def oer_word
      sequence_consts)

lemma SequenceNumber_new_eq_Some_iff:
  "SequenceNumber_new v = Some s \<longleftrightarrow> s = SequenceNumber v \<and> sequence_ok s"
  by (auto simp: SequenceNumber_new_def sequence_ok_def)

subsection \<open>The arithmetic is that of the integers modulo 4096\<close>

lemma unat_wrapping_add:
  "unat (get (wrapping_add s n)) = (unat (get s) + unat n) mod 4096"
proof -
  have "(unat (get s) + unat n) mod 65536 mod 4096 = (unat (get s) + unat n) mod 4096"
    by (rule mod_mod_cancel) simp
  then show ?thesis
    by (simp add: wrapping_add_def oer_word unat_word_ariths)
qed

lemma unat_diff_mod_4096:
  "unat ((a - b :: u16) AND MASK) = (unat a + (65536 - unat b)) mod 4096"
proof -
  have b: "unat b < 65536" by (rule unat_u16_less)
  have "unat (a - b) = (unat a + (65536 - unat b)) mod 65536"
  proof (cases "b \<le> a")
    case True
    then have "unat b \<le> unat a" by (simp add: word_le_nat_alt)
    then have "unat a + (65536 - unat b) = (unat a - unat b) + 65536" using b by simp
    then have "(unat a + (65536 - unat b)) mod 65536 = (unat a - unat b) mod 65536" by simp
    also have "\<dots> = unat a - unat b"
      using unat_u16_less [of a] by (intro mod_less) linarith
    finally show ?thesis using True by (simp add: unat_sub)
  next
    case False
    then have "unat a < unat b" by (simp add: word_le_nat_alt)
    with b have "unat a + 65536 - unat b = (unat a + (65536 - unat b)) mod 65536" by simp
    with False show ?thesis
      by (simp add: unat_sub_if_size word_le_nat_alt word_size)
  qed
  then have "unat (a - b) mod 4096 = (unat a + (65536 - unat b)) mod 4096"
    by (simp add: mod_mod_cancel)
  then show ?thesis by (simp add: oer_word)
qed

lemma unat_forward_distance:
  assumes "sequence_ok s"
  shows "unat (forward_distance s t) = (unat (get t) + 4096 - unat (get s)) mod 4096"
proof -
  have s: "unat (get s) < 4096" using assms by (simp add: sequence_ok_iff)
  have "unat (get t) + (65536 - unat (get s)) = (unat (get t) + 4096 - unat (get s)) + 15 * 4096"
    using s by simp
  then have "(unat (get t) + (65536 - unat (get s))) mod 4096
      = (unat (get t) + 4096 - unat (get s)) mod 4096"
    by (simp only: mod_mult_self1)
  then show ?thesis by (simp add: forward_distance_def unat_diff_mod_4096)
qed

lemma unat_of_nat_u16_mod: "unat (of_nat n :: u16) mod 4096 = n mod 4096"
  by (simp add: unat_of_nat mod_mod_cancel)

lemma forward_distance_less: "unat (forward_distance s t) < 4096"
  by (simp add: forward_distance_def oer_word)

text \<open>The model's sequence numbers provide the interface \<open>sequence_space\<close>.\<close>

interpretation sn: sequence_space sequence_ok "\<lambda>s. unat (get s)" 4096
  "\<lambda>s n. wrapping_add s (of_nat n)" "\<lambda>s t. unat (forward_distance s t)"
proof
  fix s t n
  show "unat (get (wrapping_add s (of_nat n))) = (unat (get s) + n) mod 4096"
    by (metis mod_add_right_eq unat_of_nat_u16_mod unat_wrapping_add)
  show "sequence_ok s \<Longrightarrow> sequence_ok t \<Longrightarrow> unat (get s) = unat (get t) \<Longrightarrow> s = t"
    by (simp add: word_unat_eq_iff SequenceNumber.expand)
qed (auto simp: unat_forward_distance simp flip: sequence_ok_iff)

lemma wrapping_add_of_nat [simp]: "wrapping_add s (of_nat (unat n)) = wrapping_add s n"
  by simp

text \<open>The facts of the interpretation with \<open>u16\<close> arguments, as the code has them.\<close>

lemma forward_distance_self [simp]: "sequence_ok s \<Longrightarrow> forward_distance s s = 0"
  by (simp add: forward_distance_def)

lemma forward_distance_wrapping_add:
  "sequence_ok s \<Longrightarrow> unat n < 4096 \<Longrightarrow> forward_distance s (wrapping_add s n) = n"
  using sn.dist_advance [of s "unat n"] by (simp add: word_unat_eq_iff)

lemma forward_distance_eq_iff:
  "sequence_ok s \<Longrightarrow> sequence_ok t \<Longrightarrow> sequence_ok u
    \<Longrightarrow> forward_distance s t = forward_distance s u \<longleftrightarrow> t = u"
  using sn.dist_inj by (auto simp: word_unat_eq_iff)

lemma wrapping_add_forward_distance:
  "sequence_ok s \<Longrightarrow> sequence_ok t \<Longrightarrow> wrapping_add s (forward_distance s t) = t"
  using sn.advance_dist [of s t] by simp

lemma unat_forward_distance_shift:
  "sequence_ok s \<Longrightarrow> sequence_ok t \<Longrightarrow> unat n \<le> unat (forward_distance s t)
    \<Longrightarrow> unat (forward_distance (wrapping_add s n) t) = unat (forward_distance s t) - unat n"
  using sn.dist_shift [of s t "unat n"] by simp

text \<open>The Sequence Control field keeps the number and the fragment number apart.\<close>

lemma sequence_control_with_fragment_fields:
  assumes "sequence_ok s"
  shows "from_sequence_control (sequence_control_with_fragment s f) = s"
    and "sequence_control_with_fragment s f AND 0x000f = ucast f AND 0x000f"
proof -
  have s: "bit (get s) k \<Longrightarrow> k < 12" for k
    using bit_less_exp [of "get s" 12 k] assms by (simp add: sequence_ok_iff)
  have "drop_bit 4 (push_bit 4 (get s) OR (ucast f AND 0x000f)) = get s"
    unfolding mask_4 by (rule bit_word_eqI) (auto simp: bit_simps dest: s)
  then show "from_sequence_control (sequence_control_with_fragment s f) = s"
    by (simp add: from_sequence_control_def sequence_control_with_fragment_def)
  show "sequence_control_with_fragment s f AND 0x000f = ucast f AND 0x000f"
    unfolding sequence_control_with_fragment_def mask_4
    by (rule bit_word_eqI) (auto simp: bit_simps)
qed

lemma sequence_control_roundtrip:
  "sequence_ok s \<Longrightarrow> from_sequence_control (sequence_control s) = s"
  using sequence_control_with_fragment_fields(1) [of s 0]
  by (simp add: sequence_control_def sequence_control_with_fragment_def)

text \<open>The masked \<open>u16\<close> arithmetic refines the arithmetic of twelve-bit words.\<close>

definition sequence_abs :: "SequenceNumber \<Rightarrow> 12 word" where
  "sequence_abs s = ucast (get s)"

lemma unat_sequence_abs: "unat (sequence_abs s) = unat (get s) mod 4096"
  by (simp add: sequence_abs_def unsigned_ucast_eq take_bit_eq_mod)

lemma sequence_abs_inj:
  "sequence_ok s \<Longrightarrow> sequence_ok t \<Longrightarrow> sequence_abs s = sequence_abs t \<longleftrightarrow> s = t"
  by (metis mod_less sequence_ok_iff sn.index_inj unat_sequence_abs)

lemma sequence_abs_wrapping_add: "sequence_abs (wrapping_add s n) = sequence_abs s + ucast n"
  by (simp add: word_unat_eq_iff unat_sequence_abs unat_wrapping_add unat_word_ariths
      unsigned_ucast_eq take_bit_eq_mod mod_add_eq)

lemma sequence_abs_forward_distance:
  assumes "sequence_ok s" "sequence_ok t"
  shows "sequence_abs t - sequence_abs s = ucast (forward_distance s t)"
proof -
  have "sequence_abs t = sequence_abs s + ucast (forward_distance s t)"
    using sequence_abs_wrapping_add [of s "forward_distance s t"]
      wrapping_add_forward_distance [OF assms] by simp
  then show ?thesis by simp
qed

lemma precedes_iff:
  "precedes s t \<longleftrightarrow> 0 < unat (forward_distance s t) \<and> unat (forward_distance s t) < 2048"
  by (auto simp: precedes_def Let_def HALF_SPACE_eq word_less_nat_alt unat_gt_0)

text \<open>
  Sequence numbers are twelve-bit words with a cyclic order.  Addition and forward distance are
  the addition and difference of twelve-bit words; \<open>precedes\<close> never holds both ways, holds one
  way for any two different numbers that are not exactly half the space apart, and a number precedes
  each of the 2047 numbers that follow it.
\<close>

theorem sequence_numbers_cyclic_order:
  assumes "sequence_ok s" and "sequence_ok t"
  shows "sequence_abs (wrapping_add s n) = sequence_abs s + ucast n
    \<and> sequence_abs t - sequence_abs s = ucast (forward_distance s t)
    \<and> \<not> (precedes s t \<and> precedes t s)
    \<and> (s \<noteq> t \<longrightarrow> unat (forward_distance s t) = 2048 \<or> precedes s t \<or> precedes t s)
    \<and> (0 < unat n \<and> unat n < 2048 \<longrightarrow> precedes s (wrapping_add s n))"
proof -
  have "unat (forward_distance t s) = 4096 - unat (forward_distance s t)" if "s \<noteq> t"
    using sn.dist_reverse [OF assms that] .
  moreover have "unat (forward_distance s t) \<noteq> 0" if "s \<noteq> t"
    using sn.dist_zero_iff [OF assms] that by simp
  moreover have "forward_distance s (wrapping_add s n) = n" if "unat n < 2048"
    using that by (intro forward_distance_wrapping_add [OF assms(1)]) simp
  ultimately show ?thesis
    using assms sequence_abs_wrapping_add [of s n] sequence_abs_forward_distance [OF assms]
      forward_distance_less [of s t]
    by (cases "s = t") (auto simp: precedes_iff)
qed

theorem sequence_numbers_cyclic_order_witness:
  "precedes (SequenceNumber 4095) (SequenceNumber 3) \<and> \<not> precedes (SequenceNumber 3) (SequenceNumber 4095)"
proof -
  have *: "precedes (SequenceNumber 4095) (SequenceNumber 3)" by code_simp
  then show ?thesis
    using sequence_numbers_cyclic_order [of "SequenceNumber 4095" "SequenceNumber 3"]
    by (simp add: sequence_ok_iff)
qed

end
