(* ===== verification/Tx_Sequence.thy ===== *)
theory Tx_Sequence
  imports Sequence_Number
begin

text \<open>
  The transmit sequence owners of \<open>crates/protocols/ieee80211/mac/src/station/sequence.rs\<close>: one
  counter per QoS TID and one for management and non-QoS traffic.  The main result follows a run
  of allocations that interleaves the spaces in any order: each space hands out consecutive
  numbers from its start, whatever the other spaces do.
\<close>

record StaSequenceCounter =
  counter_next :: SequenceNumber

definition StaSequenceCounter_new :: "SequenceNumber \<Rightarrow> StaSequenceCounter" where
  "StaSequenceCounter_new first = \<lparr>counter_next = first\<rparr>"

definition StaSequenceCounter_take ::
    "StaSequenceCounter \<Rightarrow> SequenceNumber \<times> StaSequenceCounter" where
  "StaSequenceCounter_take self =
     (let sequence = counter_next self
      in (sequence, self\<lparr>counter_next := SequenceNumber_next sequence\<rparr>))"

definition StaSequenceCounter_peek :: "StaSequenceCounter \<Rightarrow> SequenceNumber" where
  "StaSequenceCounter_peek self = counter_next self"

record StaTxSequenceCounters =
  non_qos :: StaSequenceCounter
  qos :: "StaSequenceCounter list"

definition QOS_TID_COUNT :: u8 where "QOS_TID_COUNT = 16"

definition StaTxSequenceCounters_new :: "SequenceNumber \<Rightarrow> StaTxSequenceCounters" where
  "StaTxSequenceCounters_new first =
     (let counter = StaSequenceCounter_new first
      in \<lparr>non_qos = counter, qos = replicate (unat QOS_TID_COUNT) counter\<rparr>)"

definition peek_non_qos :: "StaTxSequenceCounters \<Rightarrow> SequenceNumber" where
  "peek_non_qos self = StaSequenceCounter_peek (non_qos self)"

definition take_non_qos :: "StaTxSequenceCounters \<Rightarrow> SequenceNumber \<times> StaTxSequenceCounters" where
  "take_non_qos self =
     (let (sequence, counter) = StaSequenceCounter_take (non_qos self)
      in (sequence, self\<lparr>non_qos := counter\<rparr>))"

text \<open>
  \<open>qos_mut\<close> lends one counter mutably: the value lent, and the owner after the borrower wrote
  \<open>counter\<close> back.
\<close>

definition qos_mut ::
    "StaTxSequenceCounters \<Rightarrow> u8 \<Rightarrow>
     (StaSequenceCounter \<times> (StaSequenceCounter \<Rightarrow> StaTxSequenceCounters)) option" where
  "qos_mut self tid =
     (if unat tid < length (qos self)
      then Some (qos self ! unat tid, \<lambda>counter. self\<lparr>qos := (qos self)[unat tid := counter]\<rparr>)
      else None)"

definition peek_qos :: "StaTxSequenceCounters \<Rightarrow> u8 \<Rightarrow> SequenceNumber option" where
  "peek_qos self tid =
     (if unat tid < length (qos self)
      then Some (StaSequenceCounter_peek (qos self ! unat tid)) else None)"

definition take_qos ::
    "StaTxSequenceCounters \<Rightarrow> u8 \<Rightarrow> SequenceNumber option \<times> StaTxSequenceCounters" where
  "take_qos self tid =
     (case qos_mut self tid of
        None \<Rightarrow> (None, self)
      | Some (counter, write) \<Rightarrow>
          (let (sequence, counter') = StaSequenceCounter_take counter
           in (Some sequence, write counter')))"

definition take_data ::
    "StaTxSequenceCounters \<Rightarrow> u8 option \<Rightarrow> SequenceNumber option \<times> StaTxSequenceCounters" where
  "take_data self qos_tid =
     (case qos_tid of
        Some tid \<Rightarrow> take_qos self tid
      | None \<Rightarrow> (let (sequence, self') = take_non_qos self in (Some sequence, self')))"

subsection \<open>Invariant and behaviour\<close>

text \<open>The next number of the space that a wire format selects.\<close>

definition peek_space :: "StaTxSequenceCounters \<Rightarrow> u8 option \<Rightarrow> SequenceNumber option" where
  "peek_space self space =
     (case space of None \<Rightarrow> Some (peek_non_qos self) | Some tid \<Rightarrow> peek_qos self tid)"

definition counters_ok :: "StaTxSequenceCounters \<Rightarrow> bool" where
  "counters_ok self \<longleftrightarrow>
     length (qos self) = 16 \<and> sequence_ok (counter_next (non_qos self))
     \<and> (\<forall>c \<in> set (qos self). sequence_ok (counter_next c))"

lemmas counter_defs =
  StaSequenceCounter_new_def StaSequenceCounter_take_def StaSequenceCounter_peek_def
  StaTxSequenceCounters_new_def QOS_TID_COUNT_def peek_non_qos_def take_non_qos_def qos_mut_def
  peek_qos_def take_qos_def take_data_def peek_space_def

lemma counters_ok_new: "sequence_ok first \<Longrightarrow> counters_ok (StaTxSequenceCounters_new first)"
  by (simp add: counters_ok_def counter_defs Let_def)

lemma take_data_counters_ok: "counters_ok s \<Longrightarrow> counters_ok (snd (take_data s space))"
  by (auto simp: counters_ok_def counter_defs Let_def split: option.splits
      dest!: subsetD [OF set_update_subset_insert])

text \<open>An allocation returns what \<open>peek\<close> shows and advances the selected space alone.\<close>

lemma take_data_result: "fst (take_data s space) = peek_space s space"
  by (auto simp: counter_defs Let_def split: option.splits)

lemma take_data_peek:
  "peek_space (snd (take_data s space)) other =
     (if other = space then map_option SequenceNumber_next (peek_space s space)
      else peek_space s other)"
  by (auto simp: counter_defs Let_def nth_list_update word_unat_eq_iff split: option.splits)

text \<open>A run of allocations and the numbers it hands out, each with its space.\<close>

fun take_all ::
    "StaTxSequenceCounters \<Rightarrow> u8 option list \<Rightarrow> (u8 option \<times> SequenceNumber option) list" where
  "take_all s [] = []"
| "take_all s (space # rest) =
     (let (sequence, s') = take_data s space in (space, sequence) # take_all s' rest)"

lemma take_all_space:
  assumes "counters_ok s" and "peek_space s space = Some first"
  shows "map snd (filter (\<lambda>(sp, _). sp = space) (take_all s spaces))
       = map (\<lambda>n. Some (wrapping_add first (of_nat n))) [0..<count_list spaces space]"
  using assms
proof (induction spaces arbitrary: s first)
  case (Cons sp spaces)
  obtain sequence s' where take: "take_data s sp = (sequence, s')" by force
  have ok: "counters_ok s'" and peek: "sequence = peek_space s sp"
    and peek': "peek_space s' space =
      (if space = sp then map_option SequenceNumber_next (peek_space s sp) else peek_space s space)"
    using Cons.prems(1) take_data_counters_ok [of s sp] take_data_result [of s sp]
      take_data_peek [of s sp space] by (simp_all add: take)
  have first: "sequence_ok first"
    using Cons.prems by (auto simp: counters_ok_def counter_defs split: option.splits if_splits)
  show ?case
  proof (cases "sp = space")
    case True
    with Cons.prems peek' have "peek_space s' space = Some (SequenceNumber_next first)" by simp
    note IH = Cons.IH [OF ok this]
    have "wrapping_add (SequenceNumber_next first) (of_nat n) = wrapping_add first (of_nat (Suc n))"
      for n using sn.advance_advance [OF first, of 1 n] by (simp add: SequenceNumber_next_def)
    moreover have "wrapping_add first 0 = first"
      using sn.advance_zero [OF first] by simp
    moreover have "peek_space s sp = Some first" using True Cons.prems by simp
    ultimately show ?thesis
      using IH by (simp add: True take [unfolded True] peek upt_conv_Cons comp_def
          del: upt_Suc of_nat_Suc flip: map_Suc_upt)
  next
    case False
    with Cons.prems peek' have "peek_space s' space = Some first" by simp
    from Cons.IH [OF ok this] False show ?thesis by (simp add: take)
  qed
qed simp

text \<open>
  Each transmit sequence space is its own counter.  However allocations of the non-QoS space and
  of the sixteen TIDs interleave, the numbers one space hands out are consecutive modulo 4096 from
  its first, and no number repeats within 4096 allocations of that space.
\<close>

theorem sequence_spaces_are_consecutive:
  assumes "counters_ok s" and "peek_space s space = Some first"
  shows "map snd (filter (\<lambda>(sp, _). sp = space) (take_all s spaces))
           = map (\<lambda>n. Some (wrapping_add first (of_nat n))) [0..<count_list spaces space]
         \<and> (count_list spaces space \<le> 4096
            \<longrightarrow> distinct (map snd (filter (\<lambda>(sp, _). sp = space) (take_all s spaces))))"
proof -
  have first: "sequence_ok first"
    using assms by (auto simp: counters_ok_def counter_defs split: option.splits if_splits)
  have "distinct (map (\<lambda>n. Some (wrapping_add first (of_nat n))) [0..<k])" if "k \<le> 4096" for k
    using that sn.dist_advance [OF first]
    by (auto simp: distinct_map inj_on_def) (metis mod_less order_less_le_trans)
  then show ?thesis using take_all_space [OF assms, of spaces] by simp
qed

theorem sequence_spaces_are_consecutive_witness:
  "map snd (filter (\<lambda>(sp, _). sp = Some 5)
     (take_all (StaTxSequenceCounters_new (SequenceNumber 4095)) [Some 5, None, Some 6, Some 5]))
   = [Some (SequenceNumber 4095), Some (SequenceNumber 0)]"
proof -
  have ok: "counters_ok (StaTxSequenceCounters_new (SequenceNumber 4095))"
    by (rule counters_ok_new) (simp add: sequence_ok_iff)
  have peek: "peek_space (StaTxSequenceCounters_new (SequenceNumber 4095)) (Some 5)
      = Some (SequenceNumber 4095)" by code_simp
  have "map (\<lambda>n. Some (wrapping_add (SequenceNumber 4095) (of_nat n)))
      [0..<count_list [Some (5 :: u8), None, Some 6, Some 5] (Some 5)]
    = [Some (SequenceNumber 4095), Some (SequenceNumber 0)]" by code_simp
  with sequence_spaces_are_consecutive [OF ok peek, of "[Some 5, None, Some 6, Some 5]"]
  show ?thesis by (simp only: conj_absorb)
qed

end
