(* ===== verification/Rx_Duplicate.thy ===== *)
theory Rx_Duplicate
  imports Oer_Prelude
begin

text \<open>
  The receive retry history of \<open>crates/protocols/ieee80211/mac/src/data/duplicate.rs\<close>: the last
  accepted Sequence Control of each traffic class, with a validity bitmap.  The filter is shown
  to decide exactly by the previous frame of the same class, for any history.
\<close>

record RxDuplicateFilter =
  last_sequence_control :: "u16 list"
  filter_valid :: u32

definition RxDuplicateFilter_new :: RxDuplicateFilter where
  "RxDuplicateFilter_new = \<lparr>last_sequence_control = replicate 17 0, filter_valid = 0\<rparr>"

text \<open>The index of the traffic class: \<open>Some(tid @ 0..=15)\<close> is \<open>tid + 1\<close>, everything else 0.\<close>

definition class_index :: "u8 option \<Rightarrow> nat" where
  "class_index tid = (case tid of Some t \<Rightarrow> if t \<le> 15 then unat t + 1 else 0 | None \<Rightarrow> 0)"

definition is_known_duplicate :: "RxDuplicateFilter \<Rightarrow> bool \<Rightarrow> u16 \<Rightarrow> u8 option \<Rightarrow> bool" where
  "is_known_duplicate self retry sc tid =
     (let index = class_index tid; mask = push_bit index (1 :: u32)
      in retry \<and> filter_valid self AND mask \<noteq> 0 \<and> last_sequence_control self ! index = sc)"

definition is_duplicate ::
    "RxDuplicateFilter \<Rightarrow> bool \<Rightarrow> u16 \<Rightarrow> u8 option \<Rightarrow> bool \<times> RxDuplicateFilter" where
  "is_duplicate self retry sc tid =
     (let index = class_index tid; mask = push_bit index (1 :: u32)
      in if is_known_duplicate self retry sc tid then (True, self)
         else (False, self\<lparr>last_sequence_control := (last_sequence_control self)[index := sc],
                           filter_valid := filter_valid self OR mask\<rparr>))"

subsection \<open>Behaviour over a history\<close>

lemma class_index_less: "class_index tid < 17"
  by (auto simp: class_index_def word_le_nat_alt split: option.splits)

text \<open>What the filter remembers of a class, and what a history of frames leaves there.\<close>

definition remembered :: "RxDuplicateFilter \<Rightarrow> nat \<Rightarrow> u16 option" where
  "remembered self k =
     (if bit (filter_valid self) k then Some (last_sequence_control self ! k) else None)"

type_synonym rx_frame = "bool \<times> u16 \<times> u8 option"

fun filter_run :: "RxDuplicateFilter \<Rightarrow> rx_frame list \<Rightarrow> RxDuplicateFilter" where
  "filter_run self [] = self"
| "filter_run self ((retry, sc, tid) # rest) =
     filter_run (snd (is_duplicate self retry sc tid)) rest"

fun last_of_class :: "rx_frame list \<Rightarrow> nat \<Rightarrow> u16 option" where
  "last_of_class [] k = None"
| "last_of_class ((retry, sc, tid) # rest) k =
     (case last_of_class rest k of
        Some s \<Rightarrow> Some s
      | None \<Rightarrow> if class_index tid = k then Some sc else None)"

lemma is_known_duplicate_iff:
  "is_known_duplicate self retry sc tid
     \<longleftrightarrow> retry \<and> remembered self (class_index tid) = Some sc"
  by (auto simp: is_known_duplicate_def remembered_def Let_def test_bit_mask)

lemma remembered_is_duplicate:
  assumes "length (last_sequence_control self) = 17" and "k < 17"
  shows "remembered (snd (is_duplicate self retry sc tid)) k =
           (if class_index tid = k then Some sc else remembered self k)"
  using assms class_index_less [of tid]
  by (auto simp: is_duplicate_def is_known_duplicate_iff remembered_def Let_def bit_set_mask
      nth_list_update split: if_splits)

lemma length_is_duplicate [simp]:
  "length (last_sequence_control (snd (is_duplicate self retry sc tid)))
     = length (last_sequence_control self)"
  by (simp add: is_duplicate_def Let_def)

lemma remembered_filter_run:
  assumes "length (last_sequence_control self) = 17" and "k < 17"
  shows "remembered (filter_run self frames) k =
           (case last_of_class frames k of Some sc \<Rightarrow> Some sc | None \<Rightarrow> remembered self k)"
  using assms
  by (induction self frames rule: filter_run.induct)
     (auto simp: remembered_is_duplicate split: option.splits)

lemma length_new: "length (last_sequence_control RxDuplicateFilter_new) = 17"
  by (simp add: RxDuplicateFilter_new_def)

lemma remembered_new: "remembered RxDuplicateFilter_new k = None"
  by (simp add: remembered_def RxDuplicateFilter_new_def)

text \<open>
  Whatever frames the filter has seen, it calls a frame a duplicate exactly when its Retry
  bit is set and the previous frame of the same traffic class (non-QoS, or the TID) carried the
  same Sequence Control: frames of other classes never interfere.
\<close>

theorem duplicate_iff_retry_of_previous:
  "fst (is_duplicate (filter_run RxDuplicateFilter_new frames) retry sc tid)
     \<longleftrightarrow> retry \<and> last_of_class frames (class_index tid) = Some sc"
proof -
  have "remembered (filter_run RxDuplicateFilter_new frames) (class_index tid)
      = last_of_class frames (class_index tid)"
    using remembered_filter_run [OF length_new class_index_less, of frames tid]
    by (simp add: remembered_new split: option.splits)
  then show ?thesis
    by (simp add: is_duplicate_def Let_def is_known_duplicate_iff)
qed

end
