(* ===== verification/Frame_Header.thy ===== *)
theory Frame_Header
  imports Oer_Prelude "HOL-Library.Monad_Syntax"
begin

text \<open>
  The checked geometry of management and data frames, \<open>crates/protocols/ieee80211/mac/src/frame.rs\<close>:
  the Frame Control field and the header with its optional fourth address, QoS Control and HT
  Control fields.  The decoder is shown to accept exactly the frames that hold all the fields
  their Frame Control announces, and to split them at that boundary.
\<close>

datatype FrameControl = FrameControl (control_get: u16)

definition FrameControl_DATA :: u16 where "FrameControl_DATA = 2"
definition FrameControl_MANAGEMENT :: u16 where "FrameControl_MANAGEMENT = 0"
definition FrameControl_TYPE_AND_SUBTYPE :: u16 where
  "FrameControl_TYPE_AND_SUBTYPE = push_bit 2 3 OR push_bit 4 15"
definition ACTION_NO_ACK :: u16 where "ACTION_NO_ACK = push_bit 4 14"

definition FrameControl_new :: "u16 \<Rightarrow> FrameControl option" where
  "FrameControl_new field =
     (let kind = drop_bit 2 field AND 3
      in if field AND 3 = 0 \<and> (kind = FrameControl_DATA \<or> kind = FrameControl_MANAGEMENT)
         then Some (FrameControl field) else None)"

definition with_protected :: "FrameControl \<Rightarrow> bool \<Rightarrow> FrameControl" where
  "with_protected self protected =
     FrameControl ((control_get self AND NOT (push_bit 14 1))
       OR (if protected then push_bit 14 1 else 0))"

definition with_retry :: "FrameControl \<Rightarrow> bool \<Rightarrow> FrameControl" where
  "with_retry self retry =
     FrameControl ((control_get self AND NOT (push_bit 11 1))
       OR (if retry then push_bit 11 1 else 0))"

definition control_retry :: "FrameControl \<Rightarrow> bool" where
  "control_retry self \<longleftrightarrow> control_get self AND push_bit 11 1 \<noteq> 0"

definition is_data :: "FrameControl \<Rightarrow> bool" where
  "is_data self \<longleftrightarrow> drop_bit 2 (control_get self) AND 3 = FrameControl_DATA"

definition control_protected :: "FrameControl \<Rightarrow> bool" where
  "control_protected self \<longleftrightarrow> control_get self AND push_bit 14 1 \<noteq> 0"

definition control_ds :: "FrameControl \<Rightarrow> u16" where
  "control_ds self = drop_bit 8 (control_get self) AND 3"

definition control_subtype :: "FrameControl \<Rightarrow> u16" where
  "control_subtype self = drop_bit 4 (control_get self) AND 15"

definition control_more_fragments :: "FrameControl \<Rightarrow> bool" where
  "control_more_fragments self \<longleftrightarrow> control_get self AND push_bit 10 1 \<noteq> 0"

definition is_action_no_ack :: "FrameControl \<Rightarrow> bool" where
  "is_action_no_ack self \<longleftrightarrow> control_get self AND FrameControl_TYPE_AND_SUBTYPE = ACTION_NO_ACK"

definition is_qos_data :: "FrameControl \<Rightarrow> bool" where
  "is_qos_data self \<longleftrightarrow>
     drop_bit 2 (control_get self) AND 3 = FrameControl_DATA \<and> control_get self AND push_bit 7 1 \<noteq> 0"

definition is_four_address :: "FrameControl \<Rightarrow> bool" where
  "is_four_address self \<longleftrightarrow>
     drop_bit 2 (control_get self) AND 3 = FrameControl_DATA
     \<and> control_get self AND push_bit 8 3 = push_bit 8 3"

definition has_ht_control :: "FrameControl \<Rightarrow> bool" where
  "has_ht_control self \<longleftrightarrow>
     control_get self AND push_bit 15 1 \<noteq> 0
     \<and> (is_qos_data self \<or> drop_bit 2 (control_get self) AND 3 = FrameControl_MANAGEMENT)"

record DecodedHeader =
  dh_control :: FrameControl
  dh_duration :: u16
  dh_receiver :: "u8 list"
  dh_transmitter :: "u8 list"
  dh_address3 :: "u8 list"
  dh_sequence_control :: u16
  dh_address4 :: "u8 list option"
  dh_qos :: "u16 option"
  dh_ht_control :: "u8 list option"
  dh_frame :: "u8 list"
  dh_body :: "u8 list"

text \<open>The nested \<open>take\<close>, an optional field, and a two-octet field.\<close>

definition take_if :: "bool \<Rightarrow> nat \<Rightarrow> u8 list \<Rightarrow> (u8 list option \<times> u8 list) option" where
  "take_if present n frame =
     (if present then map_option (\<lambda>(field, rest). (Some field, rest)) (split_first_chunk n frame)
      else Some (None, frame))"

definition le_field :: "u8 list \<Rightarrow> u16" where
  "le_field field = u16_from_le_bytes (field ! 0) (field ! 1)"

definition decode :: "u8 list \<Rightarrow> DecodedHeader option" where
  "decode original = do {
     (field, frame) \<leftarrow> split_first_chunk 2 original;
     control \<leftarrow> FrameControl_new (le_field field);
     (duration, frame) \<leftarrow> split_first_chunk 2 frame;
     (receiver, frame) \<leftarrow> split_first_chunk 6 frame;
     (transmitter, frame) \<leftarrow> split_first_chunk 6 frame;
     (address3, frame) \<leftarrow> split_first_chunk 6 frame;
     (sequence_control, frame) \<leftarrow> split_first_chunk 2 frame;
     (address4, frame) \<leftarrow> take_if (is_four_address control) 6 frame;
     (qos, frame) \<leftarrow> take_if (is_qos_data control) 2 frame;
     (ht_control, frame) \<leftarrow> take_if (has_ht_control control) 4 frame;
     Some \<lparr>dh_control = control, dh_duration = le_field duration, dh_receiver = receiver,
           dh_transmitter = transmitter, dh_address3 = address3,
           dh_sequence_control = le_field sequence_control, dh_address4 = address4,
           dh_qos = map_option le_field qos, dh_ht_control = ht_control,
           dh_frame = original, dh_body = frame\<rparr>
   }"

subsection \<open>Reading a header\<close>

text \<open>The header length a Frame Control announces, and the field at an offset.\<close>

definition header_length :: "FrameControl \<Rightarrow> nat" where
  "header_length c = 24 + (if is_four_address c then 6 else 0) + (if is_qos_data c then 2 else 0)
     + (if has_ht_control c then 4 else 0)"

abbreviation octets :: "nat \<Rightarrow> nat \<Rightarrow> u8 list \<Rightarrow> u8 list" where
  "octets at n frame \<equiv> take n (drop at frame)"

definition control_of :: "u8 list \<Rightarrow> FrameControl option" where
  "control_of frame = FrameControl_new (u16_from_le_bytes (frame ! 0) (frame ! 1))"

definition header_of :: "FrameControl \<Rightarrow> u8 list \<Rightarrow> DecodedHeader" where
  "header_of c frame =
     (let qos_at = (if is_four_address c then 30 else 24);
          ht_at = qos_at + (if is_qos_data c then 2 else 0)
      in \<lparr>dh_control = c, dh_duration = le_field (octets 2 2 frame), dh_receiver = octets 4 6 frame,
          dh_transmitter = octets 10 6 frame, dh_address3 = octets 16 6 frame,
          dh_sequence_control = le_field (octets 22 2 frame),
          dh_address4 = (if is_four_address c then Some (octets 24 6 frame) else None),
          dh_qos = (if is_qos_data c then Some (le_field (octets qos_at 2 frame)) else None),
          dh_ht_control = (if has_ht_control c then Some (octets ht_at 4 frame) else None),
          dh_frame = frame, dh_body = drop (header_length c) frame\<rparr>)"

lemma split_first_chunk_drop:
  "split_first_chunk n (drop k xs)
     = (if length xs < k + n \<and> n \<noteq> 0 then None else Some (take n (drop k xs), drop (k + n) xs))"
  by (auto simp: split_first_chunk_def add.commute)

lemma take_if_drop:
  "take_if p n (drop k xs)
     = (if p \<and> length xs < k + n \<and> n \<noteq> 0 then None
        else Some (if p then Some (take n (drop k xs)) else None, drop (if p then k + n else k) xs))"
  by (auto simp: take_if_def split_first_chunk_drop)

lemma split_first_chunk_start:
  "split_first_chunk n xs = (if length xs < n then None else Some (take n xs, drop n xs))"
  by (simp add: split_first_chunk_def)

text \<open>The decoder as one condition and one projection.\<close>

lemma decode_eq:
  "decode frame =
     (if length frame < 2 then None
      else case control_of frame of
             None \<Rightarrow> None
           | Some c \<Rightarrow> if length frame < header_length c then None else Some (header_of c frame))"
proof (cases "length frame < 2")
  case True
  then show ?thesis by (simp add: decode_def split_first_chunk_start)
next
  case False
  then have fc: "le_field (take 2 frame) = u16_from_le_bytes (frame ! 0) (frame ! 1)"
    by (simp add: le_field_def)
  show ?thesis
  proof (cases "control_of frame")
    case None
    with False fc show ?thesis by (simp add: decode_def split_first_chunk_start control_of_def)
  next
    case (Some c)
    with False fc show ?thesis
      by (simp add: decode_def split_first_chunk_start [of 2 frame] control_of_def
          split_first_chunk_drop take_if_drop header_length_def header_of_def)
  qed
qed

subsection \<open>Losslessness\<close>

text \<open>The octets of a header, and what a header needs to be one that the decoder can return.\<close>

definition header_octets :: "DecodedHeader \<Rightarrow> u8 list" where
  "header_octets h =
     u16_to_le_bytes (control_get (dh_control h)) @ u16_to_le_bytes (dh_duration h)
     @ dh_receiver h @ dh_transmitter h @ dh_address3 h @ u16_to_le_bytes (dh_sequence_control h)
     @ (case dh_address4 h of None \<Rightarrow> [] | Some a \<Rightarrow> a)
     @ (case dh_qos h of None \<Rightarrow> [] | Some q \<Rightarrow> u16_to_le_bytes q)
     @ (case dh_ht_control h of None \<Rightarrow> [] | Some c \<Rightarrow> c)"

definition header_wf :: "DecodedHeader \<Rightarrow> bool" where
  "header_wf h \<longleftrightarrow>
     FrameControl_new (control_get (dh_control h)) = Some (dh_control h)
     \<and> length (dh_receiver h) = 6 \<and> length (dh_transmitter h) = 6 \<and> length (dh_address3 h) = 6
     \<and> (case dh_address4 h of None \<Rightarrow> \<not> is_four_address (dh_control h)
        | Some a \<Rightarrow> is_four_address (dh_control h) \<and> length a = 6)
     \<and> (dh_qos h = None \<longleftrightarrow> \<not> is_qos_data (dh_control h))
     \<and> (case dh_ht_control h of None \<Rightarrow> \<not> has_ht_control (dh_control h)
        | Some c \<Rightarrow> has_ht_control (dh_control h) \<and> length c = 4)
     \<and> dh_frame h = header_octets h @ dh_body h"

lemma FrameControl_new_Some: "FrameControl_new field = Some c \<Longrightarrow> c = FrameControl field"
  by (auto simp: FrameControl_new_def Let_def split: if_splits)

lemma le_field_octets [simp]:
  "length xs = 2 \<Longrightarrow> u16_to_le_bytes (le_field xs) = xs"
  "le_field (u16_to_le_bytes w) = w"
  by (auto simp: le_field_def u16_to_le_bytes_def u16_from_le_bytes_parts numeral_2_eq_2
      length_Suc_conv)

lemma take_if_eq_Some_iff:
  "take_if p n xs = Some (ys, zs) \<longleftrightarrow>
     (case ys of None \<Rightarrow> \<not> p \<and> zs = xs | Some a \<Rightarrow> p \<and> xs = a @ zs \<and> length a = n)"
  by (auto simp: take_if_def split_first_chunk_eq_Some_iff split: option.split)

lemma decode_wf:
  assumes "decode frame = Some h"
  shows "header_wf h \<and> dh_frame h = frame"
proof -
  obtain fc c du rx tx a3 sc f a4 f' q f'' ht body where
    frame: "frame = fc @ du @ rx @ tx @ a3 @ sc @ f" and
    len: "length fc = 2" "length du = 2" "length rx = 6" "length tx = 6" "length a3 = 6"
      "length sc = 2" and
    fc: "FrameControl_new (le_field fc) = Some c" and
    rest: "take_if (is_four_address c) 6 f = Some (a4, f')"
      "take_if (is_qos_data c) 2 f' = Some (q, f'')"
      "take_if (has_ht_control c) 4 f'' = Some (ht, body)" and
    h: "h = \<lparr>dh_control = c, dh_duration = le_field du, dh_receiver = rx, dh_transmitter = tx,
      dh_address3 = a3, dh_sequence_control = le_field sc, dh_address4 = a4,
      dh_qos = map_option le_field q, dh_ht_control = ht, dh_frame = frame, dh_body = body\<rparr>"
    using assms by (auto simp: decode_def bind_eq_Some_conv split_first_chunk_eq_Some_iff)
  have "control_get c = le_field fc" using FrameControl_new_Some [OF fc] by simp
  then have c: "FrameControl_new (control_get c) = Some c" "u16_to_le_bytes (control_get c) = fc"
    using fc len by simp_all
  have opt: "case a4 of None \<Rightarrow> \<not> is_four_address c | Some a \<Rightarrow> is_four_address c \<and> length a = 6"
    "q = None \<longleftrightarrow> \<not> is_qos_data c"
    "case ht of None \<Rightarrow> \<not> has_ht_control c | Some a \<Rightarrow> has_ht_control c \<and> length a = 4"
    using rest by (cases a4; cases q; cases ht; simp add: take_if_eq_Some_iff)+
  have "f = (case a4 of None \<Rightarrow> [] | Some a \<Rightarrow> a)
      @ (case map_option le_field q of None \<Rightarrow> [] | Some q \<Rightarrow> u16_to_le_bytes q)
      @ (case ht of None \<Rightarrow> [] | Some a \<Rightarrow> a) @ body"
    using rest by (cases a4; cases q; cases ht) (auto simp: take_if_eq_Some_iff)
  then show ?thesis
    using opt(1,3)
    by (simp add: h header_wf_def header_octets_def frame len c opt(2) cong: option.case_cong)
qed

lemma decode_header_octets:
  assumes "header_wf h"
  shows "decode (header_octets h @ dh_body h) = Some h"
proof -
  have ctl: "take_if (is_four_address (dh_control h)) 6
      ((case dh_address4 h of None \<Rightarrow> [] | Some a \<Rightarrow> a) @ rest) = Some (dh_address4 h, rest)"
    "take_if (has_ht_control (dh_control h)) 4
      ((case dh_ht_control h of None \<Rightarrow> [] | Some a \<Rightarrow> a) @ rest) = Some (dh_ht_control h, rest)"
    "take_if (is_qos_data (dh_control h)) 2
      ((case dh_qos h of None \<Rightarrow> [] | Some q \<Rightarrow> u16_to_le_bytes q) @ rest)
      = Some (map_option u16_to_le_bytes (dh_qos h), rest)" for rest
    using assms by (auto simp: header_wf_def take_if_def split: option.splits)
  have "dh_frame h = header_octets h @ dh_body h"
    "FrameControl_new (control_get (dh_control h)) = Some (dh_control h)"
    "length (dh_receiver h) = 6" "length (dh_transmitter h) = 6" "length (dh_address3 h) = 6"
    using assms by (simp_all add: header_wf_def)
  then show ?thesis
    by (simp add: decode_def header_octets_def ctl option.map_comp comp_def)
       (cases h; simp add: option.map_ident)
qed

subsection \<open>The flags of a Frame Control\<close>

lemma flag_keeps:
  fixes w m :: "'a::len word"
  assumes "\<not> bit m n"
  shows "((w AND NOT (2 ^ n)) OR (if b then 2 ^ n else 0)) AND m = w AND m"
  using assms
  by (intro bit_word_eqI) (auto simp: bit_simps)

lemma flag_reads:
  fixes w :: "'a::len word"
  assumes "n < LENGTH('a)"
  shows "((w AND NOT (2 ^ n)) OR (if b then 2 ^ n else 0)) AND 2 ^ n \<noteq> 0 \<longleftrightarrow> b"
  using assms by (simp add: test_bit_mask bit_simps)

lemma drop_bit_mask: "drop_bit k w AND m = drop_bit k (w AND push_bit k m)" for w m :: "'a::len word"
  by (rule bit_word_eqI) (auto simp: bit_simps dest: bit_imp_le_length)

text \<open>A mask that does not hold the flag reads the same before and after it is set.\<close>

lemma with_retry_mask: "\<not> bit m 11 \<Longrightarrow> control_get (with_retry c b) AND m = control_get c AND m"
  using flag_keeps [of m 11 "control_get c" b] by (cases b) (simp_all add: with_retry_def)

lemma with_protected_mask:
  "\<not> bit m 14 \<Longrightarrow> control_get (with_protected c b) AND m = control_get c AND m"
  using flag_keeps [of m 14 "control_get c" b] by (cases b) (simp_all add: with_protected_def)

lemma with_retry_field:
  "\<not> bit (push_bit k m) 11
    \<Longrightarrow> drop_bit k (control_get (with_retry c b)) AND m = drop_bit k (control_get c) AND m"
  by (simp only: drop_bit_mask with_retry_mask not_False_eq_True)

lemma with_protected_field:
  "\<not> bit (push_bit k m) 14
    \<Longrightarrow> drop_bit k (control_get (with_protected c b)) AND m = drop_bit k (control_get c) AND m"
  by (simp only: drop_bit_mask with_protected_mask not_False_eq_True)

lemmas flag_locality =
  with_retry_mask with_protected_mask with_retry_field with_protected_field

lemmas control_reads =
  FrameControl_new_def control_retry_def is_data_def control_protected_def control_ds_def
  control_subtype_def control_more_fragments_def is_qos_data_def is_four_address_def
  has_ht_control_def header_length_def FrameControl_DATA_def FrameControl_MANAGEMENT_def

subsection \<open>Properties\<close>

text \<open>
  C36. Decoding loses nothing.  The header decoder returns a header exactly for the frames that are
  that header's own octets followed by its body, every optional field present exactly when the
  Frame Control announces it; so it accepts every well-formed frame, rejects every truncated one,
  and two frames with the same decoded header are the same frame.
\<close>

theorem decode_iff_octets:
  "decode frame = Some h \<longleftrightarrow> header_wf h \<and> frame = header_octets h @ dh_body h"
  using decode_wf [of frame h] decode_header_octets [of h] by (auto simp: header_wf_def)

text \<open>
  The Retry and Protected flags are local.  Choosing either flag of a data or management frame
  gives a Frame Control that is still valid and reads back the chosen flag, while the other flag,
  the kind, the subtype, the direction, the fragmentation mark and the header length stay.
\<close>

theorem control_flags_are_local:
  assumes "FrameControl_new (control_get c) = Some c"
  shows "let r = with_retry c b; p = with_protected c b in
    FrameControl_new (control_get r) = Some r \<and> FrameControl_new (control_get p) = Some p
    \<and> control_retry r = b \<and> control_protected r = control_protected c
    \<and> control_protected p = b \<and> control_retry p = control_retry c
    \<and> (\<forall>x\<in>{r, p}. is_data x = is_data c \<and> control_ds x = control_ds c
          \<and> control_subtype x = control_subtype c
          \<and> control_more_fragments x = control_more_fragments c
          \<and> header_length x = header_length c)"
proof -
  have own: "control_retry (with_retry c b) = b" "control_protected (with_protected c b) = b"
    using flag_reads [of 11 "control_get c" b] flag_reads [of 14 "control_get c" b]
    by (cases b; simp add: control_retry_def control_protected_def with_retry_def
        with_protected_def)+
  have new: "FrameControl_new (control_get (with_retry c b)) = Some (with_retry c b)"
    "FrameControl_new (control_get (with_protected c b)) = Some (with_protected c b)"
    using assms
    by (simp_all add: FrameControl_new_def Let_def flag_locality split: if_splits)
  show ?thesis unfolding Let_def
    by (simp add: own new)
       (simp add: control_reads flag_locality)
qed

theorem control_flags_are_local_witness:
  "header_length (with_retry (FrameControl 0x0188) True) = 26
   \<and> control_retry (with_retry (FrameControl 0x0188) True)"
proof -
  have "FrameControl_new (control_get (FrameControl 0x0188)) = Some (FrameControl 0x0188)"
    by code_simp
  from control_flags_are_local [OF this, of True] show ?thesis by code_simp
qed

end
