(* ===== verification/Wmm_Qos.thy ===== *)
theory Wmm_Qos
  imports Oer_Prelude
begin

text \<open>
  WMM priorities and the classification of outgoing Ethernet frames,
  \<open>crates/protocols/ieee80211/mac/src/qos.rs\<close>.  The selectors lend one cell of an exact array:
  \<open>select\<close> reads it and \<open>select_mut\<close> is modelled as the array with the cell replaced.
\<close>

datatype WmmAccessCategory = BestEffort | Background | Video | Voice

datatype UserPriority = Up0 | Up1 | Up2 | Up3 | Up4 | Up5 | Up6 | Up7

datatype WmmUserPriority = WmmUserPriority (raw_priority: UserPriority)

definition AccessCategory_ALL :: "WmmAccessCategory list" where
  "AccessCategory_ALL = [BestEffort, Background, Video, Voice]"

definition from_aci :: "u8 \<Rightarrow> WmmAccessCategory option" where
  "from_aci aci =
     (if aci = 0 then Some BestEffort else if aci = 1 then Some Background
      else if aci = 2 then Some Video else if aci = 3 then Some Voice else None)"

text \<open>The explicit discriminants, \<open>self as u8\<close>.\<close>

fun aci :: "WmmAccessCategory \<Rightarrow> u8" where
  "aci BestEffort = 0"
| "aci Background = 1"
| "aci Video = 2"
| "aci Voice = 3"

fun category_select :: "WmmAccessCategory \<Rightarrow> 'a list \<Rightarrow> 'a" where
  "category_select BestEffort entries = entries ! 0"
| "category_select Background entries = entries ! 1"
| "category_select Video entries = entries ! 2"
| "category_select Voice entries = entries ! 3"

fun category_select_mut :: "WmmAccessCategory \<Rightarrow> 'a \<Rightarrow> 'a list \<Rightarrow> 'a list" where
  "category_select_mut BestEffort x entries = entries[0 := x]"
| "category_select_mut Background x entries = entries[1 := x]"
| "category_select_mut Video x entries = entries[2 := x]"
| "category_select_mut Voice x entries = entries[3 := x]"

fun downgrade :: "WmmAccessCategory \<Rightarrow> WmmAccessCategory option" where
  "downgrade Voice = Some Video"
| "downgrade Video = Some BestEffort"
| "downgrade BestEffort = Some Background"
| "downgrade Background = None"

fun canonical_user_priority :: "WmmAccessCategory \<Rightarrow> WmmUserPriority" where
  "canonical_user_priority Voice = WmmUserPriority Up7"
| "canonical_user_priority Video = WmmUserPriority Up5"
| "canonical_user_priority BestEffort = WmmUserPriority Up0"
| "canonical_user_priority Background = WmmUserPriority Up1"

definition UserPriority_ALL :: "WmmUserPriority list" where
  "UserPriority_ALL = map WmmUserPriority [Up0, Up1, Up2, Up3, Up4, Up5, Up6, Up7]"

definition WmmUserPriority_new :: "u8 \<Rightarrow> WmmUserPriority option" where
  "WmmUserPriority_new v =
     (if v = 0 then Some (WmmUserPriority Up0) else if v = 1 then Some (WmmUserPriority Up1)
      else if v = 2 then Some (WmmUserPriority Up2) else if v = 3 then Some (WmmUserPriority Up3)
      else if v = 4 then Some (WmmUserPriority Up4) else if v = 5 then Some (WmmUserPriority Up5)
      else if v = 6 then Some (WmmUserPriority Up6) else if v = 7 then Some (WmmUserPriority Up7)
      else None)"

fun priority_value :: "WmmUserPriority \<Rightarrow> u8" where
  "priority_value (WmmUserPriority Up0) = 0"
| "priority_value (WmmUserPriority Up1) = 1"
| "priority_value (WmmUserPriority Up2) = 2"
| "priority_value (WmmUserPriority Up3) = 3"
| "priority_value (WmmUserPriority Up4) = 4"
| "priority_value (WmmUserPriority Up5) = 5"
| "priority_value (WmmUserPriority Up6) = 6"
| "priority_value (WmmUserPriority Up7) = 7"

fun priority_select :: "WmmUserPriority \<Rightarrow> 'a list \<Rightarrow> 'a" where
  "priority_select (WmmUserPriority Up0) entries = entries ! 0"
| "priority_select (WmmUserPriority Up1) entries = entries ! 1"
| "priority_select (WmmUserPriority Up2) entries = entries ! 2"
| "priority_select (WmmUserPriority Up3) entries = entries ! 3"
| "priority_select (WmmUserPriority Up4) entries = entries ! 4"
| "priority_select (WmmUserPriority Up5) entries = entries ! 5"
| "priority_select (WmmUserPriority Up6) entries = entries ! 6"
| "priority_select (WmmUserPriority Up7) entries = entries ! 7"

fun priority_select_mut :: "WmmUserPriority \<Rightarrow> 'a \<Rightarrow> 'a list \<Rightarrow> 'a list" where
  "priority_select_mut (WmmUserPriority Up0) x entries = entries[0 := x]"
| "priority_select_mut (WmmUserPriority Up1) x entries = entries[1 := x]"
| "priority_select_mut (WmmUserPriority Up2) x entries = entries[2 := x]"
| "priority_select_mut (WmmUserPriority Up3) x entries = entries[3 := x]"
| "priority_select_mut (WmmUserPriority Up4) x entries = entries[4 := x]"
| "priority_select_mut (WmmUserPriority Up5) x entries = entries[5 := x]"
| "priority_select_mut (WmmUserPriority Up6) x entries = entries[6 := x]"
| "priority_select_mut (WmmUserPriority Up7) x entries = entries[7 := x]"

fun access_category :: "WmmUserPriority \<Rightarrow> WmmAccessCategory" where
  "access_category (WmmUserPriority Up0) = BestEffort"
| "access_category (WmmUserPriority Up3) = BestEffort"
| "access_category (WmmUserPriority Up1) = Background"
| "access_category (WmmUserPriority Up2) = Background"
| "access_category (WmmUserPriority Up4) = Video"
| "access_category (WmmUserPriority Up5) = Video"
| "access_category (WmmUserPriority Up6) = Voice"
| "access_category (WmmUserPriority Up7) = Voice"

definition from_high_three_bits :: "u8 \<Rightarrow> WmmUserPriority" where
  "from_high_three_bits v =
     (let bits = drop_bit 5 v
      in if bits = 0 then WmmUserPriority Up0 else if bits = 1 then WmmUserPriority Up1
         else if bits = 2 then WmmUserPriority Up2 else if bits = 3 then WmmUserPriority Up3
         else if bits = 4 then WmmUserPriority Up4 else if bits = 5 then WmmUserPriority Up5
         else if bits = 6 then WmmUserPriority Up6 else WmmUserPriority Up7)"

datatype Dscp = Dscp (dscp_value: u8)

definition Dscp_new :: "u8 \<Rightarrow> Dscp option" where
  "Dscp_new v = (if v \<le> 0x3f then Some (Dscp v) else None)"

definition default_user_priority :: "Dscp \<Rightarrow> WmmUserPriority" where
  "default_user_priority self = from_high_three_bits (push_bit 2 (dscp_value self))"

definition station_user_priority :: "Dscp \<Rightarrow> WmmUserPriority" where
  "station_user_priority self =
     (let v = dscp_value self
      in if v \<in> {1, 8} then WmmUserPriority Up1
         else if v \<in> {18, 20, 22} then WmmUserPriority Up3
         else if v \<in> {24, 26, 28, 30, 32, 34, 36, 38} then WmmUserPriority Up4
         else if v = 40 then WmmUserPriority Up5
         else if v \<in> {44, 46} then WmmUserPriority Up6
         else WmmUserPriority Up0)"

datatype WmmClassificationSource =
    Unmarked
  | Ieee8021d WmmUserPriority
  | DscpMarked Dscp

record WmmTrafficClass =
  user_priority :: WmmUserPriority
  class_category :: WmmAccessCategory
  class_source :: WmmClassificationSource

definition BEST_EFFORT :: WmmTrafficClass where
  "BEST_EFFORT = \<lparr>user_priority = WmmUserPriority Up0, class_category = BestEffort,
     class_source = Unmarked\<rparr>"

definition from_user_priority ::
    "WmmUserPriority \<Rightarrow> WmmClassificationSource \<Rightarrow> WmmTrafficClass" where
  "from_user_priority up src =
     \<lparr>user_priority = up, class_category = access_category up, class_source = src\<rparr>"

definition ETHERNET_HEADER_LEN :: nat where "ETHERNET_HEADER_LEN = 14"
definition ETHER_TYPE_IPV4 :: u16 where "ETHER_TYPE_IPV4 = 0x0800"
definition ETHER_TYPE_VLAN :: u16 where "ETHER_TYPE_VLAN = 0x8100"
definition ETHER_TYPE_PROVIDER_VLAN :: u16 where "ETHER_TYPE_PROVIDER_VLAN = 0x88a8"
definition ETHER_TYPE_IPV6 :: u16 where "ETHER_TYPE_IPV6 = 0x86dd"

text \<open>The DSCP arm of the classifier; \<open>None\<close> is its early return of \<open>BEST_EFFORT\<close>.\<close>

definition classify_dscp :: "u16 \<Rightarrow> u8 list \<Rightarrow> Dscp option" where
  "classify_dscp ether_type ethernet =
     (if ether_type = ETHER_TYPE_IPV4
      then (case get_slice ethernet ETHERNET_HEADER_LEN 2 of
              None \<Rightarrow> None
            | Some header \<Rightarrow>
                if drop_bit 4 (header ! 0) \<noteq> 4 then None
                else Some (Dscp (drop_bit 2 (header ! 1))))
      else if ether_type = ETHER_TYPE_IPV6
      then (case get_slice ethernet ETHERNET_HEADER_LEN 2 of
              None \<Rightarrow> None
            | Some header \<Rightarrow>
                if drop_bit 4 (header ! 0) \<noteq> 6 then None
                else Some (Dscp (push_bit 2 (header ! 0 AND 0x0f) OR drop_bit 6 (header ! 1))))
      else None)"

definition classify_ethernet_wmm :: "u8 list \<Rightarrow> WmmTrafficClass" where
  "classify_ethernet_wmm ethernet =
     (if length ethernet < ETHERNET_HEADER_LEN then BEST_EFFORT
      else
        (let ether_type = u16_from_be_bytes (ethernet ! 12) (ethernet ! 13)
         in if ether_type = ETHER_TYPE_VLAN \<or> ether_type = ETHER_TYPE_PROVIDER_VLAN
            then (case get_slice ethernet ETHERNET_HEADER_LEN 4 of
                    None \<Rightarrow> BEST_EFFORT
                  | Some tag \<Rightarrow>
                      (let tci = u16_from_be_bytes (tag ! 0) (tag ! 1);
                           up = from_high_three_bits (ucast (drop_bit 8 tci))
                       in from_user_priority up (Ieee8021d up)))
            else (case classify_dscp ether_type ethernet of
                    None \<Rightarrow> BEST_EFFORT
                  | Some dscp \<Rightarrow>
                      from_user_priority (station_user_priority dscp) (DscpMarked dscp))))"

subsection \<open>Priorities and categories\<close>

lemma UserPriority_new_value [simp]: "WmmUserPriority_new (priority_value p) = Some p"
  by (cases p rule: priority_value.cases) (simp_all add: WmmUserPriority_new_def)

lemma UserPriority_new_Some: "WmmUserPriority_new v = Some p \<longleftrightarrow> v = priority_value p"
proof
  assume "WmmUserPriority_new v = Some p"
  then show "v = priority_value p" by (auto simp: WmmUserPriority_new_def split: if_splits)
qed simp

lemma priority_value_less: "unat (priority_value p) < 8"
  by (cases p rule: priority_value.cases) simp_all

lemma priority_value_inj: "priority_value p = priority_value q \<longleftrightarrow> p = q"
  by (metis UserPriority_new_value option.inject)

lemma from_aci_aci [simp]: "from_aci (aci c) = Some c"
  by (cases c) (simp_all add: from_aci_def)

lemma priority_select_nth: "priority_select p xs = xs ! unat (priority_value p)"
  by (cases p rule: priority_value.cases) simp_all

lemma priority_select_mut_nth: "priority_select_mut p x xs = xs[unat (priority_value p) := x]"
  by (cases p rule: priority_value.cases) simp_all

lemma category_select_nth: "category_select c xs = xs ! unat (aci c)"
  by (cases c) simp_all

lemma category_select_mut_nth: "category_select_mut c x xs = xs[unat (aci c) := x]"
  by (cases c) simp_all

lemma access_category_canonical [simp]: "access_category (canonical_user_priority c) = c"
  by (cases c) simp_all

subsection \<open>Reading the traffic class of an IP header\<close>

lemma below_8: "n < 8 \<longleftrightarrow> n = 0 \<or> n = 1 \<or> n = 2 \<or> n = 3 \<or> n = 4 \<or> n = 5 \<or> n = 6 \<or> n = (7::nat)"
  by auto

lemma ipv6_version: "drop_bit 4 (0x60 OR drop_bit 4 tos) = (6 :: u8)"
  by (rule bit_word_eqI) (simp add: bit_simps below_8)

lemma ipv6_traffic_class:
  "push_bit 2 ((0x60 OR drop_bit 4 tos) AND 0x0f) OR drop_bit 6 (push_bit 4 tos OR (flow AND 0x0f))
     = drop_bit 2 tos" for tos flow :: u8
  by (rule bit_word_eqI) (auto simp: bit_simps below_8 dest: bit_imp_le_length)

lemma ether_types:
  "u16_from_be_bytes 0x08 0x00 = ETHER_TYPE_IPV4" "u16_from_be_bytes 0x86 0xdd = ETHER_TYPE_IPV6"
  by code_simp+

lemmas ether_type_values =
  ETHER_TYPE_IPV4_def ETHER_TYPE_VLAN_def ETHER_TYPE_PROVIDER_VLAN_def ETHER_TYPE_IPV6_def

lemma classify_dscp_Some: "classify_dscp t e = Some d \<Longrightarrow> 16 \<le> length e"
  by (auto simp: classify_dscp_def get_slice_def ETHERNET_HEADER_LEN_def split: if_splits)

lemma classify_cases:
  "classify_ethernet_wmm e = BEST_EFFORT
   \<or> (\<exists>p. classify_ethernet_wmm e = from_user_priority p (Ieee8021d p) \<and> 18 \<le> length e)
   \<or> (\<exists>d. classify_ethernet_wmm e = from_user_priority (station_user_priority d) (DscpMarked d)
        \<and> 16 \<le> length e)"
proof (cases "length e < 14")
  case False
  let ?t = "u16_from_be_bytes (e ! 12) (e ! 13)"
  show ?thesis
  proof (cases "?t = ETHER_TYPE_VLAN \<or> ?t = ETHER_TYPE_PROVIDER_VLAN")
    case True
    with False show ?thesis
      by (auto simp: classify_ethernet_wmm_def ETHERNET_HEADER_LEN_def get_slice_def Let_def)
  next
    case no_tag: False
    with False classify_dscp_Some [of ?t e] show ?thesis
      by (cases "classify_dscp ?t e")
         (auto simp: classify_ethernet_wmm_def ETHERNET_HEADER_LEN_def Let_def)
  qed
qed (simp add: classify_ethernet_wmm_def ETHERNET_HEADER_LEN_def)

lemma station_priority_cases:
  "station_user_priority d \<in> WmmUserPriority ` {Up0, Up1, Up3, Up4, Up5, Up6}"
  "access_category (station_user_priority d) = Voice \<longleftrightarrow> dscp_value d \<in> {44, 46}"
  by (auto simp: station_user_priority_def Let_def)

subsection \<open>Properties\<close>

text \<open>
  Priorities, categories and their arrays.  The checked constructor accepts exactly the numbers
  below 8 and is inverse to reading the value; the selectors of the eight-entry and four-entry
  arrays are the array cells of that number, so a cell written through one priority is read back
  through it and through no other; and a category's canonical priority belongs to it.
\<close>

theorem priority_cells:
  assumes "length xs = 8" and "length ys = 4"
  shows "(WmmUserPriority_new v = Some p \<longleftrightarrow> v = priority_value p)
    \<and> (WmmUserPriority_new v = None \<longleftrightarrow> 8 \<le> v)
    \<and> UserPriority_ALL ! unat (priority_value p) = p
    \<and> priority_select p (priority_select_mut q x xs) = (if p = q then x else priority_select p xs)
    \<and> AccessCategory_ALL ! unat (aci c) = c
    \<and> category_select c (category_select_mut d y ys) = (if c = d then y else category_select c ys)
    \<and> access_category (canonical_user_priority c) = c"
proof -
  have "WmmUserPriority_new v = None \<longleftrightarrow> 8 \<le> v"
    by (simp add: WmmUserPriority_new_def word_unat_eq_iff word_le_nat_alt)
  moreover have "unat (priority_value q) = unat (priority_value p) \<longleftrightarrow> p = q"
    by (metis priority_value_inj unsigned_word_eqI)
  moreover have "UserPriority_ALL ! unat (priority_value p) = p"
    by (cases p rule: priority_value.cases) (simp_all add: UserPriority_ALL_def)
  moreover have "AccessCategory_ALL ! unat (aci c) = c"
    by (cases c) (simp_all add: AccessCategory_ALL_def)
  moreover have "category_select c (category_select_mut d y ys)
      = (if c = d then y else category_select c ys)"
    using assms(2) by (cases c; cases d) simp_all
  ultimately show ?thesis
    using assms(1) priority_value_less [of q]
    by (simp add: UserPriority_new_Some priority_select_nth priority_select_mut_nth
        nth_list_update)
qed

theorem priority_cells_witness:
  "priority_select (WmmUserPriority Up5) (priority_select_mut (WmmUserPriority Up5) 9
     [0, 1, 2, 3, 4, 5, 6, 7 :: nat]) = 9"
  using priority_cells [of "[0, 1, 2, 3, 4, 5, 6, 7 :: nat]" "[0, 0, 0, 0 :: nat]" 5
      "WmmUserPriority Up5" "WmmUserPriority Up5" 9 Video Video 0] by simp

text \<open>
  The DSCP is read the same from IPv4 and IPv6.  Two frames that differ only in the IP version
  (an IPv4 header with type of service \<open>tos\<close>, an IPv6 header with traffic class \<open>tos\<close>, any header
  length, flow label and payload) get the same priority, category and marking.
\<close>

theorem ipv4_and_ipv6_classify_alike:
  assumes "length addresses = 12" and "drop_bit 4 version = (4 :: u8)"
  shows "classify_ethernet_wmm (addresses @ [0x08, 0x00, version, tos] @ rest)
    = classify_ethernet_wmm (addresses @ [0x86, 0xdd, 0x60 OR drop_bit 4 tos,
        push_bit 4 tos OR (flow AND 0x0f)] @ rest')"
proof -
  have v6: "classify_ethernet_wmm (addresses @ [0x86, 0xdd, a, b] @ rest')
      = from_user_priority (station_user_priority (Dscp (push_bit 2 (a AND 0x0f) OR drop_bit 6 b)))
          (DscpMarked (Dscp (push_bit 2 (a AND 0x0f) OR drop_bit 6 b)))"
    if "drop_bit 4 a = 6" for a b :: u8
    using assms that
    by (simp add: classify_ethernet_wmm_def ETHERNET_HEADER_LEN_def nth_append ether_types
        classify_dscp_def get_slice_def) (simp add: ether_type_values)
  show ?thesis
    unfolding v6 [OF ipv6_version, of tos "push_bit 4 tos OR (flow AND 0x0f)",
      unfolded ipv6_traffic_class] using assms
    by (simp add: classify_ethernet_wmm_def ETHERNET_HEADER_LEN_def nth_append ether_types
        classify_dscp_def get_slice_def) (simp add: ether_type_values)
qed

theorem ipv4_and_ipv6_classify_alike_witness:
  "user_priority (classify_ethernet_wmm (replicate 12 0 @ [0x86, 0xdd, 0x6b, 0x80])) = WmmUserPriority Up6
   \<and> classify_ethernet_wmm (replicate 12 0 @ [0x08, 0x00, 0x45, 0xb8])
       = classify_ethernet_wmm (replicate 12 0 @ [0x86, 0xdd, 0x6b, 0x80])"
proof
  show "user_priority (classify_ethernet_wmm (replicate 12 0 @ [0x86, 0xdd, 0x6b, 0x80]))
      = WmmUserPriority Up6"
    by code_simp
  have "0x60 OR drop_bit 4 0xb8 = (0x6b :: u8)" "push_bit 4 0xb8 OR (0 AND 0x0f) = (0x80 :: u8)"
    "drop_bit 4 0x45 = (4 :: u8)"
    by code_simp+
  with ipv4_and_ipv6_classify_alike [of "replicate 12 0" "0x45" "0xb8" "[]" 0 "[]"]
  show "classify_ethernet_wmm (replicate 12 0 @ [0x08, 0x00, 0x45, 0xb8])
      = classify_ethernet_wmm (replicate 12 0 @ [0x86, 0xdd, 0x6b, 0x80])"
    by (simp only: length_replicate append_Nil2 append_Cons append_Nil refl)
qed

text \<open>
  The classifier is station safe.  Every class has the category of its priority; without a VLAN
  tag a frame gets no priority reserved for network control (7) and never 2, and the voice category only
  for the telephony code points 44 and 46; a frame too short for its header fields is best effort.
\<close>

theorem classification_is_station_safe:
  "class_category (classify_ethernet_wmm e) = access_category (user_priority (classify_ethernet_wmm e))
   \<and> (case class_source (classify_ethernet_wmm e) of
        Unmarked \<Rightarrow> classify_ethernet_wmm e = BEST_EFFORT
      | Ieee8021d p \<Rightarrow> user_priority (classify_ethernet_wmm e) = p \<and> 18 \<le> length e
      | DscpMarked d \<Rightarrow> 16 \<le> length e
          \<and> user_priority (classify_ethernet_wmm e) \<in> WmmUserPriority ` {Up0, Up1, Up3, Up4, Up5, Up6}
          \<and> (class_category (classify_ethernet_wmm e) = Voice \<longleftrightarrow> dscp_value d \<in> {44, 46}))"
proof -
  consider "classify_ethernet_wmm e = BEST_EFFORT"
    | p where "classify_ethernet_wmm e = from_user_priority p (Ieee8021d p)" "18 \<le> length e"
    | d where "classify_ethernet_wmm e
        = from_user_priority (station_user_priority d) (DscpMarked d)" "16 \<le> length e"
    using classify_cases [of e] by blast
  then show ?thesis
    by cases (use station_priority_cases in
      \<open>simp_all add: BEST_EFFORT_def from_user_priority_def\<close>)
qed

end
