(* ===== verification/Data_Framing.thy ===== *)
theory Data_Framing
  imports Frame_Header Wmm_Qos "HOL-Library.Sublist"
begin

text \<open>
  Data framing of stations and access points, \<open>crates/protocols/ieee80211/mac/src/data.rs\<close>: the
  header plan of an outgoing Ethernet frame, the decapsulation of a received MPDU and the
  iterator over the subframes of an A-MSDU.  Octet arrays and slices are lists; a buffer that the
  code fills in place is returned updated.  Lengths are natural numbers: a Rust slice is shorter
  than \<open>usize::MAX\<close>, so an offset whose \<open>checked_add\<close> overflows lies outside every slice and takes
  the same \<open>Truncated\<close> branch.
\<close>

definition IEEE80211_LEGACY_DATA_HEADER_LEN :: nat where "IEEE80211_LEGACY_DATA_HEADER_LEN = 24"
definition IEEE80211_QOS_DATA_HEADER_LEN :: nat where "IEEE80211_QOS_DATA_HEADER_LEN = 26"
definition IEEE80211_HE_CONTROL_LEN :: nat where "IEEE80211_HE_CONTROL_LEN = 4"
definition LLC_SNAP_HEADER_LEN :: nat where "LLC_SNAP_HEADER_LEN = 8"

definition IEEE80211_DATA :: u8 where "IEEE80211_DATA = 0x08"
definition IEEE80211_QOS_DATA :: u8 where "IEEE80211_QOS_DATA = 0x88"
definition IEEE80211_TO_DS :: u8 where "IEEE80211_TO_DS = 0x01"
definition IEEE80211_FROM_DS :: u8 where "IEEE80211_FROM_DS = 0x02"
definition IEEE80211_ORDER :: u8 where "IEEE80211_ORDER = 0x80"
definition IEEE80211_QOS_AMSDU_PRESENT :: u8 where "IEEE80211_QOS_AMSDU_PRESENT = 0x80"
definition QOS_NO_ACK_POLICY :: u8 where "QOS_NO_ACK_POLICY = 0x20"

definition RFC1042_LLC_SNAP_PREFIX :: "u8 list" where
  "RFC1042_LLC_SNAP_PREFIX = [0xaa, 0xaa, 0x03, 0, 0, 0]"

lemma length_prefix: "length RFC1042_LLC_SNAP_PREFIX = 6"
  by (simp add: RFC1042_LLC_SNAP_PREFIX_def)

lemmas data_lengths =
  IEEE80211_LEGACY_DATA_HEADER_LEN_def IEEE80211_QOS_DATA_HEADER_LEN_def
  IEEE80211_HE_CONTROL_LEN_def LLC_SNAP_HEADER_LEN_def ETHERNET_HEADER_LEN_def

lemmas data_octets =
  IEEE80211_DATA_def IEEE80211_QOS_DATA_def IEEE80211_TO_DS_def IEEE80211_FROM_DS_def
  IEEE80211_ORDER_def IEEE80211_QOS_AMSDU_PRESENT_def QOS_NO_ACK_POLICY_def

datatype DataInterfaceRole = Station | AccessPoint

datatype DataHeControl = Disabled | HardwareGeneratedBufferStatusReport

definition inserted_air_len :: "DataHeControl \<Rightarrow> nat" where
  "inserted_air_len self =
     (case self of Disabled \<Rightarrow> 0 | HardwareGeneratedBufferStatusReport \<Rightarrow> IEEE80211_HE_CONTROL_LEN)"

record DataEncapPlan =
  plan_header :: "u8 list"
  header_len :: u8
  llc_snap :: "u8 list"
  descriptor_multicast :: bool
  plan_access_category :: WmmAccessCategory
  he_control :: DataHeControl

definition dma_header_len :: "DataEncapPlan \<Rightarrow> nat" where
  "dma_header_len self = unat (header_len self)"

record DataDecapPlan =
  decap_destination :: "u8 list"
  decap_source :: "u8 list"
  decap_ether_type :: u16
  payload_offset :: nat
  payload_length :: nat
  ethernet_length :: nat

record EthernetFrameParts =
  eth_destination :: "u8 list"
  eth_source :: "u8 list"
  ether_type :: u16
  eth_payload :: "u8 list"

record AmsduSubframe =
  sub_destination :: "u8 list"
  sub_source :: "u8 list"
  sub_ether_type :: u16
  sub_payload :: "u8 list"

record AmsduSubframes =
  remaining :: "u8 list"
  failed :: bool

datatype DataDecapsulationFrames =
    Single "EthernetFrameParts option"
  | Aggregate AmsduSubframes

record DataDecapsulation =
  decap_frames :: DataDecapsulationFrames
  amsdu :: bool

datatype DataDecapError =
    Truncated
  | NotData
  | Fragmented
  | RoleMismatch
  | AmsduUnsupported
  | InvalidAmsduDestination
  | InvalidLlcSnap
  | OutputTooSmall nat

definition frame_length :: "EthernetFrameParts \<Rightarrow> nat" where
  "frame_length self = ETHERNET_HEADER_LEN + length (eth_payload self)"

text \<open>The four copies that fill an Ethernet buffer.\<close>

definition write_ethernet ::
    "u8 list \<Rightarrow> u8 list \<Rightarrow> u16 \<Rightarrow> u8 list \<Rightarrow> u8 list \<Rightarrow> u8 list" where
  "write_ethernet dst src typ pay output =
     write_at 14 pay (write_at 12 (u16_to_be_bytes typ) (write_at 6 src (write_at 0 dst output)))"

definition copy_to ::
    "EthernetFrameParts \<Rightarrow> u8 list \<Rightarrow> (nat, DataDecapError) result \<times> u8 list" where
  "copy_to self output =
     (let required = frame_length self
      in if length output < required then (Err (OutputTooSmall required), output)
         else (Ok required,
               write_ethernet (eth_destination self) (eth_source self) (ether_type self)
                 (eth_payload self) output))"

text \<open>\<open>AmsduSubframes::next\<close>.\<close>

definition amsdu_next ::
    "AmsduSubframes \<Rightarrow> (AmsduSubframe, DataDecapError) result option \<times> AmsduSubframes" where
  "amsdu_next self =
     (let rem = remaining self;
          fail = (\<lambda>e. (Some (Err e), self\<lparr>failed := True\<rparr>))
      in if failed self \<or> rem = [] then (None, self)
         else if length rem < ETHERNET_HEADER_LEN then fail Truncated
         else
           (let msdu_length = unat (u16_from_be_bytes (rem ! 12) (rem ! 13));
                subframe_length = ETHERNET_HEADER_LEN + msdu_length
            in if \<not> (LLC_SNAP_HEADER_LEN \<le> msdu_length \<and> subframe_length \<le> length rem)
               then fail Truncated
               else
                 (let llc = take LLC_SNAP_HEADER_LEN (drop ETHERNET_HEADER_LEN rem)
                  in if take (length RFC1042_LLC_SNAP_PREFIX) llc \<noteq> RFC1042_LLC_SNAP_PREFIX
                     then fail InvalidLlcSnap
                     else
                       (let subframe =
                              \<lparr>sub_destination = take 6 rem, sub_source = take 6 (drop 6 rem),
                               sub_ether_type = u16_from_be_bytes (llc ! 6) (llc ! 7),
                               sub_payload =
                                 take (subframe_length - (ETHERNET_HEADER_LEN + LLC_SNAP_HEADER_LEN))
                                   (drop (ETHERNET_HEADER_LEN + LLC_SNAP_HEADER_LEN) rem)\<rparr>
                        in if subframe_length = length rem
                           then (Some (Ok subframe), self\<lparr>remaining := []\<rparr>)
                           else
                             (let padded_length = (subframe_length + 3) div 4 * 4
                              in if length rem < padded_length then fail Truncated
                                 else (Some (Ok subframe),
                                       self\<lparr>remaining := drop padded_length rem\<rparr>))))))"

text \<open>\<open>DataDecapsulation::next\<close>.\<close>

definition parts_of_subframe :: "AmsduSubframe \<Rightarrow> EthernetFrameParts" where
  "parts_of_subframe f =
     \<lparr>eth_destination = sub_destination f, eth_source = sub_source f,
      ether_type = sub_ether_type f, eth_payload = sub_payload f\<rparr>"

definition decapsulation_next ::
    "DataDecapsulation
     \<Rightarrow> (EthernetFrameParts, DataDecapError) result option \<times> DataDecapsulation" where
  "decapsulation_next self =
     (case decap_frames self of
        Single frame \<Rightarrow> (map_option Ok frame, self\<lparr>decap_frames := Single None\<rparr>)
      | Aggregate frames \<Rightarrow>
          (case amsdu_next frames of
             (item, frames') \<Rightarrow>
               (map_option (\<lambda>r. case r of Ok f \<Rightarrow> Ok (parts_of_subframe f) | Err e \<Rightarrow> Err e) item,
                self\<lparr>decap_frames := Aggregate frames'\<rparr>)))"

definition copy_six :: "u8 list \<Rightarrow> nat \<Rightarrow> u8 list \<Rightarrow> u8 list" where
  "copy_six output at value = write_at at value output"

definition plan_data_encapsulation ::
    "DataInterfaceRole \<Rightarrow> u8 list \<Rightarrow> u8 list \<Rightarrow> u8 list \<Rightarrow> WmmUserPriority \<Rightarrow> bool \<Rightarrow> bool
     \<Rightarrow> DataEncapPlan" where
  "plan_data_encapsulation role bssid interface_mac ethernet priority peer_qos no_ack_policy =
     (let destination = take 6 ethernet;
          source = take 6 (drop 6 ethernet);
          multicast = (role = AccessPoint \<and> ethernet ! 0 AND 1 \<noteq> 0);
          qos = (peer_qos \<and> \<not> multicast);
          header = (replicate IEEE80211_QOS_DATA_HEADER_LEN 0)
            [0 := if qos then IEEE80211_QOS_DATA else IEEE80211_DATA];
          header =
            (case role of
               Station \<Rightarrow>
                 copy_six (copy_six (copy_six (header[1 := IEEE80211_TO_DS]) 4 bssid) 10 source)
                   16 destination
             | AccessPoint \<Rightarrow>
                 copy_six (copy_six (copy_six (header[1 := IEEE80211_FROM_DS]) 4 destination)
                   10 interface_mac) 16 source);
          header =
            (if qos
             then header[24 := priority_value priority
                               OR (if no_ack_policy then QOS_NO_ACK_POLICY else 0)]
             else header)
      in \<lparr>plan_header = header,
          header_len = of_nat (if qos then IEEE80211_QOS_DATA_HEADER_LEN
                               else IEEE80211_LEGACY_DATA_HEADER_LEN),
          llc_snap = [0xaa, 0xaa, 0x03, 0, 0, 0, ethernet ! 12, ethernet ! 13],
          descriptor_multicast = multicast,
          plan_access_category = access_category priority,
          he_control = Disabled\<rparr>)"

datatype HeControlRequiresQos = HeControlRequiresQos

definition plan_data_encapsulation_with_he_control ::
    "DataInterfaceRole \<Rightarrow> u8 list \<Rightarrow> u8 list \<Rightarrow> u8 list \<Rightarrow> WmmUserPriority \<Rightarrow> bool \<Rightarrow> bool
     \<Rightarrow> DataHeControl \<Rightarrow> (DataEncapPlan, HeControlRequiresQos) result" where
  "plan_data_encapsulation_with_he_control role bssid interface_mac ethernet priority peer_qos
       no_ack_policy he =
     (let plan = plan_data_encapsulation role bssid interface_mac ethernet priority peer_qos
                   no_ack_policy
      in if he = HardwareGeneratedBufferStatusReport
         then (if header_len plan \<noteq> of_nat IEEE80211_QOS_DATA_HEADER_LEN
               then Err HeControlRequiresQos
               else Ok (plan\<lparr>plan_header :=
                          (plan_header plan)[1 := plan_header plan ! 1 OR IEEE80211_ORDER],
                        he_control := he\<rparr>))
         else Ok (plan\<lparr>he_control := he\<rparr>))"

definition data_header ::
    "DataInterfaceRole \<Rightarrow> u8 list \<Rightarrow> (DecodedHeader, DataDecapError) result" where
  "data_header role mpdu =
     (case decode mpdu of
        None \<Rightarrow> Err Truncated
      | Some header \<Rightarrow>
          (let control = dh_control header
           in if \<not> is_data control then Err NotData
              else if control_more_fragments control \<or> dh_sequence_control header AND 15 \<noteq> 0
              then Err Fragmented
              else if \<not> (role = Station \<and> control_ds control = 2
                         \<or> role = AccessPoint \<and> control_ds control = 1)
              then Err RoleMismatch
              else Ok header))"

definition data_payload ::
    "DecodedHeader \<Rightarrow> nat \<Rightarrow> nat \<Rightarrow> (u8 list, DataDecapError) result" where
  "data_payload header offset len =
     (if offset < length (dh_frame header) - length (dh_body header) then Err Truncated
      else ok_or (get_slice (dh_frame header) offset len) Truncated)"

definition single_payload ::
    "DecodedHeader \<Rightarrow> u8 list \<Rightarrow> (EthernetFrameParts, DataDecapError) result" where
  "single_payload header payload =
     (case split_first_chunk LLC_SNAP_HEADER_LEN payload of
        None \<Rightarrow> Err Truncated
      | Some (llc, payload) \<Rightarrow>
          if take (length RFC1042_LLC_SNAP_PREFIX) llc \<noteq> RFC1042_LLC_SNAP_PREFIX
          then Err InvalidLlcSnap
          else
            (let parts = (\<lambda>dst src. Ok \<lparr>eth_destination = dst, eth_source = src,
                            ether_type = u16_from_be_bytes (llc ! 6) (llc ! 7),
                            eth_payload = payload\<rparr>);
                 ds = control_ds (dh_control header)
             in if ds = 2 then parts (dh_receiver header) (dh_address3 header)
                else if ds = 1 then parts (dh_address3 header) (dh_transmitter header)
                else Err RoleMismatch))"

definition amsdu_present :: "DecodedHeader \<Rightarrow> bool" where
  "amsdu_present header \<longleftrightarrow>
     (case dh_qos header of
        None \<Rightarrow> False
      | Some qos \<Rightarrow> qos AND ucast IEEE80211_QOS_AMSDU_PRESENT \<noteq> 0)"

definition plan_data_decapsulation ::
    "DataInterfaceRole \<Rightarrow> u8 list \<Rightarrow> nat \<Rightarrow> nat \<Rightarrow> (DataDecapPlan, DataDecapError) result" where
  "plan_data_decapsulation role mpdu offset len =
     (case data_header role mpdu of
        Err e \<Rightarrow> Err e
      | Ok header \<Rightarrow>
          if amsdu_present header then Err AmsduUnsupported
          else
            (case data_payload header offset len of
               Err e \<Rightarrow> Err e
             | Ok payload \<Rightarrow>
                 (case single_payload header payload of
                    Err e \<Rightarrow> Err e
                  | Ok parts \<Rightarrow>
                      Ok \<lparr>decap_destination = eth_destination parts,
                          decap_source = eth_source parts, decap_ether_type = ether_type parts,
                          payload_offset = offset + LLC_SNAP_HEADER_LEN,
                          payload_length = length (eth_payload parts),
                          ethernet_length = frame_length parts\<rparr>)))"

definition aggregate_payload :: "u8 list \<Rightarrow> (AmsduSubframes, DataDecapError) result" where
  "aggregate_payload payload =
     (case split_first_chunk (ETHERNET_HEADER_LEN + LLC_SNAP_HEADER_LEN) payload of
        None \<Rightarrow> Err Truncated
      | Some (first, _) \<Rightarrow>
          if take 6 first = RFC1042_LLC_SNAP_PREFIX then Err InvalidAmsduDestination
          else Ok \<lparr>remaining = payload, failed = False\<rparr>)"

definition amsdu_subframes ::
    "DataInterfaceRole \<Rightarrow> u8 list \<Rightarrow> nat \<Rightarrow> nat \<Rightarrow> (AmsduSubframes, DataDecapError) result" where
  "amsdu_subframes role mpdu offset len =
     (case data_header role mpdu of
        Err e \<Rightarrow> Err e
      | Ok header \<Rightarrow>
          if \<not> amsdu_present header then Err AmsduUnsupported
          else
            (case data_payload header offset len of
               Err e \<Rightarrow> Err e
             | Ok payload \<Rightarrow> aggregate_payload payload))"

definition decapsulate_payload ::
    "DecodedHeader \<Rightarrow> u8 list \<Rightarrow> (DataDecapsulation, DataDecapError) result" where
  "decapsulate_payload header payload =
     (if amsdu_present header
      then (case aggregate_payload payload of
              Err e \<Rightarrow> Err e
            | Ok frames \<Rightarrow> Ok \<lparr>decap_frames = Aggregate frames, amsdu = True\<rparr>)
      else (case single_payload header payload of
              Err e \<Rightarrow> Err e
            | Ok frame \<Rightarrow> Ok \<lparr>decap_frames = Single (Some frame), amsdu = False\<rparr>))"

definition decapsulate_data_frames ::
    "DataInterfaceRole \<Rightarrow> u8 list \<Rightarrow> nat \<Rightarrow> nat \<Rightarrow> (DataDecapsulation, DataDecapError) result" where
  "decapsulate_data_frames role mpdu offset len =
     (case data_header role mpdu of
        Err e \<Rightarrow> Err e
      | Ok header \<Rightarrow>
          (case data_payload header offset len of
             Err e \<Rightarrow> Err e
           | Ok payload \<Rightarrow> decapsulate_payload header payload))"

definition decapsulate_amsdu_subframe ::
    "AmsduSubframe \<Rightarrow> u8 list \<Rightarrow> (nat, DataDecapError) result \<times> u8 list" where
  "decapsulate_amsdu_subframe subframe ethernet =
     (let required = ETHERNET_HEADER_LEN + length (sub_payload subframe)
      in if length ethernet < required then (Err (OutputTooSmall required), ethernet)
         else (Ok required,
               write_ethernet (sub_destination subframe) (sub_source subframe)
                 (sub_ether_type subframe) (sub_payload subframe) ethernet))"

definition decapsulate_data ::
    "DataInterfaceRole \<Rightarrow> u8 list \<Rightarrow> nat \<Rightarrow> nat \<Rightarrow> u8 list
     \<Rightarrow> (DataDecapPlan, DataDecapError) result \<times> u8 list" where
  "decapsulate_data role mpdu offset len ethernet =
     (case plan_data_decapsulation role mpdu offset len of
        Err e \<Rightarrow> (Err e, ethernet)
      | Ok plan \<Rightarrow>
          if length ethernet < ethernet_length plan
          then (Err (OutputTooSmall (ethernet_length plan)), ethernet)
          else (Ok plan,
                write_ethernet (decap_destination plan) (decap_source plan) (decap_ether_type plan)
                  (take (payload_length plan) (drop (payload_offset plan) mpdu)) ethernet))"

subsection \<open>The frame on the air\<close>

text \<open>
  The MPDU of a plan: the planned header with the Duration and Sequence Control fields the
  transmitter fills in, the HE-Control octets the hardware inserts, the LLC/SNAP header and the
  Ethernet payload.
\<close>

definition air_mpdu :: "DataEncapPlan \<Rightarrow> u16 \<Rightarrow> u16 \<Rightarrow> u8 list \<Rightarrow> u8 list \<Rightarrow> u8 list" where
  "air_mpdu plan dur sc hc payload =
     (let h = take (dma_header_len plan) (plan_header plan)
      in take 2 h @ u16_to_le_bytes dur @ take 18 (drop 4 h) @ u16_to_le_bytes sc @ drop 24 h
         @ hc @ llc_snap plan @ payload)"

fun peer :: "DataInterfaceRole \<Rightarrow> DataInterfaceRole" where
  "peer Station = AccessPoint"
| "peer AccessPoint = Station"

definition qos_plan :: "DataInterfaceRole \<Rightarrow> u8 list \<Rightarrow> bool \<Rightarrow> bool" where
  "qos_plan role ethernet peer_qos \<longleftrightarrow> peer_qos \<and> \<not> (role = AccessPoint \<and> ethernet ! 0 AND 1 \<noteq> 0)"

definition qos_octet :: "WmmUserPriority \<Rightarrow> bool \<Rightarrow> u8" where
  "qos_octet priority no_ack = priority_value priority OR (if no_ack then 0x20 else 0)"

fun ds_octet :: "DataInterfaceRole \<Rightarrow> u8" where
  "ds_octet Station = 1"
| "ds_octet AccessPoint = 2"

fun addresses :: "DataInterfaceRole \<Rightarrow> u8 list \<Rightarrow> u8 list \<Rightarrow> u8 list \<Rightarrow> u8 list \<times> u8 list \<times> u8 list" where
  "addresses Station bssid mac e = (bssid, take 6 (drop 6 e), take 6 e)"
| "addresses AccessPoint bssid mac e = (take 6 e, mac, take 6 (drop 6 e))"

lemma copy_addresses:
  "length A = 6 \<Longrightarrow> length B = 6 \<Longrightarrow> length C = 6 \<Longrightarrow>
   copy_six (copy_six (copy_six (a # b # 0 # 0 # replicate 18 0 @ t) 4 A) 10 B) 16 C
     = a # b # 0 # 0 # A @ B @ C @ t"
  by (simp add: copy_six_def write_at_def)

lemma blank_header:
  "(replicate 26 0)[0 := a, Suc 0 := b] = a # b # 0 # 0 # replicate 18 0 @ [0, 0, 0, 0 :: u8]"
  by (simp add: numeral_eq_Suc)

lemma plan_header_eq:
  assumes "length bssid = 6" "length mac = 6" "length e = 14"
    and "addresses role bssid mac e = (A, B, C)"
  shows "plan_header (plan_data_encapsulation role bssid mac e priority peer_qos no_ack)
    = (if qos_plan role e peer_qos then 0x88 else 0x08) # ds_octet role # 0 # 0 # A @ B @ C @ [0, 0]
      @ [if qos_plan role e peer_qos then qos_octet priority no_ack else 0, 0]"
proof -
  have len: "length A = 6" "length B = 6" "length C = 6"
    using assms by (cases role; auto)+
  have "plan_header (plan_data_encapsulation role bssid mac e priority peer_qos no_ack)
    = (let h = copy_six (copy_six (copy_six ((replicate 26 0)
            [0 := if qos_plan role e peer_qos then 0x88 else 0x08, Suc 0 := ds_octet role]) 4 A) 10 B)
            16 C
       in if qos_plan role e peer_qos then h[24 := qos_octet priority no_ack] else h)"
    using assms(4)
    by (cases role)
       (auto simp: plan_data_encapsulation_def qos_plan_def qos_octet_def data_octets data_lengths
          Let_def)
  then show ?thesis
    unfolding blank_header by (simp add: copy_addresses len list_update_append)
qed

text \<open>The Frame Control of a planned frame, and what the receiver reads from it.\<close>

definition data_control :: "DataInterfaceRole \<Rightarrow> bool \<Rightarrow> bool \<Rightarrow> FrameControl" where
  "data_control role qos he =
     FrameControl (u16_from_le_bytes (if qos then 0x88 else 0x08)
       (ds_octet role OR (if he then 0x80 else 0)))"

lemma data_control_reads:
  assumes "he \<longrightarrow> qos"
  shows "FrameControl_new (control_get (data_control role qos he)) = Some (data_control role qos he)"
    "is_data (data_control role qos he)" "\<not> control_more_fragments (data_control role qos he)"
    "control_ds (data_control role qos he) = (case role of Station \<Rightarrow> 1 | AccessPoint \<Rightarrow> 2)"
    "is_qos_data (data_control role qos he) = qos" "\<not> is_four_address (data_control role qos he)"
    "has_ht_control (data_control role qos he) = he"
  using assms
  by (cases role; cases qos; cases he;
      simp add: data_control_def u16_from_le_bytes_def control_reads)+

lemma qos_octet_no_amsdu: "u16_from_le_bytes (qos_octet p no_ack) 0 AND 0x80 = 0"
  by (cases p rule: priority_value.cases; cases no_ack;
      simp add: qos_octet_def u16_from_le_bytes_def)

text \<open>The header a receiver decodes from the frame.\<close>

lemma plan_lengths:
  "dma_header_len (plan_data_encapsulation role bssid mac e priority peer_qos no_ack)
     = (if qos_plan role e peer_qos then 26 else 24)"
  "llc_snap (plan_data_encapsulation role bssid mac e priority peer_qos no_ack)
     = RFC1042_LLC_SNAP_PREFIX @ [e ! 12, e ! 13]"
  "header_len (plan_data_encapsulation role bssid mac e priority peer_qos no_ack)
     = (if qos_plan role e peer_qos then 26 else 24)"
  by (auto simp: plan_data_encapsulation_def Let_def dma_header_len_def qos_plan_def data_lengths
      RFC1042_LLC_SNAP_PREFIX_def)

lemma planned_with_he_control:
  assumes len: "length bssid = 6" "length mac = 6" "length e = 14"
    and adr: "addresses role bssid mac e = (A, B, C)"
    and ok: "plan_data_encapsulation_with_he_control role bssid mac e priority peer_qos no_ack he
      = Ok plan"
    and hc: "length hc = inserted_air_len he"
  obtains qos hw where "qos = qos_plan role e peer_qos" "hw \<longrightarrow> qos"
    "dma_header_len plan = (if qos then 26 else 24)"
    "length hc = (if hw then 4 else 0)"
    "air_mpdu plan dur sc hc payload
      = [if qos then 0x88 else 0x08, ds_octet role OR (if hw then 0x80 else 0)]
        @ u16_to_le_bytes dur @ A @ B @ C @ u16_to_le_bytes sc
        @ (if qos then [qos_octet priority no_ack, 0] else []) @ hc
        @ RFC1042_LLC_SNAP_PREFIX @ [e ! 12, e ! 13] @ payload"
proof -
  let ?p = "plan_data_encapsulation role bssid mac e priority peer_qos no_ack"
  let ?hw = "he = HardwareGeneratedBufferStatusReport" and ?qos = "qos_plan role e peer_qos"
  have abc: "length A = 6" "length B = 6" "length C = 6" using len adr by (cases role; auto)+
  have plan: "plan = ?p\<lparr>plan_header := (if ?hw then (plan_header ?p)[1 := plan_header ?p ! 1 OR 0x80]
       else plan_header ?p), he_control := he\<rparr>" and imp: "?hw \<longrightarrow> ?qos"
    using ok
    by (auto simp: plan_data_encapsulation_with_he_control_def Let_def data_octets plan_lengths
        data_lengths split: if_splits)
  have "plan_header plan = (if ?qos then 0x88 else 0x08) # (ds_octet role OR (if ?hw then 0x80 else 0))
      # 0 # 0 # A @ B @ C @ [0, 0] @ [if ?qos then qos_octet priority no_ack else 0, 0]"
    unfolding plan using plan_header_eq [OF len adr, of priority peer_qos no_ack] by simp
  moreover have "dma_header_len plan = (if ?qos then 26 else 24)"
    and llc: "llc_snap plan = RFC1042_LLC_SNAP_PREFIX @ [e ! 12, e ! 13]"
    unfolding plan using plan_lengths(1) [of role bssid mac e priority peer_qos no_ack]
    by (simp_all add: dma_header_len_def plan_lengths(2))
  moreover have "length hc = (if ?hw then 4 else 0)"
    using hc by (cases he) (simp_all add: inserted_air_len_def data_lengths)
  ultimately show thesis
    using abc that [OF refl imp] by (simp add: air_mpdu_def Let_def)
qed

lemma decode_air_mpdu:
  fixes dur sc :: u16 and body :: "u8 list" and role :: DataInterfaceRole
  assumes "length A = 6" "length B = 6" "length C = 6" and he: "he \<longrightarrow> qos"
    and hc: "length hc = (if he then 4 else 0)" and q: "length q = 2"
  defines "frame \<equiv> [if qos then 0x88 else 0x08, ds_octet role OR (if he then 0x80 else 0)]
    @ u16_to_le_bytes dur @ A @ B @ C @ u16_to_le_bytes sc @ (if qos then q else []) @ hc @ body"
  shows "decode frame = Some \<lparr>dh_control = data_control role qos he, dh_duration = dur,
    dh_receiver = A, dh_transmitter = B, dh_address3 = C, dh_sequence_control = sc,
    dh_address4 = None, dh_qos = (if qos then Some (le_field q) else None),
    dh_ht_control = (if he then Some hc else None), dh_frame = frame, dh_body = body\<rparr>"
    (is "_ = Some ?h")
proof -
  have "u16_to_le_bytes (control_get (data_control role qos he))
      = [if qos then 0x88 else 0x08, ds_octet role OR (if he then 0x80 else 0)]"
    by (simp add: data_control_def u16_to_le_bytes_def u16_from_le_bytes_parts)
  then have frame: "frame = header_octets ?h @ dh_body ?h"
    using hc q by (cases qos; cases he) (simp_all add: frame_def header_octets_def)
  moreover have "header_wf ?h"
    using assms(1-3) hc data_control_reads [OF he, of role] frame
    by (cases qos; cases he) (simp_all add: header_wf_def)
  ultimately show ?thesis using decode_header_octets [of ?h] by simp
qed

text \<open>The receive path on a decoded header whose body starts at the payload.\<close>

lemma data_payload_body:
  "header_wf h \<Longrightarrow> data_payload h (length (header_octets h)) (length (dh_body h)) = Ok (dh_body h)"
  by (simp add: header_wf_def data_payload_def get_slice_def)

lemma single_payload_snap:
  "single_payload h (RFC1042_LLC_SNAP_PREFIX @ t0 # t1 # payload) =
     (if control_ds (dh_control h) = 2
      then Ok \<lparr>eth_destination = dh_receiver h, eth_source = dh_address3 h,
        ether_type = u16_from_be_bytes t0 t1, eth_payload = payload\<rparr>
      else if control_ds (dh_control h) = 1
      then Ok \<lparr>eth_destination = dh_address3 h, eth_source = dh_transmitter h,
        ether_type = u16_from_be_bytes t0 t1, eth_payload = payload\<rparr>
      else Err RoleMismatch)"
  by (simp add: single_payload_def split_first_chunk_def RFC1042_LLC_SNAP_PREFIX_def Let_def
      data_lengths)

text \<open>What the peer recovers from a planned frame, by the path both receive operations share.\<close>

lemma received_plan:
  assumes len: "length bssid = 6" "length mac = 6" "length e = 14"
    and ok: "plan_data_encapsulation_with_he_control role bssid mac e priority peer_qos no_ack he
      = Ok plan"
    and hc: "length hc = inserted_air_len he" and sc: "sc AND 15 = 0"
  obtains h where
    "data_header (peer role) (air_mpdu plan dur sc hc payload) = Ok h" "\<not> amsdu_present h"
    "data_payload h (dma_header_len plan + length hc) (8 + length payload)
      = Ok (RFC1042_LLC_SNAP_PREFIX @ [e ! 12, e ! 13] @ payload)"
    "single_payload h (RFC1042_LLC_SNAP_PREFIX @ [e ! 12, e ! 13] @ payload)
      = Ok \<lparr>eth_destination = take 6 e, eth_source = take 6 (drop 6 e),
            ether_type = u16_from_be_bytes (e ! 12) (e ! 13), eth_payload = payload\<rparr>"
    "dh_frame h = air_mpdu plan dur sc hc payload"
    "air_mpdu plan dur sc hc payload = header_octets h @ RFC1042_LLC_SNAP_PREFIX
      @ [e ! 12, e ! 13] @ payload"
    "length (header_octets h) = dma_header_len plan + length hc"
proof -
  obtain A B C where adr: "addresses role bssid mac e = (A, B, C)" by (cases role) auto
  have abc: "length A = 6" "length B = 6" "length C = 6" using len adr by (cases role; auto)+
  from len adr ok hc obtain qos hw where "qos = qos_plan role e peer_qos" and plan: "hw \<longrightarrow> qos"
    "dma_header_len plan = (if qos then 26 else 24)" "length hc = (if hw then 4 else 0)" and
    air: "air_mpdu plan dur sc hc payload
      = [if qos then 0x88 else 0x08, ds_octet role OR (if hw then 0x80 else 0)]
        @ u16_to_le_bytes dur @ A @ B @ C @ u16_to_le_bytes sc
        @ (if qos then [qos_octet priority no_ack, 0] else []) @ hc
        @ RFC1042_LLC_SNAP_PREFIX @ [e ! 12, e ! 13] @ payload"
    by (rule planned_with_he_control [where dur = dur and sc = sc and payload = payload]) (rule that)
  let ?snap = "RFC1042_LLC_SNAP_PREFIX @ [e ! 12, e ! 13] @ payload"
  define h where "h = \<lparr>dh_control = data_control role qos hw, dh_duration = dur,
    dh_receiver = A, dh_transmitter = B, dh_address3 = C, dh_sequence_control = sc,
    dh_address4 = None,
    dh_qos = (if qos then Some (le_field [qos_octet priority no_ack, 0]) else None),
    dh_ht_control = (if hw then Some hc else None),
    dh_frame = air_mpdu plan dur sc hc payload, dh_body = ?snap\<rparr>"
  have dec: "decode (air_mpdu plan dur sc hc payload) = Some h"
    unfolding air h_def
    using decode_air_mpdu [OF abc plan(1,3), of "[qos_octet priority no_ack, 0]"] by simp
  note wf = decode_wf [OF dec]
  note reads = data_control_reads [OF plan(1), of role]
  have frame: "air_mpdu plan dur sc hc payload = header_octets h @ ?snap"
    using wf by (simp add: header_wf_def) (simp add: h_def)
  have llen: "length (header_octets h) = dma_header_len plan + length hc"
    using abc plan by (simp add: header_octets_def h_def)
  have body: "dh_body h = ?snap" and blen: "length ?snap = 8 + length payload"
    by (simp_all add: h_def RFC1042_LLC_SNAP_PREFIX_def)
  show thesis
  proof (rule that [OF _ _ _ _ _ frame llen])
    show "data_header (peer role) (air_mpdu plan dur sc hc payload) = Ok h"
      using sc reads by (cases role) (simp_all add: data_header_def dec h_def)
    show "\<not> amsdu_present h"
      using qos_octet_no_amsdu [of priority no_ack]
      by (simp add: amsdu_present_def h_def le_field_def data_octets)
    show "data_payload h (dma_header_len plan + length hc) (8 + length payload) = Ok ?snap"
      using data_payload_body [of h] wf unfolding llen body blen by simp
    show "single_payload h ?snap = Ok \<lparr>eth_destination = take 6 e, eth_source = take 6 (drop 6 e),
            ether_type = u16_from_be_bytes (e ! 12) (e ! 13), eth_payload = payload\<rparr>"
      using adr reads(4) by (cases role) (auto simp: single_payload_snap h_def)
    show "dh_frame h = air_mpdu plan dur sc hc payload" using wf by simp
  qed
qed

subsection \<open>Properties of the encapsulation\<close>

text \<open>
  C11. A planned data frame decapsulates to the Ethernet frame it was planned from.  For a station or
  an access point, with or without QoS, no-ack policy and hardware-inserted HE-Control octets, and
  with any Duration and any Sequence Control of an unfragmented frame, the peer's decapsulation of
  the MPDU yields one frame with the original destination, source, EtherType and payload.
\<close>

theorem data_frame_roundtrip:
  assumes "length bssid = 6" "length mac = 6" "length ethernet = 14"
    and "plan_data_encapsulation_with_he_control role bssid mac ethernet priority peer_qos no_ack he
      = Ok plan"
    and "length hc = inserted_air_len he" and "sc AND 15 = 0"
  shows "decapsulate_data_frames (peer role) (air_mpdu plan dur sc hc payload)
      (dma_header_len plan + length hc) (8 + length payload)
    = Ok \<lparr>decap_frames = Single (Some \<lparr>eth_destination = take 6 ethernet,
            eth_source = take 6 (drop 6 ethernet),
            ether_type = u16_from_be_bytes (ethernet ! 12) (ethernet ! 13), eth_payload = payload\<rparr>),
          amsdu = False\<rparr>"
  by (rule received_plan [OF assms, of dur payload])
     (simp add: decapsulate_data_frames_def decapsulate_payload_def)

theorem data_frame_roundtrip_witness:
  "decapsulate_data_frames AccessPoint
     [0x88, 0x81, 0, 0, 2, 0, 0, 0, 0, 9, 4, 0, 0, 0, 0, 4, 6, 0, 0, 0, 0, 6, 0x30, 0x12, 0x26, 0,
      1, 2, 3, 4, 0xaa, 0xaa, 0x03, 0, 0, 0, 0x08, 0x00, 0x45, 0x11]
     30 10
   = Ok \<lparr>decap_frames = Single (Some \<lparr>eth_destination = [6, 0, 0, 0, 0, 6],
       eth_source = [4, 0, 0, 0, 0, 4], ether_type = 0x0800, eth_payload = [0x45, 0x11]\<rparr>),
     amsdu = False\<rparr>"
proof -
  define plan where "plan = plan_data_encapsulation Station [2, 0, 0, 0, 0, 9] [4, 0, 0, 0, 0, 4]
    [6, 0, 0, 0, 0, 6, 4, 0, 0, 0, 0, 4, 0x08, 0x00] (WmmUserPriority Up6) True True
    \<lparr>plan_header := [0x88, 0x81, 0, 0, 2, 0, 0, 0, 0, 9, 4, 0, 0, 0, 0, 4, 6, 0, 0, 0, 0, 6, 0, 0,
      0x26, 0], he_control := HardwareGeneratedBufferStatusReport\<rparr>"
  have "plan_data_encapsulation_with_he_control Station [2, 0, 0, 0, 0, 9] [4, 0, 0, 0, 0, 4]
    [6, 0, 0, 0, 0, 6, 4, 0, 0, 0, 0, 4, 0x08, 0x00] (WmmUserPriority Up6) True True
    HardwareGeneratedBufferStatusReport = Ok plan"
    unfolding plan_def by code_simp
  from data_frame_roundtrip [OF _ _ _ this, of "[1, 2, 3, 4]" "0x1230" 0 "[0x45, 0x11]"]
  have "decapsulate_data_frames AccessPoint (air_mpdu plan 0 0x1230 [1, 2, 3, 4] [0x45, 0x11])
      (dma_header_len plan + 4) 10
    = Ok \<lparr>decap_frames = Single (Some \<lparr>eth_destination = [6, 0, 0, 0, 0, 6],
       eth_source = [4, 0, 0, 0, 0, 4], ether_type = u16_from_be_bytes 0x08 0x00,
       eth_payload = [0x45, 0x11]\<rparr>), amsdu = False\<rparr>"
    by (simp add: inserted_air_len_def data_lengths eval_nat_numeral)
  moreover have "air_mpdu plan 0 0x1230 [1, 2, 3, 4] [0x45, 0x11]
    = [0x88, 0x81, 0, 0, 2, 0, 0, 0, 0, 9, 4, 0, 0, 0, 0, 4, 6, 0, 0, 0, 0, 6, 0x30, 0x12, 0x26, 0,
      1, 2, 3, 4, 0xaa, 0xaa, 0x03, 0, 0, 0, 0x08, 0x00, 0x45, 0x11]" "dma_header_len plan + 4 = 30"
    "u16_from_be_bytes 0x08 0x00 = 0x0800"
    unfolding plan_def by code_simp+
  ultimately show ?thesis by simp
qed

subsection \<open>Copying out\<close>

lemma write_ethernet_eq:
  "length dst = 6 \<Longrightarrow> length src = 6 \<Longrightarrow> 14 + length pay \<le> length out \<Longrightarrow>
   write_ethernet dst src typ pay out
     = dst @ src @ u16_to_be_bytes typ @ pay @ drop (14 + length pay) out"
  by (simp add: write_ethernet_def write_at_def min_def add.commute)

text \<open>The frame a decapsulation plan describes.\<close>

definition planned_parts :: "DataDecapPlan \<Rightarrow> u8 list \<Rightarrow> EthernetFrameParts" where
  "planned_parts plan mpdu =
     \<lparr>eth_destination = decap_destination plan, eth_source = decap_source plan,
      ether_type = decap_ether_type plan,
      eth_payload = take (payload_length plan) (drop (payload_offset plan) mpdu)\<rparr>"

lemma data_header_frame: "data_header role mpdu = Ok h \<Longrightarrow> header_wf h \<and> dh_frame h = mpdu"
  using decode_wf by (auto simp: data_header_def Let_def split: option.splits if_splits)

lemma data_payload_Ok:
  "data_payload h off len = Ok pay \<longleftrightarrow>
     length (dh_frame h) - length (dh_body h) \<le> off \<and> off + len \<le> length (dh_frame h)
     \<and> pay = take len (drop off (dh_frame h))"
  by (auto simp: data_payload_def get_slice_def)

lemma single_payload_Ok:
  assumes "single_payload h pay = Ok parts"
  shows "8 \<le> length pay" "take 6 pay = RFC1042_LLC_SNAP_PREFIX" "eth_payload parts = drop 8 pay"
  using assms
  by (auto simp: single_payload_def split_first_chunk_def data_lengths length_prefix
      Let_def min_def split: if_splits option.splits)

lemma plan_data_decapsulation_Ok:
  "plan_data_decapsulation role mpdu off len = Ok plan \<longleftrightarrow>
     (\<exists>h pay parts. data_header role mpdu = Ok h \<and> \<not> amsdu_present h
        \<and> data_payload h off len = Ok pay \<and> single_payload h pay = Ok parts
        \<and> plan = \<lparr>decap_destination = eth_destination parts, decap_source = eth_source parts,
            decap_ether_type = ether_type parts, payload_offset = off + 8,
            payload_length = length (eth_payload parts), ethernet_length = frame_length parts\<rparr>)"
  by (auto simp: plan_data_decapsulation_def data_lengths split: result.splits)

lemma planned_parts_of_plan:
  assumes "data_header role mpdu = Ok h" "data_payload h off len = Ok pay"
    "single_payload h pay = Ok parts"
  shows "planned_parts \<lparr>decap_destination = eth_destination parts, decap_source = eth_source parts,
      decap_ether_type = ether_type parts, payload_offset = off + 8,
      payload_length = length (eth_payload parts), ethernet_length = frame_length parts\<rparr> mpdu
    = parts"
  using single_payload_Ok [OF assms(3)] assms(2) data_header_frame [OF assms(1)]
  by (auto simp: planned_parts_def data_payload_Ok drop_take add.commute)

lemma decapsulate_data_frames_single:
  "decapsulate_data_frames role mpdu off len
      = Ok \<lparr>decap_frames = Single (Some parts), amsdu = False\<rparr> \<longleftrightarrow>
   (\<exists>h pay. data_header role mpdu = Ok h \<and> \<not> amsdu_present h
        \<and> data_payload h off len = Ok pay \<and> single_payload h pay = Ok parts)"
  by (auto simp: decapsulate_data_frames_def decapsulate_payload_def split: result.splits if_splits)

subsection \<open>Properties of the decapsulation\<close>

text \<open>
  The copying decapsulation restores the Ethernet octets.  A planned frame received into a
  buffer leaves the original Ethernet header and payload at the buffer's start and the rest of the
  buffer untouched; a buffer that is too short is refused with the length it needs and is not
  written.
\<close>

theorem decapsulate_data_restores_ethernet:
  assumes "length bssid = 6" "length mac = 6" "length ethernet = 14"
    and "plan_data_encapsulation_with_he_control role bssid mac ethernet priority peer_qos no_ack he
      = Ok plan"
    and "length hc = inserted_air_len he" and "sc AND 15 = 0"
  shows "(case decapsulate_data (peer role) (air_mpdu plan dur sc hc payload)
              (dma_header_len plan + length hc) (8 + length payload) buffer of
            (Err e, out) \<Rightarrow> length buffer < 14 + length payload
              \<and> e = OutputTooSmall (14 + length payload) \<and> out = buffer
          | (Ok p, out) \<Rightarrow> 14 + length payload \<le> length buffer
              \<and> ethernet_length p = 14 + length payload
              \<and> out = ethernet @ payload @ drop (14 + length payload) buffer)"
proof (rule received_plan [OF assms, of dur payload])
  fix h
  let ?air = "air_mpdu plan dur sc hc payload" and ?off = "dma_header_len plan + length hc"
  let ?parts = "\<lparr>eth_destination = take 6 ethernet, eth_source = take 6 (drop 6 ethernet),
    ether_type = u16_from_be_bytes (ethernet ! 12) (ethernet ! 13), eth_payload = payload\<rparr>"
  assume h: "data_header (peer role) ?air = Ok h" "\<not> amsdu_present h"
    "data_payload h ?off (8 + length payload)
      = Ok (RFC1042_LLC_SNAP_PREFIX @ [ethernet ! 12, ethernet ! 13] @ payload)"
    "single_payload h (RFC1042_LLC_SNAP_PREFIX @ [ethernet ! 12, ethernet ! 13] @ payload) = Ok ?parts"
  define p where "p = \<lparr>decap_destination = eth_destination ?parts, decap_source = eth_source ?parts,
    decap_ether_type = ether_type ?parts, payload_offset = ?off + 8,
    payload_length = length (eth_payload ?parts), ethernet_length = frame_length ?parts\<rparr>"
  have plan: "plan_data_decapsulation (peer role) ?air ?off (8 + length payload) = Ok p"
    unfolding plan_data_decapsulation_Ok p_def using h by blast
  have parts: "take (payload_length p) (drop (payload_offset p) ?air) = payload"
    using arg_cong [OF planned_parts_of_plan [OF h(1,3,4)], of eth_payload]
    by (simp add: planned_parts_def p_def)
  have eth: "ethernet = take 6 ethernet @ take 6 (drop 6 ethernet) @ [ethernet ! 12, ethernet ! 13]"
    using assms(3) by (auto simp: numeral_eq_Suc length_Suc_conv)
  have len: "ethernet_length p = 14 + length payload"
    by (simp add: p_def frame_length_def data_lengths)
  show ?thesis
  proof (cases "length buffer < 14 + length payload")
    case True
    with plan len show ?thesis by (simp add: decapsulate_data_def)
  next
    case False
    then have "write_ethernet (decap_destination p) (decap_source p) (decap_ether_type p) payload
        buffer = (take 6 ethernet @ take 6 (drop 6 ethernet) @ [ethernet ! 12, ethernet ! 13])
          @ payload @ drop (14 + length payload) buffer"
      using assms(3) by (simp add: write_ethernet_eq p_def)
    note out = this [folded eth]
    with False plan len parts show ?thesis by (simp add: decapsulate_data_def)
  qed
qed

theorem decapsulate_data_restores_ethernet_witness:
  "snd (decapsulate_data Station
     (air_mpdu (plan_data_encapsulation AccessPoint [2, 0, 0, 0, 0, 9] [2, 0, 0, 0, 0, 9]
        [4, 0, 0, 0, 0, 4, 6, 0, 0, 0, 0, 6, 0x08, 0x06] (WmmUserPriority Up0) False False)
        0 0 [] [1, 2]) 24 10 (replicate 20 7))
   = [4, 0, 0, 0, 0, 4, 6, 0, 0, 0, 0, 6, 0x08, 0x06, 1, 2, 7, 7, 7, 7]"
proof -
  let ?plan = "plan_data_encapsulation AccessPoint [2, 0, 0, 0, 0, 9] [2, 0, 0, 0, 0, 9]
        [4, 0, 0, 0, 0, 4, 6, 0, 0, 0, 0, 6, 0x08, 0x06] (WmmUserPriority Up0) False False"
  have "plan_data_encapsulation_with_he_control AccessPoint [2, 0, 0, 0, 0, 9] [2, 0, 0, 0, 0, 9]
        [4, 0, 0, 0, 0, 4, 6, 0, 0, 0, 0, 6, 0x08, 0x06] (WmmUserPriority Up0) False False Disabled
      = Ok ?plan"
    by code_simp
  from decapsulate_data_restores_ethernet [OF _ _ _ this, where hc = "[]" and sc = 0 and dur = 0
      and payload = "[1, 2]" and buffer = "replicate 20 7"]
  show ?thesis
    by (simp add: inserted_air_len_def plan_lengths qos_plan_def numeral_eq_Suc
        split: prod.splits result.splits)
qed

text \<open>
  The receive entry points agree.  On any MPDU, the iterator over its frames yields one frame
  exactly when the single-frame plan succeeds, and then the frame the plan describes; it yields an
  aggregate exactly when the A-MSDU entry point does; and the copying entry point writes what copying
  that frame out writes, or fails as that copy fails.
\<close>

theorem receive_paths_agree:
  "(\<forall>parts. decapsulate_data_frames role mpdu off len
        = Ok \<lparr>decap_frames = Single (Some parts), amsdu = False\<rparr>
      \<longleftrightarrow> (\<exists>plan. plan_data_decapsulation role mpdu off len = Ok plan
            \<and> parts = planned_parts plan mpdu))
   \<and> (\<forall>frames. decapsulate_data_frames role mpdu off len
        = Ok \<lparr>decap_frames = Aggregate frames, amsdu = True\<rparr>
      \<longleftrightarrow> amsdu_subframes role mpdu off len = Ok frames)
   \<and> (\<forall>plan buffer. plan_data_decapsulation role mpdu off len = Ok plan \<longrightarrow>
        decapsulate_data role mpdu off len buffer
          = (case copy_to (planned_parts plan mpdu) buffer of
               (Ok _, out) \<Rightarrow> (Ok plan, out) | (Err e, out) \<Rightarrow> (Err e, out)))"
proof (intro conjI allI impI)
  fix parts
  show "decapsulate_data_frames role mpdu off len
        = Ok \<lparr>decap_frames = Single (Some parts), amsdu = False\<rparr>
      \<longleftrightarrow> (\<exists>plan. plan_data_decapsulation role mpdu off len = Ok plan
            \<and> parts = planned_parts plan mpdu)"
    unfolding decapsulate_data_frames_single plan_data_decapsulation_Ok
    by (auto simp: planned_parts_of_plan)
next
  fix frames
  show "decapsulate_data_frames role mpdu off len
        = Ok \<lparr>decap_frames = Aggregate frames, amsdu = True\<rparr>
      \<longleftrightarrow> amsdu_subframes role mpdu off len = Ok frames"
    by (auto simp: decapsulate_data_frames_def decapsulate_payload_def amsdu_subframes_def
        split: result.splits)
next
  fix plan buffer
  assume ok: "plan_data_decapsulation role mpdu off len = Ok plan"
  then have "frame_length (planned_parts plan mpdu) = ethernet_length plan"
    unfolding plan_data_decapsulation_Ok by (auto simp: planned_parts_of_plan)
  then show "decapsulate_data role mpdu off len buffer
      = (case copy_to (planned_parts plan mpdu) buffer of
           (Ok _, out) \<Rightarrow> (Ok plan, out) | (Err e, out) \<Rightarrow> (Err e, out))"
    using ok by (simp add: decapsulate_data_def copy_to_def Let_def planned_parts_def)
qed

definition ordinary_mpdu :: "u8 list" where
  "ordinary_mpdu = [0x88, 0x01, 0, 0, 2, 0, 0, 0, 0, 9, 4, 0, 0, 0, 0, 4, 6, 0, 0, 0, 0, 6, 0, 0, 5, 0,
     0xaa, 0xaa, 0x03, 0, 0, 0, 0x08, 0x00, 1, 2, 3, 4, 5, 6, 7, 8, 9, 10, 11, 12, 13, 14]"

theorem receive_paths_agree_witness:
  "\<exists>plan. plan_data_decapsulation AccessPoint ordinary_mpdu 26 22 = Ok plan
     \<and> decapsulate_data AccessPoint ordinary_mpdu 26 22 (replicate 40 0)
       = (case copy_to (planned_parts plan ordinary_mpdu) (replicate 40 0) of
            (Ok _, out) \<Rightarrow> (Ok plan, out) | (Err e, out) \<Rightarrow> (Err e, out))"
proof -
  have "plan_data_decapsulation AccessPoint ordinary_mpdu 26 22
    = Ok \<lparr>decap_destination = [6, 0, 0, 0, 0, 6], decap_source = [4, 0, 0, 0, 0, 4],
        decap_ether_type = 0x0800, payload_offset = 34, payload_length = 14, ethernet_length = 28\<rparr>"
    by code_simp
  with receive_paths_agree [of AccessPoint ordinary_mpdu 26 22] show ?thesis by blast
qed

subsection \<open>The subframes of an A-MSDU\<close>

text \<open>
  The layout of one subframe and of a whole aggregate: every subframe but the last is padded to a
  multiple of four octets, the last may be.
\<close>

definition subframe_octets :: "AmsduSubframe \<Rightarrow> u8 list" where
  "subframe_octets f =
     sub_destination f @ sub_source f @ u16_to_be_bytes (of_nat (8 + length (sub_payload f)))
     @ RFC1042_LLC_SNAP_PREFIX @ u16_to_be_bytes (sub_ether_type f) @ sub_payload f"

definition subframe_ok :: "AmsduSubframe \<Rightarrow> bool" where
  "subframe_ok f \<longleftrightarrow> length (sub_destination f) = 6 \<and> length (sub_source f) = 6
     \<and> 8 + length (sub_payload f) < 65536"

definition padding :: "nat \<Rightarrow> nat" where
  "padding n = (n + 3) div 4 * 4 - n"

inductive amsdu_layout :: "u8 list \<Rightarrow> AmsduSubframe list \<Rightarrow> bool" where
  layout_empty: "amsdu_layout [] []"
| layout_last: "subframe_ok f \<Longrightarrow> amsdu_layout (subframe_octets f) [f]"
| layout_more: "subframe_ok f \<Longrightarrow> length pad = padding (length (subframe_octets f))
    \<Longrightarrow> amsdu_layout rest fs \<Longrightarrow> amsdu_layout (subframe_octets f @ pad @ rest) (f # fs)"

inductive_cases layout_ConsE: "amsdu_layout r (f # fs)"
inductive_simps layout_Nil_frames: "amsdu_layout r []"

lemma length_subframe_octets: "subframe_ok f \<Longrightarrow> length (subframe_octets f) = 22 + length (sub_payload f)"
  by (simp add: subframe_octets_def subframe_ok_def length_prefix)

lemma layout_Nil_octets: "amsdu_layout [] fs \<longleftrightarrow> fs = []"
  by (auto simp: subframe_octets_def RFC1042_LLC_SNAP_PREFIX_def
      elim: amsdu_layout.cases intro: layout_empty)

lemma padding_bounds: "(n + 3) div 4 * 4 = n + padding n" "padding n < 4"
  by (simp_all add: padding_def)

lemma unat_of_nat_u16: "n < 65536 \<Longrightarrow> unat (of_nat n :: u16) = n"
  by (simp add: unat_of_nat take_bit_nat_eq_self)

lemma cut_three: "xs = take a xs @ take p (drop a xs) @ drop (a + p) xs"
  by (metis append_take_drop_id drop_drop add.commute)

text \<open>One step of the iterator, as the layout of the octets it consumes.\<close>

lemma split_subframe:
  assumes "14 + m \<le> length rem" "8 \<le> m" "m = unat (u16_from_be_bytes (rem ! 12) (rem ! 13))"
    "take 6 (drop 14 rem) = RFC1042_LLC_SNAP_PREFIX"
  defines "f \<equiv> \<lparr>sub_destination = take 6 rem, sub_source = take 6 (drop 6 rem),
    sub_ether_type = u16_from_be_bytes (rem ! 20) (rem ! 21), sub_payload = take (m - 8) (drop 22 rem)\<rparr>"
  shows "subframe_ok f" "take (14 + m) rem = subframe_octets f"
proof -
  have m: "m < 65536" using assms(3) unat_u16_less by simp
  show "subframe_ok f" using assms(1,2) m by (simp add: subframe_ok_def f_def)
  have pair: "[rem ! k, rem ! Suc k] = take 2 (drop k rem)" if "Suc k < length rem" for k
    using that by (simp add: numeral_2_eq_2 take_Suc_conv_app_nth nth_drop)
  have len: "of_nat (8 + length (sub_payload f)) = u16_from_be_bytes (rem ! 12) (rem ! 13)"
    using assms(1-3) by (simp add: f_def)
  have "subframe_octets f = take 6 rem @ take 6 (drop 6 rem) @ take 2 (drop 12 rem)
      @ take 6 (drop 14 rem) @ take 2 (drop 20 rem) @ take (m - 8) (drop 22 rem)"
    unfolding subframe_octets_def len using assms(1,2,4) pair [of 12] pair [of 20]
    by (simp add: f_def)
  also have "\<dots> = take (6 + (6 + (2 + (6 + (2 + (m - 8)))))) rem"
    by (simp only: take_add drop_drop) simp
  finally show "take (14 + m) rem = subframe_octets f" using assms(2) by simp
qed

lemma amsdu_next_Ok:
  assumes "amsdu_next s = (Some (Ok f), s')"
  shows "subframe_ok f \<and> \<not> failed s \<and> \<not> failed s'
    \<and> (remaining s = subframe_octets f \<and> remaining s' = []
       \<or> (\<exists>pad. length pad = padding (length (subframe_octets f))
            \<and> remaining s = subframe_octets f @ pad @ remaining s'))"
proof -
  let ?rem = "remaining s"
  let ?m = "unat (u16_from_be_bytes (?rem ! 12) (?rem ! 13))"
  have c: "\<not> failed s" "14 + ?m \<le> length ?rem" "8 \<le> ?m"
    "take 6 (drop 14 ?rem) = RFC1042_LLC_SNAP_PREFIX"
    "f = \<lparr>sub_destination = take 6 ?rem, sub_source = take 6 (drop 6 ?rem),
      sub_ether_type = u16_from_be_bytes (?rem ! 20) (?rem ! 21),
      sub_payload = take (?m - 8) (drop 22 ?rem)\<rparr>"
    "s' = s\<lparr>remaining := if 14 + ?m = length ?rem then [] else drop ((14 + ?m + 3) div 4 * 4) ?rem\<rparr>"
    "14 + ?m = length ?rem \<or> (14 + ?m + 3) div 4 * 4 \<le> length ?rem"
    using assms
    by (auto simp: amsdu_next_def Let_def data_lengths length_prefix min_def split: if_splits)
  note f = split_subframe [OF c(2,3) refl c(4), folded c(5)]
  then have len: "length (subframe_octets f) = 14 + ?m" using c(2) by (metis length_take min_absorb2)
  show ?thesis
  proof (cases "14 + ?m = length ?rem")
    case True
    with f c(1,6) show ?thesis by simp
  next
    case False
    let ?p = "padding (14 + ?m)"
    have "?rem = take (14 + ?m) ?rem @ take ?p (drop (14 + ?m) ?rem) @ drop (14 + ?m + ?p) ?rem"
      by (rule cut_three)
    moreover have "length (take ?p (drop (14 + ?m) ?rem)) = ?p"
      using False c(7) padding_bounds [of "14 + ?m"] by simp
    ultimately show ?thesis
      using False f c(1,6) padding_bounds(1) [of "14 + ?m"] unfolding len by auto
  qed
qed

text \<open>The converse: an aggregate that starts with a subframe yields it.\<close>

lemma amsdu_next_octets:
  assumes f: "subframe_ok f"
    and tail: "tail = [] \<or> padding (length (subframe_octets f)) \<le> length tail"
  shows "amsdu_next \<lparr>remaining = subframe_octets f @ tail, failed = False\<rparr>
    = (Some (Ok f), \<lparr>remaining = drop (padding (length (subframe_octets f))) tail, failed = False\<rparr>)"
proof -
  define r where "r = subframe_octets f @ tail"
  have fld: "length (sub_destination f) = 6" "length (sub_source f) = 6"
    "8 + length (sub_payload f) < 65536" using f by (simp_all add: subframe_ok_def)
  have len: "length (subframe_octets f) = 22 + length (sub_payload f)"
    "length r = 22 + length (sub_payload f) + length tail"
    using f by (simp_all add: length_subframe_octets r_def)
  have r: "r = sub_destination f @ sub_source f @ u16_to_be_bytes (of_nat (8 + length (sub_payload f)))
      @ RFC1042_LLC_SNAP_PREFIX @ u16_to_be_bytes (sub_ether_type f) @ sub_payload f @ tail"
    by (simp add: subframe_octets_def r_def)
  have "r ! 12 = ucast (drop_bit 8 (of_nat (8 + length (sub_payload f)) :: u16))"
    "r ! 13 = ucast (of_nat (8 + length (sub_payload f)) :: u16)"
    unfolding r using fld by (simp_all add: nth_append u16_to_be_bytes_def)
  then have m: "unat (u16_from_be_bytes (r ! 12) (r ! 13)) = 8 + length (sub_payload f)"
    using unat_of_nat_u16 [OF fld(3)] by (simp del: of_nat_add)
  have llc: "take 8 (drop 14 r) = RFC1042_LLC_SNAP_PREFIX @ u16_to_be_bytes (sub_ether_type f)"
    and dst: "take 6 r = sub_destination f" "take 6 (drop 6 r) = sub_source f"
    and pay: "take (length (sub_payload f)) (drop 22 r) = sub_payload f"
    unfolding r using fld by (simp_all add: length_prefix)
  have rest: "drop (22 + length (sub_payload f) + n) r = drop n tail" for n
    using len by (simp add: r_def)
  have tag: "u16_from_be_bytes ((RFC1042_LLC_SNAP_PREFIX @ u16_to_be_bytes (sub_ether_type f)) ! 6)
      ((RFC1042_LLC_SNAP_PREFIX @ u16_to_be_bytes (sub_ether_type f)) ! 7) = sub_ether_type f"
    by (simp add: nth_append length_prefix u16_to_be_bytes_def)
  have pad: "(22 + length (sub_payload f) + 3) div 4 * 4
      = 22 + length (sub_payload f) + padding (length (subframe_octets f))"
    unfolding len by (rule padding_bounds(1))
  have "r \<noteq> []" using len by auto
  with tail pad show ?thesis unfolding r_def [symmetric]
    by (auto simp: amsdu_next_def Let_def data_lengths length_prefix m len llc dst pay tag rest)
qed

text \<open>
  Draining the iterator.  The loop ends because an item either shortens the remaining octets or sets
  the failure mark, after which the iterator is exhausted.
\<close>

lemma amsdu_next_Err: "amsdu_next s = (Some (Err e), s') \<Longrightarrow> \<not> failed s \<and> failed s'"
  by (auto simp: amsdu_next_def Let_def split: if_splits)

lemma amsdu_next_progress:
  assumes "amsdu_next s = (Some r, s')"
  shows "(if failed s' then 0 else Suc (length (remaining s')))
    < (if failed s then 0 else Suc (length (remaining s)))"
proof (cases r)
  case (Ok f)
  with assms amsdu_next_Ok [of s f s'] length_subframe_octets [of f] show ?thesis by auto
next
  case (Err e)
  with assms amsdu_next_Err [of s e s'] show ?thesis by simp
qed

function amsdu_items :: "AmsduSubframes \<Rightarrow> (AmsduSubframe, DataDecapError) result list" where
  "amsdu_items s =
     (case amsdu_next s of
        (None, s') \<Rightarrow> []
      | (Some r, s') \<Rightarrow> r # amsdu_items s')"
  by pat_completeness auto

termination
  by (relation "measure (\<lambda>s. if failed s then 0 else Suc (length (remaining s)))")
     (use amsdu_next_progress [OF sym] in auto)

declare amsdu_items.simps [simp del]

lemma amsdu_items_failed [simp]: "failed s \<Longrightarrow> amsdu_items s = []"
  by (simp add: amsdu_items.simps amsdu_next_def)

lemma amsdu_items_cases:
  obtains (none) "amsdu_next s = (None, s)" "amsdu_items s = []"
  | (ok) f s' where "amsdu_next s = (Some (Ok f), s')" "amsdu_items s = Ok f # amsdu_items s'"
  | (error) e s' where "amsdu_next s = (Some (Err e), s')" "amsdu_items s = [Err e]"
proof -
  obtain i s' where next_s: "amsdu_next s = (i, s')" by force
  have "s' = s" if "i = None"
    using next_s that by (auto simp: amsdu_next_def Let_def split: if_splits)
  then consider "i = None" "s' = s" | f where "i = Some (Ok f)" | e where "i = Some (Err e)"
    by (metis option.exhaust result.exhaust)
  then show thesis
    using next_s amsdu_next_Err [of s _ s'] that by cases (auto simp: amsdu_items.simps [of s])
qed

text \<open>Only the last item can be an error, and every subframe lies in the payload.\<close>

lemma amsdu_items_shape:
  "\<exists>fs es. amsdu_items s = map Ok fs @ map Err es \<and> length es \<le> 1
     \<and> 22 * length fs \<le> length (remaining s)
     \<and> (\<forall>f\<in>set fs. subframe_ok f \<and> sublist (subframe_octets f) (remaining s))"
proof (induction s rule: amsdu_items.induct)
  case (1 s)
  show ?case
  proof (cases rule: amsdu_items_cases [of s])
    case none
    then show ?thesis by (intro exI [of _ "[]"]) simp
  next
    case (error e s')
    then show ?thesis by (intro exI [of _ "[]"] exI [of _ "[e]"]) simp
  next
    case (ok f s')
    obtain fs es where ih: "amsdu_items s' = map Ok fs @ map Err es" "length es \<le> 1"
      "22 * length fs \<le> length (remaining s')"
      "\<forall>f\<in>set fs. subframe_ok f \<and> sublist (subframe_octets f) (remaining s')"
      using 1 [OF ok(1) [symmetric] refl] by auto
    obtain pad where f: "subframe_ok f" "remaining s = subframe_octets f @ pad @ remaining s'"
      using amsdu_next_Ok [OF ok(1)] by (metis append_Nil2)
    have "\<forall>g\<in>set (f # fs). subframe_ok g \<and> sublist (subframe_octets g) (remaining s)"
      unfolding f(2) using f(1) ih(4) by (auto intro: sublist_appendI sublist_append_leftI
          sublist_order.order_trans [OF _ sublist_append_leftI])
    moreover have "22 * length (f # fs) \<le> length (remaining s)"
      using ih(3) f length_subframe_octets [of f] by simp
    ultimately show ?thesis using ok(2) ih(1,2) by (intro exI [of _ "f # fs"] exI [of _ es]) simp
  qed
qed

text \<open>The iterator reads exactly the aggregates of the layout.\<close>

lemma layout_of_items:
  "amsdu_items s = map Ok fs \<Longrightarrow> \<not> failed s \<Longrightarrow> amsdu_layout (remaining s) fs"
proof (induction s arbitrary: fs rule: amsdu_items.induct)
  case (1 s)
  show ?case
  proof (cases rule: amsdu_items_cases [of s])
    case none
    then have "remaining s = []" "fs = []"
      using 1 by (auto simp: amsdu_next_def Let_def split: if_splits)
    then show ?thesis by (simp add: layout_empty)
  next
    case (error e s')
    with 1 show ?thesis by (cases fs) auto
  next
    case (ok f s')
    note f = amsdu_next_Ok [OF ok(1)]
    obtain gs where fs: "fs = f # gs" "amsdu_items s' = map Ok gs"
      using 1(2) ok(2) by (cases fs) auto
    have rest: "amsdu_layout (remaining s') gs"
      using 1(1) [OF ok(1) [symmetric] refl fs(2)] f by simp
    with f fs(1) show ?thesis by (auto simp: layout_Nil_octets intro: layout_last layout_more)
  qed
qed

lemma items_of_layout:
  "amsdu_layout r fs \<Longrightarrow> amsdu_items \<lparr>remaining = r, failed = False\<rparr> = map Ok fs"
proof (induction rule: amsdu_layout.induct)
  case layout_empty
  then show ?case by (simp add: amsdu_items.simps amsdu_next_def)
next
  case (layout_last f)
  have "amsdu_items \<lparr>remaining = [], failed = False\<rparr> = []"
    by (simp add: amsdu_items.simps amsdu_next_def)
  with amsdu_next_octets [OF layout_last, of "[]"] show ?case by (simp add: amsdu_items.simps)
next
  case (layout_more f pad rest fs)
  then show ?case
    using amsdu_next_octets [of f "pad @ rest"] by (subst amsdu_items.simps) simp
qed

text \<open>Calling the frame iterator up to \<open>n\<close> times.\<close>

fun drain :: "nat \<Rightarrow> DataDecapsulation \<Rightarrow> (EthernetFrameParts, DataDecapError) result list" where
  "drain 0 d = []"
| "drain (Suc n) d =
     (case decapsulation_next d of
        (None, d') \<Rightarrow> []
      | (Some r, d') \<Rightarrow> r # drain n d')"

lemma drain_single:
  "0 < n \<Longrightarrow> drain n \<lparr>decap_frames = Single (Some f), amsdu = b\<rparr> = [Ok f]"
  by (cases n; cases "n - 1") (simp_all add: decapsulation_next_def)

lemma drain_aggregate:
  "length (amsdu_items s) \<le> n \<Longrightarrow>
   drain n \<lparr>decap_frames = Aggregate s, amsdu = b\<rparr>
     = map (\<lambda>r. case r of Ok f \<Rightarrow> Ok (parts_of_subframe f) | Err e \<Rightarrow> Err e) (amsdu_items s)"
proof (induction n arbitrary: s)
  case (Suc n)
  show ?case
  proof (cases rule: amsdu_items_cases [of s])
    case (error e s')
    then have "amsdu_items s' = []" using amsdu_next_Err [of s e s'] by simp
    with error Suc.IH [of s'] show ?thesis by (simp add: decapsulation_next_def)
  qed (use Suc in \<open>simp_all add: decapsulation_next_def\<close>)
qed simp

lemma four_address_ds:
  assumes "is_four_address c"
  shows "control_ds c = 3"
proof -
  have "control_get c AND push_bit 8 3 = push_bit 8 3" using assms by (simp add: is_four_address_def)
  then show ?thesis unfolding control_ds_def drop_bit_mask by simp
qed

lemma amsdu_bit_set: "u16_from_le_bytes (a OR 0x80) b AND 0x80 \<noteq> 0"
proof -
  have "bit (u16_from_le_bytes (a OR 0x80) b AND 0x80) 7"
    by (simp add: u16_from_le_bytes_def bit_simps)
  then show ?thesis by auto
qed

lemma header_body_gap:
  assumes "decode mpdu = Some h"
  shows "length (dh_frame h) - length (dh_body h) = header_length (dh_control h)"
  using assms by (auto simp: decode_eq header_of_def Let_def split: if_splits option.splits)

subsection \<open>Properties of the aggregates\<close>

text \<open>
  C29. Draining a received frame ends and stays inside it.  The frame iterator of an accepted MPDU is
  exhausted after at most one call more than the number of 22-octet headers that fit its payload;
  its items are Ethernet frames followed by at most one error; every frame's payload is a
  contiguous part of the received octets and has six-octet addresses.
\<close>

theorem decapsulation_drains:
  assumes "decapsulate_data_frames role mpdu off len = Ok d" and "len div 22 + 1 \<le> n"
  shows "\<exists>fs es. drain n d = map Ok fs @ map Err es \<and> length es \<le> 1
    \<and> length fs + length es \<le> len div 22 + 1
    \<and> (\<forall>f\<in>set fs. sublist (eth_payload f) mpdu
          \<and> length (eth_destination f) = 6 \<and> length (eth_source f) = 6)"
proof -
  obtain h pay where h: "data_header role mpdu = Ok h" "data_payload h off len = Ok pay"
    "decapsulate_payload h pay = Ok d"
    using assms(1) by (auto simp: decapsulate_data_frames_def split: result.splits)
  have wf: "header_wf h" "dh_frame h = mpdu" using data_header_frame [OF h(1)] by auto
  have pay: "sublist pay mpdu" "length pay \<le> len"
    using h(2) wf sublist_take sublist_drop by (auto simp: data_payload_Ok intro: sublist_order.order_trans)
  show ?thesis
  proof (cases "amsdu_present h")
    case False
    then obtain parts where parts: "single_payload h pay = Ok parts"
      "d = \<lparr>decap_frames = Single (Some parts), amsdu = False\<rparr>"
      using h(3) by (auto simp: decapsulate_payload_def split: result.splits)
    have "eth_payload parts = drop 8 pay" by (rule single_payload_Ok(3) [OF parts(1)])
    then have "sublist (eth_payload parts) mpdu"
      using pay(1) sublist_drop [of 8 pay] by (metis sublist_order.order_trans)
    moreover have "length (eth_destination parts) = 6 \<and> length (eth_source parts) = 6"
      using parts(1) wf(1)
      by (auto simp: single_payload_def header_wf_def Let_def split: option.splits if_splits)
    ultimately show ?thesis
      using assms(2) drain_single [of n parts False] parts(2)
      by (intro exI [of _ "[parts]"] exI [of _ "[]"]) simp
  next
    case True
    then have d: "d = \<lparr>decap_frames = Aggregate \<lparr>remaining = pay, failed = False\<rparr>, amsdu = True\<rparr>"
      using h(3)
      by (auto simp: decapsulate_payload_def aggregate_payload_def
          split: result.splits option.splits if_splits)
    let ?s = "\<lparr>remaining = pay, failed = False\<rparr>"
    obtain fs es where s: "amsdu_items ?s = map Ok fs @ map Err es" "length es \<le> 1"
      "22 * length fs \<le> length pay"
      "\<forall>f\<in>set fs. subframe_ok f \<and> sublist (subframe_octets f) pay"
      using amsdu_items_shape [of ?s] by auto
    have count: "length fs + length es \<le> len div 22 + 1" using s(2,3) pay(2) by linarith
    have "sublist (sub_payload f) mpdu" if "f \<in> set fs" for f
    proof -
      have "sublist (sub_payload f) (subframe_octets f)"
        unfolding subframe_octets_def append_assoc [symmetric] by (rule sublist_append_leftI)
      with s(4) that pay(1) show ?thesis by (meson sublist_order.order_trans)
    qed
    moreover have "drain n d = map Ok (map parts_of_subframe fs) @ map Err es"
      unfolding d using drain_aggregate [of ?s n True] s(1) count assms(2) by simp
    ultimately show ?thesis
      using s(2,4) count
      by (intro exI [of _ "map parts_of_subframe fs"] exI [of _ es])
         (auto simp: parts_of_subframe_def subframe_ok_def)
  qed
qed

text \<open>
  The A-MSDU iterator reads exactly the aggregates of the format.  It yields the subframes \<open>fs\<close>
  and no error if and only if the payload is the concatenation of these subframes, each with its
  addresses, big-endian length, RFC 1042 header, EtherType and payload, and each padded to four
  octets, the padding of the last being optional.
\<close>

theorem amsdu_reads_layout:
  "amsdu_items \<lparr>remaining = payload, failed = False\<rparr> = map Ok fs \<longleftrightarrow> amsdu_layout payload fs"
  using layout_of_items [of "\<lparr>remaining = payload, failed = False\<rparr>" fs] items_of_layout by auto

definition aggregate_mpdu :: "u8 list" where
  "aggregate_mpdu = [0x88, 0x01, 0, 0, 2, 0, 0, 0, 0, 9, 4, 0, 0, 0, 0, 4, 6, 0, 0, 0, 0, 6, 0, 0,
     0x85, 0, 6, 0, 0, 0, 0, 6, 4, 0, 0, 0, 0, 4, 0, 9, 0xaa, 0xaa, 0x03, 0, 0, 0, 0x08, 0x00, 7, 0,
     6, 0, 0, 0, 0, 8, 4, 0, 0, 0, 0, 4, 0, 8, 0xaa, 0xaa, 0x03, 0, 0, 0, 0x08, 0x06]"

theorem decapsulation_drains_witness:
  "\<exists>d fs es. decapsulate_data_frames AccessPoint aggregate_mpdu 26 46 = Ok d
     \<and> drain 3 d = map Ok fs @ map Err es \<and> length es \<le> 1
     \<and> (\<forall>f\<in>set fs. sublist (eth_payload f) aggregate_mpdu)"
proof -
  have "decapsulate_data_frames AccessPoint aggregate_mpdu 26 46 = Ok \<lparr>decap_frames =
    Aggregate \<lparr>remaining = drop 26 aggregate_mpdu, failed = False\<rparr>, amsdu = True\<rparr>"
    by code_simp
  with decapsulation_drains [OF this, of 3] show ?thesis by fastforce
qed

text \<open>
  C28. Flipping the unauthenticated A-MSDU bit gains nothing.  When a QoS data MPDU is accepted as
  one ordinary frame, the same MPDU with the A-MSDU Present bit of its QoS Control set is refused:
  its LLC/SNAP header would be the first subframe's destination, which is rejected before any
  subframe is exposed.
\<close>

theorem amsdu_bit_flip_is_refused:
  assumes "decapsulate_data_frames role mpdu off len
      = Ok \<lparr>decap_frames = Single (Some parts), amsdu = False\<rparr>"
    and "decode mpdu = Some h" and "dh_qos h \<noteq> None"
  shows "decapsulate_data_frames role (mpdu[24 := mpdu ! 24 OR 0x80]) off len
    \<in> {Err InvalidAmsduDestination, Err Truncated}"
proof -
  let ?m = "mpdu[24 := mpdu ! 24 OR 0x80]"
  obtain pay where dh: "data_header role mpdu = Ok h" and
    pay: "data_payload h off len = Ok pay" "single_payload h pay = Ok parts"
    using assms(1,2) by (auto simp: decapsulate_data_frames_single data_header_def Let_def
        split: if_splits)
  obtain c where c: "control_of mpdu = Some c" "header_length c \<le> length mpdu" "h = header_of c mpdu"
    using assms(2) by (auto simp: decode_eq split: if_splits option.splits)
  have hc: "dh_control h = c" "dh_frame h = mpdu" by (simp_all add: c(3) header_of_def Let_def)
  have ds: "\<not> is_four_address c"
    using dh four_address_ds [of c] hc
    by (auto simp: data_header_def Let_def assms(2) split: if_splits)
  have qos: "is_qos_data c" using assms(3) by (auto simp: c(3) header_of_def Let_def split: if_splits)
  have len: "26 \<le> header_length c" using qos by (simp add: header_length_def)
  define h' where "h' = header_of c ?m"
  have h': "decode ?m = Some h'"
    using c(1,2) len by (simp add: decode_eq control_of_def h'_def)
  have same: "dh_control h' = c" "dh_frame h' = ?m"
    "dh_sequence_control h' = dh_sequence_control h"
    using len c(2) by (simp_all add: h'_def c(3) header_of_def Let_def le_field_def)
  have "data_header role ?m = Ok h'"
    using dh same hc assms(2) h' by (auto simp: data_header_def Let_def split: if_splits)
  moreover have "amsdu_present h'"
    using qos ds len c(2)
    by (simp add: amsdu_present_def h'_def header_of_def Let_def data_octets le_field_def
        amsdu_bit_set)
  moreover have "data_payload h' off len = Ok pay"
    using pay(1) same(2) len header_body_gap [OF assms(2)] header_body_gap [OF h']
    by (auto simp: data_payload_Ok hc same(1))
  moreover have "aggregate_payload pay \<in> {Err InvalidAmsduDestination, Err Truncated}"
    using single_payload_Ok(2) [OF pay(2)]
    by (auto simp: aggregate_payload_def split_first_chunk_def data_lengths min_def)
  ultimately show ?thesis
    by (auto simp: decapsulate_data_frames_def decapsulate_payload_def)
qed

theorem amsdu_bit_flip_is_refused_witness:
  "decapsulate_data_frames AccessPoint (ordinary_mpdu[24 := ordinary_mpdu ! 24 OR 0x80]) 26 22
     \<in> {Err InvalidAmsduDestination, Err Truncated}"
proof -
  obtain parts where one: "decapsulate_data_frames AccessPoint ordinary_mpdu 26 22
      = Ok \<lparr>decap_frames = Single (Some parts), amsdu = False\<rparr>"
  proof
    show "decapsulate_data_frames AccessPoint ordinary_mpdu 26 22
      = Ok \<lparr>decap_frames = Single (Some \<lparr>eth_destination = [6, 0, 0, 0, 0, 6],
          eth_source = [4, 0, 0, 0, 0, 4], ether_type = 0x0800,
          eth_payload = [1, 2, 3, 4, 5, 6, 7, 8, 9, 10, 11, 12, 13, 14]\<rparr>), amsdu = False\<rparr>"
      by code_simp
  qed
  have "map_option dh_qos (decode ordinary_mpdu) = Some (Some 5)" by code_simp
  then obtain h where "decode ordinary_mpdu = Some h" "dh_qos h \<noteq> None" by auto
  from amsdu_bit_flip_is_refused [OF one this] show ?thesis .
qed

end
