(* ===== verification/Block_Ack_Frame.thy ===== *)
theory Block_Ack_Frame
  imports Sequence_Number
begin

text \<open>
  The stateless Block Ack codecs of \<open>crates/protocols/ieee80211/mac/src/block_ack/frame.rs\<close>:
  parsing an Action body, encoding a BlockAckReq and writing ADDBA Responses.  A body is the list
  of its octets.
\<close>

definition BLOCK_ACK_CATEGORY :: u8 where "BLOCK_ACK_CATEGORY = 3"
definition ADDBA_REQUEST_ACTION :: u8 where "ADDBA_REQUEST_ACTION = 0"
definition ADDBA_RESPONSE_ACTION :: u8 where "ADDBA_RESPONSE_ACTION = 1"
definition DELBA_ACTION :: u8 where "DELBA_ACTION = 2"
definition ADDBA_ACTION_BODY_LEN :: nat where "ADDBA_ACTION_BODY_LEN = 9"
definition BLOCK_ACK_REQUEST_LEN :: nat where "BLOCK_ACK_REQUEST_LEN = 20"
definition ADDBA_STATUS_REQUEST_DECLINED :: u16 where "ADDBA_STATUS_REQUEST_DECLINED = 37"

record addba_request_fields =
  req_dialog_token :: u8
  req_tid :: u8
  req_immediate :: bool
  req_amsdu :: bool
  req_window :: u16
  req_timeout_tu :: u16
  req_starting_sequence :: SequenceNumber

record addba_response_fields =
  resp_dialog_token :: u8
  resp_status :: u16
  resp_tid :: u8
  resp_immediate :: bool
  resp_amsdu :: bool
  resp_window :: u16
  resp_timeout_tu :: u16

record delba_fields =
  delba_tid :: u8
  delba_initiator :: bool
  delba_reason :: u16

datatype BlockAckAction =
    AddbaRequest addba_request_fields
  | AddbaResponse addba_response_fields
  | Delba delba_fields

definition parse_block_ack_action :: "u8 list \<Rightarrow> BlockAckAction option" where
  "parse_block_ack_action body =
     (if length body < 2 \<or> body ! 0 \<noteq> BLOCK_ACK_CATEGORY then None
      else if body ! 1 = ADDBA_REQUEST_ACTION \<and> ADDBA_ACTION_BODY_LEN \<le> length body then
        (let parameters = u16_from_le_bytes (body ! 3) (body ! 4);
             starting_sequence =
               from_sequence_control (u16_from_le_bytes (body ! 7) (body ! 8))
         in Some (AddbaRequest \<lparr>
              req_dialog_token = body ! 2,
              req_tid = ucast (drop_bit 2 parameters AND 0x0f),
              req_immediate = (parameters AND 0x0002 \<noteq> 0),
              req_amsdu = (parameters AND 0x0001 \<noteq> 0),
              req_window = drop_bit 6 parameters AND 0x03ff,
              req_timeout_tu = u16_from_le_bytes (body ! 5) (body ! 6),
              req_starting_sequence = starting_sequence\<rparr>))
      else if body ! 1 = ADDBA_RESPONSE_ACTION \<and> ADDBA_ACTION_BODY_LEN \<le> length body then
        (let parameters = u16_from_le_bytes (body ! 5) (body ! 6)
         in Some (AddbaResponse \<lparr>
              resp_dialog_token = body ! 2,
              resp_status = u16_from_le_bytes (body ! 3) (body ! 4),
              resp_tid = ucast (drop_bit 2 parameters AND 0x0f),
              resp_immediate = (parameters AND 0x0002 \<noteq> 0),
              resp_amsdu = (parameters AND 0x0001 \<noteq> 0),
              resp_window = drop_bit 6 parameters AND 0x03ff,
              resp_timeout_tu = u16_from_le_bytes (body ! 7) (body ! 8)\<rparr>))
      else if body ! 1 = DELBA_ACTION \<and> 6 \<le> length body then
        (let parameters = u16_from_le_bytes (body ! 2) (body ! 3)
         in Some (Delba \<lparr>
              delba_tid = ucast (drop_bit 12 parameters AND 0x0f),
              delba_initiator = (parameters AND 0x0800 \<noteq> 0),
              delba_reason = u16_from_le_bytes (body ! 4) (body ! 5)\<rparr>))
      else None)"

definition encode_block_ack_request ::
    "u8 list \<Rightarrow> u8 list \<Rightarrow> u8 \<Rightarrow> SequenceNumber \<Rightarrow> u8 list" where
  "encode_block_ack_request receiver transmitter tid starting_sequence =
     (let frame = replicate BLOCK_ACK_REQUEST_LEN 0;
          frame = write_at 0 (u16_to_le_bytes 0x0084) frame;
          frame = write_at 4 receiver frame;
          frame = write_at 10 transmitter frame;
          control = push_bit 12 (ucast (tid AND 0x0f)) OR 0x0004;
          frame = write_at 16 (u16_to_le_bytes control) frame
      in write_at 18 (u16_to_le_bytes (sequence_control starting_sequence)) frame)"

datatype RxAddbaResponseError =
    InvalidBodyLength nat
  | InvalidTid u8
  | InvalidWindow u16

text \<open>The writers fill the caller's buffer; an error leaves it as it was.\<close>

definition write_successful_addba_response ::
    "u8 list \<Rightarrow> u8 \<Rightarrow> u8 \<Rightarrow> u16 \<Rightarrow> (u8 list, RxAddbaResponseError) result" where
  "write_successful_addba_response body dialog_token tid window =
     (if length body \<noteq> 9 then Err (InvalidBodyLength (length body))
      else if 15 < tid then Err (InvalidTid tid)
      else if window = 0 \<or> 0x03ff < window then Err (InvalidWindow window)
      else
        (let body = replicate (length body) 0;
             body = body[0 := BLOCK_ACK_CATEGORY];
             body = body[1 := ADDBA_RESPONSE_ACTION];
             body = body[2 := dialog_token];
             parameters = push_bit 1 1 OR push_bit 2 (ucast tid) OR push_bit 6 window
         in Ok (write_at 5 (u16_to_le_bytes parameters) body)))"

definition write_declined_addba_response ::
    "u8 list \<Rightarrow> u8 \<Rightarrow> u8 \<Rightarrow> u16 \<Rightarrow> (u8 list, RxAddbaResponseError) result" where
  "write_declined_addba_response body dialog_token tid requested_window =
     (if length body \<noteq> 9 then Err (InvalidBodyLength (length body))
      else if 15 < tid then Err (InvalidTid tid)
      else if 0x03ff < requested_window then Err (InvalidWindow requested_window)
      else
        (let body = replicate (length body) 0;
             body = body[0 := BLOCK_ACK_CATEGORY];
             body = body[1 := ADDBA_RESPONSE_ACTION];
             body = body[2 := dialog_token];
             body = write_at 3 (u16_to_le_bytes ADDBA_STATUS_REQUEST_DECLINED) body;
             parameters = push_bit 1 1 OR push_bit 2 (ucast tid) OR push_bit 6 requested_window
         in Ok (write_at 5 (u16_to_le_bytes parameters) body)))"

subsection \<open>The Block Ack Parameter Set\<close>

lemmas block_ack_consts =
  BLOCK_ACK_CATEGORY_def ADDBA_REQUEST_ACTION_def ADDBA_RESPONSE_ACTION_def DELBA_ACTION_def
  ADDBA_ACTION_BODY_LEN_def BLOCK_ACK_REQUEST_LEN_def ADDBA_STATUS_REQUEST_DECLINED_def

text \<open>Reading back the fields of a parameter word that the writers and the session compose.\<close>

definition ba_parameters :: "bool \<Rightarrow> u8 \<Rightarrow> u16 \<Rightarrow> u16" where
  "ba_parameters amsdu tid window =
     (if amsdu then 1 else 0) OR 2 OR push_bit 2 (ucast tid) OR push_bit 6 window"

lemma ba_parameters_fields:
  assumes tid: "tid \<le> 15" and window: "window \<le> 0x03ff"
  shows "ucast (drop_bit 2 (ba_parameters amsdu tid window) AND 0x0f) = tid"
    and "drop_bit 6 (ba_parameters amsdu tid window) AND 0x03ff = window"
    and "ba_parameters amsdu tid window AND 2 \<noteq> 0"
    and "ba_parameters amsdu tid window AND 1 \<noteq> 0 \<longleftrightarrow> amsdu"
proof -
  have m: "(15 :: u16) = mask 4" "(1023 :: u16) = mask 10" "(2 :: u16) = push_bit 1 1"
    by (simp_all add: mask_eq_exp_minus_1)
  have t: "bit tid k \<Longrightarrow> k < 4" for k
    using bit_less_exp [of tid 4 k] tid by (simp add: word_le_nat_alt)
  have w: "bit window k \<Longrightarrow> k < 10" for k
    using bit_less_exp [of window 10 k] window by (simp add: word_le_nat_alt)
  have bits: "bit (ba_parameters amsdu tid window) k \<longleftrightarrow>
      k < 16 \<and> (k = 0 \<and> amsdu \<or> k = 1 \<or> 2 \<le> k \<and> bit tid (k - 2) \<or> 6 \<le> k \<and> bit window (k - 6))"
    for k
    unfolding ba_parameters_def m(3) by (auto simp: bit_simps dest: t)
  show "ucast (drop_bit 2 (ba_parameters amsdu tid window) AND 0x0f) = tid"
    unfolding m by (rule bit_word_eqI) (auto simp: bit_simps bits dest: t)
  show "drop_bit 6 (ba_parameters amsdu tid window) AND 0x03ff = window"
    unfolding m by (rule bit_word_eqI) (auto simp: bit_simps bits dest: t w)
  show "ba_parameters amsdu tid window AND 2 \<noteq> 0"
    using test_bit_mask [of "ba_parameters amsdu tid window" 1] by (simp add: bits)
  show "ba_parameters amsdu tid window AND 1 \<noteq> 0 \<longleftrightarrow> amsdu"
    using test_bit_mask [of "ba_parameters amsdu tid window" 0] by (simp add: bits)
qed

subsection \<open>Written responses parse back\<close>

lemma addba_body_octets:
  "write_at 5 [p0, p1] ((replicate 9 0)[0 := a, 1 := b, 2 := c]) = [a, b, c, 0, 0, p0, p1, 0, 0]"
  "write_at 5 [p0, p1] (write_at 3 [s0, s1] ((replicate 9 0)[0 := a, 1 := b, 2 := c]))
     = [a, b, c, s0, s1, p0, p1, 0, 0]"
  by (simp_all add: write_at_def numeral_nat)

lemma written_ba_parameters:
  "push_bit 1 1 OR push_bit 2 (ucast tid) OR push_bit 6 window = ba_parameters False tid window"
  by (simp add: ba_parameters_def)

lemma declined_status_octets: "u16_to_le_bytes 37 = [37, 0]"
  by (simp add: u16_to_le_bytes_def)

lemma write_successful_body:
  "write_successful_addba_response body token tid window = Ok body' \<longleftrightarrow>
     length body = 9 \<and> tid \<le> 15 \<and> window \<noteq> 0 \<and> window \<le> 0x03ff
     \<and> body' = [3, 1, token, 0, 0, ucast (ba_parameters False tid window),
                 ucast (drop_bit 8 (ba_parameters False tid window)), 0, 0]"
  unfolding write_successful_addba_response_def Let_def written_ba_parameters block_ack_consts
    u16_to_le_bytes_def
  by (auto simp: addba_body_octets [simplified] not_less)

lemma write_declined_body:
  "write_declined_addba_response body token tid window = Ok body' \<longleftrightarrow>
     length body = 9 \<and> tid \<le> 15 \<and> window \<le> 0x03ff
     \<and> body' = [3, 1, token, 37, 0, ucast (ba_parameters False tid window),
                 ucast (drop_bit 8 (ba_parameters False tid window)), 0, 0]"
  unfolding write_declined_addba_response_def Let_def written_ba_parameters block_ack_consts
    declined_status_octets u16_to_le_bytes_def [of "ba_parameters False tid window"]
  by (auto simp: addba_body_octets [simplified] not_less)

lemma parse_addba_response_octets:
  assumes "tid \<le> 15" and "window \<le> 0x03ff"
  shows "parse_block_ack_action
           [3, 1, token, s0, s1, ucast (ba_parameters amsdu tid window),
            ucast (drop_bit 8 (ba_parameters amsdu tid window)), t0, t1] =
         Some (AddbaResponse \<lparr>resp_dialog_token = token, resp_status = u16_from_le_bytes s0 s1,
           resp_tid = tid, resp_immediate = True, resp_amsdu = amsdu, resp_window = window,
           resp_timeout_tu = u16_from_le_bytes t0 t1\<rparr>)"
  using ba_parameters_fields [OF assms, of amsdu]
  by (simp add: parse_block_ack_action_def block_ack_consts Let_def)

lemma parse_addba_request_octets:
  assumes "tid \<le> 15" and "window \<le> 0x03ff" and "sequence_ok ssn"
  shows "parse_block_ack_action
           [3, 0, token, ucast (ba_parameters amsdu tid window),
            ucast (drop_bit 8 (ba_parameters amsdu tid window)), ucast timeout,
            ucast (drop_bit 8 timeout), ucast (sequence_control ssn),
            ucast (drop_bit 8 (sequence_control ssn))] =
         Some (AddbaRequest \<lparr>req_dialog_token = token, req_tid = tid, req_immediate = True,
           req_amsdu = amsdu, req_window = window, req_timeout_tu = timeout,
           req_starting_sequence = ssn\<rparr>)"
  using ba_parameters_fields [OF assms(1,2), of amsdu] assms(3)
  by (simp add: parse_block_ack_action_def block_ack_consts Let_def sequence_control_roundtrip)

text \<open>
  An ADDBA Response that the recipient writes, accepting or declining, parses back to exactly
  the Dialog Token, status, TID and window it was written from, as an immediate agreement without
  A-MSDU.
\<close>

theorem addba_response_roundtrip:
  assumes "write_successful_addba_response body token tid window = Ok accepted"
    and "write_declined_addba_response body token tid window = Ok declined"
  shows "parse_block_ack_action accepted =
           Some (AddbaResponse \<lparr>resp_dialog_token = token, resp_status = 0, resp_tid = tid,
             resp_immediate = True, resp_amsdu = False, resp_window = window,
             resp_timeout_tu = 0\<rparr>) \<and>
         parse_block_ack_action declined =
           Some (AddbaResponse \<lparr>resp_dialog_token = token,
             resp_status = ADDBA_STATUS_REQUEST_DECLINED, resp_tid = tid,
             resp_immediate = True, resp_amsdu = False, resp_window = window,
             resp_timeout_tu = 0\<rparr>)"
  using assms
  by (auto simp: write_successful_body write_declined_body parse_addba_response_octets
      block_ack_consts u16_from_le_bytes_def)

theorem addba_response_roundtrip_witness:
  "parse_block_ack_action [3, 1, 7, 0, 0, 22, 16, 0, 0] =
     Some (AddbaResponse \<lparr>resp_dialog_token = 7, resp_status = 0, resp_tid = 5,
       resp_immediate = True, resp_amsdu = False, resp_window = 64, resp_timeout_tu = 0\<rparr>)"
proof -
  have a: "write_successful_addba_response (replicate 9 0) 7 5 64
      = Ok [3, 1, 7, 0, 0, 22, 16, 0, 0]"
    and d: "write_declined_addba_response (replicate 9 0) 7 5 64
      = Ok [3, 1, 7, 37, 0, 22, 16, 0, 0]"
    by (simp_all add: write_successful_body write_declined_body ba_parameters_def)
  show ?thesis using addba_response_roundtrip [OF a d] by blast
qed

lemma block_ack_request_octets:
  assumes "receiver = [r0, r1, r2, r3, r4, r5]" "transmitter = [t0, t1, t2, t3, t4, t5]"
  shows "write_at 18 [s0, s1] (write_at 16 [c0, c1] (write_at 10 transmitter (write_at 4 receiver
      (write_at 0 [f0, f1] (replicate 20 0)))))
    = [f0, f1, 0, 0] @ receiver @ transmitter @ [c0, c1, s0, s1]"
  using assms by (simp add: write_at_def numeral_nat)

lemma length_six: "length xs = 6 \<Longrightarrow> \<exists>a b c d e f. xs = [a, b, c, d, e, f]"
  by (simp add: length_Suc_conv numeral_nat) blast

text \<open>
  The BlockAckReq frame has the layout the peer reads: Frame Control 0x0084, zero duration, the
  two addresses, a BAR Control whose upper four bits are the TID's low four bits with the compressed
  bitmap bit set, and a Starting Sequence Control that names the starting sequence with fragment 0.
\<close>

theorem block_ack_request_layout:
  assumes "length receiver = 6" and "length transmitter = 6" and "sequence_ok start"
  shows "\<exists>c0 c1 s0 s1. encode_block_ack_request receiver transmitter tid start
           = [0x84, 0, 0, 0] @ receiver @ transmitter @ [c0, c1, s0, s1]
         \<and> drop_bit 12 (u16_from_le_bytes c0 c1) = ucast tid AND 0x0f
         \<and> u16_from_le_bytes c0 c1 AND 0x0fff = 0x0004
         \<and> from_sequence_control (u16_from_le_bytes s0 s1) = start
         \<and> u16_from_le_bytes s0 s1 AND 0x000f = 0"
proof -
  let ?c = "push_bit 12 (ucast (tid AND 0x0f)) OR 0x0004 :: u16"
  obtain r0 r1 r2 r3 r4 r5 where r: "receiver = [r0, r1, r2, r3, r4, r5]"
    using length_six [OF assms(1)] by blast
  obtain t0 t1 t2 t3 t4 t5 where t: "transmitter = [t0, t1, t2, t3, t4, t5]"
    using length_six [OF assms(2)] by blast
  have fc: "u16_to_le_bytes 0x0084 = [0x84, 0]" by (simp add: u16_to_le_bytes_def)
  have "encode_block_ack_request receiver transmitter tid start
      = [0x84, 0, 0, 0] @ receiver @ transmitter
        @ [ucast ?c, ucast (drop_bit 8 ?c), ucast (sequence_control start),
           ucast (drop_bit 8 (sequence_control start))]"
    unfolding encode_block_ack_request_def Let_def block_ack_consts fc
      u16_to_le_bytes_def [of ?c] u16_to_le_bytes_def [of "sequence_control start"]
      block_ack_request_octets [OF r t] by simp
  moreover have m: "(15 :: u8) = mask 4" "(15 :: u16) = mask 4" "(4095 :: u16) = mask 12"
    by (simp_all add: mask_eq_exp_minus_1)
  have four: "bit (4 :: int) n \<longleftrightarrow> n = 2" for n
    using bit_exp_iff [of 2 n, where 'a = int] by simp
  have "drop_bit 12 ?c = ucast tid AND 0x0f" "?c AND 0x0fff = 0x0004"
    unfolding m by (rule bit_word_eqI, auto simp: bit_simps four)+
  moreover have "sequence_control start AND 0x000f = 0"
    using sequence_control_with_fragment_fields(2) [OF assms(3), of 0]
    by (simp add: sequence_control_def sequence_control_with_fragment_def)
  ultimately show ?thesis
    using sequence_control_roundtrip [OF assms(3)] by (metis u16_le_roundtrip)
qed

theorem block_ack_request_layout_witness:
  "\<exists>c0 c1 s0 s1. encode_block_ack_request [1, 2, 3, 4, 5, 6] [7, 8, 9, 10, 11, 12] 5 (SequenceNumber 100)
     = [0x84, 0, 0, 0] @ [1, 2, 3, 4, 5, 6] @ [7, 8, 9, 10, 11, 12] @ [c0, c1, s0, s1]
   \<and> from_sequence_control (u16_from_le_bytes s0 s1) = SequenceNumber 100"
  using block_ack_request_layout [of "[1, 2, 3, 4, 5, 6]" "[7, 8, 9, 10, 11, 12]" "SequenceNumber 100" 5]
  by (auto simp: sequence_ok_iff)

end
