(* ===== verification/Block_Ack_Session.thy ===== *)
theory Block_Ack_Session
  imports Oer_Time Block_Ack_Frame
begin

text \<open>
  One TX Block Ack agreement, \<open>crates/protocols/ieee80211/mac/src/block_ack/session.rs\<close>: the
  configuration, the negotiation (ADDBA Request, Response, timeout) and the operational phase.
  A method of \<open>&mut self\<close> returns its result with the session it leaves.
\<close>

definition BLOCK_ACK_WINDOW_FIELD_MAX :: u16 where "BLOCK_ACK_WINDOW_FIELD_MAX = 0x03ff"
definition BA_PARAMETER_AMSDU :: u16 where "BA_PARAMETER_AMSDU = 1"
definition BA_PARAMETER_IMMEDIATE :: u16 where "BA_PARAMETER_IMMEDIATE = push_bit 1 1"
definition BA_PARAMETER_TID_SHIFT :: nat where "BA_PARAMETER_TID_SHIFT = 2"
definition BA_PARAMETER_WINDOW_SHIFT :: nat where "BA_PARAMETER_WINDOW_SHIFT = 6"

datatype TxBlockAckError =
    TxInvalidTid u8
  | TxInvalidWindow u16
  | ZeroTimeout
  | DeadlineOverflow
  | MalformedResponse
  | UnexpectedResponse
  | DelayedPolicyUnsupported
  | WindowExceedsCapacity u16

record TxBlockAckConfig =
  cfg_tid :: u8
  cfg_window :: u16
  cfg_timeout_tu :: u16
  negotiation_timeout :: Duration
  cfg_amsdu :: bool

definition TxBlockAckConfig_validate ::
    "TxBlockAckConfig \<Rightarrow> (TxBlockAckConfig, TxBlockAckError) result" where
  "TxBlockAckConfig_validate self =
     (if 15 < cfg_tid self then Err (TxInvalidTid (cfg_tid self))
      else if cfg_window self = 0 \<or> BLOCK_ACK_WINDOW_FIELD_MAX < cfg_window self
        then Err (TxInvalidWindow (cfg_window self))
      else if duration_micros (negotiation_timeout self) = 0 then Err ZeroTimeout
      else Ok self)"

record TxBlockAckAlarm =
  alarm_generation :: u32
  deadline :: Instant

datatype TxBlockAckDialogToken = TxBlockAckDialogToken (token_value: u8)

record AddbaRequest =
  request_generation :: u32
  request_dialog_token :: u8
  request_starting_sequence :: SequenceNumber
  request_body :: "u8 list"
  request_alarm :: TxBlockAckAlarm

record OperationalTxBlockAck =
  op_tid :: u8
  op_window :: u16
  op_timeout_tu :: u16
  op_starting_sequence :: SequenceNumber
  op_amsdu :: bool

datatype TxBlockAckResponse =
    OperationalResponse OperationalTxBlockAck
  | Rejected u16

datatype TxBlockAckPhase =
    Idle
  | Awaiting (awaiting_token: u8) (awaiting_sequence: SequenceNumber)
  | Operational OperationalTxBlockAck

record TxBlockAckSession =
  config :: TxBlockAckConfig
  generation :: u32
  next_dialog_token :: u8
  phase :: TxBlockAckPhase

definition TxBlockAckSession_new ::
    "TxBlockAckConfig \<Rightarrow> (TxBlockAckSession, TxBlockAckError) result" where
  "TxBlockAckSession_new cfg =
     (case TxBlockAckConfig_validate cfg of
        Err error \<Rightarrow> Err error
      | Ok cfg \<Rightarrow> Ok \<lparr>config = cfg, generation = 0, next_dialog_token = 1, phase = Idle\<rparr>)"

text \<open>\<open>block_ack::next_nonzero_dialog_token\<close> of \<open>originator.rs\<close>.\<close>

definition next_nonzero_dialog_token :: "u8 \<Rightarrow> u8" where
  "next_nonzero_dialog_token current = (let next = current + 1 in if next = 0 then 1 else next)"

definition encode_ba_parameters :: "u8 \<Rightarrow> u16 \<Rightarrow> bool \<Rightarrow> u16" where
  "encode_ba_parameters tid window amsdu =
     (of_bool amsdu * BA_PARAMETER_AMSDU) OR BA_PARAMETER_IMMEDIATE
     OR push_bit BA_PARAMETER_TID_SHIFT (ucast tid) OR push_bit BA_PARAMETER_WINDOW_SHIFT window"

definition next_generation :: "u32 \<Rightarrow> u32" where
  "next_generation current = (let next = current + 1 in if next = 0 then 1 else next)"

definition begin_with_dialog_token ::
    "TxBlockAckSession \<Rightarrow> SequenceNumber \<Rightarrow> Instant \<Rightarrow> TxBlockAckDialogToken \<Rightarrow>
     (AddbaRequest, TxBlockAckError) result \<times> TxBlockAckSession" where
  "begin_with_dialog_token self starting_sequence now dialog_token =
     (case Instant_checked_add now (negotiation_timeout (config self)) of
        None \<Rightarrow> (Err DeadlineOverflow, self)
      | Some deadline' \<Rightarrow>
          (let self = self\<lparr>generation := next_generation (generation self)\<rparr>;
               token = token_value dialog_token;
               self = self\<lparr>phase := Awaiting token starting_sequence\<rparr>;
               parameters = encode_ba_parameters (cfg_tid (config self)) (cfg_window (config self))
                              (cfg_amsdu (config self));
               control = sequence_control starting_sequence;
               body = replicate ADDBA_ACTION_BODY_LEN 0;
               body = body[0 := BLOCK_ACK_CATEGORY];
               body = body[1 := ADDBA_REQUEST_ACTION];
               body = body[2 := token];
               body = write_at 3 (u16_to_le_bytes parameters) body;
               body = write_at 5 (u16_to_le_bytes (cfg_timeout_tu (config self))) body;
               body = write_at 7 (u16_to_le_bytes control) body;
               alarm = \<lparr>alarm_generation = generation self, deadline = deadline'\<rparr>
           in (Ok \<lparr>request_generation = generation self, request_dialog_token = token,
                   request_starting_sequence = starting_sequence, request_body = body,
                   request_alarm = alarm\<rparr>, self)))"

definition TxBlockAckSession_begin ::
    "TxBlockAckSession \<Rightarrow> SequenceNumber \<Rightarrow> Instant \<Rightarrow>
     (AddbaRequest, TxBlockAckError) result \<times> TxBlockAckSession" where
  "TxBlockAckSession_begin self starting_sequence now =
     (let dialog_token = TxBlockAckDialogToken (next_dialog_token self);
          self = self\<lparr>next_dialog_token := next_nonzero_dialog_token (token_value dialog_token)\<rparr>
      in begin_with_dialog_token self starting_sequence now dialog_token)"

definition TxBlockAckSession_on_response_action ::
    "TxBlockAckSession \<Rightarrow> BlockAckAction \<Rightarrow>
     (TxBlockAckResponse, TxBlockAckError) result \<times> TxBlockAckSession" where
  "TxBlockAckSession_on_response_action self action =
     (case action of
        AddbaResponse r \<Rightarrow>
          (case phase self of
             Awaiting dialog_token starting_sequence \<Rightarrow>
               if resp_dialog_token r \<noteq> dialog_token then (Err UnexpectedResponse, self)
               else if resp_status r \<noteq> 0 then
                 (Ok (Rejected (resp_status r)),
                  self\<lparr>phase := Idle, generation := next_generation (generation self)\<rparr>)
               else if \<not> resp_immediate r then (Err DelayedPolicyUnsupported, self)
               else if resp_tid r \<noteq> cfg_tid (config self) then (Err UnexpectedResponse, self)
               else if resp_window r = 0 \<or> cfg_window (config self) < resp_window r
                 then (Err (WindowExceedsCapacity (resp_window r)), self)
               else
                 (let agreement = \<lparr>op_tid = resp_tid r, op_window = resp_window r,
                        op_timeout_tu = resp_timeout_tu r,
                        op_starting_sequence = starting_sequence,
                        op_amsdu = (cfg_amsdu (config self) \<and> resp_amsdu r)\<rparr>
                  in (Ok (OperationalResponse agreement),
                      self\<lparr>phase := Operational agreement,
                           generation := next_generation (generation self)\<rparr>))
           | _ \<Rightarrow> (Err UnexpectedResponse, self))
      | _ \<Rightarrow> (Err MalformedResponse, self))"

definition TxBlockAckSession_on_response ::
    "TxBlockAckSession \<Rightarrow> u8 list \<Rightarrow>
     (TxBlockAckResponse, TxBlockAckError) result \<times> TxBlockAckSession" where
  "TxBlockAckSession_on_response self body =
     (case parse_block_ack_action body of
        None \<Rightarrow> (Err MalformedResponse, self)
      | Some action \<Rightarrow> TxBlockAckSession_on_response_action self action)"

definition is_awaiting :: "TxBlockAckSession \<Rightarrow> bool" where
  "is_awaiting self = (case phase self of Awaiting _ _ \<Rightarrow> True | _ \<Rightarrow> False)"

definition TxBlockAckSession_on_alarm ::
    "TxBlockAckSession \<Rightarrow> TxBlockAckAlarm \<Rightarrow> bool \<times> TxBlockAckSession" where
  "TxBlockAckSession_on_alarm self alarm =
     (if alarm_generation alarm \<noteq> generation self \<or> \<not> is_awaiting self then (False, self)
      else (True, self\<lparr>phase := Idle, generation := next_generation (generation self)\<rparr>))"

definition TxBlockAckSession_stop :: "TxBlockAckSession \<Rightarrow> TxBlockAckSession" where
  "TxBlockAckSession_stop self =
     self\<lparr>phase := Idle, generation := next_generation (generation self)\<rparr>"

definition TxBlockAckSession_operational ::
    "TxBlockAckSession \<Rightarrow> OperationalTxBlockAck option" where
  "TxBlockAckSession_operational self =
     (case phase self of Operational agreement \<Rightarrow> Some agreement | _ \<Rightarrow> None)"

definition awaiting_dialog_token :: "TxBlockAckSession \<Rightarrow> u8 option" where
  "awaiting_dialog_token self =
     (case phase self of Awaiting dialog_token _ \<Rightarrow> Some dialog_token | _ \<Rightarrow> None)"

subsection \<open>The invariant\<close>

definition config_ok :: "TxBlockAckConfig \<Rightarrow> bool" where
  "config_ok c \<longleftrightarrow> cfg_tid c \<le> 15 \<and> cfg_window c \<noteq> 0 \<and> cfg_window c \<le> 0x03ff
     \<and> duration_micros (negotiation_timeout c) \<noteq> 0"

text \<open>An operational agreement never exceeds what the configuration requested.\<close>

fun phase_ok :: "TxBlockAckConfig \<Rightarrow> TxBlockAckPhase \<Rightarrow> bool" where
  "phase_ok c Idle = True"
| "phase_ok c (Awaiting token sequence) = sequence_ok sequence"
| "phase_ok c (Operational a) \<longleftrightarrow>
     op_tid a = cfg_tid c \<and> op_window a \<noteq> 0 \<and> op_window a \<le> cfg_window c
     \<and> (op_amsdu a \<longrightarrow> cfg_amsdu c) \<and> sequence_ok (op_starting_sequence a)"

definition session_ok :: "TxBlockAckSession \<Rightarrow> bool" where
  "session_ok s \<longleftrightarrow> config_ok (config s) \<and> phase_ok (config s) (phase s)"

lemma validate_eq_Ok_iff: "TxBlockAckConfig_validate c = Ok c' \<longleftrightarrow> config_ok c \<and> c' = c"
  by (auto simp: TxBlockAckConfig_validate_def config_ok_def BLOCK_ACK_WINDOW_FIELD_MAX_def not_less)

lemma session_new_ok: "TxBlockAckSession_new cfg = Ok s \<Longrightarrow> session_ok s"
  by (auto simp: TxBlockAckSession_new_def session_ok_def validate_eq_Ok_iff split: result.splits)

lemmas session_ops =
  begin_with_dialog_token_def TxBlockAckSession_begin_def TxBlockAckSession_on_response_action_def
  TxBlockAckSession_on_response_def TxBlockAckSession_on_alarm_def TxBlockAckSession_stop_def

text \<open>The operations of the session as one step function, with their results dropped.\<close>

datatype session_op =
    SBegin SequenceNumber Instant
  | SBeginWith SequenceNumber Instant TxBlockAckDialogToken
  | SResponse "u8 list"
  | SAction BlockAckAction
  | SAlarm TxBlockAckAlarm
  | SStop

fun session_step :: "TxBlockAckSession \<Rightarrow> session_op \<Rightarrow> TxBlockAckSession" where
  "session_step s (SBegin ssn now) =
     (if sequence_ok ssn then snd (TxBlockAckSession_begin s ssn now) else s)"
| "session_step s (SBeginWith ssn now token) =
     (if sequence_ok ssn then snd (begin_with_dialog_token s ssn now token) else s)"
| "session_step s (SResponse body) = snd (TxBlockAckSession_on_response s body)"
| "session_step s (SAction action) = snd (TxBlockAckSession_on_response_action s action)"
| "session_step s (SAlarm alarm) = snd (TxBlockAckSession_on_alarm s alarm)"
| "session_step s SStop = TxBlockAckSession_stop s"

lemma session_begin_ok:
  "session_ok s \<Longrightarrow> sequence_ok ssn
    \<Longrightarrow> session_ok (snd (begin_with_dialog_token s ssn now token))"
  "session_ok s \<Longrightarrow> sequence_ok ssn \<Longrightarrow> session_ok (snd (TxBlockAckSession_begin s ssn now))"
  by (auto simp: session_ops session_ok_def Let_def split: option.splits)

lemma session_response_ok:
  "session_ok s \<Longrightarrow> session_ok (snd (TxBlockAckSession_on_response_action s action))"
  by (auto simp: session_ops session_ok_def Let_def not_less
      split: BlockAckAction.splits TxBlockAckPhase.splits)

lemma session_stop_ok:
  "session_ok s \<Longrightarrow> session_ok (TxBlockAckSession_stop s)"
  "session_ok s \<Longrightarrow> session_ok (snd (TxBlockAckSession_on_alarm s alarm))"
  by (auto simp: session_ops session_ok_def)

interpretation session: invariant_machine session_ok session_step
proof
  fix s op
  assume "session_ok s"
  then show "session_ok (session_step s op)"
    by (cases op) (auto simp: session_begin_ok session_response_ok session_stop_ok
        TxBlockAckSession_on_response_def split: option.splits)
qed

subsection \<open>Generations\<close>

text \<open>
  The generation runs through \<open>1 \<dots> 2\<^sup>3\<^sup>2 - 1\<close> cyclically and never returns to zero.
\<close>

lemma next_generation_nonzero: "next_generation g \<noteq> 0"
  by (simp add: next_generation_def Let_def)

lemma unat_next_generation:
  "unat (next_generation g) = (if unat g = 4294967295 then 1 else Suc (unat g))"
proof -
  have "g + 1 = 0 \<longleftrightarrow> unat g = 4294967295"
    using unat_u32_less [of g] by (simp add: word_unat_eq_iff unat_word_ariths mod_Suc)
  then show ?thesis
    using unat_u32_less [of g]
    by (auto simp: next_generation_def Let_def unat_word_ariths)
qed

lemma unat_next_generation_iter:
  assumes "g \<noteq> 0"
  shows "unat ((next_generation ^^ n) g) = (unat g - 1 + n) mod 4294967295 + 1"
proof (induction n)
  case 0
  from assms have "unat g \<noteq> 0" by (simp add: unat_eq_zero)
  then show ?case using unat_u32_less [of g] by simp
next
  case (Suc n)
  then show ?case by (simp add: unat_next_generation mod_Suc)
qed

lemma next_generation_cycle:
  assumes "0 < n" and "n < 4294967295"
  shows "(next_generation ^^ n) g \<noteq> g"
proof (cases "g = 0")
  case True
  with assms(1) show ?thesis
    by (cases n) (simp_all add: next_generation_nonzero)
next
  case False
  define a where "a = unat g - 1"
  from False have "unat g \<noteq> 0" by (simp add: unat_eq_zero)
  then have a: "a < 4294967295" "unat g = a + 1"
    using unat_u32_less [of g] by (simp_all add: a_def)
  have "(a + n) mod 4294967295 \<noteq> a"
  proof (cases "a + n < 4294967295")
    case True
    with assms show ?thesis by simp
  next
    case False
    with a assms have "(a + n) mod 4294967295 = a + n - 4294967295"
      by (simp add: le_mod_geq)
    with a assms False show ?thesis by simp
  qed
  then show ?thesis
    using unat_next_generation_iter [OF False, of n] a by (auto simp: word_unat_eq_iff)
qed

text \<open>A step that keeps the generation keeps the phase.\<close>

lemma session_step_generation:
  "generation (session_step s op) = generation s \<and> phase (session_step s op) = phase s
   \<or> generation (session_step s op) = next_generation (generation s)"
  by (cases op) (auto simp: session_ops Let_def
      split: option.splits BlockAckAction.splits TxBlockAckPhase.splits)

lemma session_run_generation:
  "\<exists>k \<le> length ops.
     generation (foldl session_step s ops) = (next_generation ^^ k) (generation s)
     \<and> (k = 0 \<longrightarrow> phase (foldl session_step s ops) = phase s)"
proof (induction ops rule: rev_induct)
  case (snoc op ops)
  then obtain k where k: "k \<le> length ops"
    "generation (foldl session_step s ops) = (next_generation ^^ k) (generation s)"
    "k = 0 \<longrightarrow> phase (foldl session_step s ops) = phase s" by blast
  from session_step_generation [of "foldl session_step s ops" op] show ?case
  proof
    assume "generation (session_step (foldl session_step s ops) op)
        = generation (foldl session_step s ops)
      \<and> phase (session_step (foldl session_step s ops) op) = phase (foldl session_step s ops)"
    with k show ?thesis by (intro exI [of _ k]) simp
  next
    assume "generation (session_step (foldl session_step s ops) op)
        = next_generation (generation (foldl session_step s ops))"
    with k show ?thesis by (intro exI [of _ "Suc k"]) simp
  qed
qed simp

lemma unchanged_generation_unchanged_phase:
  assumes "length ops < 4294967295"
    and "generation (foldl session_step s ops) = generation s"
  shows "phase (foldl session_step s ops) = phase s"
  using session_run_generation [of ops s] next_generation_cycle [of _ "generation s"] assms
  by (metis bot_nat_0.not_eq_extremum order_le_less_trans)

subsection \<open>Properties\<close>

lemma encode_ba_parameters_eq: "encode_ba_parameters tid window amsdu = ba_parameters amsdu tid window"
  by (simp add: encode_ba_parameters_def ba_parameters_def BA_PARAMETER_AMSDU_def
      BA_PARAMETER_IMMEDIATE_def BA_PARAMETER_TID_SHIFT_def BA_PARAMETER_WINDOW_SHIFT_def)

lemma addba_request_octets:
  "write_at 7 [c0, c1] (write_at 5 [t0, t1] (write_at 3 [p0, p1]
     ((replicate 9 0)[0 := a, 1 := b, 2 := c]))) = [a, b, c, p0, p1, t0, t1, c0, c1]"
  by (simp add: write_at_def numeral_nat)

lemma begin_body:
  assumes "begin_with_dialog_token s ssn now token = (Ok request, s')"
  shows "request_body request =
    [3, 0, token_value token,
     ucast (ba_parameters (cfg_amsdu (config s)) (cfg_tid (config s)) (cfg_window (config s))),
     ucast (drop_bit 8
       (ba_parameters (cfg_amsdu (config s)) (cfg_tid (config s)) (cfg_window (config s)))),
     ucast (cfg_timeout_tu (config s)), ucast (drop_bit 8 (cfg_timeout_tu (config s))),
     ucast (sequence_control ssn), ucast (drop_bit 8 (sequence_control ssn))]"
  using assms unfolding begin_with_dialog_token_def encode_ba_parameters_eq block_ack_consts
    u16_to_le_bytes_def
  by (auto simp: addba_request_octets [simplified] Let_def split: option.splits)

lemma begin_result:
  assumes "begin_with_dialog_token s ssn now token = (Ok request, s')"
  shows "phase s' = Awaiting (token_value token) ssn"
    and "config s' = config s"
    and "generation s' = next_generation (generation s)"
    and "alarm_generation (request_alarm request) = generation s'"
    and "request_dialog_token request = token_value token"
    and "Instant_checked_add now (negotiation_timeout (config s))
           = Some (deadline (request_alarm request))"
  using assms unfolding begin_with_dialog_token_def
  by (auto simp: Let_def split: option.splits)

text \<open>
  C30. The two ends of a negotiation agree.  When a session begins a negotiation, the recipient
  reads from its ADDBA Request exactly the configured TID, window, A-MSDU bit and timeout and the
  starting sequence; and when the recipient answers with an accepting response of any window up to
  the requested one, the session becomes operational with that window, its own starting sequence
  and no A-MSDU.
\<close>

theorem negotiation_agreement:
  assumes ok: "session_ok s" and ssn: "sequence_ok ssn"
    and start: "begin_with_dialog_token s ssn now token = (Ok request, s')"
    and window: "window \<noteq> 0" "window \<le> cfg_window (config s)"
    and written: "write_successful_addba_response buffer (request_dialog_token request)
                    (cfg_tid (config s)) window = Ok body"
    and agreement: "agreement = \<lparr>op_tid = cfg_tid (config s), op_window = window,
                      op_timeout_tu = 0, op_starting_sequence = ssn, op_amsdu = False\<rparr>"
  shows "parse_block_ack_action (request_body request) =
           Some (AddbaRequest \<lparr>req_dialog_token = token_value token, req_tid = cfg_tid (config s),
             req_immediate = True, req_amsdu = cfg_amsdu (config s),
             req_window = cfg_window (config s), req_timeout_tu = cfg_timeout_tu (config s),
             req_starting_sequence = ssn\<rparr>)
         \<and> fst (TxBlockAckSession_on_response s' body) = Ok (OperationalResponse agreement)
         \<and> TxBlockAckSession_operational (snd (TxBlockAckSession_on_response s' body))
             = Some agreement"
    (is "?request \<and> ?answer")
proof
  have cfg: "cfg_tid (config s) \<le> 15" "cfg_window (config s) \<le> 0x03ff"
    using ok by (simp_all add: session_ok_def config_ok_def)
  show ?request
    unfolding begin_body [OF start] by (rule parse_addba_request_octets [OF cfg ssn])
  have parsed: "parse_block_ack_action body =
      Some (AddbaResponse \<lparr>resp_dialog_token = token_value token, resp_status = 0,
        resp_tid = cfg_tid (config s), resp_immediate = True, resp_amsdu = False,
        resp_window = window, resp_timeout_tu = 0\<rparr>)"
    using written [unfolded write_successful_body] begin_result(5) [OF start]
    by (auto simp: parse_addba_response_octets u16_from_le_bytes_def)
  show ?answer
    using window unfolding agreement
    by (simp add: TxBlockAckSession_on_response_def parsed
        TxBlockAckSession_on_response_action_def begin_result(1,2) [OF start] Let_def not_less
        TxBlockAckSession_operational_def)
qed

definition example_config :: TxBlockAckConfig where
  "example_config = \<lparr>cfg_tid = 5, cfg_window = 64, cfg_timeout_tu = 0,
     negotiation_timeout = Duration 1000, cfg_amsdu = False\<rparr>"

definition example_session :: TxBlockAckSession where
  "example_session =
     \<lparr>config = example_config, generation = 0, next_dialog_token = 1, phase = Idle\<rparr>"

lemma example_session_ok: "session_ok example_session"
  by (simp add: session_ok_def config_ok_def example_session_def example_config_def)

lemma example_begin:
  "\<exists>request s'. begin_with_dialog_token example_session (SequenceNumber 100) (Instant 0)
     (TxBlockAckDialogToken 7) = (Ok request, s') \<and> request_dialog_token request = 7"
  by (simp add: begin_with_dialog_token_def example_session_def example_config_def
      Instant_checked_add_def checked_add_def Let_def)

theorem negotiation_agreement_witness:
  "\<exists>request s' agreement.
     begin_with_dialog_token example_session (SequenceNumber 100) (Instant 0)
       (TxBlockAckDialogToken 7) = (Ok request, s')
     \<and> TxBlockAckSession_operational
         (snd (TxBlockAckSession_on_response s' [3, 1, 7, 0, 0, 22, 8, 0, 0])) = Some agreement
     \<and> op_window agreement = 32"
proof -
  obtain request s' where start:
    "begin_with_dialog_token example_session (SequenceNumber 100) (Instant 0)
       (TxBlockAckDialogToken 7) = (Ok request, s')"
    "request_dialog_token request = 7"
    using example_begin by blast
  have written: "write_successful_addba_response (replicate 9 0) (request_dialog_token request)
      (cfg_tid (config example_session)) 32 = Ok [3, 1, 7, 0, 0, 22, 8, 0, 0]"
    by (simp add: write_successful_body ba_parameters_def start example_session_def
        example_config_def)
  have "sequence_ok (SequenceNumber 100)" "(32 :: u16) \<le> cfg_window (config example_session)"
    by (simp_all add: sequence_ok_iff example_session_def example_config_def)
  with negotiation_agreement [OF example_session_ok _ start(1) _ _ written refl] start(1)
  show ?thesis by fastforce
qed

text \<open>
  The generation identifies the phase: over any run of fewer than \<open>2\<^sup>3\<^sup>2 - 1\<close> operations (begins,
  responses, alarms, stops), if the generation is back at its value then the phase never changed,
  and the session reports the same agreement.  Hence an alarm of an earlier negotiation cannot
  cancel a later one.
\<close>

theorem generation_names_phase:
  assumes short: "length ops < 4294967295"
    and start: "begin_with_dialog_token s0 ssn now token = (Ok request, s)"
  shows "(generation (foldl session_step s ops) = generation s
            \<longrightarrow> phase (foldl session_step s ops) = phase s)
         \<and> (fst (TxBlockAckSession_on_alarm (foldl session_step s ops) (request_alarm request))
            \<longrightarrow> phase (foldl session_step s ops) = Awaiting (token_value token) ssn)"
  using unchanged_generation_unchanged_phase [OF short, of s] begin_result(1,4) [OF start]
  by (simp add: TxBlockAckSession_on_alarm_def split: if_splits)

theorem generation_names_phase_witness:
  "\<exists>request s. begin_with_dialog_token example_session (SequenceNumber 100) (Instant 0)
       (TxBlockAckDialogToken 7) = (Ok request, s)
     \<and> \<not> fst (TxBlockAckSession_on_alarm (foldl session_step s [SStop, SBegin (SequenceNumber 101) (Instant 5)])
               (request_alarm request))"
proof -
  obtain request s where start:
    "begin_with_dialog_token example_session (SequenceNumber 100) (Instant 0)
       (TxBlockAckDialogToken 7) = (Ok request, s)"
    using example_begin by blast
  have "phase (foldl session_step s [SStop, SBegin (SequenceNumber 101) (Instant 5)])
      \<noteq> Awaiting (token_value (TxBlockAckDialogToken 7)) (SequenceNumber 100)"
    using start
    by (auto simp: begin_with_dialog_token_def example_session_def example_config_def
        Instant_checked_add_def checked_add_def Let_def sequence_ok_iff TxBlockAckSession_begin_def
        TxBlockAckSession_stop_def)
  with generation_names_phase [OF _ start, of "[SStop, SBegin (SequenceNumber 101) (Instant 5)]"]
  have "\<not> fst (TxBlockAckSession_on_alarm
      (foldl session_step s [SStop, SBegin (SequenceNumber 101) (Instant 5)])
      (request_alarm request))" by auto
  with start show ?thesis by blast
qed

end
