(* ===== verification/Block_Ack_Originator.thy ===== *)
theory Block_Ack_Originator
  imports Block_Ack_Session
begin

text \<open>
  The originator of one peer's TX Block Ack agreements,
  \<open>crates/protocols/ieee80211/mac/src/block_ack/originator.rs\<close>: one session per TID, a shared
  Dialog Token sequence, a bounded number of attempts per TID spaced by an interval.  The const
  generic \<open>TIDS\<close> is the length of the agreement array; the policy's function pointer
  \<open>next_dialog_token\<close> is a field of function type.
\<close>

definition TX_BLOCK_ACK_MAX_TIDS :: nat where "TX_BLOCK_ACK_MAX_TIDS = 8"

record TxBlockAckOriginatorPolicy =
  policy_tids :: "u8 list"
  first_dialog_token :: u8
  policy_next_dialog_token :: "u8 \<Rightarrow> u8"

record TxBlockAckOriginatorConfig =
  originator_window :: u16
  originator_negotiation_timeout :: Duration
  amsdu_tids :: u8

record TxBlockAckRetry =
  retry_attempts :: u8
  interval :: Duration

datatype TxBlockAckOriginatorError =
    TooManyTids
  | UnsupportedTid u8
  | OriginatorMalformedResponse
  | SessionError u8 TxBlockAckError

datatype TxBlockAckResponseDisposition =
    Matched u8 TxBlockAckResponse
  | StaleDialogToken u8

record Agreement =
  tid :: u8
  session :: TxBlockAckSession
  alarm :: "TxBlockAckAlarm option"
  due :: "Instant option"
  attempts :: u8

record TxBlockAckOriginator =
  agreements :: "Agreement option list"
  retry_interval :: Duration
  originator_dialog_token :: u8
  advance_dialog_token :: "u8 \<Rightarrow> u8"

text \<open>The loop of \<open>new\<close>, with the TIDs already taken as \<open>seen\<close>.\<close>

fun new_agreements ::
    "TxBlockAckOriginatorConfig \<Rightarrow> u8 list \<Rightarrow> u8 list
     \<Rightarrow> (Agreement list, TxBlockAckOriginatorError) result" where
  "new_agreements cfg seen [] = Ok []"
| "new_agreements cfg seen (t # rest) =
     (if TX_BLOCK_ACK_MAX_TIDS \<le> unat t \<or> t \<in> set seen then Err (UnsupportedTid t)
      else
        (case map_err (SessionError t) (TxBlockAckSession_new
                \<lparr>cfg_tid = t, cfg_window = originator_window cfg, cfg_timeout_tu = 0,
                 negotiation_timeout = originator_negotiation_timeout cfg,
                 cfg_amsdu = (amsdu_tids cfg AND push_bit (unat t) 1 \<noteq> 0)\<rparr>) of
           Err e \<Rightarrow> Err e
         | Ok s \<Rightarrow>
             (case new_agreements cfg (seen @ [t]) rest of
                Err e \<Rightarrow> Err e
              | Ok ags \<Rightarrow>
                  Ok (\<lparr>tid = t, session = s, alarm = None, due = None, attempts = 0\<rparr> # ags))))"

definition TxBlockAckOriginator_new ::
    "nat \<Rightarrow> TxBlockAckOriginatorPolicy \<Rightarrow> TxBlockAckOriginatorConfig
     \<Rightarrow> (TxBlockAckOriginator, TxBlockAckOriginatorError) result" where
  "TxBlockAckOriginator_new TIDS policy cfg =
     (if TIDS < length (policy_tids policy) then Err TooManyTids
      else
        (case new_agreements cfg [] (policy_tids policy) of
           Err e \<Rightarrow> Err e
         | Ok ags \<Rightarrow>
             Ok \<lparr>agreements = map Some ags @ replicate (TIDS - length ags) None,
                 retry_interval = Duration_ZERO,
                 originator_dialog_token = first_dialog_token policy,
                 advance_dialog_token = policy_next_dialog_token policy\<rparr>))"

definition find_agreement :: "TxBlockAckOriginator \<Rightarrow> u8 \<Rightarrow> Agreement option" where
  "find_agreement self t = find (\<lambda>a. tid a = t) (flatten (agreements self))"

definition update_agreement ::
    "TxBlockAckOriginator \<Rightarrow> u8 \<Rightarrow> (Agreement \<Rightarrow> Agreement) \<Rightarrow> TxBlockAckOriginator" where
  "update_agreement self t f =
     self\<lparr>agreements := update_first (\<lambda>a. tid a = t) f (agreements self)\<rparr>"

definition originator_tids :: "TxBlockAckOriginator \<Rightarrow> u8 list" where
  "originator_tids self = map tid (flatten (agreements self))"

definition queue_initial :: "TxBlockAckOriginator \<Rightarrow> TxBlockAckRetry \<Rightarrow> TxBlockAckOriginator" where
  "queue_initial self retry = self
     \<lparr>retry_interval := interval retry,
      agreements := map (map_option (\<lambda>a. a
        \<lparr>due := (if retry_attempts retry \<noteq> 0 then Some Instant_EPOCH else None),
         attempts := retry_attempts retry\<rparr>)) (agreements self)\<rparr>"

definition has_pending :: "TxBlockAckOriginator \<Rightarrow> bool" where
  "has_pending self = list_ex (\<lambda>a. due a \<noteq> None) (flatten (agreements self))"

text \<open>\<open>Iterator::min\<close> over the values an accessor yields.\<close>

definition earliest :: "(Agreement \<Rightarrow> Instant option) \<Rightarrow> TxBlockAckOriginator \<Rightarrow> Instant option" where
  "earliest field self =
     (case flatten (map field (flatten (agreements self))) of
        [] \<Rightarrow> None
      | t # ts \<Rightarrow> Some (foldl min t ts))"

definition next_pending_deadline :: "TxBlockAckOriginator \<Rightarrow> Instant option" where
  "next_pending_deadline self = earliest due self"

definition earliest_alarm_deadline :: "TxBlockAckOriginator \<Rightarrow> Instant option" where
  "earliest_alarm_deadline self = earliest (\<lambda>a. map_option deadline (alarm a)) self"

definition take_pending ::
    "TxBlockAckOriginator \<Rightarrow> Instant \<Rightarrow> u8 option \<times> TxBlockAckOriginator" where
  "take_pending self now =
     (let is_due = (\<lambda>a. case due a of None \<Rightarrow> False | Some d \<Rightarrow> d \<le> now)
      in case find is_due (flatten (agreements self)) of
           None \<Rightarrow> (None, self)
         | Some a \<Rightarrow>
             (Some (tid a),
              self\<lparr>agreements := update_first is_due
                (\<lambda>a. a\<lparr>due := None, attempts := saturating_sub (attempts a) 1\<rparr>)
                (agreements self)\<rparr>))"

definition originator_begin ::
    "TxBlockAckOriginator \<Rightarrow> u8 \<Rightarrow> SequenceNumber \<Rightarrow> Instant
     \<Rightarrow> (AddbaRequest, TxBlockAckOriginatorError) result \<times> TxBlockAckOriginator" where
  "originator_begin self t starting now =
     (let token = originator_dialog_token self
      in case find_agreement self t of
           None \<Rightarrow> (Err (UnsupportedTid t), self)
         | Some a \<Rightarrow>
             (case begin_with_dialog_token (session a) starting now (TxBlockAckDialogToken token) of
                (Err error, s) \<Rightarrow>
                  (Err (SessionError t error), update_agreement self t (\<lambda>a. a\<lparr>session := s\<rparr>))
              | (Ok request, s) \<Rightarrow>
                  (Ok request,
                   (update_agreement self t
                      (\<lambda>a. a\<lparr>session := s, alarm := Some (request_alarm request)\<rparr>))
                   \<lparr>originator_dialog_token := advance_dialog_token self token\<rparr>)))"

definition Agreement_retry :: "Agreement \<Rightarrow> Instant \<Rightarrow> Duration \<Rightarrow> Agreement" where
  "Agreement_retry self now iv =
     self\<lparr>due := (if attempts self \<noteq> 0 then Some (Instant_saturating_add now iv) else None)\<rparr>"

definition transmit_failed ::
    "TxBlockAckOriginator \<Rightarrow> u8 \<Rightarrow> Instant \<Rightarrow> TxBlockAckOriginator" where
  "transmit_failed self t now =
     update_agreement self t (\<lambda>a. Agreement_retry
       (a\<lparr>session := TxBlockAckSession_stop (session a), alarm := None\<rparr>) now (retry_interval self))"

definition originator_on_response_action ::
    "TxBlockAckOriginator \<Rightarrow> BlockAckAction
     \<Rightarrow> (TxBlockAckResponseDisposition, TxBlockAckOriginatorError) result \<times> TxBlockAckOriginator" where
  "originator_on_response_action self action =
     (case action of
        AddbaResponse r \<Rightarrow>
          (let awaits = (\<lambda>a. awaiting_dialog_token (session a) = Some (resp_dialog_token r))
           in case find awaits (flatten (agreements self)) of
                None \<Rightarrow> (Ok (StaleDialogToken (resp_dialog_token r)), self)
              | Some a \<Rightarrow>
                  (case TxBlockAckSession_on_response_action (session a) action of
                     (Err error, s) \<Rightarrow>
                       (Err (SessionError (tid a) error),
                        self\<lparr>agreements :=
                          update_first awaits (\<lambda>a. a\<lparr>session := s\<rparr>) (agreements self)\<rparr>)
                   | (Ok response, s) \<Rightarrow>
                       (Ok (Matched (tid a) response),
                        self\<lparr>agreements := update_first awaits
                          (\<lambda>a. a\<lparr>session := s, alarm := None, due := None, attempts := 0\<rparr>)
                          (agreements self)\<rparr>)))
      | _ \<Rightarrow> (Err OriginatorMalformedResponse, self))"

definition originator_on_response ::
    "TxBlockAckOriginator \<Rightarrow> u8 list
     \<Rightarrow> (TxBlockAckResponseDisposition, TxBlockAckOriginatorError) result \<times> TxBlockAckOriginator" where
  "originator_on_response self body =
     (case ok_or (parse_block_ack_action body) OriginatorMalformedResponse of
        Err e \<Rightarrow> (Err e, self)
      | Ok action \<Rightarrow> originator_on_response_action self action)"

text \<open>The loop of \<open>expire_next\<close>; it returns at the first alarm its session accepts.\<close>

fun expire_agreements ::
    "Instant \<Rightarrow> Duration \<Rightarrow> Agreement option list \<Rightarrow> u8 option \<times> Agreement option list" where
  "expire_agreements now iv [] = (None, [])"
| "expire_agreements now iv (None # rest) =
     (let (t, rest') = expire_agreements now iv rest in (t, None # rest'))"
| "expire_agreements now iv (Some a # rest) =
     (let continue_with = (\<lambda>a. let (t, rest') = expire_agreements now iv rest
                               in (t, Some a # rest'))
      in case alarm a of
           None \<Rightarrow> continue_with a
         | Some al \<Rightarrow>
             if now < deadline al then continue_with a
             else
               (case TxBlockAckSession_on_alarm (session a) al of
                  (True, s) \<Rightarrow>
                    (Some (tid a),
                     Some (Agreement_retry (a\<lparr>alarm := None, session := s\<rparr>) now iv) # rest)
                | (False, s) \<Rightarrow> continue_with (a\<lparr>alarm := None, session := s\<rparr>)))"

definition expire_next ::
    "TxBlockAckOriginator \<Rightarrow> Instant \<Rightarrow> u8 option \<times> TxBlockAckOriginator" where
  "expire_next self now =
     (let (t, ags) = expire_agreements now (retry_interval self) (agreements self)
      in (t, self\<lparr>agreements := ags\<rparr>))"

definition originator_stop :: "TxBlockAckOriginator \<Rightarrow> u8 \<Rightarrow> bool \<times> TxBlockAckOriginator" where
  "originator_stop self t =
     (case find_agreement self t of
        Some _ \<Rightarrow>
          (True, update_agreement self t
             (\<lambda>a. a\<lparr>session := TxBlockAckSession_stop (session a), alarm := None\<rparr>))
      | None \<Rightarrow> (False, self))"

definition originator_stop_all :: "TxBlockAckOriginator \<Rightarrow> u8 \<times> TxBlockAckOriginator" where
  "originator_stop_all self =
     (foldl (\<lambda>active a.
         if TxBlockAckSession_operational (session a) \<noteq> None \<or> alarm a \<noteq> None
         then saturating_add active 1 else active) 0 (flatten (agreements self)),
      self\<lparr>agreements := map (map_option (\<lambda>a. a
        \<lparr>session := TxBlockAckSession_stop (session a), alarm := None, due := None, attempts := 0\<rparr>))
        (agreements self)\<rparr>)"

definition originator_operational :: "TxBlockAckOriginator \<Rightarrow> u8 \<Rightarrow> OperationalTxBlockAck option" where
  "originator_operational self t =
     (case find_agreement self t of
        None \<Rightarrow> None
      | Some a \<Rightarrow> TxBlockAckSession_operational (session a))"

definition originator_generation :: "TxBlockAckOriginator \<Rightarrow> u8 \<Rightarrow> u32" where
  "originator_generation self t =
     (case find_agreement self t of None \<Rightarrow> 0 | Some a \<Rightarrow> generation (session a))"

definition originator_alarm :: "TxBlockAckOriginator \<Rightarrow> u8 \<Rightarrow> TxBlockAckAlarm option" where
  "originator_alarm self t =
     (case find_agreement self t of None \<Rightarrow> None | Some a \<Rightarrow> alarm a)"

subsection \<open>The invariant\<close>

text \<open>
  A negotiation waits for its response exactly while it has an alarm, the alarm carries the
  session's generation, and a negotiation is queued only while an attempt is left.
\<close>

definition agreement_ok :: "Agreement \<Rightarrow> bool" where
  "agreement_ok a \<longleftrightarrow>
     unat (tid a) < TX_BLOCK_ACK_MAX_TIDS \<and> session_ok (session a)
     \<and> cfg_tid (config (session a)) = tid a
     \<and> (is_awaiting (session a) \<longleftrightarrow> alarm a \<noteq> None)
     \<and> (\<forall>al. alarm a = Some al \<longrightarrow> alarm_generation al = generation (session a))
     \<and> (due a \<noteq> None \<longrightarrow> attempts a \<noteq> 0)"

definition originator_ok :: "nat \<Rightarrow> TxBlockAckOriginator \<Rightarrow> bool" where
  "originator_ok TIDS self \<longleftrightarrow>
     length (agreements self) = TIDS
     \<and> distinct (map tid (flatten (agreements self)))
     \<and> (\<forall>a\<in>set (flatten (agreements self)). agreement_ok a)"

lemma new_agreements_ok:
  "new_agreements cfg seen ts = Ok ags
    \<Longrightarrow> map tid ags = ts \<and> distinct ts \<and> set seen \<inter> set ts = {} \<and> (\<forall>a\<in>set ags. agreement_ok a)"
proof (induction cfg seen ts arbitrary: ags rule: new_agreements.induct)
  case (2 cfg seen t rest)
  obtain s ags' where new: "unat t < TX_BLOCK_ACK_MAX_TIDS" "t \<notin> set seen"
    "TxBlockAckSession_new \<lparr>cfg_tid = t, cfg_window = originator_window cfg, cfg_timeout_tu = 0,
       negotiation_timeout = originator_negotiation_timeout cfg,
       cfg_amsdu = (amsdu_tids cfg AND push_bit (unat t) 1 \<noteq> 0)\<rparr> = Ok s"
    "new_agreements cfg (seen @ [t]) rest = Ok ags'"
    "ags = \<lparr>tid = t, session = s, alarm = None, due = None, attempts = 0\<rparr> # ags'"
    using "2.prems" by (auto split: if_splits result.splits simp del: push_bit_of_1)
  have "session_ok s" using new(3) by (rule session_new_ok)
  moreover have "config s = \<lparr>cfg_tid = t, cfg_window = originator_window cfg, cfg_timeout_tu = 0,
       negotiation_timeout = originator_negotiation_timeout cfg,
       cfg_amsdu = (amsdu_tids cfg AND push_bit (unat t) 1 \<noteq> 0)\<rparr> \<and> phase s = Idle"
    using new(3) by (auto simp: TxBlockAckSession_new_def validate_eq_Ok_iff split: result.splits)
  ultimately have "agreement_ok \<lparr>tid = t, session = s, alarm = None, due = None, attempts = 0\<rparr>"
    using new(1) by (simp add: agreement_ok_def is_awaiting_def)
  moreover have "map tid ags' = rest \<and> distinct rest \<and> set (seen @ [t]) \<inter> set rest = {}
      \<and> (\<forall>a\<in>set ags'. agreement_ok a)"
    using "2.IH" new by (auto simp del: push_bit_of_1)
  ultimately show ?case using new(2,5) by auto
qed auto

lemma originator_new_ok:
  "TxBlockAckOriginator_new TIDS policy cfg = Ok o0 \<Longrightarrow>
   originator_ok TIDS o0 \<and> originator_tids o0 = policy_tids policy"
  using new_agreements_ok [of cfg "[]" "policy_tids policy"]
  by (auto simp: TxBlockAckOriginator_new_def originator_ok_def originator_tids_def
      split: if_splits result.splits dest: arg_cong [of _ _ length])

text \<open>Updating one agreement in place keeps the invariant when it keeps that agreement's.\<close>

lemma originator_ok_update:
  assumes "originator_ok TIDS self" and "\<And>a. tid (f a) = tid a"
    and "\<And>a. a \<in> set (flatten (agreements self)) \<Longrightarrow> find p (flatten (agreements self)) = Some a
          \<Longrightarrow> agreement_ok a \<Longrightarrow> agreement_ok (f a)"
  shows "originator_ok TIDS (self\<lparr>agreements := update_first p f (agreements self)\<rparr>)"
  using assms find_SomeD [of p "flatten (agreements self)"]
  by (auto simp: originator_ok_def map_first_keep dest!: set_map_first)

lemma originator_ok_map:
  assumes "originator_ok TIDS self" and "\<And>a. tid (f a) = tid a"
    and "\<And>a. agreement_ok a \<Longrightarrow> agreement_ok (f a)"
  shows "originator_ok TIDS (self\<lparr>agreements := map (map_option f) (agreements self)\<rparr>)"
  using assms by (auto simp: originator_ok_def comp_def)

lemma originator_ok_fields [simp]:
  "originator_ok TIDS (self\<lparr>retry_interval := r\<rparr>) = originator_ok TIDS self"
  "originator_ok TIDS (self\<lparr>originator_dialog_token := t\<rparr>) = originator_ok TIDS self"
  by (simp_all add: originator_ok_def)

lemma session_config [simp]:
  "config (TxBlockAckSession_stop s) = config s"
  "config (snd (begin_with_dialog_token s ssn now tok)) = config s"
  "config (snd (TxBlockAckSession_on_response_action s act)) = config s"
  "config (snd (TxBlockAckSession_on_alarm s al)) = config s"
  by (auto simp: session_ops Let_def split: option.splits BlockAckAction.splits TxBlockAckPhase.splits)

lemma stopped_idle [simp]: "\<not> is_awaiting (TxBlockAckSession_stop s)"
  by (simp add: TxBlockAckSession_stop_def is_awaiting_def)

text \<open>What a session answers to a response it was waiting for, and to its own alarm.\<close>

lemma response_action_cases:
  obtains
    (failed) e where "TxBlockAckSession_on_response_action s act = (Err e, s)"
  | (answered) r s' where "TxBlockAckSession_on_response_action s act = (Ok r, s')"
      "\<not> is_awaiting s'"
  by (cases "fst (TxBlockAckSession_on_response_action s act)")
     (auto simp: TxBlockAckSession_on_response_action_def is_awaiting_def Let_def
       split: if_splits BlockAckAction.splits TxBlockAckPhase.splits)

lemma own_alarm_accepted:
  assumes "agreement_ok a" and "alarm a = Some al"
  shows "TxBlockAckSession_on_alarm (session a) al = (True, (session a)
    \<lparr>phase := Idle, generation := next_generation (generation (session a))\<rparr>)"
  using assms by (simp add: agreement_ok_def TxBlockAckSession_on_alarm_def)

text \<open>Under the invariant the expiry loop stops at the first overdue negotiation.\<close>

definition overdue :: "Instant \<Rightarrow> Agreement \<Rightarrow> bool" where
  "overdue now a = (case alarm a of None \<Rightarrow> False | Some al \<Rightarrow> deadline al \<le> now)"

definition expired :: "Instant \<Rightarrow> Duration \<Rightarrow> Agreement \<Rightarrow> Agreement" where
  "expired now iv a = Agreement_retry
     (a\<lparr>alarm := None, session := TxBlockAckSession_stop (session a)\<rparr>) now iv"

lemma expire_agreements_spec:
  "\<forall>a\<in>set (flatten xs). agreement_ok a
    \<Longrightarrow> expire_agreements now iv xs
      = (map_option tid (find (overdue now) (flatten xs)),
         update_first (overdue now) (expired now iv) xs)"
proof (induction now iv xs rule: expire_agreements.induct)
  case (3 now iv a rest)
  show ?case
  proof (cases "alarm a")
    case None
    with 3 show ?thesis by (simp add: overdue_def)
  next
    case (Some al)
    have "TxBlockAckSession_on_alarm (session a) al = (True, TxBlockAckSession_stop (session a))"
      using own_alarm_accepted [of a al] "3.prems" Some by (simp add: TxBlockAckSession_stop_def)
    with 3 Some show ?thesis
      by (cases "now < deadline al") (simp_all add: overdue_def expired_def not_less [symmetric])
  qed
qed simp_all

lemma agreement_stopped_ok:
  assumes "agreement_ok a"
  shows "agreement_ok (a\<lparr>session := TxBlockAckSession_stop (session a), alarm := None\<rparr>)"
    and "agreement_ok (Agreement_retry
           (a\<lparr>session := TxBlockAckSession_stop (session a), alarm := None\<rparr>) now iv)"
    and "agreement_ok (a\<lparr>session := TxBlockAckSession_stop (session a), alarm := None,
           due := None, attempts := 0\<rparr>)"
  using assms by (auto simp: agreement_ok_def session_stop_ok Agreement_retry_def)

lemma expired_ok: "agreement_ok a \<Longrightarrow> agreement_ok (expired now iv a)"
  by (auto simp: expired_def agreement_ok_def session_stop_ok Agreement_retry_def)

lemma expired_tid [simp]: "tid (expired now iv a) = tid a"
  by (simp add: expired_def Agreement_retry_def)

lemma agreement_begin_ok:
  assumes "agreement_ok a" "sequence_ok ssn"
    and start: "begin_with_dialog_token (session a) ssn now tok = (Ok req, s')"
  shows "agreement_ok (a\<lparr>session := s', alarm := Some (request_alarm req)\<rparr>)"
proof -
  have "session_ok s'" using session_begin_ok(1) [of "session a" ssn now tok] assms
    by (simp add: agreement_ok_def)
  then show ?thesis
    using assms begin_result(1,2,4) [OF start] by (simp add: agreement_ok_def is_awaiting_def)
qed

lemma agreement_answered_ok:
  assumes "agreement_ok a" and "TxBlockAckSession_on_response_action (session a) act = (Ok r, s')"
    and "\<not> is_awaiting s'"
  shows "agreement_ok (a\<lparr>session := s', alarm := None, due := None, attempts := 0\<rparr>)"
  using assms session_response_ok [of "session a" act]
    session_config(3) [of "session a" act] by (simp add: agreement_ok_def)

text \<open>A failed operation on a session leaves it as it was.\<close>

lemma begin_failed: "begin_with_dialog_token s ssn now tok = (Err e, s') \<Longrightarrow> s' = s"
  by (auto simp: begin_with_dialog_token_def Let_def split: option.splits)

lemma update_same:
  "find p (flatten xs) = Some a \<Longrightarrow> f a = a \<Longrightarrow> update_first p f xs = xs"
  by (induction xs rule: flatten.induct) (auto split: if_splits)

subsection \<open>Runs\<close>

datatype originator_op =
    OQueue TxBlockAckRetry
  | OTake Instant
  | OBegin u8 u16 Instant
  | OFailed u8 Instant
  | OResponse "u8 list"
  | OAction BlockAckAction
  | OExpire Instant
  | OStop u8
  | OStopAll

text \<open>The step function; a starting sequence is given as a raw value that the newtype masks.\<close>

fun originator_step :: "TxBlockAckOriginator \<Rightarrow> originator_op \<Rightarrow> TxBlockAckOriginator" where
  "originator_step self (OQueue retry) = queue_initial self retry"
| "originator_step self (OTake now) = snd (take_pending self now)"
| "originator_step self (OBegin t ssn now) = snd (originator_begin self t (from_low_bits ssn) now)"
| "originator_step self (OFailed t now) = transmit_failed self t now"
| "originator_step self (OResponse body) = snd (originator_on_response self body)"
| "originator_step self (OAction action) = snd (originator_on_response_action self action)"
| "originator_step self (OExpire now) = snd (expire_next self now)"
| "originator_step self (OStop t) = snd (originator_stop self t)"
| "originator_step self OStopAll = snd (originator_stop_all self)"

lemma queue_initial_ok: "originator_ok TIDS self \<Longrightarrow> originator_ok TIDS (queue_initial self retry)"
proof -
  let ?f = "\<lambda>a. a\<lparr>due := (if retry_attempts retry \<noteq> 0 then Some Instant_EPOCH else None),
    attempts := retry_attempts retry\<rparr>"
  assume "originator_ok TIDS self"
  then have "originator_ok TIDS (self\<lparr>agreements := map (map_option ?f) (agreements self)\<rparr>)"
    by (rule originator_ok_map) (auto simp: agreement_ok_def)
  then show ?thesis by (simp add: queue_initial_def originator_ok_def)
qed

lemma take_pending_ok:
  "originator_ok TIDS self \<Longrightarrow> originator_ok TIDS (snd (take_pending self now))"
  by (auto simp: take_pending_def Let_def agreement_ok_def split: option.split
      intro!: originator_ok_update)

lemma originator_begin_ok:
  assumes ok: "originator_ok TIDS self" and ssn: "sequence_ok ssn"
  shows "originator_ok TIDS (snd (originator_begin self t ssn now))"
proof (cases "find_agreement self t")
  case None
  with ok show ?thesis by (simp add: originator_begin_def Let_def)
next
  case (Some a)
  let ?tok = "TxBlockAckDialogToken (originator_dialog_token self)"
  obtain r s' where start: "begin_with_dialog_token (session a) ssn now ?tok = (r, s')" by force
  have upd: "originator_ok TIDS (update_agreement self t f)"
    if "\<And>b. tid (f b) = tid b" "agreement_ok a \<Longrightarrow> agreement_ok (f a)" for f
    unfolding update_agreement_def using Some that
    by (intro originator_ok_update [OF ok]) (auto simp: find_agreement_def)
  show ?thesis
  proof (cases r)
    case (Ok req)
    with start agreement_begin_ok [OF _ ssn, of a now ?tok req s'] Some upd
      [of "\<lambda>b. b\<lparr>session := s', alarm := Some (request_alarm req)\<rparr>"]
    show ?thesis by (simp add: originator_begin_def Let_def)
  next
    case (Err e)
    with start have "s' = session a" by (simp add: begin_failed)
    with Err start Some upd [of "\<lambda>b. b\<lparr>session := s'\<rparr>"] show ?thesis
      by (simp add: originator_begin_def Let_def)
  qed
qed

lemma originator_response_ok:
  assumes ok: "originator_ok TIDS self"
  shows "originator_ok TIDS (snd (originator_on_response_action self action))"
proof (cases action)
  case (AddbaResponse r)
  let ?p = "\<lambda>a. awaiting_dialog_token (session a) = Some (resp_dialog_token r)"
  show ?thesis
  proof (cases "find ?p (flatten (agreements self))")
    case None
    with AddbaResponse ok show ?thesis by (simp add: originator_on_response_action_def)
  next
    case (Some a)
    show ?thesis
    proof (cases rule: response_action_cases [of "session a" action])
      case (failed e)
      with AddbaResponse Some ok show ?thesis
        by (simp add: originator_on_response_action_def update_same)
    next
      case (answered resp s')
      have "originator_ok TIDS (self\<lparr>agreements := update_first ?p
          (\<lambda>b. b\<lparr>session := s', alarm := None, due := None, attempts := 0\<rparr>) (agreements self)\<rparr>)"
        using Some answered agreement_answered_ok
        by (intro originator_ok_update [OF ok]) auto
      with answered AddbaResponse Some show ?thesis
        by (simp add: originator_on_response_action_def)
    qed
  qed
qed (use ok in \<open>simp_all add: originator_on_response_action_def\<close>)

interpretation originator: invariant_machine "originator_ok TIDS" originator_step for TIDS
proof
  fix self op
  assume ok: "originator_ok TIDS self"
  show "originator_ok TIDS (originator_step self op)"
  proof (cases op)
    case (OFailed t now)
    with ok show ?thesis
      by (auto simp: transmit_failed_def update_agreement_def Agreement_retry_def
          dest: agreement_stopped_ok(2) [of _ now "retry_interval self"]
          intro!: originator_ok_update)
  next
    case (OResponse body)
    with ok show ?thesis
      by (simp add: originator_on_response_def originator_response_ok split: result.split)
  next
    case (OExpire now)
    have "\<forall>a\<in>set (flatten (agreements self)). agreement_ok a"
      using ok by (simp add: originator_ok_def)
    with ok OExpire show ?thesis
      by (auto simp: expire_next_def expire_agreements_spec expired_ok intro!: originator_ok_update)
  next
    case (OStop t)
    with ok show ?thesis
      by (auto simp: originator_stop_def update_agreement_def agreement_stopped_ok(1)
          split: option.split intro!: originator_ok_update)
  next
    case OStopAll
    with ok show ?thesis
      by (auto simp: originator_stop_all_def agreement_stopped_ok(3) intro!: originator_ok_map)
  qed (use ok in \<open>simp_all add: queue_initial_ok take_pending_ok originator_begin_ok
         originator_response_ok\<close>)
qed

text \<open>The attempts of a TID, and the negotiations a run takes for it.\<close>

definition attempts_left :: "u8 \<Rightarrow> TxBlockAckOriginator \<Rightarrow> nat" where
  "attempts_left t self =
     sum_list (map (\<lambda>a. if tid a = t then unat (attempts a) else 0) (flatten (agreements self)))"

fun takes :: "TxBlockAckOriginator \<Rightarrow> originator_op list \<Rightarrow> u8 list" where
  "takes self [] = []"
| "takes self (op # ops) =
     (case op of
        OTake now \<Rightarrow> (case fst (take_pending self now) of None \<Rightarrow> [] | Some t \<Rightarrow> [t])
      | _ \<Rightarrow> []) @ takes (originator_step self op) ops"

fun is_queue :: "originator_op \<Rightarrow> bool" where
  "is_queue (OQueue _) = True"
| "is_queue _ = False"

lemma attempts_left_update:
  assumes "\<And>a. tid (f a) = tid a" "\<And>a. unat (attempts (f a)) \<le> unat (attempts a)"
  shows "attempts_left t (self\<lparr>agreements := update_first p f (agreements self)\<rparr>)
           \<le> attempts_left t self"
  unfolding attempts_left_def using assms by (simp add: sum_list_map_first_le)

lemma attempts_left_token [simp]:
  "attempts_left t (self\<lparr>originator_dialog_token := d\<rparr>) = attempts_left t self"
  by (simp add: attempts_left_def)

lemma step_attempts:
  assumes "originator_ok TIDS self" "\<not> is_queue op"
  shows "attempts_left t (originator_step self op) \<le> attempts_left t self"
proof (cases op)
  case (OTake now)
  then show ?thesis
    by (auto simp: take_pending_def Let_def unat_saturating_sub split: option.split
        intro!: attempts_left_update)
next
  case (OBegin t' ssn now)
  then show ?thesis
    by (auto simp: originator_begin_def update_agreement_def Let_def
        split: option.split prod.split result.split intro!: attempts_left_update)
next
  case (OFailed t' now)
  then show ?thesis
    by (auto simp: transmit_failed_def update_agreement_def Agreement_retry_def
        intro!: attempts_left_update)
next
  case (OResponse body)
  then show ?thesis
    by (auto simp: originator_on_response_def originator_on_response_action_def Let_def
        split: option.split prod.split result.split BlockAckAction.split intro!: attempts_left_update)
next
  case (OAction action)
  then show ?thesis
    by (auto simp: originator_on_response_action_def Let_def
        split: option.split prod.split result.split BlockAckAction.split intro!: attempts_left_update)
next
  case (OExpire now)
  have "\<forall>a\<in>set (flatten (agreements self)). agreement_ok a"
    using assms(1) by (simp add: originator_ok_def)
  with OExpire show ?thesis
    by (auto simp: expire_next_def expire_agreements_spec expired_def Agreement_retry_def
        intro!: attempts_left_update)
next
  case (OStop t')
  then show ?thesis
    by (auto simp: originator_stop_def update_agreement_def split: option.split
        intro!: attempts_left_update)
next
  case OStopAll
  then show ?thesis
    by (auto simp: originator_stop_all_def attempts_left_def comp_def intro!: sum_list_mono)
qed (use assms in simp)

lemma take_uses_attempt:
  assumes ok: "originator_ok TIDS self" and take: "take_pending self now = (Some t, self')"
  shows "Suc (attempts_left t self') = attempts_left t self"
proof -
  let ?p = "\<lambda>a. case due a of None \<Rightarrow> False | Some d \<Rightarrow> d \<le> now"
  let ?f = "\<lambda>a. a\<lparr>due := None, attempts := saturating_sub (attempts a) 1\<rparr>"
  let ?g = "\<lambda>a. if tid a = t then unat (attempts a) else 0"
  obtain a where a: "find ?p (flatten (agreements self)) = Some a" "tid a = t"
    and self': "self' = self\<lparr>agreements := update_first ?p ?f (agreements self)\<rparr>"
    using take by (auto simp: take_pending_def Let_def split: option.splits)
  have "agreement_ok a" "due a \<noteq> None"
    using ok find_SomeD [OF a(1)] by (auto simp: originator_ok_def split: option.splits)
  then have "0 < unat (attempts a)" by (simp add: agreement_ok_def unat_gt_0)
  then show ?thesis
    using sum_list_map_first [OF a(1), of ?g ?f] a(2) self'
    by (simp add: attempts_left_def unat_saturating_sub)
qed

lemma takes_bounded:
  "originator_ok TIDS self \<Longrightarrow> \<forall>op\<in>set ops. \<not> is_queue op
    \<Longrightarrow> count_list (takes self ops) t \<le> attempts_left t self"
proof (induction ops arbitrary: self)
  case (Cons op ops)
  have rest: "count_list (takes (originator_step self op) ops) t
      \<le> attempts_left t (originator_step self op)"
    using Cons by (simp add: originator.step_inv)
  have mono: "attempts_left t (originator_step self op) \<le> attempts_left t self"
    using Cons.prems by (intro step_attempts) auto
  show ?case
  proof (cases "\<exists>now self'. op = OTake now \<and> take_pending self now = (Some t, self')")
    case True
    then obtain now self' where "op = OTake now" "take_pending self now = (Some t, self')" by blast
    with rest take_uses_attempt [OF Cons.prems(1), of now t self'] show ?thesis by simp
  next
    case False
    have "count_list (takes self (op # ops)) t = count_list (takes (originator_step self op) ops) t"
    proof (cases op)
      case (OTake now)
      with False have "fst (take_pending self now) \<noteq> Some t" by (cases "take_pending self now") simp
      with OTake show ?thesis by (simp split: option.split)
    qed simp_all
    with rest mono show ?thesis by simp
  qed
qed simp

subsection \<open>Properties\<close>

text \<open>
   C33. The originator's invariant.  The TIDs of a new originator are the policy's, pairwise
  distinct, and after any sequence of calls each agreement's session is well formed for its own
  TID, a negotiation waits for a response exactly while it has an alarm, the alarm carries the
  session's current generation (so it is never stale), and a queued negotiation has an attempt left.
\<close>

theorem originator_invariant:
  assumes "TxBlockAckOriginator_new TIDS policy cfg = Ok o0"
  shows "originator_ok TIDS (foldl originator_step o0 ops) \<and> originator_tids o0 = policy_tids policy"
  using originator_new_ok [OF assms] by (auto intro: originator.run_inv)

definition example_policy :: TxBlockAckOriginatorPolicy where
  "example_policy = \<lparr>policy_tids = [0, 5, 6], first_dialog_token = 255,
     policy_next_dialog_token = next_nonzero_dialog_token\<rparr>"

definition example_originator_config :: TxBlockAckOriginatorConfig where
  "example_originator_config = \<lparr>originator_window = 32,
     originator_negotiation_timeout = Duration 1000, amsdu_tids = 1\<rparr>"

definition example_originator :: TxBlockAckOriginator where
  "example_originator =
     (case TxBlockAckOriginator_new 4 example_policy example_originator_config of
        Ok o0 \<Rightarrow> o0
      | Err _ \<Rightarrow> \<lparr>agreements = [], retry_interval = Duration_ZERO, originator_dialog_token = 0,
                  advance_dialog_token = id\<rparr>)"

lemma example_originator_new:
  "TxBlockAckOriginator_new 4 example_policy example_originator_config = Ok example_originator"
proof -
  have "case TxBlockAckOriginator_new 4 example_policy example_originator_config of
      Ok _ \<Rightarrow> True | Err _ \<Rightarrow> False" by code_simp
  then show ?thesis by (auto simp: example_originator_def split: result.splits)
qed

theorem originator_invariant_witness:
  "originator_ok 4 (foldl originator_step example_originator
     [OQueue \<lparr>retry_attempts = 2, interval = Duration 500\<rparr>, OTake (Instant 0),
      OBegin 0 100 (Instant 0), OExpire (Instant 2000)])
   \<and> originator_tids example_originator = [0, 5, 6]"
  using originator_invariant [OF example_originator_new] unfolding example_policy_def
  by (simp del: foldl_Cons)

text \<open>
   C23. Bounded negotiation.  After a queueing, over any sequence of further calls that does not
  queue again, the negotiations taken for a TID never exceed the attempts it was queued with,
  however requests fail to leave, responses are lost or alarms expire.
\<close>

theorem attempts_are_bounded:
  assumes "originator_ok TIDS self" and "\<forall>op\<in>set ops. \<not> is_queue op"
  shows "count_list (takes (queue_initial self retry) ops) t \<le> unat (retry_attempts retry)"
proof -
  have "attempts_left t (queue_initial self retry)
      = sum_list (map (\<lambda>a. if tid a = t then unat (retry_attempts retry) else 0)
          (flatten (agreements self)))"
    by (simp add: attempts_left_def queue_initial_def comp_def cong: if_cong)
  also have "\<dots> = unat (retry_attempts retry) * count_list (map tid (flatten (agreements self))) t"
    by (rule sum_list_if_const)
  also have "count_list (map tid (flatten (agreements self))) t \<le> 1"
    using assms(1) by (intro count_list_distinct) (simp add: originator_ok_def)
  finally show ?thesis
    using takes_bounded [OF queue_initial_ok [OF assms(1)] assms(2), of retry t] by fastforce
qed

theorem attempts_are_bounded_witness:
  "takes (queue_initial example_originator \<lparr>retry_attempts = 1, interval = Duration 500\<rparr>)
     [OTake (Instant 0), OBegin 0 100 (Instant 0), OExpire (Instant 2000), OTake (Instant 9000)]
     = [0, 5]
   \<and> count_list (takes (queue_initial example_originator \<lparr>retry_attempts = 1, interval = Duration 500\<rparr>)
       [OTake (Instant 0), OBegin 0 100 (Instant 0), OExpire (Instant 2000), OTake (Instant 9000)]) 0
     \<le> unat (1 :: u8)"
proof
  show "takes (queue_initial example_originator \<lparr>retry_attempts = 1, interval = Duration 500\<rparr>)
     [OTake (Instant 0), OBegin 0 100 (Instant 0), OExpire (Instant 2000), OTake (Instant 9000)]
     = [0, 5]" by code_simp
  have "originator_ok 4 example_originator"
    using originator_new_ok [OF example_originator_new] by simp
  then show "count_list (takes (queue_initial example_originator
       \<lparr>retry_attempts = 1, interval = Duration 500\<rparr>)
       [OTake (Instant 0), OBegin 0 100 (Instant 0), OExpire (Instant 2000), OTake (Instant 9000)]) 0
     \<le> unat (1 :: u8)"
    using attempts_are_bounded [of 4 example_originator _
        "\<lparr>retry_attempts = 1, interval = Duration 500\<rparr>" 0] by (simp del: takes.simps)
qed

text \<open>
   Response routing.  A parsed ADDBA Response reaches only the negotiation that awaits its
  Dialog Token: when the answer is taken, that TID's agreement alone changes and its attempts end;
  a token no negotiation awaits, a response the session refuses and a body that is no ADDBA
  Response change nothing at all.
\<close>

theorem response_routing:
  assumes "originator_ok TIDS self"
  shows "case originator_on_response_action self action of
      (Ok (Matched t response), self') \<Rightarrow>
        (\<exists>a. find_agreement self t = Some a \<and> is_awaiting (session a)
           \<and> find_agreement self' t = Some (a\<lparr>session := snd
                (TxBlockAckSession_on_response_action (session a) action),
                alarm := None, due := None, attempts := 0\<rparr>))
        \<and> (\<forall>u. u \<noteq> t \<longrightarrow> find_agreement self' u = find_agreement self u)
    | (_, self') \<Rightarrow> self' = self"
proof (cases action)
  case (AddbaResponse r)
  let ?ags = "flatten (agreements self)"
  let ?p = "\<lambda>a. awaiting_dialog_token (session a) = Some (resp_dialog_token r)"
  show ?thesis
  proof (cases "find ?p ?ags")
    case None
    with AddbaResponse show ?thesis by (simp add: originator_on_response_action_def)
  next
    case (Some a)
    have a: "a \<in> set ?ags" "is_awaiting (session a)"
      using find_SomeD [OF Some]
      by (auto simp: awaiting_dialog_token_def is_awaiting_def split: TxBlockAckPhase.splits)
    have dist: "distinct (map tid ?ags)" using assms by (simp add: originator_ok_def)
    show ?thesis
    proof (cases rule: response_action_cases [of "session a" action])
      case (failed e)
      with AddbaResponse Some show ?thesis
        by (simp add: originator_on_response_action_def update_same)
    next
      case (answered resp s')
      let ?f = "\<lambda>b. b\<lparr>session := s', alarm := None, due := None, attempts := 0\<rparr>"
      let ?self' = "self\<lparr>agreements := update_first ?p ?f (agreements self)\<rparr>"
      have self': "find_agreement ?self' u
          = map_option (\<lambda>b. if tid b = tid a then ?f b else b) (find_agreement self u)" for u
        using map_first_eq_map [OF Some dist, of ?f]
        by (simp add: find_agreement_def) (rule find_map_key, simp)
      have "find_agreement self (tid a) = Some a"
        unfolding find_agreement_def using dist a(1) by (rule find_key)
      moreover have "find_agreement ?self' u = find_agreement self u" if "u \<noteq> tid a" for u
      proof (cases "find_agreement self u")
        case None
        then show ?thesis by (simp only: self' option.map)
      next
        case (Some b)
        then have "tid b = u"
          using find_SomeD [of "\<lambda>b. tid b = u" ?ags b] by (simp add: find_agreement_def)
        with Some that show ?thesis by (simp only: self' option.map if_False)
      qed
      ultimately show ?thesis
        using answered AddbaResponse Some a(2)
        by (simp add: originator_on_response_action_def self')
    qed
  qed
qed (simp_all add: originator_on_response_action_def)

definition awaiting_originator :: TxBlockAckOriginator where
  "awaiting_originator = foldl originator_step example_originator
     [OQueue \<lparr>retry_attempts = 2, interval = Duration 500\<rparr>, OTake (Instant 0),
      OBegin 0 100 (Instant 0)]"

lemma awaiting_originator_ok: "originator_ok 4 awaiting_originator"
  unfolding awaiting_originator_def
  using originator_new_ok [OF example_originator_new] by (intro originator.run_inv) simp

definition accepting_response :: BlockAckAction where
  "accepting_response = AddbaResponse \<lparr>resp_dialog_token = 255, resp_status = 0, resp_tid = 0,
     resp_immediate = True, resp_amsdu = False, resp_window = 16, resp_timeout_tu = 0\<rparr>"

theorem response_routing_witness:
  "fst (originator_on_response_action awaiting_originator accepting_response)
     = Ok (Matched 0 (OperationalResponse \<lparr>op_tid = 0, op_window = 16, op_timeout_tu = 0,
         op_starting_sequence = SequenceNumber 100, op_amsdu = False\<rparr>))
   \<and> find_agreement (snd (originator_on_response_action awaiting_originator accepting_response)) 5
     = find_agreement awaiting_originator 5"
proof
  show *: "fst (originator_on_response_action awaiting_originator accepting_response)
     = Ok (Matched 0 (OperationalResponse \<lparr>op_tid = 0, op_window = 16, op_timeout_tu = 0,
         op_starting_sequence = SequenceNumber 100, op_amsdu = False\<rparr>))"
    by code_simp
  show "find_agreement (snd (originator_on_response_action awaiting_originator accepting_response)) 5
     = find_agreement awaiting_originator 5"
    using response_routing [OF awaiting_originator_ok, of accepting_response] *
    by (auto simp: split_beta)
qed

text \<open>
   Expiry makes progress.  \<open>expire_next\<close> scans the agreements for alarms; it consumes exactly
  the first negotiation whose response is overdue, returns its TID, queues its next attempt after
  the interval while one is left, and touches no other agreement; it returns nothing only when no
  negotiation is overdue.
\<close>

theorem expire_next_first_overdue:
  assumes "originator_ok TIDS self"
  shows "expire_next self now
    = (map_option tid (find (overdue now) (flatten (agreements self))),
       self\<lparr>agreements := update_first (overdue now)
         (\<lambda>a. a\<lparr>session := TxBlockAckSession_stop (session a), alarm := None,
                due := (if attempts a \<noteq> 0
                        then Some (Instant_saturating_add now (retry_interval self)) else None)\<rparr>)
         (agreements self)\<rparr>)"
proof -
  have "expired now (retry_interval self)
      = (\<lambda>a. a\<lparr>session := TxBlockAckSession_stop (session a), alarm := None,
               due := (if attempts a \<noteq> 0
                       then Some (Instant_saturating_add now (retry_interval self)) else None)\<rparr>)"
    by (auto simp: expired_def Agreement_retry_def)
  moreover have "\<forall>a\<in>set (flatten (agreements self)). agreement_ok a"
    using assms by (simp add: originator_ok_def)
  ultimately show ?thesis
    unfolding expire_next_def by (simp only: expire_agreements_spec) simp
qed

theorem expire_next_first_overdue_witness:
  "fst (expire_next awaiting_originator (Instant 1000)) = Some 0
   \<and> fst (expire_next awaiting_originator (Instant 999)) = None"
  unfolding expire_next_first_overdue [OF awaiting_originator_ok] by code_simp

end
