(* ===== verification/Block_Ack_Reorder.thy ===== *)
theory Block_Ack_Reorder
  imports Sequence_Number
begin

text \<open>
  The receive reorder buffer of one Block Ack agreement,
  \<open>crates/protocols/ieee80211/mac/src/block_ack/reorder.rs\<close>.  The const generics
  \<open>WINDOW_CAPACITY\<close> and \<open>SLOT_CAPACITY\<close> are the arguments \<open>W\<close> and \<open>S\<close>; \<open>usize\<close> indices are natural
  numbers (the code keeps them below \<open>W\<close>), and the \<open>u16\<close> and \<open>u64\<close> arithmetic is that of words.
  \<open>sort_unstable_by_key\<close> is \<open>sort_key\<close>: the keys of the frames are distinct and all vacant
  positions are equal, so every sort by this key gives the same list.
\<close>

definition MAX_RX_REORDER_WINDOW :: u16 where "MAX_RX_REORDER_WINDOW = 64"

record RxReorderMpdu =
  mpdu_sequence :: SequenceNumber
  mpdu_slot :: u8

datatype RxReorderError =
    ReorderInvalidWindow u16
  | InvalidSlot u8
  | InvalidBank u8
  | DuplicateSequence SequenceNumber
  | SlotAlreadyOwned u8

record RxReorderRelease =
  rel_frames :: "RxReorderMpdu option list"
  missing :: u16
  rejected :: "RxReorderMpdu option"
  buffered :: bool

definition RxReorderRelease_empty :: "nat \<Rightarrow> RxReorderRelease" where
  "RxReorderRelease_empty W =
     \<lparr>rel_frames = replicate W None, missing = 0, rejected = None, buffered = False\<rparr>"

definition release_iter :: "RxReorderRelease \<Rightarrow> RxReorderMpdu list" where
  "release_iter self = flatten (rel_frames self)"

definition order_key :: "SequenceNumber \<Rightarrow> RxReorderMpdu option \<Rightarrow> u16" where
  "order_key start frame =
     (case frame of None \<Rightarrow> 0xffff | Some frame \<Rightarrow> forward_distance start (mpdu_sequence frame))"

definition release_order :: "RxReorderRelease \<Rightarrow> SequenceNumber \<Rightarrow> RxReorderRelease" where
  "release_order self start = self\<lparr>rel_frames := sort_key (order_key start) (rel_frames self)\<rparr>"

record RxReorderBuffer =
  starting_sequence :: SequenceNumber
  next_sequence :: SequenceNumber
  window :: u16
  occupied :: u64
  head :: nat
  frames :: "RxReorderMpdu option list"

definition RxReorderBuffer_new ::
    "nat \<Rightarrow> SequenceNumber \<Rightarrow> u16 \<Rightarrow> (RxReorderBuffer, RxReorderError) result" where
  "RxReorderBuffer_new W starting win =
     (if win = 0 \<or> W < unat win then Err (ReorderInvalidWindow win)
      else Ok \<lparr>starting_sequence = starting, next_sequence = starting, window = win,
               occupied = 0, head = 0, frames = replicate W None\<rparr>)"

definition occupied_count :: "RxReorderBuffer \<Rightarrow> nat" where
  "occupied_count self = length (filter (bit (occupied self)) [0..<64])"

definition relative_index :: "nat \<Rightarrow> RxReorderBuffer \<Rightarrow> u16 \<Rightarrow> nat" where
  "relative_index W self distance = (head self + unat distance) mod W"

definition has_sequence :: "nat \<Rightarrow> RxReorderBuffer \<Rightarrow> SequenceNumber \<Rightarrow> bool" where
  "has_sequence W self sequence =
     (let distance = forward_distance (next_sequence self) sequence
      in if window self \<le> distance then False
         else (let index = relative_index W self distance
               in occupied self AND push_bit index 1 \<noteq> 0
                  \<and> (case frames self ! index of
                       None \<Rightarrow> False
                     | Some frame \<Rightarrow> mpdu_sequence frame = sequence)))"

definition check_slot :: "nat \<Rightarrow> u8 \<Rightarrow> (unit, RxReorderError) result" where
  "check_slot S slot =
     (if S = 0 \<or> 256 < S \<or> S \<le> unat slot then Err (InvalidSlot slot) else Ok ())"

definition check_received_slot ::
    "nat \<Rightarrow> RxReorderBuffer \<Rightarrow> u8 \<Rightarrow> (unit, RxReorderError) result" where
  "check_received_slot S self slot =
     (case check_slot S slot of
        Err e \<Rightarrow> Err e
      | Ok _ \<Rightarrow>
          if list_ex (\<lambda>owned. mpdu_slot owned = slot) (flatten (frames self))
          then Err (SlotAlreadyOwned slot) else Ok ())"

definition contiguous_from ::
    "nat \<Rightarrow> RxReorderBuffer \<Rightarrow> SequenceNumber \<Rightarrow> SequenceNumber option \<Rightarrow> u16" where
  "contiguous_from W self start received =
     of_nat (length (takeWhile
       (\<lambda>offset. let sequence = wrapping_add start offset
                 in received = Some sequence \<or> has_sequence W self sequence)
       (map of_nat [0..<unat (window self)])))"

definition finish ::
    "nat \<Rightarrow> RxReorderBuffer \<Rightarrow> u16 \<Rightarrow> u16 \<Rightarrow> RxReorderMpdu option
     \<Rightarrow> RxReorderRelease \<times> RxReorderBuffer" where
  "finish W self advance contiguous received =
     (let start = next_sequence self;
          span = advance + contiguous;
          before_run = of_nat (length (filter
            (\<lambda>frame. forward_distance start (mpdu_sequence frame) < advance)
            (flatten (frames self))));
          taken = (\<lambda>index. case frames self ! index of
                     None \<Rightarrow> False
                   | Some frame \<Rightarrow> forward_distance start (mpdu_sequence frame) < span);
          release = \<lparr>rel_frames =
                       map (\<lambda>index. if taken index then frames self ! index else None) [0..<W],
                     missing = advance - before_run, rejected = None, buffered = False\<rparr>;
          occupied' = fold (\<lambda>index occ. if taken index then occ AND NOT (push_bit index 1) else occ)
                        [0..<W] (occupied self);
          frames' = map (\<lambda>index. if taken index then None else frames self ! index) [0..<W];
          received_place = head self;
          self' = self\<lparr>occupied := occupied', frames := frames',
                      head := relative_index W self span,
                      next_sequence := wrapping_add start span\<rparr>;
          (release', self'') =
            (case received of
               None \<Rightarrow> (release, self')
             | Some frame \<Rightarrow>
                 if forward_distance start (mpdu_sequence frame) < span
                 then (release\<lparr>rel_frames := (rel_frames release)[received_place := Some frame]\<rparr>,
                       self')
                 else
                   (let index = relative_index W self'
                          (forward_distance (next_sequence self') (mpdu_sequence frame))
                    in (release\<lparr>buffered := True\<rparr>,
                        self'\<lparr>frames := (frames self')[index := Some frame],
                             occupied := occupied self' OR push_bit index 1\<rparr>)))
      in (release_order release' start, self''))"

definition retains_on_ingest ::
    "nat \<Rightarrow> RxReorderBuffer \<Rightarrow> SequenceNumber \<Rightarrow> (bool, RxReorderError) result" where
  "retains_on_ingest W self sequence =
     (let distance = forward_distance (next_sequence self) sequence
      in if HALF_SPACE \<le> distance then Ok False
         else if distance < window self \<and> has_sequence W self sequence
           then Err (DuplicateSequence sequence)
         else (let distance_after_advance =
                     (if window self \<le> distance then window self - 1 else distance)
               in Ok (distance_after_advance \<noteq> 0)))"

definition try_ingest_immediate ::
    "nat \<Rightarrow> nat \<Rightarrow> RxReorderBuffer \<Rightarrow> RxReorderMpdu
     \<Rightarrow> (RxReorderMpdu option, RxReorderError) result \<times> RxReorderBuffer" where
  "try_ingest_immediate W S self frame =
     (case check_received_slot S self (mpdu_slot frame) of
        Err e \<Rightarrow> (Err e, self)
      | Ok _ \<Rightarrow>
          if mpdu_sequence frame \<noteq> next_sequence self then (Ok None, self)
          else (let successor = wrapping_add (next_sequence self) 1
                in if has_sequence W self successor then (Ok None, self)
                   else (Ok (Some frame),
                         self\<lparr>head := relative_index W self 1, next_sequence := successor\<rparr>)))"

definition ingest ::
    "nat \<Rightarrow> nat \<Rightarrow> RxReorderBuffer \<Rightarrow> RxReorderMpdu
     \<Rightarrow> (RxReorderRelease, RxReorderError) result \<times> RxReorderBuffer" where
  "ingest W S self frame =
     (case check_received_slot S self (mpdu_slot frame) of
        Err e \<Rightarrow> (Err e, self)
      | Ok _ \<Rightarrow>
          (let distance = forward_distance (next_sequence self) (mpdu_sequence frame)
           in if HALF_SPACE \<le> distance
              then (Ok ((RxReorderRelease_empty W)\<lparr>rejected := Some frame\<rparr>), self)
              else if has_sequence W self (mpdu_sequence frame)
              then (Err (DuplicateSequence (mpdu_sequence frame)), self)
              else
                (let advance = (if window self \<le> distance then distance - window self + 1 else 0);
                     start = wrapping_add (next_sequence self) advance;
                     contiguous = contiguous_from W self start (Some (mpdu_sequence frame));
                     (release, self') = finish W self advance contiguous (Some frame)
                 in (Ok release, self'))))"

definition expire_gap :: "nat \<Rightarrow> RxReorderBuffer \<Rightarrow> RxReorderRelease \<times> RxReorderBuffer" where
  "expire_gap W self =
     (case find (\<lambda>distance. has_sequence W self (wrapping_add (next_sequence self) distance))
             (map of_nat [0..<unat (window self)]) of
        None \<Rightarrow> (RxReorderRelease_empty W, self)
      | Some distance \<Rightarrow>
          (let start = wrapping_add (next_sequence self) distance;
               contiguous = contiguous_from W self start None
           in finish W self distance contiguous None))"

definition move_window_to ::
    "nat \<Rightarrow> RxReorderBuffer \<Rightarrow> SequenceNumber
     \<Rightarrow> RxReorderRelease option \<times> RxReorderBuffer" where
  "move_window_to W self starting =
     (let distance = forward_distance (next_sequence self) starting
      in if distance = 0 \<or> HALF_SPACE \<le> distance then (None, self)
         else (let contiguous = contiguous_from W self starting None;
                   (release, self') = finish W self distance contiguous None
               in (Some release, self')))"

definition reorder_stop :: "nat \<Rightarrow> RxReorderBuffer \<Rightarrow> RxReorderRelease \<times> RxReorderBuffer" where
  "reorder_stop W self =
     (let release = (RxReorderRelease_empty W)\<lparr>rel_frames := frames self\<rparr>;
          self' = self\<lparr>frames := replicate W None, occupied := 0\<rparr>
      in (release_order release (next_sequence self'), self'))"

definition resynchronize_stale_initial_ampdu ::
    "nat \<Rightarrow> RxReorderBuffer \<Rightarrow> SequenceNumber \<Rightarrow> bool
     \<Rightarrow> (RxReorderRelease \<times> SequenceNumber) option \<times> RxReorderBuffer" where
  "resynchronize_stale_initial_ampdu W self sequence use_received_sequence =
     (if forward_distance (next_sequence self) sequence < HALF_SPACE then (None, self)
      else
        (let next =
               (if use_received_sequence
                   \<or> HALF_SPACE \<le> forward_distance (starting_sequence self) sequence
                then (if use_received_sequence then sequence
                      else wrapping_sub sequence (window self - 1))
                else starting_sequence self);
             (released, self') = reorder_stop W self
         in (Some (released, next), self'\<lparr>next_sequence := next\<rparr>)))"

subsection \<open>The invariant\<close>

text \<open>
  \<open>at_distance W b d\<close> is the MPDU the buffer holds for the sequence number \<open>d\<close> after the window
  start: the ring read from its head.  The invariant says that this view is what it should be.
  The MPDU at distance \<open>d\<close> has sequence number \<open>next_sequence + d\<close>, the window start is vacant,
  nothing lies beyond the window, and no two MPDUs share a slot.
\<close>

definition at_distance :: "nat \<Rightarrow> RxReorderBuffer \<Rightarrow> nat \<Rightarrow> RxReorderMpdu option" where
  "at_distance W b d = (if d < W then frames b ! ((head b + d) mod W) else None)"

definition mpdu_ok :: "nat \<Rightarrow> SequenceNumber \<Rightarrow> nat \<Rightarrow> nat \<Rightarrow> RxReorderMpdu \<Rightarrow> bool" where
  "mpdu_ok S next win d f \<longleftrightarrow>
     sequence_ok (mpdu_sequence f) \<and> unat (forward_distance next (mpdu_sequence f)) = d
     \<and> 0 < d \<and> d < win \<and> unat (mpdu_slot f) < S"

definition slots_distinct :: "(nat \<Rightarrow> RxReorderMpdu option) \<Rightarrow> bool" where
  "slots_distinct M \<longleftrightarrow>
     (\<forall>d d' f f'. M d = Some f \<and> M d' = Some f' \<and> mpdu_slot f = mpdu_slot f' \<longrightarrow> d = d')"

definition shape_ok :: "nat \<Rightarrow> RxReorderBuffer \<Rightarrow> bool" where
  "shape_ok W b \<longleftrightarrow>
     0 < W \<and> W \<le> 64 \<and> length (frames b) = W \<and> head b < W
     \<and> 0 < unat (window b) \<and> unat (window b) \<le> W
     \<and> sequence_ok (next_sequence b) \<and> sequence_ok (starting_sequence b)
     \<and> (\<forall>i. bit (occupied b) i \<longleftrightarrow> i < W \<and> frames b ! i \<noteq> None)"

definition reorder_ok :: "nat \<Rightarrow> nat \<Rightarrow> RxReorderBuffer \<Rightarrow> bool" where
  "reorder_ok W S b \<longleftrightarrow>
     shape_ok W b
     \<and> (\<forall>d f. at_distance W b d = Some f \<longrightarrow>
          mpdu_ok S (next_sequence b) (unat (window b)) d f)
     \<and> slots_distinct (at_distance W b)"

lemma reorder_ok_mpdu:
  "reorder_ok W S b \<Longrightarrow> at_distance W b d = Some f
    \<Longrightarrow> mpdu_ok S (next_sequence b) (unat (window b)) d f"
  by (simp add: reorder_ok_def)

lemma reorder_ok_shape: "reorder_ok W S b \<Longrightarrow> shape_ok W b"
  by (simp add: reorder_ok_def)

lemma at_distance_beyond: "W \<le> d \<Longrightarrow> at_distance W b d = None"
  by (simp add: at_distance_def)

lemma at_distance_head: "reorder_ok W S b \<Longrightarrow> at_distance W b 0 = None"
  using reorder_ok_mpdu [of W S b 0] by (cases "at_distance W b 0") (auto simp: mpdu_ok_def)

lemma at_distance_window:
  "reorder_ok W S b \<Longrightarrow> unat (window b) \<le> d \<Longrightarrow> at_distance W b d = None"
  using reorder_ok_mpdu [of W S b d] by (cases "at_distance W b d") (auto simp: mpdu_ok_def)

lemma frames_at_distance:
  "0 < W \<Longrightarrow> frames b ! ((head b + e) mod W) = at_distance W b (e mod W)"
  by (simp add: at_distance_def mod_add_right_eq)

text \<open>The held MPDUs in sequence order, and as the array holds them.\<close>

definition held :: "nat \<Rightarrow> RxReorderBuffer \<Rightarrow> RxReorderMpdu list" where
  "held W b = flatten (map (at_distance W b) [0..<W])"

lemma map_at_distance:
  assumes "shape_ok W b"
  shows "map (at_distance W b) [0..<W] = rotate (head b) (frames b)"
proof -
  have "map (at_distance W b) [0..<W] = map (\<lambda>d. frames b ! ((head b + d) mod W)) [0..<W]"
    by (simp add: at_distance_def)
  with assms show ?thesis
    by (simp add: map_rotation shape_ok_def)
qed

lemma mset_held: "shape_ok W b \<Longrightarrow> mset (held W b) = mset (flatten (frames b))"
  by (simp add: held_def map_at_distance mset_flatten_rotate)

lemma set_held: "f \<in> set (held W b) \<longleftrightarrow> (\<exists>d. at_distance W b d = Some f)"
  by (auto simp: held_def set_flatten_upt at_distance_def)

lemma set_frames: "shape_ok W b \<Longrightarrow> f \<in> set (flatten (frames b)) \<longleftrightarrow> (\<exists>d. at_distance W b d = Some f)"
  by (metis mset_held set_held set_mset_mset)

text \<open>The occupancy test finds exactly the held sequence numbers.\<close>

lemma has_sequence_iff:
  assumes ok: "reorder_ok W S b" and s: "sequence_ok s"
  shows "has_sequence W b s \<longleftrightarrow> at_distance W b (unat (forward_distance (next_sequence b) s)) \<noteq> None"
    (is "_ \<longleftrightarrow> at_distance W b ?d \<noteq> None")
proof (cases "?d < unat (window b)")
  case False
  then show ?thesis
    using at_distance_window [OF ok, of ?d]
    by (simp add: has_sequence_def Let_def word_le_nat_alt)
next
  case True
  have shape: "shape_ok W b" using ok by (rule reorder_ok_shape)
  then have d: "?d < W" and W: "0 < W" using True by (auto simp: shape_ok_def)
  have same: "mpdu_sequence f = s" if "at_distance W b ?d = Some f" for f
    using reorder_ok_mpdu [OF ok that] shape s sn.dist_inj [of "next_sequence b" "mpdu_sequence f" s]
    by (simp add: mpdu_ok_def shape_ok_def)
  have "frames b ! ((head b + ?d) mod W) = at_distance W b ?d"
    using d by (simp add: at_distance_def)
  moreover have "bit (occupied b) ((head b + ?d) mod W)
      \<longleftrightarrow> frames b ! ((head b + ?d) mod W) \<noteq> None"
    using shape W by (simp add: shape_ok_def)
  ultimately show ?thesis
    using True same
    by (cases "at_distance W b ?d")
       (simp_all add: has_sequence_def Let_def relative_index_def word_le_nat_alt test_bit_mask)
qed

subsection \<open>The abstract window\<close>

text \<open>
  The specification of a window transition works on the position map alone: \<open>with_received\<close> adds
  the received MPDU at its distance, \<open>run_length\<close> counts the filled positions from an offset, and
  the transition delivers the positions below the span and shifts the rest down.
\<close>

definition with_received ::
    "nat \<Rightarrow> RxReorderBuffer \<Rightarrow> RxReorderMpdu option \<Rightarrow> nat \<Rightarrow> RxReorderMpdu option" where
  "with_received W b received =
     (case received of
        None \<Rightarrow> at_distance W b
      | Some f \<Rightarrow>
          (at_distance W b)(unat (forward_distance (next_sequence b) (mpdu_sequence f)) \<mapsto> f))"

definition run_length :: "(nat \<Rightarrow> 'a option) \<Rightarrow> nat \<Rightarrow> nat \<Rightarrow> nat" where
  "run_length M i n = length (takeWhile (\<lambda>k. M (i + k) \<noteq> None) [0..<n])"

lemma run_length_le: "run_length M i n \<le> n"
  by (metis diff_zero length_takeWhile_le length_upt run_length_def)

lemma run_length_filled:
  assumes "k < run_length M i n"
  shows "M (i + k) \<noteq> None"
proof -
  let ?P = "\<lambda>k. M (i + k) \<noteq> None"
  have k: "k < length (takeWhile ?P [0..<n])"
    using assms by (simp only: run_length_def)
  have "k < n" using assms run_length_le [of M i n] by simp
  then have "takeWhile ?P [0..<n] ! k = k"
    by (simp only: takeWhile_nth [OF k] nth_upt)
  then have "k \<in> set (takeWhile ?P [0..<n])"
    using nth_mem [OF k] by (simp only:)
  from set_takeWhileD [OF this] show ?thesis by (rule conjunct2)
qed

lemma run_length_stops:
  assumes "run_length M i n < n"
  shows "M (i + run_length M i n) = None"
proof -
  let ?P = "\<lambda>k. M (i + k) \<noteq> None"
  have len: "length (takeWhile ?P [0..<n]) < length [0..<n]"
    using assms unfolding run_length_def by (simp only: length_upt diff_zero)
  have "\<not> ?P ([0..<n] ! run_length M i n)"
    unfolding run_length_def by (rule nth_length_takeWhile [OF len])
  moreover have "[0..<n] ! run_length M i n = run_length M i n"
    using assms by simp
  ultimately show ?thesis by simp
qed

lemma distance_from_start:
  assumes "sequence_ok s" and "unat advance + k < 4096"
  shows "unat (forward_distance s (wrapping_add (wrapping_add s advance) (of_nat k)))
           = unat advance + k"
proof -
  have "wrapping_add (wrapping_add s advance) (of_nat k)
      = wrapping_add s (of_nat (unat advance + k))"
    using sn.advance_advance [OF assms(1), of "unat advance" k] by simp
  then show ?thesis
    using sn.dist_advance [OF assms(1), of "unat advance + k"] assms(2) by simp
qed

text \<open>The planned run is the run of the position map with the received MPDU in it.\<close>

lemma unat_contiguous_from:
  assumes ok: "reorder_ok W S b" and advance: "unat advance < 2048"
    and received: "\<And>f. received = Some f \<Longrightarrow> sequence_ok (mpdu_sequence f)"
  shows "unat (contiguous_from W b (wrapping_add (next_sequence b) advance)
                 (map_option mpdu_sequence received))
           = run_length (with_received W b received) (unat advance) (unat (window b))"
proof -
  have shape: "shape_ok W b" using ok by (rule reorder_ok_shape)
  then have win: "unat (window b) \<le> 64" and nxt: "sequence_ok (next_sequence b)"
    by (auto simp: shape_ok_def)
  let ?seq = "\<lambda>k. wrapping_add (wrapping_add (next_sequence b) advance) (of_nat k)"
  let ?P = "\<lambda>k. map_option mpdu_sequence received = Some (?seq k) \<or> has_sequence W b (?seq k)"
  have "?P k \<longleftrightarrow> with_received W b received (unat advance + k) \<noteq> None"
    if k: "k < unat (window b)" for k
  proof -
    have d: "unat (forward_distance (next_sequence b) (?seq k)) = unat advance + k"
      using k win advance by (intro distance_from_start [OF nxt]) auto
    have "mpdu_sequence f = ?seq k \<longleftrightarrow>
        unat (forward_distance (next_sequence b) (mpdu_sequence f)) = unat advance + k"
      if "received = Some f" for f
      using sn.dist_inj [OF nxt received [OF that], of "?seq k"] d by auto
    then show ?thesis
      by (auto simp: has_sequence_iff [OF ok] d with_received_def split: option.splits)
  qed
  then have "takeWhile ?P [0..<unat (window b)]
      = takeWhile (\<lambda>k. with_received W b received (unat advance + k) \<noteq> None) [0..<unat (window b)]"
    by (intro takeWhile_cong) auto
  then have "contiguous_from W b (wrapping_add (next_sequence b) advance)
        (map_option mpdu_sequence received)
      = of_nat (run_length (with_received W b received) (unat advance) (unat (window b)))"
    by (simp add: contiguous_from_def Let_def takeWhile_map comp_def run_length_def)
  then show ?thesis
    using run_length_le [of "with_received W b received" "unat advance" "unat (window b)"] win
    by (simp add: unat_of_nat)
qed

text \<open>What a transition may be given: an advance within the horizon and a fresh MPDU ahead of it.\<close>

definition input_ok ::
    "nat \<Rightarrow> nat \<Rightarrow> RxReorderBuffer \<Rightarrow> nat \<Rightarrow> RxReorderMpdu option \<Rightarrow> bool" where
  "input_ok W S b advance received \<longleftrightarrow>
     reorder_ok W S b \<and> advance < 2048
     \<and> (\<forall>f. received = Some f \<longrightarrow>
          (let d = unat (forward_distance (next_sequence b) (mpdu_sequence f))
           in sequence_ok (mpdu_sequence f) \<and> unat (mpdu_slot f) < S
              \<and> advance \<le> d \<and> d < advance + unat (window b) \<and> at_distance W b d = None
              \<and> (\<forall>d' g. at_distance W b d' = Some g \<longrightarrow> mpdu_slot g \<noteq> mpdu_slot f)))"

lemma with_received_distance:
  assumes "input_ok W S b advance received" and "with_received W b received d = Some f"
  shows "sequence_ok (mpdu_sequence f)"
    and "unat (forward_distance (next_sequence b) (mpdu_sequence f)) = d"
    and "unat (mpdu_slot f) < S"
    and "d < advance + unat (window b)"
  using assms reorder_ok_mpdu [of W S b d f]
  by (auto simp: input_ok_def with_received_def mpdu_ok_def Let_def fun_upd_apply
      split: option.splits if_splits)

lemma with_received_slots:
  assumes "input_ok W S b advance received"
  shows "slots_distinct (with_received W b received)"
proof -
  have "slots_distinct (at_distance W b)"
    using assms by (simp add: input_ok_def reorder_ok_def)
  with assms show ?thesis
    unfolding input_ok_def with_received_def slots_distinct_def Let_def
    by (cases received) (auto simp: fun_upd_apply, metis+)
qed


subsection \<open>One transition of the window\<close>

text \<open>The frames a span releases, and the buffer without them: the first half of \<open>finish\<close>.\<close>

definition below_span :: "RxReorderBuffer \<Rightarrow> u16 \<Rightarrow> nat \<Rightarrow> bool" where
  "below_span b span i =
     (case frames b ! i of
        None \<Rightarrow> False
      | Some f \<Rightarrow> forward_distance (next_sequence b) (mpdu_sequence f) < span)"

definition advanced :: "nat \<Rightarrow> RxReorderBuffer \<Rightarrow> u16 \<Rightarrow> RxReorderBuffer" where
  "advanced W b span = b
     \<lparr>occupied := fold (\<lambda>i occ. if below_span b span i then occ AND NOT (push_bit i 1) else occ)
                    [0..<W] (occupied b),
      frames := map (\<lambda>i. if below_span b span i then None else frames b ! i) [0..<W],
      head := relative_index W b span,
      next_sequence := wrapping_add (next_sequence b) span\<rparr>"

lemma advanced_simps [simp]:
  "starting_sequence (advanced W b span) = starting_sequence b"
  "next_sequence (advanced W b span) = wrapping_add (next_sequence b) span"
  "window (advanced W b span) = window b"
  "head (advanced W b span) = (head b + unat span) mod W"
  "frames (advanced W b span)
     = map (\<lambda>i. if below_span b span i then None else frames b ! i) [0..<W]"
  by (simp_all add: advanced_def relative_index_def)

lemma bit_occupied_advanced:
  "bit (occupied (advanced W b span)) i
     \<longleftrightarrow> bit (occupied b) i \<and> \<not> (i < W \<and> below_span b span i)"
  by (simp add: advanced_def bit_fold_clear del: push_bit_of_1)

lemma below_span_iff:
  assumes "reorder_ok W S b" "d < W"
  shows "below_span b span ((head b + d) mod W) \<longleftrightarrow> at_distance W b d \<noteq> None \<and> d < unat span"
proof -
  have "frames b ! ((head b + d) mod W) = at_distance W b d"
    using assms(2) by (simp add: at_distance_def)
  then show ?thesis
    using reorder_ok_mpdu [OF assms(1), of d]
    by (auto simp: below_span_def mpdu_ok_def word_less_nat_alt split: option.splits)
qed

text \<open>The remaining MPDUs keep their sequence numbers and move down by the span.\<close>

lemma at_distance_advanced:
  assumes ok: "reorder_ok W S b"
  shows "at_distance W (advanced W b span) d = at_distance W b (unat span + d)"
proof (cases "d < W")
  case True
  have W: "0 < W" using True by simp
  let ?e = "(unat span + d) mod W"
  let ?i = "(head b + ?e) mod W"
  have e: "?e < W" using W by simp
  have at: "frames b ! ?i = at_distance W b ?e" using W by (simp add: frames_at_distance)
  have "at_distance W (advanced W b span) d
      = (if below_span b span ?i then None else frames b ! ?i)"
    using True W
    by (simp add: at_distance_def [of W "advanced W b span"] mod_add_left_eq mod_add_right_eq
        add.assoc)
  also have "\<dots> = (if ?e < unat span then None else at_distance W b ?e)"
    using at by (auto simp: below_span_iff [OF ok e])
  also have "\<dots> = at_distance W b (unat span + d)"
  proof (cases "unat span + d < W")
    case False
    have "?e < unat span"
    proof (cases "W \<le> unat span")
      case True
      with e show ?thesis by simp
    next
      case short: False
      then have "?e = unat span + d - W"
        using False \<open>d < W\<close> by (simp add: le_mod_geq)
      with False \<open>d < W\<close> W show ?thesis by linarith
    qed
    with False show ?thesis by (simp add: at_distance_beyond)
  qed simp
  finally show ?thesis .
qed (simp add: at_distance_beyond)

lemma shape_ok_advanced:
  assumes "shape_ok W b"
  shows "shape_ok W (advanced W b span)"
proof -
  have bits: "bit (occupied b) i \<longleftrightarrow> i < W \<and> frames b ! i \<noteq> None" for i
    using assms by (simp only: shape_ok_def)
  have "bit (occupied (advanced W b span)) i
      \<longleftrightarrow> i < W \<and> frames (advanced W b span) ! i \<noteq> None" for i
    by (cases "i < W") (simp_all add: bit_occupied_advanced bits below_span_def)
  moreover have "(head b + unat span) mod W < W"
    using assms by (simp add: shape_ok_def)
  ultimately show ?thesis
    using assms unfolding shape_ok_def by simp
qed

text \<open>Storing an MPDU at a vacant distance.\<close>

definition stored :: "nat \<Rightarrow> RxReorderBuffer \<Rightarrow> nat \<Rightarrow> RxReorderMpdu \<Rightarrow> RxReorderBuffer" where
  "stored W b i f = b\<lparr>frames := (frames b)[i := Some f], occupied := occupied b OR push_bit i 1\<rparr>"

lemma shape_ok_stored: "shape_ok W b \<Longrightarrow> i < W \<Longrightarrow> shape_ok W (stored W b i f)"
  by (auto simp: shape_ok_def stored_def bit_set_mask nth_list_update)

lemma at_distance_stored:
  assumes "shape_ok W b" "k < W"
  shows "at_distance W (stored W b ((head b + k) mod W) f) = (at_distance W b)(k \<mapsto> f)"
proof
  fix d
  show "at_distance W (stored W b ((head b + k) mod W) f) d = ((at_distance W b)(k \<mapsto> f)) d"
    using assms rotation_inj [of "head b" W d k]
    by (auto simp: at_distance_def stored_def shape_ok_def nth_list_update)
qed

text \<open>\<open>finish\<close> in these terms: the buffer it leaves and the array it releases.\<close>

definition released_array ::
    "nat \<Rightarrow> RxReorderBuffer \<Rightarrow> u16 \<Rightarrow> RxReorderMpdu option \<Rightarrow> RxReorderMpdu option list" where
  "released_array W b span received =
     (let base = map (\<lambda>i. if below_span b span i then frames b ! i else None) [0..<W]
      in case received of
           None \<Rightarrow> base
         | Some f \<Rightarrow> if forward_distance (next_sequence b) (mpdu_sequence f) < span
                     then base[head b := Some f] else base)"

lemma finish_buffer:
  "snd (finish W b advance contiguous received)
     = (let b1 = advanced W b (advance + contiguous)
        in case received of
             None \<Rightarrow> b1
           | Some f \<Rightarrow>
               if forward_distance (next_sequence b) (mpdu_sequence f) < advance + contiguous then b1
               else stored W b1 (relative_index W b1
                      (forward_distance (next_sequence b1) (mpdu_sequence f))) f)"
  unfolding finish_def advanced_def stored_def below_span_def Let_def
  by (cases received) simp_all

lemma finish_release:
  "release_iter (fst (finish W b advance contiguous received))
     = flatten (sort_key (order_key (next_sequence b))
         (released_array W b (advance + contiguous) received))"
  "missing (fst (finish W b advance contiguous received))
     = advance - of_nat (length (filter
         (\<lambda>f. forward_distance (next_sequence b) (mpdu_sequence f) < advance)
         (flatten (frames b))))"
  "rejected (fst (finish W b advance contiguous received)) = None"
  "buffered (fst (finish W b advance contiguous received))
     \<longleftrightarrow> (\<exists>f. received = Some f
           \<and> \<not> forward_distance (next_sequence b) (mpdu_sequence f) < advance + contiguous)"
  unfolding finish_def released_array_def below_span_def Let_def release_order_def release_iter_def
  by (cases received; simp add: not_le)+

text \<open>The released array, read from the head, holds what lies below the span.\<close>

lemma mset_released_array:
  assumes ok: "reorder_ok W S b"
    and fresh: "\<And>f. received = Some f
      \<Longrightarrow> at_distance W b (unat (forward_distance (next_sequence b) (mpdu_sequence f))) = None"
  shows "mset (flatten (released_array W b span received))
           = mset (flatten (map (with_received W b received) [0..<unat span]))"
proof -
  have shape: "shape_ok W b" using ok by (rule reorder_ok_shape)
  then have W: "0 < W" "head b < W" by (auto simp: shape_ok_def)
  let ?g = "\<lambda>d. if d < unat span then at_distance W b d else None"
  let ?base = "map (\<lambda>i. if below_span b span i then frames b ! i else None) [0..<W]"
  have at: "?base ! ((head b + d) mod W) = ?g d" if "d < W" for d
    using that W below_span_iff [OF ok that, of span] by (simp add: at_distance_def)
  have "map ?g [0..<W] = rotate (head b) ?base"
    using at by (subst map_rotation [symmetric, of ?base W]) auto
  then have "mset (flatten ?base) = mset (flatten (map ?g [0..<W]))"
    by (simp only: mset_flatten_rotate)
  also have "flatten (map ?g [0..<W]) = flatten (map (at_distance W b) [0..<unat span])"
    by (rule flatten_upt_masked) (simp add: at_distance_beyond)
  finally have base: "mset (flatten ?base) = mset (flatten (map (at_distance W b) [0..<unat span]))" .
  show ?thesis
  proof (cases received)
    case None
    with base show ?thesis by (simp add: released_array_def with_received_def)
  next
    case (Some f)
    let ?d = "unat (forward_distance (next_sequence b) (mpdu_sequence f))"
    have new: "mset (flatten (map (with_received W b received) [0..<unat span]))
        = (if ?d < unat span then add_mset f else id) (mset (flatten ?base))"
      using Some fresh base by (simp add: with_received_def mset_flatten_upt_insert)
    have "?base ! head b = None"
      using at [of 0] W at_distance_head [OF ok] by simp
    then have "mset (flatten (?base[head b := Some f])) = add_mset f (mset (flatten ?base))"
      using W by (intro mset_flatten_update) simp_all
    with Some new show ?thesis
      by (auto simp: released_array_def word_less_nat_alt)
  qed
qed

text \<open>The sort by forward distance puts the released frames in sequence order.\<close>

lemma flatten_order_key:
  assumes "mset (flatten xs) = mset (flatten (map M [0..<n]))"
    and dist: "\<And>d f. M d = Some f \<Longrightarrow> unat (forward_distance start (mpdu_sequence f)) = d"
  shows "flatten (sort_key (order_key start) xs) = flatten (map M [0..<n])"
  using assms(1)
proof (rule flatten_sort_key_upt)
  fix d d' f f'
  assume "d < d'" "M d = Some f" "M d' = Some f'"
  then show "order_key start (Some f) < order_key start (Some f')"
    by (simp add: order_key_def word_less_nat_alt dist)
next
  fix d f
  assume "M d = Some f"
  then show "order_key start (Some f) < order_key start None"
    using forward_distance_less [of start "mpdu_sequence f"]
    by (simp add: order_key_def word_less_nat_alt)
qed

text \<open>The frames counted before the run are those at the positions below the advance.\<close>

lemma count_before_run:
  assumes "reorder_ok W S b"
  shows "length (filter (\<lambda>f. forward_distance (next_sequence b) (mpdu_sequence f) < advance)
           (flatten (frames b)))
         = length (flatten (map (at_distance W b) [0..<unat advance]))"
proof -
  let ?P = "\<lambda>x. case x of None \<Rightarrow> False
    | Some f \<Rightarrow> forward_distance (next_sequence b) (mpdu_sequence f) < advance"
  have "length (frames b) = W" using assms by (simp add: reorder_ok_def shape_ok_def)
  then have "flatten (released_array W b advance None)
      = filter (\<lambda>f. forward_distance (next_sequence b) (mpdu_sequence f) < advance)
          (flatten (frames b))"
    using flatten_select [of ?P "frames b"]
    by (simp add: released_array_def below_span_def)
  moreover have "mset (flatten (released_array W b advance None))
      = mset (flatten (map (at_distance W b) [0..<unat advance]))"
    using mset_released_array [OF assms, of None advance] by (simp add: with_received_def)
  ultimately show ?thesis by (metis size_mset)
qed

lemma length_flatten_run:
  "n \<le> run_length M i w
    \<Longrightarrow> length (flatten (map M [0..<i + n])) = length (flatten (map M [0..<i])) + n"
proof (induction n)
  case (Suc n)
  then obtain x where "M (i + n) = Some x"
    using run_length_filled [of n M i w] by auto
  with Suc show ?case by (simp add: flatten_upt_Suc del: upt_Suc)
qed simp

text \<open>
  The specification of one transition: with the received MPDU in its place, the window passes
  \<open>advance\<close> numbers and the run behind them, delivers what they hold in order, counts the empty
  ones as missing, and keeps the rest.
\<close>

definition window_transition ::
    "nat \<Rightarrow> nat \<Rightarrow> RxReorderMpdu option \<Rightarrow> RxReorderBuffer \<Rightarrow> RxReorderRelease \<Rightarrow> RxReorderBuffer
     \<Rightarrow> bool" where
  "window_transition W advance received b rel b' \<longleftrightarrow>
     (let M = with_received W b received;
          span = advance + run_length M advance (unat (window b))
      in release_iter rel = flatten (map M [0..<span])
         \<and> unat (missing rel) + length (release_iter rel) = span
         \<and> rejected rel = None
         \<and> (buffered rel \<longleftrightarrow> (\<exists>f. received = Some f
              \<and> span \<le> unat (forward_distance (next_sequence b) (mpdu_sequence f))))
         \<and> next_sequence b' = wrapping_add (next_sequence b) (of_nat span)
         \<and> window b' = window b \<and> starting_sequence b' = starting_sequence b
         \<and> at_distance W b' = (\<lambda>d. M (span + d)))"

lemma stored_simps [simp]:
  "starting_sequence (stored W b i f) = starting_sequence b"
  "next_sequence (stored W b i f) = next_sequence b"
  "window (stored W b i f) = window b"
  by (simp_all add: stored_def)

lemma finish_frame:
  "next_sequence (snd (finish W b advance contiguous received))
     = wrapping_add (next_sequence b) (advance + contiguous)"
  "window (snd (finish W b advance contiguous received)) = window b"
  "starting_sequence (snd (finish W b advance contiguous received)) = starting_sequence b"
  by (simp_all add: finish_buffer Let_def split: option.split)

lemma finish_positions:
  assumes input: "input_ok W S b (unat advance) received"
    and span: "unat advance \<le> unat (advance + contiguous)" "unat (advance + contiguous) < 4096"
  shows "shape_ok W (snd (finish W b advance contiguous received))
    \<and> at_distance W (snd (finish W b advance contiguous received))
      = (\<lambda>d. with_received W b received (unat (advance + contiguous) + d))"
proof (cases received)
  case None
  with input show ?thesis
    by (auto simp: input_ok_def finish_buffer Let_def with_received_def shape_ok_advanced
        at_distance_advanced reorder_ok_shape)
next
  case (Some f)
  let ?span = "advance + contiguous"
  let ?b1 = "advanced W b ?span"
  let ?d = "unat (forward_distance (next_sequence b) (mpdu_sequence f))"
  have ok: "reorder_ok W S b" using input by (simp add: input_ok_def)
  then have shape: "shape_ok W b" by (rule reorder_ok_shape)
  then have win: "unat (window b) \<le> W" by (simp add: shape_ok_def)
  have f: "sequence_ok (mpdu_sequence f)" "?d < unat advance + unat (window b)"
    using input Some by (auto simp: input_ok_def Let_def)
  show ?thesis
  proof (cases "?d < unat ?span")
    case True
    with Some ok shape show ?thesis
      by (auto simp: finish_buffer Let_def with_received_def shape_ok_advanced
          at_distance_advanced word_less_nat_alt)
  next
    case False
    let ?k = "unat (forward_distance (next_sequence ?b1) (mpdu_sequence f))"
    have k: "?k = ?d - unat ?span"
      using False shape f(1) by (simp add: unat_forward_distance_shift shape_ok_def)
    then have kW: "?k < W"
      using f(2) span(1) False win by linarith
    have b': "snd (finish W b advance contiguous received) = stored W ?b1 ((head ?b1 + ?k) mod W) f"
      using Some False by (simp add: finish_buffer Let_def word_less_nat_alt relative_index_def)
    have "(\<lambda>d. ((at_distance W b)(?d \<mapsto> f)) (unat ?span + d))
        = (\<lambda>d. at_distance W b (unat ?span + d))(?k \<mapsto> f)"
      using False k by (auto simp: fun_eq_iff)
    moreover have "at_distance W ?b1 = (\<lambda>d. at_distance W b (unat ?span + d))"
      by (rule ext) (rule at_distance_advanced [OF ok])
    moreover have "shape_ok W ?b1" by (rule shape_ok_advanced [OF shape])
    ultimately show ?thesis
      using kW Some unfolding b'
      by (simp add: shape_ok_stored at_distance_stored with_received_def del: advanced_simps)
  qed
qed

text \<open>The run ends at a vacant position, which becomes the new window start.\<close>

lemma run_end_vacant:
  assumes "input_ok W S b advance received"
  shows "with_received W b received
           (advance + run_length (with_received W b received) advance (unat (window b))) = None"
    (is "?M (advance + ?run) = None")
proof (cases "?run < unat (window b)")
  case True
  then show ?thesis by (rule run_length_stops)
next
  case False
  then have "?run = unat (window b)"
    using run_length_le [of ?M advance "unat (window b)"] by simp
  then show ?thesis
    using with_received_distance(4) [OF assms, of "advance + ?run"]
    by (cases "?M (advance + ?run)") auto
qed

lemma moved_window_ok:
  assumes input: "input_ok W S b advance received" and shape': "shape_ok W b'"
    and at: "at_distance W b' = (\<lambda>d. with_received W b received (span + d))"
    and nxt: "next_sequence b' = wrapping_add (next_sequence b) (of_nat span)"
    and win: "window b' = window b" and span: "advance \<le> span"
    and vacant: "with_received W b received span = None"
  shows "reorder_ok W S b'"
proof -
  let ?M = "with_received W b received"
  have start: "sequence_ok (next_sequence b)"
    using input by (simp add: input_ok_def reorder_ok_def shape_ok_def)
  have "mpdu_ok S (next_sequence b') (unat (window b')) d f" if "?M (span + d) = Some f" for d f
  proof -
    note f = with_received_distance [OF input that]
    have "unat (forward_distance (next_sequence b') (mpdu_sequence f)) = d"
      using sn.dist_shift [OF start f(1), of span] f(2) by (simp add: nxt)
    moreover have "d \<noteq> 0" using vacant that by (cases d) auto
    moreover have "d < unat (window b')" using f(4) span by (simp add: win)
    ultimately show ?thesis using f(1,3) by (simp add: mpdu_ok_def)
  qed
  moreover have "slots_distinct (\<lambda>d. ?M (span + d))"
    using with_received_slots [OF input] by (force simp: slots_distinct_def)
  ultimately show ?thesis
    using shape' by (simp add: reorder_ok_def at)
qed

lemma finish_transition:
  assumes input: "input_ok W S b (unat advance) received"
    and run: "unat contiguous
      = run_length (with_received W b received) (unat advance) (unat (window b))"
  shows "window_transition W (unat advance) received b (fst (finish W b advance contiguous received))
           (snd (finish W b advance contiguous received))
         \<and> reorder_ok W S (snd (finish W b advance contiguous received))"
proof -
  let ?M = "with_received W b received"
  let ?rel = "fst (finish W b advance contiguous received)"
  let ?b' = "snd (finish W b advance contiguous received)"
  have ok: "reorder_ok W S b" and adv: "unat advance < 2048" using input by (auto simp: input_ok_def)
  then have win: "unat (window b) \<le> 64" by (auto simp: reorder_ok_def shape_ok_def)
  have span: "unat (advance + contiguous) = unat advance + unat contiguous"
    using run run_length_le [of ?M "unat advance" "unat (window b)"] adv win
    by (simp add: unat_word_ariths)
  then have small: "unat (advance + contiguous) < 4096"
    using run run_length_le [of ?M "unat advance" "unat (window b)"] adv win by simp
  have pos: "shape_ok W ?b'" "at_distance W ?b' = (\<lambda>d. ?M (unat (advance + contiguous) + d))"
    using finish_positions [OF input _ small] span by auto
  have "reorder_ok W S ?b'"
  proof (rule moved_window_ok [OF input pos])
    show "next_sequence ?b' = wrapping_add (next_sequence b) (of_nat (unat (advance + contiguous)))"
      by (simp only: finish_frame wrapping_add_of_nat)
    show "?M (unat (advance + contiguous)) = None"
      using run_end_vacant [OF input] by (simp only: span run)
  qed (simp_all add: finish_frame span)
  moreover have rel: "release_iter ?rel = flatten (map ?M [0..<unat (advance + contiguous)])"
    unfolding finish_release(1)
  proof (rule flatten_order_key)
    show "mset (flatten (released_array W b (advance + contiguous) received))
        = mset (flatten (map ?M [0..<unat (advance + contiguous)]))"
      using input by (intro mset_released_array [OF ok]) (auto simp: input_ok_def Let_def)
  qed (rule with_received_distance(2) [OF input])
  moreover have "unat (missing ?rel) + length (release_iter ?rel) = unat advance + unat contiguous"
  proof -
    have below: "map ?M [0..<unat advance] = map (at_distance W b) [0..<unat advance]"
      using input by (auto simp: input_ok_def with_received_def Let_def split: option.splits)
    let ?n = "length (flatten (map (at_distance W b) [0..<unat advance]))"
    have n: "?n \<le> unat advance"
      using length_flatten_le [of "map (at_distance W b) [0..<unat advance]"] by simp
    then have "unat (missing ?rel) = unat advance - ?n"
      using adv by (simp add: finish_release(2) count_before_run [OF ok] unat_sub word_le_nat_alt
          unat_of_nat)
    moreover have "length (release_iter ?rel) = ?n + unat contiguous"
      unfolding rel span
      using length_flatten_run [of "unat contiguous" ?M "unat advance" "unat (window b)"] run below
      by simp
    ultimately show ?thesis using n by simp
  qed
  moreover have "next_sequence ?b'
      = wrapping_add (next_sequence b) (of_nat (unat advance + unat contiguous))"
    by (simp add: finish_frame)
  ultimately show ?thesis
    using pos span unfolding window_transition_def Let_def
    by (simp add: finish_release(3,4) finish_frame(2,3) word_less_nat_alt not_less flip: run)
qed

subsection \<open>The operations\<close>

lemma check_received_slot_Ok:
  assumes "reorder_ok W S b"
  shows "check_received_slot S b slot = Ok u \<longleftrightarrow>
    S \<le> 256 \<and> unat slot < S \<and> (\<forall>d f. at_distance W b d = Some f \<longrightarrow> mpdu_slot f \<noteq> slot)"
proof -
  have "list_ex (\<lambda>owned. mpdu_slot owned = slot) (flatten (frames b))
      \<longleftrightarrow> (\<exists>d f. at_distance W b d = Some f \<and> mpdu_slot f = slot)"
    unfolding list_ex_iff Bex_def set_frames [OF reorder_ok_shape [OF assms]] by blast
  then show ?thesis
    by (auto simp: check_received_slot_def check_slot_def)
qed

text \<open>The numbers the window must pass to make room for the distance \<open>d\<close>.\<close>

definition ingest_advance :: "RxReorderBuffer \<Rightarrow> RxReorderMpdu \<Rightarrow> nat" where
  "ingest_advance b f =
     unat (forward_distance (next_sequence b) (mpdu_sequence f)) + 1 - unat (window b)"

lemma unat_ingest_advance:
  "unat (if window b \<le> forward_distance (next_sequence b) (mpdu_sequence f)
         then forward_distance (next_sequence b) (mpdu_sequence f) - window b + 1 else 0)
     = ingest_advance b f" (is "unat (if _ \<le> ?d then _ else _) = _")
proof (cases "window b \<le> ?d")
  case True
  moreover have "unat (?d - window b + 1) = unat (?d - window b) + 1"
    using True forward_distance_less [of "next_sequence b" "mpdu_sequence f"]
    by (simp add: unat_word_ariths unat_sub word_le_nat_alt)
  ultimately show ?thesis
    by (simp add: ingest_advance_def unat_sub word_le_nat_alt)
qed (simp add: ingest_advance_def word_le_nat_alt)

lemma ingest_input_ok:
  assumes ok: "reorder_ok W S b" and f: "sequence_ok (mpdu_sequence f)"
    and slot: "check_received_slot S b (mpdu_slot f) = Ok u"
    and ahead: "\<not> HALF_SPACE \<le> forward_distance (next_sequence b) (mpdu_sequence f)"
    and fresh: "\<not> has_sequence W b (mpdu_sequence f)"
  shows "input_ok W S b (ingest_advance b f) (Some f)"
proof -
  let ?d = "unat (forward_distance (next_sequence b) (mpdu_sequence f))"
  have "?d < 2048" using ahead by (simp add: HALF_SPACE_eq word_le_nat_alt)
  moreover have "at_distance W b ?d = None"
    using fresh by (simp add: has_sequence_iff [OF ok f])
  moreover have "0 < unat (window b)" using ok by (simp only: reorder_ok_def shape_ok_def)
  ultimately show ?thesis
    using ok f slot unfolding check_received_slot_Ok [OF ok]
    by (simp add: input_ok_def ingest_advance_def Let_def) (use le_diff_conv in force)
qed

text \<open>Every outcome of \<open>ingest\<close>.\<close>

lemma ingest_cases:
  assumes ok: "reorder_ok W S b" and f: "sequence_ok (mpdu_sequence f)"
  obtains
    (slot) e where "check_received_slot S b (mpdu_slot f) = Err e" "ingest W S b f = (Err e, b)"
  | (stale) "check_received_slot S b (mpdu_slot f) = Ok ()"
      "HALF_SPACE \<le> forward_distance (next_sequence b) (mpdu_sequence f)"
      "ingest W S b f = (Ok ((RxReorderRelease_empty W)\<lparr>rejected := Some f\<rparr>), b)"
  | (duplicate) "check_received_slot S b (mpdu_slot f) = Ok ()"
      "\<not> HALF_SPACE \<le> forward_distance (next_sequence b) (mpdu_sequence f)"
      "has_sequence W b (mpdu_sequence f)"
      "ingest W S b f = (Err (DuplicateSequence (mpdu_sequence f)), b)"
  | (accept) rel b' where "check_received_slot S b (mpdu_slot f) = Ok ()"
      "\<not> HALF_SPACE \<le> forward_distance (next_sequence b) (mpdu_sequence f)"
      "\<not> has_sequence W b (mpdu_sequence f)"
      "ingest W S b f = (Ok rel, b')" "input_ok W S b (ingest_advance b f) (Some f)"
      "window_transition W (ingest_advance b f) (Some f) b rel b'" "reorder_ok W S b'"
proof -
  let ?d = "forward_distance (next_sequence b) (mpdu_sequence f)"
  consider e where "check_received_slot S b (mpdu_slot f) = Err e"
    | "check_received_slot S b (mpdu_slot f) = Ok ()" "HALF_SPACE \<le> ?d"
    | "check_received_slot S b (mpdu_slot f) = Ok ()" "\<not> HALF_SPACE \<le> ?d"
      "has_sequence W b (mpdu_sequence f)"
    | "check_received_slot S b (mpdu_slot f) = Ok ()" "\<not> HALF_SPACE \<le> ?d"
      "\<not> has_sequence W b (mpdu_sequence f)"
    by (cases "check_received_slot S b (mpdu_slot f)") auto
  then show thesis
  proof cases
    case 4
    let ?a = "if window b \<le> ?d then ?d - window b + 1 else 0"
    let ?c = "contiguous_from W b (wrapping_add (next_sequence b) ?a) (Some (mpdu_sequence f))"
    have input: "input_ok W S b (unat ?a) (Some f)"
      unfolding unat_ingest_advance using 4 by (intro ingest_input_ok [OF ok f])
    have "unat ?c = run_length (with_received W b (Some f)) (unat ?a) (unat (window b))"
      using unat_contiguous_from [OF ok, of ?a "Some f"] input f by (simp add: input_ok_def)
    from finish_transition [OF input this] input show thesis
      using accept [OF 4, of "fst (finish W b ?a ?c (Some f))" "snd (finish W b ?a ?c (Some f))"] 4
      unfolding unat_ingest_advance by (simp add: ingest_def Let_def split_beta)
  qed (use slot stale duplicate in \<open>simp_all add: ingest_def Let_def\<close>)
qed

text \<open>A transition with no received MPDU: a gap timeout or a moved window.\<close>

lemma transition_without_input:
  assumes ok: "reorder_ok W S b" and adv: "unat advance < 2048"
  defines "r \<equiv> finish W b advance
             (contiguous_from W b (wrapping_add (next_sequence b) advance) None) None"
  shows "window_transition W (unat advance) None b (fst r) (snd r)" and "reorder_ok W S (snd r)"
proof -
  have "input_ok W S b (unat advance) None" using ok adv by (simp add: input_ok_def)
  moreover have "unat (contiguous_from W b (wrapping_add (next_sequence b) advance) None)
      = run_length (with_received W b None) (unat advance) (unat (window b))"
    using unat_contiguous_from [OF ok adv, of None] by simp
  ultimately show "window_transition W (unat advance) None b (fst r) (snd r)"
    and "reorder_ok W S (snd r)"
    using finish_transition unfolding r_def by blast+
qed

lemma window_small: "reorder_ok W S b \<Longrightarrow> unat (window b) \<le> 64"
  by (simp add: reorder_ok_def shape_ok_def)

lemma has_sequence_offset:
  assumes ok: "reorder_ok W S b" and "d < unat (window b)"
  shows "has_sequence W b (wrapping_add (next_sequence b) (of_nat d)) \<longleftrightarrow> at_distance W b d \<noteq> None"
proof -
  have "sequence_ok (next_sequence b)" using ok by (simp add: reorder_ok_def shape_ok_def)
  then have "unat (forward_distance (next_sequence b) (wrapping_add (next_sequence b) (of_nat d))) = d"
    using sn.dist_advance [of "next_sequence b" d] window_small [OF ok] assms(2) by simp
  then show ?thesis by (simp add: has_sequence_iff [OF ok])
qed

lemma expire_gap_cases:
  assumes ok: "reorder_ok W S b"
  obtains
    (idle) "\<And>d. at_distance W b d = None" "expire_gap W b = (RxReorderRelease_empty W, b)"
  | (gap) d rel b' where "at_distance W b d \<noteq> None" "\<And>d'. d' < d \<Longrightarrow> at_distance W b d' = None"
      "expire_gap W b = (rel, b')" "d < unat (window b)"
      "window_transition W d None b rel b'" "reorder_ok W S b'"
proof (cases "find (\<lambda>distance. has_sequence W b (wrapping_add (next_sequence b) distance))
    (map of_nat [0..<unat (window b)])")
  case None
  then have "\<not> has_sequence W b (wrapping_add (next_sequence b) (of_nat d))"
    if "d < unat (window b)" for d
    using that by (auto simp: find_None_iff)
  then have "at_distance W b d = None" for d
    using has_sequence_offset [OF ok, of d] at_distance_window [OF ok, of d]
    by (cases "d < unat (window b)") auto
  moreover have "expire_gap W b = (RxReorderRelease_empty W, b)"
    using None by (simp add: expire_gap_def)
  ultimately show thesis by (rule idle)
next
  case (Some w)
  then obtain d where d: "d < unat (window b)" "w = of_nat d"
    and hit: "has_sequence W b (wrapping_add (next_sequence b) (of_nat d))"
    and first: "\<And>j. j < d \<Longrightarrow> \<not> has_sequence W b (wrapping_add (next_sequence b) (of_nat j))"
    by (fastforce simp: find_Some_iff)
  let ?r = "finish W b w (contiguous_from W b (wrapping_add (next_sequence b) w) None) None"
  have w: "unat w = d" using d window_small [OF ok] by (simp add: unat_of_nat)
  show thesis
  proof (rule gap [of d "fst ?r" "snd ?r"])
    show "at_distance W b d \<noteq> None" using hit by (simp add: has_sequence_offset [OF ok d(1)])
    show "at_distance W b d' = None" if "d' < d" for d'
      using first [OF that] has_sequence_offset [OF ok, of d'] that d(1) by simp
    show "expire_gap W b = (fst ?r, snd ?r)" using Some by (simp add: expire_gap_def Let_def)
    show "window_transition W d None b (fst ?r) (snd ?r)" "reorder_ok W S (snd ?r)"
      using transition_without_input [OF ok, of w] w d window_small [OF ok] by auto
  qed (rule d(1))
qed

lemma move_window_to_cases:
  assumes ok: "reorder_ok W S b" and s: "sequence_ok s"
  obtains
    (ignored) "s = next_sequence b \<or> HALF_SPACE \<le> forward_distance (next_sequence b) s"
      "move_window_to W b s = (None, b)"
  | (moved) rel b' where "s \<noteq> next_sequence b"
      "\<not> HALF_SPACE \<le> forward_distance (next_sequence b) s"
      "move_window_to W b s = (Some rel, b')"
      "window_transition W (unat (forward_distance (next_sequence b) s)) None b rel b'"
      "reorder_ok W S b'"
proof -
  let ?d = "forward_distance (next_sequence b) s"
  have nxt: "sequence_ok (next_sequence b)" using ok by (simp add: reorder_ok_def shape_ok_def)
  have zero: "?d = 0 \<longleftrightarrow> s = next_sequence b"
    using forward_distance_eq_iff [OF nxt s nxt] nxt by simp
  have s': "wrapping_add (next_sequence b) ?d = s"
    using nxt s by (rule wrapping_add_forward_distance)
  show thesis
  proof (cases "?d = 0 \<or> HALF_SPACE \<le> ?d")
    case True
    then show thesis by (intro ignored) (auto simp: move_window_to_def zero)
  next
    case False
    then have "unat ?d < 2048" by (simp add: HALF_SPACE_eq word_le_nat_alt)
    then show thesis
      using False zero transition_without_input [OF ok, of ?d] unfolding s'
      by (intro moved) (auto simp: move_window_to_def Let_def split_beta)
  qed
qed

lemma reorder_stop_spec:
  assumes ok: "reorder_ok W S b"
  shows "release_iter (fst (reorder_stop W b)) = held W b"
    and "snd (reorder_stop W b) = b\<lparr>frames := replicate W None, occupied := 0\<rparr>"
    and "at_distance W (snd (reorder_stop W b)) = Map.empty"
proof -
  have shape: "shape_ok W b" using ok by (rule reorder_ok_shape)
  have "flatten (sort_key (order_key (next_sequence b)) (frames b)) = held W b"
    unfolding held_def
    using mset_held [OF shape] reorder_ok_mpdu [OF ok]
    by (intro flatten_order_key) (auto simp: held_def mpdu_ok_def)
  then show "release_iter (fst (reorder_stop W b)) = held W b"
    by (simp add: reorder_stop_def Let_def release_order_def release_iter_def)
  show "at_distance W (snd (reorder_stop W b)) = Map.empty"
    by (auto simp: at_distance_def reorder_stop_def Let_def fun_eq_iff)
qed (simp add: reorder_stop_def Let_def)

lemma empty_window_ok:
  assumes "shape_ok W b" "sequence_ok s"
  shows "reorder_ok W S (b\<lparr>frames := replicate W None, occupied := 0, next_sequence := s\<rparr>)"
  using assms by (auto simp: reorder_ok_def shape_ok_def at_distance_def slots_distinct_def)

lemma resynchronize_cases:
  assumes ok: "reorder_ok W S b" and s: "sequence_ok s"
  obtains
    (ignored) "resynchronize_stale_initial_ampdu W b s u = (None, b)"
  | (rebased) rel start where
      "resynchronize_stale_initial_ampdu W b s u
         = (Some (rel, start), (snd (reorder_stop W b))\<lparr>next_sequence := start\<rparr>)"
      "release_iter rel = held W b" "sequence_ok start"
      "reorder_ok W S ((snd (reorder_stop W b))\<lparr>next_sequence := start\<rparr>)"
proof (cases "forward_distance (next_sequence b) s < HALF_SPACE")
  case True
  then show thesis by (intro ignored) (simp add: resynchronize_stale_initial_ampdu_def)
next
  case False
  let ?start = "if u \<or> HALF_SPACE \<le> forward_distance (starting_sequence b) s
    then (if u then s else wrapping_sub s (window b - 1)) else starting_sequence b"
  have shape: "shape_ok W b" using ok by (rule reorder_ok_shape)
  then have start: "sequence_ok ?start" using s by (auto simp: shape_ok_def)
  have "(snd (reorder_stop W b))\<lparr>next_sequence := ?start\<rparr>
      = b\<lparr>frames := replicate W None, occupied := 0, next_sequence := ?start\<rparr>"
    by (simp add: reorder_stop_spec(2) [OF ok])
  then show thesis
    using False start empty_window_ok [OF shape start] reorder_stop_spec(1) [OF ok]
    by (intro rebased [of "fst (reorder_stop W b)" ?start])
       (auto simp: resynchronize_stale_initial_ampdu_def Let_def split_beta)
qed

lemma try_ingest_immediate_cases:
  obtains
    (refused) r where "try_ingest_immediate W S b f = (r, b)" "\<And>g. r \<noteq> Ok (Some g)"
  | (immediate) "try_ingest_immediate W S b f
        = (Ok (Some f), b\<lparr>head := relative_index W b 1,
                          next_sequence := wrapping_add (next_sequence b) 1\<rparr>)"
      "check_received_slot S b (mpdu_slot f) = Ok ()" "mpdu_sequence f = next_sequence b"
      "\<not> has_sequence W b (wrapping_add (next_sequence b) 1)"
proof (cases "check_received_slot S b (mpdu_slot f)")
  case (Err e)
  then show thesis by (intro refused [of "Err e"]) (simp_all add: try_ingest_immediate_def)
next
  case (Ok u)
  show thesis
  proof (cases "mpdu_sequence f = next_sequence b
      \<and> \<not> has_sequence W b (wrapping_add (next_sequence b) 1)")
    case True
    with Ok show thesis by (intro immediate) (simp_all add: try_ingest_immediate_def)
  next
    case False
    with Ok show thesis
      by (intro refused [of "Ok None"]) (auto simp: try_ingest_immediate_def Let_def)
  qed
qed

text \<open>
  The fast path is the general one: when it takes an MPDU, \<open>ingest\<close> would have released exactly
  that MPDU and left the same buffer.
\<close>

lemma ingest_immediate:
  assumes ok: "reorder_ok W S b" and slot: "check_received_slot S b (mpdu_slot f) = Ok ()"
    and seq: "mpdu_sequence f = next_sequence b"
    and succ: "\<not> has_sequence W b (wrapping_add (next_sequence b) 1)"
  obtains rel where
    "ingest W S b f = (Ok rel, b\<lparr>head := relative_index W b 1,
                                 next_sequence := wrapping_add (next_sequence b) 1\<rparr>)"
    "release_iter rel = [f]" "missing rel = 0" "rejected rel = None" "\<not> buffered rel"
proof -
  have shape: "shape_ok W b" using ok by (rule reorder_ok_shape)
  then have nxt: "sequence_ok (next_sequence b)" and win: "0 < unat (window b)" "0 < W"
    and len: "length (frames b) = W"
    by (simp_all only: shape_ok_def)
  have vacant: "\<not> below_span b 1 i" if "i < W" for i
  proof -
    have "head b < W" using shape by (simp only: shape_ok_def)
    from rotation_surj [OF this that] obtain d where "d < W" "(head b + d) mod W = i" by blast
    then show ?thesis
      using below_span_iff [OF ok, of d 1] at_distance_head [OF ok] by (cases d) auto
  qed
  have "fold (\<lambda>i occ. if below_span b 1 i then occ AND NOT (push_bit i 1) else occ) [0..<W]
      (occupied b) = occupied b"
    by (rule bit_word_eqI) (auto simp: bit_fold_clear vacant simp del: push_bit_of_1)
  moreover have "map (\<lambda>i. if below_span b 1 i then None else frames b ! i) [0..<W] = frames b"
    using vacant len by (intro nth_equalityI) simp_all
  ultimately have adv: "advanced W b 1 = b\<lparr>head := relative_index W b 1,
      next_sequence := wrapping_add (next_sequence b) 1\<rparr>"
    by (simp only: advanced_def) simp
  have d: "forward_distance (next_sequence b) (mpdu_sequence f) = 0" using nxt seq by simp
  have one: "at_distance W b 1 = None"
    using has_sequence_offset [OF ok, of 1] at_distance_window [OF ok, of 1] succ
    by (cases "1 < unat (window b)") auto
  have start: "wrapping_add (next_sequence b) 0 = next_sequence b"
    using wrapping_add_forward_distance [OF nxt nxt] nxt by simp
  have "unat (contiguous_from W b (next_sequence b) (Some (mpdu_sequence f)))
      = run_length (with_received W b (Some f)) 0 (unat (window b))"
    using unat_contiguous_from [OF ok, of 0 "Some f"] nxt seq by (simp add: start)
  also have "\<dots> = 1"
  proof -
    obtain n where "unat (window b) = Suc n" using win by (cases "unat (window b)") auto
    then show ?thesis
      using one by (cases n) (simp_all add: run_length_def with_received_def d upt_rec)
  qed
  finally have c: "contiguous_from W b (next_sequence b) (Some (mpdu_sequence f)) = 1"
    by (simp add: word_unat_eq_iff)
  have fresh: "\<not> has_sequence W b (mpdu_sequence f)"
    using has_sequence_iff [OF ok nxt] at_distance_head [OF ok] nxt seq by simp
  show thesis
  proof (rule ingest_cases [OF ok, of f])
    fix rel b'
    assume ing: "ingest W S b f = (Ok rel, b')"
      and tr: "window_transition W (ingest_advance b f) (Some f) b rel b'"
    have a: "ingest_advance b f = 0" using win d by (simp add: ingest_advance_def)
    have b': "b' = advanced W b 1"
      using ing slot fresh d win
      by (simp add: ingest_def Let_def HALF_SPACE_eq split_beta word_le_nat_alt start c
          finish_buffer)
    have "release_iter rel = [f]" "unat (missing rel) = 0" "rejected rel = None" "\<not> buffered rel"
      using tr \<open>run_length _ 0 _ = 1\<close> d
      by (auto simp: window_transition_def Let_def a with_received_def)
    then show thesis
      using that [of rel] ing b' adv by (simp add: unat_eq_0)
  qed (use slot fresh d nxt seq in \<open>simp_all add: HALF_SPACE_eq\<close>)
qed

subsection \<open>Runs of the buffer\<close>

text \<open>
  One call of the owner.  A received MPDU and a BlockAckReq name their sequence number through the
  Sequence Control field they carried.  \<open>accepted\<close> is the MPDU the buffer took custody of,
  \<open>released\<close> what it handed back, \<open>lost\<close> the sequence numbers it reported missing.
\<close>

datatype ReorderOp =
    Ingest u16 u8
  | IngestImmediate u16 u8
  | ExpireGap
  | MoveWindowTo u16
  | Stop
  | Resynchronize u16 bool

record ReorderOutput =
  accepted :: "RxReorderMpdu list"
  released :: "RxReorderMpdu list"
  lost :: nat

definition received_mpdu :: "u16 \<Rightarrow> u8 \<Rightarrow> RxReorderMpdu" where
  "received_mpdu sc slot = \<lparr>mpdu_sequence = from_sequence_control sc, mpdu_slot = slot\<rparr>"

definition release_output :: "RxReorderMpdu list \<Rightarrow> RxReorderRelease \<Rightarrow> ReorderOutput" where
  "release_output acc rel =
     \<lparr>accepted = acc, released = release_iter rel, lost = unat (missing rel)\<rparr>"

definition no_output :: ReorderOutput where
  "no_output = \<lparr>accepted = [], released = [], lost = 0\<rparr>"

fun reorder_step ::
    "nat \<Rightarrow> nat \<Rightarrow> RxReorderBuffer \<Rightarrow> ReorderOp \<Rightarrow> ReorderOutput \<times> RxReorderBuffer" where
  "reorder_step W S b (Ingest sc slot) =
     (let f = received_mpdu sc slot
      in case ingest W S b f of
           (Err e, b') \<Rightarrow> (no_output, b')
         | (Ok rel, b') \<Rightarrow> (release_output (if rejected rel = None then [f] else []) rel, b'))"
| "reorder_step W S b (IngestImmediate sc slot) =
     (case try_ingest_immediate W S b (received_mpdu sc slot) of
        (Ok (Some f), b') \<Rightarrow> (\<lparr>accepted = [f], released = [f], lost = 0\<rparr>, b')
      | (_, b') \<Rightarrow> (no_output, b'))"
| "reorder_step W S b ExpireGap =
     (case expire_gap W b of (rel, b') \<Rightarrow> (release_output [] rel, b'))"
| "reorder_step W S b (MoveWindowTo ssc) =
     (case move_window_to W b (from_sequence_control ssc) of
        (None, b') \<Rightarrow> (no_output, b')
      | (Some rel, b') \<Rightarrow> (release_output [] rel, b'))"
| "reorder_step W S b Stop =
     (case reorder_stop W b of (rel, b') \<Rightarrow> (release_output [] rel, b'))"
| "reorder_step W S b (Resynchronize sc u) =
     (case resynchronize_stale_initial_ampdu W b (from_sequence_control sc) u of
        (None, b') \<Rightarrow> (no_output, b')
      | (Some (rel, _), b') \<Rightarrow> (release_output [] rel, b'))"

abbreviation reorder_next :: "nat \<Rightarrow> nat \<Rightarrow> RxReorderBuffer \<Rightarrow> ReorderOp \<Rightarrow> RxReorderBuffer" where
  "reorder_next W S b op \<equiv> snd (reorder_step W S b op)"

text \<open>Every step is idle, a window transition, or a complete release.\<close>

lemma release_iter_empty [simp]:
  "release_iter (RxReorderRelease_empty W) = []"
  "release_iter ((RxReorderRelease_empty W)\<lparr>rejected := r\<rparr>) = []"
  "missing (RxReorderRelease_empty W) = 0"
  by (simp_all add: release_iter_def RxReorderRelease_empty_def)

lemma received_mpdu_ok [simp]: "sequence_ok (mpdu_sequence (received_mpdu sc slot))"
  by (simp add: received_mpdu_def)

lemma missing_stop [simp]: "missing (fst (reorder_stop W b)) = 0"
  by (simp add: reorder_stop_def Let_def release_order_def RxReorderRelease_empty_def)

lemma window_transition_rejected: "window_transition W a r b rel b' \<Longrightarrow> rejected rel = None"
  by (simp add: window_transition_def Let_def)

lemma reorder_step_cases [consumes 1]:
  assumes ok: "reorder_ok W S b"
  obtains
    (idle) "reorder_step W S b op = (no_output, b)"
  | (window) advance received rel b' where
      "reorder_step W S b op
         = (release_output (case received of None \<Rightarrow> [] | Some f \<Rightarrow> [f]) rel, b')"
      "input_ok W S b advance received" "window_transition W advance received b rel b'"
      "reorder_ok W S b'"
  | (drain) rel start where "op = Stop \<or> (\<exists>sc u. op = Resynchronize sc u)"
      "reorder_step W S b op
         = (release_output [] rel, (snd (reorder_stop W b))\<lparr>next_sequence := start\<rparr>)"
      "release_iter rel = held W b"
      "reorder_ok W S ((snd (reorder_stop W b))\<lparr>next_sequence := start\<rparr>)"
proof (cases op)
  case (Ingest sc slot)
  let ?f = "received_mpdu sc slot"
  show thesis
  proof (rule ingest_cases [OF ok received_mpdu_ok [of sc slot]])
    fix rel b'
    assume "ingest W S b ?f = (Ok rel, b')" "input_ok W S b (ingest_advance b ?f) (Some ?f)"
      "window_transition W (ingest_advance b ?f) (Some ?f) b rel b'" "reorder_ok W S b'"
    then show thesis
      using Ingest window [of "Some ?f" rel b' "ingest_advance b ?f"]
      by (simp add: window_transition_rejected)
  qed (use Ingest idle in \<open>simp_all add: no_output_def release_output_def RxReorderRelease_empty_def
         release_iter_def\<close>)
next
  case (IngestImmediate sc slot)
  let ?f = "received_mpdu sc slot"
  show thesis
  proof (cases rule: try_ingest_immediate_cases [of W S b ?f])
    case (refused r)
    then have "reorder_step W S b op = (no_output, b)"
      using IngestImmediate by (auto split: result.splits option.splits)
    then show thesis by (rule idle)
  next
    case immediate
    obtain rel where rel: "ingest W S b ?f = (Ok rel, snd (try_ingest_immediate W S b ?f))"
      "release_iter rel = [?f]" "missing rel = 0" "rejected rel = None" "\<not> buffered rel"
      using ingest_immediate [OF ok immediate(2-4)] immediate(1) by auto
    show thesis
    proof (rule ingest_cases [OF ok received_mpdu_ok [of sc slot]])
      fix rel' b'
      assume "ingest W S b ?f = (Ok rel', b')" "input_ok W S b (ingest_advance b ?f) (Some ?f)"
        "window_transition W (ingest_advance b ?f) (Some ?f) b rel' b'" "reorder_ok W S b'"
      then show thesis
        using rel IngestImmediate immediate(1) window [of "Some ?f" rel b' "ingest_advance b ?f"]
        by (simp add: release_output_def)
    qed (use rel in \<open>auto simp: RxReorderRelease_empty_def\<close>)
  qed
next
  case ExpireGap
  show thesis
  proof (rule expire_gap_cases [OF ok])
    fix d rel b'
    assume *: "expire_gap W b = (rel, b')" "d < unat (window b)"
      "window_transition W d None b rel b'" "reorder_ok W S b'"
    then have "input_ok W S b d None" using ok window_small [OF ok] by (simp add: input_ok_def)
    with * show thesis using ExpireGap window [of None rel b' d] by simp
  qed (use ExpireGap idle in \<open>simp add: no_output_def release_output_def\<close>)
next
  case (MoveWindowTo ssc)
  let ?s = "from_sequence_control ssc"
  have s: "sequence_ok ?s" by simp
  show thesis
  proof (rule move_window_to_cases [OF ok s])
    fix rel b'
    let ?d = "unat (forward_distance (next_sequence b) ?s)"
    assume *: "\<not> HALF_SPACE \<le> forward_distance (next_sequence b) ?s"
      "move_window_to W b ?s = (Some rel, b')" "window_transition W ?d None b rel b'"
      "reorder_ok W S b'"
    then have "input_ok W S b ?d None"
      using ok by (simp add: input_ok_def HALF_SPACE_eq word_le_nat_alt)
    with * show thesis using MoveWindowTo window [of None rel b' ?d] by simp
  qed (use MoveWindowTo idle in simp)
next
  case Stop
  have "snd (reorder_stop W b) = (snd (reorder_stop W b))\<lparr>next_sequence := next_sequence b\<rparr>"
    by (simp add: reorder_stop_spec(2) [OF ok])
  moreover have "reorder_ok W S ((snd (reorder_stop W b))\<lparr>next_sequence := next_sequence b\<rparr>)"
    using empty_window_ok [OF reorder_ok_shape [OF ok], of "next_sequence b"] ok
    by (simp add: reorder_stop_spec(2) [OF ok] reorder_ok_def shape_ok_def)
  ultimately show thesis
    using Stop drain [of "fst (reorder_stop W b)" "next_sequence b"] reorder_stop_spec(1) [OF ok]
    by (simp add: split_beta)
next
  case (Resynchronize sc u)
  have s: "sequence_ok (from_sequence_control sc)" by simp
  show thesis
    by (rule resynchronize_cases [OF ok s, of u])
       (use Resynchronize idle drain in \<open>simp_all add: split_beta\<close>)
qed

interpretation reorder: invariant_machine "reorder_ok W S" "reorder_next W S" for W S
proof
  fix b op
  assume ok: "reorder_ok W S b"
  then show "reorder_ok W S (reorder_next W S b op)"
    by (cases rule: reorder_step_cases [where op = op]) (use ok in auto)
qed

lemma reorder_ok_new:
  assumes "RxReorderBuffer_new W start win = Ok b" "W \<le> 64" "sequence_ok start"
  shows "reorder_ok W S b"
  using assms
  by (auto simp: RxReorderBuffer_new_def reorder_ok_def shape_ok_def at_distance_def
      slots_distinct_def word_neq_0_conv word_less_nat_alt split: if_splits)

text \<open>Custody: the multiset of MPDUs inside the buffer, over one transition.\<close>

lemma mset_held_transition:
  assumes input: "input_ok W S b advance received"
    and tr: "window_transition W advance received b rel b'"
  shows "mset (held W b) + mset (case received of None \<Rightarrow> [] | Some f \<Rightarrow> [f])
           = mset (release_iter rel) + mset (held W b')"
proof -
  let ?M = "with_received W b received"
  let ?span = "advance + run_length ?M advance (unat (window b))"
  have win: "unat (window b) \<le> W"
    using input by (simp add: input_ok_def reorder_ok_def shape_ok_def)
  have "mset (flatten (map ?M [0..<?span + W])) = mset (release_iter rel) + mset (held W b')"
    using tr by (simp add: window_transition_def Let_def held_def flatten_upt_add)
  moreover have "flatten (map (at_distance W b) [0..<?span + W]) = held W b"
    unfolding held_def by (intro flatten_upt_vacant) (simp_all add: at_distance_beyond)
  then have "mset (flatten (map ?M [0..<?span + W]))
      = mset (held W b) + mset (case received of None \<Rightarrow> [] | Some f \<Rightarrow> [f])"
    using input win
    by (auto simp: with_received_def input_ok_def Let_def mset_flatten_upt_insert
        split: option.split)
  ultimately show ?thesis by simp
qed

lemma reorder_step_custody:
  assumes ok: "reorder_ok W S b"
  shows "mset (held W b) + mset (accepted (fst (reorder_step W S b op)))
           = mset (released (fst (reorder_step W S b op))) + mset (held W (reorder_next W S b op))"
  using ok
proof (cases rule: reorder_step_cases [where op = op])
  case (drain rel start)
  have "at_distance W ((snd (reorder_stop W b))\<lparr>next_sequence := start\<rparr>) = Map.empty"
    by (simp add: reorder_stop_spec(2) [OF ok] at_distance_def fun_eq_iff)
  then have "held W ((snd (reorder_stop W b))\<lparr>next_sequence := start\<rparr>) = []"
    by (simp add: held_def map_replicate_const)
  with drain show ?thesis by (simp add: release_output_def)
qed (simp_all add: no_output_def release_output_def mset_held_transition)

text \<open>The owner's calls as a run.\<close>

fun reorder_run ::
    "nat \<Rightarrow> nat \<Rightarrow> RxReorderBuffer \<Rightarrow> ReorderOp list
     \<Rightarrow> RxReorderMpdu list \<times> RxReorderMpdu list \<times> RxReorderBuffer" where
  "reorder_run W S b [] = ([], [], b)"
| "reorder_run W S b (op # ops) =
     (let (out, b') = reorder_step W S b op;
          (acc, rel, b'') = reorder_run W S b' ops
      in (accepted out @ acc, released out @ rel, b''))"

lemma reorder_run_buffer: "snd (snd (reorder_run W S b ops)) = foldl (reorder_next W S) b ops"
  by (induction ops arbitrary: b) (simp_all add: Let_def split_beta)

lemma reorder_run_custody:
  "reorder_ok W S b \<Longrightarrow>
   mset (held W b) + mset (fst (reorder_run W S b ops))
     = mset (fst (snd (reorder_run W S b ops))) + mset (held W (snd (snd (reorder_run W S b ops))))"
proof (induction ops arbitrary: b)
  case (Cons op ops)
  note step = reorder_step_custody [OF Cons.prems, of op]
  note rest = Cons.IH [OF reorder.step_inv [OF Cons.prems, of op]]
  have "mset (held W b) + mset (accepted (fst (reorder_step W S b op)))
        + mset (fst (reorder_run W S (reorder_next W S b op) ops))
      = mset (released (fst (reorder_step W S b op)))
        + (mset (held W (reorder_next W S b op))
           + mset (fst (reorder_run W S (reorder_next W S b op) ops)))"
    by (simp only: step add.assoc)
  then show ?case
    by (simp add: Let_def split_beta rest add.assoc)
qed simp

text \<open>The accounting of the window's movement.\<close>

fun moves_forward :: "ReorderOp \<Rightarrow> bool" where
  "moves_forward Stop = False"
| "moves_forward (Resynchronize _ _) = False"
| "moves_forward _ = True"

definition travel :: "RxReorderBuffer \<Rightarrow> RxReorderBuffer \<Rightarrow> nat" where
  "travel b b' = unat (forward_distance (next_sequence b) (next_sequence b'))"

fun delivered_positions :: "nat \<Rightarrow> nat \<Rightarrow> nat \<Rightarrow> RxReorderBuffer \<Rightarrow> ReorderOp list \<Rightarrow> nat list" where
  "delivered_positions W S base b [] = []"
| "delivered_positions W S base b (op # ops) =
     (let (out, b') = reorder_step W S b op
      in map (\<lambda>f. base + unat (forward_distance (next_sequence b) (mpdu_sequence f))) (released out)
         @ delivered_positions W S (base + travel b b') b' ops)"

fun total_travel :: "nat \<Rightarrow> nat \<Rightarrow> RxReorderBuffer \<Rightarrow> ReorderOp list \<Rightarrow> nat" where
  "total_travel W S b [] = 0"
| "total_travel W S b (op # ops) =
     (let (out, b') = reorder_step W S b op in travel b b' + total_travel W S b' ops)"

fun total_lost :: "nat \<Rightarrow> nat \<Rightarrow> RxReorderBuffer \<Rightarrow> ReorderOp list \<Rightarrow> nat" where
  "total_lost W S b [] = 0"
| "total_lost W S b (op # ops) =
     (let (out, b') = reorder_step W S b op in lost out + total_lost W S b' ops)"

lemma transition_accounting:
  assumes input: "input_ok W S b advance received"
    and tr: "window_transition W advance received b rel b'"
  defines "ps \<equiv> map (\<lambda>f. unat (forward_distance (next_sequence b) (mpdu_sequence f)))
                  (release_iter rel)"
  shows "sorted_wrt (<) ps" and "\<forall>p\<in>set ps. p < travel b b'"
    and "length ps + unat (missing rel) = travel b b'"
proof -
  let ?M = "with_received W b received"
  let ?span = "advance + run_length ?M advance (unat (window b))"
  have rel: "release_iter rel = flatten (map ?M [0..<?span])"
    using tr by (simp add: window_transition_def Let_def)
  have dist: "unat (forward_distance (next_sequence b) (mpdu_sequence f)) = d" if "?M d = Some f" for d f
    using with_received_distance(2) [OF input that] .
  have "?span < 4096"
    using input run_length_le [of ?M advance "unat (window b)"]
    by (auto simp: input_ok_def dest: window_small)
  then have travel: "travel b b' = ?span"
    using tr input sn.dist_advance [of "next_sequence b" ?span]
    by (simp add: travel_def window_transition_def Let_def input_ok_def reorder_ok_def shape_ok_def)
  show "sorted_wrt (<) ps"
    unfolding ps_def rel sorted_wrt_map by (rule sorted_wrt_flatten_upt) (simp add: dist)
  show "\<forall>p\<in>set ps. p < travel b b'"
    unfolding travel by (auto simp: ps_def rel set_flatten_upt dist)
  show "length ps + unat (missing rel) = travel b b'"
    unfolding travel using tr by (auto simp: ps_def window_transition_def Let_def)
qed

lemma travel_self [simp]: "reorder_ok W S b \<Longrightarrow> travel b b = 0"
  by (simp add: travel_def reorder_ok_def shape_ok_def)

lemma step_accounting:
  assumes ok: "reorder_ok W S b" and op: "moves_forward op"
  defines "out \<equiv> fst (reorder_step W S b op)"
  defines "ps \<equiv> map (\<lambda>f. unat (forward_distance (next_sequence b) (mpdu_sequence f))) (released out)"
  shows "sorted_wrt (<) ps \<and> (\<forall>p\<in>set ps. p < travel b (reorder_next W S b op))
    \<and> length ps + lost out = travel b (reorder_next W S b op)"
  using ok
proof (cases rule: reorder_step_cases [where op = op])
  case idle
  with ok show ?thesis by (simp add: ps_def out_def no_output_def)
next
  case (window advance received rel b')
  with transition_accounting [OF window(2,3)] show ?thesis
    by (simp add: ps_def out_def release_output_def)
next
  case drain
  with op show ?thesis by auto
qed

lemma run_accounting:
  assumes "reorder_ok W S b" and "\<forall>op\<in>set ops. moves_forward op"
  shows "sorted_wrt (<) (delivered_positions W S base b ops)
    \<and> (\<forall>p\<in>set (delivered_positions W S base b ops). base \<le> p \<and> p < base + total_travel W S b ops)
    \<and> length (delivered_positions W S base b ops) + total_lost W S b ops = total_travel W S b ops"
  using assms
proof (induction ops arbitrary: b base)
  case (Cons op ops)
  let ?b' = "reorder_next W S b op"
  let ?out = "fst (reorder_step W S b op)"
  let ?ps = "map (\<lambda>f. unat (forward_distance (next_sequence b) (mpdu_sequence f))) (released ?out)"
  let ?rest = "delivered_positions W S (base + travel b ?b') ?b' ops"
  have ok': "reorder_ok W S ?b'" using Cons.prems by (simp add: reorder.step_inv)
  have step: "sorted_wrt (<) ?ps" "\<forall>p\<in>set ?ps. p < travel b ?b'"
    "length ?ps + lost ?out = travel b ?b'"
    using step_accounting [of W S b op] Cons.prems by auto
  have IH: "sorted_wrt (<) ?rest" "\<forall>p\<in>set ?rest. base + travel b ?b' \<le> p
      \<and> p < base + travel b ?b' + total_travel W S ?b' ops"
    "length ?rest + total_lost W S ?b' ops = total_travel W S ?b' ops"
    using Cons.IH [OF ok', of "base + travel b ?b'"] Cons.prems by auto
  have all: "delivered_positions W S base b (op # ops) = map ((+) base) ?ps @ ?rest"
    by (simp add: split_beta Let_def)
  have "sorted_wrt (<) (map ((+) base) ?ps @ ?rest)"
    using step IH by (fastforce simp: sorted_wrt_append sorted_wrt_map)
  moreover have "\<forall>p\<in>set (map ((+) base) ?ps @ ?rest). base \<le> p
      \<and> p < base + (travel b ?b' + total_travel W S ?b' ops)"
    using step(2) IH(2) by fastforce
  ultimately show ?case
    using step(3) IH(3) unfolding all by (simp add: split_beta)
qed simp

subsection \<open>Properties\<close>

text \<open>
   C1. Delivery is in order and accounts for every sequence number.  Over any sequence of received
  MPDUs, fast-path attempts, gap timeouts and BlockAckReqs, number the delivered MPDUs by their
  position along the window's whole movement.  The positions are strictly increasing, so nothing is
  delivered twice or out of order, and every number the window moved past was either delivered or
  reported missing.
\<close>

theorem delivery_in_order:
  assumes "reorder_ok W S b" and "\<forall>op\<in>set ops. moves_forward op"
  shows "sorted_wrt (<) (delivered_positions W S 0 b ops)
    \<and> (\<forall>p\<in>set (delivered_positions W S 0 b ops). p < total_travel W S b ops)
    \<and> length (delivered_positions W S 0 b ops) + total_lost W S b ops = total_travel W S b ops"
  using run_accounting [OF assms, of 0] by simp

definition sample_buffer :: RxReorderBuffer where
  "sample_buffer =
     (case RxReorderBuffer_new 4 (SequenceNumber 4094) 4 of
        Ok b \<Rightarrow> b
      | Err _ \<Rightarrow> \<lparr>starting_sequence = SequenceNumber 0, next_sequence = SequenceNumber 0, window = 0,
                  occupied = 0, head = 0, frames = []\<rparr>)"

lemma sample_buffer_ok: "reorder_ok 4 8 sample_buffer"
proof (rule reorder_ok_new)
  show "RxReorderBuffer_new 4 (SequenceNumber 4094) 4 = Ok sample_buffer"
    by (simp add: sample_buffer_def RxReorderBuffer_new_def)
qed (simp_all add: sequence_ok_iff)

theorem delivery_in_order_witness:
  "delivered_positions 4 8 0 sample_buffer
     [Ingest 0xffe0 0, Ingest 0x0000 1, Ingest 0xfff0 2, Ingest 0x0030 3, ExpireGap] = [0, 1, 2, 5]
   \<and> length (delivered_positions 4 8 0 sample_buffer
     [Ingest 0xffe0 0, Ingest 0x0000 1, Ingest 0xfff0 2, Ingest 0x0030 3, ExpireGap])
     + total_lost 4 8 sample_buffer
     [Ingest 0xffe0 0, Ingest 0x0000 1, Ingest 0xfff0 2, Ingest 0x0030 3, ExpireGap]
   = total_travel 4 8 sample_buffer
     [Ingest 0xffe0 0, Ingest 0x0000 1, Ingest 0xfff0 2, Ingest 0x0030 3, ExpireGap]"
proof
  show "delivered_positions 4 8 0 sample_buffer
     [Ingest 0xffe0 0, Ingest 0x0000 1, Ingest 0xfff0 2, Ingest 0x0030 3, ExpireGap] = [0, 1, 2, 5]"
    by code_simp
qed (use delivery_in_order [OF sample_buffer_ok, of
      "[Ingest 0xffe0 0, Ingest 0x0000 1, Ingest 0xfff0 2, Ingest 0x0030 3, ExpireGap]"] in simp)

text \<open>
   C24. Custody.  From a new buffer, after any sequence of calls (teardown and rebase included), the
  MPDUs the buffer accepted are, as a multiset, exactly the MPDUs it handed back together with
  those it still holds: no slot of the caller's storage is leaked and none is returned twice.
\<close>

theorem slots_are_conserved:
  assumes "RxReorderBuffer_new W start win = Ok b" and "W \<le> 64" and "sequence_ok start"
  shows "mset (fst (reorder_run W S b ops))
    = mset (fst (snd (reorder_run W S b ops))) + mset (held W (snd (snd (reorder_run W S b ops))))"
proof -
  have "at_distance W b = Map.empty"
    using assms(1)
    by (auto simp: RxReorderBuffer_new_def at_distance_def fun_eq_iff split: if_splits)
  then have "held W b = []" by (simp add: held_def map_replicate_const)
  then show ?thesis
    using reorder_run_custody [OF reorder_ok_new [OF assms], of S ops] by simp
qed

theorem slots_are_conserved_witness:
  "\<exists>b. RxReorderBuffer_new 4 (SequenceNumber 4094) 4 = Ok b
     \<and> mset (fst (reorder_run 4 8 b [Ingest 0xfff0 5, Ingest 0x0010 6, Stop]))
       = mset (fst (snd (reorder_run 4 8 b [Ingest 0xfff0 5, Ingest 0x0010 6, Stop])))
         + mset (held 4 (snd (snd (reorder_run 4 8 b [Ingest 0xfff0 5, Ingest 0x0010 6, Stop]))))"
proof (intro exI conjI)
  show "RxReorderBuffer_new 4 (SequenceNumber 4094) 4 = Ok sample_buffer"
    by (simp add: sample_buffer_def RxReorderBuffer_new_def)
  then show "mset (fst (reorder_run 4 8 sample_buffer [Ingest 0xfff0 5, Ingest 0x0010 6, Stop]))
       = mset (fst (snd (reorder_run 4 8 sample_buffer [Ingest 0xfff0 5, Ingest 0x0010 6, Stop])))
         + mset (held 4 (snd (snd (reorder_run 4 8 sample_buffer
             [Ingest 0xfff0 5, Ingest 0x0010 6, Stop]))))"
    by (rule slots_are_conserved) (simp_all add: sequence_ok_iff)
qed



text \<open>
   C27. The fast path agrees with the general path.  Whenever \<open>try_ingest_immediate\<close> returns an
  MPDU, \<open>ingest\<close> on the same input releases exactly that MPDU, reports nothing missing, keeps
  nothing, and leaves the same buffer; in every other case the fast path changes nothing.
\<close>

theorem fast_path_agrees_with_ingest:
  assumes "reorder_ok W S b"
  shows "case try_ingest_immediate W S b f of
      (Ok (Some g), b') \<Rightarrow> g = f \<and>
        (\<exists>rel. ingest W S b f = (Ok rel, b') \<and> release_iter rel = [f] \<and> missing rel = 0
           \<and> rejected rel = None \<and> \<not> buffered rel)
    | (_, b') \<Rightarrow> b' = b"
proof (cases rule: try_ingest_immediate_cases [of W S b f])
  case (refused r)
  then show ?thesis by (auto split: result.splits option.splits)
next
  case immediate
  obtain rel where "ingest W S b f = (Ok rel, snd (try_ingest_immediate W S b f))"
    "release_iter rel = [f]" "missing rel = 0" "rejected rel = None" "\<not> buffered rel"
    using ingest_immediate [OF assms immediate(2-4)] immediate(1) by auto
  with immediate(1) show ?thesis by simp
qed

theorem fast_path_agrees_with_ingest_witness:
  "fst (try_ingest_immediate 4 8 sample_buffer (received_mpdu 0xffe0 3))
     = Ok (Some (received_mpdu 0xffe0 3))
   \<and> (\<exists>rel b'. ingest 4 8 sample_buffer (received_mpdu 0xffe0 3) = (Ok rel, b')
        \<and> release_iter rel = [received_mpdu 0xffe0 3]
        \<and> b' = snd (try_ingest_immediate 4 8 sample_buffer (received_mpdu 0xffe0 3)))"
proof
  show *: "fst (try_ingest_immediate 4 8 sample_buffer (received_mpdu 0xffe0 3))
     = Ok (Some (received_mpdu 0xffe0 3))"
    by code_simp
  show "\<exists>rel b'. ingest 4 8 sample_buffer (received_mpdu 0xffe0 3) = (Ok rel, b')
        \<and> release_iter rel = [received_mpdu 0xffe0 3]
        \<and> b' = snd (try_ingest_immediate 4 8 sample_buffer (received_mpdu 0xffe0 3))"
    using fast_path_agrees_with_ingest [OF sample_buffer_ok, of "received_mpdu 0xffe0 3"] *
    by (auto simp: split_beta)
qed

text \<open>
   A gap timeout makes progress.  When the buffer holds anything, \<open>expire_gap\<close> releases at
  least one MPDU, starting with the first one held, and moves past everything up to the next gap;
  when it holds nothing, it does nothing.
\<close>

theorem expire_gap_progress:
  assumes "reorder_ok W S b"
  shows "if held W b = [] then expire_gap W b = (RxReorderRelease_empty W, b)
    else (\<exists>d < unat (window b). at_distance W b d = Some (hd (held W b))
        \<and> window_transition W d None b (fst (expire_gap W b)) (snd (expire_gap W b))
        \<and> release_iter (fst (expire_gap W b)) \<noteq> []
        \<and> hd (release_iter (fst (expire_gap W b))) = hd (held W b))"
proof (rule expire_gap_cases [OF assms])
  assume "\<And>d. at_distance W b d = None" "expire_gap W b = (RxReorderRelease_empty W, b)"
  then show ?thesis
    using set_held [of _ W b] by (cases "held W b") force+
next
  fix d rel b'
  assume gap: "at_distance W b d \<noteq> None" "\<And>d'. d' < d \<Longrightarrow> at_distance W b d' = None"
    "expire_gap W b = (rel, b')" "d < unat (window b)" "window_transition W d None b rel b'"
  then obtain f where f: "at_distance W b d = Some f" by blast
  have first: "flatten (map (at_distance W b) [0..<Suc d + n])
      = f # flatten (map (\<lambda>k. at_distance W b (Suc d + k)) [0..<n])" for n
  proof -
    have "flatten (map (at_distance W b) [0..<d]) = flatten (map (at_distance W b) [0..<0])"
      using gap(2) by (intro flatten_upt_vacant) auto
    then show ?thesis
      unfolding flatten_upt_add flatten_upt_Suc by (simp add: f)
  qed
  have "d < W" using f by (auto simp: at_distance_def split: if_splits)
  then have held: "held W b = f # flatten (map (\<lambda>k. at_distance W b (Suc d + k)) [0..<W - Suc d])"
    unfolding held_def using first [of "W - Suc d"] by simp
  have "run_length (at_distance W b) d (unat (window b)) \<noteq> 0"
    using gap(4) f run_length_stops [of "at_distance W b" d "unat (window b)"] by (intro notI) simp
  then obtain n where n: "run_length (at_distance W b) d (unat (window b)) = Suc n"
    by (cases "run_length (at_distance W b) d (unat (window b))") auto
  have "release_iter rel = flatten (map (at_distance W b) [0..<Suc d + n])"
    using gap(5) by (simp add: window_transition_def Let_def with_received_def n)
  then have "release_iter (fst (expire_gap W b)) \<noteq> []"
    "hd (release_iter (fst (expire_gap W b))) = hd (held W b)"
    unfolding held first gap(3) by simp_all
  moreover have "held W b \<noteq> []" "hd (held W b) = f" unfolding held by simp_all
  ultimately show ?thesis using gap(3-5) f by auto
qed

theorem expire_gap_progress_witness:
  "release_iter (fst (expire_gap 4 (reorder_next 4 8 sample_buffer (Ingest 0x0000 1))))
     = [received_mpdu 0x0000 1]
   \<and> hd (release_iter (fst (expire_gap 4 (reorder_next 4 8 sample_buffer (Ingest 0x0000 1)))))
     = hd (held 4 (reorder_next 4 8 sample_buffer (Ingest 0x0000 1)))"
proof
  have held: "held 4 (reorder_next 4 8 sample_buffer (Ingest 0x0000 1)) \<noteq> []" by code_simp
  show "release_iter (fst (expire_gap 4 (reorder_next 4 8 sample_buffer (Ingest 0x0000 1))))
     = [received_mpdu 0x0000 1]" by code_simp
  show "hd (release_iter (fst (expire_gap 4 (reorder_next 4 8 sample_buffer (Ingest 0x0000 1)))))
     = hd (held 4 (reorder_next 4 8 sample_buffer (Ingest 0x0000 1)))"
    using expire_gap_progress [OF reorder.step_inv [OF sample_buffer_ok], of "Ingest 0x0000 1"] held
    by (metis (no_types, lifting))
qed

text \<open>
   C38. The buffer's invariant.  From a new buffer, after any sequence of calls, the occupancy bitmap
  is exactly the set of filled positions, the window start is vacant, every held MPDU lies inside
  the window at the position its sequence number gives, and no two hold the same slot.
\<close>

theorem reorder_invariant:
  assumes "RxReorderBuffer_new W start win = Ok b" and "W \<le> 64" and "sequence_ok start"
  shows "reorder_ok W S (snd (snd (reorder_run W S b ops)))"
  unfolding reorder_run_buffer by (rule reorder.run_inv [OF reorder_ok_new [OF assms]])

theorem reorder_invariant_witness:
  "RxReorderBuffer_new 4 (SequenceNumber 4094) 4 = Ok sample_buffer
   \<and> reorder_ok 4 8 (snd (snd (reorder_run 4 8 sample_buffer
       [Ingest 0xfff0 5, Ingest 0x0010 6, MoveWindowTo 0x0020])))"
proof
  show new: "RxReorderBuffer_new 4 (SequenceNumber 4094) 4 = Ok sample_buffer"
    by (simp add: sample_buffer_def RxReorderBuffer_new_def)
  show "reorder_ok 4 8 (snd (snd (reorder_run 4 8 sample_buffer
       [Ingest 0xfff0 5, Ingest 0x0010 6, MoveWindowTo 0x0020])))"
    using new by (rule reorder_invariant) (simp_all add: sequence_ok_iff)
qed

text \<open>
   The reservation answer is sound.  \<open>retains_on_ingest\<close> asks before \<open>ingest\<close> whether the MPDU
  needs backing storage.  When \<open>ingest\<close> then keeps the MPDU in the buffer, the answer was yes; when
  the answer was that the sequence is a duplicate and the slot is acceptable, \<open>ingest\<close> refuses with
  the same error and changes nothing.
\<close>

theorem retains_on_ingest_sound:
  assumes "reorder_ok W S b" and "sequence_ok (mpdu_sequence f)"
  shows "(\<forall>rel b'. ingest W S b f = (Ok rel, b') \<and> buffered rel
            \<longrightarrow> retains_on_ingest W b (mpdu_sequence f) = Ok True)
    \<and> (\<forall>e. retains_on_ingest W b (mpdu_sequence f) = Err e
          \<and> check_received_slot S b (mpdu_slot f) = Ok ()
          \<longrightarrow> ingest W S b f = (Err e, b))"
proof (rule ingest_cases [OF assms])
  fix rel b'
  let ?d = "forward_distance (next_sequence b) (mpdu_sequence f)"
  assume acc: "check_received_slot S b (mpdu_slot f) = Ok ()" "\<not> HALF_SPACE \<le> ?d"
    "\<not> has_sequence W b (mpdu_sequence f)" "ingest W S b f = (Ok rel, b')"
    "window_transition W (ingest_advance b f) (Some f) b rel b'"
  let ?M = "with_received W b (Some f)"
  have "unat (window b) \<noteq> 0" using assms(1) by (simp add: reorder_ok_def shape_ok_def)
  have "(if window b \<le> ?d then window b - 1 else ?d) \<noteq> 0" if "buffered rel"
  proof
    assume zero: "(if window b \<le> ?d then window b - 1 else ?d) = 0"
    then have "ingest_advance b f = unat ?d"
    proof (cases "window b \<le> ?d")
      case True
      with zero have "window b = 1" by simp
      then show ?thesis by (simp add: ingest_advance_def)
    next
      case False
      with zero have "?d = 0" by simp
      then show ?thesis using \<open>unat (window b) \<noteq> 0\<close> by (simp add: ingest_advance_def)
    qed
    moreover have "?M (unat ?d) \<noteq> None" by (simp add: with_received_def)
    moreover have "unat (window b) \<noteq> 0" by fact
    ultimately have "run_length ?M (ingest_advance b f) (unat (window b)) \<noteq> 0"
      using run_length_stops [of ?M "unat ?d" "unat (window b)"] by (intro notI) simp
    with \<open>ingest_advance b f = unat ?d\<close> have "\<not> buffered rel"
      using acc(5) by (simp add: window_transition_def Let_def)
    with that show False by simp
  qed
  with acc show ?thesis by (auto simp: retains_on_ingest_def Let_def)
qed (auto simp: retains_on_ingest_def Let_def RxReorderRelease_empty_def split: if_splits)

theorem retains_on_ingest_sound_witness:
  "retains_on_ingest 4 sample_buffer (mpdu_sequence (received_mpdu 0x0000 1)) = Ok True
   \<and> (\<exists>rel b'. ingest 4 8 sample_buffer (received_mpdu 0x0000 1) = (Ok rel, b') \<and> buffered rel)"
proof
  have "(case fst (ingest 4 8 sample_buffer (received_mpdu 0x0000 1)) of
          Ok rel \<Rightarrow> buffered rel | Err _ \<Rightarrow> False)" by code_simp
  then show *: "\<exists>rel b'. ingest 4 8 sample_buffer (received_mpdu 0x0000 1) = (Ok rel, b')
      \<and> buffered rel"
    by (cases "ingest 4 8 sample_buffer (received_mpdu 0x0000 1)") (auto split: result.splits)
  then show "retains_on_ingest 4 sample_buffer (mpdu_sequence (received_mpdu 0x0000 1)) = Ok True"
    using retains_on_ingest_sound [OF sample_buffer_ok, of "received_mpdu 0x0000 1"] by auto
qed

end
