(* ===== verification/Ccmp.thy ===== *)
theory Ccmp
  imports Oer_Prelude
begin

text \<open>
  CCMP packet numbers, key identifiers, the eight-octet header, the transmit packet-number
  allocator and the receive replay frontiers of one key, \<open>crates/protocols/ieee80211/mac/src/ccmp.rs\<close>.
  A \<open>CcmpRxReplayCandidate\<close> borrows one frontier of its state until it is committed or dropped;
  the model has it as the index of that frontier with the checked packet number, and \<open>commit\<close> is
  the only way to apply it.  The key material of \<open>ccmp/key.rs\<close> is an opaque byte owner and is not
  part of this model.
\<close>

definition CCMP_HEADER_LEN :: nat where "CCMP_HEADER_LEN = 8"
definition CCMP_PACKET_NUMBER_MAX :: u64 where "CCMP_PACKET_NUMBER_MAX = push_bit 48 1 - 1"
definition CCMP_REPLAY_LANE_COUNT :: nat where "CCMP_REPLAY_LANE_COUNT = 17"

datatype CcmpPacketNumber = CcmpPacketNumber (pn_value: u64)

instantiation CcmpPacketNumber :: linorder
begin

definition less_eq_CcmpPacketNumber :: "CcmpPacketNumber \<Rightarrow> CcmpPacketNumber \<Rightarrow> bool" where
  "less_eq_CcmpPacketNumber a b \<longleftrightarrow> pn_value a \<le> pn_value b"

definition less_CcmpPacketNumber :: "CcmpPacketNumber \<Rightarrow> CcmpPacketNumber \<Rightarrow> bool" where
  "less_CcmpPacketNumber a b \<longleftrightarrow> pn_value a < pn_value b"

instance
  by standard
     (auto simp: less_eq_CcmpPacketNumber_def less_CcmpPacketNumber_def
       intro: CcmpPacketNumber.expand)

end

lemmas pn_order_defs = less_eq_CcmpPacketNumber_def less_CcmpPacketNumber_def

definition CcmpPacketNumber_ZERO :: CcmpPacketNumber where
  "CcmpPacketNumber_ZERO = CcmpPacketNumber 0"

definition CcmpPacketNumber_new :: "u64 \<Rightarrow> CcmpPacketNumber option" where
  "CcmpPacketNumber_new val =
     (if val \<le> CCMP_PACKET_NUMBER_MAX then Some (CcmpPacketNumber val) else None)"

text \<open>Arrays \<open>[u8; 8]\<close> are lists of length eight.\<close>

definition from_header_bytes :: "u8 list \<Rightarrow> CcmpPacketNumber" where
  "from_header_bytes bytes = CcmpPacketNumber
     (ucast (bytes ! 0) OR push_bit 8 (ucast (bytes ! 1)) OR push_bit 16 (ucast (bytes ! 4))
      OR push_bit 24 (ucast (bytes ! 5)) OR push_bit 32 (ucast (bytes ! 6))
      OR push_bit 40 (ucast (bytes ! 7)))"

datatype CcmpReceiveSequenceError = HighBitsSet

definition from_receive_sequence ::
    "u8 list \<Rightarrow> (CcmpPacketNumber, CcmpReceiveSequenceError) result" where
  "from_receive_sequence sequence =
     (if sequence ! 6 \<noteq> 0 \<or> sequence ! 7 \<noteq> 0 then Err HighBitsSet
      else Ok (CcmpPacketNumber
        (ucast (sequence ! 0) OR push_bit 8 (ucast (sequence ! 1))
         OR push_bit 16 (ucast (sequence ! 2)) OR push_bit 24 (ucast (sequence ! 3))
         OR push_bit 32 (ucast (sequence ! 4)) OR push_bit 40 (ucast (sequence ! 5)))))"

datatype CcmpKeyId = CcmpKeyId (key_id_value: u8)

definition CcmpKeyId_PAIRWISE :: CcmpKeyId where "CcmpKeyId_PAIRWISE = CcmpKeyId 0"

definition CcmpKeyId_new :: "u8 \<Rightarrow> CcmpKeyId option" where
  "CcmpKeyId_new val = (if val \<le> 3 then Some (CcmpKeyId val) else None)"

definition header_bits :: "CcmpKeyId \<Rightarrow> u8" where
  "header_bits self = push_bit 6 (key_id_value self)"

datatype GroupIndex = Zero | One | Two | Three

datatype GroupKeyId = GroupKeyId GroupIndex

definition GroupKeyId_new :: "u8 \<Rightarrow> GroupKeyId option" where
  "GroupKeyId_new key_id =
     (if key_id = 0 then Some (GroupKeyId Zero)
      else if key_id = 1 then Some (GroupKeyId One)
      else if key_id = 2 then Some (GroupKeyId Two)
      else if key_id = 3 then Some (GroupKeyId Three)
      else None)"

fun GroupKeyId_get :: "GroupKeyId \<Rightarrow> u8" where
  "GroupKeyId_get (GroupKeyId Zero) = 0"
| "GroupKeyId_get (GroupKeyId One) = 1"
| "GroupKeyId_get (GroupKeyId Two) = 2"
| "GroupKeyId_get (GroupKeyId Three) = 3"

definition GroupKeyId_key_id :: "GroupKeyId \<Rightarrow> CcmpKeyId" where
  "GroupKeyId_key_id self = CcmpKeyId (GroupKeyId_get self)"

text \<open>\<open>select\<close> and \<open>select_mut\<close> on an array of four: the position they choose.\<close>

fun group_position :: "GroupKeyId \<Rightarrow> nat" where
  "group_position (GroupKeyId Zero) = 0"
| "group_position (GroupKeyId One) = 1"
| "group_position (GroupKeyId Two) = 2"
| "group_position (GroupKeyId Three) = 3"

definition group_select :: "GroupKeyId \<Rightarrow> 'a list \<Rightarrow> 'a" where
  "group_select self entries = entries ! group_position self"

definition group_select_mut :: "GroupKeyId \<Rightarrow> 'a \<Rightarrow> 'a list \<Rightarrow> 'a list" where
  "group_select_mut self entry entries = entries[group_position self := entry]"

record CcmpHeader =
  header_packet_number :: CcmpPacketNumber
  header_key_id :: CcmpKeyId

definition CcmpHeader_new :: "CcmpPacketNumber \<Rightarrow> CcmpKeyId \<Rightarrow> CcmpHeader" where
  "CcmpHeader_new packet_number key_id =
     \<lparr>header_packet_number = packet_number, header_key_id = key_id\<rparr>"

datatype CcmpHeaderError = ReservedOctet | ExtIvMissing | ReservedKeyBits

definition CcmpHeader_parse :: "u8 list \<Rightarrow> (CcmpHeader, CcmpHeaderError) result" where
  "CcmpHeader_parse bytes =
     (if bytes ! 2 \<noteq> 0 then Err ReservedOctet
      else if bytes ! 3 AND 0x20 = 0 then Err ExtIvMissing
      else if bytes ! 3 AND 0x1f \<noteq> 0 then Err ReservedKeyBits
      else Ok \<lparr>header_packet_number = from_header_bytes bytes,
               header_key_id = CcmpKeyId (drop_bit 6 (bytes ! 3) AND 0x03)\<rparr>)"

definition CcmpHeader_encode :: "CcmpHeader \<Rightarrow> u8 list" where
  "CcmpHeader_encode self =
     (let packet_number = pn_value (header_packet_number self)
      in [ucast packet_number, ucast (drop_bit 8 packet_number), 0,
          header_bits (header_key_id self) OR 0x20,
          ucast (drop_bit 16 packet_number), ucast (drop_bit 24 packet_number),
          ucast (drop_bit 32 packet_number), ucast (drop_bit 40 packet_number)])"

text \<open>The step of a transmit allocator, a \<open>NonZeroU8\<close>.\<close>

datatype CcmpPacketNumberStep = CcmpPacketNumberStep (step_get: u8)

definition CcmpPacketNumberStep_ONE :: CcmpPacketNumberStep where
  "CcmpPacketNumberStep_ONE = CcmpPacketNumberStep 1"

definition CcmpPacketNumberStep_new :: "u8 \<Rightarrow> CcmpPacketNumberStep option" where
  "CcmpPacketNumberStep_new step = (if step \<noteq> 0 then Some (CcmpPacketNumberStep step) else None)"

datatype CcmpTxPacketNumberError = Exhausted

record CcmpTxPacketNumber =
  last_pn :: u64
  pn_step :: CcmpPacketNumberStep

definition CcmpTxPacketNumber_new :: "CcmpPacketNumberStep \<Rightarrow> CcmpTxPacketNumber" where
  "CcmpTxPacketNumber_new step = \<lparr>last_pn = 0, pn_step = step\<rparr>"

definition continuing_after :: "CcmpPacketNumberStep \<Rightarrow> CcmpPacketNumber \<Rightarrow> CcmpTxPacketNumber" where
  "continuing_after step last_used = \<lparr>last_pn = pn_value last_used, pn_step = step\<rparr>"

definition allocate ::
    "CcmpTxPacketNumber
     \<Rightarrow> (CcmpPacketNumber, CcmpTxPacketNumberError) result \<times> CcmpTxPacketNumber" where
  "allocate self =
     (let next = last_pn self + ucast (step_get (pn_step self))
      in if CCMP_PACKET_NUMBER_MAX < next then (Err Exhausted, self)
         else (Ok (CcmpPacketNumber next), self\<lparr>last_pn := next\<rparr>))"

definition next_header ::
    "CcmpTxPacketNumber \<Rightarrow> CcmpKeyId
     \<Rightarrow> (u8 list, CcmpTxPacketNumberError) result \<times> CcmpTxPacketNumber" where
  "next_header self key_id =
     (case allocate self of
        (Err e, self') \<Rightarrow> (Err e, self')
      | (Ok packet_number, self') \<Rightarrow>
          (Ok (CcmpHeader_encode (CcmpHeader_new packet_number key_id)), self'))"

datatype CcmpReplayLane = NonQos | Tid u8

fun lane_index :: "CcmpReplayLane \<Rightarrow> nat option" where
  "lane_index NonQos = Some 0"
| "lane_index (Tid tid) = (if tid < 16 then Some (unat tid + 1) else None)"

datatype CcmpReplayError =
    ReplayInvalidTid
  | Replayed CcmpPacketNumber CcmpPacketNumber

record CcmpRxReplayCandidate =
  cand_frontier :: nat
  cand_lane :: CcmpReplayLane
  cand_packet_number :: CcmpPacketNumber

record CcmpRxReplayState =
  highest :: "CcmpPacketNumber list"

definition CcmpRxReplayState_new :: "CcmpPacketNumber \<Rightarrow> CcmpRxReplayState" where
  "CcmpRxReplayState_new initial = \<lparr>highest = replicate CCMP_REPLAY_LANE_COUNT initial\<rparr>"

definition CcmpRxReplayState_from_receive_sequence ::
    "u8 list \<Rightarrow> (CcmpRxReplayState, CcmpReceiveSequenceError) result" where
  "CcmpRxReplayState_from_receive_sequence sequence =
     (case from_receive_sequence sequence of
        Ok initial \<Rightarrow> Ok (CcmpRxReplayState_new initial)
      | Err error \<Rightarrow> Err error)"

definition replay_prepare ::
    "CcmpRxReplayState \<Rightarrow> CcmpReplayLane \<Rightarrow> CcmpPacketNumber
     \<Rightarrow> (CcmpRxReplayCandidate, CcmpReplayError) result" where
  "replay_prepare self lane packet_number =
     (case lane_index lane of
        None \<Rightarrow> Err ReplayInvalidTid
      | Some index \<Rightarrow>
          (let highest' = highest self ! index
           in if packet_number \<le> highest' then Err (Replayed packet_number highest')
              else Ok \<lparr>cand_frontier = index, cand_lane = lane,
                       cand_packet_number = packet_number\<rparr>))"

definition replay_commit :: "CcmpRxReplayState \<Rightarrow> CcmpRxReplayCandidate \<Rightarrow> CcmpRxReplayState" where
  "replay_commit self candidate =
     self\<lparr>highest := (highest self)[cand_frontier candidate := cand_packet_number candidate]\<rparr>"

definition commit_immediate ::
    "CcmpRxReplayState \<Rightarrow> CcmpReplayLane \<Rightarrow> CcmpPacketNumber
     \<Rightarrow> (unit, CcmpReplayError) result \<times> CcmpRxReplayState" where
  "commit_immediate self lane packet_number =
     (case replay_prepare self lane packet_number of
        Err e \<Rightarrow> (Err e, self)
      | Ok candidate \<Rightarrow> (Ok (), replay_commit self candidate))"

definition replay_highest ::
    "CcmpRxReplayState \<Rightarrow> CcmpReplayLane \<Rightarrow> CcmpPacketNumber option" where
  "replay_highest self lane =
     (case lane_index lane of Some index \<Rightarrow> Some (highest self ! index) | None \<Rightarrow> None)"

definition ccmp_header :: "u32 \<Rightarrow> u32 \<Rightarrow> u8 \<Rightarrow> u8 list" where
  "ccmp_header low high key_id_bits =
     [ucast low, ucast (drop_bit 8 low), 0, key_id_bits OR 0x20,
      ucast (drop_bit 16 low), ucast (drop_bit 24 low), ucast high, ucast (drop_bit 8 high)]"

subsection \<open>Headers\<close>

definition pn_ok :: "CcmpPacketNumber \<Rightarrow> bool" where
  "pn_ok p \<longleftrightarrow> pn_value p \<le> CCMP_PACKET_NUMBER_MAX"

definition header_ok :: "CcmpHeader \<Rightarrow> bool" where
  "header_ok h \<longleftrightarrow> pn_ok (header_packet_number h) \<and> key_id_value (header_key_id h) \<le> 3"

lemma CCMP_PACKET_NUMBER_MAX_eq: "CCMP_PACKET_NUMBER_MAX = 281474976710655"
  by (simp add: CCMP_PACKET_NUMBER_MAX_def)

lemma pn_ok_iff: "pn_ok p \<longleftrightarrow> unat (pn_value p) < 2 ^ 48"
  by (auto simp: pn_ok_def CCMP_PACKET_NUMBER_MAX_eq word_le_nat_alt)

lemma pn_ok_bits: "pn_ok p \<longleftrightarrow> (\<forall>k. bit (pn_value p) k \<longrightarrow> k < 48)"
proof
  assume "pn_ok p"
  then show "\<forall>k. bit (pn_value p) k \<longrightarrow> k < 48"
    using bit_less_exp [of "pn_value p" 48] by (auto simp only: pn_ok_iff)
next
  assume bits: "\<forall>k. bit (pn_value p) k \<longrightarrow> k < 48"
  have "take_bit 48 (pn_value p) = pn_value p"
    using bits by (intro bit_word_eqI) (auto simp: bit_take_bit_iff)
  then have "unat (pn_value p) = take_bit 48 (unat (pn_value p))"
    by (metis unsigned_take_bit_eq)
  then show "pn_ok p"
    by (metis pn_ok_iff take_bit_nat_less_exp)
qed

text \<open>Six octets hold exactly the bits of a packet number.\<close>

definition six_octets :: "u8 \<Rightarrow> u8 \<Rightarrow> u8 \<Rightarrow> u8 \<Rightarrow> u8 \<Rightarrow> u8 \<Rightarrow> u64" where
  "six_octets b0 b1 b2 b3 b4 b5 =
     ucast b0 OR push_bit 8 (ucast b1) OR push_bit 16 (ucast b2) OR push_bit 24 (ucast b3)
     OR push_bit 32 (ucast b4) OR push_bit 40 (ucast b5)"

lemma six_octets_bits:
  "bit (six_octets b0 b1 b2 b3 b4 b5) k
   \<longleftrightarrow> (if k < 8 then bit b0 k else if k < 16 then bit b1 (k - 8)
        else if k < 24 then bit b2 (k - 16) else if k < 32 then bit b3 (k - 24)
        else if k < 40 then bit b4 (k - 32) else if k < 48 then bit b5 (k - 40) else False)"
proof -
  have small: "\<not> bit (b :: u8) n" if "8 \<le> n" for b n
    using that bit_imp_le_length [of b n] by auto
  show ?thesis
    unfolding six_octets_def by (simp add: bit_simps small not_less) auto
qed

lemma bit_octet: "bit (ucast p :: u8) n \<longleftrightarrow> n < 8 \<and> bit p n" for p :: u64
  by (auto simp: bit_simps)

lemma six_octets_split:
  assumes "\<forall>k. bit p k \<longrightarrow> k < 48"
  shows "six_octets (ucast p) (ucast (drop_bit 8 p)) (ucast (drop_bit 16 p)) (ucast (drop_bit 24 p))
      (ucast (drop_bit 32 p)) (ucast (drop_bit 40 p)) = p"
proof (rule bit_word_eqI)
  fix n
  have "bit p n \<longrightarrow> n < 48" using assms by blast
  then show "bit (six_octets (ucast p) (ucast (drop_bit 8 p)) (ucast (drop_bit 16 p))
      (ucast (drop_bit 24 p)) (ucast (drop_bit 32 p)) (ucast (drop_bit 40 p))) n = bit p n"
    by (auto simp: six_octets_bits bit_octet bit_drop_bit_eq not_less)
qed

lemma six_octets_join:
  fixes b0 b1 b2 b3 b4 b5 :: u8
  defines "p \<equiv> six_octets b0 b1 b2 b3 b4 b5"
  shows "ucast p = b0" "ucast (drop_bit 8 p) = b1" "ucast (drop_bit 16 p) = b2"
    "ucast (drop_bit 24 p) = b3" "ucast (drop_bit 32 p) = b4" "ucast (drop_bit 40 p) = b5"
  unfolding p_def by (rule bit_word_eqI, simp add: bit_octet bit_drop_bit_eq six_octets_bits)+

lemma six_octets_ok: "pn_ok (CcmpPacketNumber (six_octets b0 b1 b2 b3 b4 b5))"
  unfolding pn_ok_bits by (simp add: six_octets_bits)

lemma key_octet:
  assumes "k \<le> (3 :: u8)"
  shows "(push_bit 6 k OR 0x20) AND 0x20 \<noteq> 0" "(push_bit 6 k OR 0x20) AND 0x1f = 0"
    "drop_bit 6 (push_bit 6 k OR 0x20) AND 0x03 = k"
proof -
  have "unat k < 4" using assms by (simp add: word_le_nat_alt)
  then have "unat k \<in> {0, 1, 2, 3}" by auto
  then have "k = 0 \<or> k = 1 \<or> k = 2 \<or> k = 3" by (auto simp: word_unat_eq_iff)
  then show "(push_bit 6 k OR 0x20) AND 0x20 \<noteq> 0" "(push_bit 6 k OR 0x20) AND 0x1f = 0"
    "drop_bit 6 (push_bit 6 k OR 0x20) AND 0x03 = k"
    by auto
qed

lemma from_header_bytes_eq:
  "from_header_bytes [b0, b1, b2, b3, b4, b5, b6, b7] = CcmpPacketNumber (six_octets b0 b1 b4 b5 b6 b7)"
  by (simp add: from_header_bytes_def six_octets_def)

lemma key_octet_iff:
  "(b :: u8) AND 0x20 \<noteq> 0 \<and> b AND 0x1f = 0 \<longleftrightarrow> b = push_bit 6 (drop_bit 6 b AND 0x03) OR 0x20"
  (is "?L \<longleftrightarrow> ?R")
proof
  assume L: ?L
  have five: "bit b 5" using L test_bit_mask [of b 5] by simp
  have low: "\<not> bit b k" if "k < 5" for k
  proof -
    have "bit (b AND 0x1f) k = bit b k"
      using that mask_eq_exp_minus_1 [of 5, where 'a = u8] bit_mask_iff [of 5 k, where 'a = u8]
      by (auto simp: bit_and_iff)
    with L show ?thesis by simp
  qed
  have two: "(3 :: u8) = mask 2" by (simp add: mask_eq_exp_minus_1)
  have b5: "bit (32 :: int) n \<longleftrightarrow> n = 5" for n
    using bit_exp_iff [of 5 n, where 'a = int] by simp
  show ?R
  proof (rule bit_word_eqI)
    fix n assume "n < LENGTH(8)"
    then have n: "n < 8" by simp
    consider "n < 5" | "n = 5" | "6 \<le> n" by linarith
    then show "bit b n = bit (push_bit 6 (drop_bit 6 b AND 0x03) OR 0x20) n"
      using n five low unfolding two by cases (auto simp: bit_simps b5)
  qed
next
  assume ?R
  have "drop_bit 6 b AND 0x03 \<le> 3"
    by (simp add: word_and_le1)
  from key_octet(1,2) [OF this] \<open>?R\<close> show ?L by metis
qed

lemma parse_octets:
  "CcmpHeader_parse [b0, b1, b2, b3, b4, b5, b6, b7] = Ok h \<longleftrightarrow>
     b2 = 0 \<and> b3 = push_bit 6 (drop_bit 6 b3 AND 0x03) OR 0x20
     \<and> h = \<lparr>header_packet_number = CcmpPacketNumber (six_octets b0 b1 b4 b5 b6 b7),
            header_key_id = CcmpKeyId (drop_bit 6 b3 AND 0x03)\<rparr>"
  using key_octet_iff [of b3] unfolding CcmpHeader_parse_def from_header_bytes_eq
  by (auto simp: numeral_nat simp del: push_bit_and push_bit_or)

lemma length_eight: "length xs = 8 \<Longrightarrow> \<exists>a b c d e f g h. xs = [a, b, c, d, e, f, g, h]"
  by (simp add: length_Suc_conv numeral_nat) blast

lemma parse_encode: "header_ok h \<Longrightarrow> CcmpHeader_parse (CcmpHeader_encode h) = Ok h"
  using six_octets_split [of "pn_value (header_packet_number h)"]
    key_octet(3) [of "key_id_value (header_key_id h)"]
  unfolding header_ok_def pn_ok_bits CcmpHeader_encode_def header_bits_def Let_def parse_octets
  by (auto intro: CcmpHeader.equality)

lemma parse_encoded:
  assumes "length bytes = 8" "CcmpHeader_parse bytes = Ok h"
  shows "header_ok h \<and> bytes = CcmpHeader_encode h"
proof -
  obtain b0 b1 b2 b3 b4 b5 b6 b7 where bytes: "bytes = [b0, b1, b2, b3, b4, b5, b6, b7]"
    using length_eight [OF assms(1)] by blast
  from assms(2)
  have p: "b2 = 0" "b3 = push_bit 6 (drop_bit 6 b3 AND 0x03) OR 0x20"
    "h = \<lparr>header_packet_number = CcmpPacketNumber (six_octets b0 b1 b4 b5 b6 b7),
          header_key_id = CcmpKeyId (drop_bit 6 b3 AND 0x03)\<rparr>"
    unfolding bytes parse_octets by auto
  then show "header_ok h \<and> bytes = CcmpHeader_encode h"
    unfolding bytes header_ok_def CcmpHeader_encode_def header_bits_def Let_def
    by (simp add: six_octets_ok six_octets_join word_and_le1)
qed

text \<open>
  The CCMP header codec is exact in both directions.  On eight octets, parsing accepts precisely
  the encodings of headers with a 48-bit packet number and a two-bit key identifier, and returns the
  header they encode: nothing that parses is malleable and every such header survives the round trip.
\<close>

theorem ccmp_header_codec:
  assumes "length bytes = 8"
  shows "CcmpHeader_parse bytes = Ok h \<longleftrightarrow> header_ok h \<and> bytes = CcmpHeader_encode h"
  using parse_encoded [OF assms] parse_encode [of h] by blast

theorem ccmp_header_codec_witness:
  "CcmpHeader_parse [0x34, 0x12, 0, 0xa0, 0x78, 0x56, 0xbc, 0x9a]
     = Ok \<lparr>header_packet_number = CcmpPacketNumber 0x9abc56781234, header_key_id = CcmpKeyId 2\<rparr>"
  by (subst ccmp_header_codec)
     (simp_all add: header_ok_def pn_ok_def CCMP_PACKET_NUMBER_MAX_eq CcmpHeader_encode_def
       header_bits_def)

text \<open>
  The raw header builder is the header encoder: for a 16-bit high part, \<open>ccmp_header\<close> with the
  key bits of a key identifier is the encoding of the packet number \<open>high * 2\<^sup>3\<^sup>2 + low\<close>.
\<close>

theorem ccmp_header_is_encode:
  assumes "unat high < 65536"
  shows "ccmp_header low high (header_bits k) = CcmpHeader_encode
    (CcmpHeader_new (CcmpPacketNumber (push_bit 32 (ucast high) OR ucast low)) k)"
proof -
  have high: "\<not> bit high n" if "16 \<le> n" for n
    using bit_less_exp [of high 16 n] assms that by auto
  have low: "\<not> bit low n" if "32 \<le> n" for n
    using bit_imp_le_length [of low n] that by auto
  have "ucast low = (ucast (push_bit 32 (ucast high) OR ucast low :: u64) :: u8)"
    "ucast (drop_bit 8 low) = (ucast (drop_bit 8 (push_bit 32 (ucast high) OR ucast low :: u64)) :: u8)"
    "ucast (drop_bit 16 low) = (ucast (drop_bit 16 (push_bit 32 (ucast high) OR ucast low :: u64)) :: u8)"
    "ucast (drop_bit 24 low) = (ucast (drop_bit 24 (push_bit 32 (ucast high) OR ucast low :: u64)) :: u8)"
    "ucast high = (ucast (drop_bit 32 (push_bit 32 (ucast high) OR ucast low :: u64)) :: u8)"
    "ucast (drop_bit 8 high) = (ucast (drop_bit 40 (push_bit 32 (ucast high) OR ucast low :: u64)) :: u8)"
    by (rule bit_word_eqI, auto simp: bit_simps low high)+
  then show ?thesis
    by (simp add: ccmp_header_def CcmpHeader_encode_def CcmpHeader_new_def Let_def)
qed

theorem ccmp_header_is_encode_witness:
  "ccmp_header 0x56781234 0x9abc (header_bits (CcmpKeyId 2))
     = CcmpHeader_encode (CcmpHeader_new (CcmpPacketNumber 0x9abc56781234) (CcmpKeyId 2))"
  using ccmp_header_is_encode [of "0x9abc" "0x56781234" "CcmpKeyId 2"] by simp

subsection \<open>Transmit packet numbers\<close>

definition tx_ok :: "CcmpTxPacketNumber \<Rightarrow> bool" where
  "tx_ok self \<longleftrightarrow> last_pn self \<le> CCMP_PACKET_NUMBER_MAX \<and> step_get (pn_step self) \<noteq> 0"

text \<open>The headers a sequence of MPDUs gets, by the key identifier each names.\<close>

fun next_headers :: "CcmpTxPacketNumber \<Rightarrow> CcmpKeyId list \<Rightarrow> u8 list list" where
  "next_headers self [] = []"
| "next_headers self (k # ks) =
     (case next_header self k of
        (Err e, self') \<Rightarrow> next_headers self' ks
      | (Ok header, self') \<Rightarrow> header # next_headers self' ks)"

abbreviation pn_room :: "CcmpTxPacketNumber \<Rightarrow> nat" where
  "pn_room self \<equiv> (2 ^ 48 - 1 - unat (last_pn self)) div unat (step_get (pn_step self))"

lemma allocate_next:
  assumes "tx_ok self"
  shows "unat (last_pn self + ucast (step_get (pn_step self)))
           = unat (last_pn self) + unat (step_get (pn_step self))"
  using assms unat_u8_less [of "step_get (pn_step self)"]
  by (simp add: tx_ok_def CCMP_PACKET_NUMBER_MAX_eq word_le_nat_alt unat_word_ariths)

lemma allocate_cases:
  assumes ok: "tx_ok self"
  obtains
    (exhausted) "allocate self = (Err Exhausted, self)" "pn_room self = 0"
  | (given) p self' where "allocate self = (Ok p, self')" "tx_ok self'" "pn_ok p"
      "pn_value p = last_pn self'" "pn_step self' = pn_step self"
      "unat (last_pn self') = unat (last_pn self) + unat (step_get (pn_step self))"
      "pn_room self = Suc (pn_room self')"
proof -
  let ?s = "unat (step_get (pn_step self))"
  let ?next = "last_pn self + ucast (step_get (pn_step self))"
  have s: "0 < ?s" using ok by (simp add: tx_ok_def unat_gt_0)
  show thesis
  proof (cases "CCMP_PACKET_NUMBER_MAX < ?next")
    case True
    then have "2 ^ 48 - 1 - unat (last_pn self) < ?s"
      using allocate_next [OF ok] s ok
      by (simp add: word_less_nat_alt word_le_nat_alt CCMP_PACKET_NUMBER_MAX_eq tx_ok_def) linarith
    with True show thesis by (intro exhausted) (simp_all add: allocate_def)
  next
    case False
    then have fits: "unat (last_pn self) + ?s \<le> 2 ^ 48 - 1"
      using allocate_next [OF ok] by (simp add: word_less_nat_alt CCMP_PACKET_NUMBER_MAX_eq)
    let ?self' = "self\<lparr>last_pn := ?next\<rparr>"
    have "2 ^ 48 - 1 - unat (last_pn self) = (2 ^ 48 - 1 - unat (last_pn ?self')) + ?s"
      using fits allocate_next [OF ok] by simp
    then have "pn_room self = (2 ^ 48 - 1 - unat (last_pn ?self') + ?s) div ?s" by (simp only:)
    also have "\<dots> = Suc (pn_room ?self')"
      using s div_add_self2 [of ?s "2 ^ 48 - 1 - unat (last_pn ?self')"] by simp
    finally have room: "pn_room self = Suc (pn_room ?self')" .
    show thesis
    proof (rule given [of "CcmpPacketNumber ?next" ?self'])
      show "pn_room self = Suc (pn_room ?self')" by (rule room)
    qed (use False ok allocate_next [OF ok] in \<open>auto simp: allocate_def tx_ok_def pn_ok_def Let_def\<close>)
  qed
qed

lemma unat_of_nat_small: "n \<le> 2 ^ 48 - 1 \<Longrightarrow> unat (of_nat n :: u64) = n"
  by (simp add: unat_of_nat)

lemma word_of_nat_of_unat: "of_nat (unat w) = w" for w :: u64
  by simp

text \<open>The packet numbers are the multiples of the step above the last one, until they run out.\<close>

lemma next_headers_numbers:
  assumes "tx_ok self"
  shows "next_headers self ks
    = map (\<lambda>(i, k). CcmpHeader_encode (CcmpHeader_new
          (CcmpPacketNumber (of_nat (unat (last_pn self) + Suc i * unat (step_get (pn_step self))))) k))
        (zip [0..<pn_room self] ks)"
  using assms
proof (induction ks arbitrary: self)
  case (Cons k ks)
  show ?case
  proof (rule allocate_cases [OF Cons.prems])
    assume ex: "allocate self = (Err Exhausted, self)" "pn_room self = 0"
    have "next_headers self (k # ks) = next_headers self ks"
      using ex(1) by (simp add: next_header_def)
    also have "\<dots> = []" using Cons.IH [OF Cons.prems] unfolding ex(2) by simp
    finally show ?thesis unfolding ex(2) by simp
  next
    fix p self'
    let ?s = "unat (step_get (pn_step self))"
    assume given: "allocate self = (Ok p, self')" "tx_ok self'" "pn_value p = last_pn self'"
      "pn_step self' = pn_step self" "unat (last_pn self') = unat (last_pn self) + ?s"
      "pn_room self = Suc (pn_room self')"
    have p: "p = CcmpPacketNumber (of_nat (unat (last_pn self) + Suc 0 * ?s))"
    proof -
      have "unat (last_pn self) + Suc 0 * ?s = unat (last_pn self')" using given(5) by simp
      then have "pn_value p = of_nat (unat (last_pn self) + Suc 0 * ?s)"
        using given(3) by (simp only: word_of_nat_of_unat)
      then show ?thesis by (cases p) simp
    qed
    have "next_headers self (k # ks)
        = CcmpHeader_encode (CcmpHeader_new p k) # next_headers self' ks"
      using given(1) by (simp add: next_header_def)
    also have "next_headers self' ks
        = map (\<lambda>(i, k). CcmpHeader_encode (CcmpHeader_new
            (CcmpPacketNumber (of_nat (unat (last_pn self) + Suc (Suc i) * ?s))) k))
          (zip [0..<pn_room self'] ks)"
      unfolding Cons.IH [OF given(2)] given(4,5) by (simp add: algebra_simps)
    finally have headers: "next_headers self (k # ks) = CcmpHeader_encode (CcmpHeader_new p k)
        # map (\<lambda>(i, k). CcmpHeader_encode (CcmpHeader_new
            (CcmpPacketNumber (of_nat (unat (last_pn self) + Suc (Suc i) * ?s))) k))
          (zip [0..<pn_room self'] ks)" .
    have zip: "zip [0..<pn_room self] (k # ks)
        = (0, k) # map (\<lambda>(i, k). (Suc i, k)) (zip [0..<pn_room self'] ks)"
      unfolding given(6) by (simp add: upt_conv_Cons zip_map1 del: upt_Suc flip: map_Suc_upt)
    show ?thesis
      unfolding headers zip p list.map map_map by (simp add: case_prod_beta comp_def algebra_simps)
  qed
qed simp

text \<open>
  C25. A transmit key never repeats a packet number.  Over any sequence of MPDUs, whatever key
  identifiers they name, the headers carry the packet numbers \<open>last + step, last + 2 step, \<dots>\<close> and
  every one of them stays within 48 bits; when the space is used up every later call fails, so the
  headers of a run are pairwise distinct and each parses back to its own packet number.
\<close>

theorem tx_headers_never_repeat:
  assumes "tx_ok self" and "\<forall>k\<in>set ks. key_id_value k \<le> 3"
  shows "distinct (next_headers self ks)
    \<and> map CcmpHeader_parse (next_headers self ks)
      = map (\<lambda>(i, k). Ok (CcmpHeader_new (CcmpPacketNumber
            (of_nat (unat (last_pn self) + Suc i * unat (step_get (pn_step self))))) k))
          (zip [0..<pn_room self] ks)
    \<and> length (next_headers self ks) = min (pn_room self) (length ks)"
proof -
  let ?s = "unat (step_get (pn_step self))"
  let ?pn = "\<lambda>i. CcmpPacketNumber (of_nat (unat (last_pn self) + Suc i * ?s))"
  let ?zs = "zip [0..<pn_room self] ks"
  have s: "0 < ?s" using assms(1) by (simp add: tx_ok_def unat_gt_0)
  have last: "unat (last_pn self) \<le> 2 ^ 48 - 1"
    using assms(1) by (simp add: tx_ok_def CCMP_PACKET_NUMBER_MAX_eq word_le_nat_alt)
  have small: "unat (last_pn self) + Suc i * ?s \<le> 2 ^ 48 - 1" if "i < pn_room self" for i
  proof -
    have "Suc i * ?s \<le> pn_room self * ?s" using that by (intro mult_le_mono1) simp
    also have "\<dots> \<le> 2 ^ 48 - 1 - unat (last_pn self)" by (rule div_times_less_eq_dividend)
    finally show ?thesis using last by simp
  qed
  then have value_pn: "unat (pn_value (?pn i)) = unat (last_pn self) + Suc i * ?s"
    if "i < pn_room self" for i
    using unat_of_nat_small [OF small [OF that]] by (simp only: CcmpPacketNumber.sel)
  have parse: "CcmpHeader_parse (CcmpHeader_encode (CcmpHeader_new (?pn i) k)) = Ok (CcmpHeader_new (?pn i) k)"
    if "(i, k) \<in> set ?zs" for i k
  proof -
    have i: "i < pn_room self" and k: "k \<in> set ks"
      using set_zip_leftD [OF that] set_zip_rightD [OF that] by auto
    have "pn_ok (?pn i)"
      using small [OF i] unfolding pn_ok_iff value_pn [OF i] by (simp del: mult_Suc)
    then show ?thesis
      using assms(2) k by (intro parse_encode) (simp add: header_ok_def CcmpHeader_new_def)
  qed
  have parsed: "map CcmpHeader_parse (next_headers self ks)
      = map (\<lambda>(i, k). Ok (CcmpHeader_new (?pn i) k)) ?zs"
    unfolding next_headers_numbers [OF assms(1)] map_map by (intro map_cong refl) (use parse in force)
  have "inj_on (\<lambda>(i, k). Ok (CcmpHeader_new (?pn i) k) :: (CcmpHeader, CcmpHeaderError) result)
      (set ?zs)"
  proof (rule inj_onI)
    fix x y
    assume x: "x \<in> set ?zs" and y: "y \<in> set ?zs"
      and eq: "(\<lambda>(i, k). Ok (CcmpHeader_new (?pn i) k) :: (CcmpHeader, CcmpHeaderError) result) x
        = (\<lambda>(i, k). Ok (CcmpHeader_new (?pn i) k)) y"
    obtain i k j l where xy: "x = (i, k)" "y = (j, l)" by (cases x, cases y)
    have "i < pn_room self" "j < pn_room self"
      using set_zip_leftD [OF x [unfolded xy]] set_zip_leftD [OF y [unfolded xy]] by auto
    moreover from eq have "pn_value (?pn i) = pn_value (?pn j)" "k = l"
      unfolding xy by (simp_all only: case_prod_conv CcmpHeader_new_def result.inject
          CcmpHeader.ext_inject)
    ultimately have "unat (last_pn self) + Suc i * ?s = unat (last_pn self) + Suc j * ?s"
      using value_pn by metis
    with s \<open>k = l\<close> show "x = y" unfolding xy by (simp del: mult_Suc)
  qed
  then have "distinct (map CcmpHeader_parse (next_headers self ks))"
    unfolding parsed by (simp add: distinct_map distinct_zipI1)
  then have "distinct (next_headers self ks)" by (simp add: distinct_map)
  with parsed show ?thesis by (simp add: next_headers_numbers [OF assms(1)])
qed

theorem tx_headers_never_repeat_witness:
  "distinct (next_headers \<lparr>last_pn = 0xfffffffffff9, pn_step = CcmpPacketNumberStep 3\<rparr>
      [CcmpKeyId 0, CcmpKeyId 1, CcmpKeyId 0])
   \<and> length (next_headers \<lparr>last_pn = 0xfffffffffff9, pn_step = CcmpPacketNumberStep 3\<rparr>
      [CcmpKeyId 0, CcmpKeyId 1, CcmpKeyId 0]) = 2"
proof -
  have "tx_ok \<lparr>last_pn = 0xfffffffffff9, pn_step = CcmpPacketNumberStep 3\<rparr>"
    by (simp add: tx_ok_def CCMP_PACKET_NUMBER_MAX_eq)
  from tx_headers_never_repeat [OF this, of "[CcmpKeyId 0, CcmpKeyId 1, CcmpKeyId 0]"]
  show ?thesis by simp
qed

subsection \<open>Receive replay frontiers\<close>

definition replay_ok :: "CcmpRxReplayState \<Rightarrow> bool" where
  "replay_ok s \<longleftrightarrow> length (highest s) = CCMP_REPLAY_LANE_COUNT"

lemma replay_new_ok: "replay_ok (CcmpRxReplayState_new p)"
  by (simp add: replay_ok_def CcmpRxReplayState_new_def)

lemma replay_from_sequence_ok:
  "CcmpRxReplayState_from_receive_sequence sequence = Ok s \<Longrightarrow> replay_ok s"
  by (auto simp: CcmpRxReplayState_from_receive_sequence_def replay_new_ok split: result.splits)

lemma replay_commit_ok: "replay_ok s \<Longrightarrow> replay_ok (replay_commit s c)"
  by (simp add: replay_ok_def replay_commit_def)

lemma lane_index_less: "lane_index lane = Some i \<Longrightarrow> i < CCMP_REPLAY_LANE_COUNT"
  by (cases lane) (auto simp: CCMP_REPLAY_LANE_COUNT_def word_less_nat_alt split: if_splits)

lemma lane_index_inj: "lane_index l = Some i \<Longrightarrow> lane_index m = Some i \<Longrightarrow> l = m"
  by (cases l; cases m) (auto simp: word_unat_eq_iff split: if_splits)

text \<open>\<open>prepare\<close> checks one lane; the candidate it returns names that lane's frontier.\<close>

lemma replay_prepare_Ok_iff:
  "replay_prepare s lane p = Ok c \<longleftrightarrow>
     (\<exists>i. lane_index lane = Some i \<and> highest s ! i < p
        \<and> c = \<lparr>cand_frontier = i, cand_lane = lane, cand_packet_number = p\<rparr>)"
  by (auto simp: replay_prepare_def Let_def not_le split: option.splits)

lemma replay_highest_commit:
  assumes "replay_ok s" "replay_prepare s lane p = Ok c"
  shows "replay_highest (replay_commit s c) = (replay_highest s)(lane \<mapsto> p)"
proof
  fix other
  obtain i where i: "lane_index lane = Some i" "cand_frontier c = i" "cand_packet_number c = p"
    using assms(2) by (auto simp: replay_prepare_Ok_iff)
  have "i < length (highest s)"
    using lane_index_less [OF i(1)] assms(1) by (simp add: replay_ok_def)
  show "replay_highest (replay_commit s c) other = ((replay_highest s)(lane \<mapsto> p)) other"
  proof (cases "other = lane")
    case True
    with i \<open>i < length (highest s)\<close> show ?thesis
      by (simp add: replay_highest_def replay_commit_def)
  next
    case False
    then have "lane_index other \<noteq> Some i" using lane_index_inj [OF i(1)] by blast
    with False i show ?thesis
      by (auto simp: replay_highest_def replay_commit_def split: option.split)
  qed
qed

text \<open>
  The immediate check as an admission: it provides the interface \<open>rising_frontier\<close> with the lane's
  highest admitted packet number as the frontier.
\<close>

definition replay_admit ::
    "CcmpRxReplayState \<Rightarrow> CcmpReplayLane \<Rightarrow> CcmpPacketNumber \<Rightarrow> CcmpRxReplayState option" where
  "replay_admit s lane p =
     (case commit_immediate s lane p of (Ok _, s') \<Rightarrow> Some s' | (Err _, _) \<Rightarrow> None)"

definition replay_frontier :: "CcmpRxReplayState \<Rightarrow> CcmpReplayLane \<Rightarrow> CcmpPacketNumber" where
  "replay_frontier s lane =
     (case replay_highest s lane of Some p \<Rightarrow> p | None \<Rightarrow> CcmpPacketNumber_ZERO)"

lemma replay_admit_Some_iff:
  "replay_admit s lane p = Some s' \<longleftrightarrow>
     (\<exists>c. replay_prepare s lane p = Ok c \<and> s' = replay_commit s c)"
  by (auto simp: replay_admit_def commit_immediate_def split: result.splits)

interpretation replay: rising_frontier replay_ok replay_admit replay_frontier
proof
  fix s lane p s'
  assume s: "replay_ok s" "replay_admit s lane p = Some s'"
  then obtain c where c: "replay_prepare s lane p = Ok c" "s' = replay_commit s c"
    by (auto simp: replay_admit_Some_iff)
  show "replay_ok s'" using s c by (simp add: replay_commit_ok)
  show "replay_frontier s lane < p"
    using c(1) by (auto simp: replay_prepare_Ok_iff replay_frontier_def replay_highest_def)
  show "replay_frontier s' = (replay_frontier s)(lane := p)"
    using replay_highest_commit [OF s(1) c(1)] c(2)
    by (auto simp: replay_frontier_def fun_eq_iff)
qed

text \<open>
  Replay protection of one key.  Over any sequence of checked frames, the packet numbers
  admitted on a lane are strictly increasing and lie above the frontier the key was installed with,
  so no frame is admitted twice on its lane; and the check refuses no fresh frame: a packet number
  above its lane's frontier is always admitted, moving that lane's frontier alone.
\<close>

theorem replay_lane_never_repeats:
  assumes "replay_ok s"
  shows "sorted_wrt (\<lambda>(l, n) (l', n'). l = l' \<longrightarrow> n < n') (admitted replay_admit s frames)
    \<and> distinct (admitted replay_admit s frames)
    \<and> (\<forall>(l, n) \<in> set (admitted replay_admit s frames). replay_frontier s l < n)
    \<and> (\<forall>l h n. replay_highest s l = Some h \<and> h < n
         \<longrightarrow> (\<exists>s'. commit_immediate s l n = (Ok (), s')
               \<and> replay_highest s' = (replay_highest s)(l \<mapsto> n)))"
proof (intro conjI allI impI)
  show "\<forall>(l, n) \<in> set (admitted replay_admit s frames). replay_frontier s l < n"
    using replay.admitted_above [OF assms] by blast
  fix l h n
  assume "replay_highest s l = Some h \<and> h < n"
  then obtain c where c: "replay_prepare s l n = Ok c"
    by (auto simp: replay_highest_def replay_prepare_Ok_iff split: option.splits)
  then show "\<exists>s'. commit_immediate s l n = (Ok (), s')
      \<and> replay_highest s' = (replay_highest s)(l \<mapsto> n)"
    using replay_highest_commit [OF assms c] by (auto simp: commit_immediate_def)
qed (use assms in \<open>simp_all add: replay.admitted_rising replay.admitted_distinct\<close>)

theorem replay_lane_never_repeats_witness:
  "admitted replay_admit (CcmpRxReplayState_new (CcmpPacketNumber 4))
     [(Tid 0, CcmpPacketNumber 5), (Tid 0, CcmpPacketNumber 5), (NonQos, CcmpPacketNumber 5),
      (Tid 0, CcmpPacketNumber 9), (Tid 0, CcmpPacketNumber 7)]
   = [(Tid 0, CcmpPacketNumber 5), (NonQos, CcmpPacketNumber 5), (Tid 0, CcmpPacketNumber 9)]
   \<and> distinct (admitted replay_admit (CcmpRxReplayState_new (CcmpPacketNumber 4))
     [(Tid 0, CcmpPacketNumber 5), (Tid 0, CcmpPacketNumber 5)])"
proof
  show "distinct (admitted replay_admit (CcmpRxReplayState_new (CcmpPacketNumber 4))
     [(Tid 0, CcmpPacketNumber 5), (Tid 0, CcmpPacketNumber 5)])"
    using replay_lane_never_repeats [OF replay_new_ok] by blast
qed code_simp

end
