(* ===== verification/Ccmp_Replay.thy ===== *)
theory Ccmp_Replay
  imports Ccmp
begin

text \<open>
  The replay check of one association, \<open>crates/protocols/ieee80211/mac/src/ccmp/replay.rs\<close>: the
  frontiers of the pairwise key and of the group key installed under each of the four wire
  identifiers.  \<open>prepare\<close> lends one frontier of the epoch; the model's candidate says which key's
  state it borrows (\<open>FrontierOwner\<close>) beside the candidate of that state.
\<close>

datatype CcmpRxProtection = Pairwise | Group | Other

datatype CcmpRxReplayError =
    InvalidPairwiseReceiveSequence
  | InvalidGroupReceiveSequence
  | ForeignDestination
  | UnexpectedKeyId CcmpKeyId
  | UninstalledGroupKey CcmpKeyId
  | Replay CcmpReplayError

record CcmpRxReplayEpoch =
  pairwise :: CcmpRxReplayState
  groups :: "CcmpRxReplayState option list"

definition epoch_pairwise :: "u8 list \<Rightarrow> (CcmpRxReplayEpoch, CcmpRxReplayError) result" where
  "epoch_pairwise receive_sequence =
     (case map_err (\<lambda>_. InvalidPairwiseReceiveSequence)
             (CcmpRxReplayState_from_receive_sequence receive_sequence) of
        Err e \<Rightarrow> Err e
      | Ok state \<Rightarrow> Ok \<lparr>pairwise = state, groups = [None, None, None, None]\<rparr>)"

definition exchange_group ::
    "CcmpRxReplayEpoch \<Rightarrow> GroupKeyId \<Rightarrow> CcmpRxReplayState
     \<Rightarrow> CcmpRxReplayState option \<times> CcmpRxReplayEpoch" where
  "exchange_group self key_id state =
     (group_select key_id (groups self),
      self\<lparr>groups := group_select_mut key_id (Some state) (groups self)\<rparr>)"

definition has_group :: "CcmpRxReplayEpoch \<Rightarrow> GroupKeyId \<Rightarrow> bool" where
  "has_group self key_id = (group_select key_id (groups self) \<noteq> None)"

definition install_group_epoch ::
    "CcmpRxReplayEpoch \<Rightarrow> GroupKeyId \<Rightarrow> CcmpRxReplayState \<Rightarrow> CcmpRxReplayEpoch" where
  "install_group_epoch self key_id epoch =
     self\<lparr>groups := group_select_mut key_id (Some epoch) (groups self)\<rparr>"

definition install_group ::
    "CcmpRxReplayEpoch \<Rightarrow> GroupKeyId \<Rightarrow> u8 list
     \<Rightarrow> (unit, CcmpRxReplayError) result \<times> CcmpRxReplayEpoch" where
  "install_group self key_id receive_sequence =
     (case map_err (\<lambda>_. InvalidGroupReceiveSequence)
             (CcmpRxReplayState_from_receive_sequence receive_sequence) of
        Err e \<Rightarrow> (Err e, self)
      | Ok state \<Rightarrow> (Ok (), install_group_epoch self key_id state))"

definition remove_group :: "CcmpRxReplayEpoch \<Rightarrow> GroupKeyId \<Rightarrow> CcmpRxReplayEpoch" where
  "remove_group self key_id = self\<lparr>groups := group_select_mut key_id None (groups self)\<rparr>"

definition epoch_new ::
    "u8 list \<Rightarrow> GroupKeyId \<Rightarrow> u8 list \<Rightarrow> (CcmpRxReplayEpoch, CcmpRxReplayError) result" where
  "epoch_new pairwise_receive_sequence group_key_id group_receive_sequence =
     (case epoch_pairwise pairwise_receive_sequence of
        Err e \<Rightarrow> Err e
      | Ok epoch \<Rightarrow>
          (case install_group epoch group_key_id group_receive_sequence of
             (Err e, _) \<Rightarrow> Err e
           | (Ok _, epoch') \<Rightarrow> Ok epoch'))"

datatype FrontierOwner = PairwiseKey | GroupKey GroupKeyId

definition epoch_prepare ::
    "CcmpRxReplayEpoch \<Rightarrow> CcmpRxProtection \<Rightarrow> u8 option \<Rightarrow> CcmpHeader
     \<Rightarrow> (FrontierOwner \<times> CcmpRxReplayCandidate, CcmpRxReplayError) result" where
  "epoch_prepare self protection tid header =
     (let lane = (case tid of Some tid \<Rightarrow> Tid tid | None \<Rightarrow> NonQos)
      in case protection of
           Pairwise \<Rightarrow>
             if header_key_id header \<noteq> CcmpKeyId_PAIRWISE
             then Err (UnexpectedKeyId (header_key_id header))
             else (case map_err Replay
                     (replay_prepare (pairwise self) lane (header_packet_number header)) of
                     Err e \<Rightarrow> Err e
                   | Ok candidate \<Rightarrow> Ok (PairwiseKey, candidate))
         | Group \<Rightarrow>
             (let observed = header_key_id header
              in case GroupKeyId_new (key_id_value observed) of
                   None \<Rightarrow> Err (UninstalledGroupKey observed)
                 | Some key_id \<Rightarrow>
                     (case group_select key_id (groups self) of
                        None \<Rightarrow> Err (UninstalledGroupKey observed)
                      | Some state \<Rightarrow>
                          (case map_err Replay
                             (replay_prepare state lane (header_packet_number header)) of
                             Err e \<Rightarrow> Err e
                           | Ok candidate \<Rightarrow> Ok (GroupKey key_id, candidate))))
         | Other \<Rightarrow> Err ForeignDestination)"

fun epoch_commit ::
    "CcmpRxReplayEpoch \<Rightarrow> FrontierOwner \<times> CcmpRxReplayCandidate \<Rightarrow> CcmpRxReplayEpoch" where
  "epoch_commit self (PairwiseKey, candidate) =
     self\<lparr>pairwise := replay_commit (pairwise self) candidate\<rparr>"
| "epoch_commit self (GroupKey key_id, candidate) =
     self\<lparr>groups := group_select_mut key_id
       (map_option (\<lambda>state. replay_commit state candidate) (group_select key_id (groups self)))
       (groups self)\<rparr>"

definition epoch_check ::
    "CcmpRxReplayEpoch \<Rightarrow> CcmpRxProtection \<Rightarrow> u8 option \<Rightarrow> CcmpHeader
     \<Rightarrow> (unit, CcmpRxReplayError) result \<times> CcmpRxReplayEpoch" where
  "epoch_check self protection tid header =
     (case epoch_prepare self protection tid header of
        Err e \<Rightarrow> (Err e, self)
      | Ok candidate \<Rightarrow> (Ok (), epoch_commit self candidate))"

subsection \<open>Invariant and frontiers\<close>

definition epoch_ok :: "CcmpRxReplayEpoch \<Rightarrow> bool" where
  "epoch_ok e \<longleftrightarrow> replay_ok (pairwise e) \<and> length (groups e) = 4
     \<and> (\<forall>g\<in>set (flatten (groups e)). replay_ok g)"

text \<open>The frontier state of a key; the pairwise key always has one.\<close>

fun owner_state :: "CcmpRxReplayEpoch \<Rightarrow> FrontierOwner \<Rightarrow> CcmpRxReplayState option" where
  "owner_state e PairwiseKey = Some (pairwise e)"
| "owner_state e (GroupKey k) = group_select k (groups e)"

lemma group_position_less: "group_position k < 4"
  by (cases k rule: group_position.cases) auto

lemma group_position_inj: "group_position k = group_position l \<longleftrightarrow> k = l"
  by (cases k rule: group_position.cases; cases l rule: group_position.cases) auto

lemma group_select_upd:
  "length xs = 4 \<Longrightarrow> group_select l (group_select_mut k x xs) = (if l = k then x else group_select l xs)"
  using group_position_less [of k] group_position_inj [of l k]
  by (auto simp: group_select_def group_select_mut_def nth_list_update)

lemma length_group_select_mut [simp]: "length (group_select_mut k x xs) = length xs"
  by (simp add: group_select_mut_def)

lemma epoch_ok_owner: "epoch_ok e \<Longrightarrow> owner_state e o1 = Some s \<Longrightarrow> replay_ok s"
proof (cases o1)
  case (GroupKey k)
  assume "epoch_ok e" "owner_state e o1 = Some s"
  then have "Some s \<in> set (groups e)"
    using GroupKey group_position_less [of k] by (force simp: epoch_ok_def group_select_def in_set_conv_nth)
  with \<open>epoch_ok e\<close> show "replay_ok s" by (auto simp: epoch_ok_def set_flatten)
qed (auto simp: epoch_ok_def)

lemma epoch_ok_group_mut:
  assumes "epoch_ok e" "\<And>s. g = Some s \<Longrightarrow> replay_ok s"
  shows "epoch_ok (e\<lparr>groups := group_select_mut k g (groups e)\<rparr>)"
  using assms set_update_subset_insert [of "groups e" "group_position k" g]
  by (auto simp: epoch_ok_def group_select_mut_def set_flatten)

lemma GroupKeyId_new_Some_iff: "GroupKeyId_new v = Some k \<longleftrightarrow> v = GroupKeyId_get k"
  by (cases k rule: GroupKeyId_get.cases) (auto simp: GroupKeyId_new_def)

lemma GroupKeyId_get_inj [simp]: "GroupKeyId_get k = GroupKeyId_get l \<longleftrightarrow> k = l"
  by (cases k rule: GroupKeyId_get.cases; cases l rule: GroupKeyId_get.cases) auto

lemma GroupKeyId_new_get [simp]: "GroupKeyId_new (GroupKeyId_get k) = Some k"
  by (simp add: GroupKeyId_new_Some_iff)

text \<open>Which frame headers a key's frontier answers for.\<close>

fun owner_protection :: "FrontierOwner \<Rightarrow> CcmpRxProtection" where
  "owner_protection PairwiseKey = Pairwise"
| "owner_protection (GroupKey k) = Group"

fun owner_key_id :: "FrontierOwner \<Rightarrow> CcmpKeyId" where
  "owner_key_id PairwiseKey = CcmpKeyId_PAIRWISE"
| "owner_key_id (GroupKey k) = GroupKeyId_key_id k"

fun lane_tid :: "CcmpReplayLane \<Rightarrow> u8 option" where
  "lane_tid NonQos = None"
| "lane_tid (Tid t) = Some t"

definition tid_lane :: "u8 option \<Rightarrow> CcmpReplayLane" where
  "tid_lane t = (case t of Some tid \<Rightarrow> Tid tid | None \<Rightarrow> NonQos)"

lemma tid_lane_inverse [simp]: "tid_lane (lane_tid l) = l" "lane_tid (tid_lane t) = t"
  by (cases l; simp add: tid_lane_def) (cases t; simp add: tid_lane_def)

lemma epoch_prepare_Ok_iff:
  "epoch_prepare e prot t h = Ok (o1, c) \<longleftrightarrow>
     prot = owner_protection o1 \<and> header_key_id h = owner_key_id o1
     \<and> (\<exists>s. owner_state e o1 = Some s \<and> replay_prepare s (tid_lane t) (header_packet_number h) = Ok c)"
proof -
  have key: "header_key_id h = CcmpKeyId (GroupKeyId_get k)
      \<longleftrightarrow> key_id_value (header_key_id h) = GroupKeyId_get k" for k
    by (cases "header_key_id h") auto
  show ?thesis
    by (cases o1; cases prot)
       (auto simp: epoch_prepare_def Let_def GroupKeyId_key_id_def GroupKeyId_new_Some_iff key
         simp flip: tid_lane_def split: option.splits result.splits if_splits)
qed

lemma owner_state_commit:
  assumes "epoch_ok e" "owner_state e o1 = Some s"
  shows "owner_state (epoch_commit e (o1, c)) = (owner_state e)(o1 \<mapsto> replay_commit s c)"
proof
  fix o2
  have "length (groups e) = 4" using assms(1) by (simp add: epoch_ok_def)
  with assms(2) show "owner_state (epoch_commit e (o1, c)) o2
      = ((owner_state e)(o1 \<mapsto> replay_commit s c)) o2"
    by (cases o1; cases o2) (auto simp: group_select_upd)
qed

lemma epoch_commit_ok:
  assumes "epoch_ok e" "owner_state e o1 = Some s"
  shows "epoch_ok (epoch_commit e (o1, c))"
proof (cases o1)
  case PairwiseKey
  with assms show ?thesis by (simp add: epoch_ok_def replay_commit_ok)
next
  case (GroupKey k)
  with assms epoch_ok_owner [OF assms] show ?thesis
    by (auto intro!: epoch_ok_group_mut simp: replay_commit_ok)
qed

text \<open>The association's check as an admission on the lanes of its keys.\<close>

definition epoch_admit ::
    "CcmpRxReplayEpoch \<Rightarrow> FrontierOwner \<times> CcmpReplayLane \<Rightarrow> CcmpPacketNumber
     \<Rightarrow> CcmpRxReplayEpoch option" where
  "epoch_admit e = (\<lambda>(owner, lane) p.
     case epoch_check e (owner_protection owner) (lane_tid lane)
            (CcmpHeader_new p (owner_key_id owner)) of
       (Ok _, e') \<Rightarrow> Some e'
     | (Err _, _) \<Rightarrow> None)"

definition epoch_frontier ::
    "CcmpRxReplayEpoch \<Rightarrow> FrontierOwner \<times> CcmpReplayLane \<Rightarrow> CcmpPacketNumber" where
  "epoch_frontier e = (\<lambda>(owner, lane).
     case owner_state e owner of
       Some s \<Rightarrow> replay_frontier s lane
     | None \<Rightarrow> CcmpPacketNumber_ZERO)"

lemma epoch_admit_SomeD:
  assumes "epoch_admit e (owner, lane) p = Some e'"
  obtains s c where "owner_state e owner = Some s" "replay_prepare s lane p = Ok c"
    "e' = epoch_commit e (owner, c)"
proof -
  let ?h = "CcmpHeader_new p (owner_key_id owner)"
  have h: "header_key_id ?h = owner_key_id owner" "header_packet_number ?h = p"
    by (simp_all add: CcmpHeader_new_def)
  obtain oc where "epoch_prepare e (owner_protection owner) (lane_tid lane) ?h = Ok oc"
    and e': "e' = epoch_commit e oc"
    using assms by (auto simp: epoch_admit_def epoch_check_def split: result.splits)
  moreover obtain o1 c where oc: "oc = (o1, c)" by (cases oc)
  ultimately have p: "owner_protection owner = owner_protection o1" "owner_key_id owner = owner_key_id o1"
    "\<exists>s. owner_state e o1 = Some s \<and> replay_prepare s lane p = Ok c"
    by (simp_all add: epoch_prepare_Ok_iff h)
  have "o1 = owner"
    using p(1,2) by (cases o1; cases owner)
      (auto simp: GroupKeyId_key_id_def)
  with p(3) e' oc show thesis using that by blast
qed

interpretation epoch: rising_frontier epoch_ok epoch_admit epoch_frontier
proof
  fix e l p e'
  assume e: "epoch_ok e" and admit: "epoch_admit e l p = Some e'"
  obtain owner lane where l: "l = (owner, lane)" by (cases l)
  obtain s c where sc: "owner_state e owner = Some s" "replay_prepare s lane p = Ok c"
    and e': "e' = epoch_commit e (owner, c)"
    using epoch_admit_SomeD [OF admit [unfolded l]] by blast
  have s: "replay_ok s" using e sc(1) by (rule epoch_ok_owner)
  have ad: "replay_admit s lane p = Some (replay_commit s c)" using sc by (simp add: replay_admit_Some_iff)
  show "epoch_ok e'" using e sc(1) e' by (simp add: epoch_commit_ok)
  show "epoch_frontier e l < p"
    using replay.admit_above [OF s ad] sc(1) by (simp add: epoch_frontier_def l)
  show "epoch_frontier e' = (epoch_frontier e)(l := p)"
  proof
    fix m :: "FrontierOwner \<times> CcmpReplayLane"
    obtain owner' lane' where m: "m = (owner', lane')" by (cases m)
    show "epoch_frontier e' m = ((epoch_frontier e)(l := p)) m"
      using replay.admit_frontier [OF s ad] owner_state_commit [OF e sc(1), of c] sc(1)
      by (auto simp: epoch_frontier_def l m e')
  qed
qed

text \<open>An accepted check is an admission on the one frontier the frame names.\<close>

lemma epoch_check_Ok_iff:
  "epoch_check e prot t h = (Ok u, e') \<longleftrightarrow>
     (\<exists>owner. prot = owner_protection owner \<and> header_key_id h = owner_key_id owner
        \<and> epoch_admit e (owner, tid_lane t) (header_packet_number h) = Some e')"
proof -
  have new: "header_key_id h = k \<Longrightarrow> CcmpHeader_new (header_packet_number h) k = h" for k
    by (auto simp: CcmpHeader_new_def)
  have admit: "epoch_admit e (owner, tid_lane t) (header_packet_number h) = Some e'
      \<longleftrightarrow> epoch_check e (owner_protection owner) t h = (Ok u, e')"
    if "header_key_id h = owner_key_id owner" for owner
    by (auto simp: epoch_admit_def new [OF that] split: result.split prod.split)
  have "\<exists>owner. prot = owner_protection owner \<and> header_key_id h = owner_key_id owner"
    if "epoch_check e prot t h = (Ok u, e')"
    using that by (force simp: epoch_check_def epoch_prepare_Ok_iff split: result.splits)
  then show ?thesis
    by (metis admit)
qed

lemma epoch_check_Err: "epoch_check e prot t h = (Err x, e') \<Longrightarrow> e' = e"
  by (auto simp: epoch_check_def split: result.splits)

lemma epoch_pairwise_ok: "epoch_pairwise ps = Ok e \<Longrightarrow> epoch_ok e"
  by (auto simp: epoch_pairwise_def epoch_ok_def dest: replay_from_sequence_ok split: result.splits)

lemma install_group_ok: "epoch_ok e \<Longrightarrow> epoch_ok (snd (install_group e k rsc))"
  by (auto simp: install_group_def install_group_epoch_def dest: replay_from_sequence_ok
      split: result.splits intro: epoch_ok_group_mut)

lemma epoch_new_ok: "epoch_new ps k gs = Ok e \<Longrightarrow> epoch_ok e"
  using install_group_ok [of _ k gs]
  by (force simp: epoch_new_def dest: epoch_pairwise_ok split: result.splits prod.splits)

lemma group_select_restore:
  "group_select k xs = x \<Longrightarrow> group_select_mut k x (group_select_mut k y xs) = xs"
  by (auto simp: group_select_def group_select_mut_def)

subsection \<open>Properties\<close>

text \<open>
  C2. Replay protection of an association.  Every frame the check accepts names exactly one key's
  lane (the pairwise key with identifier 0 for an individually addressed frame, the installed group
  key of its identifier for a group frame), and over any sequence of frames between key changes the
  packet numbers accepted on each key's lane are strictly increasing above the installed frontier:
  no frame is accepted twice, and no key or TID disturbs another's frontier.
\<close>

theorem association_replay_protection:
  assumes "epoch_ok e"
  shows "sorted_wrt (\<lambda>(l, n) (l', n'). l = l' \<longrightarrow> n < n') (admitted epoch_admit e frames)
    \<and> distinct (admitted epoch_admit e frames)
    \<and> (\<forall>(l, n) \<in> set (admitted epoch_admit e frames). epoch_frontier e l < n)
    \<and> (\<forall>prot t h e'. epoch_check e prot t h = (Ok (), e')
         \<longrightarrow> (\<exists>owner. prot = owner_protection owner \<and> header_key_id h = owner_key_id owner
               \<and> epoch_admit e (owner, tid_lane t) (header_packet_number h) = Some e'
               \<and> epoch_frontier e'
                 = (epoch_frontier e)((owner, tid_lane t) := header_packet_number h)))"
proof (intro conjI allI impI)
  show "\<forall>(l, n) \<in> set (admitted epoch_admit e frames). epoch_frontier e l < n"
    using epoch.admitted_above [OF assms] by blast
  fix prot t h e'
  assume check: "epoch_check e prot t h = (Ok (), e')"
  then obtain owner where owner: "prot = owner_protection owner" "header_key_id h = owner_key_id owner"
    "epoch_admit e (owner, tid_lane t) (header_packet_number h) = Some e'"
    by (auto simp: epoch_check_Ok_iff)
  with epoch.admit_frontier [OF assms owner(3)]
  show "\<exists>owner. prot = owner_protection owner \<and> header_key_id h = owner_key_id owner
      \<and> epoch_admit e (owner, tid_lane t) (header_packet_number h) = Some e'
      \<and> epoch_frontier e' = (epoch_frontier e)((owner, tid_lane t) := header_packet_number h)"
    by blast
qed (use assms in \<open>simp_all add: epoch.admitted_rising epoch.admitted_distinct\<close>)

definition example_epoch :: CcmpRxReplayEpoch where
  "example_epoch = \<lparr>pairwise = CcmpRxReplayState_new (CcmpPacketNumber 0),
     groups = [None, Some (CcmpRxReplayState_new (CcmpPacketNumber 6)), None, None]\<rparr>"

lemma example_epoch_ok: "epoch_ok example_epoch"
  by (simp add: example_epoch_def epoch_ok_def replay_new_ok)

theorem association_replay_protection_witness:
  "admitted epoch_admit example_epoch
     [((PairwiseKey, Tid 0), CcmpPacketNumber 1), ((GroupKey (GroupKeyId One), NonQos), CcmpPacketNumber 6),
      ((GroupKey (GroupKeyId One), NonQos), CcmpPacketNumber 7), ((PairwiseKey, Tid 0), CcmpPacketNumber 1),
      ((GroupKey (GroupKeyId Two), NonQos), CcmpPacketNumber 9)]
   = [((PairwiseKey, Tid 0), CcmpPacketNumber 1), ((GroupKey (GroupKeyId One), NonQos), CcmpPacketNumber 7)]
   \<and> distinct (admitted epoch_admit example_epoch
     [((PairwiseKey, Tid 0), CcmpPacketNumber 1), ((PairwiseKey, Tid 0), CcmpPacketNumber 1)])"
proof
  show "distinct (admitted epoch_admit example_epoch
     [((PairwiseKey, Tid 0), CcmpPacketNumber 1), ((PairwiseKey, Tid 0), CcmpPacketNumber 1)])"
    using association_replay_protection [OF example_epoch_ok] by blast
qed code_simp

text \<open>
  The life of a group key.  Installing one starts every lane of its identifier at the receive
  sequence and changes no other key; a malformed receive sequence changes nothing; a removed key's
  frames are refused as uninstalled; and exchanging an installation and exchanging it back restores
  the epoch exactly, so a retained key's frontier is never reset.
\<close>

theorem group_key_lifecycle:
  assumes "epoch_ok e"
  shows "(case install_group e k rsc of
      (Err err, e') \<Rightarrow> e' = e \<and> err = InvalidGroupReceiveSequence \<and> (rsc ! 6 \<noteq> 0 \<or> rsc ! 7 \<noteq> 0)
    | (Ok _, e') \<Rightarrow> (\<exists>p. from_receive_sequence rsc = Ok p
        \<and> owner_state e' = (owner_state e)(GroupKey k \<mapsto> CcmpRxReplayState_new p)))
    \<and> (\<forall>t h. header_key_id h = GroupKeyId_key_id k
         \<longrightarrow> epoch_check (remove_group e k) Group t h
           = (Err (UninstalledGroupKey (header_key_id h)), remove_group e k))
    \<and> (\<forall>old st. group_select k (groups e) = Some old
         \<longrightarrow> exchange_group (snd (exchange_group e k st)) k old = (Some st, e)
           \<and> fst (exchange_group e k st) = Some old)"
    (is "?install \<and> ?remove \<and> ?exchange")
proof (intro conjI)
  have len: "length (groups e) = 4" using assms by (simp add: epoch_ok_def)
  show ?install
  proof (cases "from_receive_sequence rsc")
    case (Ok p)
    have "owner_state (install_group_epoch e k (CcmpRxReplayState_new p)) o1
        = ((owner_state e)(GroupKey k \<mapsto> CcmpRxReplayState_new p)) o1" for o1
      by (cases o1) (auto simp: install_group_epoch_def group_select_upd len)
    with Ok show ?thesis
      by (auto simp: install_group_def CcmpRxReplayState_from_receive_sequence_def)
  next
    case (Err err)
    then show ?thesis
      by (auto simp: install_group_def CcmpRxReplayState_from_receive_sequence_def
          from_receive_sequence_def split: if_splits)
  qed
  show ?remove
    by (auto simp: epoch_check_def epoch_prepare_def remove_group_def group_select_upd len
        GroupKeyId_key_id_def)
  show ?exchange
    by (auto simp: exchange_group_def group_select_upd len group_select_restore)
qed

theorem group_key_lifecycle_witness:
  "fst (epoch_check (remove_group example_epoch (GroupKeyId One)) Group None
      (CcmpHeader_new (CcmpPacketNumber 9) (CcmpKeyId 1))) = Err (UninstalledGroupKey (CcmpKeyId 1))"
  using group_key_lifecycle [OF example_epoch_ok, where k = "GroupKeyId One"]
  by (simp add: GroupKeyId_key_id_def CcmpHeader_new_def)

end
