(* ===== verification/Fragment_Parsing.thy ===== *)
theory Fragment_Parsing
  imports Sequence_Number Ccmp Data_Framing
begin

text \<open>
  The parser of data fragments, \<open>crates/protocols/ieee80211/mac/src/fragmentation.rs\<close> and
  \<open>fragmentation/parsing.rs\<close>: the three-address header, its role, protection class and sequence
  identity.  Byte slices and address arrays are lists of octets; the roles and the lengths of the
  headers are those of \<open>data.rs\<close>.
\<close>

definition DATA :: u16 where "DATA = 0x0008"
definition QOS_DATA :: u16 where "QOS_DATA = 0x0088"
definition TYPE_AND_SUBTYPE :: u16 where "TYPE_AND_SUBTYPE = 0x00fc"
definition TO_DS :: u16 where "TO_DS = 0x0100"
definition FROM_DS :: u16 where "FROM_DS = 0x0200"
definition MORE_FRAGMENTS :: u16 where "MORE_FRAGMENTS = 0x0400"
definition RETRY :: u16 where "RETRY = 0x0800"
definition PROTECTED :: u16 where "PROTECTED = 0x4000"
definition ORDER :: u16 where "ORDER = 0x8000"
definition QOS_AMSDU_PRESENT :: u8 where "QOS_AMSDU_PRESENT = 0x80"

lemmas fragment_consts =
  DATA_def QOS_DATA_def TYPE_AND_SUBTYPE_def TO_DS_def FROM_DS_def MORE_FRAGMENTS_def RETRY_def
  PROTECTED_def ORDER_def QOS_AMSDU_PRESENT_def

datatype DataFragmentProtection = Open | CcmpProtected CcmpKeyId

record OpenDataFragmentIdentity =
  role :: DataInterfaceRole
  protection :: DataFragmentProtection
  receiver_address :: "u8 list"
  transmitter_address :: "u8 list"
  address3 :: "u8 list"
  sequence_number :: SequenceNumber
  qos_control :: "u16 option"

definition identity_tid :: "OpenDataFragmentIdentity \<Rightarrow> u8 option" where
  "identity_tid self =
     (case qos_control self of Some control \<Rightarrow> Some (ucast (control AND 0x000f)) | None \<Rightarrow> None)"

definition destination :: "OpenDataFragmentIdentity \<Rightarrow> u8 list" where
  "destination self =
     (case role self of Station \<Rightarrow> receiver_address self | AccessPoint \<Rightarrow> address3 self)"

definition source :: "OpenDataFragmentIdentity \<Rightarrow> u8 list" where
  "source self =
     (case role self of Station \<Rightarrow> address3 self | AccessPoint \<Rightarrow> transmitter_address self)"

definition same_sequence_space ::
    "OpenDataFragmentIdentity \<Rightarrow> OpenDataFragmentIdentity \<Rightarrow> bool" where
  "same_sequence_space self other \<longleftrightarrow>
     role self = role other \<and> protection self = protection other
     \<and> transmitter_address self = transmitter_address other
     \<and> sequence_number self = sequence_number other
     \<and> identity_tid self = identity_tid other"

record OpenDataFragment =
  identity :: OpenDataFragmentIdentity
  frag_sequence_control :: u16
  fragment_number :: u8
  more_fragments :: bool
  retry :: bool
  packet_number :: "CcmpPacketNumber option"
  payload :: "u8 list"

datatype OpenDataFragmentError =
    Truncated
  | NotData
  | NotFragmented
  | Protected
  | Unprotected
  | OrderedUnsupported
  | RoleMismatch
  | InvalidReceiver
  | InvalidDestination
  | InvalidTransmitter
  | AmsduUnsupported
  | EmptyPayload
  | ClockUnavailable
  | NoReassemblyContexts
  | Orphan u8
  | IdentityMismatch
  | MoreFragmentsMismatch
  | RetryPacketNumberMismatch u8 CcmpPacketNumber CcmpPacketNumber
  | RetryPayloadMismatch u8
  | PacketNumberNotIncreasing CcmpPacketNumber CcmpPacketNumber
  | OutOfOrder u8 u8
  | TooManyFragments
  | ReassembledTooLarge nat
  | InvalidLlcSnap

record ParsedOpenDataHeader =
  hdr_identity :: OpenDataFragmentIdentity
  hdr_frame_control :: u16
  hdr_sequence_control :: u16
  hdr_payload :: "u8 list"
  qos_amsdu_present :: bool

definition is_group_or_null :: "u8 list \<Rightarrow> bool" where
  "is_group_or_null a \<longleftrightarrow> a = replicate 6 0 \<or> a ! 0 AND 1 \<noteq> 0"

definition parse_data_header ::
    "DataInterfaceRole \<Rightarrow> u8 list \<Rightarrow> DataFragmentProtection
     \<Rightarrow> (ParsedOpenDataHeader, OpenDataFragmentError) result" where
  "parse_data_header rl mpdu prot =
     (if length mpdu < IEEE80211_LEGACY_DATA_HEADER_LEN then Err Truncated
      else
        (let header = take IEEE80211_LEGACY_DATA_HEADER_LEN mpdu;
             remainder = drop IEEE80211_LEGACY_DATA_HEADER_LEN mpdu;
             receiver = take 6 (drop 4 header);
             transmitter = take 6 (drop 10 header);
             addr3 = take 6 (drop 16 header);
             frame_control = u16_from_le_bytes (header ! 0) (header ! 1);
             subtype = frame_control AND TYPE_AND_SUBTYPE
         in if frame_control AND 0x0003 \<noteq> 0 \<or> (subtype \<noteq> DATA \<and> subtype \<noteq> QOS_DATA) then Err NotData
            else
              (let is_protected = (frame_control AND PROTECTED \<noteq> 0)
               in if prot = Open \<and> is_protected then Err Protected
                  else if prot \<noteq> Open \<and> \<not> is_protected then Err Unprotected
                  else if frame_control AND ORDER \<noteq> 0 then Err OrderedUnsupported
                  else
                    (let ds = frame_control AND (TO_DS OR FROM_DS)
                     in if \<not> (rl = Station \<and> ds = FROM_DS \<or> rl = AccessPoint \<and> ds = TO_DS)
                        then Err RoleMismatch
                        else
                          (case (if subtype = QOS_DATA
                                 then (if length remainder < 2 then Err Truncated
                                       else Ok (Some (u16_from_le_bytes (remainder ! 0) (remainder ! 1)),
                                                drop 2 remainder))
                                 else Ok (None, remainder)) of
                             Err e \<Rightarrow> Err e
                           | Ok (qos, pay) \<Rightarrow>
                               (let sc = u16_from_le_bytes (header ! 22) (header ! 23)
                                in if is_group_or_null transmitter then Err InvalidTransmitter
                                   else Ok \<lparr>hdr_identity = \<lparr>role = rl, protection = prot,
                                               receiver_address = receiver,
                                               transmitter_address = transmitter, address3 = addr3,
                                               sequence_number = from_sequence_control sc,
                                               qos_control = qos\<rparr>,
                                            hdr_frame_control = frame_control,
                                            hdr_sequence_control = sc, hdr_payload = pay,
                                            qos_amsdu_present =
                                              (case qos of
                                                 None \<Rightarrow> False
                                               | Some q \<Rightarrow> q AND ucast QOS_AMSDU_PRESENT \<noteq> 0)\<rparr>))))))"

definition parse_data_fragment ::
    "ParsedOpenDataHeader \<Rightarrow> u8 list \<Rightarrow> CcmpPacketNumber option
     \<Rightarrow> (OpenDataFragment, OpenDataFragmentError) result" where
  "parse_data_fragment header pay pn =
     (if qos_amsdu_present header then Err AmsduUnsupported
      else if is_group_or_null (receiver_address (hdr_identity header)) then Err InvalidReceiver
      else if is_group_or_null (destination (hdr_identity header)) then Err InvalidDestination
      else
        (let sc = hdr_sequence_control header;
             number = ucast (sc AND 0x000f);
             more = (hdr_frame_control header AND MORE_FRAGMENTS \<noteq> 0)
         in if number = 0 \<and> \<not> more then Err NotFragmented
            else if pay = [] then Err EmptyPayload
            else Ok \<lparr>identity = hdr_identity header, frag_sequence_control = sc,
                     fragment_number = number, more_fragments = more,
                     retry = (hdr_frame_control header AND RETRY \<noteq> 0),
                     packet_number = pn, payload = pay\<rparr>))"

definition parse_open_data_fragment ::
    "DataInterfaceRole \<Rightarrow> u8 list \<Rightarrow> (OpenDataFragment, OpenDataFragmentError) result" where
  "parse_open_data_fragment rl mpdu =
     (case parse_data_header rl mpdu Open of
        Err e \<Rightarrow> Err e
      | Ok header \<Rightarrow> parse_data_fragment header (hdr_payload header) None)"

definition parse_ccmp_data_fragment ::
    "DataInterfaceRole \<Rightarrow> u8 list \<Rightarrow> u8 list \<Rightarrow> CcmpHeader
     \<Rightarrow> (OpenDataFragment, OpenDataFragmentError) result" where
  "parse_ccmp_data_fragment rl mpdu authenticated_payload ccmp =
     (case parse_data_header rl mpdu (CcmpProtected (header_key_id ccmp)) of
        Err e \<Rightarrow> Err e
      | Ok header \<Rightarrow>
          parse_data_fragment header authenticated_payload (Some (header_packet_number ccmp)))"

definition parse_open_data_identity ::
    "DataInterfaceRole \<Rightarrow> u8 list \<Rightarrow> (OpenDataFragmentIdentity, OpenDataFragmentError) result" where
  "parse_open_data_identity rl mpdu =
     (case parse_data_header rl mpdu Open of
        Err e \<Rightarrow> Err e
      | Ok header \<Rightarrow> Ok (hdr_identity header))"

definition parse_ccmp_data_identity ::
    "DataInterfaceRole \<Rightarrow> u8 list \<Rightarrow> CcmpHeader
     \<Rightarrow> (OpenDataFragmentIdentity, OpenDataFragmentError) result" where
  "parse_ccmp_data_identity rl mpdu ccmp =
     (case parse_data_header rl mpdu (CcmpProtected (header_key_id ccmp)) of
        Err e \<Rightarrow> Err e
      | Ok header \<Rightarrow> Ok (hdr_identity header))"

subsection \<open>What a parsed fragment guarantees\<close>

definition fragment_ok :: "OpenDataFragment \<Rightarrow> bool" where
  "fragment_ok f \<longleftrightarrow>
     payload f \<noteq> [] \<and> fragment_number f \<le> 15 \<and> (fragment_number f = 0 \<longrightarrow> more_fragments f)
     \<and> sequence_ok (sequence_number (identity f))
     \<and> (packet_number f = None \<longleftrightarrow> protection (identity f) = Open)"

lemma low_nibble: "(ucast (sc AND 0x000f) :: u8) \<le> 15" for sc :: u16
proof -
  have "unat (sc AND 0x000f) < 16"
    unfolding mask_4 by (simp add: unat_and_mask)
  then have "unat (ucast (sc AND 0x000f) :: u8) < 16"
    by (simp add: unsigned_ucast_eq take_bit_nat_eq_self)
  then show ?thesis by (simp add: word_le_nat_alt)
qed

text \<open>The parser past the length check, on the fields of the header.\<close>

definition parse_fields ::
    "DataInterfaceRole \<Rightarrow> DataFragmentProtection \<Rightarrow> u16 \<Rightarrow> u16 \<Rightarrow> u8 list \<Rightarrow> u8 list \<Rightarrow> u8 list
     \<Rightarrow> u8 list \<Rightarrow> (ParsedOpenDataHeader, OpenDataFragmentError) result" where
  "parse_fields rl prot fc sc rx tx a3 rest =
     (if fc AND 3 \<noteq> 0 \<or> (fc AND 0xfc \<noteq> 0x08 \<and> fc AND 0xfc \<noteq> 0x88) then Err NotData
      else if prot = Open \<and> fc AND 0x4000 \<noteq> 0 then Err Protected
      else if prot \<noteq> Open \<and> fc AND 0x4000 = 0 then Err Unprotected
      else if fc AND 0x8000 \<noteq> 0 then Err OrderedUnsupported
      else if fc AND 0x300 \<noteq> (case rl of Station \<Rightarrow> 0x200 | AccessPoint \<Rightarrow> 0x100) then Err RoleMismatch
      else if fc AND 0xfc = 0x88 \<and> length rest < 2 then Err Truncated
      else if is_group_or_null tx then Err InvalidTransmitter
      else (let qos = (if fc AND 0xfc = 0x88 then Some (u16_from_le_bytes (rest ! 0) (rest ! 1)) else None)
            in Ok \<lparr>hdr_identity = \<lparr>role = rl, protection = prot, receiver_address = rx,
                      transmitter_address = tx, address3 = a3,
                      sequence_number = from_sequence_control sc, qos_control = qos\<rparr>,
                   hdr_frame_control = fc, hdr_sequence_control = sc,
                   hdr_payload = (if fc AND 0xfc = 0x88 then drop 2 rest else rest),
                   qos_amsdu_present =
                     (case qos of None \<Rightarrow> False | Some q \<Rightarrow> q AND 0x80 \<noteq> 0)\<rparr>))"

lemma ds_mask: "fc AND (0x100 OR 0x200) = fc AND 0x300" for fc :: u16
  by simp

lemma parse_data_header_fields:
  "parse_data_header rl mpdu prot =
     (if length mpdu < 24 then Err Truncated
      else parse_fields rl prot (u16_from_le_bytes (mpdu ! 0) (mpdu ! 1))
             (u16_from_le_bytes (mpdu ! 22) (mpdu ! 23)) (octets 4 6 mpdu) (octets 10 6 mpdu)
             (octets 16 6 mpdu) (drop 24 mpdu))"
proof (cases "length mpdu < 24")
  case False
  define fc where "fc = u16_from_le_bytes (mpdu ! 0) (mpdu ! 1)"
  define sc where "sc = u16_from_le_bytes (mpdu ! 22) (mpdu ! 23)"
  define rx tx a3 rest where "rx = octets 4 6 mpdu" and "tx = octets 10 6 mpdu"
    and "a3 = octets 16 6 mpdu" and "rest = drop 24 mpdu"
  note names = this [symmetric] fc_def [symmetric] sc_def [symmetric]
  have header: "take 24 mpdu ! 0 = mpdu ! 0" "take 24 mpdu ! 1 = mpdu ! 1"
    "take 24 mpdu ! 22 = mpdu ! 22" "take 24 mpdu ! 23 = mpdu ! 23"
    "octets 4 6 (take 24 mpdu) = rx" "octets 10 6 (take 24 mpdu) = tx"
    "octets 16 6 (take 24 mpdu) = a3"
    using False by (simp_all add: names drop_take)
  have "parse_fields rl prot fc sc rx tx a3 rest = parse_data_header rl mpdu prot"
    unfolding parse_data_header_def IEEE80211_LEGACY_DATA_HEADER_LEN_def Let_def header names
      if_not_P [OF False] fragment_consts ds_mask
    by (cases rl; cases "fc AND 0xfc = 0x88"; simp add: parse_fields_def)
  then show ?thesis unfolding names using False by simp
qed (simp add: parse_data_header_def IEEE80211_LEGACY_DATA_HEADER_LEN_def)

lemma parse_fields_Ok:
  assumes "parse_fields rl prot fc sc rx tx a3 rest = Ok h"
  shows "hdr_frame_control h = fc \<and> hdr_sequence_control h = sc
    \<and> fc AND 3 = 0 \<and> fc AND 0xfc \<in> {0x08, 0x88} \<and> fc AND 0x8000 = 0
    \<and> fc AND 0x300 = (case rl of Station \<Rightarrow> 0x200 | AccessPoint \<Rightarrow> 0x100)
    \<and> (fc AND 0xfc = 0x88 \<longrightarrow> 2 \<le> length rest) \<and> \<not> is_group_or_null tx
    \<and> hdr_payload h = (if fc AND 0xfc = 0x88 then drop 2 rest else rest)
    \<and> hdr_identity h = \<lparr>role = rl, protection = prot, receiver_address = rx,
        transmitter_address = tx, address3 = a3, sequence_number = from_sequence_control sc,
        qos_control = (if fc AND 0xfc = 0x88 then Some (u16_from_le_bytes (rest ! 0) (rest ! 1))
                       else None)\<rparr>"
  using assms by (auto simp: parse_fields_def Let_def not_less split: if_split_asm)

lemma parse_data_header_identity:
  assumes "parse_data_header rl mpdu prot = Ok h"
  shows "protection (hdr_identity h) = prot"
    "sequence_number (hdr_identity h) = from_sequence_control (hdr_sequence_control h)"
  using assms parse_fields_Ok [of rl prot _ _ _ _ _ _ h]
  by (auto simp: parse_data_header_fields split: if_split_asm)

lemma parse_data_fragment_ok:
  assumes "parse_data_header rl mpdu prot = Ok h" and "parse_data_fragment h pay pn = Ok f"
    and "pn = None \<longleftrightarrow> prot = Open"
  shows "fragment_ok f"
  using assms(2,3) parse_data_header_identity [OF assms(1)] low_nibble
  by (auto simp: parse_data_fragment_def Let_def fragment_ok_def split: if_splits)

subsection \<open>Agreement with the frame decoder\<close>

text \<open>
  The fragment parser and \<open>frame.rs\<close> read the same header by different code.  The masks of the parser
  determine every test of the decoder.
\<close>

lemma parsed_control:
  assumes v: "fc AND 3 = 0" and s: "fc AND 0xfc \<in> {0x08, 0x88 :: u16}"
    and o: "fc AND 0x8000 = 0" and ds: "fc AND 0x300 \<in> {0x100, 0x200}"
  shows "FrameControl_new fc = Some (FrameControl fc)"
    "is_qos_data (FrameControl fc) \<longleftrightarrow> fc AND 0xfc = 0x88"
    "\<not> is_four_address (FrameControl fc)" "\<not> has_ht_control (FrameControl fc)"
    "is_data (FrameControl fc)"
proof -
  have sub: "fc AND m = (fc AND 0xfc) AND m" if "0xfc AND m = m" for m
    using that by (simp add: and.assoc)
  have "fc AND push_bit 2 3 = 8" using s sub [of 12] by auto
  then have kind: "drop_bit 2 fc AND 3 = 2" unfolding drop_bit_mask by simp
  then show "FrameControl_new fc = Some (FrameControl fc)"
    using v by (simp add: FrameControl_new_def FrameControl_DATA_def)
  show "is_qos_data (FrameControl fc) \<longleftrightarrow> fc AND 0xfc = 0x88"
    using s sub [of 128] kind by (auto simp: is_qos_data_def FrameControl_DATA_def)
  show "\<not> is_four_address (FrameControl fc)"
    using ds by (auto simp: is_four_address_def)
  show "\<not> has_ht_control (FrameControl fc)" using o by (simp add: has_ht_control_def)
  show "is_data (FrameControl fc)" using kind by (simp add: is_data_def FrameControl_DATA_def)
qed

subsection \<open>Properties\<close>

text \<open>
  The two header parsers agree.  Whenever the fragment parser accepts a header, the frame decoder
  of the ordinary receive path accepts the same octets as a data frame in the same direction, with
  the same Frame Control, addresses, Sequence Control, QoS Control and body; so reassembly and
  ordinary reception never disagree about whose frame it is or where its payload starts.
\<close>

theorem fragment_parser_agrees_with_decoder:
  assumes "parse_data_header rl mpdu prot = Ok h"
  shows "\<exists>g. decode mpdu = Some g \<and> control_get (dh_control g) = hdr_frame_control h
    \<and> is_data (dh_control g) \<and> control_ds (dh_control g) = (case rl of Station \<Rightarrow> 2 | AccessPoint \<Rightarrow> 1)
    \<and> dh_receiver g = receiver_address (hdr_identity h)
    \<and> dh_transmitter g = transmitter_address (hdr_identity h)
    \<and> dh_address3 g = address3 (hdr_identity h)
    \<and> dh_sequence_control g = hdr_sequence_control h
    \<and> dh_qos g = qos_control (hdr_identity h) \<and> dh_body g = hdr_payload h"
proof -
  let ?fc = "u16_from_le_bytes (mpdu ! 0) (mpdu ! 1)"
  have len: "24 \<le> length mpdu" and ok: "parse_fields rl prot ?fc
      (u16_from_le_bytes (mpdu ! 22) (mpdu ! 23)) (octets 4 6 mpdu) (octets 10 6 mpdu)
      (octets 16 6 mpdu) (drop 24 mpdu) = Ok h"
    using assms by (auto simp: parse_data_header_fields split: if_split_asm)
  note h = parse_fields_Ok [OF ok]
  have ctl: "FrameControl_new ?fc = Some (FrameControl ?fc)"
    "is_qos_data (FrameControl ?fc) \<longleftrightarrow> ?fc AND 0xfc = 0x88"
    "\<not> is_four_address (FrameControl ?fc)" "\<not> has_ht_control (FrameControl ?fc)"
    using h by (intro parsed_control; auto split: DataInterfaceRole.splits)+
  have dec: "decode mpdu = Some (header_of (FrameControl ?fc) mpdu)"
    using len h ctl by (auto simp: decode_eq control_of_def header_length_def)
  have kind: "is_data (FrameControl ?fc)"
    using h parsed_control(5) [of ?fc] by (auto split: DataInterfaceRole.splits)
  have "drop_bit 8 ?fc AND 3 = drop_bit 8 (?fc AND 0x300)"
    using drop_bit_mask [of 8 ?fc 3] by simp
  then have ds: "control_ds (FrameControl ?fc) = (case rl of Station \<Rightarrow> 2 | AccessPoint \<Rightarrow> 1)"
    using h by (cases rl) (simp_all only: control_ds_def FrameControl.sel, simp_all)
  show ?thesis
    by (rule exI [of _ "header_of (FrameControl ?fc) mpdu"])
       (use len h ctl dec kind ds in \<open>simp add: header_of_def header_length_def le_field_def\<close>)
qed

definition fragment_mpdu :: "u8 list" where
  "fragment_mpdu = [0x88, 0x06, 0, 0, 2, 0, 0, 0, 0, 1, 2, 0, 0, 0, 0, 2, 2, 0, 0, 0, 0, 3, 0x70, 0,
     5, 0, 0xaa, 0xaa, 0x03, 0, 0]"

theorem fragment_parser_agrees_with_decoder_witness:
  "\<exists>h g. parse_data_header Station fragment_mpdu Open = Ok h \<and> decode fragment_mpdu = Some g
     \<and> dh_body g = hdr_payload h \<and> dh_qos g = Some 5"
proof -
  have "(case parse_data_header Station fragment_mpdu Open of
      Ok h \<Rightarrow> qos_control (hdr_identity h) = Some 5 | Err _ \<Rightarrow> False)"
    by code_simp
  then obtain h where "parse_data_header Station fragment_mpdu Open = Ok h"
    "qos_control (hdr_identity h) = Some 5" by (auto split: result.splits)
  with fragment_parser_agrees_with_decoder [OF this(1)] show ?thesis by metis
qed

text \<open>
  C40. What the parsers let through.  A parsed fragment, open or CCMP protected, has a nonempty payload,
  a fragment number below 16, announces more if it is the first, carries a valid sequence number
  and has a packet number exactly when it is protected; its addresses are individual and not null.
\<close>

theorem parsed_fragments_are_well_formed:
  assumes "parse_open_data_fragment rl mpdu = Ok f
    \<or> parse_ccmp_data_fragment rl mpdu pay ccmp = Ok f"
  shows "fragment_ok f \<and> role (identity f) = rl
    \<and> \<not> is_group_or_null (receiver_address (identity f))
    \<and> \<not> is_group_or_null (transmitter_address (identity f))
    \<and> \<not> is_group_or_null (destination (identity f))
    \<and> from_sequence_control (frag_sequence_control f) = sequence_number (identity f)"
proof -
  obtain prot h p pn where h: "parse_data_header rl mpdu prot = Ok h"
    "parse_data_fragment h p pn = Ok f" "pn = None \<longleftrightarrow> prot = Open"
    using assms
    by (auto simp: parse_open_data_fragment_def parse_ccmp_data_fragment_def split: result.splits)
  obtain fc sc rx tx a3 rest where "parse_fields rl prot fc sc rx tx a3 rest = Ok h"
    using h(1) by (auto simp: parse_data_header_fields split: if_split_asm)
  note hdr = parse_fields_Ok [OF this]
  have "identity f = hdr_identity h \<and> frag_sequence_control f = hdr_sequence_control h
      \<and> \<not> is_group_or_null (receiver_address (hdr_identity h))
      \<and> \<not> is_group_or_null (destination (hdr_identity h))"
    using h(2) by (auto simp: parse_data_fragment_def Let_def split: if_split_asm)
  with hdr parse_data_fragment_ok [OF h] show ?thesis by auto
qed

theorem parsed_fragments_are_well_formed_witness:
  "\<exists>f. parse_open_data_fragment Station fragment_mpdu = Ok f \<and> fragment_ok f"
proof -
  have "(case parse_open_data_fragment Station fragment_mpdu of Ok f \<Rightarrow> True | Err _ \<Rightarrow> False)"
    by code_simp
  then obtain f where "parse_open_data_fragment Station fragment_mpdu = Ok f"
    by (auto split: result.splits)
  with parsed_fragments_are_well_formed [of Station fragment_mpdu f] show ?thesis by blast
qed

end
