(* ===== verification/Fragment_Reassembly.thy ===== *)
theory Fragment_Reassembly
  imports Oer_Time Fragment_Parsing "HOL-Library.Sublist"
begin

text \<open>
  Bounded reassembly of data fragments, \<open>crates/protocols/ieee80211/mac/src/fragmentation/reassembly.rs\<close>.
  The const generic \<open>CONTEXTS\<close> is the number of slots and \<open>CAPACITY\<close> the length of a slot's byte
  array.  An \<open>OpenDataFragmentAdmission\<close> holds the owner borrowed between \<open>preflight\<close> and \<open>ingest\<close>;
  the model's admission carries the fragment, the epoch, the time and the expiry count, and the
  owner is passed beside it.  The completion callback is a function argument.
\<close>

record OpenReassembledData =
  msdu_identity :: OpenDataFragmentIdentity
  msdu :: "u8 list"

definition ethernet_frame :: "OpenReassembledData \<Rightarrow> EthernetFrameParts" where
  "ethernet_frame self =
     \<lparr>eth_destination = destination (msdu_identity self), eth_source = source (msdu_identity self),
      ether_type = u16_from_be_bytes (msdu self ! 6) (msdu self ! 7),
      eth_payload = drop LLC_SNAP_HEADER_LEN (msdu self)\<rparr>"

datatype 'r OpenDataDefragmentation =
    Buffered u8 "OpenDataFragmentIdentity option"
  | Duplicate u8
  | Complete u8 'r

datatype OpenDataUnfragmentedAdmission =
    AdmittedUnfragmented u8
  | DuplicateUnfragmented u8

record OpenDataFragmentAdmission =
  adm_fragment :: OpenDataFragment
  adm_epoch :: u64
  adm_now :: Instant
  adm_expired :: u8

datatype OpenDataFragmentPreflight =
    PreflightDuplicate u8
  | Admitted OpenDataFragmentAdmission

record ReassemblySlot =
  slot_identity :: "OpenDataFragmentIdentity option"
  admission_epoch :: u64
  completed :: bool
  expected_fragment :: u8
  final_fragment :: u8
  started_at :: Instant
  slot_length :: nat
  fragment_offsets :: "nat list"
  fragment_lengths :: "nat list"
  packet_numbers :: "CcmpPacketNumber option list"
  bytes :: "u8 list"

definition ReassemblySlot_new :: "nat \<Rightarrow> ReassemblySlot" where
  "ReassemblySlot_new CAPACITY =
     \<lparr>slot_identity = None, admission_epoch = 0, completed = False, expected_fragment = 0,
      final_fragment = 0, started_at = Instant_EPOCH, slot_length = 0,
      fragment_offsets = replicate 16 0, fragment_lengths = replicate 16 0,
      packet_numbers = replicate 16 None, bytes = replicate CAPACITY 0\<rparr>"

definition slot_clear :: "ReassemblySlot \<Rightarrow> ReassemblySlot" where
  "slot_clear self = self
     \<lparr>slot_identity := None, admission_epoch := 0, completed := False, expected_fragment := 0,
      final_fragment := 0, started_at := Instant_EPOCH, slot_length := 0,
      fragment_offsets := replicate 16 0, fragment_lengths := replicate 16 0,
      packet_numbers := replicate 16 None\<rparr>"

definition is_active :: "ReassemblySlot \<Rightarrow> bool" where
  "is_active self \<longleftrightarrow> slot_identity self \<noteq> None \<and> \<not> completed self"

definition verify_retry :: "ReassemblySlot \<Rightarrow> OpenDataFragment \<Rightarrow> (unit, OpenDataFragmentError) result" where
  "verify_retry self fragment =
     (let number = unat (fragment_number fragment);
          final = (if completed self then final_fragment self
                   else saturating_sub (expected_fragment self) 1)
      in if final < fragment_number fragment
         then Err (OutOfOrder (expected_fragment self) (fragment_number fragment))
         else
           (let expected_more = (fragment_number fragment < final \<or> \<not> completed self)
            in if more_fragments fragment \<noteq> expected_more then Err MoreFragmentsMismatch
               else
                 (let retained =
                        (\<lambda>_::unit. let offset = fragment_offsets self ! number;
                                        len = fragment_lengths self ! number
                           in if length (payload fragment) \<noteq> len
                                 \<or> get_slice (bytes self) offset len \<noteq> Some (payload fragment)
                              then Err (RetryPayloadMismatch (fragment_number fragment))
                              else Ok ())
                  in case (packet_numbers self ! number, packet_number fragment) of
                       (Some expected, Some observed) \<Rightarrow>
                         if expected \<noteq> observed
                         then Err (RetryPacketNumberMismatch (fragment_number fragment) expected observed)
                         else retained ()
                     | (None, None) \<Rightarrow> retained ()
                     | _ \<Rightarrow> Err IdentityMismatch)))"

record OpenDataDefragmenter =
  slots :: "ReassemblySlot list"
  timeout :: Duration

definition OpenDataDefragmenter_new :: "nat \<Rightarrow> nat \<Rightarrow> Duration \<Rightarrow> OpenDataDefragmenter" where
  "OpenDataDefragmenter_new CONTEXTS CAPACITY t =
     \<lparr>slots = replicate CONTEXTS (ReassemblySlot_new CAPACITY), timeout = t\<rparr>"

definition active_contexts :: "OpenDataDefragmenter \<Rightarrow> nat" where
  "active_contexts self = length (filter is_active (slots self))"

definition defragmenter_clear :: "OpenDataDefragmenter \<Rightarrow> nat \<times> OpenDataDefragmenter" where
  "defragmenter_clear self = (active_contexts self, self\<lparr>slots := map slot_clear (slots self)\<rparr>)"

definition forget_transmitter :: "OpenDataDefragmenter \<Rightarrow> u8 list \<Rightarrow> nat \<times> OpenDataDefragmenter" where
  "forget_transmitter self transmitter =
     (let owned = (\<lambda>slot. case slot_identity slot of
                     None \<Rightarrow> False | Some i \<Rightarrow> transmitter_address i = transmitter)
      in (length (filter (\<lambda>slot. owned slot \<and> is_active slot) (slots self)),
          self\<lparr>slots := map (\<lambda>slot. if owned slot then slot_clear slot else slot) (slots self)\<rparr>))"

text \<open>\<open>iter().position(p)\<close>.\<close>

definition position :: "('a \<Rightarrow> bool) \<Rightarrow> 'a list \<Rightarrow> nat option" where
  "position p xs = find (\<lambda>i. p (xs ! i)) [0..<length xs]"

definition owned_by :: "OpenDataFragmentIdentity \<Rightarrow> u64 \<Rightarrow> ReassemblySlot \<Rightarrow> bool" where
  "owned_by i epoch slot \<longleftrightarrow> slot_identity slot = Some i \<and> admission_epoch slot = epoch"

definition shares_space :: "OpenDataFragmentIdentity \<Rightarrow> ReassemblySlot \<Rightarrow> bool" where
  "shares_space i slot \<longleftrightarrow>
     (case slot_identity slot of None \<Rightarrow> False | Some entry \<Rightarrow> same_sequence_space entry i)"

definition discard :: "OpenDataDefragmenter \<Rightarrow> OpenDataFragmentIdentity \<Rightarrow> u64 \<Rightarrow> bool \<times> OpenDataDefragmenter" where
  "discard self i epoch =
     (case position (owned_by i epoch) (slots self) of
        None \<Rightarrow> (False, self)
      | Some index \<Rightarrow>
          (True, self\<lparr>slots := (slots self)[index := slot_clear (slots self ! index)]\<rparr>))"

definition timestamp_expired :: "Instant \<Rightarrow> Instant \<Rightarrow> Duration \<Rightarrow> bool" where
  "timestamp_expired now earlier limit =
     (let now = as_micros now; earlier = as_micros earlier; limit = duration_micros limit
      in limit = 0 \<or> now < earlier \<or> limit \<le> now - earlier)"

definition slot_expired :: "Instant \<Rightarrow> Duration \<Rightarrow> ReassemblySlot \<Rightarrow> bool" where
  "slot_expired now limit slot \<longleftrightarrow>
     slot_identity slot \<noteq> None \<and> timestamp_expired now (started_at slot) limit"

definition expire :: "OpenDataDefragmenter \<Rightarrow> Instant \<Rightarrow> u8 \<times> OpenDataDefragmenter" where
  "expire self now =
     (foldl (\<lambda>expired slot. if slot_expired now (timeout self) slot
                            then saturating_add expired (if is_active slot then 1 else 0)
                            else expired) 0 (slots self),
      self\<lparr>slots := map (\<lambda>slot. if slot_expired now (timeout self) slot then slot_clear slot else slot)
                      (slots self)\<rparr>)"

definition admit_unfragmented_in_epoch ::
    "OpenDataDefragmenter \<Rightarrow> OpenDataFragmentIdentity \<Rightarrow> u64 \<Rightarrow> bool \<Rightarrow> Instant option
     \<Rightarrow> (OpenDataUnfragmentedAdmission, OpenDataFragmentError) result \<times> OpenDataDefragmenter" where
  "admit_unfragmented_in_epoch self i epoch is_retry now =
     (let relevant_active = list_ex (\<lambda>slot. is_active slot \<and> shares_space i slot) (slots self);
          relevant_completed =
            (is_retry \<and> list_ex (\<lambda>slot. completed slot \<and> shares_space i slot) (slots self));
          after_expiry = (\<lambda>expired self.
            if list_ex (\<lambda>slot. is_active slot \<and> owned_by i epoch slot) (slots self)
            then (Err MoreFragmentsMismatch, self)
            else if list_ex (\<lambda>slot. is_active slot \<and> shares_space i slot) (slots self)
            then (Err IdentityMismatch, self)
            else if is_retry \<and> list_ex (\<lambda>slot. completed slot \<and> owned_by i epoch slot) (slots self)
            then ((case protection i of
                     Open \<Rightarrow> Ok (DuplicateUnfragmented expired)
                   | CcmpProtected _ \<Rightarrow> Err MoreFragmentsMismatch), self)
            else if is_retry \<and> list_ex (\<lambda>slot. completed slot \<and> shares_space i slot) (slots self)
            then (Err IdentityMismatch, self)
            else
              (Ok (AdmittedUnfragmented expired),
               if is_retry then self
               else self\<lparr>slots := map (\<lambda>slot. if completed slot \<and> shares_space i slot
                                              then slot_clear slot else slot) (slots self)\<rparr>))
      in case now of
           Some now \<Rightarrow> (let (expired, self') = expire self now in after_expiry expired self')
         | None \<Rightarrow> if relevant_active \<or> relevant_completed then (Err ClockUnavailable, self)
                   else after_expiry 0 self)"

definition admit_unfragmented ::
    "OpenDataDefragmenter \<Rightarrow> OpenDataFragmentIdentity \<Rightarrow> bool \<Rightarrow> Instant option
     \<Rightarrow> (OpenDataUnfragmentedAdmission, OpenDataFragmentError) result \<times> OpenDataDefragmenter" where
  "admit_unfragmented self i is_retry now = admit_unfragmented_in_epoch self i 0 is_retry now"

definition append_fragment ::
    "ReassemblySlot \<Rightarrow> OpenDataFragment \<Rightarrow> (unit, OpenDataFragmentError) result \<times> ReassemblySlot" where
  "append_fragment slot fragment =
     (let number = unat (fragment_number fragment);
          regress =
            (if number \<noteq> 0
             then (case (packet_numbers slot ! (number - 1), packet_number fragment) of
                     (Some previous, Some observed) \<Rightarrow>
                       if observed \<le> previous then Some (PacketNumberNotIncreasing previous observed)
                       else None
                   | _ \<Rightarrow> None)
             else None)
      in case regress of
           Some e \<Rightarrow> (Err e, slot)
         | None \<Rightarrow>
             (let pay = payload fragment;
                  stop = slot_length slot + length pay
              in if length (bytes slot) < stop
                 then (Err (ReassembledTooLarge (length (bytes slot))), slot)
                 else (Ok (), slot
                   \<lparr>bytes := write_at (slot_length slot) pay (bytes slot),
                    fragment_offsets := (fragment_offsets slot)[number := slot_length slot],
                    fragment_lengths := (fragment_lengths slot)[number := length pay],
                    packet_numbers := (packet_numbers slot)[number := packet_number fragment],
                    slot_length := stop\<rparr>)))"

definition preflight_in_epoch ::
    "OpenDataDefragmenter \<Rightarrow> OpenDataFragment \<Rightarrow> u64 \<Rightarrow> Instant
     \<Rightarrow> (OpenDataFragmentPreflight, OpenDataFragmentError) result \<times> OpenDataDefragmenter" where
  "preflight_in_epoch self fragment epoch now =
     (if slots self = [] then (Err NoReassemblyContexts, self)
      else
        (let (expired, self) = expire self now;
             i = identity fragment;
             number = fragment_number fragment;
             admitted = Admitted \<lparr>adm_fragment = fragment, adm_epoch = epoch, adm_now = now,
                                  adm_expired = expired\<rparr>;
             duplicate_of = (\<lambda>slot. case verify_retry slot fragment of
                                Err e \<Rightarrow> (Err e, self)
                              | Ok _ \<Rightarrow> (Ok (PreflightDuplicate expired), self));
             exact = position (\<lambda>slot. is_active slot \<and> owned_by i epoch slot) (slots self);
             active_in_space = list_ex (\<lambda>slot. is_active slot \<and> shares_space i slot) (slots self);
             later_checks =
               (if number = 0
                then
                  (if retry fragment
                   then (case exact of
                           Some index \<Rightarrow> duplicate_of (slots self ! index)
                         | None \<Rightarrow> if active_in_space then (Err IdentityMismatch, self)
                                   else (Ok admitted, self))
                   else (Ok admitted, self))
                else
                  (case exact of
                     None \<Rightarrow> if active_in_space then (Err IdentityMismatch, self)
                             else (Err (Orphan number), self)
                   | Some index \<Rightarrow>
                       (let slot = slots self ! index
                        in if retry fragment \<and> number < expected_fragment slot
                           then duplicate_of slot
                           else if number \<noteq> expected_fragment slot
                           then (Err (OutOfOrder (expected_fragment slot) number), self)
                           else if more_fragments fragment \<and> number = 15
                           then (Err TooManyFragments, self)
                           else (Ok admitted, self))))
         in if retry fragment
            then (case find (\<lambda>slot. completed slot \<and> owned_by i epoch slot) (slots self) of
                    Some slot \<Rightarrow> duplicate_of slot
                  | None \<Rightarrow>
                      if list_ex (\<lambda>slot. completed slot \<and> shares_space i slot) (slots self)
                      then (Err IdentityMismatch, self)
                      else later_checks)
            else later_checks))"

text \<open>
  \<open>min_by_key(|(index, slot)| (slot.started_at, *index))\<close> over the slots that satisfy \<open>p\<close>: the
  first of the oldest ones.
\<close>

definition oldest :: "(ReassemblySlot \<Rightarrow> bool) \<Rightarrow> ReassemblySlot list \<Rightarrow> nat option" where
  "oldest p xs =
     (case filter (\<lambda>i. p (xs ! i)) [0..<length xs] of
        [] \<Rightarrow> None
      | i # rest \<Rightarrow>
          Some (foldl (\<lambda>best j. if started_at (xs ! j) < started_at (xs ! best) then j else best)
                  i rest))"

text \<open>The slot a new train takes, with the identity it evicts; the second part clears it.\<close>

definition choose_slot ::
    "ReassemblySlot list \<Rightarrow> OpenDataFragmentIdentity \<Rightarrow> u64
     \<Rightarrow> (nat \<times> OpenDataFragmentIdentity option \<times> bool) option" where
  "choose_slot xs i epoch =
     (case (case position (\<lambda>slot. is_active slot \<and> owned_by i epoch slot) xs of
              Some index \<Rightarrow> Some index
            | None \<Rightarrow> position (\<lambda>slot. is_active slot \<and> shares_space i slot) xs) of
        Some index \<Rightarrow> Some (index, slot_identity (xs ! index), True)
      | None \<Rightarrow>
          (case position (\<lambda>slot. slot_identity slot = None) xs of
             Some index \<Rightarrow> Some (index, None, False)
           | None \<Rightarrow>
               (case oldest completed xs of
                  Some index \<Rightarrow> Some (index, None, True)
                | None \<Rightarrow>
                    (case oldest (\<lambda>_. True) xs of
                       Some index \<Rightarrow> Some (index, slot_identity (xs ! index), True)
                     | None \<Rightarrow> None))))"

definition ingest_admitted ::
    "OpenDataDefragmenter \<Rightarrow> OpenDataFragment \<Rightarrow> u64 \<Rightarrow> Instant \<Rightarrow> u8 \<Rightarrow> (OpenReassembledData \<Rightarrow> 'r)
     \<Rightarrow> ('r OpenDataDefragmentation, OpenDataFragmentError) result \<times> OpenDataDefragmenter" where
  "ingest_admitted self fragment epoch now expired complete =
     (let i = identity fragment
      in if fragment_number fragment \<noteq> 0
         then
           (case position (\<lambda>slot. is_active slot \<and> owned_by i epoch slot) (slots self) of
              None \<Rightarrow> (Err (Orphan (fragment_number fragment)), self)
            | Some index \<Rightarrow>
                (let put = (\<lambda>slot. self\<lparr>slots := (slots self)[index := slot]\<rparr>)
                 in case append_fragment (slots self ! index) fragment of
                      (Err error, slot) \<Rightarrow> (Err error, put (slot_clear slot))
                    | (Ok _, slot) \<Rightarrow>
                        if more_fragments fragment
                        then (Ok (Buffered expired None),
                              put (slot\<lparr>expected_fragment := expected_fragment slot + 1\<rparr>))
                        else if slot_length slot < LLC_SNAP_HEADER_LEN
                                \<or> take (length RFC1042_LLC_SNAP_PREFIX) (bytes slot)
                                  \<noteq> RFC1042_LLC_SNAP_PREFIX
                        then (Err InvalidLlcSnap, put (slot_clear slot))
                        else
                          (Ok (Complete expired (complete
                             \<lparr>msdu_identity = i, msdu = take (slot_length slot) (bytes slot)\<rparr>)),
                           put (slot\<lparr>completed := True, final_fragment := fragment_number fragment,
                                     started_at := now\<rparr>))))
         else
           (case choose_slot (slots self) i epoch of
              None \<Rightarrow> (Err NoReassemblyContexts, self)
            | Some (index, evicted, clear_it) \<Rightarrow>
                (let chosen = (if clear_it then slot_clear (slots self ! index) else slots self ! index);
                     others = map (\<lambda>slot. if completed slot \<and> shares_space i slot
                                          then slot_clear slot else slot) (slots self);
                     opened = chosen\<lparr>slot_identity := Some i, admission_epoch := epoch,
                                     expected_fragment := 1, started_at := now\<rparr>;
                     put = (\<lambda>slot. self\<lparr>slots := others[index := slot]\<rparr>)
                 in case append_fragment opened fragment of
                      (Err error, slot) \<Rightarrow> (Err error, put (slot_clear slot))
                    | (Ok _, slot) \<Rightarrow> (Ok (Buffered expired evicted), put slot))))"

definition admission_ingest ::
    "OpenDataDefragmenter \<Rightarrow> OpenDataFragmentAdmission \<Rightarrow> (OpenReassembledData \<Rightarrow> 'r)
     \<Rightarrow> ('r OpenDataDefragmentation, OpenDataFragmentError) result \<times> OpenDataDefragmenter" where
  "admission_ingest owner self complete =
     ingest_admitted owner (adm_fragment self) (adm_epoch self) (adm_now self) (adm_expired self)
       complete"

definition ingest_in_epoch ::
    "OpenDataDefragmenter \<Rightarrow> OpenDataFragment \<Rightarrow> u64 \<Rightarrow> Instant \<Rightarrow> (OpenReassembledData \<Rightarrow> 'r)
     \<Rightarrow> ('r OpenDataDefragmentation, OpenDataFragmentError) result \<times> OpenDataDefragmenter" where
  "ingest_in_epoch self fragment epoch now complete =
     (case preflight_in_epoch self fragment epoch now of
        (Err e, self') \<Rightarrow> (Err e, self')
      | (Ok (PreflightDuplicate expired), self') \<Rightarrow> (Ok (Duplicate expired), self')
      | (Ok (Admitted admission), self') \<Rightarrow> admission_ingest self' admission complete)"

definition defragmenter_ingest ::
    "OpenDataDefragmenter \<Rightarrow> OpenDataFragment \<Rightarrow> Instant \<Rightarrow> (OpenReassembledData \<Rightarrow> 'r)
     \<Rightarrow> ('r OpenDataDefragmentation, OpenDataFragmentError) result \<times> OpenDataDefragmenter" where
  "defragmenter_ingest self fragment now complete = ingest_in_epoch self fragment 0 now complete"

subsection \<open>What a slot holds\<close>

text \<open>
  A slot holds a list of fragments when its bytes begin with their payloads one after another and its
  per-fragment tables give each payload's place and packet number.  A train is a list of fragments
  of one identity, numbered from zero, whose packet numbers rise.
\<close>

fun pn_rises :: "CcmpPacketNumber option \<Rightarrow> CcmpPacketNumber option \<Rightarrow> bool" where
  "pn_rises (Some previous) (Some observed) \<longleftrightarrow> previous < observed"
| "pn_rises _ _ = True"

abbreviation payloads :: "OpenDataFragment list \<Rightarrow> u8 list" where
  "payloads fs \<equiv> concat (map payload fs)"

definition slot_shape :: "nat \<Rightarrow> ReassemblySlot \<Rightarrow> bool" where
  "slot_shape C s \<longleftrightarrow> length (bytes s) = C \<and> length (fragment_offsets s) = 16
     \<and> length (fragment_lengths s) = 16 \<and> length (packet_numbers s) = 16"

definition slot_holds :: "nat \<Rightarrow> ReassemblySlot \<Rightarrow> OpenDataFragment list \<Rightarrow> bool" where
  "slot_holds C s fs \<longleftrightarrow>
     slot_shape C s \<and> length fs \<le> 16
     \<and> slot_length s = length (payloads fs) \<and> slot_length s \<le> C
     \<and> take (slot_length s) (bytes s) = payloads fs
     \<and> (\<forall>k<length fs. fragment_offsets s ! k = length (payloads (take k fs))
          \<and> fragment_lengths s ! k = length (payload (fs ! k))
          \<and> packet_numbers s ! k = packet_number (fs ! k))"

definition train :: "OpenDataFragmentIdentity \<Rightarrow> OpenDataFragment list \<Rightarrow> bool" where
  "train i fs \<longleftrightarrow>
     fs \<noteq> [] \<and> (\<forall>k<length fs. identity (fs ! k) = i \<and> unat (fragment_number (fs ! k)) = k)
     \<and> (\<forall>k. Suc k < length fs \<longrightarrow>
          pn_rises (packet_number (fs ! k)) (packet_number (fs ! Suc k)))"

lemma train_single: "train i [f] \<longleftrightarrow> identity f = i \<and> fragment_number f = 0"
  by (auto simp: train_def unat_eq_0)

lemma train_snoc:
  assumes "train i fs"
  shows "train i (fs @ [f]) \<longleftrightarrow> identity f = i \<and> unat (fragment_number f) = length fs
    \<and> pn_rises (packet_number (last fs)) (packet_number f)"
proof -
  have ne: "fs \<noteq> []" using assms by (simp add: train_def)
  have "(\<forall>k. Suc k < Suc (length fs) \<longrightarrow> pn_rises (packet_number ((fs @ [f]) ! k))
        (packet_number ((fs @ [f]) ! Suc k)))
      \<longleftrightarrow> (\<forall>k. Suc k < length fs \<longrightarrow> pn_rises (packet_number (fs ! k)) (packet_number (fs ! Suc k)))
        \<and> pn_rises (packet_number (last fs)) (packet_number f)" (is "?L \<longleftrightarrow> ?R")
  proof
    assume L: ?L
    show ?R
    proof (intro conjI allI impI)
      fix k assume "Suc k < length fs"
      with L [rule_format, of k] show "pn_rises (packet_number (fs ! k)) (packet_number (fs ! Suc k))"
        by (simp add: nth_append)
    next
      show "pn_rises (packet_number (last fs)) (packet_number f)"
        using L [rule_format, of "length fs - 1"] ne by (simp add: nth_append last_conv_nth)
    qed
  next
    assume R: ?R
    show ?L
    proof (intro allI impI)
      fix k assume "Suc k < Suc (length fs)"
      then consider "Suc k < length fs" | "Suc k = length fs" "k = length fs - 1" by linarith
      then show "pn_rises (packet_number ((fs @ [f]) ! k)) (packet_number ((fs @ [f]) ! Suc k))"
        using R ne by cases (auto simp: nth_append last_conv_nth)
    qed
  qed
  then show ?thesis
    using assms unfolding train_def by (auto simp: nth_append less_Suc_eq)
qed

lemma slot_holds_nil: "slot_shape C s \<Longrightarrow> slot_length s = 0 \<Longrightarrow> slot_holds C s []"
  by (simp add: slot_holds_def)

lemma slot_clear_simps [simp]:
  "slot_identity (slot_clear s) = None" "completed (slot_clear s) = False"
  "slot_length (slot_clear s) = 0" "bytes (slot_clear s) = bytes s"
  by (simp_all add: slot_clear_def)

lemma slot_shape_clear [simp]: "slot_shape C (slot_clear s) \<longleftrightarrow> length (bytes s) = C"
  by (simp add: slot_shape_def slot_clear_def)

text \<open>Appending the next fragment.\<close>

lemma take_write_at:
  "i + length src \<le> length body \<Longrightarrow> take (i + length src) (write_at i src body) = take i body @ src"
  by (simp add: write_at_def)

lemma append_fragment_fields:
  "slot_identity (snd (append_fragment s f)) = slot_identity s"
  "admission_epoch (snd (append_fragment s f)) = admission_epoch s"
  "completed (snd (append_fragment s f)) = completed s"
  "expected_fragment (snd (append_fragment s f)) = expected_fragment s"
  "started_at (snd (append_fragment s f)) = started_at s"
  "length (bytes (snd (append_fragment s f))) = length (bytes s)"
  by (auto simp: append_fragment_def Let_def split: option.split)

lemma append_fragment_holds:
  assumes holds: "slot_holds C s fs" and number: "unat (fragment_number f) = length fs"
    and room: "length fs < 16" and app: "append_fragment s f = (Ok u, s')"
  shows "slot_holds C s' (fs @ [f])"
    and "fs \<noteq> [] \<Longrightarrow> pn_rises (packet_number (last fs)) (packet_number f)"
proof -
  let ?pay = "payload f"
  have fits: "slot_length s + length ?pay \<le> length (bytes s)"
    and s': "s' = s\<lparr>bytes := write_at (slot_length s) ?pay (bytes s),
        fragment_offsets := (fragment_offsets s)[length fs := slot_length s],
        fragment_lengths := (fragment_lengths s)[length fs := length ?pay],
        packet_numbers := (packet_numbers s)[length fs := packet_number f],
        slot_length := slot_length s + length ?pay\<rparr>"
    using app by (auto simp: append_fragment_def Let_def number not_less split: option.splits if_splits)
  have tables: "fragment_offsets s' ! k = length (payloads (take k (fs @ [f])))
      \<and> fragment_lengths s' ! k = length (payload ((fs @ [f]) ! k))
      \<and> packet_numbers s' ! k = packet_number ((fs @ [f]) ! k)" if "k < Suc (length fs)" for k
    using that holds room by (cases "k = length fs")
      (auto simp: s' slot_holds_def slot_shape_def nth_append nth_list_update)
  show "slot_holds C s' (fs @ [f])"
    unfolding slot_holds_def
  proof (intro conjI allI impI)
    show "take (slot_length s') (bytes s') = payloads (fs @ [f])"
      using holds fits unfolding s' slot_holds_def by (simp add: take_write_at) (metis (no_types))
  qed (use holds fits room tables in \<open>auto simp: s' slot_holds_def slot_shape_def\<close>)
  show "pn_rises (packet_number (last fs)) (packet_number f)" if "fs \<noteq> []"
  proof -
    have "packet_numbers s ! (length fs - 1) = packet_number (last fs)"
      using holds that by (simp add: slot_holds_def last_conv_nth)
    with app number that show ?thesis
      by (cases "packet_number (last fs)"; cases "packet_number f")
         (auto simp: append_fragment_def Let_def split: if_splits)
  qed
qed

subsection \<open>Slots are backed by what arrived\<close>

text \<open>
  An arrival is a fragment with the epoch and the time it was ingested in.  A slot is backed by the
  arrivals when the train it holds is a subsequence of them in the slot's epoch; an unfinished
  train started when its first fragment arrived.
\<close>

type_synonym arrival = "OpenDataFragment \<times> u64 \<times> Instant"

abbreviation arrival_time :: "arrival \<Rightarrow> Instant" where
  "arrival_time a \<equiv> snd (snd a)"

definition arrived_train ::
    "OpenDataFragmentIdentity \<Rightarrow> u64 \<Rightarrow> arrival list \<Rightarrow> arrival list \<Rightarrow> bool" where
  "arrived_train i epoch es H \<longleftrightarrow>
     train i (map fst es) \<and> subseq es H \<and> (\<forall>a\<in>set es. fst (snd a) = epoch)
     \<and> (\<forall>a\<in>set (butlast es). more_fragments (fst a))"

definition backed :: "nat \<Rightarrow> arrival list \<Rightarrow> ReassemblySlot \<Rightarrow> bool" where
  "backed C H s \<longleftrightarrow> slot_shape C s \<and>
     (case slot_identity s of
        None \<Rightarrow> \<not> completed s \<and> slot_length s = 0
      | Some i \<Rightarrow>
          (\<exists>es. arrived_train i (admission_epoch s) es H \<and> slot_holds C s (map fst es)
             \<and> (if completed s
                then unat (final_fragment s) = length es - 1 \<and> \<not> more_fragments (fst (last es))
                else unat (expected_fragment s) = length es \<and> length es \<le> 15
                     \<and> more_fragments (fst (last es)) \<and> started_at s = arrival_time (hd es))))"

definition defrag_ok :: "nat \<Rightarrow> arrival list \<Rightarrow> OpenDataDefragmenter \<Rightarrow> bool" where
  "defrag_ok C H d \<longleftrightarrow> (\<forall>s\<in>set (slots d). backed C H s)"

lemma arrived_train_mono: "arrived_train i e es H \<Longrightarrow> arrived_train i e es (H @ X)"
  using list_emb_append_mono [of "(=)" es H "[]" X] by (auto simp: arrived_train_def)

lemma backed_mono: "backed C H s \<Longrightarrow> backed C (H @ X) s"
proof -
  assume b: "backed C H s"
  show ?thesis
  proof (cases "slot_identity s")
    case None
    with b show ?thesis by (simp add: backed_def)
  next
    case (Some i)
    with b obtain es where "arrived_train i (admission_epoch s) es H"
      "slot_holds C s (map fst es)" and "slot_shape C s"
      and last: "if completed s
        then unat (final_fragment s) = length es - 1 \<and> \<not> more_fragments (fst (last es))
        else unat (expected_fragment s) = length es \<and> length es \<le> 15
             \<and> more_fragments (fst (last es)) \<and> started_at s = arrival_time (hd es)"
      by (auto simp only: backed_def option.case)
    with Some show ?thesis
      unfolding backed_def using arrived_train_mono by (simp only: option.case) blast
  qed
qed

lemma backed_clear: "slot_shape C s \<Longrightarrow> backed C H (slot_clear s)"
  by (simp add: backed_def slot_shape_def slot_clear_def)

lemma backed_shape: "backed C H s \<Longrightarrow> slot_shape C s"
  by (simp add: backed_def)

lemma backed_clear': "backed C H s \<Longrightarrow> backed C H' (slot_clear s)"
  by (simp add: backed_clear backed_shape)

lemma defrag_ok_map_clear:
  "defrag_ok C H d \<Longrightarrow> defrag_ok C H (d\<lparr>slots := map (\<lambda>s. if p s then slot_clear s else s) (slots d)\<rparr>)"
  by (auto simp: defrag_ok_def backed_clear')

lemma defrag_ok_expire: "defrag_ok C H d \<Longrightarrow> defrag_ok C H (snd (expire d now))"
  using defrag_ok_map_clear [of C H d] by (simp add: expire_def)

lemma defrag_ok_update:
  "defrag_ok C H d \<Longrightarrow> backed C H s \<Longrightarrow> defrag_ok C H (d\<lparr>slots := (slots d)[k := s]\<rparr>)"
  by (auto simp: defrag_ok_def dest!: subsetD [OF set_update_subset_insert])

lemma defrag_ok_mono: "defrag_ok C H d \<Longrightarrow> defrag_ok C (H @ X) d"
  by (auto simp: defrag_ok_def backed_mono)

lemma position_Some:
  "position p xs = Some k \<Longrightarrow> k < length xs \<and> p (xs ! k)"
  by (auto simp: position_def find_Some_iff)

lemma position_None: "position p xs = None \<longleftrightarrow> (\<forall>x\<in>set xs. \<not> p x)"
  by (simp add: position_def find_None_iff all_set_conv_all_nth)

lemma slice_of_prefix:
  assumes "take n xs = a @ b @ c"
  shows "take (length b) (drop (length a) xs) = b"
proof -
  have "xs = (a @ b @ c) @ drop n xs"
    using append_take_drop_id [of n xs] by (simp only: assms)
  then have "drop (length a) xs = b @ c @ drop n xs"
    by (metis append_assoc append_eq_conv_conj)
  then show ?thesis by simp
qed

text \<open>The retry check compares with the fragment that arrived under the same number.\<close>

lemma verify_retry_exact:
  assumes backed: "backed C H s" and i: "slot_identity s = Some i"
    and ok: "verify_retry s f = Ok u"
  shows "\<exists>g t. (g, admission_epoch s, t) \<in> set H \<and> identity g = i
    \<and> fragment_number g = fragment_number f \<and> payload g = payload f
    \<and> packet_number g = packet_number f \<and> more_fragments g = more_fragments f"
proof -
  obtain es where es: "arrived_train i (admission_epoch s) es H" "slot_holds C s (map fst es)"
    and last: "if completed s
       then unat (final_fragment s) = length es - 1 \<and> \<not> more_fragments (fst (last es))
       else unat (expected_fragment s) = length es \<and> length es \<le> 15
            \<and> more_fragments (fst (last es)) \<and> started_at s = arrival_time (hd es)"
    using backed i by (auto simp: backed_def)
  have tr: "train i (map fst es)" and ne: "es \<noteq> []"
    and sub: "subseq es H" and more: "\<forall>a\<in>set (butlast es). more_fragments (fst a)"
    using es(1) by (auto simp: arrived_train_def train_def)
  let ?n = "unat (fragment_number f)"
  let ?final = "if completed s then final_fragment s else saturating_sub (expected_fragment s) 1"
  have final: "unat ?final = length es - 1"
    using last by (auto simp: unat_saturating_sub split: if_splits)
  have "\<not> ?final < fragment_number f"
    and mf: "more_fragments f = (fragment_number f < ?final \<or> \<not> completed s)"
    and pn: "packet_numbers s ! ?n = packet_number f"
    and pay: "get_slice (bytes s) (fragment_offsets s ! ?n) (fragment_lengths s ! ?n)
      = Some (payload f)"
    using ok by (auto simp: verify_retry_def Let_def split: if_splits option.splits)
  have "0 < length es" using ne by simp
  then have n: "?n < length es"
    using \<open>\<not> ?final < fragment_number f\<close> unfolding word_less_nat_alt final by linarith
  obtain g e t where g: "es ! ?n = (g, e, t)" by (cases "es ! ?n")
  have mem: "(g, e, t) \<in> set es" using n g by (metis nth_mem)
  have fst_g: "map fst es ! ?n = g" using n g by simp
  have "e = admission_epoch s" using es(1) mem by (auto simp: arrived_train_def)
  moreover have "(g, e, t) \<in> set H" using list_emb_set [OF sub mem] by auto
  moreover have "identity g = i" "fragment_number g = fragment_number f"
    using tr n fst_g by (auto simp: train_def word_unat_eq_iff)
  moreover have "packet_number g = packet_number f"
    using es(2) n fst_g pn by (auto simp: slot_holds_def)
  moreover have "payload g = payload f"
  proof -
    have prefix: "take (slot_length s) (bytes s) = payloads (map fst es)"
      and off: "fragment_offsets s ! ?n = length (payloads (take ?n (map fst es)))"
      and len: "fragment_lengths s ! ?n = length (payload g)"
      using es(2) n fst_g by (auto simp: slot_holds_def)
    have "payloads (map fst es)
        = payloads (take ?n (map fst es)) @ payload g @ payloads (drop (Suc ?n) (map fst es))"
      using n fst_g by (subst id_take_nth_drop [of ?n "map fst es"]) auto
    with prefix have "take (length (payload g))
        (drop (length (payloads (take ?n (map fst es)))) (bytes s)) = payload g"
      by (intro slice_of_prefix) simp
    with pay show ?thesis unfolding off len by (simp add: get_slice_def split: if_splits)
  qed
  moreover have "more_fragments g = more_fragments f"
  proof (cases "?n = length es - 1")
    case True
    then have "g = fst (last es)" using g ne by (simp add: last_conv_nth)
    with last mf True final show ?thesis by (auto simp: word_less_nat_alt split: if_splits)
  next
    case False
    then have "?n < length (butlast es)" using n by simp
    then have "(g, e, t) \<in> set (butlast es)" using g by (metis nth_butlast nth_mem)
    with more False n final mf show ?thesis by (auto simp: word_less_nat_alt)
  qed
  ultimately show ?thesis by blast
qed

subsection \<open>Preflight and ingest\<close>

lemma preflight_owner:
  "snd (preflight_in_epoch d f epoch now) = (if slots d = [] then d else snd (expire d now))"
  by (simp add: preflight_in_epoch_def Let_def split_beta split: option.split result.split)

lemma preflight_admitted:
  assumes "preflight_in_epoch d f epoch now = (Ok (Admitted a), d')"
  shows "d' = snd (expire d now)"
    and "a = \<lparr>adm_fragment = f, adm_epoch = epoch, adm_now = now, adm_expired = fst (expire d now)\<rparr>"
    and "fragment_number f \<noteq> 0 \<Longrightarrow>
      \<exists>k. position (\<lambda>s. is_active s \<and> owned_by (identity f) epoch s) (slots d') = Some k
        \<and> fragment_number f = expected_fragment (slots d' ! k)
        \<and> \<not> (more_fragments f \<and> fragment_number f = 15)"
  using assms
  by (auto simp: preflight_in_epoch_def Let_def split_beta
      split: if_splits option.splits result.splits)

lemma preflight_duplicate:
  assumes "preflight_in_epoch d f epoch now = (Ok (PreflightDuplicate x), d')"
  shows "retry f"
    and "\<exists>s\<in>set (slots d'). owned_by (identity f) epoch s \<and> verify_retry s f = Ok ()"
proof -
  have nth: "slots d' ! k \<in> set (slots d') \<and> owned_by (identity f) epoch (slots d' ! k)"
    if "position (\<lambda>s. is_active s \<and> owned_by (identity f) epoch s) (slots d') = Some k" for k
    using position_Some [OF that] by simp
  have d': "d' = snd (expire d now)"
    using assms preflight_owner [of d f epoch now] by (auto simp: preflight_in_epoch_def)
  show "retry f"
    using assms by (auto simp: preflight_in_epoch_def Let_def split_beta
        split: if_splits option.splits result.splits)
  show "\<exists>s\<in>set (slots d'). owned_by (identity f) epoch s \<and> verify_retry s f = Ok ()"
    using assms unfolding preflight_in_epoch_def Let_def split_beta
    by (auto simp flip: d' split: if_splits option.splits result.splits dest: find_SomeD nth)
qed

lemma expire_fresh:
  assumes "s \<in> set (slots (snd (expire d now)))" "slot_identity s \<noteq> None"
  shows "\<not> timestamp_expired now (started_at s) (timeout d)"
  using assms by (auto simp: expire_def slot_expired_def split: if_splits)

lemma oldest_Some: "oldest p xs = Some k \<Longrightarrow> k < length xs \<and> p (xs ! k)"
proof -
  assume "oldest p xs = Some k"
  then obtain i rest where f: "filter (\<lambda>i. p (xs ! i)) [0..<length xs] = i # rest"
    and k: "k = foldl (\<lambda>best j. if started_at (xs ! j) < started_at (xs ! best) then j else best) i rest"
    by (auto simp: oldest_def split: list.splits)
  have "foldl (\<lambda>best j. if started_at (xs ! j) < started_at (xs ! best) then j else best) a js
      \<in> insert a (set js)" for a js
  proof (induction js arbitrary: a)
    case (Cons j js)
    show ?case using Cons [of j] Cons [of a] by (simp only: foldl_Cons list.set) (simp; blast)
  qed simp
  then have "k \<in> set (i # rest)" using k by simp
  then show ?thesis unfolding f [symmetric] by simp
qed

lemma choose_slot_Some:
  assumes "choose_slot xs i epoch = Some (k, ev, clr)"
  shows "k < length xs" and "\<not> clr \<Longrightarrow> slot_identity (xs ! k) = None"
  using assms
  by (auto simp: choose_slot_def split: option.splits dest: position_Some oldest_Some)

text \<open>Opening a train: the chosen slot holds nothing before the first fragment.\<close>

lemma open_train:
  assumes s: "backed C H s" "clr \<or> slot_identity s = None" and f: "fragment_ok f" "fragment_number f = 0"
    and app: "append_fragment ((if clr then slot_clear s else s)\<lparr>slot_identity := Some (identity f),
      admission_epoch := epoch, expected_fragment := 1, started_at := now\<rparr>) f = (r, s')"
  shows "backed C (H @ [(f, epoch, now)]) (case r of Ok _ \<Rightarrow> s' | Err _ \<Rightarrow> slot_clear s')"
proof -
  let ?o = "(if clr then slot_clear s else s)\<lparr>slot_identity := Some (identity f),
      admission_epoch := epoch, expected_fragment := 1, started_at := now\<rparr>"
  have shape: "slot_shape C ?o" and empty: "slot_length ?o = 0" and open_slot: "\<not> completed ?o"
    using s by (auto simp: backed_def slot_shape_def slot_clear_def split: if_splits)
  have s': "s' = snd (append_fragment ?o f)" using app by simp
  show ?thesis
  proof (cases r)
    case (Err e)
    have "length (bytes s') = C"
      using shape unfolding s' append_fragment_fields by (simp add: slot_shape_def)
    then have "slot_shape C (slot_clear s')" by simp
    with Err show ?thesis by (simp add: backed_def)
  next
    case (Ok u)
    have "slot_holds C s' ([] @ [f])"
      using append_fragment_holds(1) [OF slot_holds_nil [OF shape empty] _ _ app [unfolded Ok]] f(2)
      by simp
    then have holds: "slot_holds C s' (map fst [(f, epoch, now)])" by simp
    have more: "more_fragments f" using f by (simp add: fragment_ok_def)
    have "arrived_train (identity f) epoch [(f, epoch, now)] (H @ [(f, epoch, now)])"
      using list_emb_append_mono [of "(=)" "[]" H "[(f, epoch, now)]" "[(f, epoch, now)]"] f(2)
      by (simp add: arrived_train_def train_single)
    moreover have "slot_identity s' = Some (identity f)" "admission_epoch s' = epoch" "\<not> completed s'"
      "expected_fragment s' = 1" "started_at s' = now"
      unfolding s' append_fragment_fields using open_slot by simp_all
    moreover have "slot_shape C s'" using holds by (simp add: slot_holds_def)
    ultimately show ?thesis
      unfolding Ok backed_def using holds more
      by (simp only: result.case option.case simp_thms if_False)
         (intro exI [of _ "[(f, epoch, now)]"], simp)
  qed
qed

text \<open>Continuing a train.\<close>

lemma continue_train:
  assumes s: "backed C H s" "is_active s" "slot_identity s = Some (identity f)"
    and f: "fragment_ok f" "fragment_number f = expected_fragment s"
    and app: "append_fragment s f = (Ok u, s')"
  obtains es where
    "arrived_train (identity f) (admission_epoch s) (es @ [(f, admission_epoch s, now)])
       (H @ [(f, admission_epoch s, now)])"
    "slot_holds C s' (map fst (es @ [(f, admission_epoch s, now)]))"
    "unat (expected_fragment s) = length es" "es \<noteq> []" "started_at s = arrival_time (hd es)"
proof -
  let ?a = "(f, admission_epoch s, now)"
  obtain es where es: "arrived_train (identity f) (admission_epoch s) es H"
    and holds: "slot_holds C s (map fst es)"
    and act: "unat (expected_fragment s) = length es" "length es \<le> 15"
      "more_fragments (fst (last es))" "started_at s = arrival_time (hd es)"
    using s by (auto simp: backed_def is_active_def)
  have tr: "train (identity f) (map fst es)" and sub: "subseq es H"
    and ep: "\<forall>a\<in>set es. fst (snd a) = admission_epoch s"
    and more: "\<forall>a\<in>set (butlast es). more_fragments (fst a)"
    using es by (auto simp: arrived_train_def)
  then have ne: "es \<noteq> []" by (auto simp: train_def)
  have number: "unat (fragment_number f) = length (map fst es)" using f(2) act(1) by simp
  have room: "length (map fst es) < 16" using act(2) by simp
  note app' = append_fragment_holds [OF holds number room app]
  have "train (identity f) (map fst es @ [f])"
    using app'(2) ne number by (simp add: train_snoc [OF tr])
  moreover have "subseq (es @ [?a]) (H @ [?a])"
    using list_emb_append_mono [OF sub, of "[?a]" "[?a]"] by simp
  moreover have "\<forall>a\<in>set es. more_fragments (fst a)"
  proof
    fix a assume "a \<in> set es"
    then have "a \<in> set (butlast es) \<or> a = last es"
      using append_butlast_last_id [OF ne] by (metis Un_iff empty_iff insert_iff list.set set_append)
    then show "more_fragments (fst a)" using more act(3) by blast
  qed
  ultimately have "arrived_train (identity f) (admission_epoch s) (es @ [?a]) (H @ [?a])"
    using ep by (auto simp: arrived_train_def)
  moreover have "slot_holds C s' (map fst (es @ [?a]))" using app'(1) by simp
  ultimately show thesis using that act ne by blast
qed

lemma slot_holds_fields:
  "slot_holds C (s\<lparr>expected_fragment := n\<rparr>) fs = slot_holds C s fs"
  "slot_holds C (s\<lparr>completed := c, final_fragment := n, started_at := now\<rparr>) fs = slot_holds C s fs"
  by (simp_all add: slot_holds_def slot_shape_def)

lemma slot_holds_msdu:
  assumes "slot_holds C s fs"
  shows "take (slot_length s) (bytes s) = payloads fs" "slot_length s \<le> length (bytes s)"
  using assms by (auto simp: slot_holds_def slot_shape_def)

lemma backed_append_clear:
  "backed C H s \<Longrightarrow> append_fragment s f = (r, s') \<Longrightarrow> backed C H' (slot_clear s')"
  using append_fragment_fields(6) [of s f]
  by (simp add: backed_def slot_shape_def slot_clear_def)

lemma ingest_first:
  assumes ok: "defrag_ok C H d" and f: "fragment_ok f" "fragment_number f = 0"
  shows "defrag_ok C (H @ [(f, epoch, now)]) (snd (ingest_admitted d f epoch now x complete))"
    and "fst (ingest_admitted d f epoch now x complete) \<noteq> Ok (Complete y v)"
proof -
  let ?H = "H @ [(f, epoch, now)]"
  show "defrag_ok C ?H (snd (ingest_admitted d f epoch now x complete))"
  proof (cases "choose_slot (slots d) (identity f) epoch")
    case None
    with f ok show ?thesis by (simp add: ingest_admitted_def defrag_ok_mono)
  next
    case (Some c)
    obtain k ev clr where c: "c = (k, ev, clr)" by (cases c)
    let ?others = "map (\<lambda>s. if completed s \<and> shares_space (identity f) s then slot_clear s else s) (slots d)"
    let ?s = "slots d ! k"
    let ?o = "(if clr then slot_clear ?s else ?s)\<lparr>slot_identity := Some (identity f),
      admission_epoch := epoch, expected_fragment := 1, started_at := now\<rparr>"
    have k: "k < length (slots d)" "clr \<or> slot_identity ?s = None"
      using choose_slot_Some [OF Some [unfolded c]] by (cases clr; simp)+
    then have s: "backed C H ?s" using ok by (simp add: defrag_ok_def)
    obtain r s' where app: "append_fragment ?o f = (r, s')" by (cases "append_fragment ?o f")
    have "snd (ingest_admitted d f epoch now x complete)
        = d\<lparr>slots := ?others[k := (case r of Ok _ \<Rightarrow> s' | Err _ \<Rightarrow> slot_clear s')]\<rparr>"
      using Some f(2) app unfolding c
      by (simp only: ingest_admitted_def Let_def option.case prod.case)
         (simp split: result.split)
    moreover have "defrag_ok C ?H (d\<lparr>slots := ?others\<rparr>)"
      by (intro defrag_ok_map_clear defrag_ok_mono ok)
    ultimately show ?thesis
      using defrag_ok_update [of C ?H "d\<lparr>slots := ?others\<rparr>" _ k] open_train [OF s k(2) f app]
      by simp
  qed
  show "fst (ingest_admitted d f epoch now x complete) \<noteq> Ok (Complete y v)"
    using f(2) by (simp add: ingest_admitted_def Let_def split: option.split prod.split result.split)
qed

text \<open>
  A completed MSDU: the payloads of an arrived train that ends with this fragment, which was neither
  too old nor without its LLC/SNAP header.
\<close>

definition completes ::
    "arrival list \<Rightarrow> Duration \<Rightarrow> OpenDataFragment \<Rightarrow> u64 \<Rightarrow> Instant \<Rightarrow> OpenReassembledData \<Rightarrow> bool" where
  "completes H limit f epoch now data \<longleftrightarrow>
     (\<exists>es. arrived_train (identity f) epoch es H \<and> last es = (f, epoch, now) \<and> \<not> more_fragments f
        \<and> msdu_identity data = identity f \<and> msdu data = payloads (map fst es)
        \<and> LLC_SNAP_HEADER_LEN \<le> length (msdu data)
        \<and> take 6 (msdu data) = RFC1042_LLC_SNAP_PREFIX
        \<and> \<not> timestamp_expired now (arrival_time (hd es)) limit)"

lemma ingest_next:
  assumes ok: "defrag_ok C H d" and f: "fragment_ok f" "fragment_number f \<noteq> 0"
    and pos: "position (\<lambda>s. is_active s \<and> owned_by (identity f) epoch s) (slots d) = Some k"
    and expected: "fragment_number f = expected_fragment (slots d ! k)"
    and few: "\<not> (more_fragments f \<and> fragment_number f = 15)"
    and fresh: "\<not> timestamp_expired now (started_at (slots d ! k)) limit"
  shows "defrag_ok C (H @ [(f, epoch, now)]) (snd (ingest_admitted d f epoch now x complete))
    \<and> (\<forall>y v. fst (ingest_admitted d f epoch now x complete) = Ok (Complete y v)
         \<longrightarrow> (\<exists>data. v = complete data \<and> completes (H @ [(f, epoch, now)]) limit f epoch now data))"
proof -
  let ?H = "H @ [(f, epoch, now)]"
  let ?s = "slots d ! k"
  let ?put = "\<lambda>s. d\<lparr>slots := (slots d)[k := s]\<rparr>"
  have k: "k < length (slots d)" and act: "is_active ?s" "slot_identity ?s = Some (identity f)"
    and ep: "admission_epoch ?s = epoch"
    using position_Some [OF pos] by (auto simp: owned_by_def)
  have s: "backed C H ?s" using ok k by (simp add: defrag_ok_def)
  have put: "defrag_ok C ?H (?put s')" if "backed C ?H s'" for s'
    using defrag_ok_update [OF defrag_ok_mono [OF ok, of "[(f, epoch, now)]"] that] .
  obtain r s' where app: "append_fragment ?s f = (r, s')" by (cases "append_fragment ?s f")
  have clear: "defrag_ok C ?H (?put (slot_clear s'))"
    by (rule put [OF backed_append_clear [OF s app]])
  note res = ingest_admitted_def [of d f epoch now x complete, unfolded Let_def pos option.case app]
  show ?thesis
  proof (cases r)
    case (Err e)
    with clear f(2) show ?thesis by (simp add: res)
  next
    case (Ok u)
    obtain es where es: "arrived_train (identity f) epoch (es @ [(f, epoch, now)]) ?H"
      and holds: "slot_holds C s' (map fst (es @ [(f, epoch, now)]))"
      and len: "unat (expected_fragment ?s) = length es" "es \<noteq> []"
      and start: "started_at ?s = arrival_time (hd es)"
      using continue_train [OF s act f(1) expected app [unfolded Ok], of now] unfolding ep by blast
    have fields: "slot_identity s' = Some (identity f)" "admission_epoch s' = epoch" "\<not> completed s'"
      "expected_fragment s' = expected_fragment ?s" "started_at s' = started_at ?s"
      using append_fragment_fields [of ?s f] act ep unfolding app by (auto simp: is_active_def)
    have shape: "slot_shape C s'" using holds by (simp add: slot_holds_def)
    have nle: "length es \<le> 15" using f(1) len(1) expected by (simp add: fragment_ok_def word_le_nat_alt)
    show ?thesis
    proof (cases "more_fragments f")
      case True
      have "length es \<noteq> 15" using few True len(1) expected by (auto simp: word_unat_eq_iff)
      with nle have n: "unat (expected_fragment s' + 1) = length (es @ [(f, epoch, now)])"
        using len(1) fields(4) by (simp add: unat_word_ariths)
      have "backed C ?H (s'\<lparr>expected_fragment := expected_fragment s' + 1\<rparr>)"
        unfolding backed_def
      proof (intro conjI)
        show "slot_shape C (s'\<lparr>expected_fragment := expected_fragment s' + 1\<rparr>)"
          using shape by (simp add: slot_shape_def)
        show "case slot_identity (s'\<lparr>expected_fragment := expected_fragment s' + 1\<rparr>) of
            None \<Rightarrow> \<not> completed (s'\<lparr>expected_fragment := expected_fragment s' + 1\<rparr>)
              \<and> slot_length (s'\<lparr>expected_fragment := expected_fragment s' + 1\<rparr>) = 0
          | Some i \<Rightarrow> \<exists>es. arrived_train i (admission_epoch (s'\<lparr>expected_fragment := expected_fragment s' + 1\<rparr>)) es ?H
              \<and> slot_holds C (s'\<lparr>expected_fragment := expected_fragment s' + 1\<rparr>) (map fst es)
              \<and> (if completed (s'\<lparr>expected_fragment := expected_fragment s' + 1\<rparr>)
                 then unat (final_fragment (s'\<lparr>expected_fragment := expected_fragment s' + 1\<rparr>)) = length es - 1
                   \<and> \<not> more_fragments (fst (last es))
                 else unat (expected_fragment (s'\<lparr>expected_fragment := expected_fragment s' + 1\<rparr>)) = length es
                   \<and> length es \<le> 15 \<and> more_fragments (fst (last es))
                   \<and> started_at (s'\<lparr>expected_fragment := expected_fragment s' + 1\<rparr>) = arrival_time (hd es))"
          using es holds n nle \<open>length es \<noteq> 15\<close> True len(2) start fields
          by (simp add: slot_holds_fields) (intro exI [of _ "es @ [(f, epoch, now)]"], simp)
      qed
      from put [OF this] show ?thesis using True Ok f(2) by (simp add: res)
    next
      case False
      let ?done = "s'\<lparr>completed := True, final_fragment := fragment_number f, started_at := now\<rparr>"
      let ?data = "\<lparr>msdu_identity = identity f, msdu = take (slot_length s') (bytes s')\<rparr>"
      show ?thesis
      proof (cases "slot_length s' < LLC_SNAP_HEADER_LEN
          \<or> take (length RFC1042_LLC_SNAP_PREFIX) (bytes s') \<noteq> RFC1042_LLC_SNAP_PREFIX")
        case True
        with False clear Ok f(2) show ?thesis by (simp add: res)
      next
        case llc: False
        have "backed C ?H ?done"
          unfolding backed_def using es holds len expected False fields shape
          by (simp add: slot_shape_def slot_holds_fields) (intro exI [of _ "es @ [(f, epoch, now)]"], simp)
        moreover have "completes ?H limit f epoch now ?data"
          unfolding completes_def
        proof (intro exI [of _ "es @ [(f, epoch, now)]"] conjI)
          have "8 \<le> slot_length s'" and six: "take 6 (bytes s') = RFC1042_LLC_SNAP_PREFIX"
            using llc by (auto simp: LLC_SNAP_HEADER_LEN_def RFC1042_LLC_SNAP_PREFIX_def eval_nat_numeral)
          then show "LLC_SNAP_HEADER_LEN \<le> length (msdu ?data)"
            "take 6 (msdu ?data) = RFC1042_LLC_SNAP_PREFIX"
            using slot_holds_msdu(2) [OF holds] by (simp_all add: LLC_SNAP_HEADER_LEN_def min_def)
          show "msdu ?data = payloads (map fst (es @ [(f, epoch, now)]))"
            using slot_holds_msdu(1) [OF holds] by (simp only: OpenReassembledData.simps)
        qed (use es False fresh start len(2) in simp_all)
        ultimately show ?thesis using put False llc Ok f(2) by (auto simp: res)
      qed
    qed
  qed
qed

lemma ingest_step:
  assumes ok: "defrag_ok C H d" and f: "fragment_ok f"
  shows "defrag_ok C (H @ [(f, epoch, now)]) (snd (ingest_in_epoch d f epoch now complete))
    \<and> (\<forall>y v. fst (ingest_in_epoch d f epoch now complete) = Ok (Complete y v)
         \<longrightarrow> (\<exists>data. v = complete data
              \<and> completes (H @ [(f, epoch, now)]) (timeout d) f epoch now data))"
proof -
  let ?H = "H @ [(f, epoch, now)]"
  obtain r d1 where pre: "preflight_in_epoch d f epoch now = (r, d1)" by force
  have d1: "defrag_ok C H d1"
    using preflight_owner [of d f epoch now] pre ok by (auto simp: defrag_ok_expire split: if_splits)
  consider (refused) e where "r = Err e" | (dup) x where "r = Ok (PreflightDuplicate x)"
    | (admitted) a where "r = Ok (Admitted a)"
    by (cases r) (use OpenDataFragmentPreflight.exhaust in blast)+
  then show ?thesis
  proof cases
    case admitted
    note a = preflight_admitted [OF pre [unfolded admitted]]
    have res: "ingest_in_epoch d f epoch now complete
        = ingest_admitted d1 f epoch now (fst (expire d now)) complete"
      using pre admitted a(2) by (simp add: ingest_in_epoch_def admission_ingest_def)
    show ?thesis
    proof (cases "fragment_number f = 0")
      case True
      show ?thesis
        unfolding res
        using ingest_first(1) [OF d1 f True, of epoch now "fst (expire d now)" complete]
          ingest_first(2) [OF d1 f True, of epoch now "fst (expire d now)" complete] by simp
    next
      case False
      obtain k where k: "position (\<lambda>s. is_active s \<and> owned_by (identity f) epoch s) (slots d1) = Some k"
        "fragment_number f = expected_fragment (slots d1 ! k)"
        "\<not> (more_fragments f \<and> fragment_number f = 15)"
        using a(3) [OF False] by blast
      have "slots d1 ! k \<in> set (slots (snd (expire d now)))" "slot_identity (slots d1 ! k) \<noteq> None"
        using position_Some [OF k(1)] a(1) by (auto simp: is_active_def)
      then have "\<not> timestamp_expired now (started_at (slots d1 ! k)) (timeout d)"
        by (rule expire_fresh)
      from ingest_next [OF d1 f False k this] show ?thesis unfolding res by blast
    qed
  qed (use pre d1 in \<open>auto simp: ingest_in_epoch_def defrag_ok_mono\<close>)
qed

subsection \<open>Runs\<close>

datatype ReassemblyOp =
    IngestFragment OpenDataFragment u64 Instant
  | AdmitUnfragmented OpenDataFragmentIdentity u64 bool "Instant option"
  | ForgetTransmitter "u8 list"
  | Discard OpenDataFragmentIdentity u64
  | ClearAll

fun reassembly_step :: "OpenDataDefragmenter \<Rightarrow> ReassemblyOp \<Rightarrow> OpenDataDefragmenter" where
  "reassembly_step d (IngestFragment f epoch now) = snd (ingest_in_epoch d f epoch now id)"
| "reassembly_step d (AdmitUnfragmented i epoch r now) = snd (admit_unfragmented_in_epoch d i epoch r now)"
| "reassembly_step d (ForgetTransmitter a) = snd (forget_transmitter d a)"
| "reassembly_step d (Discard i epoch) = snd (discard d i epoch)"
| "reassembly_step d ClearAll = snd (defragmenter_clear d)"

fun arrivals :: "ReassemblyOp list \<Rightarrow> arrival list" where
  "arrivals [] = []"
| "arrivals (IngestFragment f epoch now # ops) = (f, epoch, now) # arrivals ops"
| "arrivals (_ # ops) = arrivals ops"

fun op_ok :: "ReassemblyOp \<Rightarrow> bool" where
  "op_ok (IngestFragment f _ _) = fragment_ok f"
| "op_ok _ = True"

lemma arrivals_Cons: "arrivals (op # ops) = arrivals [op] @ arrivals ops"
  by (cases op) auto

lemma defrag_ok_unfragmented:
  assumes "defrag_ok C H d"
  shows "defrag_ok C H (snd (admit_unfragmented_in_epoch d i epoch r now))"
  using defrag_ok_map_clear [OF assms]
    defrag_ok_map_clear [OF defrag_ok_expire [OF assms]] defrag_ok_expire [OF assms] assms
  by (cases now) (auto simp: admit_unfragmented_in_epoch_def Let_def split_beta)

lemma reassembly_step_ok:
  assumes "defrag_ok C H d" "op_ok op"
  shows "defrag_ok C (H @ arrivals [op]) (reassembly_step d op)"
proof (cases op)
  case (IngestFragment f epoch now)
  with assms ingest_step [of C H d f epoch now id] show ?thesis by simp
next
  case (AdmitUnfragmented i epoch r now)
  with defrag_ok_unfragmented [OF assms(1)] show ?thesis by simp
next
  case (ForgetTransmitter a)
  with defrag_ok_map_clear [OF assms(1)] show ?thesis by (simp add: forget_transmitter_def Let_def)
next
  case (Discard i epoch)
  have "backed C H (slot_clear (slots d ! k))" if "position (owned_by i epoch) (slots d) = Some k" for k
    using assms(1) position_Some [OF that] by (auto simp: defrag_ok_def intro: backed_clear')
  with Discard assms show ?thesis
    by (auto simp: discard_def split: option.split intro!: defrag_ok_update)
next
  case ClearAll
  with assms show ?thesis by (auto simp: defragmenter_clear_def defrag_ok_def backed_clear')
qed

lemma reassembly_run_ok:
  "defrag_ok C H d \<Longrightarrow> \<forall>op\<in>set ops. op_ok op
    \<Longrightarrow> defrag_ok C (H @ arrivals ops) (foldl reassembly_step d ops)"
proof (induction ops arbitrary: d H)
  case (Cons op ops)
  have "defrag_ok C (H @ arrivals [op]) (reassembly_step d op)"
    using Cons.prems by (intro reassembly_step_ok) auto
  from Cons.IH [OF this] Cons.prems show ?case
    by (simp add: arrivals_Cons [of op ops])
qed simp

lemma defrag_ok_new: "defrag_ok C [] (OpenDataDefragmenter_new n C limit)"
  by (auto simp: defrag_ok_def OpenDataDefragmenter_new_def backed_def ReassemblySlot_new_def
      slot_shape_def)

lemma reassembly_step_timeout [simp]: "timeout (reassembly_step d op) = timeout d"
proof -
  have ex: "timeout (snd (expire d now)) = timeout d" for d now by (simp add: expire_def)
  have ad: "timeout (snd (ingest_admitted d f epoch now x c)) = timeout d" for d f epoch now x
      and c :: "OpenReassembledData \<Rightarrow> OpenReassembledData"
    by (auto simp: ingest_admitted_def Let_def split: option.split prod.split result.split)
  show ?thesis
  proof (cases op)
    case (IngestFragment f epoch now)
    have "timeout (snd (preflight_in_epoch d f epoch now)) = timeout d"
      by (simp add: preflight_owner ex)
    with IngestFragment ad show ?thesis
      by (cases "preflight_in_epoch d f epoch now")
         (auto simp: ingest_in_epoch_def admission_ingest_def
           split: result.split OpenDataFragmentPreflight.split)
  next
    case (AdmitUnfragmented i epoch r now)
    then show ?thesis
      by (cases now) (auto simp: admit_unfragmented_in_epoch_def Let_def split_beta ex)
  qed (auto simp: forget_transmitter_def discard_def defragmenter_clear_def Let_def
        split: option.split)
qed

lemma reassembly_run_timeout [simp]: "timeout (foldl reassembly_step d ops) = timeout d"
  by (induction ops arbitrary: d) simp_all

subsection \<open>One train per sequence space\<close>

definition space_key :: "OpenDataFragmentIdentity \<Rightarrow>
    DataInterfaceRole \<times> DataFragmentProtection \<times> u8 list \<times> SequenceNumber \<times> u8 option" where
  "space_key i = (role i, protection i, transmitter_address i, sequence_number i, identity_tid i)"

abbreviation slot_space where
  "slot_space s \<equiv> map_option space_key (slot_identity s)"

definition one_train_per_space :: "ReassemblySlot list \<Rightarrow> bool" where
  "one_train_per_space xs \<longleftrightarrow>
     (\<forall>a b. a < length xs \<and> b < length xs \<and> is_active (xs ! a) \<and> is_active (xs ! b)
        \<and> slot_space (xs ! a) = slot_space (xs ! b) \<longrightarrow> a = b)"

lemma shares_space_iff: "shares_space i s \<longleftrightarrow> slot_space s = Some (space_key i)"
  by (auto simp: shares_space_def same_sequence_space_def space_key_def split: option.split)

lemma owned_by_space: "owned_by i epoch s \<Longrightarrow> slot_space s = Some (space_key i)"
  by (simp add: owned_by_def)

lemma is_active_clear [simp]: "\<not> is_active (slot_clear s)"
  by (simp add: is_active_def)

text \<open>A change that opens no new train keeps the property.\<close>

lemma one_train_pointwise:
  assumes "one_train_per_space xs" "length ys = length xs"
    and "\<And>a. a < length xs \<Longrightarrow> is_active (ys ! a) \<Longrightarrow> is_active (xs ! a) \<and> slot_space (ys ! a) = slot_space (xs ! a)"
  shows "one_train_per_space ys"
  unfolding one_train_per_space_def
proof (intro allI impI)
  fix a b
  assume ab: "a < length ys \<and> b < length ys \<and> is_active (ys ! a) \<and> is_active (ys ! b)
    \<and> slot_space (ys ! a) = slot_space (ys ! b)"
  then have "is_active (xs ! a)" "is_active (xs ! b)" "slot_space (xs ! a) = slot_space (xs ! b)"
    using assms(2,3) by metis+
  then show "a = b" using assms(1,2) ab unfolding one_train_per_space_def by metis
qed

lemma one_train_map_clear:
  "one_train_per_space xs \<Longrightarrow> one_train_per_space (map (\<lambda>s. if p s then slot_clear s else s) xs)"
  by (erule one_train_pointwise) (auto split: if_splits)

lemma one_train_update:
  assumes "one_train_per_space xs"
    and "k < length xs \<Longrightarrow> is_active s \<Longrightarrow> is_active (xs ! k) \<and> slot_space s = slot_space (xs ! k)"
  shows "one_train_per_space (xs[k := s])"
  using assms(1)
proof (rule one_train_pointwise)
  fix a
  assume "a < length xs" "is_active (xs[k := s] ! a)"
  then show "is_active (xs ! a) \<and> slot_space (xs[k := s] ! a) = slot_space (xs ! a)"
    using assms(2) by (cases "a = k") auto
qed simp

text \<open>Opening a train in a slot when no other active slot shares its space.\<close>

lemma one_train_open:
  assumes one: "one_train_per_space xs" and k: "k < length xs"
    and free: "\<And>a. a < length xs \<Longrightarrow> a \<noteq> k \<Longrightarrow> is_active (xs ! a) \<Longrightarrow> slot_space (xs ! a) \<noteq> slot_space s"
  shows "one_train_per_space (xs[k := s])"
  unfolding one_train_per_space_def
proof (intro allI impI)
  fix a b
  assume ab: "a < length (xs[k := s]) \<and> b < length (xs[k := s]) \<and> is_active (xs[k := s] ! a)
    \<and> is_active (xs[k := s] ! b) \<and> slot_space (xs[k := s] ! a) = slot_space (xs[k := s] ! b)"
  show "a = b"
  proof (cases "a = k \<or> b = k")
    case True
    then show ?thesis using ab free [of a] free [of b] k by (auto simp: nth_list_update split: if_splits)
  next
    case False
    then show ?thesis using ab one unfolding one_train_per_space_def by (auto simp: nth_list_update)
  qed
qed

lemma choose_slot_free:
  assumes one: "one_train_per_space xs" and c: "choose_slot xs i epoch = Some (k, ev, clr)"
    and a: "a < length xs" "a \<noteq> k" "is_active (xs ! a)"
  shows "slot_space (xs ! a) \<noteq> Some (space_key i)"
proof (cases "\<exists>s\<in>set xs. is_active s \<and> shares_space i s")
  case False
  then have "\<not> shares_space i (xs ! a)" using a by auto
  then show ?thesis by (simp add: shares_space_iff)
next
  case True
  have "k < length xs \<and> is_active (xs ! k) \<and> slot_space (xs ! k) = Some (space_key i)"
  proof (cases "position (\<lambda>s. is_active s \<and> owned_by i epoch s) xs")
    case None
    with True obtain m where "position (\<lambda>s. is_active s \<and> shares_space i s) xs = Some m"
      by (cases "position (\<lambda>s. is_active s \<and> shares_space i s) xs") (auto simp: position_None)
    with None c position_Some [OF this] show ?thesis
      by (auto simp: choose_slot_def shares_space_iff)
  next
    case (Some m)
    with c position_Some [OF Some] show ?thesis
      by (auto simp: choose_slot_def owned_by_def)
  qed
  with one a show ?thesis unfolding one_train_per_space_def by metis
qed

lemma one_train_ingest_admitted:
  assumes one: "one_train_per_space (slots d)"
  shows "one_train_per_space (slots (snd (ingest_admitted d f epoch now x complete)))"
proof (cases "fragment_number f = 0")
  case False
  show ?thesis
  proof (cases "position (\<lambda>s. is_active s \<and> owned_by (identity f) epoch s) (slots d)")
    case None
    with False one show ?thesis by (simp add: ingest_admitted_def)
  next
    case (Some k)
    have k: "is_active (slots d ! k)" using position_Some [OF Some] by simp
    obtain r s' where app: "append_fragment (slots d ! k) f = (r, s')" by force
    have s': "slot_identity s' = slot_identity (slots d ! k)"
      using append_fragment_fields(1) [of "slots d ! k" f] app by simp
    note res = ingest_admitted_def [of d f epoch now x complete, unfolded Let_def Some option.case app]
    have upd: "one_train_per_space ((slots d)[k := s])"
      if "is_active s \<Longrightarrow> slot_identity s = slot_identity s'" for s
      using one by (rule one_train_update) (use that s' k in auto)
    have "one_train_per_space ((slots d)[k := slot_clear s'])"
      "one_train_per_space ((slots d)[k := s'\<lparr>expected_fragment := expected_fragment s' + 1\<rparr>])"
      "one_train_per_space ((slots d)[k := s'\<lparr>completed := True,
         final_fragment := fragment_number f, started_at := now\<rparr>])"
      by (rule upd, simp)+
    with False show ?thesis by (cases r) (simp_all add: res)
  qed
next
  case True
  show ?thesis
  proof (cases "choose_slot (slots d) (identity f) epoch")
    case None
    with True one show ?thesis by (simp add: ingest_admitted_def)
  next
    case (Some c)
    obtain k ev clr where c: "c = (k, ev, clr)" by (cases c)
    let ?others = "map (\<lambda>s. if completed s \<and> shares_space (identity f) s then slot_clear s else s) (slots d)"
    let ?o = "(if clr then slot_clear (slots d ! k) else slots d ! k)\<lparr>slot_identity := Some (identity f),
      admission_epoch := epoch, expected_fragment := 1, started_at := now\<rparr>"
    obtain r s' where app: "append_fragment ?o f = (r, s')" by (cases "append_fragment ?o f")
    have s': "slot_identity s' = Some (identity f)"
      using append_fragment_fields(1) [of ?o f] unfolding app by simp
    have k: "k < length ?others" using choose_slot_Some(1) [OF Some [unfolded c]] by simp
    have oth: "one_train_per_space ?others" using one by (rule one_train_map_clear)
    have free: "slot_space (?others ! a) \<noteq> Some (space_key (identity f))"
      if "a < length ?others" "a \<noteq> k" "is_active (?others ! a)" for a
      using choose_slot_free [OF one Some [unfolded c], of a] that by (auto split: if_splits)
    have upd: "one_train_per_space (?others[k := s])"
      if "is_active s \<Longrightarrow> slot_identity s = Some (identity f)" for s
    proof (cases "is_active s")
      case True
      show ?thesis
        by (rule one_train_open [OF oth k]) (use free that [OF True] in auto)
    next
      case False
      show ?thesis by (rule one_train_update [OF oth]) (use False in simp)
    qed
    have "one_train_per_space (?others[k := s'])" "one_train_per_space (?others[k := slot_clear s'])"
      by (rule upd, simp add: s')+
    then show ?thesis
      using Some True app unfolding c
      by (simp only: ingest_admitted_def Let_def option.case prod.case)
         (simp split: result.splits)
  qed
qed

lemma one_train_preflight:
  "one_train_per_space (slots d) \<Longrightarrow> one_train_per_space (slots (snd (preflight_in_epoch d f epoch now)))"
  by (cases "slots d = []") (simp_all add: preflight_owner expire_def one_train_map_clear)

lemma one_train_ingest:
  assumes "one_train_per_space (slots d)"
  shows "one_train_per_space (slots (snd (ingest_in_epoch d f epoch now complete)))"
  using one_train_preflight [OF assms, of f epoch now]
  by (cases "preflight_in_epoch d f epoch now")
     (auto simp: ingest_in_epoch_def admission_ingest_def one_train_ingest_admitted
       split: result.split OpenDataFragmentPreflight.split)

lemma one_train_step:
  assumes one: "one_train_per_space (slots d)"
  shows "one_train_per_space (slots (reassembly_step d op))"
proof (cases op)
  case (AdmitUnfragmented i epoch r now)
  have "one_train_per_space (slots (snd (expire d t)))" for t
    using one by (simp add: expire_def one_train_map_clear)
  with AdmitUnfragmented one show ?thesis
    by (cases now) (auto simp: admit_unfragmented_in_epoch_def Let_def split_beta one_train_map_clear)
next
  case (Discard i epoch)
  with one show ?thesis by (auto simp: discard_def split: option.split intro!: one_train_update)
next
  case ClearAll
  with one one_train_map_clear [of "slots d" "\<lambda>_. True"] show ?thesis
    by (simp add: defragmenter_clear_def)
qed (use one in \<open>simp_all add: one_train_ingest forget_transmitter_def Let_def one_train_map_clear\<close>)

interpretation reassembly: invariant_machine "\<lambda>d. one_train_per_space (slots d)" reassembly_step
  by unfold_locales (rule one_train_step)

lemma one_train_new: "one_train_per_space (slots (OpenDataDefragmenter_new n C limit))"
  by (auto simp: one_train_per_space_def OpenDataDefragmenter_new_def is_active_def
      ReassemblySlot_new_def)

lemma cleared_shares_no_space [simp]: "\<not> shares_space i (slot_clear s)"
  by (simp add: shares_space_def)

lemma admit_unfragmented_fence:
  assumes adm: "admit_unfragmented_in_epoch d i epoch r now = (Ok (AdmittedUnfragmented x), d')"
    and s: "s \<in> set (slots d')" "shares_space i s"
  shows "\<not> is_active s \<and> (r \<or> \<not> completed s)"
proof -
  obtain e where
    no: "\<not> list_ex (\<lambda>s. is_active s \<and> shares_space i s) (slots e)" and
    d': "d' = (if r then e else e\<lparr>slots := map (\<lambda>s. if completed s \<and> shares_space i s
           then slot_clear s else s) (slots e)\<rparr>)"
    using adm
    by (cases now)
       (simp_all add: admit_unfragmented_in_epoch_def Let_def split_beta
          split: if_split_asm DataFragmentProtection.split_asm)
  show ?thesis
  proof (cases r)
    case True
    with no d' s show ?thesis by (auto simp: list_ex_iff)
  next
    case False
    with d' s obtain t where t: "t \<in> set (slots e)"
      "s = (if completed t \<and> shares_space i t then slot_clear t else t)" by auto
    with s(2) have "s = t" "\<not> completed t" by (auto split: if_split_asm)
    with no t(1) s(2) show ?thesis by (auto simp: list_ex_iff)
  qed
qed

lemma ingest_not_duplicate: "fst (ingest_admitted d f epoch now e complete) \<noteq> Ok (Duplicate x)"
  by (auto simp: ingest_admitted_def Let_def split: option.split prod.split result.split)

subsection \<open>Properties\<close>

text \<open>
  C4. A reassembled MSDU is one genuine train.  After any sequence of calls (ingested fragments of any
  peers and epochs, unfragmented frames, discards, peer and epoch resets), when a fragment completes
  an MSDU, its bytes are the concatenation of the payloads of fragments that really arrived, in
  order, all with this fragment's identity and epoch, numbered 0, 1, 2 and so on without a gap, every
  one but the last announcing more, with strictly rising packet numbers under CCMP, the first of
  them within the timeout; and the MSDU begins with the RFC 1042 header.
\<close>

theorem completed_msdu_is_one_train:
  assumes "\<forall>op\<in>set ops. op_ok op" and "fragment_ok f"
    and "d = foldl reassembly_step (OpenDataDefragmenter_new n C limit) ops"
    and "fst (ingest_in_epoch d f epoch now complete) = Ok (Complete x v)"
  shows "\<exists>data. v = complete data
    \<and> completes (arrivals ops @ [(f, epoch, now)]) limit f epoch now data"
proof -
  have ok: "defrag_ok C (arrivals ops) d"
    using reassembly_run_ok [OF defrag_ok_new assms(1), of C n limit] assms(3) by simp
  have "timeout d = limit" using assms(3) by (simp add: OpenDataDefragmenter_new_def)
  with ingest_step [OF ok assms(2), of epoch now complete] assms(4) show ?thesis by simp
qed

definition example_identity :: OpenDataFragmentIdentity where
  "example_identity = \<lparr>role = Station, protection = CcmpProtected (CcmpKeyId 0),
     receiver_address = [2, 0, 0, 0, 0, 1], transmitter_address = [2, 0, 0, 0, 0, 2],
     address3 = [2, 0, 0, 0, 0, 3], sequence_number = SequenceNumber 7, qos_control = None\<rparr>"

definition first_fragment :: OpenDataFragment where
  "first_fragment = \<lparr>identity = example_identity, frag_sequence_control = 0x0070,
     fragment_number = 0, more_fragments = True, retry = False,
     packet_number = Some (CcmpPacketNumber 4), payload = [0xaa, 0xaa, 0x03, 0, 0]\<rparr>"

definition second_fragment :: OpenDataFragment where
  "second_fragment = \<lparr>identity = example_identity, frag_sequence_control = 0x0071,
     fragment_number = 1, more_fragments = False, retry = False,
     packet_number = Some (CcmpPacketNumber 7), payload = [0, 0x08, 0x00, 1, 2]\<rparr>"

definition example_run :: "ReassemblyOp list" where
  "example_run = [IngestFragment first_fragment 3 (Instant 10)]"

lemma example_fragments_ok: "fragment_ok first_fragment" "fragment_ok second_fragment"
  by (simp_all add: fragment_ok_def first_fragment_def second_fragment_def example_identity_def
      sequence_ok_iff)

theorem completed_msdu_is_one_train_witness:
  "\<exists>data. \<lparr>msdu_identity = example_identity,
       msdu = [0xaa, 0xaa, 0x03, 0, 0, 0, 0x08, 0x00, 1, 2]\<rparr> = id data
     \<and> completes (arrivals example_run @ [(second_fragment, 3, Instant 20)]) (Duration 1000)
         second_fragment 3 (Instant 20) data"
proof (rule completed_msdu_is_one_train [OF _ example_fragments_ok(2) refl])
  show "\<forall>op\<in>set example_run. op_ok op" by (simp add: example_run_def example_fragments_ok)
  show "fst (ingest_in_epoch (foldl reassembly_step
      (OpenDataDefragmenter_new 2 16 (Duration 1000)) example_run) second_fragment 3 (Instant 20) id)
    = Ok (Complete 0 \<lparr>msdu_identity = example_identity,
        msdu = [0xaa, 0xaa, 0x03, 0, 0, 0, 0x08, 0x00, 1, 2]\<rparr>)"
    by code_simp
qed

text \<open>
  C35. Only an exact retransmission is suppressed.  When a fragment is answered as a duplicate, it
  carried the Retry bit and a fragment with the same identity, epoch, number, payload, packet number
  and More Fragments bit had arrived before; suppressing it loses nothing.
\<close>

theorem duplicate_is_exact_retransmission:
  assumes "\<forall>op\<in>set ops. op_ok op"
    and "d = foldl reassembly_step (OpenDataDefragmenter_new n C limit) ops"
    and "fst (ingest_in_epoch d f epoch now complete) = Ok (Duplicate x)"
  shows "retry f \<and> (\<exists>g t. (g, epoch, t) \<in> set (arrivals ops) \<and> identity g = identity f
    \<and> fragment_number g = fragment_number f \<and> payload g = payload f
    \<and> packet_number g = packet_number f \<and> more_fragments g = more_fragments f)"
proof -
  have ok: "defrag_ok C (arrivals ops) d"
    using reassembly_run_ok [OF defrag_ok_new assms(1), of C n limit] assms(2) by simp
  obtain d1 where pre: "preflight_in_epoch d f epoch now = (Ok (PreflightDuplicate x), d1)"
    using assms(3)
    by (auto simp: ingest_in_epoch_def admission_ingest_def ingest_not_duplicate
        split: prod.splits result.splits OpenDataFragmentPreflight.splits)
  have "defrag_ok C (arrivals ops) d1"
    using preflight_owner [of d f epoch now] pre ok by (auto simp: defrag_ok_expire split: if_splits)
  moreover obtain s where s: "s \<in> set (slots d1)" "owned_by (identity f) epoch s"
    "verify_retry s f = Ok ()"
    using preflight_duplicate(2) [OF pre] by blast
  ultimately have "backed C (arrivals ops) s" by (simp add: defrag_ok_def)
  from verify_retry_exact [OF this _ s(3)] s(2) preflight_duplicate(1) [OF pre] show ?thesis
    by (auto simp: owned_by_def)
qed

theorem duplicate_is_exact_retransmission_witness:
  "fst (ingest_in_epoch (foldl reassembly_step
      (OpenDataDefragmenter_new 2 16 (Duration 1000)) example_run)
      (first_fragment\<lparr>retry := True\<rparr>) 3 (Instant 20) id) = Ok (Duplicate 0)
   \<and> (\<exists>g t. (g, 3, t) \<in> set (arrivals example_run) \<and> payload g = payload first_fragment)"
proof
  show *: "fst (ingest_in_epoch (foldl reassembly_step
      (OpenDataDefragmenter_new 2 16 (Duration 1000)) example_run)
      (first_fragment\<lparr>retry := True\<rparr>) 3 (Instant 20) id) = Ok (Duplicate 0)"
    by code_simp
  have "\<forall>op\<in>set example_run. op_ok op" by (simp add: example_run_def example_fragments_ok)
  from duplicate_is_exact_retransmission [OF this refl *]
  show "\<exists>g t. (g, 3, t) \<in> set (arrivals example_run) \<and> payload g = payload first_fragment"
    by fastforce
qed


definition plain_identity :: OpenDataFragmentIdentity where
  "plain_identity = example_identity\<lparr>sequence_number := SequenceNumber 8\<rparr>"


end
