(* ===== verification/Fragment_Delivery.thy ===== *)
theory Fragment_Delivery
  imports Fragment_Reassembly
begin

text \<open>
  Delivery by the reassembler: whatever happened before, a whole train of fresh fragments that arrives
  in order and in time is delivered as one MSDU.  This is the converse of the safety properties of
  \<open>Fragment_Reassembly\<close>; it rests on the uniqueness of a train per sequence space proved there.
\<close>

text \<open>
  The default limits of \<open>fragmentation.rs\<close>: one Ethernet payload with its LLC/SNAP header, and the
  lifetime of an unfinished MSDU.
\<close>

definition OPEN_DATA_REASSEMBLY_CAPACITY :: nat where
  "OPEN_DATA_REASSEMBLY_CAPACITY = 1500 + LLC_SNAP_HEADER_LEN"

definition OPEN_DATA_FRAGMENT_TIMEOUT :: Duration where
  "OPEN_DATA_FRAGMENT_TIMEOUT = Duration_from_secs 1"

text \<open>Some slot holds the unfinished train \<open>fs\<close>, and it is the only one of its sequence space.\<close>

definition holding ::
    "nat \<Rightarrow> OpenDataDefragmenter \<Rightarrow> OpenDataFragmentIdentity \<Rightarrow> u64 \<Rightarrow> Instant
     \<Rightarrow> OpenDataFragment list \<Rightarrow> bool" where
  "holding C d i epoch start fs \<longleftrightarrow> one_train_per_space (slots d)
     \<and> (\<exists>k<length (slots d). is_active (slots d ! k) \<and> owned_by i epoch (slots d ! k)
          \<and> slot_holds C (slots d ! k) fs \<and> unat (expected_fragment (slots d ! k)) = length fs
          \<and> started_at (slots d ! k) = start)"

lemma train_split:
  assumes "train i (fs @ g # gs)"
  shows "identity g = i" "unat (fragment_number g) = length fs" "fs \<noteq> [] \<Longrightarrow> train i fs"
    "fs \<noteq> [] \<Longrightarrow> pn_rises (packet_number (last fs)) (packet_number g)"
proof -
  let ?L = "fs @ g # gs"
  have id: "identity (?L ! k) = i \<and> unat (fragment_number (?L ! k)) = k" if "k < length ?L" for k
    using assms that unfolding train_def by blast
  have pn: "pn_rises (packet_number (?L ! k)) (packet_number (?L ! Suc k))" if "Suc k < length ?L" for k
    using assms that unfolding train_def by blast
  show "identity g = i" "unat (fragment_number g) = length fs"
    using id [of "length fs"] by simp_all
  show "train i fs" if "fs \<noteq> []"
    unfolding train_def
  proof (intro conjI allI impI that)
    fix k assume "k < length fs"
    with id [of k] show "identity (fs ! k) = i" "unat (fragment_number (fs ! k)) = k"
      by (simp_all add: nth_append)
  next
    fix k assume "Suc k < length fs"
    with pn [of k] show "pn_rises (packet_number (fs ! k)) (packet_number (fs ! Suc k))"
      by (simp add: nth_append)
  qed
  show "pn_rises (packet_number (last fs)) (packet_number g)" if "fs \<noteq> []"
    using pn [of "length fs - 1"] that by (simp add: nth_append last_conv_nth)
qed

text \<open>No operation changes the number of contexts.\<close>

lemma contexts_step [simp]: "length (slots (reassembly_step d op)) = length (slots d)"
proof (cases op)
  case (IngestFragment f epoch now)
  have ad: "length (slots (snd (ingest_admitted d f epoch now x c))) = length (slots d)" for d x
      and c :: "OpenReassembledData \<Rightarrow> OpenReassembledData"
    by (auto simp: ingest_admitted_def Let_def split: option.split prod.split result.split)
  have "length (slots (snd (preflight_in_epoch d f epoch now))) = length (slots d)"
    by (simp add: preflight_owner expire_def)
  with IngestFragment ad show ?thesis
    by (cases "preflight_in_epoch d f epoch now")
       (auto simp: ingest_in_epoch_def admission_ingest_def
         dest: preflight_admitted(2) split: result.split OpenDataFragmentPreflight.split)
next
  case (AdmitUnfragmented i epoch r now)
  then show ?thesis
    by (cases now) (auto simp: admit_unfragmented_in_epoch_def Let_def split_beta expire_def)
qed (auto simp: forget_transmitter_def discard_def defragmenter_clear_def Let_def split: option.split)

lemma contexts_run [simp]: "length (slots (foldl reassembly_step d ops)) = length (slots d)"
  by (induction ops arbitrary: d) simp_all

lemma oldest_total: "xs \<noteq> [] \<Longrightarrow> \<exists>k. oldest (\<lambda>_. True) xs = Some k"
  by (auto simp: oldest_def split: list.split)

lemma choose_slot_total:
  assumes "xs \<noteq> []"
  obtains k ev clr where "choose_slot xs i epoch = Some (k, ev, clr)"
proof -
  have "choose_slot xs i epoch \<noteq> None"
    using oldest_total [OF assms] by (auto simp: choose_slot_def split: option.split)
  with that show thesis by (cases "choose_slot xs i epoch") auto
qed

text \<open>Appending succeeds when the packet number rises and the payload fits.\<close>

lemma append_fragment_total:
  assumes holds: "slot_holds C s fs" and number: "unat (fragment_number f) = length fs"
    and pn: "fs \<noteq> [] \<Longrightarrow> pn_rises (packet_number (last fs)) (packet_number f)"
    and fits: "length (payloads (fs @ [f])) \<le> C"
  obtains s' where "append_fragment s f = (Ok (), s')"
proof -
  have "packet_numbers s ! (length fs - 1) = packet_number (last fs)" if "fs \<noteq> []"
    using holds that by (simp add: slot_holds_def last_conv_nth)
  moreover have "\<not> length (bytes s) < slot_length s + length (payload f)"
    using holds fits by (simp add: slot_holds_def slot_shape_def)
  ultimately have "fst (append_fragment s f) = Ok ()"
    using pn number
    by (cases "fs = []"; cases "packet_number (last fs)"; cases "packet_number f")
       (auto simp: append_fragment_def Let_def)
  with that show thesis by (cases "append_fragment s f") auto
qed

lemma position_unique:
  assumes "k < length xs" "p (xs ! k)" "\<And>j. j < length xs \<Longrightarrow> p (xs ! j) \<Longrightarrow> j = k"
  shows "position p xs = Some k"
proof -
  have "position p xs \<noteq> None" using assms(1,2) by (auto simp: position_None)
  then obtain j where "position p xs = Some j" by auto
  with position_Some [OF this] assms(3) show ?thesis by auto
qed

text \<open>The first fragment opens the train.\<close>

lemma deliver_first:
  assumes ok: "defrag_ok C H d" "slots d \<noteq> []" "one_train_per_space (slots d)"
    and f: "fragment_ok f" "fragment_number f = 0" "\<not> retry f" "length (payload f) \<le> C"
  shows "holding C (snd (ingest_in_epoch d f epoch now c)) (identity f) epoch now [f]"
proof -
  let ?d = "snd (expire d now)" and ?i = "identity f"
  have d1: "defrag_ok C H ?d" "slots ?d \<noteq> []"
    using ok by (simp_all add: defrag_ok_expire) (simp add: expire_def)
  have pre: "preflight_in_epoch d f epoch now = (Ok (Admitted \<lparr>adm_fragment = f, adm_epoch = epoch,
      adm_now = now, adm_expired = fst (expire d now)\<rparr>), ?d)"
    using f ok(2) by (simp add: preflight_in_epoch_def Let_def split_beta)
  obtain k ev clr where ch: "choose_slot (slots ?d) ?i epoch = Some (k, ev, clr)"
    using choose_slot_total [OF d1(2)] by blast
  let ?s = "slots ?d ! k"
  let ?o = "(if clr then slot_clear ?s else ?s)\<lparr>slot_identity := Some ?i,
      admission_epoch := epoch, expected_fragment := 1, started_at := now\<rparr>"
  have k: "k < length (slots ?d)" "clr \<or> slot_identity ?s = None"
    using choose_slot_Some [OF ch] by (cases clr; simp)+
  then have "backed C H ?s" using d1(1) by (simp add: defrag_ok_def)
  then have o: "slot_shape C ?o" "slot_length ?o = 0" "\<not> completed ?o"
    using k(2) by (auto simp: backed_def slot_shape_def slot_clear_def split: if_splits)
  obtain s' where app: "append_fragment ?o f = (Ok (), s')"
    using append_fragment_total [OF slot_holds_nil [OF o(1,2)], of f] f by auto
  have "slot_holds C s' ([] @ [f])"
    using append_fragment_holds(1) [OF slot_holds_nil [OF o(1,2)] _ _ app] f(2) by simp
  moreover have "slot_identity s' = Some ?i" "admission_epoch s' = epoch" "\<not> completed s'"
    "expected_fragment s' = 1" "started_at s' = now"
    using append_fragment_fields [of ?o f] o(3) unfolding app by simp_all
  moreover have "slots (snd (ingest_in_epoch d f epoch now c))
      = (map (\<lambda>s. if completed s \<and> shares_space ?i s then slot_clear s else s) (slots ?d))[k := s']"
    using f(2) ch app pre
    by (simp add: ingest_in_epoch_def admission_ingest_def ingest_admitted_def Let_def)
  ultimately show ?thesis
    using one_train_ingest [OF ok(3), of f epoch now c] k(1)
    unfolding holding_def by (intro conjI exI [of _ k]) (auto simp: is_active_def owned_by_def)
qed

text \<open>The next fragment finds its train: it survived expiry and no other slot can be taken for it.\<close>

lemma holding_after_expiry:
  assumes "holding C d i epoch start fs" and "\<not> timestamp_expired now start (timeout d)"
  obtains k where "k < length (slots (snd (expire d now)))"
    "position (\<lambda>s. is_active s \<and> owned_by i epoch s) (slots (snd (expire d now))) = Some k"
    "is_active (slots (snd (expire d now)) ! k)" "owned_by i epoch (slots (snd (expire d now)) ! k)"
    "slot_holds C (slots (snd (expire d now)) ! k) fs"
    "unat (expected_fragment (slots (snd (expire d now)) ! k)) = length fs"
    "started_at (slots (snd (expire d now)) ! k) = start"
proof -
  let ?d = "snd (expire d now)"
  obtain k where k: "k < length (slots d)" "is_active (slots d ! k)" "owned_by i epoch (slots d ! k)"
    "slot_holds C (slots d ! k) fs" "unat (expected_fragment (slots d ! k)) = length fs"
    "started_at (slots d ! k) = start" and one: "one_train_per_space (slots d)"
    using assms(1) by (auto simp: holding_def)
  have same: "slots ?d ! k = slots d ! k" and len: "length (slots ?d) = length (slots d)"
    using k assms(2) by (auto simp: expire_def slot_expired_def)
  have one': "one_train_per_space (slots ?d)" using one by (simp add: expire_def one_train_map_clear)
  have pos: "position (\<lambda>s. is_active s \<and> owned_by i epoch s) (slots ?d) = Some k"
  proof (rule position_unique)
    fix j assume j: "j < length (slots ?d)" "is_active (slots ?d ! j) \<and> owned_by i epoch (slots ?d ! j)"
    have "slot_space (slots ?d ! j) = slot_space (slots ?d ! k)"
      using j(2) k(3) same by (simp add: owned_by_def)
    then show "j = k"
      using one' j k(1,2) len same unfolding one_train_per_space_def by metis
  qed (use k same len in auto)
  show thesis using k by (intro that [of k]) (simp_all add: same len pos)
qed

lemma deliver_next:
  assumes hold: "holding C d i epoch start fs" "fs \<noteq> []"
    and fresh: "\<not> timestamp_expired now start (timeout d)"
    and f: "identity f = i" "unat (fragment_number f) = length fs" "\<not> retry f"
      "more_fragments f \<longrightarrow> length fs < 15" "length fs < 16"
    and pn: "pn_rises (packet_number (last fs)) (packet_number f)"
    and fits: "length (payloads (fs @ [f])) \<le> C"
  shows "more_fragments f \<Longrightarrow> holding C (snd (ingest_in_epoch d f epoch now c)) i epoch start (fs @ [f])"
    and "\<not> more_fragments f \<Longrightarrow> 8 \<le> length (payloads (fs @ [f]))
      \<Longrightarrow> take 6 (payloads (fs @ [f])) = RFC1042_LLC_SNAP_PREFIX
      \<Longrightarrow> \<exists>x. fst (ingest_in_epoch d f epoch now c)
            = Ok (Complete x (c \<lparr>msdu_identity = i, msdu = payloads (fs @ [f])\<rparr>))"
proof -
  let ?d = "snd (expire d now)"
  obtain k where k: "k < length (slots ?d)"
    and pos: "position (\<lambda>s. is_active s \<and> owned_by i epoch s) (slots ?d) = Some k"
    and s: "is_active (slots ?d ! k)" "owned_by i epoch (slots ?d ! k)"
      "slot_holds C (slots ?d ! k) fs" "unat (expected_fragment (slots ?d ! k)) = length fs"
      "started_at (slots ?d ! k) = start"
    by (rule holding_after_expiry [OF hold(1) fresh])
  let ?s = "slots ?d ! k"
  have number: "fragment_number f \<noteq> 0" "fragment_number f = expected_fragment ?s"
    using f(2) s(4) hold(2) by (auto simp: word_unat_eq_iff)
  have few: "\<not> (more_fragments f \<and> fragment_number f = 15)" using f(2,4) by auto
  have "slots d \<noteq> []" using k by (auto simp: expire_def)
  then have pre: "preflight_in_epoch d f epoch now = (Ok (Admitted \<lparr>adm_fragment = f, adm_epoch = epoch,
      adm_now = now, adm_expired = fst (expire d now)\<rparr>), ?d)"
    using f(3) number few pos unfolding f(1) [symmetric]
    by (simp add: preflight_in_epoch_def Let_def split_beta)
  obtain s' where app: "append_fragment ?s f = (Ok (), s')"
    using append_fragment_total [OF s(3) f(2) pn fits] by blast
  have holds: "slot_holds C s' (fs @ [f])"
    by (rule append_fragment_holds(1) [OF s(3) f(2,5) app])
  have s': "slot_identity s' = Some i" "admission_epoch s' = epoch" "\<not> completed s'"
    "expected_fragment s' = expected_fragment ?s" "started_at s' = start"
    using append_fragment_fields [of ?s f] s unfolding app by (auto simp: is_active_def owned_by_def)
  have res: "ingest_in_epoch d f epoch now c =
     (if more_fragments f
      then (Ok (Buffered (fst (expire d now)) None),
            ?d\<lparr>slots := (slots ?d)[k := s'\<lparr>expected_fragment := expected_fragment s' + 1\<rparr>]\<rparr>)
      else if slot_length s' < LLC_SNAP_HEADER_LEN
        \<or> take (length RFC1042_LLC_SNAP_PREFIX) (bytes s') \<noteq> RFC1042_LLC_SNAP_PREFIX
      then (Err InvalidLlcSnap, ?d\<lparr>slots := (slots ?d)[k := slot_clear s']\<rparr>)
      else (Ok (Complete (fst (expire d now)) (c \<lparr>msdu_identity = i,
              msdu = take (slot_length s') (bytes s')\<rparr>)),
            ?d\<lparr>slots := (slots ?d)[k := s'\<lparr>completed := True, final_fragment := fragment_number f,
               started_at := now\<rparr>]\<rparr>))"
    using pre number(1) pos app unfolding f(1) [symmetric]
    by (simp add: ingest_in_epoch_def admission_ingest_def ingest_admitted_def Let_def)
  {
    assume more: "more_fragments f"
    have "unat (expected_fragment s' + 1) = length (fs @ [f])"
      using f(4) more s(4) s'(4) by (simp add: unat_word_ariths)
    then show "holding C (snd (ingest_in_epoch d f epoch now c)) i epoch start (fs @ [f])"
      using one_train_ingest [of d f epoch now c] hold(1) more k holds s' unfolding res holding_def
      by (intro conjI exI [of _ k]) (auto simp: is_active_def owned_by_def slot_holds_fields)
  next
    assume last: "\<not> more_fragments f" and llc: "8 \<le> length (payloads (fs @ [f]))"
      "take 6 (payloads (fs @ [f])) = RFC1042_LLC_SNAP_PREFIX"
    have msdu: "take (slot_length s') (bytes s') = payloads (fs @ [f])"
      "slot_length s' = length (payloads (fs @ [f]))"
      using slot_holds_msdu(1) [OF holds] holds by (simp, simp add: slot_holds_def)
    have "take 6 (bytes s') = take 6 (take (slot_length s') (bytes s'))"
      using llc(1) msdu(2) by (simp add: min_def)
    then have "take 6 (bytes s') = RFC1042_LLC_SNAP_PREFIX" unfolding msdu(1) llc(2) .
    with last llc msdu show "\<exists>x. fst (ingest_in_epoch d f epoch now c)
        = Ok (Complete x (c \<lparr>msdu_identity = i, msdu = payloads (fs @ [f])\<rparr>))"
      unfolding res by (simp add: LLC_SNAP_HEADER_LEN_def length_prefix)
  }
qed

lemma ingest_timeout: "timeout (snd (ingest_in_epoch d f epoch now id)) = timeout d"
  using reassembly_step_timeout [of d "IngestFragment f epoch now"] by simp

text \<open>The fragments of a train that follow an opened one.\<close>

lemma deliver_more:
  assumes "holding C d i epoch start fs" "fs \<noteq> []" "train i (fs @ gs)" "length gs = length ts"
    "\<forall>g\<in>set gs. \<not> retry g \<and> more_fragments g" "length (fs @ gs) \<le> 15"
    "length (payloads (fs @ gs)) \<le> C" "\<forall>t\<in>set ts. \<not> timestamp_expired t start (timeout d)"
  shows "holding C (foldl reassembly_step d (map2 (\<lambda>g t. IngestFragment g epoch t) gs ts))
    i epoch start (fs @ gs)"
  using assms
proof (induction gs arbitrary: d fs ts)
  case (Cons g gs)
  obtain t ts' where ts: "ts = t # ts'" "length gs = length ts'" using Cons.prems(4) by (cases ts) auto
  note g = train_split(1,2,4) [OF Cons.prems(3)]
  have "holding C (reassembly_step d (IngestFragment g epoch t)) i epoch start (fs @ [g])"
    using deliver_next(1) [OF Cons.prems(1,2) _ g(1,2) _ _ _ g(3) [OF Cons.prems(2)], of t id]
      Cons.prems(5-8) ts(1)
    by simp
  from Cons.IH [OF this, of ts'] show ?case
    using Cons.prems ts by (simp add: ingest_timeout)
qed simp

subsection \<open>Properties\<close>

text \<open>
  C15. A whole train is delivered.  After any earlier calls, with at least one context: when the
  fragments of a train arrive one after another, each a first transmission of the same identity and
  epoch, numbered from zero without a gap, all but the last announcing more, packet numbers rising
  under CCMP, each within the timeout of the first, and the payloads together fit the capacity and
  begin with an LLC/SNAP header, then the last fragment completes the MSDU and the callback receives
  the concatenation of the payloads.
\<close>

theorem complete_train_is_delivered:
  assumes run: "\<forall>op\<in>set ops. op_ok op" "0 < n"
      "d = foldl reassembly_step (OpenDataDefragmenter_new n C limit) ops"
    and fs: "train i (fs @ [f])" "\<forall>g\<in>set (fs @ [f]). fragment_ok g \<and> \<not> retry g"
      "\<forall>g\<in>set fs. more_fragments g" "\<not> more_fragments f"
    and msdu: "length (payloads (fs @ [f])) \<le> C" "8 \<le> length (payloads (fs @ [f]))"
      "take 6 (payloads (fs @ [f])) = RFC1042_LLC_SNAP_PREFIX"
    and times: "length fs = length ts" "\<forall>t\<in>set (ts @ [now]). \<not> timestamp_expired t (hd ts) limit"
  shows "\<exists>x. fst (ingest_in_epoch
      (foldl reassembly_step d (map2 (\<lambda>g t. IngestFragment g epoch t) fs ts)) f epoch now complete)
    = Ok (Complete x (complete \<lparr>msdu_identity = i, msdu = payloads (fs @ [f])\<rparr>))"
proof -
  have d: "defrag_ok C (arrivals ops) d" "one_train_per_space (slots d)" "timeout d = limit"
    "length (slots d) = n"
    using reassembly_run_ok [OF defrag_ok_new run(1), of C n limit] run(3)
      reassembly.run_inv [OF one_train_new, of n C limit ops]
    by (simp_all add: OpenDataDefragmenter_new_def)
  have ne: "slots d \<noteq> []" using d(4) run(2) by auto
  note nf = train_split(2,1) [OF fs(1)]
  have "fragment_number f \<noteq> 0" using fs(2,4) by (auto simp: fragment_ok_def)
  then obtain g gs where g: "fs = g # gs" using nf(1) by (cases fs) (auto simp: unat_eq_0)
  have few: "length fs \<le> 15" using fs(2) nf(1) by (simp add: fragment_ok_def word_le_nat_alt)
  obtain t ts' where ts: "ts = t # ts'" "length gs = length ts'" using times(1) g by (cases ts) auto
  have tr: "train i fs" and pn: "pn_rises (packet_number (last fs)) (packet_number f)"
    using train_split(3,4) [OF fs(1)] g by auto
  have zero: "fragment_number g = 0" "identity g = i"
    using train_split(1,2) [of i "[]" g gs] tr g by (simp_all add: unat_eq_0)
  have "holding C (reassembly_step d (IngestFragment g epoch t)) i epoch t [g]"
    using deliver_first [OF d(1) ne d(2) _ zero(1), of epoch t id] zero(2) fs(2) msdu(1) g by simp
  from deliver_more [OF this, of gs ts']
  have "holding C (foldl reassembly_step d (map2 (\<lambda>g t. IngestFragment g epoch t) fs ts))
      i epoch t fs" (is "holding C ?d _ _ _ _")
    using tr g ts fs(2,3) few msdu(1) times(2) d(3) by (simp add: ingest_timeout)
  from deliver_next(2) [OF this _ _ nf(2,1) _ _ _ pn, of now complete]
  show ?thesis using g ts fs(2,4) few msdu times(2) d(3) by (simp add: ingest_timeout)
qed

theorem complete_train_is_delivered_witness:
  "\<exists>x. fst (ingest_in_epoch
      (foldl reassembly_step
        (OpenDataDefragmenter_new 2 OPEN_DATA_REASSEMBLY_CAPACITY OPEN_DATA_FRAGMENT_TIMEOUT)
        [IngestFragment first_fragment 3 (Instant 10)]) second_fragment 3 (Instant 20) msdu)
    = Ok (Complete x [0xaa, 0xaa, 0x03, 0, 0, 0, 0x08, 0x00, 1, 2])"
proof -
  have "train example_identity ([first_fragment] @ [second_fragment])"
    by (simp add: train_def first_fragment_def second_fragment_def nth_Cons less_CcmpPacketNumber_def
        split: nat.splits)
  moreover have "\<not> timestamp_expired t (Instant 10) OPEN_DATA_FRAGMENT_TIMEOUT"
    if "t \<in> {Instant 10, Instant 20}" for t
    using that by (auto simp: timestamp_expired_def OPEN_DATA_FRAGMENT_TIMEOUT_def
        Duration_from_secs_def)
  moreover have "take 6 (payloads ([first_fragment] @ [second_fragment])) = RFC1042_LLC_SNAP_PREFIX"
    by code_simp
  ultimately show ?thesis
    using complete_train_is_delivered [of "[]" 2
        "OpenDataDefragmenter_new 2 OPEN_DATA_REASSEMBLY_CAPACITY OPEN_DATA_FRAGMENT_TIMEOUT"
        OPEN_DATA_REASSEMBLY_CAPACITY OPEN_DATA_FRAGMENT_TIMEOUT example_identity
        "[first_fragment]" second_fragment "[Instant 10]" "Instant 20" 3 msdu] example_fragments_ok
    by (simp add: OPEN_DATA_REASSEMBLY_CAPACITY_def LLC_SNAP_HEADER_LEN_def first_fragment_def
        second_fragment_def)
qed

end
