(* ===== verification/Receive_Admission.thy ===== *)
theory Receive_Admission
  imports Data_Framing Ccmp_Replay
begin

text \<open>
  The receive boundary of a station for Data and EAPOL,
  \<open>crates/protocols/ieee80211/mac/src/receive.rs\<close>, with the address roles of \<open>address.rs\<close> it takes.
  \<open>admit\<close> takes the association's replay epoch as an optional mutable borrow; the model takes the
  optional epoch and returns it updated beside the result.  The constructors of \<open>RxDropReason\<close> carry
  the prefix \<open>Drop\<close>, since \<open>Replay\<close>, \<open>Fragmented\<close> and others name errors of the layers below.
\<close>

subsection \<open>Address roles\<close>

datatype IndividualAddress = IndividualAddress (individual_get: "u8 list")

definition IndividualAddress_new :: "u8 list \<Rightarrow> IndividualAddress option" where
  "IndividualAddress_new address =
     (if address ! 0 AND 1 = 0 then Some (IndividualAddress address) else None)"

datatype OwnAddress = OwnAddress (own_individual: IndividualAddress)

definition own_get :: "OwnAddress \<Rightarrow> u8 list" where
  "own_get self = individual_get (own_individual self)"

datatype Bssid = Bssid (bssid_individual: IndividualAddress)

definition Bssid_new :: "IndividualAddress \<Rightarrow> Bssid option" where
  "Bssid_new address =
     (if individual_get address = [0, 0, 0, 0, 0, 0] then None else Some (Bssid address))"

definition bssid_get :: "Bssid \<Rightarrow> u8 list" where
  "bssid_get self = individual_get (bssid_individual self)"

subsection \<open>Admission\<close>

datatype RxDropReason =
    DropHeader
  | DropFrameKind
  | DropAddress
  | DropFragmented
  | DropProtection
  | DropIntegrity
  | DropReplay
  | DropPayload
  | DropNotConnected

datatype Integrity = Unverified | DecryptedAndVerified

record AdmittedData =
  ad_header :: DecodedHeader
  ad_payload :: "u8 list"
  ad_protected :: bool

definition payload_bearing :: "u16 \<Rightarrow> bool" where
  "payload_bearing subtype \<longleftrightarrow> subtype \<le> 3 \<or> 8 \<le> subtype \<and> subtype \<le> 11"

definition admit ::
    "DecodedHeader \<Rightarrow> OwnAddress \<Rightarrow> Bssid \<Rightarrow> Integrity \<Rightarrow> CcmpRxReplayEpoch option
     \<Rightarrow> (AdmittedData, RxDropReason) result \<times> CcmpRxReplayEpoch option" where
  "admit header local bssid integrity replay =
     (let control = dh_control header; receiver = dh_receiver header;
          payload = dh_body header
      in if \<not> is_data control \<or> \<not> payload_bearing (control_subtype control)
            \<or> control_ds control \<noteq> 2
         then (Err DropFrameKind, replay)
         else if dh_transmitter header \<noteq> bssid_get bssid
                 \<or> receiver \<noteq> own_get local \<and> receiver ! 0 AND 1 = 0
         then (Err DropAddress, replay)
         else if control_more_fragments control \<or> dh_sequence_control header AND 15 \<noteq> 0
         then (Err DropFragmented, replay)
         else if control_protected control
         then
           (if integrity \<noteq> DecryptedAndVerified then (Err DropIntegrity, replay)
            else case replay of
              None \<Rightarrow> (Err DropProtection, replay)
            | Some epoch \<Rightarrow>
                (case split_first_chunk CCMP_HEADER_LEN payload of
                   None \<Rightarrow> (Err DropHeader, replay)
                 | Some (bytes, rest) \<Rightarrow>
                     (case CcmpHeader_parse bytes of
                        Err _ \<Rightarrow> (Err DropHeader, replay)
                      | Ok ccmp \<Rightarrow>
                          (case epoch_check epoch
                                  (if receiver = own_get local then Pairwise else Group)
                                  (map_option (\<lambda>qos. ucast (qos AND 15)) (dh_qos header)) ccmp of
                             (Err _, epoch') \<Rightarrow> (Err DropReplay, Some epoch')
                           | (Ok _, epoch') \<Rightarrow>
                               (Ok \<lparr>ad_header = header, ad_payload = rest,
                                   ad_protected = control_protected control\<rparr>,
                                Some epoch')))))
         else (Ok \<lparr>ad_header = header, ad_payload = payload,
                  ad_protected = control_protected control\<rparr>, replay))"

definition msdus :: "AdmittedData \<Rightarrow> (DataDecapsulation, RxDropReason) result" where
  "msdus self = map_err (\<lambda>_. DropPayload) (decapsulate_payload (ad_header self) (ad_payload self))"

text \<open>The iterator \<open>msdus\<close> returns: each item of the decapsulation with its error mapped.\<close>

definition msdus_next ::
    "DataDecapsulation \<Rightarrow> (EthernetFrameParts, RxDropReason) result option \<times> DataDecapsulation" where
  "msdus_next frames =
     (case decapsulation_next frames of
        (item, frames') \<Rightarrow> (map_option (map_err (\<lambda>_. DropPayload)) item, frames'))"

subsection \<open>What an accepted frame is\<close>

text \<open>The checks every frame passes, and the replay lane a protected one names.\<close>

definition downlink :: "DecodedHeader \<Rightarrow> OwnAddress \<Rightarrow> Bssid \<Rightarrow> bool" where
  "downlink h local bssid \<longleftrightarrow>
     is_data (dh_control h) \<and> payload_bearing (control_subtype (dh_control h))
     \<and> control_ds (dh_control h) = 2 \<and> dh_transmitter h = bssid_get bssid
     \<and> (dh_receiver h = own_get local \<or> dh_receiver h ! 0 AND 1 \<noteq> 0)
     \<and> \<not> control_more_fragments (dh_control h) \<and> dh_sequence_control h AND 15 = 0"

definition frame_lane :: "DecodedHeader \<Rightarrow> CcmpReplayLane" where
  "frame_lane h = tid_lane (map_option (\<lambda>qos. ucast (qos AND 15)) (dh_qos h))"

lemma length_encode: "length (CcmpHeader_encode hdr) = CCMP_HEADER_LEN"
  by (simp add: CcmpHeader_encode_def CCMP_HEADER_LEN_def Let_def)

lemma split_parse_iff:
  "(\<exists>bytes. split_first_chunk CCMP_HEADER_LEN body = Some (bytes, rest)
      \<and> CcmpHeader_parse bytes = Ok hdr)
   \<longleftrightarrow> header_ok hdr \<and> body = CcmpHeader_encode hdr @ rest"
proof
  assume "\<exists>bytes. split_first_chunk CCMP_HEADER_LEN body = Some (bytes, rest)
      \<and> CcmpHeader_parse bytes = Ok hdr"
  then obtain bytes where "body = bytes @ rest" "length bytes = 8" "CcmpHeader_parse bytes = Ok hdr"
    by (auto simp: split_first_chunk_eq_Some_iff CCMP_HEADER_LEN_def)
  then show "header_ok hdr \<and> body = CcmpHeader_encode hdr @ rest" using parse_encoded by blast
qed (auto simp: split_first_chunk_eq_Some_iff length_encode parse_encode)

lemma admit_refused: "admit h local bssid integ replay = (Err x, replay') \<Longrightarrow> replay' = replay"
  by (auto simp: admit_def Let_def dest: epoch_check_Err
      split: if_splits option.splits result.splits prod.splits)

lemma admit_downlink:
  "admit h local bssid integ replay = (Ok a, replay') \<Longrightarrow> downlink h local bssid"
  by (auto simp: admit_def downlink_def Let_def split: if_splits)

lemma admit_plain:
  assumes "downlink h local bssid" "\<not> control_protected (dh_control h)"
  shows "admit h local bssid integ replay
    = (Ok \<lparr>ad_header = h, ad_payload = dh_body h, ad_protected = False\<rparr>, replay)"
  using assms by (simp add: admit_def downlink_def Let_def)

lemma admit_protected:
  assumes "downlink h local bssid" "control_protected (dh_control h)"
  shows "admit h local bssid integ replay = (Ok a, replay') \<longleftrightarrow>
    integ = DecryptedAndVerified
    \<and> (\<exists>e e' hdr rest. replay = Some e \<and> replay' = Some e' \<and> header_ok hdr
        \<and> dh_body h = CcmpHeader_encode hdr @ rest
        \<and> a = \<lparr>ad_header = h, ad_payload = rest, ad_protected = True\<rparr>
        \<and> epoch_check e (if dh_receiver h = own_get local then Pairwise else Group)
            (map_option (\<lambda>qos. ucast (qos AND 15)) (dh_qos h)) hdr = (Ok (), e'))"
  (is "?lhs \<longleftrightarrow> ?rhs")
proof
  assume ?lhs
  with assms obtain e e' bytes hdr rest where
    "integ = DecryptedAndVerified" "replay = Some e" "replay' = Some e'"
    "split_first_chunk CCMP_HEADER_LEN (dh_body h) = Some (bytes, rest)"
    "CcmpHeader_parse bytes = Ok hdr"
    "a = \<lparr>ad_header = h, ad_payload = rest, ad_protected = True\<rparr>"
    "epoch_check e (if dh_receiver h = own_get local then Pairwise else Group)
       (map_option (\<lambda>qos. ucast (qos AND 15)) (dh_qos h)) hdr = (Ok (), e')"
    by (auto simp: admit_def downlink_def Let_def
        split: if_splits option.splits result.splits prod.splits)
  then show ?rhs using split_parse_iff [of "dh_body h" rest hdr] by blast
next
  assume ?rhs
  then obtain e e' hdr rest bytes where
    "integ = DecryptedAndVerified" "replay = Some e" "replay' = Some e'"
    "split_first_chunk CCMP_HEADER_LEN (dh_body h) = Some (bytes, rest)"
    "CcmpHeader_parse bytes = Ok hdr"
    "a = \<lparr>ad_header = h, ad_payload = rest, ad_protected = True\<rparr>"
    "epoch_check e (if dh_receiver h = own_get local then Pairwise else Group)
       (map_option (\<lambda>qos. ucast (qos AND 15)) (dh_qos h)) hdr = (Ok (), e')"
    using split_parse_iff [of "dh_body h"] by metis
  with assms show ?lhs by (simp add: admit_def downlink_def Let_def)
qed

text \<open>The frontier a protected frame is checked against, and the packet number it carries.\<close>

definition frame_owner :: "OwnAddress \<Rightarrow> DecodedHeader \<Rightarrow> CcmpHeader \<Rightarrow> FrontierOwner option" where
  "frame_owner local h hdr =
     (if dh_receiver h = own_get local
      then (if header_key_id hdr = CcmpKeyId_PAIRWISE then Some PairwiseKey else None)
      else map_option GroupKey (GroupKeyId_new (key_id_value (header_key_id hdr))))"

lemma frame_owner_eq_Some_iff:
  "frame_owner local h hdr = Some owner \<longleftrightarrow>
     (if dh_receiver h = own_get local then Pairwise else Group) = owner_protection owner
     \<and> header_key_id hdr = owner_key_id owner"
  by (cases owner; cases "header_key_id hdr")
     (auto simp: frame_owner_def GroupKeyId_key_id_def GroupKeyId_new_Some_iff)

lemma admit_protected_owner:
  assumes "downlink h local bssid" "control_protected (dh_control h)"
  shows "admit h local bssid integ replay = (Ok a, replay') \<longleftrightarrow>
    integ = DecryptedAndVerified
    \<and> (\<exists>e e' hdr rest owner. replay = Some e \<and> replay' = Some e' \<and> header_ok hdr
        \<and> dh_body h = CcmpHeader_encode hdr @ rest
        \<and> a = \<lparr>ad_header = h, ad_payload = rest, ad_protected = True\<rparr>
        \<and> frame_owner local h hdr = Some owner
        \<and> epoch_admit e (owner, frame_lane h) (header_packet_number hdr) = Some e')"
  unfolding admit_protected [OF assms] epoch_check_Ok_iff frame_owner_eq_Some_iff frame_lane_def
  by blast

text \<open>A fresh packet number is admitted; a stale one is refused as a replay.\<close>

lemma epoch_admit_fresh:
  assumes "owner_state e owner = Some s" "replay_highest s lane = Some seen" "seen < pn"
  shows "\<exists>e'. epoch_admit e (owner, lane) pn = Some e'"
proof -
  let ?h = "CcmpHeader_new pn (owner_key_id owner)"
  have h: "header_key_id ?h = owner_key_id owner" "header_packet_number ?h = pn"
    by (simp_all add: CcmpHeader_new_def)
  obtain c where "replay_prepare s lane pn = Ok c"
    using assms(2,3) by (auto simp: replay_highest_def replay_prepare_Ok_iff split: option.splits)
  with assms(1) have "epoch_prepare e (owner_protection owner) (lane_tid lane) ?h = Ok (owner, c)"
    by (simp add: epoch_prepare_Ok_iff h)
  then show ?thesis by (simp add: epoch_admit_def epoch_check_def)
qed

lemma admit_replayed:
  assumes "downlink h local bssid" "control_protected (dh_control h)" "header_ok hdr"
    and body: "dh_body h = CcmpHeader_encode hdr @ rest" and owner: "frame_owner local h hdr = Some owner"
    and stale: "epoch_admit e (owner, frame_lane h) (header_packet_number hdr) = None"
  shows "admit h local bssid DecryptedAndVerified (Some e) = (Err DropReplay, Some e)"
proof -
  have split: "split_first_chunk CCMP_HEADER_LEN (dh_body h) = Some (CcmpHeader_encode hdr, rest)"
    by (simp add: body length_encode)
  let ?check = "epoch_check e (if dh_receiver h = own_get local then Pairwise else Group)
       (map_option (\<lambda>qos. ucast (qos AND 15)) (dh_qos h)) hdr"
  have "fst ?check \<noteq> Ok u" for u
  proof
    assume "fst ?check = Ok u"
    then obtain e' where "?check = (Ok u, e')" by (metis prod.collapse)
    then obtain owner' where "frame_owner local h hdr = Some owner'"
      "epoch_admit e (owner', frame_lane h) (header_packet_number hdr) = Some e'"
      unfolding epoch_check_Ok_iff frame_owner_eq_Some_iff frame_lane_def by blast
    with owner stale show False by simp
  qed
  then obtain x where "?check = (Err x, e)"
    using epoch_check_Err by (metis prod.collapse result.exhaust)
  then show ?thesis
    using assms(1-3) by (simp add: admit_def downlink_def Let_def split parse_encode)
qed

subsection \<open>Sequences of frames\<close>

text \<open>The frames accepted from a sequence, with the epoch threaded through it.\<close>

fun accepted ::
    "OwnAddress \<Rightarrow> Bssid \<Rightarrow> CcmpRxReplayEpoch option \<Rightarrow> (DecodedHeader \<times> Integrity) list
     \<Rightarrow> AdmittedData list" where
  "accepted local bssid replay [] = []"
| "accepted local bssid replay ((h, integ) # frames) =
     (case admit h local bssid integ replay of
        (Ok a, replay') \<Rightarrow> a # accepted local bssid replay' frames
      | (Err _, replay') \<Rightarrow> accepted local bssid replay' frames)"

definition ccmp_of :: "AdmittedData \<Rightarrow> CcmpHeader option" where
  "ccmp_of a =
     (case CcmpHeader_parse (take 8 (dh_body (ad_header a))) of Ok hdr \<Rightarrow> Some hdr | Err _ \<Rightarrow> None)"

definition replay_key ::
    "OwnAddress \<Rightarrow> AdmittedData \<Rightarrow> ((FrontierOwner \<times> CcmpReplayLane) \<times> CcmpPacketNumber) option" where
  "replay_key local a = do {
     hdr \<leftarrow> ccmp_of a;
     owner \<leftarrow> frame_owner local (ad_header a) hdr;
     Some ((owner, frame_lane (ad_header a)), header_packet_number hdr)
   }"

lemma ccmp_of_encode:
  "header_ok hdr \<Longrightarrow> dh_body h = CcmpHeader_encode hdr @ rest \<Longrightarrow>
   ccmp_of \<lparr>ad_header = h, ad_payload = p, ad_protected = b\<rparr> = Some hdr"
  using length_encode [of hdr] by (simp add: ccmp_of_def CCMP_HEADER_LEN_def parse_encode)

lemma admit_Ok_cases:
  assumes "admit h local bssid integ (Some e) = (Ok a, replay')"
  obtains (plain) "\<not> ad_protected a" "replay' = Some e"
  | (checked) key pn e' where "ad_protected a" "replay_key local a = Some (key, pn)"
      "epoch_admit e key pn = Some e'" "replay' = Some e'"
proof (cases "control_protected (dh_control h)")
  case True
  with assms admit_downlink [OF assms] obtain e' hdr rest owner where acc:
    "replay' = Some e'" "header_ok hdr" "dh_body h = CcmpHeader_encode hdr @ rest"
    "a = \<lparr>ad_header = h, ad_payload = rest, ad_protected = True\<rparr>"
    "frame_owner local h hdr = Some owner"
    "epoch_admit e (owner, frame_lane h) (header_packet_number hdr) = Some e'"
    unfolding admit_protected_owner [OF admit_downlink [OF assms] True] by blast
  then show thesis using ccmp_of_encode [OF acc(2,3)]
    by (intro checked [of "(owner, frame_lane h)" "header_packet_number hdr" e'])
       (simp_all add: replay_key_def)
qed (use assms admit_downlink [OF assms] plain in \<open>auto simp: admit_plain\<close>)

text \<open>The protected frames accepted from a sequence are accepted by the replay check in that order.\<close>

lemma accepted_keys:
  "\<exists>keys. map (replay_key local) (filter ad_protected (accepted local bssid (Some e) frames))
       = map Some keys
     \<and> admitted epoch_admit e keys = keys"
proof (induction frames arbitrary: e)
  case (Cons frame frames)
  obtain h integ where frame: "frame = (h, integ)" by force
  obtain r replay' where admit: "admit h local bssid integ (Some e) = (r, replay')" by force
  show ?case
  proof (cases r)
    case (Ok a)
    from admit [unfolded Ok] show ?thesis
    proof (cases rule: admit_Ok_cases)
      case plain
      with Cons [of e] show ?thesis by (simp add: frame admit Ok)
    next
      case (checked key pn e')
      from Cons [of e'] obtain keys where
        "map (replay_key local) (filter ad_protected (accepted local bssid (Some e') frames))
          = map Some keys" "admitted epoch_admit e' keys = keys" by blast
      with checked show ?thesis
        by (intro exI [of _ "(key, pn) # keys"]) (simp add: frame admit Ok)
    qed
  next
    case (Err x)
    with Cons [of e] admit_refused [OF admit [unfolded Err]] show ?thesis by (simp add: frame admit)
  qed
qed simp

subsection \<open>Properties\<close>


text \<open>
  C3. No protected frame is delivered twice.  Over any sequence of received frames, whatever their
  integrity reports and whatever lies between them, the protected frames the boundary accepts carry
  packet numbers that strictly rise on each key's lane above the frontier the association started
  with; in particular no protected frame is accepted a second time.
\<close>

theorem accepted_frames_rise:
  assumes "epoch_ok e"
  shows "\<exists>keys. map (replay_key local) (filter ad_protected (accepted local bssid (Some e) frames))
        = map Some keys
      \<and> sorted_wrt (\<lambda>(l, n) (l', n'). l = l' \<longrightarrow> n < n') keys
      \<and> (\<forall>(l, n) \<in> set keys. epoch_frontier e l < n)
      \<and> distinct (filter ad_protected (accepted local bssid (Some e) frames))"
proof -
  obtain keys where keys:
    "map (replay_key local) (filter ad_protected (accepted local bssid (Some e) frames)) = map Some keys"
    "admitted epoch_admit e keys = keys" using accepted_keys by blast
  have "distinct (map Some keys)"
    using epoch.admitted_distinct [OF assms, of keys] keys(2) by (simp add: distinct_map)
  then have "distinct (filter ad_protected (accepted local bssid (Some e) frames))"
    unfolding keys(1) [symmetric] by (simp add: distinct_map)
  with keys show ?thesis
    using epoch.admitted_rising [OF assms, of keys] epoch.admitted_above [OF assms, of _ _ keys]
    by (intro exI [of _ keys]) auto
qed

definition example_downlink :: "u8 list" where
  "example_downlink =
     [0x88, 0x42, 0, 0, 2, 0, 0, 0, 0, 2, 4, 0, 0, 0, 0, 4, 6, 0, 0, 0, 0, 6, 0x30, 0x12, 6, 0,
      9, 0, 0, 0x20, 0, 0, 0, 0, 0xaa, 0xaa, 3, 0, 0, 0, 0x08, 0x00, 0x45, 0x11]"

definition example_own :: OwnAddress where
  "example_own = OwnAddress (IndividualAddress [2, 0, 0, 0, 0, 2])"

definition example_bssid :: Bssid where
  "example_bssid = Bssid (IndividualAddress [4, 0, 0, 0, 0, 4])"

theorem accepted_frames_rise_witness:
  "\<exists>h. decode example_downlink = Some h
     \<and> map ad_payload (accepted example_own example_bssid (Some example_epoch)
          [(h, Unverified), (h, DecryptedAndVerified), (h, DecryptedAndVerified)])
       = [[0xaa, 0xaa, 3, 0, 0, 0, 0x08, 0x00, 0x45, 0x11]]
     \<and> distinct (filter ad_protected (accepted example_own example_bssid (Some example_epoch)
          [(h, Unverified), (h, DecryptedAndVerified), (h, DecryptedAndVerified)]))"
proof -
  have "map_option (\<lambda>h. map ad_payload (accepted example_own example_bssid (Some example_epoch)
          [(h, Unverified), (h, DecryptedAndVerified), (h, DecryptedAndVerified)]))
      (decode example_downlink) = Some [[0xaa, 0xaa, 3, 0, 0, 0, 0x08, 0x00, 0x45, 0x11]]"
    by code_simp
  with accepted_frames_rise [OF example_epoch_ok, of example_own example_bssid] show ?thesis
    by (auto simp: map_option_eq_Some)
qed

subsection \<open>From the access point's Ethernet frame to the station's\<close>

text \<open>
  A protected MPDU as CCMP puts it on the air, before encryption and after decryption: the
  Protected bit set in the Frame Control and the CCMP header between MAC header and body.
\<close>

definition protected_mpdu :: "nat \<Rightarrow> u8 list \<Rightarrow> CcmpHeader \<Rightarrow> u8 list" where
  "protected_mpdu at mpdu hdr =
     (take at mpdu)[1 := mpdu ! 1 OR 0x40] @ CcmpHeader_encode hdr @ drop at mpdu"

definition protected_header :: "DecodedHeader \<Rightarrow> CcmpHeader \<Rightarrow> DecodedHeader" where
  "protected_header h hdr =
     h\<lparr>dh_control := with_protected (dh_control h) True,
       dh_frame := protected_mpdu (length (header_octets h)) (dh_frame h) hdr,
       dh_body := CcmpHeader_encode hdr @ dh_body h\<rparr>"

lemma protected_octets:
  "u16_to_le_bytes (control_get (with_protected c True))
     = (u16_to_le_bytes (control_get c))[1 := u16_to_le_bytes (control_get c) ! 1 OR 0x40]"
proof -
  have "ucast (w AND NOT (push_bit 14 1) OR push_bit 14 1) = (ucast w :: u8)"
    "ucast (drop_bit 8 (w AND NOT (push_bit 14 1) OR push_bit 14 1)) = (ucast (drop_bit 8 w) OR 0x40 :: u8)"
    for w :: u16
    by (rule bit_word_eqI; auto simp: bit_simps numeral_eq_Suc less_Suc_eq)+
  then show ?thesis by (cases c) (simp add: with_protected_def u16_to_le_bytes_def)
qed

lemma with_protected_reads:
  "is_data (with_protected c b) = is_data c" "control_subtype (with_protected c b) = control_subtype c"
  "control_ds (with_protected c b) = control_ds c" "is_qos_data (with_protected c b) = is_qos_data c"
  "control_more_fragments (with_protected c b) = control_more_fragments c"
  "is_four_address (with_protected c b) = is_four_address c"
  "has_ht_control (with_protected c b) = has_ht_control c"
  by (simp_all add: control_reads flag_locality)

lemma with_protected_new:
  "FrameControl_new (control_get c) = Some c \<Longrightarrow>
   FrameControl_new (control_get (with_protected c b)) = Some (with_protected c b)"
  by (simp add: FrameControl_new_def Let_def flag_locality split: if_splits)

lemma with_protected_True: "control_protected (with_protected c True)"
  using flag_reads [of 14 "control_get c" True] by (simp add: control_protected_def with_protected_def)

lemma decode_protected:
  assumes "decode mpdu = Some h"
  shows "decode (protected_mpdu (length (header_octets h)) mpdu hdr) = Some (protected_header h hdr)"
proof -
  let ?p = "protected_header h hdr"
  have wf: "header_wf h" "dh_frame h = mpdu" using decode_wf [OF assms] by auto
  have mpdu: "mpdu = header_octets h @ dh_body h" using wf by (simp add: header_wf_def)
  have "header_octets ?p = (header_octets h)[1 := header_octets h ! 1 OR 0x40]"
    using protected_octets [of "dh_control h"] 
    by (simp add: header_octets_def protected_header_def u16_to_le_bytes_def)
  then have frame: "protected_mpdu (length (header_octets h)) mpdu hdr = header_octets ?p @ dh_body ?p"
    by (simp add: protected_mpdu_def mpdu protected_header_def nth_append header_octets_def u16_to_le_bytes_def)
  have "header_wf ?p"
    using wf(1) frame [folded wf(2)]
    by (cases "dh_address4 h"; cases "dh_ht_control h")
       (simp_all add: header_wf_def protected_header_def with_protected_reads with_protected_new)
  from decode_header_octets [OF this] show ?thesis by (simp add: frame)
qed

text \<open>The header the station decodes from an access point's planned frame.\<close>

lemma downlink_plan:
  assumes len: "length bssid = 6" "length e = 14"
    and ok: "plan_data_encapsulation_with_he_control AccessPoint bssid bssid e priority peer_qos no_ack he
      = Ok plan"
    and hc: "length hc = inserted_air_len he" and ind: "e ! 0 AND 1 = 0"
  obtains h where "decode (air_mpdu plan dur sc hc payload) = Some h"
    "length (header_octets h) = dma_header_len plan + length hc"
    "is_data (dh_control h)" "control_subtype (dh_control h) = (if peer_qos then 8 else 0)"
    "control_ds (dh_control h) = 2" "\<not> control_more_fragments (dh_control h)"
    "dh_receiver h = take 6 e" "dh_transmitter h = bssid" "dh_address3 h = take 6 (drop 6 e)"
    "dh_sequence_control h = sc"
    "dh_qos h = (if peer_qos then Some (le_field [qos_octet priority no_ack, 0]) else None)"
    "dh_body h = RFC1042_LLC_SNAP_PREFIX @ [e ! 12, e ! 13] @ payload"
proof -
  have adr: "addresses AccessPoint bssid bssid e = (take 6 e, bssid, take 6 (drop 6 e))" by simp
  have abc: "length (take 6 e) = 6" "length (take 6 (drop 6 e)) = 6" using len by simp_all
  obtain qos hw where qos: "qos = qos_plan AccessPoint e peer_qos" and plan: "hw \<longrightarrow> qos"
    "dma_header_len plan = (if qos then 26 else 24)" "length hc = (if hw then 4 else 0)" and
    air: "air_mpdu plan dur sc hc payload
      = [if qos then 0x88 else 0x08, ds_octet AccessPoint OR (if hw then 0x80 else 0)]
        @ u16_to_le_bytes dur @ take 6 e @ bssid @ take 6 (drop 6 e) @ u16_to_le_bytes sc
        @ (if qos then [qos_octet priority no_ack, 0] else []) @ hc
        @ RFC1042_LLC_SNAP_PREFIX @ [e ! 12, e ! 13] @ payload"
    by (rule planned_with_he_control [OF len(1) len adr ok hc, where dur = dur and sc = sc
          and payload = payload]) (rule that)
  have qos: "qos = peer_qos" using qos ind by (simp add: qos_plan_def)
  note dec = decode_air_mpdu [OF abc(1) len(1) abc(2) plan(1,3), of "[qos_octet priority no_ack, 0]"
      AccessPoint dur sc "RFC1042_LLC_SNAP_PREFIX @ [e ! 12, e ! 13] @ payload", folded air]
  show thesis
    by (rule that [OF dec])
       (use plan len abc data_control_reads [OF plan(1), of AccessPoint] in
        \<open>auto simp: qos header_octets_def data_control_def control_subtype_def u16_from_le_bytes_def\<close>)
qed

lemma qos_octet_tid: "ucast (le_field [qos_octet p no_ack, 0] AND 15) = priority_value p"
  by (cases p rule: priority_value.cases; cases no_ack;
      simp add: qos_octet_def le_field_def u16_from_le_bytes_def)


text \<open>
  C12. A protected downlink frame is delivered, intact and once.  An individually addressed Ethernet
  frame that the access point encapsulates (with or without QoS, no-ack policy and HE-Control) and
  protects under the pairwise key with a packet number above the frontier of its lane is admitted by
  the addressed station when its integrity is verified, its payload decapsulates to that one Ethernet
  frame and no other, and presenting the same octets again is refused, without touching the replay
  state.
\<close>

theorem protected_downlink_is_delivered_once:
  assumes len: "length (bssid_get bssid) = 6" "length ethernet = 14"
    and plan: "plan_data_encapsulation_with_he_control AccessPoint (bssid_get bssid) (bssid_get bssid)
      ethernet priority peer_qos no_ack he = Ok plan"
    and hc: "length hc = inserted_air_len he" and sc: "sc AND 15 = 0"
    and dest: "take 6 ethernet = own_get local" and ind: "ethernet ! 0 AND 1 = 0"
    and e: "epoch_ok e" and pn: "pn_ok pn"
    and fresh: "replay_highest (pairwise e) (if peer_qos then Tid (priority_value priority) else NonQos)
      = Some seen" "seen < pn"
  shows "\<exists>h a d e'.
    decode (protected_mpdu (dma_header_len plan + length hc) (air_mpdu plan dur sc hc payload)
      (CcmpHeader_new pn CcmpKeyId_PAIRWISE)) = Some h
    \<and> admit h local bssid DecryptedAndVerified (Some e) = (Ok a, Some e') \<and> msdus a = Ok d
    \<and> fst (msdus_next d) = Some (Ok \<lparr>eth_destination = take 6 ethernet,
        eth_source = take 6 (drop 6 ethernet),
        ether_type = u16_from_be_bytes (ethernet ! 12) (ethernet ! 13), eth_payload = payload\<rparr>)
    \<and> fst (msdus_next (snd (msdus_next d))) = None
    \<and> admit h local bssid DecryptedAndVerified (Some e') = (Err DropReplay, Some e')"
proof -
  let ?hdr = "CcmpHeader_new pn CcmpKeyId_PAIRWISE"
  let ?lane = "if peer_qos then Tid (priority_value priority) else NonQos"
  obtain h where dec: "decode (air_mpdu plan dur sc hc payload) = Some h"
    and at: "length (header_octets h) = dma_header_len plan + length hc"
    and h: "is_data (dh_control h)" "control_subtype (dh_control h) = (if peer_qos then 8 else 0)"
    "control_ds (dh_control h) = 2" "\<not> control_more_fragments (dh_control h)"
    "dh_receiver h = take 6 ethernet" "dh_transmitter h = bssid_get bssid"
    "dh_address3 h = take 6 (drop 6 ethernet)" "dh_sequence_control h = sc"
    "dh_qos h = (if peer_qos then Some (le_field [qos_octet priority no_ack, 0]) else None)"
    "dh_body h = RFC1042_LLC_SNAP_PREFIX @ [ethernet ! 12, ethernet ! 13] @ payload"
    by (rule downlink_plan [OF len plan hc ind])
  let ?p = "protected_header h ?hdr"
  note decoded = decode_protected [OF dec, of ?hdr, unfolded at]
  have down: "downlink ?p local bssid"
    using h sc dest by (simp add: downlink_def protected_header_def with_protected_reads
        payload_bearing_def)
  have prot: "control_protected (dh_control ?p)"
    by (simp add: protected_header_def with_protected_True)
  have hdr: "header_ok ?hdr" "header_packet_number ?hdr = pn" "header_key_id ?hdr = CcmpKeyId_PAIRWISE"
    using pn by (simp_all add: header_ok_def CcmpHeader_new_def CcmpKeyId_PAIRWISE_def)
  have owner: "frame_owner local ?p ?hdr = Some PairwiseKey"
    using h(5) dest by (simp add: frame_owner_def protected_header_def hdr)
  have lane: "frame_lane ?p = ?lane"
    by (simp add: frame_lane_def protected_header_def h(9) tid_lane_def qos_octet_tid)
  obtain e' where ad: "epoch_admit e (PairwiseKey, ?lane) pn = Some e'"
    using epoch_admit_fresh [of e PairwiseKey "pairwise e" ?lane seen pn] fresh by auto
  define a where "a = \<lparr>ad_header = ?p,
    ad_payload = RFC1042_LLC_SNAP_PREFIX @ [ethernet ! 12, ethernet ! 13] @ payload,
    ad_protected = True\<rparr>"
  have body: "dh_body ?p = CcmpHeader_encode ?hdr @ ad_payload a"
    by (simp add: protected_header_def a_def h(10))
  have first: "admit ?p local bssid DecryptedAndVerified (Some e) = (Ok a, Some e')"
    unfolding admit_protected_owner [OF down prot]
    using hdr owner lane ad body by (auto simp: a_def)
  have "admit ?p local bssid DecryptedAndVerified (Some e') = (Err DropReplay, Some e')"
    using admit_replayed [OF down prot hdr(1) body owner] epoch.admit_once [OF e ad] lane hdr(2) by simp
  moreover have "msdus a = Ok \<lparr>decap_frames = Single (Some \<lparr>eth_destination = take 6 ethernet,
        eth_source = take 6 (drop 6 ethernet),
        ether_type = u16_from_be_bytes (ethernet ! 12) (ethernet ! 13), eth_payload = payload\<rparr>),
      amsdu = False\<rparr>"
    using qos_octet_no_amsdu [of priority no_ack]
    by (simp add: msdus_def decapsulate_payload_def amsdu_present_def a_def protected_header_def h
        single_payload_snap with_protected_reads le_field_def data_octets)
  ultimately show ?thesis
    using decoded first by (auto simp: msdus_next_def decapsulation_next_def)
qed

theorem protected_downlink_is_delivered_once_witness:
  "\<exists>h a d e'. decode example_downlink = Some h
     \<and> admit h example_own example_bssid DecryptedAndVerified (Some example_epoch) = (Ok a, Some e')
     \<and> msdus a = Ok d
     \<and> fst (msdus_next d) = Some (Ok \<lparr>eth_destination = [2, 0, 0, 0, 0, 2],
         eth_source = [6, 0, 0, 0, 0, 6], ether_type = 0x0800, eth_payload = [0x45, 0x11]\<rparr>)
     \<and> fst (msdus_next (snd (msdus_next d))) = None
     \<and> admit h example_own example_bssid DecryptedAndVerified (Some e') = (Err DropReplay, Some e')"
proof -
  let ?eth = "[2, 0, 0, 0, 0, 2, 6, 0, 0, 0, 0, 6, 0x08, 0x00] :: u8 list"
  let ?plan = "plan_data_encapsulation AccessPoint [4, 0, 0, 0, 0, 4] [4, 0, 0, 0, 0, 4] ?eth
    (WmmUserPriority Up6) True False"
  have plan: "plan_data_encapsulation_with_he_control AccessPoint (bssid_get example_bssid)
      (bssid_get example_bssid) ?eth (WmmUserPriority Up6) True False Disabled = Ok ?plan"
    and len: "length (bssid_get example_bssid) = 6" "length ?eth = 14"
      "length ([] :: u8 list) = inserted_air_len Disabled" "(0x1230 :: u16) AND 15 = 0"
    and dest: "take 6 ?eth = own_get example_own" "?eth ! 0 AND 1 = 0"
    and fresh: "pn_ok (CcmpPacketNumber 9)"
      "replay_highest (pairwise example_epoch)
        (if True then Tid (priority_value (WmmUserPriority Up6)) else NonQos) = Some (CcmpPacketNumber 0)"
      "CcmpPacketNumber 0 < CcmpPacketNumber 9"
    and air: "protected_mpdu (dma_header_len ?plan + length ([] :: u8 list))
        (air_mpdu ?plan 0 0x1230 [] [0x45, 0x11]) (CcmpHeader_new (CcmpPacketNumber 9) CcmpKeyId_PAIRWISE)
      = example_downlink"
    and parts: "u16_from_be_bytes (?eth ! 12) (?eth ! 13) = 0x0800" "take 6 (drop 6 ?eth) = [6, 0, 0, 0, 0, 6]"
      "take 6 ?eth = [2, 0, 0, 0, 0, 2]"
    by code_simp+
  from protected_downlink_is_delivered_once [OF len(1,2) plan len(3,4) dest example_epoch_ok fresh,
      of 0 "[0x45, 0x11]", unfolded air parts]
  show ?thesis .
qed

end
