(* ===== verification/Bit_Masks.thy ===== *)
theory Bit_Masks
  imports Oer_Prelude
begin

text \<open>
  Masks of up to 64 positions as the transmit policy uses them: the set bits of a word in order,
  Rust's \<open>trailing_zeros\<close> and \<open>count_ones\<close>, clearing the lowest set bit by \<open>w & (w - 1)\<close>, and the
  bits a masked loop collects.
\<close>

definition set_bits :: "u64 \<Rightarrow> nat list" where
  "set_bits w = filter (bit w) [0..<64]"

definition trailing_zeros :: "u64 \<Rightarrow> nat" where
  "trailing_zeros w = length (takeWhile (\<lambda>i. \<not> bit w i) [0..<64])"

definition count_ones :: "u64 \<Rightarrow> nat" where
  "count_ones w = length (set_bits w)"

lemma bit_u64_less: "bit (w :: u64) i \<Longrightarrow> i < 64"
  using bit_imp_le_length [of w i] by simp

lemma set_set_bits: "set (set_bits w) = {i. bit w i}"
  by (auto simp: set_bits_def dest: bit_u64_less)

lemma sorted_set_bits: "sorted_wrt (<) (set_bits w)"
  by (simp add: set_bits_def sorted_wrt_filter)

lemma distinct_set_bits [simp]: "distinct (set_bits w)"
  by (simp add: set_bits_def)

lemma count_ones_card: "count_ones w = card {i. bit w i}"
  by (metis count_ones_def distinct_card distinct_set_bits set_set_bits)

lemma count_ones_le: "count_ones w \<le> 64"
  using length_filter_le [of "bit w" "[0..<64]"] by (simp add: count_ones_def set_bits_def)

lemma set_bits_eq_Nil_iff [simp]: "set_bits w = [] \<longleftrightarrow> w = 0"
proof -
  have "set_bits w = [] \<longleftrightarrow> (\<forall>i. \<not> bit w i)"
    using set_set_bits [of w] by auto
  also have "\<dots> \<longleftrightarrow> w = 0" by (auto intro: bit_word_eqI)
  finally show ?thesis .
qed

lemma count_ones_eq_0_iff [simp]: "count_ones w = 0 \<longleftrightarrow> w = 0"
  by (simp add: count_ones_def)

lemma set_bits_zero [simp]: "set_bits 0 = []" by simp

lemma count_ones_zero [simp]: "count_ones 0 = 0" by simp

lemma set_bits_inject [simp]: "set_bits v = set_bits w \<longleftrightarrow> v = w"
  using set_set_bits [of v] set_set_bits [of w] by (auto intro!: bit_word_eqI)

text \<open>The lowest set bit.\<close>

lemma trailing_zeros_hd:
  assumes "w \<noteq> 0"
  shows "bit w (trailing_zeros w)" "i < trailing_zeros w \<Longrightarrow> \<not> bit w i" "set_bits w = trailing_zeros w # filter (bit w) [Suc (trailing_zeros w)..<64]"
proof -
  let ?t = "trailing_zeros w"
  have "\<exists>i\<in>set [0..<64]. bit w i"
    using assms set_set_bits [of w] set_bits_eq_Nil_iff [of w] by (auto simp: set_bits_def filter_empty_conv)
  then have "takeWhile (\<lambda>i. \<not> bit w i) [0..<64] \<noteq> [0..<64]"
    by (metis (mono_tags, lifting) takeWhile_eq_all_conv)
  then have "length (takeWhile (\<lambda>i. \<not> bit w i) [0..<64]) < length [0..<64]"
    by (metis length_takeWhile_le le_neq_implies_less takeWhile_eq_take take_all_iff order_refl)
  then have lt: "?t < 64" by (simp add: trailing_zeros_def)
  show b: "bit w ?t"
    using nth_length_takeWhile [of "\<lambda>i. \<not> bit w i" "[0..<64]"] lt by (simp add: trailing_zeros_def)
  show z: "\<not> bit w i" if "i < ?t" for i
    using takeWhile_nth [of i "\<lambda>i. \<not> bit w i" "[0..<64]"] that lt
      nth_mem [of i "takeWhile (\<lambda>i. \<not> bit w i) [0..<64]"]
    by (auto simp: trailing_zeros_def dest!: set_takeWhileD)
  have "[0..<64] = [0..<?t] @ ?t # [Suc ?t..<64]"
    using lt upt_add_eq_append [of 0 ?t "64 - ?t"] upt_conv_Cons [of ?t 64] by simp
  then show "set_bits w = ?t # filter (bit w) [Suc ?t..<64]"
    using b z by (simp add: set_bits_def)
qed

lemma trailing_zeros_zero [simp]: "trailing_zeros 0 = 64"
  by (simp add: trailing_zeros_def takeWhile_eq_all_conv [THEN iffD2])

text \<open>Clearing the lowest set bit.\<close>

lemma clear_lowest:
  assumes "w \<noteq> 0"
  shows "bit (w AND (w - 1)) i \<longleftrightarrow> bit w i \<and> i \<noteq> trailing_zeros w"
proof -
  let ?t = "trailing_zeros w"
  note t = trailing_zeros_hd(1,2) [OF assms]
  have lt: "?t < 64" using t(1) by (rule bit_u64_less)
  define v where "v = w AND NOT (2 ^ ?t)"
  have v: "bit v i \<longleftrightarrow> bit w i \<and> i \<noteq> ?t" for i
    using bit_u64_less [of w i] by (auto simp: v_def bit_simps)
  have "v + 2 ^ ?t = v OR 2 ^ ?t"
    by (rule disjunctive_add) (auto simp: v bit_simps)
  also have "\<dots> = w"
    using t(1) lt by (intro bit_word_eqI) (auto simp: v bit_simps)
  finally have "w - 1 = v + mask ?t" by (simp add: mask_eq_exp_minus_1 algebra_simps)
  also have "\<dots> = v OR mask ?t"
    by (rule disjunctive_add) (use t(2) in \<open>auto simp: v bit_simps\<close>)
  finally have "w - 1 = v OR mask ?t" .
  then show ?thesis using t(2) by (auto simp: bit_simps v)
qed

lemma set_bits_clear_lowest: "w \<noteq> 0 \<Longrightarrow> set_bits (w AND (w - 1)) = tl (set_bits w)"
proof -
  assume w: "w \<noteq> 0"
  let ?t = "trailing_zeros w"
  have lt: "?t < 64" using trailing_zeros_hd(1) [OF w] by (rule bit_u64_less)
  have "[0..<64] = [0..<?t] @ ?t # [Suc ?t..<64]"
    using lt upt_add_eq_append [of 0 ?t "64 - ?t"] upt_conv_Cons [of ?t 64] by simp
  moreover have "filter (bit (w AND (w - 1))) [Suc ?t..<64] = filter (bit w) [Suc ?t..<64]"
    by (rule filter_cong) (use clear_lowest [OF w] in auto)
  moreover have "filter (bit (w AND (w - 1))) [0..<?t] = []"
    using trailing_zeros_hd(2) [OF w] clear_lowest [OF w] by (simp add: filter_empty_conv)
  ultimately have "set_bits (w AND (w - 1)) = filter (bit w) [Suc ?t..<64]"
    unfolding set_bits_def using clear_lowest [OF w, of ?t] by simp
  then show ?thesis using trailing_zeros_hd(3) [OF w] by simp
qed

lemma count_ones_clear_lowest: "w \<noteq> 0 \<Longrightarrow> Suc (count_ones (w AND (w - 1))) = count_ones w"
  using trailing_zeros_hd(3) [of w] by (simp add: count_ones_def set_bits_clear_lowest)

text \<open>The bits a loop collects into a mask.\<close>

lemma bit_fold_set:
  "bit (fold (\<lambda>i m. if P i then m OR push_bit (g i) 1 else m) xs m) k
     \<longleftrightarrow> bit m k \<or> k < 64 \<and> (\<exists>i\<in>set xs. P i \<and> g i = k)" for m :: u64
  by (induction xs arbitrary: m) (auto simp: bit_simps)

end
