(* ===== verification/Radio_Time.thy ===== *)
theory Radio_Time
  imports Oer_Prelude
begin

text \<open>
  Time in a radio owner's domain, \<open>crates/time/src/radio.rs\<close>: instants and non-negative durations
  of the full \<open>u64\<close> microsecond range, with checked arithmetic.  The domain is a phantom parameter
  that keeps the instants of different radios apart; the model works in one domain.
\<close>

datatype RadioInstant = RadioInstant (radio_micros: u64)
datatype RadioDuration = RadioDuration (radio_span: u64)

instantiation RadioInstant :: linorder
begin

definition less_eq_RadioInstant :: "RadioInstant \<Rightarrow> RadioInstant \<Rightarrow> bool" where
  "less_eq_RadioInstant a b \<longleftrightarrow> radio_micros a \<le> radio_micros b"

definition less_RadioInstant :: "RadioInstant \<Rightarrow> RadioInstant \<Rightarrow> bool" where
  "less_RadioInstant a b \<longleftrightarrow> radio_micros a < radio_micros b"

instance
  by standard (auto simp: less_eq_RadioInstant_def less_RadioInstant_def intro: RadioInstant.expand)

end

instantiation RadioDuration :: linorder
begin

definition less_eq_RadioDuration :: "RadioDuration \<Rightarrow> RadioDuration \<Rightarrow> bool" where
  "less_eq_RadioDuration a b \<longleftrightarrow> radio_span a \<le> radio_span b"

definition less_RadioDuration :: "RadioDuration \<Rightarrow> RadioDuration \<Rightarrow> bool" where
  "less_RadioDuration a b \<longleftrightarrow> radio_span a < radio_span b"

instance
  by standard (auto simp: less_eq_RadioDuration_def less_RadioDuration_def intro: RadioDuration.expand)

end

lemmas radio_order_defs =
  less_eq_RadioInstant_def less_RadioInstant_def less_eq_RadioDuration_def less_RadioDuration_def

definition RadioDuration_ZERO :: RadioDuration where
  "RadioDuration_ZERO = RadioDuration 0"

definition RadioInstant_checked_add :: "RadioInstant \<Rightarrow> RadioDuration \<Rightarrow> RadioInstant option" where
  "RadioInstant_checked_add self duration =
     (case checked_add (radio_micros self) (radio_span duration) of
        Some micros \<Rightarrow> Some (RadioInstant micros)
      | None \<Rightarrow> None)"

definition RadioInstant_checked_sub :: "RadioInstant \<Rightarrow> RadioDuration \<Rightarrow> RadioInstant option" where
  "RadioInstant_checked_sub self duration =
     (case checked_sub (radio_micros self) (radio_span duration) of
        Some micros \<Rightarrow> Some (RadioInstant micros)
      | None \<Rightarrow> None)"

definition radio_checked_duration_since :: "RadioInstant \<Rightarrow> RadioInstant \<Rightarrow> RadioDuration option" where
  "radio_checked_duration_since self earlier =
     (case checked_sub (radio_micros self) (radio_micros earlier) of
        Some micros \<Rightarrow> Some (RadioDuration micros)
      | None \<Rightarrow> None)"

definition RadioDuration_checked_add :: "RadioDuration \<Rightarrow> RadioDuration \<Rightarrow> RadioDuration option" where
  "RadioDuration_checked_add self other =
     (case checked_add (radio_span self) (radio_span other) of
        Some micros \<Rightarrow> Some (RadioDuration micros)
      | None \<Rightarrow> None)"

definition RadioDuration_checked_sub :: "RadioDuration \<Rightarrow> RadioDuration \<Rightarrow> RadioDuration option" where
  "RadioDuration_checked_sub self other =
     (case checked_sub (radio_span self) (radio_span other) of
        Some micros \<Rightarrow> Some (RadioDuration micros)
      | None \<Rightarrow> None)"

end
