(* ===== verification/Tx_Port.thy ===== *)
theory Tx_Port
  imports Sequence_Number Radio_Time
begin

text \<open>
  What the transmit policy exchanges with the lower-MAC port
  (\<open>crates/protocols/ieee80211/lower-mac/src/tx.rs\<close>) and reports to its caller
  (\<open>crates/protocols/ieee80211/softmac/src/contract.rs\<close>): the result of one hardware transmission,
  the BlockAck that answers an aggregate and what it acknowledges, and the statistics of a finished
  exchange.  The rate type of the reports is a parameter, as in the source.
\<close>

datatype TxResponse = NoResponse | AckResponse | BlockAckResponse

datatype Protection = NoProtection | PortRtsCts | PortCtsToSelf

datatype TxPower = Calibrated | MaxDbm "8 word"

datatype TxStatus = Success | AckTimeout | CtsTimeout | Collision | TimedOut

datatype CoexPriority = Idle | Normal | Elevated | Critical

record BlockAckReport =
  start_sequence :: SequenceNumber
  bitmap :: u64

definition BITMAP_BITS :: u16 where "BITMAP_BITS = 64"

definition acknowledges :: "BlockAckReport \<Rightarrow> SequenceNumber \<Rightarrow> bool" where
  "acknowledges self sequence =
     (let distance = forward_distance (start_sequence self) sequence
      in if distance < BITMAP_BITS then bitmap self AND push_bit (unat distance) 1 \<noteq> 0
         else forward_distance sequence (start_sequence self) \<le> BITMAP_BITS)"

subsection \<open>Reports\<close>

datatype MacTxResult = Transmitted | HardwareFailure TxStatus | HardwareTimeout | CollisionLimit

record 'rate MacTxStatus =
  tx_result :: MacTxResult
  tx_attempts :: u8
  tx_final_rate :: 'rate
  tx_acknowledged :: "bool option"
  tx_ack_snr_db :: "u8 option"
  tx_airtime_micros :: "u32 option"

datatype MacAmpduTxResult = Delivered | Incomplete | AmpduHardwareTimeout | AmpduCollisionLimit

record 'rate MacIndividualRetries =
  ind_transmitted :: u16
  ind_failed :: u16
  ind_attempts :: u16
  ind_final_rate :: "'rate option"

record 'rate MacAmpduTxStatus =
  ampdu_result :: MacAmpduTxResult
  original_subframes :: u16
  report_aggregate_attempts :: u8
  aggregate_rate :: 'rate
  block_acknowledged_subframes :: u16
  ampdu_ack_snr_db :: "u8 option"
  individual_retries :: "'rate MacIndividualRetries"

definition MacIndividualRetries_NONE :: "'rate MacIndividualRetries" where
  "MacIndividualRetries_NONE =
     \<lparr>ind_transmitted = 0, ind_failed = 0, ind_attempts = 0, ind_final_rate = None\<rparr>"

definition record_retry :: "'rate MacIndividualRetries \<Rightarrow> 'rate MacTxStatus \<Rightarrow> 'rate MacIndividualRetries" where
  "record_retry self status =
     (let self = (if tx_result status = Transmitted
                  then self\<lparr>ind_transmitted := saturating_add (ind_transmitted self) 1\<rparr>
                  else self\<lparr>ind_failed := saturating_add (ind_failed self) 1\<rparr>)
      in self\<lparr>ind_attempts := saturating_add (ind_attempts self) (ucast (tx_attempts status)),
              ind_final_rate := Some (tx_final_rate status)\<rparr>)"

definition delivered_subframes :: "'rate MacAmpduTxStatus \<Rightarrow> u16" where
  "delivered_subframes self =
     saturating_add (block_acknowledged_subframes self) (ind_transmitted (individual_retries self))"

definition fully_delivered :: "'rate MacAmpduTxStatus \<Rightarrow> bool" where
  "fully_delivered self \<longleftrightarrow>
     ampdu_result self = Delivered \<and> delivered_subframes self = original_subframes self"

definition total_publication_attempts :: "'rate MacAmpduTxStatus \<Rightarrow> u16" where
  "total_publication_attempts self =
     saturating_add (ucast (report_aggregate_attempts self)) (ind_attempts (individual_retries self))"

end
