(* ===== verification/Ampdu_Retry.thy ===== *)
theory Ampdu_Retry
  imports Bit_Masks Tx_Port
begin

text \<open>
  Retry of an A-MPDU from its BlockAck, \<open>crates/protocols/ieee80211/upper-mac/src/ampdu.rs\<close>: which
  subframes the next attempt resends and when the aggregate ends.  Subframes are named by their
  position in the first aggregate; a mask has bit \<open>i\<close> for subframe \<open>i\<close>.  The \<open>u8\<close> position loops
  count up to at most 64 and are folds over the positions.
\<close>

definition MAX_AMPDU_SUBFRAMES :: u8 where "MAX_AMPDU_SUBFRAMES = 64"

definition RETRY_FLAG :: u8 where "RETRY_FLAG = 0x08"

definition mark_retry_bit :: "u8 list \<Rightarrow> bool \<times> u8 list" where
  "mark_retry_bit mpdu =
     (if 1 < length mpdu then (True, mpdu[1 := mpdu ! 1 OR RETRY_FLAG]) else (False, mpdu))"

definition all_subframes :: "u8 \<Rightarrow> u64" where
  "all_subframes n = (if 64 \<le> n then - 1 else push_bit (unat n) 1 - 1)"

definition unacknowledged :: "SequenceNumber list \<Rightarrow> BlockAckReport option \<Rightarrow> u64" where
  "unacknowledged sequences report =
     fold (\<lambda>(index, sequence) missing.
         if \<not> (case report of Some r \<Rightarrow> acknowledges r sequence | None \<Rightarrow> False)
         then missing OR push_bit index 1 else missing)
       (enumerate 0 (take 64 sequences)) 0"

definition compact :: "'a list \<Rightarrow> u64 \<Rightarrow> nat \<times> 'a list" where
  "compact items m =
     fold (\<lambda>index (kept, items).
         if m AND push_bit index 1 \<noteq> 0
         then (kept + 1, items[kept := items ! index, index := items ! kept])
         else (kept, items))
       [0..<min (length items) (unat MAX_AMPDU_SUBFRAMES)] (0, items)"

record AmpduRetryPolicy =
  lifetime :: RadioDuration
  aged_margin :: RadioDuration
  policy_retry_limit :: u8
  policy_retain_single_mpdu :: bool

datatype AmpduAttemptResult =
    Answered "BlockAckReport option"
  | Unanswered
  | ProtectionFailure
  | TriggerFlowEnd

datatype AmpduRetryDecision =
    RetainAggregate u64
  | RepublishUnchanged u64
  | RequestBlockAck u64 SequenceNumber
  | Unaggregate u64
  | Finish u64
  | FinishTriggerFlow

fun decision_mask :: "AmpduRetryDecision \<Rightarrow> u64" where
  "decision_mask (RetainAggregate m) = m"
| "decision_mask (RepublishUnchanged m) = m"
| "decision_mask (RequestBlockAck m _) = m"
| "decision_mask (Unaggregate m) = m"
| "decision_mask (Finish m) = m"
| "decision_mask FinishTriggerFlow = 0"

definition decision_missing :: "AmpduRetryDecision \<Rightarrow> u8" where
  "decision_missing self = of_nat (count_ones (decision_mask self))"

datatype AmpduRetryError =
    ZeroLifetime
  | AgingThresholdOutsideEpoch
  | EmptyAggregate
  | TooManySubframes u8
  | FrameCountChanged u8 u8

record AmpduRetryState =
  first_sequence :: SequenceNumber
  pending_original_indices :: u64
  missing_original_indices :: u64
  current_subframes :: u8
  ampdu_retry_limit :: u8
  retain_single_mpdu :: bool
  aged_from :: RadioInstant
  aggregate_attempts :: u8
  acknowledged :: u8
  block_ack_mpdu_attempts :: u16
  trigger_flow_completions :: u8
  protection_failures :: u8
  ack_timeouts :: u8

text \<open>The first aged instant: strictly after \<open>committed + lifetime - margin\<close>.\<close>

definition aging_threshold :: "AmpduRetryPolicy \<Rightarrow> RadioInstant \<Rightarrow> RadioInstant option" where
  "aging_threshold policy committed_at =
     (let one = RadioDuration 1
      in case RadioDuration_checked_sub (lifetime policy) (aged_margin policy) of
           Some delay \<Rightarrow>
             Option.bind (RadioDuration_checked_add delay one) (RadioInstant_checked_add committed_at)
         | None \<Rightarrow>
             Option.bind
               (Option.bind (RadioDuration_checked_sub (aged_margin policy) (lifetime policy))
                 (\<lambda>advance. RadioDuration_checked_sub advance one))
               (RadioInstant_checked_sub committed_at))"

definition AmpduRetryState_new ::
    "SequenceNumber \<Rightarrow> u8 \<Rightarrow> AmpduRetryPolicy \<Rightarrow> RadioInstant
     \<Rightarrow> (AmpduRetryState, AmpduRetryError) result" where
  "AmpduRetryState_new sequence subframes policy committed_at =
     (if radio_span (lifetime policy) = 0 then Err ZeroLifetime
      else if subframes = 0 then Err EmptyAggregate
      else if subframes > MAX_AMPDU_SUBFRAMES then Err (TooManySubframes subframes)
      else
        (case aging_threshold policy committed_at of
           None \<Rightarrow> Err AgingThresholdOutsideEpoch
         | Some aged \<Rightarrow>
             Ok \<lparr>first_sequence = sequence, pending_original_indices = all_subframes subframes,
                 missing_original_indices = 0, current_subframes = subframes,
                 ampdu_retry_limit = policy_retry_limit policy,
                 retain_single_mpdu = policy_retain_single_mpdu policy, aged_from = aged,
                 aggregate_attempts = 1, acknowledged = 0, block_ack_mpdu_attempts = 0,
                 trigger_flow_completions = 0, protection_failures = 0, ack_timeouts = 0\<rparr>))"

definition is_aged :: "AmpduRetryState \<Rightarrow> RadioInstant \<Rightarrow> bool" where
  "is_aged self now \<longleftrightarrow> aged_from self \<le> now"

definition current_first_sequence :: "AmpduRetryState \<Rightarrow> SequenceNumber" where
  "current_first_sequence self =
     wrapping_add (first_sequence self) (of_nat (trailing_zeros (pending_original_indices self)))"

text \<open>The loop of \<open>original_index\<close>: structural in the position that counts down.\<close>

fun original_index_loop :: "u64 \<Rightarrow> nat \<Rightarrow> nat" where
  "original_index_loop rest 0 = trailing_zeros rest"
| "original_index_loop rest (Suc position) =
     (if rest = 0 then trailing_zeros rest
      else original_index_loop (rest AND (rest - 1)) position)"

definition original_index :: "AmpduRetryState \<Rightarrow> u8 \<Rightarrow> u8" where
  "original_index self compacted_index =
     of_nat (original_index_loop (pending_original_indices self) (unat compacted_index))"

definition count_mpdu_attempts :: "AmpduRetryState \<Rightarrow> u8 \<Rightarrow> AmpduRetryState" where
  "count_mpdu_attempts self subframes =
     self\<lparr>block_ack_mpdu_attempts :=
       saturating_add (block_ack_mpdu_attempts self) (ucast subframes)\<rparr>"

definition retain_or_unaggregate ::
    "AmpduRetryState \<Rightarrow> u64 \<Rightarrow> u8 \<Rightarrow> bool \<Rightarrow> AmpduRetryDecision \<times> AmpduRetryState" where
  "retain_or_unaggregate self retry_mask missing block_ack_operational =
     (if \<not> block_ack_operational \<or> (missing = 1 \<and> \<not> retain_single_mpdu self)
      then (Unaggregate retry_mask, self)
      else (RetainAggregate retry_mask,
            self\<lparr>aggregate_attempts := saturating_add (aggregate_attempts self) 1\<rparr>))"

definition reported :: "AmpduRetryState \<Rightarrow> BlockAckReport option \<Rightarrow> u8 \<Rightarrow> bool" where
  "reported self report index =
     (case report of
        Some r \<Rightarrow> acknowledges r (wrapping_add (first_sequence self) (ucast (original_index self index)))
      | None \<Rightarrow> False)"

text \<open>The loop of \<open>resort\<close>: the kept positions, their original positions and the acknowledged count.\<close>

definition resort_scan :: "AmpduRetryState \<Rightarrow> BlockAckReport option \<Rightarrow> u64 \<times> u64 \<times> u8" where
  "resort_scan self report =
     fold (\<lambda>i (retry_mask, retry_original_indices, acked).
         if reported self report (of_nat i)
         then (retry_mask, retry_original_indices, saturating_add acked 1)
         else (retry_mask OR push_bit i 1,
               retry_original_indices OR push_bit (unat (original_index self (of_nat i))) 1, acked))
       [0..<unat (current_subframes self)] (0, 0, acknowledged self)"

definition resort ::
    "AmpduRetryState \<Rightarrow> BlockAckReport option \<Rightarrow> RadioInstant \<Rightarrow> bool
     \<Rightarrow> AmpduRetryDecision \<times> AmpduRetryState" where
  "resort self report now block_ack_operational =
     (case resort_scan self report of
        (retry_mask, retry_original_indices, acked) \<Rightarrow>
          let self = self\<lparr>acknowledged := acked, missing_original_indices := retry_original_indices\<rparr>;
              missing = of_nat (count_ones retry_mask)
          in if missing = 0 \<or> is_aged self now then (Finish retry_mask, self)
             else
               (case retain_or_unaggregate self retry_mask missing block_ack_operational of
                  (RetainAggregate m, self) \<Rightarrow>
                    (RetainAggregate m,
                     self\<lparr>pending_original_indices := retry_original_indices, current_subframes := missing\<rparr>)
                | (decision, self) \<Rightarrow> (decision, self)))"

definition ampdu_observe ::
    "AmpduRetryState \<Rightarrow> AmpduAttemptResult \<Rightarrow> u8 \<Rightarrow> RadioInstant \<Rightarrow> bool
     \<Rightarrow> (AmpduRetryDecision, AmpduRetryError) result \<times> AmpduRetryState" where
  "ampdu_observe self result observed now block_ack_operational =
     (if observed \<noteq> current_subframes self
      then (Err (FrameCountChanged (current_subframes self) observed), self)
      else
        (let every = all_subframes observed
         in case result of
              TriggerFlowEnd \<Rightarrow>
                (Ok FinishTriggerFlow,
                 self\<lparr>trigger_flow_completions := saturating_add (trigger_flow_completions self) 1,
                      missing_original_indices := 0\<rparr>)
            | ProtectionFailure \<Rightarrow>
                (let self = self\<lparr>protection_failures := saturating_add (protection_failures self) 1,
                                 missing_original_indices := pending_original_indices self\<rparr>
                 in if is_aged self now then (Ok (Finish every), self)
                    else if protection_failures self < ampdu_retry_limit self
                    then (Ok (RepublishUnchanged every), self)
                    else (Ok (RequestBlockAck every (current_first_sequence self)),
                          self\<lparr>protection_failures := 0\<rparr>))
            | Unanswered \<Rightarrow>
                (let self = count_mpdu_attempts self observed;
                     self = self\<lparr>ack_timeouts := saturating_add (ack_timeouts self) 1,
                                 missing_original_indices := pending_original_indices self\<rparr>
                 in if ampdu_retry_limit self \<le> ack_timeouts self \<or> is_aged self now
                    then (Ok (Finish every), self)
                    else
                      (case retain_or_unaggregate self every observed block_ack_operational of
                         (decision, self) \<Rightarrow> (Ok decision, self)))
            | Answered report \<Rightarrow>
                (case resort (count_mpdu_attempts self observed) report now block_ack_operational of
                   (decision, self) \<Rightarrow> (Ok decision, self))))"

definition observe_block_ack_request ::
    "AmpduRetryState \<Rightarrow> BlockAckReport option \<Rightarrow> RadioInstant \<Rightarrow> bool
     \<Rightarrow> AmpduRetryDecision \<times> AmpduRetryState" where
  "observe_block_ack_request self block_ack now block_ack_operational =
     resort self block_ack now block_ack_operational"

subsection \<open>Positions\<close>

lemma bit_all_subframes: "bit (all_subframes c) i \<longleftrightarrow> i < unat c \<and> i < 64"
proof (cases "64 \<le> c")
  case True
  then have "64 \<le> unat c" by (simp add: word_le_nat_alt)
  with True show ?thesis by (auto simp: all_subframes_def bit_simps)
next
  case False
  then have "unat c < 64" by (simp add: word_le_nat_alt)
  with False show ?thesis
    by (auto simp: all_subframes_def push_bit_eq_mult simp flip: mask_eq_exp_minus_1) (auto simp: bit_simps)
qed

lemma original_index_loop_eq:
  "original_index_loop w p = (if p < count_ones w then set_bits w ! p else 64)"
proof (induction p arbitrary: w)
  case 0
  then show ?case using trailing_zeros_hd(3) [of w] by (cases "w = 0") (auto simp: count_ones_def)
next
  case (Suc p)
  show ?case
  proof (cases "w = 0")
    case False
    from trailing_zeros_hd(3) [OF this] obtain xs where "set_bits w = trailing_zeros w # xs" by blast
    with False Suc [of "w AND (w - 1)"] show ?thesis
      by (simp add: set_bits_clear_lowest count_ones_def)
  qed (simp add: count_ones_def)
qed

lemma nth_set_bits: "p < count_ones w \<Longrightarrow> bit w (set_bits w ! p) \<and> set_bits w ! p < 64"
  using nth_mem [of p "set_bits w"] set_set_bits [of w] by (auto simp: count_ones_def dest: bit_u64_less)

lemma unat_original_index:
  "unat i < count_ones (pending_original_indices s) \<Longrightarrow>
   unat (original_index s i) = set_bits (pending_original_indices s) ! unat i"
  using nth_set_bits [of "unat i" "pending_original_indices s"]
  by (simp add: original_index_def original_index_loop_eq unat_of_nat take_bit_nat_eq_self)

text \<open>Whether a report acknowledges the subframe at an original position.\<close>

definition sub_acked :: "AmpduRetryState \<Rightarrow> BlockAckReport option \<Rightarrow> nat \<Rightarrow> bool" where
  "sub_acked s report i \<longleftrightarrow>
     (case report of
        Some r \<Rightarrow> acknowledges r (wrapping_add (first_sequence s) (of_nat i))
      | None \<Rightarrow> False)"

text \<open>A state of an aggregate first sent with \<open>n\<close> subframes.\<close>

definition ampdu_ok :: "nat \<Rightarrow> AmpduRetryState \<Rightarrow> bool" where
  "ampdu_ok n s \<longleftrightarrow>
     n \<le> 64 \<and> pending_original_indices s \<noteq> 0
     \<and> unat (current_subframes s) = count_ones (pending_original_indices s)
     \<and> (\<forall>i. bit (pending_original_indices s) i \<longrightarrow> i < n)
     \<and> unat (acknowledged s) + count_ones (pending_original_indices s) = n"

lemma reported_iff:
  assumes "unat i < count_ones (pending_original_indices s)"
  shows "reported s r i \<longleftrightarrow> sub_acked s r (set_bits (pending_original_indices s) ! unat i)"
proof -
  have "(ucast (original_index s i) :: u16) = of_nat (unat (original_index s i))"
    by (simp add: word_unat_eq_iff unat_of_nat unsigned_ucast_eq take_bit_eq_mod)
  then show ?thesis
    by (simp add: reported_def sub_acked_def unat_original_index [OF assms] split: option.split)
qed

lemma fold_triple:
  "fold (\<lambda>i (a, b, c). if R i then (a, b, h c) else (f i a, g i b, c)) xs (a, b, c)
     = (fold (\<lambda>i a. if \<not> R i then f i a else a) xs a, fold (\<lambda>i b. if \<not> R i then g i b else b) xs b,
        (h ^^ length (filter R xs)) c)"
  by (induction xs arbitrary: a b c) (auto simp: funpow_swap1)

lemma unat_saturating_funpow:
  "unat (((\<lambda>c. saturating_add c 1) ^^ k) (c :: u8)) = min 255 (unat c + k)"
  using unat_u8_less [of c]
  by (induction k) (auto simp: unat_saturating_add min_def)


text \<open>What the scan computes, over the pending positions.\<close>

lemma resort_scan_split:
  assumes ok: "ampdu_ok n s" and scan: "resort_scan s r = (M, R, A)"
  defines "L \<equiv> set_bits (pending_original_indices s)"
  shows scan_mask: "bit M i \<longleftrightarrow> i < length L \<and> \<not> sub_acked s r (L ! i)"
    and scan_orig: "bit R i \<longleftrightarrow> bit (pending_original_indices s) i \<and> \<not> sub_acked s r i"
    and scan_acked: "unat A = unat (acknowledged s) + length (filter (sub_acked s r) L)"
proof -
  let ?k = "length L"
  have k: "?k = unat (current_subframes s)" "?k \<le> 64" "?k = count_ones (pending_original_indices s)"
    using ok count_ones_le [of "pending_original_indices s"] by (auto simp: ampdu_ok_def L_def count_ones_def)
  have rep: "reported s r (of_nat i) \<longleftrightarrow> sub_acked s r (L ! i)"
    and org: "unat (original_index s (of_nat i)) = L ! i" if "i < ?k" for i
    using that k reported_iff [of "of_nat i" s r] unat_original_index [of "of_nat i" s]
    by (simp_all add: L_def unat_of_nat)
  have "(M, R, A) =
      fold (\<lambda>i (a, b, c). if sub_acked s r (L ! i) then (a, b, saturating_add c 1)
            else (a OR push_bit i 1, b OR push_bit (L ! i) 1, c)) [0..<?k] (0, 0, acknowledged s)"
    unfolding scan [symmetric] resort_scan_def k(1) [symmetric]
    by (rule fold_cong) (auto simp: rep org)
  then have M: "M = fold (\<lambda>i m. if \<not> sub_acked s r (L ! i) then m OR push_bit i 1 else m) [0..<?k] 0"
    and R: "R = fold (\<lambda>i m. if \<not> sub_acked s r (L ! i) then m OR push_bit (L ! i) 1 else m) [0..<?k] 0"
    and A: "A = ((\<lambda>c. saturating_add c 1) ^^ length (filter (\<lambda>i. sub_acked s r (L ! i)) [0..<?k])) (acknowledged s)"
    by (simp_all add: fold_triple)
  show "bit M i \<longleftrightarrow> i < ?k \<and> \<not> sub_acked s r (L ! i)"
    using k(2) by (auto simp: M bit_fold_set)
  have "i \<in> set L \<longleftrightarrow> (\<exists>j<?k. L ! j = i)" by (auto simp: in_set_conv_nth)
  then show "bit R i \<longleftrightarrow> bit (pending_original_indices s) i \<and> \<not> sub_acked s r i"
    using bit_u64_less [of "pending_original_indices s" i]
    by (auto simp: R bit_fold_set L_def set_set_bits)
  have "length (filter (\<lambda>i. sub_acked s r (L ! i)) [0..<?k]) = length (filter (sub_acked s r) (map ((!) L) [0..<?k]))"
    by (simp add: filter_map comp_def del: map_nth)
  then have "length (filter (\<lambda>i. sub_acked s r (L ! i)) [0..<?k]) = length (filter (sub_acked s r) L)"
    by (simp only: map_nth)
  moreover have "length (filter (sub_acked s r) L) \<le> ?k" by simp
  ultimately show "unat A = unat (acknowledged s) + length (filter (sub_acked s r) L)"
    using ok k unfolding A unat_saturating_funpow by (auto simp: ampdu_ok_def min_def)
qed

lemma scan_set_bits:
  assumes ok: "ampdu_ok n s" and scan: "resort_scan s r = (M, R, A)"
  shows "set_bits R = filter (\<lambda>i. \<not> sub_acked s r i) (set_bits (pending_original_indices s))"
    and "set_bits R = map ((!) (set_bits (pending_original_indices s))) (set_bits M)"
proof -
  let ?L = "set_bits (pending_original_indices s)"
  show R: "set_bits R = filter (\<lambda>i. \<not> sub_acked s r i) ?L"
    by (simp add: set_bits_def scan_orig [OF assms] conj_commute cong: filter_cong)
  have "length ?L \<le> 64" using count_ones_le by (simp add: count_ones_def)
  then have "set_bits M = filter (\<lambda>i. \<not> sub_acked s r (?L ! i)) (filter (\<lambda>i. i < length ?L) [0..<64])"
    by (simp add: set_bits_def scan_mask [OF assms] conj_commute cong: filter_cong)
  also have "filter (\<lambda>i. i < length ?L) [0..<64] = [0..<length ?L]"
    using \<open>length ?L \<le> 64\<close> upt_add_eq_append [of 0 "length ?L" "64 - length ?L"] by simp
  finally have "map ((!) ?L) (set_bits M) = filter (\<lambda>i. \<not> sub_acked s r i) (map ((!) ?L) [0..<length ?L])"
    by (simp add: filter_map comp_def del: map_nth)
  then show "set_bits R = map ((!) ?L) (set_bits M)" by (simp add: R map_nth)
qed

lemma scan_counts:
  assumes ok: "ampdu_ok n s" and scan: "resort_scan s r = (M, R, A)"
  shows "count_ones M = count_ones R" "unat A + count_ones R = n"
    "unat (of_nat (count_ones M) :: u8) = count_ones R" "(of_nat (count_ones M) :: u8) = 0 \<longleftrightarrow> R = 0"
proof -
  show M: "count_ones M = count_ones R"
    using scan_set_bits(2) [OF assms] by (metis count_ones_def length_map)
  show "unat A + count_ones R = n"
    using scan_acked [OF assms] scan_set_bits(1) [OF assms] ok
      sum_length_filter_compl [of "sub_acked s r" "set_bits (pending_original_indices s)"]
    by (simp add: ampdu_ok_def count_ones_def)
  show u: "unat (of_nat (count_ones M) :: u8) = count_ones R"
    using count_ones_le [of R] by (simp add: M unat_of_nat)
  then show "(of_nat (count_ones M) :: u8) = 0 \<longleftrightarrow> R = 0"
    by (metis count_ones_eq_0_iff unat_eq_zero)
qed

subsection \<open>What a decision leaves\<close>

text \<open>
  How a decision relates the state before and after: the positions missing after the attempt are the
  pending ones that were not acknowledged, the mask names them by their place in the aggregate just
  sent, and a retained aggregate carries exactly them.
\<close>

definition decision_ok ::
    "nat \<Rightarrow> AmpduRetryState \<Rightarrow> (nat \<Rightarrow> bool) \<Rightarrow> AmpduRetryDecision \<Rightarrow> AmpduRetryState \<Rightarrow> bool" where
  "decision_ok n s acked d s' \<longleftrightarrow>
     first_sequence s' = first_sequence s \<and> aged_from s' = aged_from s
     \<and> unat (acknowledged s') + count_ones (missing_original_indices s') = n
     \<and> set_bits (missing_original_indices s')
         = filter (\<lambda>i. \<not> acked i) (set_bits (pending_original_indices s))
     \<and> set_bits (missing_original_indices s')
         = map ((!) (set_bits (pending_original_indices s))) (set_bits (decision_mask d))
     \<and> (\<forall>i. bit (decision_mask d) i \<longrightarrow> i < count_ones (pending_original_indices s))
     \<and> (case d of
          RetainAggregate _ \<Rightarrow> ampdu_ok n s' \<and> pending_original_indices s' = missing_original_indices s'
        | RepublishUnchanged _ \<Rightarrow> ampdu_ok n s' \<and> pending_original_indices s' = missing_original_indices s'
        | RequestBlockAck _ q \<Rightarrow>
            ampdu_ok n s' \<and> pending_original_indices s' = missing_original_indices s'
            \<and> q = current_first_sequence s'
        | Unaggregate _ \<Rightarrow>
            missing_original_indices s' \<noteq> 0 \<and> current_subframes s' = current_subframes s
            \<and> pending_original_indices s' = pending_original_indices s
        | Finish _ \<Rightarrow> True
        | FinishTriggerFlow \<Rightarrow> False)"

lemma ampdu_ok_pending:
  assumes "ampdu_ok n s"
  shows "pending_original_indices s \<noteq> 0" "bit (pending_original_indices s) i \<Longrightarrow> i < n"
    "count_ones (pending_original_indices s) \<le> n" "n \<le> 64"
  using assms by (auto simp: ampdu_ok_def)

lemma resort_decision_ok:
  assumes ok: "ampdu_ok n s" and res: "resort s r now op = (d, s')"
  shows "decision_ok n s (sub_acked s r) d s'"
proof -
  obtain M R A where scan: "resort_scan s r = (M, R, A)" by (metis prod_cases3)
  note bits = scan_set_bits [OF ok scan] and counts = scan_counts [OF ok scan]
  have sub: "\<forall>i. bit R i \<longrightarrow> i < n"
    using scan_orig [OF ok scan] ampdu_ok_pending(2) [OF ok] by blast
  have pos: "\<forall>i. bit M i \<longrightarrow> i < count_ones (pending_original_indices s)"
    using scan_mask [OF ok scan] by (simp add: count_ones_def)
  show ?thesis
    using res ok counts sub pos bits
    by (auto simp: resort_def scan Let_def decision_ok_def retain_or_unaggregate_def ampdu_ok_def
        split: if_splits)
qed

lemma every_pending:
  assumes "ampdu_ok n s"
  shows "set_bits (pending_original_indices s)
    = map ((!) (set_bits (pending_original_indices s))) (set_bits (all_subframes (current_subframes s)))"
proof -
  let ?L = "set_bits (pending_original_indices s)"
  have k: "unat (current_subframes s) = length ?L" "length ?L \<le> 64"
    using assms count_ones_le [of "pending_original_indices s"] by (auto simp: ampdu_ok_def count_ones_def)
  have "set_bits (all_subframes (current_subframes s)) = filter (\<lambda>i. i < length ?L) [0..<64]"
    by (auto simp: set_bits_def bit_all_subframes k intro: filter_cong)
  also have "\<dots> = [0..<length ?L]"
    using k(2) upt_add_eq_append [of 0 "length ?L" "64 - length ?L"] by simp
  finally show ?thesis by (simp add: map_nth)
qed

lemma observe_decision_ok:
  assumes ok: "ampdu_ok n s" and res: "ampdu_observe s result c now op = (Ok d, s')"
    and "result \<noteq> TriggerFlowEnd"
  shows "decision_ok n s (case result of Answered r \<Rightarrow> sub_acked s r | _ \<Rightarrow> (\<lambda>i. False)) d s'"
proof -
  have c: "c = current_subframes s" using res by (auto simp: ampdu_observe_def split: if_splits)
  show ?thesis
  proof (cases result)
    case (Answered r)
    let ?s = "count_mpdu_attempts s c"
    have ok': "ampdu_ok n ?s" and sub: "sub_acked ?s r = sub_acked s r"
      using ok by (auto simp: ampdu_ok_def count_mpdu_attempts_def sub_acked_def fun_eq_iff split: option.split)
    have "resort ?s r now op = (d, s')"
      using res by (auto simp: ampdu_observe_def c Answered split: prod.splits)
    from resort_decision_ok [OF ok' this, unfolded sub] show ?thesis
      by (auto simp: Answered decision_ok_def count_mpdu_attempts_def split: AmpduRetryDecision.splits)
  next
    case Unanswered
    with res ok every_pending [OF ok] show ?thesis
      by (auto simp: ampdu_observe_def c decision_ok_def count_mpdu_attempts_def Let_def
          retain_or_unaggregate_def ampdu_ok_def bit_all_subframes split: if_splits)
  next
    case ProtectionFailure
    with res ok every_pending [OF ok] show ?thesis
      by (auto simp: ampdu_observe_def c decision_ok_def Let_def ampdu_ok_def bit_all_subframes
          current_first_sequence_def           split: if_splits)
  qed (use assms(3) in simp)
qed

lemma observe_Ok_iff: "(\<exists>d. fst (ampdu_observe s result c now op) = Ok d) \<longleftrightarrow> c = current_subframes s"
  by (auto simp: ampdu_observe_def Let_def split: AmpduAttemptResult.splits prod.splits)

text \<open>Past its aging threshold an aggregate ends.\<close>

lemma aged_resort:
  "is_aged s now \<Longrightarrow> \<exists>m. fst (resort s r now op) = Finish m"
  by (auto simp: resort_def Let_def is_aged_def split: prod.splits)

lemma aged_observe:
  assumes "is_aged s now"
  shows "(\<exists>m. fst (ampdu_observe s result (current_subframes s) now op) = Ok (Finish m))
    \<or> result = TriggerFlowEnd"
proof (cases result)
  case (Answered r)
  have "is_aged (count_mpdu_attempts s (current_subframes s)) now"
    using assms by (simp add: is_aged_def count_mpdu_attempts_def)
  from aged_resort [OF this, of r op] Answered show ?thesis
    by (auto simp: ampdu_observe_def split: prod.splits)
qed (use assms in \<open>auto simp: ampdu_observe_def Let_def is_aged_def count_mpdu_attempts_def\<close>)

lemma new_ampdu_ok:
  assumes "AmpduRetryState_new q c policy t = Ok s"
  shows "ampdu_ok (unat c) s" "first_sequence s = q"
    "pending_original_indices s = all_subframes c" "acknowledged s = 0"
proof -
  have c: "0 < unat c" "unat c \<le> 64"
    and s: "pending_original_indices s = all_subframes c" "current_subframes s = c"
      "acknowledged s = 0" "first_sequence s = q"
    using assms by (auto simp: AmpduRetryState_new_def MAX_AMPDU_SUBFRAMES_def unat_gt_0 word_less_nat_alt
        split: if_splits option.splits)
  have "{i. i < unat c \<and> i < 64} = {..<unat c}" using c(2) by auto
  then have "count_ones (all_subframes c) = unat c"
    by (simp add: count_ones_card bit_all_subframes)
  with c s show "ampdu_ok (unat c) s"
    by (auto simp: ampdu_ok_def bit_all_subframes simp flip: count_ones_eq_0_iff)
qed (use assms in \<open>auto simp: AmpduRetryState_new_def split: if_splits option.splits\<close>)

subsection \<open>Compaction\<close>

text \<open>\<open>compact\<close> swaps the selected entries to the front: the prefix is the selection in order, no entry is lost.\<close>

lemma bit_select: "(w :: u64) AND push_bit i 1 \<noteq> 0 \<longleftrightarrow> bit w i" if "i < 64"
  using that by (simp add: and_exp_eq_0_iff_not_bit push_bit_eq_mult)

lemma compact_loop:
  fixes w :: u64
  assumes "m \<le> length items" "m \<le> 64"
  defines "sel \<equiv> filter (bit w) [0..<m]"
  shows "\<exists>ys. fold (\<lambda>index (kept, items).
             if w AND push_bit index 1 \<noteq> 0
             then (kept + 1, items[kept := items ! index, index := items ! kept]) else (kept, items))
           [0..<m] (0, items) = (length sel, ys)
         \<and> take (length sel) ys = map ((!) items) sel \<and> mset ys = mset items
         \<and> (\<forall>j\<ge>m. j < length items \<longrightarrow> ys ! j = items ! j)"
  using assms(1,2) unfolding sel_def
proof (induction m)
  case (Suc m)
  let ?sel = "filter (bit w) [0..<m]"
  from Suc obtain ys where ys: "fold (\<lambda>index (kept, items).
             if w AND push_bit index 1 \<noteq> 0
             then (kept + 1, items[kept := items ! index, index := items ! kept]) else (kept, items))
           [0..<m] (0, items) = (length ?sel, ys)"
      "take (length ?sel) ys = map ((!) items) ?sel" "mset ys = mset items"
      "\<forall>j\<ge>m. j < length items \<longrightarrow> ys ! j = items ! j"
    by auto
  have len: "length ys = length items" using ys(3) by (metis size_mset)
  have le: "length ?sel \<le> m" using length_filter_le [of "bit w" "[0..<m]"] by simp
  show ?case
  proof (cases "bit w m")
    case True
    let ?ys = "ys[length ?sel := ys ! m, m := ys ! length ?sel]"
    have "mset ?ys = mset ys" using mset_swap [of m ys "length ?sel"] le Suc.prems len by simp
    moreover have "take (Suc (length ?sel)) ?ys = map ((!) items) (?sel @ [m])"
      using le Suc.prems len ys(2,4)
      by (cases "length ?sel = m") (auto simp: take_Suc_conv_app_nth)
    ultimately show ?thesis
      using True ys le Suc.prems bit_select [of m w] by (auto simp: intro!: exI [of _ ?ys])
  next
    case False
    then show ?thesis using ys Suc.prems bit_select [of m w] by auto
  qed
qed simp

lemma compact_eq:
  assumes "compact items w = (kept, items')"
  shows "kept = length (filter (bit w) [0..<length items])"
    "take kept items' = map ((!) items) (filter (bit w) [0..<length items])" "mset items' = mset items"
proof -
  let ?m = "min (length items) 64"
  have sel: "filter (bit w) [0..<?m] = filter (bit w) [0..<length items]"
  proof (cases "length items \<le> 64")
    case False
    then have "[0..<length items] = [0..<64] @ [64..<length items]"
      using upt_add_eq_append [of 0 64 "length items - 64"] by simp
    moreover have "filter (bit w) [64..<length items] = []"
      by (auto simp: filter_empty_conv dest: bit_u64_less)
    ultimately show ?thesis using False by simp
  qed simp
  from compact_loop [of ?m items w] assms sel
  show "kept = length (filter (bit w) [0..<length items])"
    "take kept items' = map ((!) items) (filter (bit w) [0..<length items])" "mset items' = mset items"
    by (auto simp: compact_def MAX_AMPDU_SUBFRAMES_def)
qed

subsection \<open>Properties\<close>

text \<open>
  The caller's compaction follows the retry state.  Where the caller keeps one entry per subframe of
  the current aggregate, in order, and the policy answers a BlockAck with another aggregate, compacting
  those entries by the decision's mask leaves the entries of exactly the subframes the BlockAck did
  not acknowledge, in their original order, as many as the state now counts; and no entry is lost or
  duplicated in the array.
\<close>

theorem compaction_tracks_the_retry_state:
  assumes ok: "ampdu_ok n s"
    and obs: "ampdu_observe s (Answered r) (current_subframes s) now op = (Ok (RetainAggregate m), s')"
    and items: "take (unat (current_subframes s)) items = map entry (set_bits (pending_original_indices s))"
    and comp: "compact items m = (kept, items')"
  shows "take kept items' = map entry (filter (\<lambda>i. \<not> sub_acked s r i) (set_bits (pending_original_indices s)))
    \<and> take kept items' = map entry (set_bits (pending_original_indices s'))
    \<and> kept = unat (current_subframes s') \<and> mset items' = mset items \<and> ampdu_ok n s'"
proof -
  let ?L = "set_bits (pending_original_indices s)"
  have dec: "decision_ok n s (sub_acked s r) (RetainAggregate m) s'"
    using observe_decision_ok [OF ok obs] by simp
  then have ok': "ampdu_ok n s'" and missing: "pending_original_indices s' = missing_original_indices s'"
    and kept_pos: "set_bits (pending_original_indices s') = filter (\<lambda>i. \<not> sub_acked s r i) ?L"
    and pos: "\<forall>i. bit m i \<longrightarrow> i < length ?L"
    by (simp_all add: decision_ok_def count_ones_def)
  have sel: "set_bits (pending_original_indices s') = map ((!) ?L) (set_bits m)"
    unfolding missing using dec unfolding decision_ok_def decision_mask.simps by blast
  have k: "unat (current_subframes s) = length ?L" using ok by (simp add: ampdu_ok_def count_ones_def)
  then have le: "length ?L \<le> length items" using arg_cong [OF items, of length] by simp
  have nth: "items ! i = entry (?L ! i)" if "i < length ?L" for i
    using arg_cong [OF items, of "\<lambda>xs. xs ! i"] that le k by simp
  have bits: "filter (bit m) [0..<length items] = set_bits m"
  proof -
    have "sorted_wrt (<) (filter (bit m) [0..<length items])" "sorted_wrt (<) (set_bits m)"
      by (rule sorted_wrt_filter, simp, rule sorted_set_bits)
    moreover have "set (filter (bit m) [0..<length items]) = set (set_bits m)"
      using pos le by (auto simp: set_set_bits)
    ultimately show ?thesis by (metis strict_sorted_equal)
  qed
  note c = compact_eq [OF comp, unfolded bits]
  have "take kept items' = map entry (map ((!) ?L) (set_bits m))"
    using c(2) nth pos by (simp add: set_set_bits)
  then show ?thesis
    using c(1,3) ok' sel kept_pos by (simp add: ampdu_ok_def count_ones_def)
qed

definition example_aggregate :: AmpduRetryState where
  "example_aggregate = \<lparr>first_sequence = SequenceNumber 4094, pending_original_indices = 29,
     missing_original_indices = 0, current_subframes = 4, ampdu_retry_limit = 3, retain_single_mpdu = False,
     aged_from = RadioInstant 1000, aggregate_attempts = 2, acknowledged = 1, block_ack_mpdu_attempts = 5,
     trigger_flow_completions = 0, protection_failures = 0, ack_timeouts = 0\<rparr>"

theorem compaction_tracks_the_retry_state_witness:
  "\<exists>s'. ampdu_observe example_aggregate (Answered (Some \<lparr>start_sequence = SequenceNumber 4094, bitmap = 22\<rparr>)) 4
          (RadioInstant 10) True = (Ok (RetainAggregate 5), s')
     \<and> compact (''ACDEx'') 5 = (2, ''ADCEx'') \<and> ampdu_ok 5 s'
     \<and> ''AD'' = map ((!) ''ABCDE'') (set_bits (pending_original_indices s'))"
proof -
  let ?r = "Some \<lparr>start_sequence = SequenceNumber 4094, bitmap = 22\<rparr>"
  have bits: "set_bits (29 :: u64) = [0, 2, 3, 4]" by code_simp
  have "i < 5" if "i \<in> set (set_bits 29)" for i using that unfolding bits by auto
  then have "\<forall>i. bit (29 :: u64) i \<longrightarrow> i < 5" unfolding set_set_bits by blast
  moreover have "count_ones 29 = 4" unfolding count_ones_def bits by simp
  ultimately have ok: "ampdu_ok 5 example_aggregate"
    unfolding ampdu_ok_def by (simp only: example_aggregate_def AmpduRetryState.simps) simp
  have "fst (ampdu_observe example_aggregate (Answered ?r) (current_subframes example_aggregate)
      (RadioInstant 10) True) = Ok (RetainAggregate 5)" by code_simp
  then obtain s' where obs: "ampdu_observe example_aggregate (Answered ?r) (current_subframes example_aggregate)
      (RadioInstant 10) True = (Ok (RetainAggregate 5), s')" by (metis prod.collapse)
  have comp: "compact (''ACDEx'') 5 = (2, ''ADCEx'')" by code_simp
  have items: "take (unat (current_subframes example_aggregate)) ''ACDEx''
      = map ((!) ''ABCDE'') (set_bits (pending_original_indices example_aggregate))"
    by (simp add: example_aggregate_def bits)
  have "take 2 ''ADCEx'' = map ((!) ''ABCDE'') (set_bits (pending_original_indices s'))" "ampdu_ok 5 s'"
    using compaction_tracks_the_retry_state [OF ok obs items comp] by blast+
  moreover have "current_subframes example_aggregate = 4" by (simp add: example_aggregate_def)
  moreover have "take 2 ''ADCEx'' = ''AD''" by simp
  ultimately show ?thesis using obs comp by metis
qed

end
