(* ===== verification/Phy_Rates.thy ===== *)
theory Phy_Rates
  imports Oer_Prelude "HOL-Library.Monad_Syntax"
begin

text \<open>
  The PHY rates of \<open>crates/protocols/ieee80211/mac/src/phy.rs\<close>: non-HT, HT and HE SU rates, their
  nominal data rates, the octets between MPDU starts that a Minimum MPDU Start Spacing asks for, and
  the bound of a PPDU's time on air.  The constructors validate; \<open>rate_ok\<close> is what they guarantee.
  Integers keep their width: the intermediates are \<open>u64\<close> words and the results are cast to \<open>u32\<close>.
\<close>

datatype DsssPreamble = LongPreamble | ShortPreamble

datatype LegacyRate =
    Dsss1M
  | Dsss2M DsssPreamble
  | Cck5M5 DsssPreamble
  | Cck11M DsssPreamble
  | Ofdm6M
  | Ofdm9M
  | Ofdm12M
  | Ofdm18M
  | Ofdm24M
  | Ofdm36M
  | Ofdm48M
  | Ofdm54M

fun kbps :: "LegacyRate \<Rightarrow> u32" where
  "kbps Dsss1M = 1000"
| "kbps (Dsss2M _) = 2000"
| "kbps (Cck5M5 _) = 5500"
| "kbps (Cck11M _) = 11000"
| "kbps Ofdm6M = 6000"
| "kbps Ofdm9M = 9000"
| "kbps Ofdm12M = 12000"
| "kbps Ofdm18M = 18000"
| "kbps Ofdm24M = 24000"
| "kbps Ofdm36M = 36000"
| "kbps Ofdm48M = 48000"
| "kbps Ofdm54M = 54000"

definition is_ofdm :: "LegacyRate \<Rightarrow> bool" where
  "is_ofdm self \<longleftrightarrow>
     \<not> (case self of Dsss1M \<Rightarrow> True | Dsss2M _ \<Rightarrow> True | Cck5M5 _ \<Rightarrow> True | Cck11M _ \<Rightarrow> True | _ \<Rightarrow> False)"

datatype PpduBandwidth = Mhz20 | Mhz40 | Mhz80 | Mhz160

fun mhz :: "PpduBandwidth \<Rightarrow> u16" where
  "mhz Mhz20 = 20"
| "mhz Mhz40 = 40"
| "mhz Mhz80 = 80"
| "mhz Mhz160 = 160"

datatype HtMcs = HtMcs (ht_mcs_index: u8)

definition HtMcs_new :: "u8 \<Rightarrow> HtMcs option" where
  "HtMcs_new index = (if index \<le> 31 then Some (HtMcs index) else None)"

definition ht_spatial_streams :: "HtMcs \<Rightarrow> u8" where
  "ht_spatial_streams self = ht_mcs_index self div 8 + 1"

record HtRate =
  ht_mcs :: HtMcs
  ht_bandwidth :: PpduBandwidth
  ht_short_gi :: bool

definition HtRate_new :: "HtMcs \<Rightarrow> PpduBandwidth \<Rightarrow> bool \<Rightarrow> HtRate option" where
  "HtRate_new mcs bandwidth short_gi =
     (if bandwidth = Mhz20 \<or> bandwidth = Mhz40
      then Some \<lparr>ht_mcs = mcs, ht_bandwidth = bandwidth, ht_short_gi = short_gi\<rparr>
      else None)"

definition ht_nominal_kbps :: "HtRate \<Rightarrow> u32" where
  "ht_nominal_kbps self =
     (let table =
            (case (ht_bandwidth self, ht_short_gi self) of
               (Mhz40, False) \<Rightarrow> [13500, 27000, 40500, 54000, 81000, 108000, 121500, 135000]
             | (Mhz40, True) \<Rightarrow> [15000, 30000, 45000, 60000, 90000, 120000, 135000, 150000]
             | (_, False) \<Rightarrow> [6500, 13000, 19500, 26000, 39000, 52000, 58500, 65000]
             | (_, True) \<Rightarrow> [7200, 14400, 21700, 28900, 43300, 57800, 65000, 72200])
      in table ! unat (ht_mcs_index (ht_mcs self) mod 8) * ucast (ht_spatial_streams (ht_mcs self)))"

datatype HeMcs = HeMcs (he_mcs_index: u8)

definition HeMcs_new :: "u8 \<Rightarrow> HeMcs option" where
  "HeMcs_new index = (if index \<le> 11 then Some (HeMcs index) else None)"

datatype SpatialStreams = SpatialStreams (streams_count: u8)

definition SpatialStreams_new :: "u8 \<Rightarrow> SpatialStreams option" where
  "SpatialStreams_new n = (if 1 \<le> n \<and> n \<le> 8 then Some (SpatialStreams n) else None)"

datatype HeGiLtf = Ltf1xGi800Ns | Ltf2xGi800Ns | Ltf2xGi1600Ns | Ltf4xGi3200Ns

fun guard_interval_ns :: "HeGiLtf \<Rightarrow> u16" where
  "guard_interval_ns Ltf1xGi800Ns = 800"
| "guard_interval_ns Ltf2xGi800Ns = 800"
| "guard_interval_ns Ltf2xGi1600Ns = 1600"
| "guard_interval_ns Ltf4xGi3200Ns = 3200"

datatype FecCoding = Bcc | Ldpc

record HeRate =
  he_mcs :: HeMcs
  he_spatial_streams :: SpatialStreams
  he_bandwidth :: PpduBandwidth
  he_gi_ltf :: HeGiLtf
  he_fec :: FecCoding
  he_dcm :: bool

definition HeRate_new ::
    "HeMcs \<Rightarrow> SpatialStreams \<Rightarrow> PpduBandwidth \<Rightarrow> HeGiLtf \<Rightarrow> FecCoding \<Rightarrow> bool \<Rightarrow> HeRate option" where
  "HeRate_new mcs spatial_streams bandwidth gi_ltf fec dcm =
     (if dcm \<and> (he_mcs_index mcs \<notin> {0, 1, 3, 4} \<or> 2 < streams_count spatial_streams) then None
      else Some \<lparr>he_mcs = mcs, he_spatial_streams = spatial_streams, he_bandwidth = bandwidth,
             he_gi_ltf = gi_ltf, he_fec = fec, he_dcm = dcm\<rparr>)"

fun he_subcarriers :: "PpduBandwidth \<Rightarrow> u64" where
  "he_subcarriers Mhz20 = 234"
| "he_subcarriers Mhz40 = 468"
| "he_subcarriers Mhz80 = 980"
| "he_subcarriers Mhz160 = 1960"

definition HE_MODULATION :: "(u64 \<times> u64 \<times> u64) list" where
  "HE_MODULATION =
     [(1, 1, 2), (2, 1, 2), (2, 3, 4), (4, 1, 2), (4, 3, 4), (6, 2, 3), (6, 3, 4), (6, 5, 6),
      (8, 3, 4), (8, 5, 6), (10, 3, 4), (10, 5, 6)]"

definition data_bits_per_symbol :: "HeRate \<Rightarrow> u64 \<times> u64" where
  "data_bits_per_symbol self =
     (case HE_MODULATION ! unat (he_mcs_index (he_mcs self)) of
        (bits, rate_numerator, rate_denominator) \<Rightarrow>
          (he_subcarriers (he_bandwidth self) * bits * rate_numerator
             * ucast (streams_count (he_spatial_streams self)),
           rate_denominator * (if he_dcm self then 2 else 1)))"

definition he_nominal_kbps :: "HeRate \<Rightarrow> u32" where
  "he_nominal_kbps self =
     (let symbol_ns = 12800 + ucast (guard_interval_ns (he_gi_ltf self))
      in case data_bits_per_symbol self of
           (numerator, denominator) \<Rightarrow>
             ucast (numerator * 1000000 div (denominator * symbol_ns)))"

datatype PhyRate = Legacy LegacyRate | Ht HtRate | He HeRate

fun phy_bandwidth :: "PhyRate \<Rightarrow> PpduBandwidth" where
  "phy_bandwidth (Legacy _) = Mhz20"
| "phy_bandwidth (Ht rate) = ht_bandwidth rate"
| "phy_bandwidth (He rate) = he_bandwidth rate"

fun nominal_kbps :: "PhyRate \<Rightarrow> u32" where
  "nominal_kbps (Legacy rate) = kbps rate"
| "nominal_kbps (Ht rate) = ht_nominal_kbps rate"
| "nominal_kbps (He rate) = he_nominal_kbps rate"

text \<open>Rust's \<open>div_ceil\<close> on an unsigned word.\<close>

definition div_ceil :: "'a::len word \<Rightarrow> 'a word \<Rightarrow> 'a word" where
  "div_ceil a b = (if a mod b = 0 then a div b else a div b + 1)"

text \<open>Data bits per symbol as a fraction, and the symbol's length, of a rate that carries A-MPDUs.\<close>

fun symbol_of :: "PhyRate \<Rightarrow> (u64 \<times> u64 \<times> u64) option" where
  "symbol_of (Legacy _) = None"
| "symbol_of (Ht rate) =
     Some (ucast (ht_nominal_kbps (rate\<lparr>ht_short_gi := False\<rparr>)) * 4 div 1000, 1,
           if ht_short_gi rate then 3600 else 4000)"
| "symbol_of (He rate) =
     (case data_bits_per_symbol rate of
        (numerator, denominator) \<Rightarrow>
          Some (numerator, denominator, 12800 + ucast (guard_interval_ns (he_gi_ltf rate))))"

definition spacing_ns :: "u8 \<Rightarrow> u64 option" where
  "spacing_ns encoding =
     (if encoding = 0 then Some 0
      else if 1 \<le> encoding \<and> encoding \<le> 7 then Some (push_bit (unat (encoding - 1)) 250)
      else None)"

definition minimum_mpdu_spacing_bytes :: "PhyRate \<Rightarrow> u8 \<Rightarrow> u32 option" where
  "minimum_mpdu_spacing_bytes self encoding = do {
     spacing \<leftarrow> spacing_ns encoding;
     (bits, divisor, symbol_ns) \<leftarrow> symbol_of self;
     Some (ucast (div_ceil (bits * spacing) (divisor * symbol_ns * 8)))
   }"

definition SIGNAL_EXTENSION :: u64 where "SIGNAL_EXTENSION = 6"

definition dsss_preamble :: "LegacyRate \<Rightarrow> u64" where
  "dsss_preamble rate =
     (if rate \<in> {Dsss2M ShortPreamble, Cck5M5 ShortPreamble, Cck11M ShortPreamble} then 96 else 192)"

fun max_ppdu_duration_micros :: "PhyRate \<Rightarrow> u32 \<Rightarrow> u32" where
  "max_ppdu_duration_micros (Legacy rate) psdu_octets =
     (let psdu_bits = 8 * ucast psdu_octets
      in if \<not> is_ofdm rate
         then ucast (dsss_preamble rate + div_ceil (psdu_bits * 1000) (ucast (kbps rate)))
         else
           (let bits_per_symbol = ucast (kbps rate) * 4 div 1000;
                symbols = div_ceil (16 + psdu_bits + 6) bits_per_symbol
            in ucast (20 + 4 * symbols + SIGNAL_EXTENSION)))"
| "max_ppdu_duration_micros (Ht rate) psdu_octets =
     (let psdu_bits = 8 * ucast psdu_octets;
          long_gi = rate\<lparr>ht_short_gi := False\<rparr>;
          bits_per_symbol = ucast (ht_nominal_kbps long_gi) * 4 div 1000;
          streams = ucast (ht_spatial_streams (ht_mcs rate));
          encoders = div_ceil (ucast (ht_nominal_kbps rate)) 300000;
          symbols = div_ceil (16 + psdu_bits + 6 * encoders) bits_per_symbol;
          data = (if ht_short_gi rate then 4 * div_ceil (symbols * 9) 10 else 4 * symbols);
          ltfs = (if 2 < streams then 4 else streams)
      in ucast (36 + 4 * (ltfs - 1) + data + SIGNAL_EXTENSION))"
| "max_ppdu_duration_micros (He rate) psdu_octets =
     (let psdu_bits = 8 * ucast psdu_octets
      in case data_bits_per_symbol rate of
           (numerator, denominator) \<Rightarrow>
             (let streams = ucast (streams_count (he_spatial_streams rate));
                  encoders = div_ceil (ucast (he_nominal_kbps rate)) 600000;
                  symbols = div_ceil ((16 + psdu_bits + 6 * encoders) * denominator) numerator;
                  guard_ns = ucast (guard_interval_ns (he_gi_ltf rate));
                  ltf_ns =
                    (case he_gi_ltf rate of
                       Ltf1xGi800Ns \<Rightarrow> 3200
                     | Ltf2xGi800Ns \<Rightarrow> 6400
                     | Ltf2xGi1600Ns \<Rightarrow> 6400
                     | Ltf4xGi3200Ns \<Rightarrow> 12800) + guard_ns;
                  ltfs = (if 2 < streams then 4 else streams);
                  ns = 36000 + ltfs * ltf_ns + symbols * (12800 + guard_ns)
              in ucast (div_ceil ns 1000 + 16 + SIGNAL_EXTENSION)))"

subsection \<open>What the constructors guarantee\<close>

fun rate_ok :: "PhyRate \<Rightarrow> bool" where
  "rate_ok (Legacy _) \<longleftrightarrow> True"
| "rate_ok (Ht rate) \<longleftrightarrow> ht_mcs_index (ht_mcs rate) \<le> 31 \<and> ht_bandwidth rate \<in> {Mhz20, Mhz40}"
| "rate_ok (He rate) \<longleftrightarrow>
     he_mcs_index (he_mcs rate) \<le> 11
     \<and> 1 \<le> streams_count (he_spatial_streams rate) \<and> streams_count (he_spatial_streams rate) \<le> 8"

lemma constructed_rates_ok:
  "HtMcs_new i = Some m \<Longrightarrow> HtRate_new m b g = Some r \<Longrightarrow> rate_ok (Ht r)"
  "HeMcs_new i = Some m' \<Longrightarrow> SpatialStreams_new n = Some s
    \<Longrightarrow> HeRate_new m' s b l f d = Some r' \<Longrightarrow> rate_ok (He r')"
  by (auto simp: HtMcs_new_def HtRate_new_def HeMcs_new_def SpatialStreams_new_def HeRate_new_def
      split: if_splits)

subsection \<open>Arithmetic without overflow\<close>

text \<open>Rounding up, as the least quotient that covers the dividend.\<close>

lemma unat_div_ceil:
  assumes "b \<noteq> 0"
  shows "unat (div_ceil a b) = unat a div unat b + (if unat a mod unat b = 0 then 0 else 1)"
proof (cases "unat a mod unat b = 0")
  case True
  then have "a mod b = 0" by (simp add: unat_eq_zero [symmetric] unat_mod)
  with True show ?thesis by (simp add: div_ceil_def unat_div)
next
  case False
  then have m: "a mod b \<noteq> 0" by (metis unat_0 unat_mod)
  have "1 < unat b" using assms False by (cases "unat b"; cases "unat b - 1") (auto simp: unat_eq_zero)
  then have "unat a div unat b < unat a" using False by (cases "unat a") auto
  moreover have "unat a < 2 ^ LENGTH('a)" by (rule unsigned_less)
  ultimately have "unat a div unat b + 1 < 2 ^ LENGTH('a)" by linarith
  then have "unat (a div b + 1) = unat a div unat b + 1"
    by (simp add: unat_word_ariths unat_div)
  with m False show ?thesis by (simp add: div_ceil_def)
qed

lemma div_ceil_le_iff:
  assumes "b \<noteq> 0"
  shows "unat (div_ceil a b) \<le> n \<longleftrightarrow> unat a \<le> n * unat b"
proof -
  have b: "0 < unat b" using assms by (simp add: unat_gt_0)
  show ?thesis
  proof (cases "unat a mod unat b = 0")
    case True
    then obtain q where q: "unat a = q * unat b" by (metis mod_0_imp_dvd dvd_def mult.commute)
    then show ?thesis using b True by (simp add: unat_div_ceil [OF assms])
  next
    case False
    then have "unat a \<noteq> n * unat b" by auto
    with False show ?thesis
      using div_less_iff_less_mult [OF b, of "unat a" n]
      by (auto simp: unat_div_ceil [OF assms] Suc_le_eq)
  qed
qed

lemma unat_mult_small: "unat a * unat b < 2 ^ LENGTH('a) \<Longrightarrow> unat (a * b) = unat a * unat b"
  for a b :: "'a::len word"
  by (simp add: unat_word_ariths)

lemma unat_mult_le:
  fixes a b :: "'a::len word"
  assumes "unat a \<le> x" "unat b \<le> y" "x * y < 2 ^ LENGTH('a)"
  shows "unat (a * b) = unat a * unat b" "unat (a * b) \<le> x * y"
proof -
  have "unat a * unat b \<le> x * y" using assms by (simp add: mult_mono)
  with assms(3) show "unat (a * b) = unat a * unat b" "unat (a * b) \<le> x * y"
    by (simp_all add: unat_mult_small)
qed

text \<open>The bits, divisor and length of a symbol stay small, whatever the rate.\<close>

lemma he_modulation_bounds:
  assumes "i < 12" "HE_MODULATION ! i = (b, n, d)"
  shows "unat b \<le> 10 \<and> unat n \<le> 5 \<and> 0 < unat d \<and> unat d \<le> 6"
proof -
  have "(b, n, d) \<in> set HE_MODULATION"
    using assms nth_mem [of i HE_MODULATION] by (simp add: HE_MODULATION_def)
  then show ?thesis by (auto simp: HE_MODULATION_def)
qed

lemma symbol_of_He:
  assumes ok: "rate_ok (He r)" and dbps: "data_bits_per_symbol r = (bits, divisor)"
  shows "unat bits \<le> 784000 \<and> 0 < unat divisor \<and> unat divisor \<le> 12"
proof -
  obtain b n d where m: "HE_MODULATION ! unat (he_mcs_index (he_mcs r)) = (b, n, d)"
    by (metis prod_cases3)
  have mcs: "unat (he_mcs_index (he_mcs r)) < 12" using ok by (simp add: word_le_nat_alt)
  note mb = he_modulation_bounds [OF mcs m]
  let ?s = "he_subcarriers (he_bandwidth r)" and ?n = "ucast (streams_count (he_spatial_streams r)) :: u64"
  have s: "unat ?s \<le> 1960" by (cases "he_bandwidth r") simp_all
  have n: "unat ?n \<le> 8" using ok by (simp add: word_le_nat_alt)
  have 1: "unat (?s * b) \<le> 19600" using unat_mult_le [of ?s 1960 b 10] s mb by simp
  have 2: "unat (?s * b * n) \<le> 98000" using unat_mult_le [OF 1, of n 5] mb by simp
  have 3: "unat (?s * b * n * ?n) \<le> 784000" using unat_mult_le [OF 2, of ?n 8] n by simp
  have 4: "unat (d * (if he_dcm r then 2 else 1)) = unat d * (if he_dcm r then 2 else 1)"
    using unat_mult_le [of d 6 2 2] mb by simp
  show ?thesis using dbps 3 4 mb by (auto simp: data_bits_per_symbol_def m)
qed

lemma symbol_of_Ht:
  assumes "rate_ok (Ht r)"
  shows "unat (ucast (ht_nominal_kbps (r\<lparr>ht_short_gi := False\<rparr>)) * 4 div 1000 :: u64) \<le> 2160"
proof -
  let ?t = "[6500, 13000, 19500, 26000, 39000, 52000, 58500, 65000] :: u32 list"
  let ?u = "[13500, 27000, 40500, 54000, 81000, 108000, 121500, 135000] :: u32 list"
  let ?i = "unat (ht_mcs_index (ht_mcs r) mod 8)" and ?s = "ucast (ht_spatial_streams (ht_mcs r)) :: u32"
  have "?i < 8" by (simp add: unat_mod)
  then have "x ! ?i \<in> set x" if "length x = 8" for x :: "u32 list" using that by simp
  then have t: "unat (?t ! ?i) \<le> 65000" "unat (?u ! ?i) \<le> 135000"
    using \<open>?i < 8\<close> nth_mem [of ?i ?t] nth_mem [of ?i ?u] by auto
  have "unat (ht_mcs_index (ht_mcs r)) \<le> 31" using assms by (simp add: word_le_nat_alt)
  then have s: "unat ?s \<le> 4"
    by (simp add: ht_spatial_streams_def unat_word_ariths unat_div)
  have "unat (ht_nominal_kbps (r\<lparr>ht_short_gi := False\<rparr>)) \<le> 540000"
    using unat_mult_le(2) [of "?t ! ?i" 135000 ?s 4] unat_mult_le(2) [of "?u ! ?i" 135000 ?s 4] t s assms
    by (cases "ht_bandwidth r") (auto simp: ht_nominal_kbps_def)
  then have "unat (ucast (ht_nominal_kbps (r\<lparr>ht_short_gi := False\<rparr>)) * 4 :: u64) \<le> 2160000"
    using unat_mult_le(2) [of "ucast (ht_nominal_kbps (r\<lparr>ht_short_gi := False\<rparr>)) :: u64" 540000 4 4] by simp
  then show ?thesis by (simp add: unat_div)
qed

lemma symbol_of_bounds:
  assumes ok: "rate_ok r" and sym: "symbol_of r = Some (bits, divisor, ns)"
  shows "unat bits \<le> 784000 \<and> 0 < unat divisor \<and> unat divisor \<le> 12 \<and> 0 < unat ns \<and> unat ns \<le> 16000"
proof (cases r)
  case (Ht h)
  with sym symbol_of_Ht [of h] ok show ?thesis by (auto split: if_splits)
next
  case (He h)
  have "unat (12800 + ucast (guard_interval_ns (he_gi_ltf h)) :: u64)
      = 12800 + unat (guard_interval_ns (he_gi_ltf h))"
    by (cases "he_gi_ltf h") simp_all
  moreover have "unat (guard_interval_ns (he_gi_ltf h)) \<le> 3200" by (cases "he_gi_ltf h") simp_all
  ultimately show ?thesis using sym symbol_of_He [of h] ok He by (auto split: prod.splits)
qed (use sym in simp)

lemma spacing_ns_le:
  assumes "spacing_ns encoding = Some sp"
  shows "unat sp \<le> 16000"
proof (cases "encoding = 0")
  case False
  then have "unat encoding \<le> 7" "1 \<le> encoding" and sp: "sp = push_bit (unat (encoding - 1)) 250"
    using assms by (auto simp: spacing_ns_def word_le_nat_alt split: if_splits)
  then have "unat (encoding - 1) \<le> 6" by (simp add: unat_sub)
  then have "unat (encoding - 1) \<in> {0, 1, 2, 3, 4, 5, 6}" by auto
  then show ?thesis unfolding sp by auto
qed (use assms in \<open>simp add: spacing_ns_def\<close>)

subsection \<open>Properties\<close>

text \<open>
  The MPDU start spacing is exact.  For every valid HT or HE rate and every one of the eight
  spacing encodings, the computation does not overflow its words and returns the least number of
  octets whose time on air at that rate is no shorter than the spacing; a non-HT rate, which carries
  no A-MPDU, and an encoding beyond seven have no answer.
\<close>

theorem mpdu_spacing_is_exact:
  assumes "rate_ok r"
  shows "(case minimum_mpdu_spacing_bytes r encoding of
      None \<Rightarrow> 7 < encoding \<or> symbol_of r = None
    | Some octets \<Rightarrow>
        \<exists>bits divisor ns sp. symbol_of r = Some (bits, divisor, ns) \<and> spacing_ns encoding = Some sp
          \<and> (\<forall>n. unat octets \<le> n \<longleftrightarrow> unat bits * unat sp \<le> n * 8 * (unat divisor * unat ns)))"
proof (cases "spacing_ns encoding")
  case None
  then show ?thesis
    by (auto simp: minimum_mpdu_spacing_bytes_def spacing_ns_def word_le_nat_alt word_less_nat_alt
        Suc_le_eq unat_gt_0 split: if_splits)
next
  case sp: (Some sp)
  show ?thesis
  proof (cases "symbol_of r")
    case (Some sym)
    obtain bits divisor ns where sym: "sym = (bits, divisor, ns)" by (metis prod_cases3)
    note b = symbol_of_bounds [OF assms Some [unfolded sym]]
    note num = unat_mult_le [of bits 784000 sp 16000]
    have num: "unat (bits * sp) = unat bits * unat sp" "unat (bits * sp) \<le> 12544000000"
      using num b spacing_ns_le [OF sp] by simp_all
    have den1: "unat (divisor * ns) = unat divisor * unat ns" "unat (divisor * ns) \<le> 192000"
      using unat_mult_le [of divisor 12 ns 16000] b by simp_all
    have den: "unat (divisor * ns * 8) = unat divisor * unat ns * 8"
      using unat_mult_le(1) [OF den1(2), of 8 8] den1(1) by simp
    then have nz: "divisor * ns * 8 \<noteq> 0" using b by (auto simp: unat_eq_zero [symmetric])
    have least: "unat (div_ceil (bits * sp) (divisor * ns * 8)) \<le> n
        \<longleftrightarrow> unat bits * unat sp \<le> n * 8 * (unat divisor * unat ns)" for n
      unfolding div_ceil_le_iff [OF nz] num den by (simp add: ac_simps)
    have "1 \<le> unat divisor * unat ns" using b by (simp add: Suc_le_eq)
    then have "12544000000 \<le> 4294967295 * 8 * (unat divisor * unat ns)" by linarith
    then have "unat (div_ceil (bits * sp) (divisor * ns * 8)) \<le> 4294967295"
      unfolding least using num by linarith
    then have "unat (ucast (div_ceil (bits * sp) (divisor * ns * 8)) :: u32)
        = unat (div_ceil (bits * sp) (divisor * ns * 8))"
      by (simp add: unsigned_ucast_eq take_bit_nat_eq_self)
    with least show ?thesis
      by (simp add: minimum_mpdu_spacing_bytes_def sp Some sym)
  qed (simp add: minimum_mpdu_spacing_bytes_def sp)
qed

theorem mpdu_spacing_is_exact_witness:
  "minimum_mpdu_spacing_bytes (Ht \<lparr>ht_mcs = HtMcs 7, ht_bandwidth = Mhz40, ht_short_gi = True\<rparr>) 7 = Some 300
   \<and> (\<forall>n. 300 \<le> n \<longleftrightarrow> 540 * 16000 \<le> n * 8 * (3600 :: nat))"
proof -
  let ?r = "Ht \<lparr>ht_mcs = HtMcs 7, ht_bandwidth = Mhz40, ht_short_gi = True\<rparr>"
  have "rate_ok ?r" "minimum_mpdu_spacing_bytes ?r 7 = Some 300" "symbol_of ?r = Some (540, 1, 3600)"
    "spacing_ns 7 = Some 16000" by code_simp+
  with mpdu_spacing_is_exact [of ?r 7] show ?thesis by simp
qed

end
