(* ===== verification/Mpdu_Retry.thy ===== *)
theory Mpdu_Retry
  imports Tx_Port Phy_Rates
begin

text \<open>
  The retry policy of one individually addressed MPDU,
  \<open>crates/protocols/ieee80211/upper-mac/src/retry.rs\<close>: the counters of failed attempts, their limits,
  and the decision after each hardware transmission.  A rate ladder is a value of the trait
  \<open>RateLadder\<close>; the model passes its one method as a function.
\<close>

datatype FrameClass = ShortFrame | LongFrame

datatype AckFailureAccounting = ByFrameClass | AlwaysShort

record RetryLimits =
  limit_short :: u8
  limit_long :: u8
  ack_failure :: AckFailureAccounting

definition IEEE_DEFAULT :: RetryLimits where
  "IEEE_DEFAULT = \<lparr>limit_short = 7, limit_long = 4, ack_failure = ByFrameClass\<rparr>"

record RetryCounters =
  count_mpdu :: u8
  count_short :: u8
  count_long :: u8

definition ladder_step :: "RetryCounters \<Rightarrow> u8" where
  "ladder_step self = (if count_mpdu self > count_short self then count_mpdu self else count_short self)"

type_synonym RateLadder = "PhyRate \<Rightarrow> u8 \<Rightarrow> PhyRate option"

definition FixedRate :: RateLadder where
  "FixedRate initial failures = Some initial"

datatype RetryOutcome = MpduDelivered | RetryLimit TxStatus | Terminal TxStatus

datatype RetryDecision = Complete RetryOutcome | Retry (set_retry_bit: bool)

datatype RetryStateError = ZeroMpduRetryLimit

record MpduRetryState =
  mpdu_limits :: RetryLimits
  mpdu_retry_limit :: u8
  frame_class :: FrameClass
  retry_counters :: RetryCounters
  retry_attempts :: u8

definition MpduRetryState_new ::
    "RetryLimits \<Rightarrow> u8 \<Rightarrow> FrameClass \<Rightarrow> (MpduRetryState, RetryStateError) result" where
  "MpduRetryState_new limits retry_limit cls =
     (if retry_limit = 0 then Err ZeroMpduRetryLimit
      else Ok \<lparr>mpdu_limits = limits, mpdu_retry_limit = retry_limit, frame_class = cls,
             retry_counters = \<lparr>count_mpdu = 0, count_short = 0, count_long = 0\<rparr>,
             retry_attempts = 1\<rparr>)"

definition retry_rate :: "MpduRetryState \<Rightarrow> RateLadder \<Rightarrow> PhyRate \<Rightarrow> PhyRate \<Rightarrow> PhyRate" where
  "retry_rate self ladder initial previous =
     (case ladder initial (ladder_step (retry_counters self)) of Some r \<Rightarrow> r | None \<Rightarrow> previous)"

text \<open>\<open>count_short\<close> and \<open>count_long\<close> advance a counter and report whether its limit is reached.\<close>

definition advance_short :: "MpduRetryState \<Rightarrow> bool \<times> MpduRetryState" where
  "advance_short self =
     (let short = saturating_add (count_short (retry_counters self)) 1
      in (limit_short (mpdu_limits self) \<le> short,
          self\<lparr>retry_counters := (retry_counters self)\<lparr>count_short := short\<rparr>\<rparr>))"

definition advance_long :: "MpduRetryState \<Rightarrow> bool \<times> MpduRetryState" where
  "advance_long self =
     (let long = saturating_add (count_long (retry_counters self)) 1
      in (limit_long (mpdu_limits self) \<le> long,
          self\<lparr>retry_counters := (retry_counters self)\<lparr>count_long := long\<rparr>\<rparr>))"

definition finish_or_retry ::
    "MpduRetryState \<Rightarrow> TxStatus \<Rightarrow> bool \<Rightarrow> bool \<Rightarrow> RetryDecision \<times> MpduRetryState" where
  "finish_or_retry self status reached retry_bit =
     (if reached then (Complete (RetryLimit status), self)
      else (Retry retry_bit, self\<lparr>retry_attempts := saturating_add (retry_attempts self) 1\<rparr>))"

fun mpdu_observe :: "MpduRetryState \<Rightarrow> TxStatus \<Rightarrow> RetryDecision \<times> MpduRetryState" where
  "mpdu_observe self Success = (Complete MpduDelivered, self)"
| "mpdu_observe self AckTimeout =
     (let self = self\<lparr>retry_counters := (retry_counters self)
                   \<lparr>count_mpdu := saturating_add (count_mpdu (retry_counters self)) 1\<rparr>\<rparr>;
          (class_reached, self) =
            (case (ack_failure (mpdu_limits self), frame_class self) of
               (AlwaysShort, _) \<Rightarrow> advance_short self
             | (ByFrameClass, ShortFrame) \<Rightarrow> advance_short self
             | (ByFrameClass, LongFrame) \<Rightarrow> advance_long self);
          reached = (class_reached \<or> mpdu_retry_limit self \<le> count_mpdu (retry_counters self))
      in finish_or_retry self AckTimeout reached True)"
| "mpdu_observe self CtsTimeout =
     (let (reached, self) = advance_short self in finish_or_retry self CtsTimeout reached False)"
| "mpdu_observe self Collision =
     (let (reached, self) =
            (case frame_class self of ShortFrame \<Rightarrow> advance_short self | LongFrame \<Rightarrow> advance_long self)
      in finish_or_retry self Collision reached False)"
| "mpdu_observe self TimedOut = (Complete (Terminal TimedOut), self)"

subsection \<open>The life of a frame\<close>

text \<open>The decisions on a sequence of attempt statuses, up to and including the one that completes.\<close>

fun retry_run :: "MpduRetryState \<Rightarrow> TxStatus list \<Rightarrow> RetryDecision list \<times> MpduRetryState" where
  "retry_run s [] = ([], s)"
| "retry_run s (status # statuses) =
     (case mpdu_observe s status of
        (Complete outcome, s') \<Rightarrow> ([Complete outcome], s')
      | (Retry b, s') \<Rightarrow>
          (case retry_run s' statuses of (decisions, s'') \<Rightarrow> (Retry b # decisions, s'')))"

abbreviation retryable :: "TxStatus \<Rightarrow> bool" where
  "retryable status \<equiv> status \<in> {AckTimeout, CtsTimeout, Collision}"

text \<open>The counters after an attempt failed with a retryable status.\<close>

definition charges_short :: "MpduRetryState \<Rightarrow> TxStatus \<Rightarrow> bool" where
  "charges_short s status \<longleftrightarrow>
     (case status of
        CtsTimeout \<Rightarrow> True
      | Collision \<Rightarrow> frame_class s = ShortFrame
      | _ \<Rightarrow> frame_class s = ShortFrame \<or> ack_failure (mpdu_limits s) = AlwaysShort)"

definition charged :: "MpduRetryState \<Rightarrow> TxStatus \<Rightarrow> RetryCounters" where
  "charged s status =
     (let c = retry_counters s
      in \<lparr>count_mpdu = (if status = AckTimeout then saturating_add (count_mpdu c) 1 else count_mpdu c),
          count_short = (if charges_short s status then saturating_add (count_short c) 1 else count_short c),
          count_long = (if charges_short s status then count_long c else saturating_add (count_long c) 1)\<rparr>)"

definition limit_reached :: "MpduRetryState \<Rightarrow> TxStatus \<Rightarrow> bool" where
  "limit_reached s status \<longleftrightarrow>
     (if charges_short s status then limit_short (mpdu_limits s) \<le> count_short (charged s status)
      else limit_long (mpdu_limits s) \<le> count_long (charged s status))
     \<or> status = AckTimeout \<and> mpdu_retry_limit s \<le> count_mpdu (charged s status)"

lemma observe_retryable:
  "retryable status \<Longrightarrow> mpdu_observe s status =
     finish_or_retry (s\<lparr>retry_counters := charged s status\<rparr>) status (limit_reached s status)
       (status = AckTimeout)"
  by (cases s; cases "retry_counters s"; cases "frame_class s"; cases "ack_failure (mpdu_limits s)")
     (auto simp: charged_def charges_short_def limit_reached_def advance_short_def advance_long_def Let_def)

text \<open>A frame still being sent after the failed attempts \<open>h\<close>.\<close>

definition retry_live :: "TxStatus list \<Rightarrow> MpduRetryState \<Rightarrow> bool" where
  "retry_live h s \<longleftrightarrow>
     (let c = retry_counters s; l = mpdu_limits s
      in list_all retryable h \<and> 0 < unat (mpdu_retry_limit s)
         \<and> unat (count_short c) + unat (count_long c) = length h
         \<and> unat (count_short c) \<le> unat (limit_short l) - 1
         \<and> unat (count_long c) \<le> unat (limit_long l) - 1
         \<and> unat (count_mpdu c) = count_list h AckTimeout
         \<and> unat (count_mpdu c) \<le> unat (mpdu_retry_limit s) - 1
         \<and> unat (retry_attempts s) = min 255 (Suc (length h)))"

lemma unat_saturating_u8: "unat (saturating_add (w :: u8) 1) = min (Suc (unat w)) 255"
  by (simp add: unat_saturating_add)

lemma charged_counts:
  assumes "retry_live h s"
  shows "unat (count_mpdu (charged s status)) = count_list (h @ [status]) AckTimeout"
    "unat (count_mpdu (charged s status)) \<le> unat (mpdu_retry_limit s)"
    "unat (count_short (charged s status))
      = unat (count_short (retry_counters s)) + (if charges_short s status then 1 else 0)"
    "unat (count_long (charged s status))
      = unat (count_long (retry_counters s)) + (if charges_short s status then 0 else 1)"
  using assms unat_u8_less [of "mpdu_retry_limit s"] unat_u8_less [of "limit_short (mpdu_limits s)"]
    unat_u8_less [of "limit_long (mpdu_limits s)"]
  by (auto simp: retry_live_def charged_def Let_def unat_saturating_u8)

lemma observe_Retry:
  assumes live: "retry_live h s" and obs: "mpdu_observe s status = (Retry b, s')"
  shows "retry_live (h @ [status]) s' \<and> b = (status = AckTimeout)
    \<and> mpdu_limits s' = mpdu_limits s \<and> mpdu_retry_limit s' = mpdu_retry_limit s"
proof -
  have st: "retryable status" using obs by (cases status) auto
  have nr: "\<not> limit_reached s status"
    and s': "s' = s\<lparr>retry_counters := charged s status, retry_attempts := saturating_add (retry_attempts s) 1\<rparr>"
    and b: "b = (status = AckTimeout)"
    using obs by (auto simp: observe_retryable [OF st] finish_or_retry_def split: if_splits)
  from nr have lims:
    "charges_short s status \<Longrightarrow> unat (count_short (charged s status)) < unat (limit_short (mpdu_limits s))"
    "\<not> charges_short s status \<Longrightarrow> unat (count_long (charged s status)) < unat (limit_long (mpdu_limits s))"
    "status = AckTimeout \<Longrightarrow> unat (count_mpdu (charged s status)) < unat (mpdu_retry_limit s)"
    by (simp_all add: limit_reached_def word_le_nat_alt)
  have "unat (count_mpdu (charged s status)) \<le> unat (mpdu_retry_limit s) - 1"
    using live lims(3) by (cases "status = AckTimeout") (auto simp: retry_live_def charged_def Let_def)
  moreover have "unat (count_short (charged s status)) \<le> unat (limit_short (mpdu_limits s)) - 1"
    "unat (count_long (charged s status)) \<le> unat (limit_long (mpdu_limits s)) - 1"
    using live lims(1,2) charged_counts(3,4) [OF live, of status]
    by (cases "charges_short s status"; auto simp: retry_live_def Let_def)+
  ultimately show ?thesis
    using live st b charged_counts [OF live, of status]
    by (auto simp: retry_live_def Let_def s' unat_saturating_u8)
qed

fun outcome_of :: "TxStatus \<Rightarrow> RetryOutcome" where
  "outcome_of Success = MpduDelivered"
| "outcome_of TimedOut = Terminal TimedOut"
| "outcome_of status = RetryLimit status"

lemma observe_Complete:
  assumes live: "retry_live h s" and obs: "mpdu_observe s status = (Complete outcome, s')"
  shows "outcome = outcome_of status
    \<and> retry_attempts s' = retry_attempts s
    \<and> unat (count_mpdu (retry_counters s')) = count_list (h @ [status]) AckTimeout
    \<and> unat (count_mpdu (retry_counters s')) \<le> unat (mpdu_retry_limit s)"
proof (cases "retryable status")
  case True
  then have "s' = s\<lparr>retry_counters := charged s status\<rparr>" "outcome = RetryLimit status"
    using obs by (auto simp: observe_retryable [OF True] finish_or_retry_def split: if_splits)
  with True charged_counts [OF live, of status] show ?thesis by auto
next
  case False
  with live obs show ?thesis by (cases status) (auto simp: retry_live_def Let_def)
qed

definition retry_bound :: "RetryLimits \<Rightarrow> nat" where
  "retry_bound l = (unat (limit_short l) - 1) + (unat (limit_long l) - 1)"

lemma retry_run_live:
  assumes "retry_live h s" "retry_bound (mpdu_limits s) < length h + length statuses"
  shows "\<exists>k outcome s'. k < length statuses \<and> length h + k \<le> retry_bound (mpdu_limits s)
    \<and> retry_run s statuses
      = (map (\<lambda>st. Retry (st = AckTimeout)) (take k statuses) @ [Complete outcome], s')
    \<and> list_all retryable (take k statuses)
    \<and> outcome = outcome_of (statuses ! k)
    \<and> unat (retry_attempts s') = min 255 (Suc (length h + k))
    \<and> unat (count_mpdu (retry_counters s')) = count_list (h @ take (Suc k) statuses) AckTimeout
    \<and> unat (count_mpdu (retry_counters s')) \<le> unat (mpdu_retry_limit s)"
  using assms
proof (induction statuses arbitrary: h s)
  case Nil
  then show ?case by (auto simp: retry_live_def retry_bound_def Let_def)
next
  case (Cons status statuses)
  have len: "length h \<le> retry_bound (mpdu_limits s)"
    using Cons.prems(1) by (auto simp: retry_live_def retry_bound_def Let_def)
  obtain d s1 where obs: "mpdu_observe s status = (d, s1)" by force
  show ?case
  proof (cases d)
    case (Complete outcome)
    note fin = observe_Complete [OF Cons.prems(1) obs [unfolded Complete]]
    from fin Cons.prems(1) len show ?thesis
      by (intro exI [of _ 0] exI [of _ outcome] exI [of _ s1])
         (simp add: obs Complete retry_live_def Let_def)
  next
    case (Retry b)
    note step = observe_Retry [OF Cons.prems(1) obs [unfolded Retry]]
    have st: "retryable status" using obs Retry by (cases status) auto
    from Cons.IH [of "h @ [status]" s1] step Cons.prems(2)
    obtain k outcome s' where "k < length statuses \<and> length (h @ [status]) + k \<le> retry_bound (mpdu_limits s1)
      \<and> retry_run s1 statuses
        = (map (\<lambda>st. Retry (st = AckTimeout)) (take k statuses) @ [Complete outcome], s')
      \<and> list_all retryable (take k statuses)
      \<and> outcome = outcome_of (statuses ! k)
      \<and> unat (retry_attempts s') = min 255 (Suc (length (h @ [status]) + k))
      \<and> unat (count_mpdu (retry_counters s')) = count_list ((h @ [status]) @ take (Suc k) statuses) AckTimeout
      \<and> unat (count_mpdu (retry_counters s')) \<le> unat (mpdu_retry_limit s1)" by auto
    with step st show ?thesis
      by (intro exI [of _ "Suc k"] exI [of _ outcome] exI [of _ s']) (simp add: obs Retry)
  qed
qed

subsection \<open>Properties\<close>

text \<open>
  C37. Every MPDU exchange ends, and as the statuses say.  Whatever statuses the hardware reports, a
  frame is sent at most (short limit - 1) + (long limit - 1) + 1 times (a limit of zero counting as
  one): the attempts before the last failed in a retryable way, each asked for the Retry bit exactly
  when it ended in an ACK timeout, and the last one decides the outcome: delivered, terminal on an
  unknown hardware timeout, or the limit reached with that status.  The reported attempts are their
  number, up to the counter's maximum of 255, and the frame itself went unacknowledged exactly as
  often as ACK timeouts were observed, never more often than its own limit allows.
\<close>

theorem mpdu_exchange_is_bounded:
  assumes "MpduRetryState_new limits retry_limit cls = Ok s"
    and "(unat (limit_short limits) - 1) + (unat (limit_long limits) - 1) < length statuses"
  shows "\<exists>k outcome s'. k < length statuses
    \<and> k \<le> (unat (limit_short limits) - 1) + (unat (limit_long limits) - 1)
    \<and> retry_run s statuses
      = (map (\<lambda>st. Retry (st = AckTimeout)) (take k statuses) @ [Complete outcome], s')
    \<and> list_all retryable (take k statuses)
    \<and> outcome = outcome_of (statuses ! k)
    \<and> unat (retry_attempts s') = min 255 (Suc k)
    \<and> unat (count_mpdu (retry_counters s')) = count_list (take (Suc k) statuses) AckTimeout
    \<and> unat (count_mpdu (retry_counters s')) \<le> unat retry_limit"
proof -
  have s: "mpdu_limits s = limits" "mpdu_retry_limit s = retry_limit" and live: "retry_live [] s"
    using assms(1) by (auto simp: MpduRetryState_new_def retry_live_def unat_gt_0 split: if_splits)
  show ?thesis
    using retry_run_live [OF live, of statuses] assms(2) by (simp add: s retry_bound_def)
qed

definition example_retry :: MpduRetryState where
  "example_retry = \<lparr>mpdu_limits = IEEE_DEFAULT, mpdu_retry_limit = 3, frame_class = LongFrame,
     retry_counters = \<lparr>count_mpdu = 0, count_short = 0, count_long = 0\<rparr>, retry_attempts = 1\<rparr>"

theorem mpdu_exchange_is_bounded_witness:
  "fst (retry_run example_retry ([CtsTimeout, AckTimeout, Collision] @ replicate 7 AckTimeout))
     = [Retry False, Retry True, Retry False, Retry True, Complete (RetryLimit AckTimeout)]
   \<and> (\<exists>k\<le>9. \<exists>outcome. fst (retry_run example_retry
        ([CtsTimeout, AckTimeout, Collision] @ replicate 7 AckTimeout))
      = map (\<lambda>st. Retry (st = AckTimeout))
          (take k ([CtsTimeout, AckTimeout, Collision] @ replicate 7 AckTimeout)) @ [Complete outcome])"
proof
  show "fst (retry_run example_retry ([CtsTimeout, AckTimeout, Collision] @ replicate 7 AckTimeout))
     = [Retry False, Retry True, Retry False, Retry True, Complete (RetryLimit AckTimeout)]"
    by code_simp
  have s: "MpduRetryState_new IEEE_DEFAULT 3 LongFrame = Ok example_retry"
    by (simp add: MpduRetryState_new_def example_retry_def)
  show "\<exists>k\<le>9. \<exists>outcome. fst (retry_run example_retry
        ([CtsTimeout, AckTimeout, Collision] @ replicate 7 AckTimeout))
      = map (\<lambda>st. Retry (st = AckTimeout))
          (take k ([CtsTimeout, AckTimeout, Collision] @ replicate 7 AckTimeout)) @ [Complete outcome]"
    using mpdu_exchange_is_bounded [OF s, of "[CtsTimeout, AckTimeout, Collision] @ replicate 7 AckTimeout"]
    by (auto simp: IEEE_DEFAULT_def)
qed

end
