(* ===== verification/Tx_Protection.thy ===== *)
theory Tx_Protection
  imports Tx_Port Phy_Rates
begin

text \<open>
  The protection exchange before a PPDU, \<open>crates/protocols/ieee80211/upper-mac/src/protection.rs\<close>,
  over the protection fields a BSS advertises (\<open>mac/src/protection.rs\<close>), and the legacy rates an
  association admits (\<open>upper-mac/src/rate_control/legacy.rs\<close>).  The transmitter's own estimate of an
  HE TXOP (\<open>HeTxopRtsBudget\<close>) is a parameter of the selection, as in the source.
\<close>

subsection \<open>What a BSS advertises\<close>

datatype ErpProtection = ErpProtection (erp_bits: u8)

definition ERP_USE_PROTECTION :: u8 where "ERP_USE_PROTECTION = push_bit 1 1"
definition ERP_BARKER_PREAMBLE_MODE :: u8 where "ERP_BARKER_PREAMBLE_MODE = push_bit 2 1"

definition ErpProtection_NONE :: ErpProtection where "ErpProtection_NONE = ErpProtection 0"

definition erp_from_information :: "u8 option \<Rightarrow> ErpProtection" where
  "erp_from_information information =
     (case information of
        Some v \<Rightarrow> ErpProtection (v AND (ERP_USE_PROTECTION OR ERP_BARKER_PREAMBLE_MODE))
      | None \<Rightarrow> ErpProtection_NONE)"

definition ErpProtection_new :: "bool \<Rightarrow> bool \<Rightarrow> ErpProtection" where
  "ErpProtection_new use long_required =
     ErpProtection ((if use then ERP_USE_PROTECTION else 0)
       OR (if long_required then ERP_BARKER_PREAMBLE_MODE else 0))"

definition use_protection :: "ErpProtection \<Rightarrow> bool" where
  "use_protection self \<longleftrightarrow> erp_bits self AND ERP_USE_PROTECTION \<noteq> 0"

definition long_preamble_required :: "ErpProtection \<Rightarrow> bool" where
  "long_preamble_required self \<longleftrightarrow> erp_bits self AND ERP_BARKER_PREAMBLE_MODE \<noteq> 0"

definition erp_information :: "ErpProtection \<Rightarrow> bool \<Rightarrow> u8" where
  "erp_information self non_erp_present = erp_bits self OR (if non_erp_present then 1 else 0)"

datatype HtProtectionMode = HtNone | Nonmember | TwentyMhz | NonHtMixed

definition ht_mode_from_field :: "u8 \<Rightarrow> HtProtectionMode" where
  "ht_mode_from_field field =
     (let v = field AND 3
      in if v = 1 then Nonmember else if v = 2 then TwentyMhz else if v = 3 then NonHtMixed else HtNone)"

fun ht_mode_field :: "HtProtectionMode \<Rightarrow> u8" where
  "ht_mode_field HtNone = 0"
| "ht_mode_field Nonmember = 1"
| "ht_mode_field TwentyMhz = 2"
| "ht_mode_field NonHtMixed = 3"

text \<open>A complete 24-octet HT Operation element.\<close>

definition ht_mode_from_operation_ie :: "u8 list option \<Rightarrow> HtProtectionMode" where
  "ht_mode_from_operation_ie operation =
     (case operation of
        None \<Rightarrow> HtNone
      | Some operation \<Rightarrow>
          if operation ! 0 \<noteq> 61 \<or> operation ! 1 \<noteq> 22 then HtNone
          else ht_mode_from_field (operation ! 4))"

record HtOperationProtection =
  op_mode :: HtProtectionMode
  non_greenfield_present :: bool

definition information_byte :: "HtOperationProtection \<Rightarrow> u8" where
  "information_byte self =
     ht_mode_field (op_mode self) OR push_bit 2 (if non_greenfield_present self then 1 else 0)"

record ApBssProtection =
  ap_non_erp_present :: bool
  ap_erp :: ErpProtection
  ap_ht :: HtOperationProtection

definition ap_erp_information :: "ApBssProtection \<Rightarrow> u8" where
  "ap_erp_information self = erp_information (ap_erp self) (ap_non_erp_present self)"

subsection \<open>Thresholds and rate sets\<close>

datatype HeTxopDurationRtsThreshold = HeTxopDurationRtsThreshold (units_32_us: u16)

definition HeTxopDurationRtsThreshold_new :: "u16 \<Rightarrow> HeTxopDurationRtsThreshold option" where
  "HeTxopDurationRtsThreshold_new units =
     (if 0x03ff \<le> units then None
      else if units = 0 then None else Some (HeTxopDurationRtsThreshold units))"

datatype HePacketPadding = PaddingNone | Us8 | Us16

fun padding_micros :: "HePacketPadding \<Rightarrow> u8" where
  "padding_micros PaddingNone = 0"
| "padding_micros Us8 = 8"
| "padding_micros Us16 = 16"

text \<open>\<open>HeTxopRtsBudget\<close>: the one method of the trait.\<close>

type_synonym HeTxopRtsBudget = "HeTxopDurationRtsThreshold \<Rightarrow> HePacketPadding \<Rightarrow> HeRate \<Rightarrow> u16"

definition ProtectEveryHeTxop :: HeTxopRtsBudget where
  "ProtectEveryHeTxop threshold padding rate = 0"

datatype BasicRates = BasicRates (basic_mask: u16)

definition RATE_ORDER :: "(u8 \<times> LegacyRate) list" where
  "RATE_ORDER =
     [(2, Dsss1M), (4, Dsss2M LongPreamble), (11, Cck5M5 LongPreamble), (22, Cck11M LongPreamble),
      (12, Ofdm6M), (18, Ofdm9M), (24, Ofdm12M), (36, Ofdm18M), (48, Ofdm24M), (72, Ofdm36M),
      (96, Ofdm48M), (108, Ofdm54M)]"

definition BasicRates_EMPTY :: BasicRates where "BasicRates_EMPTY = BasicRates 0"

definition ERP_MANDATORY :: BasicRates where "ERP_MANDATORY = BasicRates 0x15f"

definition ERP_MANDATORY_HEAD :: LegacyRate where "ERP_MANDATORY_HEAD = snd (hd RATE_ORDER)"

definition rates_of_mask :: "u16 \<Rightarrow> LegacyRate list" where
  "rates_of_mask m =
     map (snd \<circ> snd) (filter (\<lambda>(index, _). m AND push_bit index 1 \<noteq> 0) (enumerate 0 RATE_ORDER))"

definition basic_from_rate_elements :: "u8 list \<Rightarrow> u8 list \<Rightarrow> BasicRates" where
  "basic_from_rate_elements supported extended =
     BasicRates
       (fold (\<lambda>encoded m.
          if encoded AND 0x80 = 0 then m
          else fold (\<lambda>(index, (units, _)) m.
                 if encoded AND 0x7f = units then m OR push_bit index 1 else m)
               (enumerate 0 RATE_ORDER) m)
        (supported @ extended) 0)"

definition basic_rates_list :: "BasicRates \<Rightarrow> LegacyRate list" where
  "basic_rates_list self = rates_of_mask (basic_mask self)"

record BssProtection =
  bss_erp :: ErpProtection
  bss_ht :: HtProtectionMode
  he_txop_rts_threshold :: "HeTxopDurationRtsThreshold option"
  he_packet_padding :: HePacketPadding
  basic_rates :: BasicRates
  short_preamble :: bool

definition BssProtection_UNPROTECTED :: BssProtection where
  "BssProtection_UNPROTECTED =
     \<lparr>bss_erp = ErpProtection_NONE, bss_ht = HtNone, he_txop_rts_threshold = None,
      he_packet_padding = PaddingNone, basic_rates = BasicRates_EMPTY, short_preamble = False\<rparr>"

datatype RtsLengthThreshold = RtsLengthThreshold (threshold_bytes: u16)

datatype TxReceiver = IndividualReceiver | GroupReceiver

definition from_address1 :: "u8 list \<Rightarrow> TxReceiver" where
  "from_address1 address1 = (if address1 ! 0 AND 1 \<noteq> 0 then GroupReceiver else IndividualReceiver)"

datatype TxPsdu = MpduPsdu (psdu_length: u32) | AmpduPsdu (psdu_length: u32)

record ProtectedPpdu =
  ppdu_rate :: PhyRate
  ppdu_receiver :: TxReceiver
  psdu :: TxPsdu

datatype TxProtectionReasons = TxProtectionReasons (reason_bits: u8)

definition REASON_ERP :: TxProtectionReasons where "REASON_ERP = TxProtectionReasons (push_bit 0 1)"
definition REASON_HT :: TxProtectionReasons where "REASON_HT = TxProtectionReasons (push_bit 1 1)"
definition REASON_HE_TXOP_DURATION :: TxProtectionReasons where
  "REASON_HE_TXOP_DURATION = TxProtectionReasons (push_bit 2 1)"
definition REASON_LENGTH :: TxProtectionReasons where
  "REASON_LENGTH = TxProtectionReasons (push_bit 3 1)"

definition reasons_contains :: "TxProtectionReasons \<Rightarrow> TxProtectionReasons \<Rightarrow> bool" where
  "reasons_contains self other \<longleftrightarrow> reason_bits self AND reason_bits other = reason_bits other"

definition reasons_is_empty :: "TxProtectionReasons \<Rightarrow> bool" where
  "reasons_is_empty self \<longleftrightarrow> reason_bits self = 0"

definition reasons_with ::
    "TxProtectionReasons \<Rightarrow> TxProtectionReasons \<Rightarrow> bool \<Rightarrow> TxProtectionReasons" where
  "reasons_with self other present =
     (if present then TxProtectionReasons (reason_bits self OR reason_bits other) else self)"

datatype TxProtection = Unprotected | CtsToSelf LegacyRate | RtsCts LegacyRate

fun protection_control_rate :: "TxProtection \<Rightarrow> LegacyRate option" where
  "protection_control_rate Unprotected = None"
| "protection_control_rate (CtsToSelf rate) = Some rate"
| "protection_control_rate (RtsCts rate) = Some rate"

fun port_protection :: "TxProtection \<Rightarrow> Protection" where
  "port_protection Unprotected = NoProtection"
| "port_protection (CtsToSelf _) = PortCtsToSelf"
| "port_protection (RtsCts _) = PortRtsCts"

record TxProtectionDecision =
  protection :: TxProtection
  reasons :: TxProtectionReasons

definition TxProtectionDecision_UNPROTECTED :: TxProtectionDecision where
  "TxProtectionDecision_UNPROTECTED =
     \<lparr>protection = Unprotected, reasons = TxProtectionReasons 0\<rparr>"

subsection \<open>The policy\<close>

record ProtectionPolicy =
  policy_bss :: BssProtection
  rts_length_threshold :: "RtsLengthThreshold option"

definition ProtectionPolicy_new :: "RtsLengthThreshold option \<Rightarrow> ProtectionPolicy" where
  "ProtectionPolicy_new threshold =
     \<lparr>policy_bss = BssProtection_UNPROTECTED, rts_length_threshold = threshold\<rparr>"

definition install_bss :: "ProtectionPolicy \<Rightarrow> BssProtection \<Rightarrow> ProtectionPolicy" where
  "install_bss self bss = self\<lparr>policy_bss := bss\<rparr>"

definition set_rts_length_threshold ::
    "ProtectionPolicy \<Rightarrow> RtsLengthThreshold option \<Rightarrow> ProtectionPolicy" where
  "set_rts_length_threshold self threshold = self\<lparr>rts_length_threshold := threshold\<rparr>"

definition clear_bss :: "ProtectionPolicy \<Rightarrow> ProtectionPolicy" where
  "clear_bss self = self\<lparr>policy_bss := BssProtection_UNPROTECTED\<rparr>"

definition select_control_rate :: "LegacyRate \<Rightarrow> LegacyRate list \<Rightarrow> u32 \<Rightarrow> LegacyRate" where
  "select_control_rate first rest data_kbps =
     fold (\<lambda>candidate selected.
         let selected_kbps = kbps selected;
             candidate_kbps = kbps candidate;
             prefer_candidate =
               (case (candidate_kbps \<le> data_kbps, selected_kbps \<le> data_kbps) of
                  (True, True) \<Rightarrow> candidate_kbps > selected_kbps
                | (False, False) \<Rightarrow> candidate_kbps < selected_kbps
                | (True, False) \<Rightarrow> True
                | (False, True) \<Rightarrow> False)
         in if prefer_candidate then candidate else selected)
       rest first"

definition control_rate :: "ProtectionPolicy \<Rightarrow> PhyRate \<Rightarrow> LegacyRate" where
  "control_rate self data =
     (let bss = policy_bss self;
          dsss_only = use_protection (bss_erp bss);
          eligible = (\<lambda>rate. \<not> dsss_only \<or> \<not> is_ofdm rate);
          data_kbps = nominal_kbps data;
          rate =
            (case filter eligible (basic_rates_list (basic_rates bss)) of
               first # advertised \<Rightarrow> select_control_rate first advertised data_kbps
             | [] \<Rightarrow> select_control_rate ERP_MANDATORY_HEAD
                      (drop 1 (filter eligible (basic_rates_list ERP_MANDATORY))) data_kbps);
          short = (short_preamble bss \<and> \<not> long_preamble_required (bss_erp bss))
      in case (rate, short) of
           (Dsss2M _, True) \<Rightarrow> Dsss2M ShortPreamble
         | (Cck5M5 _, True) \<Rightarrow> Cck5M5 ShortPreamble
         | (Cck11M _, True) \<Rightarrow> Cck11M ShortPreamble
         | (rate, _) \<Rightarrow> rate)"

fun ht_protects :: "HtProtectionMode \<Rightarrow> bool \<Rightarrow> bool" where
  "ht_protects HtNone forty_mhz = False"
| "ht_protects TwentyMhz forty_mhz = forty_mhz"
| "ht_protects Nonmember forty_mhz = True"
| "ht_protects NonHtMixed forty_mhz = True"

definition select :: "ProtectionPolicy \<Rightarrow> ProtectedPpdu \<Rightarrow> HeTxopRtsBudget \<Rightarrow> TxProtectionDecision" where
  "select self ppdu he_budget =
     (let bss = policy_bss self;
          individual = (ppdu_receiver ppdu = IndividualReceiver);
          (non_dsss, ht_protected) =
            (case ppdu_rate ppdu of
               Legacy rate \<Rightarrow> (is_ofdm rate, False)
             | Ht rate \<Rightarrow> (True, ht_protects (bss_ht bss) (ht_bandwidth rate = Mhz40))
             | He _ \<Rightarrow> (True, ht_protects (bss_ht bss) False));
          he_txop =
            (case (he_txop_rts_threshold bss, ppdu_rate ppdu) of
               (Some threshold, He rate) \<Rightarrow>
                 psdu_length (psdu ppdu) > ucast (he_budget threshold (he_packet_padding bss) rate)
             | _ \<Rightarrow> False);
          over_length =
            (case psdu ppdu of
               MpduPsdu len \<Rightarrow>
                 (case rts_length_threshold self of
                    Some threshold \<Rightarrow> len > ucast (threshold_bytes threshold)
                  | None \<Rightarrow> False)
             | AmpduPsdu _ \<Rightarrow> False);
          erp = (use_protection (bss_erp bss) \<and> non_dsss);
          reason_set =
            reasons_with (reasons_with (reasons_with (reasons_with (TxProtectionReasons 0)
              REASON_ERP erp) REASON_HT ht_protected)
              REASON_HE_TXOP_DURATION (individual \<and> he_txop)) REASON_LENGTH (individual \<and> over_length);
          rts = (individual \<and> (ht_protected \<or> he_txop \<or> over_length));
          exchange =
            (if rts then RtsCts (control_rate self (ppdu_rate ppdu))
             else if erp \<or> ht_protected then CtsToSelf (control_rate self (ppdu_rate ppdu))
             else Unprotected)
      in \<lparr>protection = exchange, reasons = reason_set\<rparr>)"

subsection \<open>The rates an association admits\<close>

record NegotiatedLegacyRates =
  negotiated_mask :: u16
  negotiated_first :: LegacyRate

definition negotiated_from_rate_elements :: "u8 list \<Rightarrow> u8 list \<Rightarrow> NegotiatedLegacyRates option" where
  "negotiated_from_rate_elements supported extended =
     (case fold (\<lambda>(index, (units, rate)) (m, first).
              if list_ex (\<lambda>encoded. encoded AND 0x7f = units) (supported @ extended)
              then (m OR push_bit index 1, case first of None \<Rightarrow> Some rate | Some f \<Rightarrow> Some f)
              else (m, first))
            (enumerate 0 RATE_ORDER) (0, None) of
        (m, first) \<Rightarrow>
          map_option (\<lambda>first. \<lparr>negotiated_mask = m, negotiated_first = first\<rparr>) first)"

definition negotiated_rates :: "NegotiatedLegacyRates \<Rightarrow> LegacyRate list" where
  "negotiated_rates self = rates_of_mask (negotiated_mask self)"

definition negotiated_contains :: "NegotiatedLegacyRates \<Rightarrow> LegacyRate \<Rightarrow> bool" where
  "negotiated_contains self rate =
     list_ex (\<lambda>candidate. kbps candidate = kbps rate) (negotiated_rates self)"

definition has_ofdm :: "NegotiatedLegacyRates \<Rightarrow> bool" where
  "has_ofdm self = list_ex is_ofdm (negotiated_rates self)"

definition constrain :: "NegotiatedLegacyRates \<Rightarrow> LegacyRate \<Rightarrow> LegacyRate" where
  "constrain self proposed =
     (if negotiated_contains self proposed then proposed
      else
        (let slowest = fold (\<lambda>b a. if kbps b < kbps a then b else a) (negotiated_rates self)
                         (negotiated_first self)
         in fold (\<lambda>b a. if kbps b > kbps a then b else a)
              (filter (\<lambda>rate. kbps rate \<le> kbps proposed) (negotiated_rates self)) slowest))"

subsection \<open>Choosing a control-frame rate\<close>

text \<open>The preference \<open>select_control_rate\<close> folds with, and the best candidate under it.\<close>

definition prefers :: "u32 \<Rightarrow> LegacyRate \<Rightarrow> LegacyRate \<Rightarrow> bool" where
  "prefers data c s \<longleftrightarrow>
     (if kbps c \<le> data then kbps s \<le> data \<longrightarrow> kbps s < kbps c
      else \<not> kbps s \<le> data \<and> kbps c < kbps s)"

lemma select_control_rate_Cons:
  "select_control_rate first (x # xs) data
     = select_control_rate (if prefers data x first then x else first) xs data"
proof -
  have "(\<lambda>candidate selected.
         let selected_kbps = kbps selected;
             candidate_kbps = kbps candidate;
             prefer_candidate =
               (case (candidate_kbps \<le> data, selected_kbps \<le> data) of
                  (True, True) \<Rightarrow> candidate_kbps > selected_kbps
                | (False, False) \<Rightarrow> candidate_kbps < selected_kbps
                | (True, False) \<Rightarrow> True
                | (False, True) \<Rightarrow> False)
         in if prefer_candidate then candidate else selected)
     = (\<lambda>c s. if prefers data c s then c else s)"
    by (intro ext) (auto simp: prefers_def Let_def split: bool.split)
  then show ?thesis by (simp add: select_control_rate_def)
qed

lemma not_prefers_trans: "\<not> prefers d a b \<Longrightarrow> \<not> prefers d b c \<Longrightarrow> \<not> prefers d a c"
  by (auto simp: prefers_def split: if_splits)

lemma select_control_rate_best:
  "select_control_rate first rest data \<in> set (first # rest)
   \<and> (\<forall>c\<in>set (first # rest). \<not> prefers data c (select_control_rate first rest data))"
proof (induction rest arbitrary: first)
  case Nil
  then show ?case by (simp add: select_control_rate_def prefers_def)
next
  case (Cons x xs)
  let ?f = "if prefers data x first then x else first"
  let ?r = "select_control_rate ?f xs data"
  have r: "?r \<in> set (?f # xs)" "\<not> prefers data ?f ?r" "\<forall>c\<in>set xs. \<not> prefers data c ?r"
    using Cons [of ?f] by simp_all
  have "\<not> prefers data x ?f" "\<not> prefers data first ?f"
    by (auto simp: prefers_def split: if_splits)
  with r(2) have "\<not> prefers data x ?r" "\<not> prefers data first ?r"
    using not_prefers_trans by blast+
  with r show ?case by (auto simp: select_control_rate_Cons split: if_splits)
qed

text \<open>The rates a policy may choose from: the eligible basic rates, or the mandatory ones without any.\<close>

definition control_candidates :: "ProtectionPolicy \<Rightarrow> LegacyRate list" where
  "control_candidates p =
     (let eligible = (\<lambda>rate. use_protection (bss_erp (policy_bss p)) \<longrightarrow> \<not> is_ofdm rate);
          basic = filter eligible (basic_rates_list (basic_rates (policy_bss p)))
      in if basic = [] then filter eligible (basic_rates_list ERP_MANDATORY) else basic)"

lemma mandatory_rates:
  "basic_rates_list ERP_MANDATORY
     = [Dsss1M, Dsss2M LongPreamble, Cck5M5 LongPreamble, Cck11M LongPreamble, Ofdm6M, Ofdm12M, Ofdm24M]"
  by code_simp

lemma rates_of_mask_long:
  "set (rates_of_mask m) \<subseteq> snd ` set RATE_ORDER"
  by (auto simp: rates_of_mask_def in_set_enumerate_eq image_def)

fun short_form :: "LegacyRate \<Rightarrow> LegacyRate" where
  "short_form (Dsss2M _) = Dsss2M ShortPreamble"
| "short_form (Cck5M5 _) = Cck5M5 ShortPreamble"
| "short_form (Cck11M _) = Cck11M ShortPreamble"
| "short_form rate = rate"

lemma short_form_case:
  "(case (rate, short) of
      (Dsss2M _, True) \<Rightarrow> Dsss2M ShortPreamble
    | (Cck5M5 _, True) \<Rightarrow> Cck5M5 ShortPreamble
    | (Cck11M _, True) \<Rightarrow> Cck11M ShortPreamble
    | (rate, _) \<Rightarrow> rate) = (if short then short_form rate else rate)"
  by (cases rate; cases short) simp_all

lemma short_form_reads [simp]: "kbps (short_form r) = kbps r" "is_ofdm (short_form r) = is_ofdm r"
  by (cases r; simp add: is_ofdm_def)+

lemma control_rate_chosen:
  obtains first rest where "control_candidates p = first # rest"
    "kbps (control_rate p d) = kbps (select_control_rate first rest (nominal_kbps d))"
    "is_ofdm (control_rate p d) = is_ofdm (select_control_rate first rest (nominal_kbps d))"
proof -
  let ?e = "\<lambda>rate. use_protection (bss_erp (policy_bss p)) \<longrightarrow> \<not> is_ofdm rate"
  have man: "filter ?e (basic_rates_list ERP_MANDATORY)
      = ERP_MANDATORY_HEAD # drop 1 (filter ?e (basic_rates_list ERP_MANDATORY))"
    by (simp add: mandatory_rates ERP_MANDATORY_HEAD_def RATE_ORDER_def is_ofdm_def)
  obtain first rest where c: "control_candidates p = first # rest"
    "(case filter ?e (basic_rates_list (basic_rates (policy_bss p))) of
        first # advertised \<Rightarrow> select_control_rate first advertised (nominal_kbps d)
      | [] \<Rightarrow> select_control_rate ERP_MANDATORY_HEAD
          (drop 1 (filter ?e (basic_rates_list ERP_MANDATORY))) (nominal_kbps d))
      = select_control_rate first rest (nominal_kbps d)"
    using man by (cases "filter ?e (basic_rates_list (basic_rates (policy_bss p)))")
      (auto simp: control_candidates_def Let_def)
  let ?short = "short_preamble (policy_bss p) \<and> \<not> long_preamble_required (bss_erp (policy_bss p))"
  have "control_rate p d = (if ?short then short_form (select_control_rate first rest (nominal_kbps d))
      else select_control_rate first rest (nominal_kbps d))"
    using c(2) unfolding control_rate_def Let_def short_form_case imp_conv_disj by simp
  with c(1) show thesis by (intro that [of first rest]) simp_all
qed

lemma best_is_extreme:
  assumes fin: "finite C" and r: "r \<in> C" and best: "\<forall>c\<in>C. \<not> prefers data c r"
  shows "if \<exists>c\<in>C. kbps c \<le> data then kbps r = Max (kbps ` {c \<in> C. kbps c \<le> data})
    else kbps r = Min (kbps ` C)"
proof (cases "\<exists>c\<in>C. kbps c \<le> data")
  case True
  then obtain c0 where "c0 \<in> C" "kbps c0 \<le> data" by blast
  with best have le: "kbps r \<le> data" by (auto simp: prefers_def)
  have "Max (kbps ` {c \<in> C. kbps c \<le> data}) = kbps r"
  proof (rule Max_eqI)
    fix y assume "y \<in> kbps ` {c \<in> C. kbps c \<le> data}"
    then obtain c where "c \<in> C" "kbps c \<le> data" "y = kbps c" by blast
    with best have "\<not> prefers data c r" by blast
    with \<open>kbps c \<le> data\<close> le \<open>y = kbps c\<close> show "y \<le> kbps r" by (simp add: prefers_def not_less)
  qed (use fin r le in simp_all)
  with True show ?thesis by simp
next
  case False
  have "Min (kbps ` C) = kbps r"
  proof (rule Min_eqI)
    fix y assume "y \<in> kbps ` C"
    then obtain c where c: "c \<in> C" "y = kbps c" by blast
    with best have "\<not> prefers data c r" by blast
    moreover have "\<not> kbps c \<le> data" "\<not> kbps r \<le> data" using False c r by blast+
    ultimately show "kbps r \<le> y" using c by (simp add: prefers_def not_less)
  qed (use fin r in simp_all)
  with False show ?thesis by simp
qed

subsection \<open>Properties of the selection\<close>

text \<open>
  The control frame goes at the best rate everybody can decode.  Its rate is one of the eligible
  basic rates of the BSS (of the ERP mandatory set where the BSS names none), never an OFDM rate
  under ERP protection, and the best of them: the fastest that is no faster than the data rate, or
  the slowest when all are faster.
\<close>

theorem control_rate_is_best:
  "kbps (control_rate p d) \<in> kbps ` set (control_candidates p)
   \<and> \<not> (use_protection (bss_erp (policy_bss p)) \<and> is_ofdm (control_rate p d))
   \<and> (if \<exists>c\<in>set (control_candidates p). kbps c \<le> nominal_kbps d
      then kbps (control_rate p d)
        = Max (kbps ` {c \<in> set (control_candidates p). kbps c \<le> nominal_kbps d})
      else kbps (control_rate p d) = Min (kbps ` set (control_candidates p)))"
proof -
  obtain first rest where c: "control_candidates p = first # rest"
    "kbps (control_rate p d) = kbps (select_control_rate first rest (nominal_kbps d))"
    "is_ofdm (control_rate p d) = is_ofdm (select_control_rate first rest (nominal_kbps d))"
    by (rule control_rate_chosen)
  let ?r = "select_control_rate first rest (nominal_kbps d)" and ?C = "set (control_candidates p)"
  have r: "?r \<in> ?C" and best: "\<forall>c\<in>?C. \<not> prefers (nominal_kbps d) c ?r"
    using select_control_rate_best [of first rest "nominal_kbps d"] by (simp_all add: c(1))
  have "\<forall>c\<in>?C. use_protection (bss_erp (policy_bss p)) \<longrightarrow> \<not> is_ofdm c"
    by (auto simp: control_candidates_def Let_def split: if_splits)
  then have "\<not> (use_protection (bss_erp (policy_bss p)) \<and> is_ofdm ?r)" using r by blast
  moreover note best_is_extreme [OF finite_set r best]
  moreover have "kbps ?r \<in> kbps ` ?C" using r by (rule imageI)
  ultimately show ?thesis unfolding c(2,3) by (intro conjI)
qed

definition reason_word :: "bool \<Rightarrow> bool \<Rightarrow> bool \<Rightarrow> bool \<Rightarrow> u8" where
  "reason_word erp ht he len = (if erp then 1 else 0) OR (if ht then 2 else 0)
     OR (if he then 4 else 0) OR (if len then 8 else 0)"

lemma reason_words:
  "reason_bits (reasons_with (reasons_with (reasons_with (reasons_with (TxProtectionReasons 0)
      REASON_ERP erp) REASON_HT ht) REASON_HE_TXOP_DURATION he) REASON_LENGTH len)
   = reason_word erp ht he len"
  by (cases erp; cases ht; cases he; cases len)
     (simp_all add: reasons_with_def REASON_ERP_def REASON_HT_def REASON_HE_TXOP_DURATION_def
       REASON_LENGTH_def reason_word_def)

lemma reason_word_reads:
  "reason_word erp ht he len = 0 \<longleftrightarrow> \<not> (erp \<or> ht \<or> he \<or> len)"
  "reason_word erp ht he len AND 1 = 1 \<longleftrightarrow> erp" "reason_word erp ht he len AND 2 = 2 \<longleftrightarrow> ht"
  "reason_word erp ht he len AND 4 = 4 \<longleftrightarrow> he" "reason_word erp ht he len AND 8 = 8 \<longleftrightarrow> len"
  by (cases erp; cases ht; cases he; cases len; simp add: reason_word_def)+

lemma four_reasons:
  fixes erp ht he len :: bool
  defines "rs \<equiv> reasons_with (reasons_with (reasons_with (reasons_with (TxProtectionReasons 0)
      REASON_ERP erp) REASON_HT ht) REASON_HE_TXOP_DURATION he) REASON_LENGTH len"
  shows "reasons_is_empty rs \<longleftrightarrow> \<not> (erp \<or> ht \<or> he \<or> len)"
    "reasons_contains rs REASON_ERP = erp" "reasons_contains rs REASON_HT = ht"
    "reasons_contains rs REASON_HE_TXOP_DURATION = he" "reasons_contains rs REASON_LENGTH = len"
  unfolding rs_def reasons_is_empty_def reasons_contains_def reason_words
  by (simp_all add: reason_word_reads REASON_ERP_def REASON_HT_def REASON_HE_TXOP_DURATION_def
      REASON_LENGTH_def)

text \<open>The four sources of protection, as conditions on the policy and the PPDU.\<close>

definition erp_applies :: "ProtectionPolicy \<Rightarrow> ProtectedPpdu \<Rightarrow> bool" where
  "erp_applies p ppdu \<longleftrightarrow> use_protection (bss_erp (policy_bss p))
     \<and> (case ppdu_rate ppdu of Legacy r \<Rightarrow> is_ofdm r | _ \<Rightarrow> True)"

definition ht_applies :: "ProtectionPolicy \<Rightarrow> ProtectedPpdu \<Rightarrow> bool" where
  "ht_applies p ppdu \<longleftrightarrow>
     (case ppdu_rate ppdu of
        Legacy _ \<Rightarrow> False
      | Ht rate \<Rightarrow> ht_protects (bss_ht (policy_bss p)) (ht_bandwidth rate = Mhz40)
      | He _ \<Rightarrow> ht_protects (bss_ht (policy_bss p)) False)"

definition he_applies :: "ProtectionPolicy \<Rightarrow> ProtectedPpdu \<Rightarrow> HeTxopRtsBudget \<Rightarrow> bool" where
  "he_applies p ppdu budget \<longleftrightarrow>
     (case (he_txop_rts_threshold (policy_bss p), ppdu_rate ppdu) of
        (Some threshold, He rate) \<Rightarrow>
          psdu_length (psdu ppdu) > ucast (budget threshold (he_packet_padding (policy_bss p)) rate)
      | _ \<Rightarrow> False)"

definition length_applies :: "ProtectionPolicy \<Rightarrow> ProtectedPpdu \<Rightarrow> bool" where
  "length_applies p ppdu \<longleftrightarrow>
     (case (psdu ppdu, rts_length_threshold p) of
        (MpduPsdu len, Some threshold) \<Rightarrow> len > ucast (threshold_bytes threshold)
      | _ \<Rightarrow> False)"

lemma select_eq:
  fixes p ppdu budget
  defines "ind \<equiv> ppdu_receiver ppdu = IndividualReceiver" and "rate \<equiv> control_rate p (ppdu_rate ppdu)"
    and "erp \<equiv> erp_applies p ppdu" and "ht \<equiv> ht_applies p ppdu"
    and "he \<equiv> he_applies p ppdu budget" and "len \<equiv> length_applies p ppdu"
  shows "select p ppdu budget =
    \<lparr>protection = (if ind \<and> (ht \<or> he \<or> len) then RtsCts rate
       else if erp \<or> ht then CtsToSelf rate else Unprotected),
     reasons = reasons_with (reasons_with (reasons_with (reasons_with (TxProtectionReasons 0)
       REASON_ERP erp) REASON_HT ht) REASON_HE_TXOP_DURATION (ind \<and> he)) REASON_LENGTH (ind \<and> len)\<rparr>"
proof -
  have len: "length_applies p ppdu = (case psdu ppdu of
               MpduPsdu len \<Rightarrow>
                 (case rts_length_threshold p of
                    Some threshold \<Rightarrow> len > ucast (threshold_bytes threshold)
                  | None \<Rightarrow> False)
             | AmpduPsdu _ \<Rightarrow> False)"
    by (simp add: length_applies_def split: TxPsdu.split option.split)
  have pair: "(case ppdu_rate ppdu of
               Legacy rate \<Rightarrow> (is_ofdm rate, False)
             | Ht rate \<Rightarrow> (True, ht_protects (bss_ht (policy_bss p)) (ht_bandwidth rate = Mhz40))
             | He _ \<Rightarrow> (True, ht_protects (bss_ht (policy_bss p)) False))
      = ((case ppdu_rate ppdu of Legacy r \<Rightarrow> is_ofdm r | _ \<Rightarrow> True), ht_applies p ppdu)"
    by (simp add: ht_applies_def split: PhyRate.split)
  show ?thesis
    unfolding select_def Let_def pair prod.case
    by (simp only: ind_def rate_def erp_def ht_def he_def len_def erp_applies_def he_applies_def len prod.case)
qed

text \<open>
  A PPDU is protected exactly for a stated reason, in the way its receiver can answer.  It is
  unprotected exactly when no reason applies; it is preceded by RTS/CTS exactly when it is
  individually addressed and the reason is the HT protection mode, the HE TXOP threshold or the
  length threshold, and by CTS-to-self for every other reason, so that a group-addressed PPDU never
  carries an RTS; an A-MPDU is never protected for its length; and the control frame goes at the
  policy's control rate.
\<close>

theorem protection_follows_reasons:
  "let d = select p ppdu budget; individual = (ppdu_receiver ppdu = IndividualReceiver) in
   (protection d = Unprotected \<longleftrightarrow> reasons_is_empty (reasons d))
   \<and> (port_protection (protection d) = PortRtsCts
      \<longleftrightarrow> individual \<and> (reasons_contains (reasons d) REASON_HT
           \<or> reasons_contains (reasons d) REASON_HE_TXOP_DURATION
           \<or> reasons_contains (reasons d) REASON_LENGTH))
   \<and> protection_control_rate (protection d) \<in> {None, Some (control_rate p (ppdu_rate ppdu))}
   \<and> (reasons_contains (reasons d) REASON_ERP = erp_applies p ppdu)
   \<and> (reasons_contains (reasons d) REASON_HT = ht_applies p ppdu)
   \<and> (reasons_contains (reasons d) REASON_HE_TXOP_DURATION = (individual \<and> he_applies p ppdu budget))
   \<and> (reasons_contains (reasons d) REASON_LENGTH = (individual \<and> length_applies p ppdu))
   \<and> \<not> (length_applies p ppdu \<and> (\<exists>n. psdu ppdu = AmpduPsdu n))"
proof -
  have "\<not> (length_applies p ppdu \<and> (\<exists>n. psdu ppdu = AmpduPsdu n))"
    by (auto simp: length_applies_def)
  then show ?thesis
    unfolding Let_def select_eq by (simp add: four_reasons)
qed


subsection \<open>Properties of the admitted rates\<close>

lemma member_rates_of_mask:
  "r \<in> set (rates_of_mask m) \<longleftrightarrow> (\<exists>i u. (i, u, r) \<in> set (enumerate 0 RATE_ORDER) \<and> bit m i)"
  by (force simp: rates_of_mask_def push_bit_eq_mult test_bit_mask)

text \<open>The scan over the rate table.\<close>

definition admit_rate ::
    "(u8 \<Rightarrow> bool) \<Rightarrow> nat \<times> u8 \<times> LegacyRate \<Rightarrow> u16 \<times> LegacyRate option \<Rightarrow> u16 \<times> LegacyRate option" where
  "admit_rate P = (\<lambda>(index, (units, rate)) (m, first).
     if P units then (m OR push_bit index 1, case first of None \<Rightarrow> Some rate | Some f \<Rightarrow> Some f)
     else (m, first))"

lemma admit_rates_first:
  "snd (fold (admit_rate P) xs (m, f))
     = (case f of Some r \<Rightarrow> Some r | None \<Rightarrow> map_option (snd \<circ> snd) (find (\<lambda>(i, u, r). P u) xs))"
  by (induction xs arbitrary: m f) (auto simp: admit_rate_def split: option.split)

lemma admit_rates_mask:
  assumes "\<forall>x\<in>set xs. fst x < 16"
  shows "bit (fst (fold (admit_rate P) xs (m, f))) i
    \<longleftrightarrow> bit m i \<or> (\<exists>u r. (i, u, r) \<in> set xs \<and> P u)"
  using assms
proof (induction xs arbitrary: m f)
  case (Cons x xs)
  then show ?case by (cases x) (auto simp: admit_rate_def bit_simps)
qed simp

lemma enumerate_index_unique:
  "(i, u, r) \<in> set (enumerate n xs) \<Longrightarrow> (i, u', r') \<in> set (enumerate n xs) \<Longrightarrow> u = u'"
  by (auto simp: in_set_enumerate_eq)

lemma ex_enumerate: "(\<exists>i. (i, x) \<in> set (enumerate n xs)) \<longleftrightarrow> x \<in> set xs"
proof -
  have "(\<exists>i. (i, x) \<in> S) \<longleftrightarrow> x \<in> snd ` S" for S :: "(nat \<times> 'a) set" by force
  then show ?thesis by (metis list.set_map map_snd_enumerate)
qed

lemma RATE_ORDER_small: "x \<in> set (enumerate 0 RATE_ORDER) \<Longrightarrow> fst x < 16"
  by (auto simp: in_set_enumerate_eq RATE_ORDER_def)

lemma negotiated_scan:
  assumes "negotiated_from_rate_elements supported extended = Some n"
  defines "P \<equiv> \<lambda>units. list_ex (\<lambda>encoded. encoded AND 0x7f = units) (supported @ extended)"
  shows "fold (admit_rate P) (enumerate 0 RATE_ORDER) (0, None)
    = (negotiated_mask n, Some (negotiated_first n))"
  using assms(1) unfolding negotiated_from_rate_elements_def admit_rate_def P_def
  by (auto split: prod.splits simp del: list_ex_append)

lemma negotiated_iff:
  assumes "negotiated_from_rate_elements supported extended = Some n"
  shows "r \<in> set (negotiated_rates n) \<longleftrightarrow>
      (\<exists>i u. (i, u, r) \<in> set (enumerate 0 RATE_ORDER)
        \<and> list_ex (\<lambda>encoded. encoded AND 0x7f = u) (supported @ extended))"
proof -
  let ?P = "\<lambda>units. list_ex (\<lambda>encoded. encoded AND 0x7f = units) (supported @ extended)"
  have bits: "bit (negotiated_mask n) i \<longleftrightarrow> (\<exists>u r. (i, u, r) \<in> set (enumerate 0 RATE_ORDER) \<and> ?P u)" for i
    using admit_rates_mask [of "enumerate 0 RATE_ORDER" ?P 0 None i] RATE_ORDER_small
    unfolding negotiated_scan [OF assms] by simp
  show ?thesis
    unfolding negotiated_rates_def member_rates_of_mask bits
    by (metis (mono_tags, lifting) enumerate_index_unique)
qed

lemma admitted_rates:
  assumes "negotiated_from_rate_elements supported extended = Some n"
  shows "r \<in> set (negotiated_rates n) \<longleftrightarrow>
      (\<exists>e\<in>set (supported @ extended). (e AND 0x7f, r) \<in> set RATE_ORDER)"
    and "negotiated_first n \<in> set (negotiated_rates n)"
proof -
  let ?P = "\<lambda>units. list_ex (\<lambda>encoded. encoded AND 0x7f = units) (supported @ extended)"
  show "r \<in> set (negotiated_rates n) \<longleftrightarrow>
      (\<exists>e\<in>set (supported @ extended). (e AND 0x7f, r) \<in> set RATE_ORDER)"
    unfolding negotiated_iff [OF assms] list_ex_iff ex_enumerate [symmetric, of _ RATE_ORDER 0] by blast
  have "map_option (snd \<circ> snd) (find (\<lambda>(i, u, r). ?P u) (enumerate 0 RATE_ORDER))
      = Some (negotiated_first n)"
    using admit_rates_first [of ?P "enumerate 0 RATE_ORDER" 0 None]
    unfolding negotiated_scan [OF assms] by simp
  then obtain i u where "find (\<lambda>(i, u, r). ?P u) (enumerate 0 RATE_ORDER) = Some (i, u, negotiated_first n)"
    by (auto simp: map_option_eq_Some)
  then have "(i, u, negotiated_first n) \<in> set (enumerate 0 RATE_ORDER) \<and> ?P u"
    using find_SomeD by fastforce
  then show "negotiated_first n \<in> set (negotiated_rates n)" unfolding negotiated_iff [OF assms] by blast
qed

lemma fold_slowest:
  "fold (\<lambda>b a. if kbps b < kbps a then b else a) xs f \<in> set (f # xs)
   \<and> (\<forall>x\<in>set (f # xs). kbps (fold (\<lambda>b a. if kbps b < kbps a then b else a) xs f) \<le> kbps x)"
proof (induction xs arbitrary: f)
  case (Cons x xs)
  from Cons [of "if kbps x < kbps f then x else f"] show ?case
    by (auto simp: not_less split: if_splits)
qed simp

lemma fold_fastest:
  "fold (\<lambda>b a. if kbps b > kbps a then b else a) xs f \<in> set (f # xs)
   \<and> (\<forall>x\<in>set (f # xs). kbps x \<le> kbps (fold (\<lambda>b a. if kbps b > kbps a then b else a) xs f))"
proof (induction xs arbitrary: f)
  case (Cons x xs)
  from Cons [of "if kbps x > kbps f then x else f"] show ?case
    by (auto simp: not_less split: if_splits)
qed simp

text \<open>
  The negotiated legacy rates are those the elements advertise, and a proposed rate is moved into
  them as little as possible.  A rate is in the set exactly when some entry of either element encodes
  it; a constrained rate is always of the set; a proposed rate of the set is kept as it is, another
  becomes the fastest slower one, or the slowest of all where the set has none slower.
\<close>

theorem constrained_rate_is_admitted:
  assumes "negotiated_from_rate_elements supported extended = Some n"
  shows "let r = constrain n proposed; S = set (negotiated_rates n) in
    S = {rate. \<exists>e\<in>set (supported @ extended). (e AND 0x7f, rate) \<in> set RATE_ORDER}
    \<and> negotiated_contains n r
    \<and> (if negotiated_contains n proposed then r = proposed
       else if \<exists>c\<in>S. kbps c \<le> kbps proposed
       then kbps r = Max (kbps ` {c \<in> S. kbps c \<le> kbps proposed})
       else kbps r = Min (kbps ` S))"
proof -
  define r where "r = constrain n proposed"
  define S where "S = set (negotiated_rates n)"
  have S: "S = {rate. \<exists>e\<in>set (supported @ extended). (e AND 0x7f, rate) \<in> set RATE_ORDER}"
    unfolding S_def using admitted_rates(1) [OF assms(1)] by blast
  show ?thesis
  proof (cases "negotiated_contains n proposed")
    case True
    then show ?thesis using S by (simp add: constrain_def S_def)
  next
    case False
    define slowest where "slowest = fold (\<lambda>b a. if kbps b < kbps a then b else a) (negotiated_rates n)
      (negotiated_first n)"
    define below where "below = filter (\<lambda>rate. kbps rate \<le> kbps proposed) (negotiated_rates n)"
    have slow: "slowest \<in> S" "\<forall>x\<in>S. kbps slowest \<le> kbps x"
      using fold_slowest [of "negotiated_rates n" "negotiated_first n"] admitted_rates(2) [OF assms(1)]
      by (auto simp: slowest_def S_def)
    have r: "r = fold (\<lambda>b a. if kbps b > kbps a then b else a) below slowest"
      using False by (simp add: r_def constrain_def slowest_def below_def)
    have B: "set below = {c \<in> S. kbps c \<le> kbps proposed}" by (auto simp: below_def S_def)
    have fast: "r \<in> set (slowest # below)" "\<forall>x\<in>set (slowest # below). kbps x \<le> kbps r"
      using fold_fastest [of below slowest] by (simp_all add: r)
    have "r \<in> S" using fast(1) slow(1) B by auto
    moreover have "kbps r = Max (kbps ` set below)" if "set below \<noteq> {}"
    proof -
      have "kbps slowest \<le> kbps proposed" using that slow(2) B by (auto intro: order.trans)
      then have "r \<in> set below" using fast(1) slow(1) B by auto
      then show ?thesis using fast(2) by (intro Max_eqI [symmetric]) auto
    qed
    moreover have "kbps r = Min (kbps ` S)" if "set below = {}"
      using that fast slow by (intro Min_eqI [symmetric]) (auto simp: S_def)
    ultimately have "negotiated_contains n r
        \<and> (if \<exists>c\<in>S. kbps c \<le> kbps proposed
          then kbps r = Max (kbps ` {c \<in> S. kbps c \<le> kbps proposed}) else kbps r = Min (kbps ` S))"
      using B by (auto simp: negotiated_contains_def list_ex_iff S_def)
    with False S show ?thesis unfolding Let_def r_def [symmetric] S_def [symmetric] by simp
  qed
qed

theorem constrained_rate_is_admitted_witness:
  "\<exists>n. negotiated_from_rate_elements [0x82, 0x84, 0x96] [0x0c, 0x30] = Some n
     \<and> constrain n Ofdm54M = Ofdm24M \<and> kbps Ofdm24M = Max (kbps ` set (negotiated_rates n))"
proof -
  define n where "n = \<lparr>negotiated_mask = 0x11b, negotiated_first = Dsss1M\<rparr>"
  have n: "negotiated_from_rate_elements [0x82, 0x84, 0x96] [0x0c, 0x30] = Some n"
    and r: "constrain n Ofdm54M = Ofdm24M" "\<not> negotiated_contains n Ofdm54M"
      "list_all (\<lambda>c. kbps c \<le> kbps Ofdm54M) (negotiated_rates n)" "negotiated_rates n \<noteq> []"
    unfolding n_def by code_simp+
  have "{c \<in> set (negotiated_rates n). kbps c \<le> kbps Ofdm54M} = set (negotiated_rates n)"
    using r(3) by (auto simp: list_all_iff)
  moreover have "\<exists>c\<in>set (negotiated_rates n). kbps c \<le> kbps Ofdm54M"
    using r(3,4) by (cases "negotiated_rates n") (auto simp: list_all_iff)
  ultimately show ?thesis
    using constrained_rate_is_admitted [OF n, of Ofdm54M] n r(1,2) by (auto simp: Let_def)
qed

end
