(* ===== verification/Tx_Planner.thy ===== *)
theory Tx_Planner
  imports Ampdu_Retry Mpdu_Retry Tx_Protection Wmm_Qos
begin

text \<open>
  The transmit planner, \<open>crates/protocols/ieee80211/upper-mac/src/tx.rs\<close>: one frame exchange as a
  sequence of lower-MAC attempts.  \<open>planner_begin\<close> returns an exchange and its first attempt,
  \<open>planner_complete\<close> takes what the hardware reported of an attempt and returns the next one or the
  exchange's report.  The planner's own fields are only read.
\<close>

record PublicationReport =
  pub_status :: TxStatus
  pub_ack_snr_db :: "u8 option"
  pub_block_ack :: "BlockAckReport option"

definition AMPDU_DELIMITER :: u32 where "AMPDU_DELIMITER = 4"

subsection \<open>Requests\<close>

record MpduRequest =
  mpdu_request_length :: u32
  mpdu_response :: TxResponse

record AmpduRequest =
  req_tid :: u8
  req_first_sequence :: SequenceNumber
  req_subframes :: u8
  req_lengths :: "u16 list"
  req_committed_at :: RadioInstant
  req_block_ack_operational :: bool

definition AmpduRequest_new ::
    "u8 \<Rightarrow> SequenceNumber \<Rightarrow> u16 list \<Rightarrow> RadioInstant \<Rightarrow> bool \<Rightarrow> AmpduRequest option" where
  "AmpduRequest_new tid sequence lengths committed_at operational =
     (if lengths = [] \<or> length lengths > unat MAX_AMPDU_SUBFRAMES then None
      else Some \<lparr>req_tid = tid, req_first_sequence = sequence, req_subframes = of_nat (length lengths),
                req_lengths = lengths @ drop (length lengths) (replicate (unat MAX_AMPDU_SUBFRAMES) 0),
                req_committed_at = committed_at, req_block_ack_operational = operational\<rparr>)"

definition request_sequence :: "AmpduRequest \<Rightarrow> u8 \<Rightarrow> SequenceNumber" where
  "request_sequence self index = wrapping_add (req_first_sequence self) (ucast index)"

definition mpdu_length :: "AmpduRequest \<Rightarrow> u8 \<Rightarrow> u32 option" where
  "mpdu_length self index =
     (let lengths = take (unat (req_subframes self)) (req_lengths self)
      in if unat index < length lengths then Some (ucast (lengths ! unat index)) else None)"

definition next_multiple_of_4 :: "u32 \<Rightarrow> u32" where
  "next_multiple_of_4 x = (if x mod 4 = 0 then x else x + (4 - x mod 4))"

fun aggregate_length_loop :: "u16 list \<Rightarrow> u32 \<Rightarrow> u32" where
  "aggregate_length_loop [] len = len"
| "aggregate_length_loop (mpdu # selected) len =
     (let subframe = saturating_add AMPDU_DELIMITER (ucast mpdu)
      in aggregate_length_loop selected
           (saturating_add len (if selected = [] then subframe else next_multiple_of_4 subframe)))"

definition aggregate_length :: "AmpduRequest \<Rightarrow> u64 \<Rightarrow> u32" where
  "aggregate_length self m =
     aggregate_length_loop
       (map snd (filter (\<lambda>(index, _). m AND push_bit index 1 \<noteq> 0)
         (enumerate 0 (take (unat (req_subframes self)) (req_lengths self))))) 0"

datatype TxBody = MpduBody MpduRequest | AmpduBody AmpduRequest

record RequestContext =
  ctx_access_category :: WmmAccessCategory
  ctx_initial_rate :: PhyRate
  ctx_receiver :: TxReceiver
  ctx_power :: TxPower
  ctx_coex :: CoexPriority
  ctx_mpdu_retry_limit :: u8

record TxRequest =
  request_access_category :: WmmAccessCategory
  request_initial_rate :: PhyRate
  request_receiver :: TxReceiver
  request_power :: TxPower
  request_coex :: CoexPriority
  request_mpdu_retry_limit :: u8
  request_body :: TxBody

definition from_request :: "TxRequest \<Rightarrow> RequestContext" where
  "from_request request =
     \<lparr>ctx_access_category = request_access_category request,
      ctx_initial_rate = request_initial_rate request, ctx_receiver = request_receiver request,
      ctx_power = request_power request, ctx_coex = request_coex request,
      ctx_mpdu_retry_limit = request_mpdu_retry_limit request\<rparr>"

definition context_request :: "RequestContext \<Rightarrow> TxBody \<Rightarrow> TxRequest" where
  "context_request self body =
     \<lparr>request_access_category = ctx_access_category self,
      request_initial_rate = ctx_initial_rate self, request_receiver = ctx_receiver self,
      request_power = ctx_power self, request_coex = ctx_coex self,
      request_mpdu_retry_limit = ctx_mpdu_retry_limit self, request_body = body\<rparr>"

subsection \<open>Attempts and reports\<close>

datatype AttemptContent =
    MpduContent bool
  | AmpduContent (content_subframes: u64) (content_retry: u64)
  | SubframeContent u8
  | BlockAckRequestContent u8 SequenceNumber

record TxAttemptPlan =
  plan_access_category :: WmmAccessCategory
  plan_rate :: PhyRate
  plan_protection :: TxProtectionDecision
  plan_power :: TxPower
  plan_coex :: CoexPriority
  plan_content :: AttemptContent

datatype TxReport = MpduReport "PhyRate MacTxStatus" | AmpduReport "PhyRate MacAmpduTxStatus"

datatype TxStep = AttemptStep TxAttemptPlan | DoneStep TxReport

datatype TxPlanError =
    RetryError RetryStateError
  | AmpduError AmpduRetryError
  | SubframeOutsideAggregate

datatype Live =
    LiveMpdu MpduRetryState MpduRequest
  | LiveAggregate AmpduRetryState AmpduRequest
  | LiveBlockAckRequest AmpduRetryState AmpduRequest
  | LiveIndividual AmpduRetryState u64 MpduRetryState AmpduRequest u32

datatype Phase = PhaseLive Live | PhaseDone TxReport TxBody

record TxExchange =
  ex_context :: RequestContext
  ex_phase :: Phase
  ex_transmitted :: u64
  ex_rate :: PhyRate
  ex_aggregate :: u64
  ex_aggregate_attempts :: u8
  ex_individual :: "PhyRate MacIndividualRetries"
  ex_ack_snr_db :: "u8 option"
  ex_unanswered :: bool

fun phase_body :: "Phase \<Rightarrow> TxBody" where
  "phase_body (PhaseLive (LiveMpdu _ mpdu)) = MpduBody mpdu"
| "phase_body (PhaseLive (LiveAggregate _ ampdu)) = AmpduBody ampdu"
| "phase_body (PhaseLive (LiveBlockAckRequest _ ampdu)) = AmpduBody ampdu"
| "phase_body (PhaseLive (LiveIndividual _ _ _ ampdu _)) = AmpduBody ampdu"
| "phase_body (PhaseDone _ body) = body"

definition exchange_body :: "TxExchange \<Rightarrow> TxBody" where
  "exchange_body self = phase_body (ex_phase self)"

definition exchange_request :: "TxExchange \<Rightarrow> TxRequest" where
  "exchange_request self = context_request (ex_context self) (exchange_body self)"

definition exchange_report :: "TxExchange \<Rightarrow> TxReport option" where
  "exchange_report self = (case ex_phase self of PhaseDone report _ \<Rightarrow> Some report | _ \<Rightarrow> None)"

definition exchange_is_done :: "TxExchange \<Rightarrow> bool" where
  "exchange_is_done self = (case ex_phase self of PhaseDone _ _ \<Rightarrow> True | _ \<Rightarrow> False)"

fun phase_set_operational :: "bool \<Rightarrow> Phase \<Rightarrow> Phase" where
  "phase_set_operational b (PhaseLive (LiveAggregate st ampdu)) =
     PhaseLive (LiveAggregate st (ampdu\<lparr>req_block_ack_operational := b\<rparr>))"
| "phase_set_operational b (PhaseLive (LiveBlockAckRequest st ampdu)) =
     PhaseLive (LiveBlockAckRequest st (ampdu\<lparr>req_block_ack_operational := b\<rparr>))"
| "phase_set_operational b (PhaseLive (LiveIndividual st rem retry ampdu len)) =
     PhaseLive (LiveIndividual st rem retry (ampdu\<lparr>req_block_ack_operational := b\<rparr>) len)"
| "phase_set_operational b (PhaseDone report (AmpduBody ampdu)) =
     PhaseDone report (AmpduBody (ampdu\<lparr>req_block_ack_operational := b\<rparr>))"
| "phase_set_operational b (PhaseLive (LiveMpdu retry mpdu)) = PhaseLive (LiveMpdu retry mpdu)"
| "phase_set_operational b (PhaseDone report (MpduBody mpdu)) = PhaseDone report (MpduBody mpdu)"

definition set_block_ack_operational :: "TxExchange \<Rightarrow> bool \<Rightarrow> TxExchange" where
  "set_block_ack_operational self operational =
     self\<lparr>ex_phase := phase_set_operational operational (ex_phase self)\<rparr>"

subsection \<open>The planner\<close>

record TxPlanner =
  planner_retry_limits :: RetryLimits
  planner_ampdu_policy :: AmpduRetryPolicy
  planner_protection :: ProtectionPolicy
  planner_he_budget :: HeTxopRtsBudget

definition original_subframe_count :: "TxExchange \<Rightarrow> u8" where
  "original_subframe_count exchange =
     (case exchange_body exchange of MpduBody _ \<Rightarrow> 1 | AmpduBody ampdu \<Rightarrow> req_subframes ampdu)"

definition exchange_block_ack_operational :: "TxExchange \<Rightarrow> bool" where
  "exchange_block_ack_operational exchange =
     (case exchange_body exchange of
        AmpduBody ampdu \<Rightarrow> req_block_ack_operational ampdu | MpduBody _ \<Rightarrow> False)"

definition planner_mpdu_retry ::
    "TxPlanner \<Rightarrow> RequestContext \<Rightarrow> u32 \<Rightarrow> (MpduRetryState, TxPlanError) result" where
  "planner_mpdu_retry self request len =
     (let cls = (case rts_length_threshold (planner_protection self) of
                   Some threshold \<Rightarrow>
                     if len > ucast (threshold_bytes threshold) then LongFrame else ShortFrame
                 | None \<Rightarrow> ShortFrame)
      in case MpduRetryState_new (planner_retry_limits self) (ctx_mpdu_retry_limit request) cls of
           Ok retry \<Rightarrow> Ok retry
         | Err e \<Rightarrow> Err (RetryError e))"

definition subframe_retry ::
    "TxPlanner \<Rightarrow> TxExchange \<Rightarrow> u8 \<Rightarrow> (MpduRetryState \<times> u32, TxPlanError) result" where
  "subframe_retry self exchange index =
     (case (case exchange_body exchange of
              AmpduBody ampdu \<Rightarrow> mpdu_length ampdu index
            | MpduBody mpdu \<Rightarrow> Some (mpdu_request_length mpdu)) of
        None \<Rightarrow> Err SubframeOutsideAggregate
      | Some len \<Rightarrow>
          (case planner_mpdu_retry self (ex_context exchange) len of
             Ok retry \<Rightarrow> Ok (retry, len)
           | Err e \<Rightarrow> Err e))"

definition mpdu_status :: "TxExchange \<Rightarrow> MpduRetryState \<Rightarrow> RetryOutcome \<Rightarrow> PhyRate MacTxStatus" where
  "mpdu_status exchange retry outcome =
     (let solicits_ack = (case exchange_body exchange of
                            MpduBody mpdu \<Rightarrow> mpdu_response mpdu \<noteq> NoResponse
                          | AmpduBody _ \<Rightarrow> True);
          (result, delivered) =
            (case outcome of
               MpduDelivered \<Rightarrow> (Transmitted, True)
             | RetryLimit Collision \<Rightarrow> (CollisionLimit, False)
             | RetryLimit _ \<Rightarrow> (HardwareTimeout, False)
             | Terminal status \<Rightarrow> (HardwareFailure status, False))
      in \<lparr>tx_result = result, tx_attempts = retry_attempts retry, tx_final_rate = ex_rate exchange,
          tx_acknowledged = (if solicits_ack then Some delivered else None),
          tx_ack_snr_db = (if delivered then ex_ack_snr_db exchange else None),
          tx_airtime_micros = None\<rparr>)"

definition finish_ampdu ::
    "TxExchange \<Rightarrow> AmpduRetryState \<Rightarrow> MacAmpduTxResult \<Rightarrow> TxStep \<times> TxExchange" where
  "finish_ampdu exchange state result =
     (let report = AmpduReport
            \<lparr>ampdu_result = result, original_subframes = ucast (original_subframe_count exchange),
             report_aggregate_attempts = ex_aggregate_attempts exchange,
             aggregate_rate = ctx_initial_rate (ex_context exchange),
             block_acknowledged_subframes = ucast (acknowledged state),
             ampdu_ack_snr_db = (if acknowledged state > 0 then ex_ack_snr_db exchange else None),
             individual_retries = ex_individual exchange\<rparr>
      in (DoneStep report, exchange\<lparr>ex_phase := PhaseDone report (exchange_body exchange)\<rparr>))"

definition finished :: "TxExchange \<Rightarrow> AmpduRetryState \<Rightarrow> TxStep \<times> TxExchange" where
  "finished exchange state =
     (let result = (if acknowledged state = original_subframe_count exchange then Delivered
                    else if ex_unanswered exchange then AmpduHardwareTimeout else Incomplete)
      in finish_ampdu exchange state result)"

text \<open>The loop of \<open>after_aggregate\<close> that names the selected subframes by original position.\<close>

definition unaggregated :: "AmpduRetryState \<Rightarrow> u64 \<Rightarrow> u64" where
  "unaggregated state retry_mask =
     fold (\<lambda>position rem.
         if retry_mask AND push_bit position 1 \<noteq> 0
         then rem OR push_bit (unat (original_index state (of_nat position))) 1 else rem)
       [0..<unat (current_subframes state)] 0"

fun after_aggregate ::
    "TxPlanner \<Rightarrow> TxExchange \<Rightarrow> AmpduRetryState \<Rightarrow> AmpduRequest \<Rightarrow> AmpduRetryDecision \<Rightarrow> Live option" where
  "after_aggregate self exchange state ampdu (RetainAggregate _) = Some (LiveAggregate state ampdu)"
| "after_aggregate self exchange state ampdu (RepublishUnchanged _) = Some (LiveAggregate state ampdu)"
| "after_aggregate self exchange state ampdu (RequestBlockAck _ _) =
     Some (LiveBlockAckRequest state ampdu)"
| "after_aggregate self exchange state ampdu (Unaggregate retry_mask) =
     (let rem = unaggregated state retry_mask;
          index = of_nat (trailing_zeros rem)
      in case subframe_retry self exchange index of
           Ok (retry, len) \<Rightarrow> Some (LiveIndividual state rem retry ampdu len)
         | Err _ \<Rightarrow> None)"
| "after_aggregate self exchange state ampdu (Finish _) = None"
| "after_aggregate self exchange state ampdu FinishTriggerFlow = None"

definition planner_plan ::
    "TxPlanner \<Rightarrow> TxExchange \<Rightarrow> Live \<Rightarrow> RateLadder \<Rightarrow> TxAttemptPlan \<times> TxExchange" where
  "planner_plan self exchange live ladder =
     (let request = ex_context exchange;
          attempt = (\<lambda>rate psdu content exchange.
            (\<lparr>plan_access_category = ctx_access_category request, plan_rate = rate,
              plan_protection = select (planner_protection self)
                \<lparr>ppdu_rate = rate, ppdu_receiver = ctx_receiver request, psdu = psdu\<rparr>
                (planner_he_budget self),
              plan_power = ctx_power request, plan_coex = ctx_coex request,
              plan_content = content\<rparr>,
             exchange\<lparr>ex_rate := rate\<rparr>))
      in case live of
           LiveMpdu retry mpdu \<Rightarrow>
             attempt (retry_rate retry ladder (ctx_initial_rate request) (ex_rate exchange))
               (MpduPsdu (mpdu_request_length mpdu)) (MpduContent (ex_transmitted exchange \<noteq> 0)) exchange
         | LiveAggregate state ampdu \<Rightarrow>
             (let subframes = pending_original_indices state
              in attempt (ctx_initial_rate request) (AmpduPsdu (aggregate_length ampdu subframes))
                   (AmpduContent subframes (ex_transmitted exchange AND subframes))
                   (exchange\<lparr>ex_aggregate := subframes,
                             ex_aggregate_attempts := saturating_add (ex_aggregate_attempts exchange) 1\<rparr>))
         | LiveBlockAckRequest state ampdu \<Rightarrow>
             (let rate = Legacy (control_rate (planner_protection self) (ctx_initial_rate request))
              in (\<lparr>plan_access_category = ctx_access_category request, plan_rate = rate,
                   plan_protection = TxProtectionDecision_UNPROTECTED, plan_power = ctx_power request,
                   plan_coex = ctx_coex request,
                   plan_content = BlockAckRequestContent (req_tid ampdu) (current_first_sequence state)\<rparr>,
                  exchange\<lparr>ex_aggregate := 0, ex_rate := rate\<rparr>))
         | LiveIndividual _ rem retry _ len \<Rightarrow>
             (let index = of_nat (trailing_zeros rem);
                  previous = (if retry_attempts retry = 1 then ctx_initial_rate request else ex_rate exchange)
              in attempt (retry_rate retry ladder (ctx_initial_rate request) previous)
                   (MpduPsdu len) (SubframeContent index) exchange))"

definition planner_begin ::
    "TxPlanner \<Rightarrow> TxRequest \<Rightarrow> RateLadder \<Rightarrow> (TxExchange \<times> TxAttemptPlan, TxPlanError) result" where
  "planner_begin self request ladder =
     (let ctx = from_request request
      in case (case request_body request of
                 MpduBody mpdu \<Rightarrow>
                   (case planner_mpdu_retry self ctx (mpdu_request_length mpdu) of
                      Ok retry \<Rightarrow> Ok (LiveMpdu retry mpdu)
                    | Err e \<Rightarrow> Err e)
               | AmpduBody ampdu \<Rightarrow>
                   (case AmpduRetryState_new (req_first_sequence ampdu) (req_subframes ampdu)
                           (planner_ampdu_policy self) (req_committed_at ampdu) of
                      Ok state \<Rightarrow> Ok (LiveAggregate state ampdu)
                    | Err e \<Rightarrow> Err (AmpduError e))) of
           Err e \<Rightarrow> Err e
         | Ok phase \<Rightarrow>
             (let exchange = \<lparr>ex_context = ctx, ex_phase = PhaseLive phase, ex_transmitted = 0,
                              ex_rate = request_initial_rate request, ex_aggregate = 0,
                              ex_aggregate_attempts = 0, ex_individual = MacIndividualRetries_NONE,
                              ex_ack_snr_db = None, ex_unanswered = False\<rparr>
              in case planner_plan self exchange phase ladder of
                   (plan, exchange) \<Rightarrow> Ok (exchange, plan)))"

text \<open>
  \<open>complete\<close>, one definition per phase it matches on: \<open>Inl\<close> the next phase, which \<open>complete\<close> then plans,
  \<open>Inr\<close> an early return.
\<close>

definition complete_mpdu ::
    "TxExchange \<Rightarrow> PublicationReport \<Rightarrow> MpduRetryState \<Rightarrow> MpduRequest
     \<Rightarrow> (Live \<times> TxExchange) + (TxStep \<times> TxExchange)" where
  "complete_mpdu exchange completion retry mpdu =
     (case mpdu_observe retry (pub_status completion) of
        (Retry retry_bit, retry) \<Rightarrow>
          Inl (LiveMpdu retry mpdu, if retry_bit then exchange\<lparr>ex_transmitted := 1\<rparr> else exchange)
      | (Complete outcome, retry) \<Rightarrow>
          (let report = MpduReport (mpdu_status exchange retry outcome)
           in Inr (DoneStep report, exchange\<lparr>ex_phase := PhaseDone report (exchange_body exchange)\<rparr>)))"

text \<open>How an A-MPDU attempt ended; None for the hardware timeout that ends the exchange.\<close>

fun attempt_result :: "BlockAckReport option \<Rightarrow> TxStatus \<Rightarrow> AmpduAttemptResult option" where
  "attempt_result (Some report) _ = Some (Answered (Some report))"
| "attempt_result None Success = Some (Answered None)"
| "attempt_result None CtsTimeout = Some ProtectionFailure"
| "attempt_result None AckTimeout = Some Unanswered"
| "attempt_result None Collision = Some Unanswered"
| "attempt_result None TimedOut = None"

definition complete_aggregate ::
    "TxPlanner \<Rightarrow> TxExchange \<Rightarrow> PublicationReport \<Rightarrow> RadioInstant \<Rightarrow> AmpduRetryState \<Rightarrow> AmpduRequest
     \<Rightarrow> (Live \<times> TxExchange) + (TxStep \<times> TxExchange)" where
  "complete_aggregate self exchange completion now state ampdu =
     (case attempt_result (pub_block_ack completion) (pub_status completion) of
        None \<Rightarrow> Inr (finish_ampdu exchange state Incomplete)
      | Some result \<Rightarrow>
          (let exchange = (if result \<noteq> ProtectionFailure
                           then exchange\<lparr>ex_transmitted := ex_transmitted exchange OR ex_aggregate exchange\<rparr>
                           else exchange);
               exchange = exchange\<lparr>ex_unanswered := (result = Unanswered)\<rparr>
           in case ampdu_observe state result (current_subframes state) now
                     (exchange_block_ack_operational exchange) of
                (Ok decision, state) \<Rightarrow>
                  (case after_aggregate self exchange state ampdu decision of
                     Some phase \<Rightarrow> Inl (phase, exchange)
                   | None \<Rightarrow> Inr (finished exchange state))
              | (Err _, state) \<Rightarrow> Inr (finish_ampdu exchange state Incomplete)))"

definition complete_block_ack_request ::
    "TxPlanner \<Rightarrow> TxExchange \<Rightarrow> PublicationReport \<Rightarrow> RadioInstant \<Rightarrow> AmpduRetryState \<Rightarrow> AmpduRequest
     \<Rightarrow> (Live \<times> TxExchange) + (TxStep \<times> TxExchange)" where
  "complete_block_ack_request self exchange completion now state ampdu =
     (let report = (if pub_status completion = Success then pub_block_ack completion else None);
          exchange = exchange\<lparr>ex_unanswered := False\<rparr>
      in case observe_block_ack_request state report now (exchange_block_ack_operational exchange) of
           (decision, state) \<Rightarrow>
             (case after_aggregate self exchange state ampdu decision of
                Some phase \<Rightarrow> Inl (phase, exchange)
              | None \<Rightarrow> Inr (finished exchange state)))"

definition complete_individual ::
    "TxPlanner \<Rightarrow> TxExchange \<Rightarrow> PublicationReport \<Rightarrow> AmpduRetryState \<Rightarrow> u64 \<Rightarrow> MpduRetryState
     \<Rightarrow> AmpduRequest \<Rightarrow> u32 \<Rightarrow> (Live \<times> TxExchange) + (TxStep \<times> TxExchange)" where
  "complete_individual self exchange completion state rem retry ampdu len =
     (case mpdu_observe retry (pub_status completion) of
        (Retry _, retry) \<Rightarrow> Inl (LiveIndividual state rem retry ampdu len, exchange)
      | (Complete outcome, retry) \<Rightarrow>
          (let status = mpdu_status exchange retry outcome;
               exchange = exchange\<lparr>ex_individual := record_retry (ex_individual exchange) status\<rparr>;
               rem = rem AND (rem - 1)
           in if rem = 0
              then Inr (finish_ampdu exchange state
                     (if ind_failed (ex_individual exchange) = 0 then Delivered else Incomplete))
              else
                (case subframe_retry self exchange (of_nat (trailing_zeros rem)) of
                   Ok (retry, len) \<Rightarrow> Inl (LiveIndividual state rem retry ampdu len, exchange)
                 | Err _ \<Rightarrow> Inr (finish_ampdu exchange state Incomplete))))"

fun complete_live ::
    "TxPlanner \<Rightarrow> TxExchange \<Rightarrow> PublicationReport \<Rightarrow> RadioInstant \<Rightarrow> Live
     \<Rightarrow> (Live \<times> TxExchange) + (TxStep \<times> TxExchange)" where
  "complete_live self exchange completion now (LiveMpdu retry mpdu) =
     complete_mpdu exchange completion retry mpdu"
| "complete_live self exchange completion now (LiveAggregate state ampdu) =
     complete_aggregate self exchange completion now state ampdu"
| "complete_live self exchange completion now (LiveBlockAckRequest state ampdu) =
     complete_block_ack_request self exchange completion now state ampdu"
| "complete_live self exchange completion now (LiveIndividual state rem retry ampdu len) =
     complete_individual self exchange completion state rem retry ampdu len"

definition note_ack_snr :: "TxExchange \<Rightarrow> PublicationReport \<Rightarrow> TxExchange" where
  "note_ack_snr exchange completion =
     (if pub_ack_snr_db completion \<noteq> None
      then exchange\<lparr>ex_ack_snr_db := pub_ack_snr_db completion\<rparr> else exchange)"

definition planner_complete ::
    "TxPlanner \<Rightarrow> TxExchange \<Rightarrow> PublicationReport \<Rightarrow> RadioInstant \<Rightarrow> RateLadder \<Rightarrow> TxStep \<times> TxExchange" where
  "planner_complete self exchange completion now ladder =
     (let exchange = note_ack_snr exchange completion
      in case ex_phase exchange of
           PhaseDone report _ \<Rightarrow> (DoneStep report, exchange)
         | PhaseLive live \<Rightarrow>
             (case complete_live self exchange completion now live of
                Inr returned \<Rightarrow> returned
              | Inl (phase, exchange) \<Rightarrow>
                  (case planner_plan self (exchange\<lparr>ex_phase := PhaseLive phase\<rparr>) phase ladder of
                     (plan, exchange) \<Rightarrow> (AttemptStep plan, exchange))))"

definition plan_is_protected :: "TxAttemptPlan \<Rightarrow> bool" where
  "plan_is_protected self \<longleftrightarrow> protection (plan_protection self) \<noteq> Unprotected"

definition plan_port_protection :: "TxAttemptPlan \<Rightarrow> Protection" where
  "plan_port_protection self = port_protection (protection (plan_protection self))"

definition acknowledged_subframes :: "AmpduRequest \<Rightarrow> BlockAckReport \<Rightarrow> u64" where
  "acknowledged_subframes request report =
     fold (\<lambda>index m.
         if acknowledges report (request_sequence request (of_nat index))
         then m OR push_bit index 1 else m)
       [0..<unat (req_subframes request)] 0"

end
