(* ===== verification/Tx_Exchange.thy ===== *)
theory Tx_Exchange
  imports Tx_Planner
begin

text \<open>
  What the planner achieves over a whole exchange: the trace of an exchange's attempts and their
  completions, which subframes the peer acknowledged and which were on air in it, and the invariant
  that ties both to the planner's state.  Every step may use another planner, clock reading and rate
  ladder, and the Block Ack agreement may change between steps.
\<close>

inductive tx_trace ::
    "TxRequest \<Rightarrow> (AttemptContent \<times> PublicationReport) list \<Rightarrow> TxExchange \<Rightarrow> AttemptContent option \<Rightarrow> bool"
  for request where
  trace_begin: "planner_begin planner request ladder = Ok (ex, plan) \<Longrightarrow>
     tx_trace request [] ex (Some (plan_content plan))"
| trace_agreement: "tx_trace request h ex c \<Longrightarrow> tx_trace request h (set_block_ack_operational ex b) c"
| trace_attempt: "tx_trace request h ex (Some c) \<Longrightarrow>
     planner_complete planner ex completion now ladder = (AttemptStep plan, ex') \<Longrightarrow>
     tx_trace request (h @ [(c, completion)]) ex' (Some (plan_content plan))"
| trace_done: "tx_trace request h ex (Some c) \<Longrightarrow>
     planner_complete planner ex completion now ladder = (DoneStep report, ex') \<Longrightarrow>
     tx_trace request (h @ [(c, completion)]) ex' None"

text \<open>The subframes one completion acknowledges, and those an exchange acknowledged or had on air.\<close>

definition mask_set :: "u64 \<Rightarrow> nat set" where "mask_set w = {i. bit w i}"

fun acked_by :: "AmpduRequest \<Rightarrow> AttemptContent \<times> PublicationReport \<Rightarrow> nat set" where
  "acked_by am (AmpduContent _ _, completion) =
     (case pub_block_ack completion of Some r \<Rightarrow> mask_set (acknowledged_subframes am r) | None \<Rightarrow> {})"
| "acked_by am (BlockAckRequestContent _ _, completion) =
     (case pub_block_ack completion of
        Some r \<Rightarrow> if pub_status completion = Success then mask_set (acknowledged_subframes am r) else {}
      | None \<Rightarrow> {})"
| "acked_by am (SubframeContent i, completion) =
     (if pub_status completion = Success then {unat i} else {})"
| "acked_by am (MpduContent _, completion) = {}"

definition acked :: "AmpduRequest \<Rightarrow> (AttemptContent \<times> PublicationReport) list \<Rightarrow> nat set" where
  "acked am h = (\<Union>e\<in>set h. acked_by am e)"

fun aired_by :: "AttemptContent \<times> PublicationReport \<Rightarrow> nat set" where
  "aired_by (AmpduContent subframes _, completion) =
     (if pub_block_ack completion = None \<and> pub_status completion = CtsTimeout then {}
      else mask_set subframes)"
| "aired_by _ = {}"

definition on_air :: "(AttemptContent \<times> PublicationReport) list \<Rightarrow> nat set" where
  "on_air h = (\<Union>e\<in>set h. aired_by e)"

lemma acked_snoc [simp]: "acked am (h @ [e]) = acked am h \<union> acked_by am e"
  and acked_Nil [simp]: "acked am [] = {}"
  by (auto simp: acked_def)

lemma on_air_snoc [simp]: "on_air (h @ [e]) = on_air h \<union> aired_by e"
  and on_air_Nil [simp]: "on_air [] = {}"
  by (auto simp: on_air_def)

subsection \<open>Masks\<close>

lemma mask_set_simps [simp]:
  "mask_set 0 = {}" "mask_set (v OR w) = mask_set v \<union> mask_set w" "mask_set (v AND w) = mask_set v \<inter> mask_set w"
  by (auto simp: mask_set_def bit_simps)

lemma mask_set_inject [simp]: "mask_set v = mask_set w \<longleftrightarrow> v = w"
  by (auto simp: mask_set_def intro!: bit_word_eqI)

lemma card_mask_set: "card (mask_set w) = count_ones w"
  by (simp add: mask_set_def count_ones_card)

lemma finite_mask_set [simp]: "finite (mask_set w)"
  using finite_subset [of "mask_set w" "{..<64}"] by (auto simp: mask_set_def dest: bit_u64_less)

lemma set_set_bits' [simp]: "set (set_bits w) = mask_set w"
  by (simp add: set_set_bits mask_set_def)

lemma mask_set_acknowledged:
  assumes "unat (req_subframes am) \<le> 64"
  shows "mask_set (acknowledged_subframes am r)
    = {i. i < unat (req_subframes am) \<and> acknowledges r (wrapping_add (req_first_sequence am) (of_nat i))}"
proof -
  have "(ucast (of_nat i :: u8) :: u16) = of_nat i" if "i < unat (req_subframes am)" for i
    using that assms by (simp add: word_unat_eq_iff unat_of_nat unsigned_ucast_eq take_bit_eq_mod)
  then show ?thesis
    using assms by (auto simp: mask_set_def acknowledged_subframes_def request_sequence_def bit_fold_set)
qed

subsection \<open>The invariant\<close>

text \<open>An aggregate whose pending subframes are the unacknowledged ones.\<close>

definition agg_ok :: "AmpduRequest \<Rightarrow> nat set \<Rightarrow> AmpduRetryState \<Rightarrow> bool" where
  "agg_ok am A st \<longleftrightarrow>
     ampdu_ok (unat (req_subframes am)) st \<and> first_sequence st = req_first_sequence am
     \<and> mask_set (pending_original_indices st) = {..<unat (req_subframes am)} - A"

fun live_ok :: "AmpduRequest \<Rightarrow> nat set \<Rightarrow> PhyRate MacIndividualRetries \<Rightarrow> Live \<Rightarrow> bool" where
  "live_ok am A ind (LiveMpdu _ _) = False"
| "live_ok am A ind (LiveAggregate st _) \<longleftrightarrow> agg_ok am A st \<and> ind = MacIndividualRetries_NONE"
| "live_ok am A ind (LiveBlockAckRequest st _) \<longleftrightarrow> agg_ok am A st \<and> ind = MacIndividualRetries_NONE"
| "live_ok am A ind (LiveIndividual st rem retry _ _) \<longleftrightarrow>
     rem \<noteq> 0 \<and> mask_set rem \<subseteq> {..<unat (req_subframes am)} - A
     \<and> unat (acknowledged st) + unat (ind_transmitted ind) = card A
     \<and> card A + unat (ind_failed ind) + count_ones rem = unat (req_subframes am)
     \<and> (\<exists>h. retry_live h retry)"

fun live_content :: "u64 \<Rightarrow> Live \<Rightarrow> AttemptContent" where
  "live_content t (LiveMpdu _ _) = MpduContent (t \<noteq> 0)"
| "live_content t (LiveAggregate st _) =
     AmpduContent (pending_original_indices st) (t AND pending_original_indices st)"
| "live_content t (LiveBlockAckRequest st am) = BlockAckRequestContent (req_tid am) (current_first_sequence st)"
| "live_content t (LiveIndividual _ rem _ _ _) = SubframeContent (of_nat (trailing_zeros rem))"

fun report_ok :: "AmpduRequest \<Rightarrow> nat set \<Rightarrow> TxReport \<Rightarrow> bool" where
  "report_ok am A (MpduReport _) = False"
| "report_ok am A (AmpduReport st) \<longleftrightarrow>
     original_subframes st = ucast (req_subframes am)
     \<and> unat (delivered_subframes st) = card A
     \<and> (ampdu_result st = Delivered \<longleftrightarrow> card A = unat (req_subframes am))"

definition carries :: "AmpduRequest \<Rightarrow> TxBody \<Rightarrow> bool" where
  "carries am body \<longleftrightarrow> (\<exists>b. body = AmpduBody (am\<lparr>req_block_ack_operational := b\<rparr>))"

definition tx_inv ::
    "AmpduRequest \<Rightarrow> (AttemptContent \<times> PublicationReport) list \<Rightarrow> TxExchange \<Rightarrow> AttemptContent option \<Rightarrow> bool" where
  "tx_inv am h ex c \<longleftrightarrow>
     unat (req_subframes am) \<le> 64 \<and> acked am h \<subseteq> {..<unat (req_subframes am)}
     \<and> carries am (exchange_body ex)
     \<and> (case ex_phase ex of
          PhaseLive live \<Rightarrow>
            mask_set (ex_transmitted ex) = on_air h \<and> c = Some (live_content (ex_transmitted ex) live)
            \<and> live_ok am (acked am h) (ex_individual ex) live
            \<and> (\<forall>st am'. live = LiveAggregate st am' \<longrightarrow> ex_aggregate ex = pending_original_indices st)
        | PhaseDone report _ \<Rightarrow> c = None \<and> report_ok am (acked am h) report)"

subsection \<open>Planning keeps the phase\<close>

lemma plan_effect:
  assumes "planner_plan self ex live ladder = (p, ex')"
  shows "plan_content p = live_content (ex_transmitted ex) live" "ex_phase ex' = ex_phase ex"
    "ex_transmitted ex' = ex_transmitted ex" "ex_individual ex' = ex_individual ex"
    "live = LiveAggregate st am' \<Longrightarrow> ex_aggregate ex' = pending_original_indices st"
  using assms by (auto simp: planner_plan_def Let_def split: Live.splits)

lemma planned_inv:
  assumes "planner_plan self ex live ladder = (p, ex')" and "ex_phase ex = PhaseLive live"
    and "unat (req_subframes am) \<le> 64" "acked am h \<subseteq> {..<unat (req_subframes am)}"
      "mask_set (ex_transmitted ex) = on_air h" "carries am (phase_body (PhaseLive live))"
      "live_ok am (acked am h) (ex_individual ex) live"
  shows "tx_inv am h ex' (Some (plan_content p))"
  using plan_effect [OF assms(1)] assms(2-) by (auto simp: tx_inv_def exchange_body_def)

lemma begin_inv:
  assumes "planner_begin planner request ladder = Ok (ex, plan)" "request_body request = AmpduBody am"
  shows "tx_inv am [] ex (Some (plan_content plan))"
proof -
  obtain st ex0 where st: "AmpduRetryState_new (req_first_sequence am) (req_subframes am)
        (planner_ampdu_policy planner) (req_committed_at am) = Ok st"
    and pl: "planner_plan planner ex0 (LiveAggregate st am) ladder = (plan, ex)"
    and ex0: "ex_phase ex0 = PhaseLive (LiveAggregate st am)" "ex_transmitted ex0 = 0"
      "ex_individual ex0 = MacIndividualRetries_NONE"
    using assms by (auto simp: planner_begin_def Let_def split: result.splits prod.splits)
  note new = new_ampdu_ok [OF st]
  have "agg_ok am {} st"
    using new ampdu_ok_pending(4) [OF new(1)] by (auto simp: agg_ok_def mask_set_def bit_all_subframes)
  then show ?thesis
    using ampdu_ok_pending(4) [OF new(1)] ex0
    by (intro planned_inv [OF pl]) (auto simp: carries_def intro: exI [of _ "req_block_ack_operational am"])
qed

lemma agreement_inv: "tx_inv am h ex c \<Longrightarrow> tx_inv am h (set_block_ack_operational ex b) c"
  by (cases "(b, ex_phase ex)" rule: phase_set_operational.cases)
     (auto simp: tx_inv_def set_block_ack_operational_def exchange_body_def carries_def)

subsection \<open>After an aggregate\<close>

text \<open>The missing subframes after a decision are the ones no completion acknowledged yet.\<close>

lemma missing_unacked:
  assumes "agg_ok am A st" "decision_ok (unat (req_subframes am)) st P d st'"
    and "A \<subseteq> {..<unat (req_subframes am)}"
  defines "A' \<equiv> A \<union> {i. i < unat (req_subframes am) \<and> P i}"
  shows "mask_set (missing_original_indices st') = {..<unat (req_subframes am)} - A'"
    "unat (acknowledged st') = card A'" "card A' + count_ones (missing_original_indices st') = unat (req_subframes am)"
proof -
  let ?n = "unat (req_subframes am)"
  have "mask_set (missing_original_indices st') = {i \<in> mask_set (pending_original_indices st). \<not> P i}"
    using assms(2) by (simp add: decision_ok_def flip: set_set_bits')
  then show m: "mask_set (missing_original_indices st') = {..<?n} - A'"
    using assms(1) by (auto simp: agg_ok_def A'_def)
  have "A' \<subseteq> {..<?n}" using assms(3) by (auto simp: A'_def)
  then have "card A' + card ({..<?n} - A') = ?n"
    by (metis card_Diff_subset card_lessThan card_mono finite_lessThan finite_subset le_add_diff_inverse)
  then show c: "card A' + count_ones (missing_original_indices st') = ?n"
    by (simp add: m flip: card_mask_set)
  show "unat (acknowledged st') = card A'" using assms(2) c by (simp add: decision_ok_def)
qed

lemma unaggregated_missing:
  assumes "agg_ok am A st" "decision_ok (unat (req_subframes am)) st P (Unaggregate m) st'"
  shows "unaggregated st' m = missing_original_indices st'"
proof -
  let ?L = "set_bits (pending_original_indices st)"
  have k: "unat (current_subframes st') = length ?L" "length ?L \<le> 64"
    and p: "pending_original_indices st' = pending_original_indices st"
    using assms count_ones_le [of "pending_original_indices st"]
    by (auto simp: agg_ok_def ampdu_ok_def decision_ok_def count_ones_def)
  have org: "unat (original_index st' (of_nat i)) = ?L ! i" if "i < length ?L" for i
    using that k p unat_original_index [of "of_nat i" st'] by (simp add: unat_of_nat count_ones_def)
  have "mask_set (unaggregated st' m) = {?L ! i | i. i < length ?L \<and> bit m i}"
  proof -
    have "unaggregated st' m = fold (\<lambda>i r. if bit m i then r OR push_bit (?L ! i) 1 else r) [0..<length ?L] 0"
      unfolding unaggregated_def k(1) using k(2) by (intro fold_cong) (auto simp: org and_exp_eq_0_iff_not_bit fun_eq_iff)
    then show ?thesis
      using nth_set_bits [of _ "pending_original_indices st"]
      by (auto simp: mask_set_def bit_fold_set count_ones_def)
  qed
  moreover have "set_bits (missing_original_indices st') = map ((!) ?L) (set_bits m)"
    using assms(2) unfolding decision_ok_def decision_mask.simps by blast
  then have "mask_set (missing_original_indices st') = (!) ?L ` mask_set m"
    by (metis set_set_bits' list.set_map)
  moreover have "i < length ?L" if "bit m i" for i
    using that assms(2) by (simp add: decision_ok_def count_ones_def)
  ultimately show ?thesis by (auto simp: mask_set_def simp flip: mask_set_inject)
qed

lemma subframe_retry_live:
  assumes "subframe_retry self ex i = Ok (retry, len)"
  shows "\<exists>h. retry_live h retry"
proof -
  have "retry_live [] retry"
    using assms
    by (auto simp: subframe_retry_def planner_mpdu_retry_def MpduRetryState_new_def retry_live_def Let_def
        unat_gt_0 split: option.splits result.splits if_splits TxBody.splits)
  then show ?thesis ..
qed

text \<open>What one completion does to the exchange: it goes on in a phase, or ends with a report.\<close>

fun step_ok :: "AmpduRequest \<Rightarrow> nat set \<Rightarrow> nat set \<Rightarrow> (Live \<times> TxExchange) + (TxStep \<times> TxExchange) \<Rightarrow> bool" where
  "step_ok am A B (Inl (live, ex)) \<longleftrightarrow>
     live_ok am A (ex_individual ex) live \<and> carries am (phase_body (PhaseLive live))
     \<and> mask_set (ex_transmitted ex) = B"
| "step_ok am A B (Inr (step, ex)) \<longleftrightarrow>
     (\<exists>report body. step = DoneStep report \<and> report_ok am A report
       \<and> ex_phase ex = PhaseDone report body \<and> carries am body)"

lemma finish_step_ok:
  assumes "carries am (exchange_body ex)"
    and "unat (acknowledged st) + unat (ind_transmitted (ex_individual ex)) = card A" "card A \<le> 64"
    and "result = Delivered \<longleftrightarrow> card A = unat (req_subframes am)"
  shows "step_ok am A B (Inr (finish_ampdu ex st result))"
proof -
  have "original_subframe_count ex = req_subframes am"
    using assms(1) by (auto simp: carries_def original_subframe_count_def)
  moreover have "unat (ucast (acknowledged st) :: u16) = unat (acknowledged st)"
    using unat_u8_less [of "acknowledged st"] by (simp add: unsigned_ucast_eq take_bit_eq_mod)
  ultimately show ?thesis
    using assms by (auto simp: finish_ampdu_def Let_def delivered_subframes_def unat_saturating_add)
qed

lemma after_decision_step:
  assumes agg: "agg_ok am A st" and dec: "decision_ok (unat (req_subframes am)) st P d st'"
    and A: "A \<subseteq> {..<unat (req_subframes am)}" and n: "unat (req_subframes am) \<le> 64"
    and ex: "exchange_body ex = AmpduBody am'" "carries am (AmpduBody am')"
      "ex_individual ex = MacIndividualRetries_NONE"
  shows "step_ok am (A \<union> {i. i < unat (req_subframes am) \<and> P i}) (mask_set (ex_transmitted ex))
    (case after_aggregate self ex st' am' d of
       Some phase \<Rightarrow> Inl (phase, ex) | None \<Rightarrow> Inr (finished ex st'))"
proof -
  define A' where "A' = A \<union> {i. i < unat (req_subframes am) \<and> P i}"
  note m = missing_unacked [OF agg dec A, folded A'_def]
  have "A' \<subseteq> {..<unat (req_subframes am)}" using A by (auto simp: A'_def)
  then have card: "card A' \<le> 64" using card_mono [of "{..<unat (req_subframes am)}" A'] n by simp
  have seq: "first_sequence st' = req_first_sequence am"
    using agg dec by (simp add: agg_ok_def decision_ok_def)
  have unagg: "unaggregated st' w = missing_original_indices st'" if "d = Unaggregate w" for w
    using unaggregated_missing [OF agg] dec that by simp
  have fin: "step_ok am A' B (Inr (finished ex st'))" for B
  proof -
    have "acknowledged st' = original_subframe_count ex \<longleftrightarrow> card A' = unat (req_subframes am)"
      using ex m(2) by (auto simp: carries_def original_subframe_count_def word_unat_eq_iff)
    then show ?thesis
      using ex m(2) card unfolding finished_def Let_def
      by (intro finish_step_ok) (auto simp: MacIndividualRetries_NONE_def)
  qed
  show ?thesis
    unfolding A'_def [symmetric]
  proof (cases d)
    case (Unaggregate w)
    with dec m unagg subframe_retry_live ex fin
    show "step_ok am A' (mask_set (ex_transmitted ex)) (case after_aggregate self ex st' am' d of
       Some phase \<Rightarrow> Inl (phase, ex) | None \<Rightarrow> Inr (finished ex st'))"
      by (auto simp: Let_def decision_ok_def MacIndividualRetries_NONE_def simp del: step_ok.simps(2)
          split: result.split)
  qed (use dec m seq ex fin in \<open>auto simp: agg_ok_def decision_ok_def simp del: step_ok.simps(2)\<close>)
qed

subsection \<open>Every completion keeps the invariant\<close>

lemma agg_card:
  assumes "agg_ok am A st" "A \<subseteq> {..<unat (req_subframes am)}"
  shows "unat (acknowledged st) = card A" "card A < unat (req_subframes am)"
proof -
  let ?n = "unat (req_subframes am)"
  have "card A + card ({..<?n} - A) = ?n"
    using assms(2) by (metis card_Diff_subset card_lessThan card_mono finite_lessThan finite_subset le_add_diff_inverse)
  then have sum: "card A + count_ones (pending_original_indices st) = ?n"
    using assms(1) by (simp add: agg_ok_def flip: card_mask_set)
  have pos: "0 < count_ones (pending_original_indices st)"
    using assms(1) count_ones_eq_0_iff [of "pending_original_indices st"]
    by (auto simp: agg_ok_def ampdu_ok_def simp del: count_ones_eq_0_iff)
  show "unat (acknowledged st) = card A" using assms(1) sum by (auto simp: agg_ok_def ampdu_ok_def)
  show "card A < ?n" using sum pos by simp
qed

lemma acked_by_sub:
  assumes "agg_ok am A st" "unat (req_subframes am) \<le> 64"
  shows "{i. i < unat (req_subframes am) \<and> sub_acked st r i}
    = (case r of Some r \<Rightarrow> mask_set (acknowledged_subframes am r) | None \<Rightarrow> {})"
  using assms by (auto simp: mask_set_acknowledged sub_acked_def agg_ok_def split: option.split)

lemma block_ack_request_step:
  assumes agg: "agg_ok am A st" and A: "A \<subseteq> {..<unat (req_subframes am)}" and n: "unat (req_subframes am) \<le> 64"
    and ex: "exchange_body ex = AmpduBody am'" "carries am (AmpduBody am')"
      "ex_individual ex = MacIndividualRetries_NONE"
  shows "step_ok am (A \<union> acked_by am (BlockAckRequestContent tid q, completion)) (mask_set (ex_transmitted ex))
    (complete_block_ack_request self ex completion now st am')"
proof -
  define r where "r = (if pub_status completion = Success then pub_block_ack completion else None)"
  define ex1 where "ex1 = ex\<lparr>ex_unanswered := False\<rparr>"
  obtain d st' where res: "resort st r now (exchange_block_ack_operational ex1) = (d, st')" by force
  have ok: "ampdu_ok (unat (req_subframes am)) st" using agg by (simp add: agg_ok_def)
  have ack: "acked_by am (BlockAckRequestContent tid q, completion)
      = {i. i < unat (req_subframes am) \<and> sub_acked st r i}"
    by (auto simp: acked_by_sub [OF agg n] r_def split: option.split)
  have ex1: "exchange_body ex1 = AmpduBody am'" "ex_individual ex1 = MacIndividualRetries_NONE"
    "ex_transmitted ex1 = ex_transmitted ex"
    using ex by (simp_all add: ex1_def exchange_body_def)
  show ?thesis
    using after_decision_step [OF agg resort_decision_ok [OF ok res] A n ex1(1) ex(2) ex1(2), of self]
    unfolding ack ex1(3) by (simp add: complete_block_ack_request_def observe_block_ack_request_def Let_def res
         r_def [symmetric] ex1_def [symmetric])
qed

lemma aggregate_step:
  assumes agg: "agg_ok am A st" and A: "A \<subseteq> {..<unat (req_subframes am)}" and n: "unat (req_subframes am) \<le> 64"
    and ex: "exchange_body ex = AmpduBody am'" "carries am (AmpduBody am')"
      "ex_individual ex = MacIndividualRetries_NONE" "ex_aggregate ex = pending_original_indices st"
    and c: "c = AmpduContent (pending_original_indices st) t"
  shows "step_ok am (A \<union> acked_by am (c, completion)) (mask_set (ex_transmitted ex) \<union> aired_by (c, completion))
    (complete_aggregate self ex completion now st am')"
proof (cases "attempt_result (pub_block_ack completion) (pub_status completion)")
  case None
  then have "acked_by am (c, completion) = {}"
    by (cases "(pub_block_ack completion, pub_status completion)" rule: attempt_result.cases) (auto simp: c)
  then show ?thesis
    unfolding complete_aggregate_def None option.case
    using agg_card [OF agg A] n ex by (intro finish_step_ok) (auto simp: MacIndividualRetries_NONE_def)
next
  case (Some result)
  define ex1 where "ex1 = (if result \<noteq> ProtectionFailure
     then ex\<lparr>ex_transmitted := ex_transmitted ex OR ex_aggregate ex\<rparr> else ex)\<lparr>ex_unanswered := (result = Unanswered)\<rparr>"
  obtain d st' where res: "ampdu_observe st result (current_subframes st) now (exchange_block_ack_operational ex1) = (Ok d, st')"
    using observe_Ok_iff [of st result "current_subframes st" now "exchange_block_ack_operational ex1"]
    by (metis prod.collapse)
  have ok: "ampdu_ok (unat (req_subframes am)) st" using agg by (simp add: agg_ok_def)
  have rt: "result \<noteq> TriggerFlowEnd"
    using Some by (cases "(pub_block_ack completion, pub_status completion)" rule: attempt_result.cases) auto
  let ?P = "case result of Answered r \<Rightarrow> sub_acked st r | _ \<Rightarrow> (\<lambda>i. False)"
  have ack: "acked_by am (c, completion) = {i. i < unat (req_subframes am) \<and> ?P i}"
  proof -
    have "pub_block_ack completion = (case result of Answered r \<Rightarrow> r | _ \<Rightarrow> None)"
      using Some by (cases "(pub_block_ack completion, pub_status completion)" rule: attempt_result.cases) auto
    then show ?thesis by (cases result) (simp_all add: c acked_by_sub [OF agg n])
  qed
  have air: "mask_set (ex_transmitted ex) \<union> aired_by (c, completion) = mask_set (ex_transmitted ex1)"
    using Some ex(4)
    by (cases "(pub_block_ack completion, pub_status completion)" rule: attempt_result.cases) (auto simp: c ex1_def)
  have ex1: "exchange_body ex1 = AmpduBody am'" "ex_individual ex1 = MacIndividualRetries_NONE"
    using ex by (simp_all add: ex1_def exchange_body_def)
  show ?thesis
    using after_decision_step [OF agg observe_decision_ok [OF ok res rt] A n ex1(1) ex(2) ex1(2), of self]
    unfolding ack air complete_aggregate_def Some option.case Let_def ex1_def [symmetric] res
    by (simp only: prod.case result.case)
qed

lemma record_retry_counts:
  assumes "unat (ind_transmitted ind) \<le> 64" "unat (ind_failed ind) \<le> 64"
  shows "unat (ind_transmitted (record_retry ind status))
      = unat (ind_transmitted ind) + (if tx_result status = Transmitted then 1 else 0)"
    "unat (ind_failed (record_retry ind status))
      = unat (ind_failed ind) + (if tx_result status = Transmitted then 0 else 1)"
  using assms by (simp_all add: record_retry_def Let_def unat_saturating_add)

lemma mpdu_status_Transmitted: "tx_result (mpdu_status ex retry outcome) = Transmitted \<longleftrightarrow> outcome = MpduDelivered"
  by (auto simp: mpdu_status_def Let_def split: RetryOutcome.split TxStatus.split)

lemma individual_step:
  assumes live: "live_ok am A (ex_individual ex) (LiveIndividual st rem retry am' len)"
    and A: "A \<subseteq> {..<unat (req_subframes am)}" and n: "unat (req_subframes am) \<le> 64"
    and ex: "exchange_body ex = AmpduBody am'" "carries am (AmpduBody am')"
    and c: "c = SubframeContent (of_nat (trailing_zeros rem))"
  shows "step_ok am (A \<union> acked_by am (c, completion)) (mask_set (ex_transmitted ex))
    (complete_individual self ex completion st rem retry am' len)"
proof -
  let ?n = "unat (req_subframes am)" and ?t = "trailing_zeros rem" and ?ind = "ex_individual ex"
  let ?rem = "rem AND (rem - 1)" and ?A = "A \<union> acked_by am (c, completion)"
  have r0: "rem \<noteq> 0" and sub: "mask_set rem \<subseteq> {..<?n} - A"
    and cnt: "unat (acknowledged st) + unat (ind_transmitted ?ind) = card A"
      "card A + unat (ind_failed ?ind) + count_ones rem = ?n" and rl: "\<exists>h. retry_live h retry"
    using live by auto
  have t: "?t < ?n" "?t \<notin> A" using trailing_zeros_hd(1) [OF r0] sub by (auto simp: mask_set_def)
  have fin: "finite A" using A finite_subset by blast
  have ack: "acked_by am (c, completion) = (if pub_status completion = Success then {?t} else {})"
    using t(1) n by (simp add: c unat_of_nat)
  obtain dec retry' where obs: "mpdu_observe retry (pub_status completion) = (dec, retry')" by force
  show ?thesis
  proof (cases dec)
    case (Retry b)
    then have "pub_status completion \<noteq> Success" using obs by (cases "pub_status completion") auto
    moreover have "\<exists>h. retry_live h retry'" using rl obs observe_Retry unfolding Retry by blast
    ultimately show ?thesis
      using live ex by (simp add: complete_individual_def obs Retry ack)
  next
    case (Complete outcome)
    define ex1 where "ex1 = ex\<lparr>ex_individual := record_retry ?ind (mpdu_status ex retry' outcome)\<rparr>"
    have dl: "outcome = MpduDelivered \<longleftrightarrow> pub_status completion = Success"
    proof -
      from rl obtain h where "retry_live h retry" by blast
      from observe_Complete [OF this obs [unfolded Complete]]
      show ?thesis by (cases "pub_status completion") simp_all
    qed
    have c1: "unat (ind_transmitted (ex_individual ex1))
          = unat (ind_transmitted ?ind) + (if pub_status completion = Success then 1 else 0)"
      "unat (ind_failed (ex_individual ex1))
          = unat (ind_failed ?ind) + (if pub_status completion = Success then 0 else 1)"
      using record_retry_counts [of ?ind "mpdu_status ex retry' outcome"] cnt n
      by (simp_all add: ex1_def mpdu_status_Transmitted dl)
    have cA: "card ?A = card A + (if pub_status completion = Success then 1 else 0)"
      using t(2) fin by (simp add: ack)
    have cr: "Suc (count_ones ?rem) = count_ones rem" by (rule count_ones_clear_lowest [OF r0])
    have rs: "mask_set ?rem \<subseteq> {..<?n} - ?A"
      using sub by (auto simp: ack mask_set_def clear_lowest [OF r0])
    have ex1: "exchange_body ex1 = AmpduBody am'" "ex_transmitted ex1 = ex_transmitted ex"
      using ex by (simp_all add: ex1_def exchange_body_def)
    have stop: "step_ok am ?A B (Inr (finish_ampdu ex1 st result))"
      if "result = Delivered \<longleftrightarrow> card ?A = ?n" for result B
      using that cnt c1(1) cA n ex(2) ex1(1) cr by (intro finish_step_ok) auto
    have failed: "ind_failed (ex_individual ex1) = 0 \<longleftrightarrow> card ?A = ?n" if "?rem = 0"
    proof -
      have "count_ones rem = 1" using that cr by simp
      then show ?thesis using cnt(2) c1(2) cA by (auto simp: unat_eq_0 [symmetric])
    qed
    have less: "card ?A \<noteq> ?n" if "?rem \<noteq> 0"
    proof -
      have "0 < count_ones ?rem" using that count_ones_eq_0_iff [of ?rem] by linarith
      then show ?thesis using cnt(2) cA cr by auto
    qed
    have next_live: "live_ok am ?A (ex_individual ex1) (LiveIndividual st ?rem r am' l)"
      if "?rem \<noteq> 0" "subframe_retry self ex1 i = Ok (r, l)" for r l i
      using that rs cnt c1 cA cr subframe_retry_live [OF that(2)] by auto
    show ?thesis
      using stop failed less next_live ex ex1
      unfolding complete_individual_def obs Complete prod.case RetryDecision.case Let_def ex1_def [symmetric]
      by (auto simp del: step_ok.simps(2) live_ok.simps split: result.split)
  qed
qed

lemma note_ack_snr_fields [simp]:
  "ex_phase (note_ack_snr ex completion) = ex_phase ex"
  "ex_transmitted (note_ack_snr ex completion) = ex_transmitted ex"
  "ex_aggregate (note_ack_snr ex completion) = ex_aggregate ex"
  "ex_individual (note_ack_snr ex completion) = ex_individual ex"
  "exchange_body (note_ack_snr ex completion) = exchange_body ex"
  by (auto simp: note_ack_snr_def exchange_body_def)

lemma complete_live_step:
  assumes inv: "tx_inv am h ex (Some c)" and ph: "ex_phase ex = PhaseLive live"
  shows "step_ok am (acked am (h @ [(c, completion)])) (on_air (h @ [(c, completion)]))
    (complete_live self (note_ack_snr ex completion) completion now live)"
proof -
  let ?ex = "note_ack_snr ex completion"
  have n: "unat (req_subframes am) \<le> 64" and A: "acked am h \<subseteq> {..<unat (req_subframes am)}"
    and body: "carries am (exchange_body ex)" and t: "mask_set (ex_transmitted ex) = on_air h"
    and c: "c = live_content (ex_transmitted ex) live" and ok: "live_ok am (acked am h) (ex_individual ex) live"
    and ag: "\<forall>st am'. live = LiveAggregate st am' \<longrightarrow> ex_aggregate ex = pending_original_indices st"
    using inv by (auto simp: tx_inv_def ph)
  have bd: "exchange_body ?ex = phase_body (PhaseLive live)" using ph by (simp add: exchange_body_def)
  show ?thesis
  proof (cases live)
    case (LiveAggregate st am')
    with aggregate_step [of am "acked am h" st ?ex am' c "ex_transmitted ex AND pending_original_indices st"
        completion self now] ok A n body bd ag t c
    show ?thesis by simp
  next
    case (LiveBlockAckRequest st am')
    with block_ack_request_step [of am "acked am h" st ?ex am' "req_tid am'" "current_first_sequence st"
        completion self now] ok A n body bd t c
    show ?thesis by simp
  next
    case (LiveIndividual st rem retry am' len)
    with individual_step [of am "acked am h" ?ex st rem retry am' len c completion self] ok A n body bd t c
    show ?thesis by simp
  qed (use ok in simp)
qed

lemma acked_by_less:
  assumes "tx_inv am h ex (Some c)"
  shows "acked_by am (c, completion) \<subseteq> {..<unat (req_subframes am)}"
proof -
  obtain live where live: "c = live_content (ex_transmitted ex) live"
      "live_ok am (acked am h) (ex_individual ex) live" and n: "unat (req_subframes am) \<le> 64"
    using assms by (auto simp: tx_inv_def split: Phase.splits)
  show ?thesis
  proof (cases live)
    case (LiveIndividual st rem retry am' len)
    with live(2) have "rem \<noteq> 0" "mask_set rem \<subseteq> {..<unat (req_subframes am)}" by auto
    then have "trailing_zeros rem < unat (req_subframes am)"
      using trailing_zeros_hd(1) [of rem] by (auto simp: mask_set_def)
    then show ?thesis using n by (simp add: live(1) LiveIndividual unat_of_nat)
  qed (auto simp: live(1) mask_set_acknowledged [OF n] split: option.splits)
qed

lemma complete_inv:
  assumes inv: "tx_inv am h ex (Some c)" and res: "planner_complete self ex completion now ladder = (step, ex')"
  shows "tx_inv am (h @ [(c, completion)]) ex'
    (case step of AttemptStep plan \<Rightarrow> Some (plan_content plan) | DoneStep _ \<Rightarrow> None)"
proof -
  obtain live where ph: "ex_phase ex = PhaseLive live"
    using inv by (auto simp: tx_inv_def split: Phase.splits)
  note st = complete_live_step [OF inv ph, of completion self now]
  have n: "unat (req_subframes am) \<le> 64"
    and A: "acked am (h @ [(c, completion)]) \<subseteq> {..<unat (req_subframes am)}"
    using inv acked_by_less [OF inv] by (auto simp: tx_inv_def)
  show ?thesis
  proof (cases "complete_live self (note_ack_snr ex completion) completion now live")
    case (Inl next_phase)
    obtain live' ex1 where l: "next_phase = (live', ex1)" by force
    with res ph Inl obtain plan where
      pl: "planner_plan self (ex1\<lparr>ex_phase := PhaseLive live'\<rparr>) live' ladder = (plan, ex')" "step = AttemptStep plan"
      by (auto simp: planner_complete_def Let_def split: prod.splits)
    from planned_inv [OF pl(1) _ n A] st Inl l pl(2) show ?thesis by simp
  next
    case (Inr returned)
    with res ph have "returned = (step, ex')" by (auto simp: planner_complete_def Let_def)
    with st Inr obtain report body where "step = DoneStep report" "report_ok am (acked am (h @ [(c, completion)])) report"
      "ex_phase ex' = PhaseDone report body" "carries am body" by auto
    with n A show ?thesis by (simp add: tx_inv_def exchange_body_def)
  qed
qed

lemma trace_inv: "tx_trace request h ex c \<Longrightarrow> request_body request = AmpduBody am \<Longrightarrow> tx_inv am h ex c"
proof (induction rule: tx_trace.induct)
  case (trace_begin planner ladder ex plan)
  then show ?case by (rule begin_inv)
next
  case (trace_agreement h ex c b)
  then show ?case by (simp add: agreement_inv)
next
  case (trace_attempt h ex c planner completion now ladder plan ex')
  then show ?case using complete_inv by fastforce
next
  case (trace_done h ex c planner completion now ladder report ex')
  then show ?case using complete_inv by fastforce
qed

subsection \<open>An MPDU exchange\<close>

definition statuses :: "(AttemptContent \<times> PublicationReport) list \<Rightarrow> TxStatus list" where
  "statuses h = map (pub_status \<circ> snd) h"

lemma statuses_simps [simp]: "statuses [] = []" "statuses (h @ [(c, e)]) = statuses h @ [pub_status e]"
  "length (statuses h) = length h"
  by (simp_all add: statuses_def)

definition mpdu_inv ::
    "MpduRequest \<Rightarrow> (AttemptContent \<times> PublicationReport) list \<Rightarrow> TxExchange \<Rightarrow> AttemptContent option \<Rightarrow> bool" where
  "mpdu_inv mpdu h ex c \<longleftrightarrow> exchange_body ex = MpduBody mpdu
     \<and> (case ex_phase ex of
          PhaseLive live \<Rightarrow> (\<exists>retry. live = LiveMpdu retry mpdu \<and> retry_live (statuses h) retry)
            \<and> (ex_transmitted ex \<noteq> 0 \<longleftrightarrow> AckTimeout \<in> set (statuses h))
            \<and> c = Some (MpduContent (AckTimeout \<in> set (statuses h)))
        | PhaseDone report _ \<Rightarrow> c = None \<and> h \<noteq> [] \<and>
            (\<exists>st. report = MpduReport st \<and> list_all retryable (butlast (statuses h))
              \<and> (tx_result st = Transmitted \<longleftrightarrow> last (statuses h) = Success)
              \<and> tx_acknowledged st
                  = (if mpdu_response mpdu = NoResponse then None else Some (last (statuses h) = Success))
              \<and> unat (tx_attempts st) = min 255 (length h)))"

lemma mpdu_planned:
  assumes "planner_plan self ex (LiveMpdu retry mpdu) ladder = (p, ex')" "ex_phase ex = PhaseLive (LiveMpdu retry mpdu)"
    "retry_live (statuses h) retry" "ex_transmitted ex \<noteq> 0 \<longleftrightarrow> AckTimeout \<in> set (statuses h)"
  shows "mpdu_inv mpdu h ex' (Some (plan_content p))"
  using plan_effect [OF assms(1)] assms(2-) by (auto simp: mpdu_inv_def exchange_body_def)

lemma mpdu_begin_inv:
  assumes "planner_begin planner request ladder = Ok (ex, plan)" "request_body request = MpduBody mpdu"
  shows "mpdu_inv mpdu [] ex (Some (plan_content plan))"
proof -
  obtain retry ex0 where r: "planner_mpdu_retry planner (from_request request) (mpdu_request_length mpdu) = Ok retry"
    and pl: "planner_plan planner ex0 (LiveMpdu retry mpdu) ladder = (plan, ex)"
    and ex0: "ex_phase ex0 = PhaseLive (LiveMpdu retry mpdu)" "ex_transmitted ex0 = 0"
    using assms by (auto simp: planner_begin_def Let_def split: result.splits prod.splits)
  have "retry_live [] retry"
    using r by (auto simp: planner_mpdu_retry_def MpduRetryState_new_def retry_live_def Let_def unat_gt_0
        split: result.splits if_splits)
  then show ?thesis by (intro mpdu_planned [OF pl ex0(1)]) (simp_all add: ex0)
qed

lemma mpdu_complete_inv:
  assumes inv: "mpdu_inv mpdu h ex (Some c)" and res: "planner_complete self ex completion now ladder = (step, ex')"
  shows "mpdu_inv mpdu (h @ [(c, completion)]) ex'
    (case step of AttemptStep plan \<Rightarrow> Some (plan_content plan) | DoneStep _ \<Rightarrow> None)"
proof -
  let ?ex = "note_ack_snr ex completion" and ?s = "pub_status completion"
  obtain retry where ph: "ex_phase ex = PhaseLive (LiveMpdu retry mpdu)" and live: "retry_live (statuses h) retry"
    and tr: "ex_transmitted ex \<noteq> 0 \<longleftrightarrow> AckTimeout \<in> set (statuses h)"
    using inv by (auto simp: mpdu_inv_def split: Phase.splits)
  obtain d retry' where obs: "mpdu_observe retry ?s = (d, retry')" by force
  have body: "exchange_body ex = MpduBody mpdu" using ph by (simp add: exchange_body_def)
  show ?thesis
  proof (cases d)
    case (Retry b)
    note o = observe_Retry [OF live obs [unfolded Retry]]
    let ?ex1 = "if b then ?ex\<lparr>ex_transmitted := 1\<rparr> else ?ex"
    obtain plan where pl: "step = AttemptStep plan"
      "planner_plan self (?ex1\<lparr>ex_phase := PhaseLive (LiveMpdu retry' mpdu)\<rparr>) (LiveMpdu retry' mpdu) ladder = (plan, ex')"
      using res ph by (auto simp: planner_complete_def Let_def complete_mpdu_def obs Retry split: prod.splits)
    have "mpdu_inv mpdu (h @ [(c, completion)]) ex' (Some (plan_content plan))"
      by (rule mpdu_planned [OF pl(2)]) (use o tr in auto)
    then show ?thesis by (simp add: pl(1))
  next
    case (Complete outcome)
    note o = observe_Complete [OF live obs [unfolded Complete]]
    have "outcome = MpduDelivered \<longleftrightarrow> ?s = Success" using o by (cases ?s) simp_all
    moreover have "(step, ex') = (DoneStep (MpduReport (mpdu_status ?ex retry' outcome)),
        ?ex\<lparr>ex_phase := PhaseDone (MpduReport (mpdu_status ?ex retry' outcome)) (MpduBody mpdu)\<rparr>)"
      using res ph body by (simp add: planner_complete_def Let_def complete_mpdu_def obs Complete)
    moreover have "tx_acknowledged (mpdu_status ?ex retry' outcome)
        = (if mpdu_response mpdu = NoResponse then None else Some (outcome = MpduDelivered))"
      by (auto simp: mpdu_status_def Let_def body split: RetryOutcome.split TxStatus.split)
    moreover have "tx_attempts (mpdu_status ?ex retry' outcome) = retry_attempts retry'"
      by (simp add: mpdu_status_def Let_def split: RetryOutcome.split TxStatus.split)
    moreover have "list_all retryable (statuses h)" "unat (retry_attempts retry) = min 255 (Suc (length h))"
      using live by (simp_all add: retry_live_def Let_def)
    ultimately show ?thesis
      using o by (auto simp: mpdu_inv_def exchange_body_def mpdu_status_Transmitted)
  qed
qed

lemma mpdu_trace_inv: "tx_trace request h ex c \<Longrightarrow> request_body request = MpduBody mpdu \<Longrightarrow> mpdu_inv mpdu h ex c"
proof (induction rule: tx_trace.induct)
  case (trace_begin planner ladder ex plan)
  then show ?case by (rule mpdu_begin_inv)
next
  case (trace_agreement h ex c b)
  then show ?case
    by (cases "(b, ex_phase ex)" rule: phase_set_operational.cases)
       (auto simp: mpdu_inv_def set_block_ack_operational_def exchange_body_def)
next
  case (trace_attempt h ex c planner completion now ladder plan ex')
  then show ?case using mpdu_complete_inv by fastforce
next
  case (trace_done h ex c planner completion now ladder report ex')
  then show ?case using mpdu_complete_inv by fastforce
qed

subsection \<open>An aged exchange ends\<close>

text \<open>The exchange after a sequence of completions, each with its own planner, clock and ladder.\<close>

fun complete_run ::
    "TxExchange \<Rightarrow> (TxPlanner \<times> PublicationReport \<times> RadioInstant \<times> RateLadder) list \<Rightarrow> TxExchange" where
  "complete_run ex [] = ex"
| "complete_run ex ((planner, completion, now, ladder) # steps) =
     complete_run (snd (planner_complete planner ex completion now ladder)) steps"

definition exchange_aged :: "TxExchange \<Rightarrow> RadioInstant \<Rightarrow> bool" where
  "exchange_aged ex now \<longleftrightarrow>
     (case ex_phase ex of
        PhaseLive (LiveAggregate st _) \<Rightarrow> is_aged st now
      | PhaseLive (LiveBlockAckRequest st _) \<Rightarrow> is_aged st now
      | _ \<Rightarrow> True)"

text \<open>Completions an individual retry may still take: 509 is two \<open>u8\<close> limits less one each, and one.\<close>

definition retry_fuel :: "MpduRetryState \<Rightarrow> nat" where
  "retry_fuel r = 509 - (unat (count_short (retry_counters r)) + unat (count_long (retry_counters r)))"

definition exchange_fuel :: "TxExchange \<Rightarrow> nat" where
  "exchange_fuel ex =
     (case ex_phase ex of
        PhaseLive (LiveIndividual _ rem retry _ _) \<Rightarrow> 509 * (count_ones rem - 1) + retry_fuel retry
      | PhaseLive (LiveMpdu retry _) \<Rightarrow> retry_fuel retry
      | PhaseLive _ \<Rightarrow> 1
      | PhaseDone _ _ \<Rightarrow> 0)"

lemma retry_fuel_live:
  assumes "retry_live h r"
  shows "retry_fuel r = 509 - length h" "length h < 509"
proof -
  have "length h \<le> (unat (limit_short (mpdu_limits r)) - 1) + (unat (limit_long (mpdu_limits r)) - 1)"
    using assms by (auto simp: retry_live_def Let_def)
  moreover have "unat (limit_short (mpdu_limits r)) < 256" "unat (limit_long (mpdu_limits r)) < 256"
    using unat_u8_less by auto
  ultimately show "length h < 509" by linarith
  show "retry_fuel r = 509 - length h" using assms by (auto simp: retry_fuel_def retry_live_def Let_def)
qed

lemma observe_fuel:
  assumes "retry_live h r" "mpdu_observe r s = (Retry b, r')"
  shows "retry_fuel r' < retry_fuel r"
  using retry_fuel_live [OF assms(1)] observe_Retry [OF assms] retry_fuel_live [of "h @ [s]" r'] by auto

lemma complete_done: "exchange_is_done ex \<Longrightarrow> exchange_is_done (snd (planner_complete self ex e now ladder))"
  by (auto simp: planner_complete_def Let_def exchange_is_done_def split: Phase.splits)

lemma done_stays: "exchange_is_done ex \<Longrightarrow> exchange_is_done (complete_run ex steps)"
  by (induction ex steps rule: complete_run.induct) (auto intro: complete_done)

lemma plan_phase: "ex_phase (snd (planner_plan self ex live ladder)) = ex_phase ex"
  by (auto simp: planner_plan_def Let_def split: Live.split)

lemma finish_done: "exchange_is_done (snd (finish_ampdu ex st r))" "exchange_is_done (snd (finished ex st))"
  by (simp_all add: finish_ampdu_def finished_def Let_def exchange_is_done_def)

lemma aggregate_aged_done:
  assumes "is_aged st now"
  shows "\<exists>x. complete_aggregate self ex completion now st am = Inr x \<and> exchange_is_done (snd x)"
proof (cases "attempt_result (pub_block_ack completion) (pub_status completion)")
  case (Some result)
  have "result \<noteq> TriggerFlowEnd"
    using Some by (cases "(pub_block_ack completion, pub_status completion)" rule: attempt_result.cases) auto
  then have fin: "\<exists>m st'. ampdu_observe st result (current_subframes st) now op = (Ok (Finish m), st')" for op
    using aged_observe [OF assms, of result op] by (metis prod.collapse)
  define ex1 where "ex1 = (if result \<noteq> ProtectionFailure
     then ex\<lparr>ex_transmitted := ex_transmitted ex OR ex_aggregate ex\<rparr> else ex)\<lparr>ex_unanswered := (result = Unanswered)\<rparr>"
  obtain m st' where "ampdu_observe st result (current_subframes st) now (exchange_block_ack_operational ex1)
      = (Ok (Finish m), st')"
    using fin by blast
  then show ?thesis
    unfolding complete_aggregate_def Some option.case Let_def ex1_def [symmetric]
    by (simp add: finish_done)
qed (simp add: complete_aggregate_def finish_done)

lemma block_ack_request_aged_done:
  assumes "is_aged st now"
  shows "\<exists>x. complete_block_ack_request self ex completion now st am = Inr x \<and> exchange_is_done (snd x)"
proof -
  have "\<exists>m st'. resort st r now op = (Finish m, st')" for r op
    using aged_resort [OF assms, of r op] by (metis prod.collapse)
  then obtain m st' where "observe_block_ack_request st
      (if pub_status completion = Success then pub_block_ack completion else None) now
      (exchange_block_ack_operational (ex\<lparr>ex_unanswered := False\<rparr>)) = (Finish m, st')"
    unfolding observe_block_ack_request_def by blast
  then show ?thesis by (simp add: complete_block_ack_request_def Let_def finish_done)
qed

text \<open>One completion of an individual retry ends the exchange or uses up fuel.\<close>

lemma individual_fuel:
  assumes "retry_live h retry" "rem \<noteq> 0"
    and "complete_individual self ex completion st rem retry am len = Inl (live, ex')"
  shows "\<exists>rem' retry' len'. live = LiveIndividual st rem' retry' am len'
    \<and> 509 * (count_ones rem' - 1) + retry_fuel retry' < 509 * (count_ones rem - 1) + retry_fuel retry"
proof -
  obtain d retry' where obs: "mpdu_observe retry (pub_status completion) = (d, retry')" by force
  show ?thesis
  proof (cases d)
    case (Retry b)
    with assms(3) observe_fuel [OF assms(1) obs [unfolded Retry]] show ?thesis
      by (auto simp: complete_individual_def obs)
  next
    case (Complete outcome)
    let ?rem = "rem AND (rem - 1)"
    from assms(3) obtain fresh len' where live: "live = LiveIndividual st ?rem fresh am len'" "?rem \<noteq> 0"
      by (auto simp: complete_individual_def obs Complete Let_def split: if_splits result.splits)
    have "0 < count_ones ?rem" using live(2) count_ones_eq_0_iff [of ?rem] by linarith
    moreover have "Suc (count_ones ?rem) = count_ones rem" by (rule count_ones_clear_lowest [OF assms(2)])
    moreover have "0 < retry_fuel retry" using retry_fuel_live [OF assms(1)] by simp
    moreover have "retry_fuel fresh \<le> 509" by (simp add: retry_fuel_def)
    ultimately have "509 * (count_ones ?rem - 1) + retry_fuel fresh < 509 * (count_ones rem - 1) + retry_fuel retry"
      by (cases "count_ones ?rem") (auto simp flip: \<open>Suc (count_ones ?rem) = count_ones rem\<close>)
    with live show ?thesis by blast
  qed
qed

lemma complete_fuel:
  fixes self :: TxPlanner and completion :: PublicationReport and ladder :: RateLadder
  assumes inv: "tx_inv am h ex (Some c)" and aged: "exchange_aged ex now"
  defines "out \<equiv> snd (planner_complete self ex completion now ladder)"
  shows "exchange_is_done out
    \<or> exchange_fuel out < exchange_fuel ex \<and> (\<forall>now'. exchange_aged out now')"
proof -
  let ?ex = "note_ack_snr ex completion"
  obtain live where ph: "ex_phase ex = PhaseLive live" and ok: "live_ok am (acked am h) (ex_individual ex) live"
    using inv by (auto simp: tx_inv_def split: Phase.splits)
  have ended: "exchange_is_done out"
    if "\<exists>x. complete_live self ?ex completion now live = Inr x \<and> exchange_is_done (snd x)"
    using that ph by (auto simp: out_def planner_complete_def Let_def)
  show ?thesis
  proof (cases live)
    case (LiveAggregate st am')
    then show ?thesis using aged ended ph aggregate_aged_done by (simp add: exchange_aged_def)
  next
    case (LiveBlockAckRequest st am')
    then show ?thesis using aged ended ph block_ack_request_aged_done by (simp add: exchange_aged_def)
  next
    case (LiveIndividual st rem retry am' len)
    from ok obtain h' where h': "retry_live h' retry" "rem \<noteq> 0" by (auto simp: LiveIndividual)
    show ?thesis
    proof (cases "complete_live self ?ex completion now live")
      case (Inr x)
      have "exchange_is_done (snd x)"
        using Inr by (auto simp: LiveIndividual complete_individual_def Let_def finish_done
            split: prod.splits RetryDecision.splits if_splits result.splits)
      with Inr ended show ?thesis by blast
    next
      case (Inl nx)
      obtain live' ex1 where nx: "nx = (live', ex1)" by force
      from individual_fuel [OF h', of self ?ex completion st am' len live' ex1] Inl nx LiveIndividual
      obtain rem' retry' len' where "live' = LiveIndividual st rem' retry' am' len'"
        "509 * (count_ones rem' - 1) + retry_fuel retry' < 509 * (count_ones rem - 1) + retry_fuel retry" by auto
      moreover have "ex_phase out = PhaseLive live'"
        using Inl nx ph plan_phase [of self "ex1\<lparr>ex_phase := PhaseLive live'\<rparr>" live' ladder]
        by (auto simp: out_def planner_complete_def Let_def split: prod.split)
      ultimately show ?thesis by (simp add: exchange_fuel_def exchange_aged_def ph LiveIndividual)
    qed
  qed (use ok in simp)
qed

lemma aged_run_done:
  assumes "tx_inv am h ex (Some c)" "exchange_fuel ex \<le> length steps"
    "\<forall>(_, _, now, _) \<in> set steps. exchange_aged ex now"
  shows "exchange_is_done (complete_run ex steps)"
  using assms
proof (induction steps arbitrary: h ex c)
  case Nil
  then show ?case
    using retry_fuel_live
    by (auto simp: tx_inv_def exchange_fuel_def exchange_is_done_def split: Phase.splits Live.splits) fastforce
next
  case (Cons e steps)
  obtain planner completion now ladder where e: "e = (planner, completion, now, ladder)" by (cases e)
  obtain step ex' where res: "planner_complete planner ex completion now ladder = (step, ex')" by force
  note inv = complete_inv [OF Cons.prems(1) res]
  show ?case
  proof (cases "exchange_is_done ex'")
    case True
    then show ?thesis using done_stays by (simp add: e res)
  next
    case False
    with complete_fuel [OF Cons.prems(1), of now planner completion ladder] Cons.prems(3)
    have f: "exchange_fuel ex' < exchange_fuel ex" "\<forall>now'. exchange_aged ex' now'" by (auto simp: e res)
    from inv False obtain c' where "tx_inv am (h @ [(c, completion)]) ex' (Some c')"
      by (auto simp: tx_inv_def exchange_is_done_def split: Phase.splits TxStep.splits)
    from Cons.IH [OF this] f Cons.prems(2) show ?thesis by (auto simp: e res)
  qed
qed

subsection \<open>Properties\<close>

text \<open>
  C13. The report of an A-MPDU exchange is what happened on the air.  Whatever the hardware reported of
  each attempt, whenever the completions arrived and however the Block Ack agreement changed between
  them, an ended exchange reports as many delivered subframes as were acknowledged by some BlockAck
  or individual ACK, and reports delivery exactly when every subframe of the request was.
\<close>

theorem ampdu_report_accounts_for_every_subframe:
  assumes "tx_trace request h ex None" "request_body request = AmpduBody am"
  shows "\<exists>st. exchange_report ex = Some (AmpduReport st)
    \<and> unat (original_subframes st) = unat (req_subframes am)
    \<and> unat (delivered_subframes st) = card (acked am h)
    \<and> (ampdu_result st = Delivered \<longleftrightarrow> acked am h = {..<unat (req_subframes am)})
    \<and> (fully_delivered st \<longleftrightarrow> acked am h = {..<unat (req_subframes am)})"
proof -
  let ?n = "unat (req_subframes am)"
  have inv: "tx_inv am h ex None" by (rule trace_inv [OF assms])
  then have A: "acked am h \<subseteq> {..<?n}" and n: "?n \<le> 64" by (simp_all add: tx_inv_def)
  from inv obtain report body where ph: "ex_phase ex = PhaseDone report body"
    and "report_ok am (acked am h) report"
    by (auto simp: tx_inv_def split: Phase.splits)
  then obtain st where r: "report = AmpduReport st" and ok: "report_ok am (acked am h) (AmpduReport st)"
    by (cases report) simp_all
  have full: "card (acked am h) = ?n \<longleftrightarrow> acked am h = {..<?n}"
    using A by (metis card_lessThan card_subset_eq finite_lessThan)
  have u: "unat (original_subframes st) = ?n"
    using ok n by (simp add: unsigned_ucast_eq take_bit_eq_mod)
  then have "delivered_subframes st = original_subframes st \<longleftrightarrow> card (acked am h) = ?n"
    using ok by (metis report_ok.simps(2) word_unat_eq_iff)
  then have "fully_delivered st \<longleftrightarrow> acked am h = {..<?n}" using ok full by (auto simp: fully_delivered_def)
  then show ?thesis using ok full u by (simp add: ph r exchange_report_def)
qed


text \<open>
  C32. An exchange whose lifetime has run out ends.  From any point of an A-MPDU exchange, if the clock of
  every further completion is past the aggregate's aging threshold, at most 64 times 509 completions
  bring the report, whatever they say: an aged aggregate is not retried, and each of at most 64
  individual retransmissions ends within its retry limits (two \<open>u8\<close> limits).
\<close>

theorem aged_exchange_ends:
  assumes "tx_trace request h ex (Some c)" "request_body request = AmpduBody am"
    and "509 * unat (req_subframes am) \<le> length steps"
    and "\<forall>(_, _, now, _) \<in> set steps. exchange_aged ex now"
  shows "\<exists>report. exchange_report (complete_run ex steps) = Some report"
proof -
  have inv: "tx_inv am h ex (Some c)" by (rule trace_inv [OF assms(1,2)])
  from inv obtain live where ph: "ex_phase ex = PhaseLive live" by (cases "ex_phase ex") (simp_all add: tx_inv_def)
  with inv have ok: "live_ok am (acked am h) (ex_individual ex) live"
    and A: "acked am h \<subseteq> {..<unat (req_subframes am)}" by (simp_all add: tx_inv_def)
  have fuel: "exchange_fuel ex \<le> 509 * unat (req_subframes am)"
  proof (cases live)
    case (LiveIndividual st rem retry am' len)
    with ok have "count_ones rem \<le> unat (req_subframes am)" "count_ones rem \<noteq> 0" by simp_all
    then have "509 * (count_ones rem - 1) + 509 \<le> 509 * unat (req_subframes am)"
      by (cases "count_ones rem") simp_all
    then show ?thesis by (simp add: exchange_fuel_def ph LiveIndividual retry_fuel_def)
  next
    case (LiveAggregate st am')
    with ok agg_card(2) [OF _ A, of st] show ?thesis by (simp add: exchange_fuel_def ph)
  next
    case (LiveBlockAckRequest st am')
    with ok agg_card(2) [OF _ A, of st] show ?thesis by (simp add: exchange_fuel_def ph)
  qed (use ok in simp)
  have "exchange_is_done (complete_run ex steps)"
    using fuel assms(3) by (intro aged_run_done [OF inv _ assms(4)]) simp
  then show ?thesis by (cases "ex_phase (complete_run ex steps)") (simp_all add: exchange_is_done_def exchange_report_def)
qed

text \<open>
  The report of an MPDU exchange is what happened on the air.  Every attempt before the last failed
  in a retryable way; each attempt carries the Retry bit exactly when an earlier one ended in an ACK
  timeout; the report says transmitted exactly when the last attempt succeeded, and counts the
  attempts, up to the counter's maximum.
\<close>

theorem mpdu_report_accounts_for_every_attempt:
  assumes "tx_trace request h ex c" "request_body request = MpduBody mpdu"
  shows "case c of
      Some content \<Rightarrow> content = MpduContent (AckTimeout \<in> set (statuses h)) \<and> exchange_report ex = None
    | None \<Rightarrow> h \<noteq> [] \<and> list_all retryable (butlast (statuses h))
        \<and> (\<exists>st. exchange_report ex = Some (MpduReport st)
            \<and> (tx_result st = Transmitted \<longleftrightarrow> last (statuses h) = Success)
            \<and> tx_acknowledged st
                = (if mpdu_response mpdu = NoResponse then None else Some (last (statuses h) = Success))
            \<and> unat (tx_attempts st) = min 255 (length h))"
  using mpdu_trace_inv [OF assms]
  by (cases "ex_phase ex") (auto simp: mpdu_inv_def exchange_report_def)

subsection \<open>Concrete exchanges\<close>

text \<open>An exchange driven with one planner and ladder, and what it has done so far.\<close>

fun trace_run :: "TxPlanner \<Rightarrow> RateLadder
    \<Rightarrow> (AttemptContent \<times> PublicationReport) list \<times> TxExchange \<times> AttemptContent option
    \<Rightarrow> (PublicationReport \<times> RadioInstant) list
    \<Rightarrow> (AttemptContent \<times> PublicationReport) list \<times> TxExchange \<times> AttemptContent option" where
  "trace_run planner ladder (h, ex, Some c) ((completion, now) # events) =
     (case planner_complete planner ex completion now ladder of
        (AttemptStep plan, ex') \<Rightarrow>
          trace_run planner ladder (h @ [(c, completion)], ex', Some (plan_content plan)) events
      | (DoneStep _, ex') \<Rightarrow> (h @ [(c, completion)], ex', None))"
| "trace_run planner ladder st _ = st"

definition trace_from :: "TxPlanner \<Rightarrow> RateLadder \<Rightarrow> TxRequest \<Rightarrow> (PublicationReport \<times> RadioInstant) list
    \<Rightarrow> ((AttemptContent \<times> PublicationReport) list \<times> TxExchange \<times> AttemptContent option) option" where
  "trace_from planner ladder request events =
     (case planner_begin planner request ladder of
        Ok (ex, plan) \<Rightarrow> Some (trace_run planner ladder ([], ex, Some (plan_content plan)) events)
      | Err _ \<Rightarrow> None)"

lemma trace_run_sound:
  "tx_trace request h ex c \<Longrightarrow> trace_run planner ladder (h, ex, c) events = (h', ex', c') \<Longrightarrow>
   tx_trace request h' ex' c'"
proof (induction planner ladder "(h, ex, c)" events arbitrary: h ex c rule: trace_run.induct)
  case (1 planner ladder h ex c completion now events)
  then show ?case
    by (auto split: prod.splits TxStep.splits intro: tx_trace.intros)
qed auto

lemma trace_from_sound: "trace_from planner ladder request events = Some (h, ex, c) \<Longrightarrow> tx_trace request h ex c"
  by (auto simp: trace_from_def split: result.splits intro: trace_run_sound trace_begin)

definition example_planner :: TxPlanner where
  "example_planner =
     \<lparr>planner_retry_limits = IEEE_DEFAULT,
      planner_ampdu_policy = \<lparr>lifetime = RadioDuration 1000, aged_margin = RadioDuration 0,
        policy_retry_limit = 1, policy_retain_single_mpdu = False\<rparr>,
      planner_protection = ProtectionPolicy_new None, planner_he_budget = ProtectEveryHeTxop\<rparr>"

definition example_ampdu :: AmpduRequest where
  "example_ampdu = \<lparr>req_tid = 0, req_first_sequence = SequenceNumber 4094, req_subframes = 3,
     req_lengths = [100, 101, 102] @ replicate 61 0, req_committed_at = RadioInstant 5000,
     req_block_ack_operational = True\<rparr>"

definition example_tx :: "TxBody \<Rightarrow> TxRequest" where
  "example_tx body = \<lparr>request_access_category = BestEffort, request_initial_rate = Legacy Ofdm54M,
     request_receiver = IndividualReceiver, request_power = Calibrated, request_coex = Normal,
     request_mpdu_retry_limit = 4, request_body = body\<rparr>"

definition example_report :: "TxStatus \<Rightarrow> BlockAckReport option \<Rightarrow> PublicationReport \<times> RadioInstant" where
  "example_report status block_ack =
     (\<lparr>pub_status = status, pub_ack_snr_db = None, pub_block_ack = block_ack\<rparr>, RadioInstant 5100)"

definition example_block_ack :: "PublicationReport \<times> RadioInstant" where
  "example_block_ack = example_report Success (Some \<lparr>start_sequence = SequenceNumber 4094, bitmap = 5\<rparr>)"

lemma trace_viewE:
  assumes "map_option (\<lambda>(h, ex, c). f h ex c) t = Some v"
  obtains h ex c where "t = Some (h, ex, c)" "f h ex c = v"
  using assms by (auto simp: map_option_eq_Some)

definition reported_result :: "TxExchange \<Rightarrow> MacAmpduTxResult option" where
  "reported_result ex =
     (case exchange_report ex of Some (AmpduReport st) \<Rightarrow> Some (ampdu_result st) | _ \<Rightarrow> None)"

lemma example_trace:
  "map_option (\<lambda>(h, ex, c). (map fst h, reported_result ex, c))
     (trace_from example_planner FixedRate (example_tx (AmpduBody example_ampdu))
       [example_block_ack, example_report Success None])
   = Some ([AmpduContent 7 0, SubframeContent 1], Some Delivered, None)"
  by code_simp

theorem ampdu_report_accounts_for_every_subframe_witness:
  "\<exists>h ex. tx_trace (example_tx (AmpduBody example_ampdu)) h ex None
     \<and> map fst h = [AmpduContent 7 0, SubframeContent 1] \<and> acked example_ampdu h = {..<3}"
proof -
  obtain h ex c where tr: "trace_from example_planner FixedRate (example_tx (AmpduBody example_ampdu))
       [example_block_ack, example_report Success None] = Some (h, ex, c)"
    and v: "(map fst h, reported_result ex, c)
       = ([AmpduContent 7 0, SubframeContent 1], Some Delivered, None)"
    by (rule trace_viewE [OF example_trace])
  then have h: "map fst h = [AmpduContent 7 0, SubframeContent 1]" and st: "reported_result ex = Some Delivered"
    and c: "c = None" by (simp_all only: prod.inject)
  have t: "tx_trace (example_tx (AmpduBody example_ampdu)) h ex None" by (rule trace_from_sound [OF tr [unfolded c]])
  have "request_body (example_tx (AmpduBody example_ampdu)) = AmpduBody example_ampdu" by (simp add: example_tx_def)
  from ampdu_report_accounts_for_every_subframe [OF t this] obtain st
    where r: "exchange_report ex = Some (AmpduReport st)"
      "ampdu_result st = Delivered \<longleftrightarrow> acked example_ampdu h = {..<unat (req_subframes example_ampdu)}"
    by (elim exE conjE) (rule that)
  with st have "ampdu_result st = Delivered" by (simp add: reported_result_def)
  with r(2) have "acked example_ampdu h = {..<unat (req_subframes example_ampdu)}" by (rule iffD1)
  moreover have "unat (req_subframes example_ampdu) = 3" by (simp add: example_ampdu_def)
  ultimately have "acked example_ampdu h = {..<3}" by simp
  with t h show ?thesis by (intro exI conjI)
qed

lemma example_trace_retry:
  "map_option (\<lambda>(h, ex, c). (map fst h, c))
     (trace_from example_planner FixedRate (example_tx (AmpduBody example_ampdu)) [example_block_ack])
   = Some ([AmpduContent 7 0], Some (SubframeContent 1))"
  by code_simp


lemma example_trace_start:
  "map_option (\<lambda>(h, ex, c). (h, exchange_aged ex (RadioInstant 6001), c))
     (trace_from example_planner FixedRate (example_tx (AmpduBody example_ampdu)) [])
   = Some ([], True, Some (AmpduContent 7 0))"
  by code_simp

theorem aged_exchange_ends_witness:
  "\<exists>ex report. tx_trace (example_tx (AmpduBody example_ampdu)) [] ex (Some (AmpduContent 7 0))
     \<and> exchange_report (complete_run ex (replicate 1527
          (example_planner, fst (example_report AckTimeout None), RadioInstant 6001, FixedRate))) = Some report"
proof -
  from example_trace_start obtain ex where tr: "trace_from example_planner FixedRate
      (example_tx (AmpduBody example_ampdu)) [] = Some ([], ex, Some (AmpduContent 7 0))"
    and aged: "exchange_aged ex (RadioInstant 6001)"
    by (auto simp: map_option_eq_Some)
  have t: "tx_trace (example_tx (AmpduBody example_ampdu)) [] ex (Some (AmpduContent 7 0))"
    by (rule trace_from_sound [OF tr])
  with aged_exchange_ends [OF t, of example_ampdu
      "replicate 1527 (example_planner, fst (example_report AckTimeout None), RadioInstant 6001, FixedRate)"] aged
  show ?thesis by (auto simp: example_tx_def example_ampdu_def)
qed

definition example_mpdu :: MpduRequest where
  "example_mpdu = \<lparr>mpdu_request_length = 100, mpdu_response = AckResponse\<rparr>"

lemma example_trace_mpdu:
  "map_option (\<lambda>(h, ex, c). (statuses h, map fst h, c))
     (trace_from example_planner FixedRate (example_tx (MpduBody example_mpdu))
       [example_report CtsTimeout None, example_report AckTimeout None, example_report Success None])
   = Some ([CtsTimeout, AckTimeout, Success], [MpduContent False, MpduContent False, MpduContent True], None)"
  by code_simp

theorem mpdu_report_accounts_for_every_attempt_witness:
  "\<exists>h ex st. tx_trace (example_tx (MpduBody example_mpdu)) h ex None
     \<and> exchange_report ex = Some (MpduReport st) \<and> tx_result st = Transmitted \<and> unat (tx_attempts st) = 3"
proof -
  from example_trace_mpdu obtain h ex where tr: "trace_from example_planner FixedRate
      (example_tx (MpduBody example_mpdu))
      [example_report CtsTimeout None, example_report AckTimeout None, example_report Success None] = Some (h, ex, None)"
    and h: "statuses h = [CtsTimeout, AckTimeout, Success]"
    by (auto simp: map_option_eq_Some)
  have t: "tx_trace (example_tx (MpduBody example_mpdu)) h ex None" by (rule trace_from_sound [OF tr])
  have "length h = 3" using h by (metis statuses_simps(3) length_Cons list.size(3) numeral_3_eq_3)
  with mpdu_report_accounts_for_every_attempt [OF t, of example_mpdu] h t show ?thesis
    by (auto simp: example_tx_def)
qed

text \<open>
  A subframe may be sent alone without having been on air: when every protection exchange of the
  aggregate failed and its BlockAckReq went unanswered, the planner hands its subframes over to
  individual transmission.  The comment on \<open>AttemptContent::Subframe\<close> says its Retry bit is set
  because the subframe was on air in an aggregate.
\<close>

lemma example_trace_unsent:
  "map_option (\<lambda>(h, ex, c). (map fst h, map (pub_status \<circ> snd) h, map (pub_block_ack \<circ> snd) h, c))
     (trace_from example_planner FixedRate
       (example_tx (AmpduBody (example_ampdu\<lparr>req_block_ack_operational := False\<rparr>)))
       [example_report CtsTimeout None, example_report AckTimeout None])
   = Some ([AmpduContent 7 0, BlockAckRequestContent 0 (SequenceNumber 4094)], [CtsTimeout, AckTimeout],
       [None, None], Some (SubframeContent 0))"
  by code_simp

theorem subframe_sent_without_being_on_air:
  "\<exists>request h ex. tx_trace request h ex (Some (SubframeContent 0)) \<and> on_air h = {}"
proof -
  from example_trace_unsent obtain h ex where tr: "trace_from example_planner FixedRate
      (example_tx (AmpduBody (example_ampdu\<lparr>req_block_ack_operational := False\<rparr>)))
      [example_report CtsTimeout None, example_report AckTimeout None] = Some (h, ex, Some (SubframeContent 0))"
    and h: "map fst h = [AmpduContent 7 0, BlockAckRequestContent 0 (SequenceNumber 4094)]"
      "map (pub_status \<circ> snd) h = [CtsTimeout, AckTimeout]" "map (pub_block_ack \<circ> snd) h = [None, None]"
    by (auto simp: map_option_eq_Some)
  have "on_air h = {}"
    using h by (cases h; cases "tl h") (auto simp: on_air_def)
  then show ?thesis using trace_from_sound [OF tr] by blast
qed

end
