(* ===== verification/Ampdu_Run.thy ===== *)
theory Ampdu_Run
  imports Tx_Planner
begin

text \<open>
  How many queued frames one A-MPDU carries (\<open>crates/protocols/ieee80211/upper-mac/src/aggregate.rs\<close>)
  over the delimiter and padding geometry of \<open>mac/src/ampdu.rs\<close> and the port's A-MPDU capabilities
  (\<open>lower-mac/src/capabilities.rs\<close>, \<open>lower-mac/src/extensions.rs\<close>).
\<close>

subsection \<open>Geometry\<close>

definition checked_mul :: "'a::len word \<Rightarrow> 'a word \<Rightarrow> 'a word option" where
  "checked_mul a b = (if uint a * uint b < 2 ^ LENGTH('a) then Some (a * b) else None)"

definition empty_delimiters :: "u32 \<Rightarrow> u32 \<Rightarrow> u32 option" where
  "empty_delimiters psdu_bytes minimum_subframe_bytes =
     (if psdu_bytes = 0 then None
      else do {
        rounded \<leftarrow> checked_add psdu_bytes 3;
        complete \<leftarrow> checked_add (rounded AND NOT 3) 4;
        Some (div_ceil (saturating_sub minimum_subframe_bytes complete) 4)
      })"

definition length_after_append :: "u32 \<Rightarrow> (u32 \<times> u32) option \<Rightarrow> u32 \<Rightarrow> u32 option" where
  "length_after_append len previous psdu_bytes =
     (if psdu_bytes = 0 then None
      else do {
        spaced \<leftarrow>
          (case previous of
             None \<Rightarrow> Some len
           | Some (previous_bytes, delimiters) \<Rightarrow>
               if previous_bytes = 0 then None
               else do {
                 empty_bytes \<leftarrow> checked_mul delimiters 4;
                 padded \<leftarrow> checked_add len ((4 - (previous_bytes AND 3)) AND 3);
                 checked_add padded empty_bytes
               });
        delimited \<leftarrow> checked_add spaced 4;
        checked_add delimited psdu_bytes
      })"

subsection \<open>Capabilities and limits\<close>

datatype PhyFormatSet = PhyFormatSet (format_bits: u8)

definition FORMATS_NONE :: PhyFormatSet where "FORMATS_NONE = PhyFormatSet 0"
definition FORMATS_NON_HT :: PhyFormatSet where "FORMATS_NON_HT = PhyFormatSet (push_bit 0 1)"
definition FORMATS_HT :: PhyFormatSet where "FORMATS_HT = PhyFormatSet (push_bit 1 1)"
definition FORMATS_HE :: PhyFormatSet where "FORMATS_HE = PhyFormatSet (push_bit 2 1)"

definition formats_union :: "PhyFormatSet \<Rightarrow> PhyFormatSet \<Rightarrow> PhyFormatSet" where
  "formats_union self other = PhyFormatSet (format_bits self OR format_bits other)"

definition contains_rate :: "PhyFormatSet \<Rightarrow> PhyRate \<Rightarrow> bool" where
  "contains_rate self rate =
     (let b = (case rate of
                 Legacy _ \<Rightarrow> format_bits FORMATS_NON_HT
               | Ht _ \<Rightarrow> format_bits FORMATS_HT
               | He _ \<Rightarrow> format_bits FORMATS_HE)
      in format_bits self AND b \<noteq> 0)"

record AmpduCapabilities =
  max_subframes :: u16
  cap_formats :: PhyFormatSet
  cap_max_length :: u32

definition BLOCK_ACK_RESPONSE_MICROS :: u32 where
  "BLOCK_ACK_RESPONSE_MICROS = 10 + max_ppdu_duration_micros (Legacy Ofdm6M) 32"

definition subframe_bound :: "nat \<Rightarrow> u32 option" where
  "subframe_bound ethernet_len =
     (if int ethernet_len < 2 ^ 32
      then map_option (\<lambda>len. len AND NOT 3) (checked_add (of_nat ethernet_len) (4 + 26 + 8 + 8 + 8 + 4 + 3))
      else None)"

record AmpduLimits =
  limits_window :: u16
  limits_port :: AmpduCapabilities
  peer_ampdu_parameters :: u8
  txop_limit_micros :: "u32 option"
  limits_rate :: PhyRate

definition peer_max_length :: "AmpduLimits \<Rightarrow> u32" where
  "peer_max_length self =
     (let e = peer_ampdu_parameters self AND 0x03
      in if e = 0 then 0x1fff else if e = 1 then 0x3fff else if e = 2 then 0x7fff else 0xffff)"

definition min_mpdu_start_spacing :: "AmpduLimits \<Rightarrow> u8" where
  "min_mpdu_start_spacing self = drop_bit 2 (peer_ampdu_parameters self) AND 0x07"

record AmpduRun =
  run_limits :: AmpduLimits
  run_limit :: nat
  run_maximum :: u32
  run_length :: u32
  run_previous :: "(u32 \<times> u32) option"
  minimum_subframe_bytes :: u32
  run_frames :: nat

definition run_begin :: "AmpduLimits \<Rightarrow> AmpduRun option" where
  "run_begin self = do {
     minimum \<leftarrow> minimum_mpdu_spacing_bytes (limits_rate self) (min_mpdu_start_spacing self);
     (if contains_rate (cap_formats (limits_port self)) (limits_rate self)
      then Some \<lparr>run_limits = self,
                 run_limit = min (min (unat (limits_window self)) (unat (max_subframes (limits_port self))))
                               (unat MAX_AMPDU_SUBFRAMES),
                 run_maximum = min (peer_max_length self) (cap_max_length (limits_port self)),
                 run_length = 0, run_previous = None, minimum_subframe_bytes = minimum, run_frames = 0\<rparr>
      else None)
   }"

text \<open>The TXOP check: the aggregate and its BlockAck, or an overflow of their sum, exceed the limit.\<close>

definition exceeds_txop :: "AmpduLimits \<Rightarrow> u32 \<Rightarrow> bool" where
  "exceeds_txop self len =
     (case txop_limit_micros self of
        None \<Rightarrow> False
      | Some txop \<Rightarrow>
          (case checked_add (max_ppdu_duration_micros (limits_rate self) len) BLOCK_ACK_RESPONSE_MICROS of
             None \<Rightarrow> True
           | Some duration \<Rightarrow> duration > txop))"

definition admit_step :: "AmpduRun \<Rightarrow> nat \<Rightarrow> AmpduRun option" where
  "admit_step self ethernet_len =
     (if run_frames self = run_limit self then None
      else do {
        psdu \<leftarrow> Option.bind (subframe_bound ethernet_len) (\<lambda>subframe. checked_sub subframe 4);
        delimiters \<leftarrow> empty_delimiters psdu (minimum_subframe_bytes self);
        len \<leftarrow> length_after_append (run_length self) (run_previous self) psdu;
        (if len > run_maximum self \<or> exceeds_txop (run_limits self) len then None
         else Some (self\<lparr>run_length := len, run_previous := Some (psdu, delimiters),
                         run_frames := run_frames self + 1\<rparr>))
      })"

definition run_admit :: "AmpduRun \<Rightarrow> nat \<Rightarrow> bool \<times> AmpduRun" where
  "run_admit self ethernet_len =
     (case admit_step self ethernet_len of Some self' \<Rightarrow> (True, self') | None \<Rightarrow> (False, self))"

fun run_loop :: "AmpduRun \<Rightarrow> nat list \<Rightarrow> AmpduRun" where
  "run_loop run [] = run"
| "run_loop run (ethernet_len # rest) =
     (case run_admit run ethernet_len of (True, run) \<Rightarrow> run_loop run rest | (False, run) \<Rightarrow> run)"

definition limits_run :: "AmpduLimits \<Rightarrow> nat list \<Rightarrow> nat" where
  "limits_run self ethernet_lens =
     (case run_begin self of None \<Rightarrow> 0 | Some run \<Rightarrow> run_frames (run_loop run ethernet_lens))"

subsection \<open>The layout of an aggregate\<close>

text \<open>
  What the geometry computes: a non-final subframe takes its delimiter and its PSDU padded to four
  octets, and empty delimiters up to the minimum start spacing; the final one its delimiter and PSDU.
\<close>

definition pad4 :: "nat \<Rightarrow> nat" where "pad4 n = 4 * ((n + 3) div 4)"

definition slot :: "nat \<Rightarrow> nat \<Rightarrow> nat" where "slot spacing p = max (4 + pad4 p) (pad4 spacing)"

definition layout :: "nat \<Rightarrow> nat list \<Rightarrow> nat" where
  "layout spacing ps = (if ps = [] then 0 else sum_list (map (slot spacing) (butlast ps)) + 4 + last ps)"

lemma unat_and_not_3: "unat (w AND - 4) = 4 * (unat w div 4)" for w :: u32
proof -
  have "(- 4 :: u32) = NOT (mask 2)" by (simp add: mask_eq_exp_minus_1)
  moreover have "w AND NOT (mask 2) = push_bit 2 (drop_bit 2 w)"
    by (rule bit_word_eqI) (auto simp: bit_simps simp flip: add_2_eq_Suc)
  ultimately have "unat (w AND - 4) = unat (push_bit 2 (drop_bit 2 w))" by (simp only:)
  also have "\<dots> = take_bit 32 (push_bit 2 (unat w div 4))"
    by (simp add: unsigned_push_bit_eq unsigned_drop_bit_eq drop_bit_eq_div take_bit_eq_mod unat_div)
  also have "\<dots> = 4 * (unat w div 4)"
    using unsigned_less [of w, where ?'a = nat] by (simp add: push_bit_eq_mult take_bit_nat_eq_self)
  finally show ?thesis .
qed

lemma unat_and_3: "unat (w AND 3) = unat w mod 4" for w :: u32
proof -
  have "(3 :: u32) = mask 2" by (simp add: mask_eq_exp_minus_1)
  then have "w AND 3 = take_bit 2 w" by (simp add: take_bit_eq_mask)
  then show ?thesis by (simp add: take_bit_eq_mod unat_mod)
qed

lemma pad4_cases: "pad4 (4 * q) = 4 * q" "0 < r \<Longrightarrow> r < 4 \<Longrightarrow> pad4 (4 * q + r) = 4 * q + 4"
  by (simp add: pad4_def, unfold pad4_def, arith)

lemma pad4_add4: "pad4 (4 + n) = 4 + pad4 n"
  unfolding pad4_def by arith

lemma ceil4: "n div 4 + (if n mod 4 = 0 then 0 else 1) = (n + 3) div (4 :: nat)"
  by arith

lemma pad4_ge: "n \<le> pad4 n" and pad4_less: "pad4 n < n + 4" and pad4_mod: "pad4 n mod 4 = 0"
  by (simp_all add: pad4_def)

lemma unat_padding: "unat ((4 - (w AND 3)) AND 3) = (pad4 (unat w) - unat w)" for w :: u32
proof -
  have le: "w AND 3 \<le> 4" by (simp add: word_le_nat_alt unat_and_3)
  have "unat ((4 - (w AND 3)) AND 3) = (4 - unat w mod 4) mod 4"
    using le by (simp add: unat_and_3 unat_sub)
  also have "\<dots> = pad4 (unat w) - unat w"
  proof (cases "unat w mod 4 = 0")
    case True
    then show ?thesis using pad4_cases(1) [of "unat w div 4"] mult_div_mod_eq [of 4 "unat w"] by simp
  next
    case False
    then have "pad4 (unat w) = 4 * (unat w div 4) + 4" "(4 - unat w mod 4) mod 4 = 4 - unat w mod 4"
      using pad4_cases(2) [of "unat w mod 4" "unat w div 4"] mult_div_mod_eq [of 4 "unat w"] by simp_all
    then show ?thesis using mult_div_mod_eq [of 4 "unat w"] by linarith
  qed
  finally show ?thesis .
qed

lemma slot_delimiters:
  assumes "c mod 4 = 0"
  shows "c + 4 * ((m - c + 3) div 4) = max c (pad4 m)"
proof -
  from assms obtain q where c: "c = 4 * q" by (metis mod_0_imp_dvd dvd_def)
  show ?thesis
  proof (cases "m \<le> c")
    case True
    then have "pad4 m \<le> c" using pad4_def c by (simp add: div_le_mono)
    with True show ?thesis by (simp add: max_def)
  next
    case False
    then obtain k where "m = c + k" "0 < k" by (metis add_diff_inverse_nat leI less_imp_le_nat nat_le_iff_add not_gr_zero add_0_right order_refl)
    moreover have "(4 * q + k + 3) div 4 = q + (k + 3) div 4" by arith
    ultimately show ?thesis by (simp add: c pad4_def max_def)
  qed
qed

lemma empty_delimiters_eq:
  assumes "empty_delimiters p m = Some d"
  shows "4 + pad4 (unat p) + 4 * unat d = slot (unat m) (unat p)" "p \<noteq> 0"
proof -
  obtain r c where p: "p \<noteq> 0" and r: "checked_add p 3 = Some r" and c: "checked_add (r AND - 4) 4 = Some c"
    and d: "d = div_ceil (saturating_sub m c) 4"
    using assms by (auto simp: empty_delimiters_def bind_eq_Some_conv split: if_splits)
  have uc: "unat c = 4 + pad4 (unat p)"
    using unat_checked_add [OF r] unat_checked_add [OF c] by (simp add: unat_and_not_3 pad4_def)
  have "unat d = (unat m - unat c + 3) div 4"
    using unat_div_ceil [of 4 "saturating_sub m c"] ceil4 [of "unat m - unat c"]
    by (simp add: d unat_saturating_sub)
  then show "4 + pad4 (unat p) + 4 * unat d = slot (unat m) (unat p)"
    using slot_delimiters [of "4 + pad4 (unat p)" "unat m"] pad4_mod [of "unat p"]
    by (simp add: uc slot_def) 
  show "p \<noteq> 0" by (rule p)
qed

lemma unat_checked_mul: "checked_mul a b = Some c \<Longrightarrow> unat c = unat a * unat b" for a b :: "'a::len word"
proof -
  assume c: "checked_mul a b = Some c"
  then have "int (unat a * unat b) < int (2 ^ LENGTH('a))" by (simp add: checked_mul_def split: if_splits)
  then show ?thesis using c unfolding of_nat_less_iff by (auto simp: checked_mul_def unat_mult_small split: if_splits)
qed

lemma length_after_append_eq:
  assumes "length_after_append len prev p = Some len'"
  shows "unat len' = unat len
      + (case prev of None \<Rightarrow> 0 | Some (q, d) \<Rightarrow> pad4 (unat q) - unat q + 4 * unat d) + 4 + unat p"
  using assms
  by (auto simp: length_after_append_def bind_eq_Some_conv unat_padding
      dest!: unat_checked_add unat_checked_mul split: if_splits option.splits)

lemma layout_snoc:
  "layout m (ps @ [q]) = (if ps = [] then 0 else sum_list (map (slot m) ps)) + 4 + q"
  "layout m (ps @ [p, q]) = layout m (ps @ [p]) + (slot m p - (4 + p)) + 4 + q"
proof -
  show "layout m (ps @ [q]) = (if ps = [] then 0 else sum_list (map (slot m) ps)) + 4 + q"
    by (simp add: layout_def)
  have "4 + p \<le> slot m p" by (simp add: slot_def pad4_def)
  then show "layout m (ps @ [p, q]) = layout m (ps @ [p]) + (slot m p - (4 + p)) + 4 + q"
    by (simp add: layout_def butlast_append)
qed

lemma pad4_mono: "a \<le> b \<Longrightarrow> pad4 a \<le> pad4 b"
  by (simp add: pad4_def div_le_mono)

lemma slot_mono: "p \<le> q \<Longrightarrow> slot m p \<le> slot m q"
  using pad4_mono [of p q] by (auto simp: slot_def)

lemma layout_mono: "list_all2 (\<le>) ps qs \<Longrightarrow> layout m ps \<le> layout m qs"
proof (induction ps arbitrary: qs rule: rev_induct)
  case (snoc p ps)
  then obtain q qs' where qs: "qs = qs' @ [q]" "list_all2 (\<le>) ps qs'" "p \<le> q"
    by (auto simp: list_all2_append1 list_all2_Cons1)
  have "sum_list (map (slot m) ps) \<le> sum_list (map (slot m) qs')"
    using qs(2) by (induction rule: list_all2_induct) (auto intro!: add_mono slot_mono)
  moreover have "ps = [] \<longleftrightarrow> qs' = []" using qs(2) by auto
  ultimately show ?case using qs(3) by (auto simp: qs(1) layout_snoc)
qed (simp add: layout_def)

subsection \<open>The run being built\<close>

text \<open>The PSDU an Ethernet frame is counted as.\<close>

definition psdu_bound :: "nat \<Rightarrow> nat" where "psdu_bound l = pad4 (l + 58) - 4"

lemma psdu_bound_ge: "l + 54 \<le> psdu_bound l"
  using pad4_ge [of "l + 58"] by (simp add: psdu_bound_def)

lemma subframe_bound_eq: "subframe_bound l = Some b \<Longrightarrow> unat b = pad4 (l + 58)"
  by (auto simp: subframe_bound_def unat_and_not_3 pad4_def unat_of_nat dest!: unat_checked_add split: if_splits)

text \<open>A length and previous subframe that describe the subframes appended so far.\<close>

definition appending :: "nat \<Rightarrow> nat list \<Rightarrow> u32 \<Rightarrow> (u32 \<times> u32) option \<Rightarrow> bool" where
  "appending m ps len prev \<longleftrightarrow>
     unat len = layout m ps
     \<and> (case prev of
          None \<Rightarrow> ps = []
        | Some (p, d) \<Rightarrow>
            ps \<noteq> [] \<and> last ps = unat p \<and> p \<noteq> 0 \<and> 4 + pad4 (unat p) + 4 * unat d = slot m (unat p))"

lemma appended_layout:
  assumes "appending m ps len prev" "length_after_append len prev p = Some len'"
  shows "unat len' = layout m (ps @ [unat p])"
proof (cases prev)
  case None
  with assms length_after_append_eq [OF assms(2)] show ?thesis by (simp add: appending_def layout_def)
next
  case (Some qd)
  obtain q d where qd: "qd = (q, d)" by force
  with assms(1) Some have ps: "ps \<noteq> []" "last ps = unat q" "4 + pad4 (unat q) + 4 * unat d = slot m (unat q)"
    and l: "unat len = layout m ps" by (auto simp: appending_def)
  have split: "ps = butlast ps @ [unat q]" using ps(1,2) by (metis append_butlast_last_id)
  have "pad4 (unat q) - unat q + 4 * unat d = slot m (unat q) - (4 + unat q)"
    using ps(3) pad4_ge [of "unat q"] by linarith
  then show ?thesis
    using length_after_append_eq [OF assms(2)] layout_snoc(2) [of m "butlast ps" "unat q" "unat p"] l
    by (simp add: Some qd flip: split) (metis append_Cons append_Nil append_assoc split)
qed

lemma appending_step:
  assumes "appending m ps len prev" "length_after_append len prev p = Some len'"
    "empty_delimiters p sp = Some d" "unat sp = m"
  shows "appending m (ps @ [unat p]) len' (Some (p, d))"
  using appended_layout [OF assms(1,2)] empty_delimiters_eq [OF assms(3)] assms(4) by (simp add: appending_def)

definition run_ok :: "AmpduLimits \<Rightarrow> nat \<Rightarrow> nat list \<Rightarrow> AmpduRun \<Rightarrow> bool" where
  "run_ok lim m ps r \<longleftrightarrow>
     run_limits r = lim \<and> unat (minimum_subframe_bytes r) = m
     \<and> run_limit r = min (min (unat (limits_window lim)) (unat (max_subframes (limits_port lim)))) 64
     \<and> run_maximum r = min (peer_max_length lim) (cap_max_length (limits_port lim))
     \<and> run_frames r = length ps \<and> length ps \<le> run_limit r
     \<and> appending m ps (run_length r) (run_previous r) \<and> run_length r \<le> run_maximum r
     \<and> (ps \<noteq> [] \<longrightarrow> \<not> exceeds_txop lim (run_length r))"

lemma run_begin_ok:
  assumes "run_begin lim = Some r"
  shows "\<exists>m. minimum_mpdu_spacing_bytes (limits_rate lim) (min_mpdu_start_spacing lim) = Some m
    \<and> contains_rate (cap_formats (limits_port lim)) (limits_rate lim) \<and> run_ok lim (unat m) [] r"
  using assms
  by (auto simp: run_begin_def bind_eq_Some_conv run_ok_def appending_def layout_def MAX_AMPDU_SUBFRAMES_def split: if_splits)

lemma admit_step_ok:
  assumes ok: "run_ok lim m ps r" and step: "admit_step r l = Some r'"
  shows "run_ok lim m (ps @ [psdu_bound l]) r'"
proof -
  obtain b p d len where fr: "run_frames r \<noteq> run_limit r" and b: "subframe_bound l = Some b" "checked_sub b 4 = Some p"
    and d: "empty_delimiters p (minimum_subframe_bytes r) = Some d"
    and len: "length_after_append (run_length r) (run_previous r) p = Some len"
    and fit: "len \<le> run_maximum r" "\<not> exceeds_txop (run_limits r) len"
    and r': "r' = r\<lparr>run_length := len, run_previous := Some (p, d), run_frames := run_frames r + 1\<rparr>"
    using step by (auto simp: admit_step_def bind_eq_Some_conv not_less split: if_splits)
  have p: "unat p = psdu_bound l"
    using b subframe_bound_eq [OF b(1)]
    by (auto simp: checked_sub_def psdu_bound_def unat_sub word_le_nat_alt split: if_splits)
  have "appending m (ps @ [psdu_bound l]) len (Some (p, d))"
    using appending_step [OF _ len d] ok by (simp add: run_ok_def p)
  then show ?thesis using ok fr fit by (auto simp: run_ok_def r')
qed

lemma run_loop_ok:
  assumes "run_ok lim m ps r"
  shows "\<exists>k \<le> length ls. run_ok lim m (ps @ map psdu_bound (take k ls)) (run_loop r ls)
    \<and> (k < length ls \<longrightarrow> admit_step (run_loop r ls) (ls ! k) = None)"
  using assms
proof (induction ls arbitrary: ps r)
  case (Cons l ls)
  show ?case
  proof (cases "admit_step r l")
    case None
    with Cons.prems show ?thesis by (intro exI [of _ 0]) (simp add: run_admit_def)
  next
    case (Some r')
    from Cons.IH [OF admit_step_ok [OF Cons.prems Some]] obtain k where
      "k \<le> length ls" "run_ok lim m ((ps @ [psdu_bound l]) @ map psdu_bound (take k ls)) (run_loop r' ls)"
      "k < length ls \<longrightarrow> admit_step (run_loop r' ls) (ls ! k) = None" by blast
    with Some show ?thesis by (intro exI [of _ "Suc k"]) (simp add: run_admit_def)
  qed
qed simp

text \<open>No step overflows while the layout fits a word.\<close>

lemma checked_add_total: "unat a + unat b < 2 ^ LENGTH('a) \<Longrightarrow> \<exists>c. checked_add a b = Some c" for a b :: "'a::len word"
  by (simp add: checked_add_def)

lemma checked_mul_total: "unat a * unat b < 2 ^ LENGTH('a) \<Longrightarrow> \<exists>c. checked_mul a b = Some c" for a b :: "'a::len word"
proof -
  assume "unat a * unat b < 2 ^ LENGTH('a)"
  then have "int (unat a * unat b) < int (2 ^ LENGTH('a))" unfolding of_nat_less_iff .
  then show ?thesis by (simp add: checked_mul_def)
qed

lemma length_after_append_total:
  assumes "p \<noteq> 0" "case prev of None \<Rightarrow> True | Some (q, d) \<Rightarrow> q \<noteq> 0"
    and "unat len + (case prev of None \<Rightarrow> 0 | Some (q, d) \<Rightarrow> pad4 (unat q) - unat q + 4 * unat d) + 4 + unat p < 2 ^ 32"
  shows "\<exists>len'. length_after_append len prev p = Some len'"
proof -
  have tail: "\<exists>len'. Option.bind (checked_add s 4) (\<lambda>t. checked_add t p) = Some len'"
    if "unat s + 4 + unat p < 2 ^ 32" for s :: u32
  proof -
    from that obtain t where t: "checked_add s 4 = Some t" using checked_add_total [of s 4] by auto
    with unat_checked_add [OF t] that show ?thesis using checked_add_total [of t p] by auto
  qed
  show ?thesis
  proof (cases prev)
    case None
    then show ?thesis using tail [of len] assms by (simp add: length_after_append_def)
  next
    case (Some qd)
    obtain q d where qd: "qd = (q, d)" by force
    let ?pad = "(4 - (q AND 3)) AND 3"
    have sum: "unat len + unat ?pad + 4 * unat d + 4 + unat p < 2 ^ 32"
      using assms(3) by (simp add: Some qd unat_padding)
    have "4 * unat d < 2 ^ 32" using sum by linarith
    then obtain e where e: "checked_mul d 4 = Some e" using checked_mul_total [of d 4] by auto
    obtain a where a: "checked_add len ?pad = Some a" using sum checked_add_total [of len ?pad] by auto
    obtain b where b: "checked_add a e = Some b"
      using sum unat_checked_add [OF a] unat_checked_mul [OF e] checked_add_total [of a e] by auto
    have "unat b + 4 + unat p < 2 ^ 32"
      using sum unat_checked_add [OF a] unat_checked_mul [OF e] unat_checked_add [OF b] by simp
    from tail [OF this] show ?thesis
      using assms(1,2) by (simp add: length_after_append_def Some qd e a b)
  qed
qed

lemma empty_delimiters_total:
  assumes "p \<noteq> 0" "unat p + 7 < 2 ^ 32"
  shows "\<exists>d. empty_delimiters p m = Some d"
proof -
  obtain r where r: "checked_add p 3 = Some r" using assms(2) checked_add_total [of p 3] by auto
  have "unat (r AND - 4) \<le> unat p + 3" using unat_checked_add [OF r] by (simp add: unat_and_not_3)
  then obtain c where "checked_add (r AND - 4) 4 = Some c"
    using assms(2) checked_add_total [of "r AND - 4" 4] by auto
  with r assms(1) show ?thesis by (simp add: empty_delimiters_def)
qed

lemma appending_total:
  assumes app: "appending m ps len prev" and "p \<noteq> 0" "layout m (ps @ [unat p]) + 7 < 2 ^ 32"
  shows "\<exists>len' d. length_after_append len prev p = Some len' \<and> empty_delimiters p sp = Some d"
proof -
  have "unat p \<le> layout m (ps @ [unat p])" by (simp add: layout_def)
  then have "\<exists>d. empty_delimiters p sp = Some d" using assms by (intro empty_delimiters_total) simp_all
  moreover have "\<exists>len'. length_after_append len prev p = Some len'"
  proof (cases prev)
    case None
    with assms show ?thesis by (intro length_after_append_total) (auto simp: appending_def layout_def)
  next
    case (Some qd)
    obtain q d where qd: "qd = (q, d)" by force
    with app Some have ps: "ps \<noteq> []" "last ps = unat q" "q \<noteq> 0" "4 + pad4 (unat q) + 4 * unat d = slot m (unat q)"
      and l: "unat len = layout m ps" by (auto simp: appending_def)
    have split: "butlast ps @ [unat q] = ps" using ps(1,2) by (metis append_butlast_last_id)
    have "layout m (ps @ [unat p]) = layout m ps + (slot m (unat q) - (4 + unat q)) + 4 + unat p"
      using layout_snoc(2) [of m "butlast ps" "unat q" "unat p"] split
      by (metis append_Cons append_Nil append_assoc)
    moreover have "pad4 (unat q) - unat q + 4 * unat d = slot m (unat q) - (4 + unat q)"
      using ps(4) pad4_ge [of "unat q"] by linarith
    ultimately show ?thesis
      using assms ps(3) l by (intro length_after_append_total) (simp_all add: Some qd)
  qed
  ultimately show ?thesis by blast
qed

text \<open>Appending a whole list of PSDUs, as an encoder does.\<close>

fun append_all :: "u32 \<Rightarrow> u32 \<Rightarrow> (u32 \<times> u32) option \<Rightarrow> u32 list \<Rightarrow> u32 option" where
  "append_all sp len prev [] = Some len"
| "append_all sp len prev (p # ps) = do {
     delimiters \<leftarrow> empty_delimiters p sp;
     len' \<leftarrow> length_after_append len prev p;
     append_all sp len' (Some (p, delimiters)) ps
   }"

lemma layout_prefix: "layout m qs \<le> layout m (qs @ ps)"
proof (induction ps rule: rev_induct)
  case (snoc p ps)
  have "x \<le> slot m x + p" for x using pad4_ge [of x] by (simp add: slot_def)
  then have "layout m xs \<le> layout m (xs @ [p])" for xs
    by (cases xs rule: rev_cases) (auto simp: layout_def butlast_append intro: trans_le_add1)
  from order_trans [OF snoc this] show ?case by simp
qed simp

lemma append_all_layout:
  assumes "appending (unat sp) qs len prev" "\<forall>p\<in>set ps. p \<noteq> 0" "layout (unat sp) (qs @ map unat ps) + 7 < 2 ^ 32"
  shows "append_all sp len prev ps = Some (of_nat (layout (unat sp) (qs @ map unat ps)))"
  using assms
proof (induction ps arbitrary: qs len prev)
  case Nil
  then have "unat len = layout (unat sp) qs" by (simp add: appending_def)
  then show ?case using of_nat_unat [of len, where ?'a = "32 word"] by simp
next
  case (Cons p ps)
  have "layout (unat sp) (qs @ [unat p]) \<le> layout (unat sp) (qs @ map unat (p # ps))"
    using layout_prefix [of "unat sp" "qs @ [unat p]" "map unat ps"] by simp
  then obtain len' d where step: "length_after_append len prev p = Some len'" "empty_delimiters p sp = Some d"
    using appending_total [OF Cons.prems(1), of p sp] Cons.prems(2,3) by auto
  have app: "appending (unat sp) (qs @ [unat p]) len' (Some (p, d))"
    by (rule appending_step [OF Cons.prems(1) step refl])
  show ?case using Cons.IH [OF app] Cons.prems(2,3) by (simp add: step)
qed

subsection \<open>The planner's aggregate length\<close>

lemma layout_Nil [simp]: "layout m [] = 0"
  by (simp add: layout_def)

lemma appending_Nil: "appending m [] 0 None"
  by (simp add: appending_def)

lemma layout_Cons: "layout m (p # ps) = (if ps = [] then 4 + p else slot m p + layout m ps)"
  by (simp add: layout_def)

lemma layout_le: "\<forall>p\<in>set ps. slot m p \<le> B \<Longrightarrow> layout m ps \<le> B * length ps"
proof (induction ps)
  case (Cons p ps)
  have "4 + p \<le> slot m p" using pad4_ge [of p] by (simp add: slot_def)
  with Cons show ?case by (auto simp: layout_Cons)
qed (simp add: layout_def)

lemma slot_u16: "unat x + 4 \<le> slot 0 (unat x)" "slot 0 (unat x) \<le> 65544" for x :: u16
  using unsigned_less [of x, where ?'a = nat] pad4_less [of "unat x"] pad4_ge [of "unat x"]
  by (simp_all add: slot_def) (simp_all add: pad4_def)

lemma unat_next_multiple_of_4:
  assumes "unat x + 4 < 2 ^ 32"
  shows "unat (next_multiple_of_4 x) = pad4 (unat x)"
proof (cases "unat x mod 4 = 0")
  case True
  then have "x mod 4 = 0" by (simp add: unat_mod unat_eq_zero [symmetric])
  with True pad4_cases(1) [of "unat x div 4"] show ?thesis
    using mult_div_mod_eq [of 4 "unat x"] by (simp add: next_multiple_of_4_def)
next
  case False
  then have "x mod 4 \<noteq> 0" by (simp add: unat_mod unat_eq_zero [symmetric])
  moreover have "x mod 4 \<le> 4" by (simp add: word_le_nat_alt unat_mod)
  ultimately have "unat (next_multiple_of_4 x) = unat x + (4 - unat x mod 4)"
    using assms by (simp add: next_multiple_of_4_def unat_word_ariths(1) unat_sub unat_mod)
  also have "\<dots> = pad4 (unat x)"
  proof -
    have "pad4 (unat x) = 4 * (unat x div 4) + 4"
      using False pad4_cases(2) [of "unat x mod 4" "unat x div 4"] mult_div_mod_eq [of 4 "unat x"] by simp
    then show ?thesis using mult_div_mod_eq [of 4 "unat x"] by linarith
  qed
  finally show ?thesis .
qed

lemma aggregate_length_loop_layout:
  "unat len + 65544 * length xs < 2 ^ 32 \<Longrightarrow>
   unat (aggregate_length_loop xs len) = unat len + layout 0 (map unat xs)"
proof (induction xs arbitrary: len)
  case (Cons x xs)
  let ?s = "saturating_add AMPDU_DELIMITER (ucast x) :: u32"
  have x: "unat x < 65536" using unsigned_less [of x, where ?'a = nat] by simp
  have s: "unat ?s = 4 + unat x"
    using x by (simp add: unat_saturating_add AMPDU_DELIMITER_def unsigned_ucast_eq take_bit_nat_eq_self)
  have n: "unat (next_multiple_of_4 ?s) = slot 0 (unat x)"
    using unat_next_multiple_of_4 [of ?s] x by (simp add: s slot_def pad4_add4) (simp add: pad4_def)
  note le = slot_u16(2) [of x]
  then have next_len: "unat (saturating_add len (if xs = [] then ?s else next_multiple_of_4 ?s))
      = unat len + (if xs = [] then 4 + unat x else slot 0 (unat x))"
    using Cons.prems s n x by (simp add: unat_saturating_add)
  have "unat (aggregate_length_loop xs (saturating_add len (if xs = [] then ?s else next_multiple_of_4 ?s)))
      = unat (saturating_add len (if xs = [] then ?s else next_multiple_of_4 ?s)) + layout 0 (map unat xs)"
    by (rule Cons.IH) (use Cons.prems next_len le x in auto)
  then show ?case
    using next_len by (cases "xs = []") (simp_all add: Let_def layout_Cons)
qed simp

subsection \<open>Air time grows with the length\<close>

text \<open>
  A word computation that is monotone and bounded by \<open>B\<close> on arguments up to \<open>N\<close>, and the operations that
  keep this: no sum or product of such computations wraps while its bound fits the word.
\<close>

definition mono_upto :: "nat \<Rightarrow> nat \<Rightarrow> (u32 \<Rightarrow> 'b::len word) \<Rightarrow> bool" where
  "mono_upto N B f \<longleftrightarrow>
     (\<forall>x y. unat x \<le> unat y \<longrightarrow> unat y \<le> N \<longrightarrow> unat (f x) \<le> unat (f y) \<and> unat (f y) \<le> B)"

lemma mono_uptoI:
  "(\<And>x y. unat x \<le> unat y \<Longrightarrow> unat y \<le> N \<Longrightarrow> unat (f x) \<le> unat (f y)) \<Longrightarrow>
   (\<And>y. unat y \<le> N \<Longrightarrow> unat (f y) \<le> B) \<Longrightarrow> mono_upto N B f"
  by (simp add: mono_upto_def)

lemma mono_uptoD:
  assumes "mono_upto N B f" "unat y \<le> N"
  shows "unat (f y) \<le> B" "unat x \<le> unat y \<Longrightarrow> unat (f x) \<le> unat (f y)"
  using assms by (auto simp: mono_upto_def)

lemma mono_const: "unat c \<le> B \<Longrightarrow> mono_upto N B (\<lambda>_. c)"
  by (simp add: mono_upto_def)

lemma mono_id: "mono_upto N N (\<lambda>x. x)"
  by (simp add: mono_upto_def)

lemma mono_exact:
  assumes "\<And>y. unat y \<le> N \<Longrightarrow> unat (h y) = k (unat (f y)) (unat (g y))"
    and "\<And>a b c d. a \<le> b \<Longrightarrow> c \<le> d \<Longrightarrow> k a c \<le> (k b d :: nat)"
    and "mono_upto N B f" "mono_upto N C g"
  shows "mono_upto N (k B C) h"
proof (rule mono_uptoI)
  fix x y :: u32 assume "unat x \<le> unat y" "unat y \<le> N"
  then show "unat (h x) \<le> unat (h y)"
    using assms mono_uptoD(2) [OF assms(3)] mono_uptoD(2) [OF assms(4)] by simp
qed (use assms mono_uptoD(1) [OF assms(3)] mono_uptoD(1) [OF assms(4)] in simp)

lemma mono_ucast:
  fixes f :: "u32 \<Rightarrow> 'b::len word"
  assumes "mono_upto N B f" "B < 2 ^ LENGTH('c)"
  shows "mono_upto N B (\<lambda>x. ucast (f x) :: 'c::len word)"
proof (rule mono_exact [where k = "\<lambda>a c. a" and f = f and g = f and C = B])
  fix y :: u32 assume "unat y \<le> N"
  then have "unat (f y) < 2 ^ LENGTH('c)" using mono_uptoD(1) [OF assms(1)] assms(2) by (metis order_le_less_trans)
  then show "unat (ucast (f y) :: 'c word) = unat (f y)"
    by (simp add: unsigned_ucast_eq take_bit_nat_eq_self)
qed (use assms in auto)

lemma mono_add:
  fixes f g :: "u32 \<Rightarrow> 'b::len word"
  assumes "mono_upto N B f" "mono_upto N C g" "B + C < 2 ^ LENGTH('b)"
  shows "mono_upto N (B + C) (\<lambda>x. f x + g x)"
proof (rule mono_exact [where k = "(+)" and f = f and g = g])
  fix y :: u32 assume "unat y \<le> N"
  then have "unat (f y) + unat (g y) \<le> B + C"
    using mono_uptoD(1) [OF assms(1)] mono_uptoD(1) [OF assms(2)] by (simp add: add_mono)
  then show "unat (f y + g y) = unat (f y) + unat (g y)" using assms(3) by (simp add: unat_word_ariths)
qed (use assms in auto)

lemma mono_mult:
  fixes f g :: "u32 \<Rightarrow> 'b::len word"
  assumes "mono_upto N B f" "mono_upto N C g" "B * C < 2 ^ LENGTH('b)"
  shows "mono_upto N (B * C) (\<lambda>x. f x * g x)"
proof (rule mono_exact [where k = "(*)" and f = f and g = g])
  fix y :: u32 assume "unat y \<le> N"
  then show "unat (f y * g y) = unat (f y) * unat (g y)"
    using mono_uptoD(1) [OF assms(1)] mono_uptoD(1) [OF assms(2)] assms(3) by (intro unat_mult_le) auto
qed (use assms in \<open>auto intro: mult_mono\<close>)

lemma div_ceil_zero: "unat (div_ceil a 0) = (if unat a = 0 then 0 else 1)"
  by (simp add: div_ceil_def unat_eq_zero)

lemma div_ceil_mono:
  assumes "unat a \<le> unat b"
  shows "unat (div_ceil a c) \<le> unat (div_ceil b c)"
proof (cases "c = 0")
  case False
  have "unat b \<le> unat (div_ceil b c) * unat c" using div_ceil_le_iff [OF False, of b] by blast
  then show ?thesis using assms div_ceil_le_iff [OF False, of a "unat (div_ceil b c)"] by simp
qed (use assms in \<open>simp add: div_ceil_zero\<close>)

lemma div_ceil_le: "unat (div_ceil a c) \<le> unat a"
proof (cases "c = 0")
  case False
  then have "1 \<le> unat c" by (simp add: Suc_le_eq unat_gt_0)
  then show ?thesis using div_ceil_le_iff [OF False, of a "unat a"] by simp
qed (simp add: div_ceil_zero)

lemma mono_div_ceil: "mono_upto N B f \<Longrightarrow> mono_upto N B (\<lambda>x. div_ceil (f x) c)"
  by (rule mono_uptoI) (auto intro: div_ceil_mono order_trans [OF div_ceil_le] dest: mono_uptoD)

lemma mono_div_ceil_le:
  assumes "mono_upto N B f" "c \<noteq> 0" "B \<le> K * unat c"
  shows "mono_upto N K (\<lambda>x. div_ceil (f x) c)"
proof (rule mono_uptoI)
  fix y :: u32 assume "unat y \<le> N"
  then show "unat (div_ceil (f y) c) \<le> K"
    unfolding div_ceil_le_iff [OF assms(2)] using mono_uptoD(1) [OF assms(1)] assms(3) by (meson order_trans)
qed (use assms in \<open>auto intro: div_ceil_mono dest: mono_uptoD\<close>)

lemma mono_weaken: "mono_upto N B f \<Longrightarrow> B \<le> C \<Longrightarrow> mono_upto N C f"
  unfolding mono_upto_def by (meson order_trans)

lemma mono_psdu_bits: "mono_upto 65535 524280 (\<lambda>x. 8 * ucast x :: u64)"
  using mono_mult [OF mono_const [of "8 :: u64" 8 65535] mono_ucast [OF mono_id, of 65535]] by simp

lemma encoders_bounds:
  "unat (div_ceil (ucast (w :: u32)) 300000 :: u64) \<le> 14317" "unat (div_ceil (ucast w) 600000 :: u64) \<le> 7159"
proof -
  have "unat (ucast w :: u64) < 2 ^ 32"
    using unsigned_less [of w, where ?'a = nat] by (simp add: unsigned_ucast_eq take_bit_nat_eq_self)
  then show "unat (div_ceil (ucast w) 300000 :: u64) \<le> 14317" "unat (div_ceil (ucast w) 600000 :: u64) \<le> 7159"
    by (simp_all add: div_ceil_le_iff)
qed

lemma mono_times_const:
  fixes f :: "u32 \<Rightarrow> 'b::len word"
  assumes "mono_upto N B f" "unat c \<le> C" "B * C < 2 ^ LENGTH('b)"
  shows "mono_upto N (B * C) (\<lambda>x. f x * c)" "mono_upto N (B * C) (\<lambda>x. c * f x)"
  using mono_mult [OF assms(1) mono_const [OF assms(2)] assms(3)] by (simp_all add: mult.commute)

lemma duration_Ht_mono:
  assumes "rate_ok (Ht r)"
  shows "\<exists>B. mono_upto 65535 B (max_ppdu_duration_micros (Ht r))"
proof -
  define enc where "enc = (div_ceil (ucast (ht_nominal_kbps r)) 300000 :: u64)"
  define bps where "bps = (ucast (ht_nominal_kbps (r\<lparr>ht_short_gi := False\<rparr>)) * 4 div 1000 :: u64)"
  define st where "st = (ucast (ht_spatial_streams (ht_mcs r)) :: u64)"
  define data where "data x = (if ht_short_gi r
      then 4 * div_ceil (div_ceil (16 + 8 * ucast x + 6 * enc) bps * 9) 10
      else 4 * div_ceil (16 + 8 * ucast x + 6 * enc) bps)" for x :: u32
  have st: "unat st \<in> {1, 2, 3, 4}"
  proof -
    have "unat (ht_mcs_index (ht_mcs r)) \<le> 31" using assms by (simp add: word_le_nat_alt)
    then have "unat (ht_spatial_streams (ht_mcs r)) = unat (ht_mcs_index (ht_mcs r)) div 8 + 1"
      "unat (ht_mcs_index (ht_mcs r)) div 8 \<le> 3"
      by (simp_all add: ht_spatial_streams_def unat_word_ariths unat_div)
    then show ?thesis by (auto simp: st_def)
  qed
  have l: "unat (36 + 4 * ((if 2 < st then 4 else st) - 1)) \<le> 48"
  proof -
    have "st \<in> {1, 2, 3, 4}" using st by (auto simp: word_unat_eq_iff)
    then show ?thesis by auto
  qed
  have enc: "unat (6 * enc) \<le> 85902"
    using encoders_bounds(1) [of "ht_nominal_kbps r"] unat_mult_le(2) [of 6 6 enc 14317] by (simp add: enc_def)
  have bits: "mono_upto 65535 (16 + 524280 + 85902) (\<lambda>x. 16 + 8 * ucast x + 6 * enc)"
    using enc by (intro mono_add mono_psdu_bits mono_const) simp_all
  note sym = mono_div_ceil [OF bits, of bps]
  have s9: "mono_upto 65535 5491782 (\<lambda>x. div_ceil (16 + 8 * ucast x + 6 * enc) bps * 9)"
    using mono_times_const(1) [OF sym, of 9 9] by simp
  have data: "mono_upto 65535 22000000 data"
    unfolding data_def
    using mono_times_const(2) [OF mono_div_ceil [OF s9, of 10], of 4 4] mono_times_const(2) [OF sym, of 4 4]
    by (cases "ht_short_gi r") (auto intro: mono_weaken)
  have "mono_upto 65535 (48 + 22000000 + 6) (\<lambda>x. ucast (36 + 4 * ((if 2 < st then 4 else st) - 1) + data x + SIGNAL_EXTENSION) :: u32)"
    using l data by (intro mono_ucast mono_add mono_const) (simp_all add: SIGNAL_EXTENSION_def)
  then show ?thesis
    unfolding max_ppdu_duration_micros.simps Let_def
      enc_def [symmetric] bps_def [symmetric] st_def [symmetric] data_def [symmetric] by blast
qed

lemma duration_He_mono:
  assumes "rate_ok (He r)"
  shows "\<exists>B. mono_upto 65535 B (max_ppdu_duration_micros (He r))"
proof -
  obtain num den where dbps: "data_bits_per_symbol r = (num, den)" by force
  define enc where "enc = (div_ceil (ucast (he_nominal_kbps r)) 600000 :: u64)"
  define st where "st = (ucast (streams_count (he_spatial_streams r)) :: u64)"
  define g where "g = (ucast (guard_interval_ns (he_gi_ltf r)) :: u64)"
  define ltf where "ltf = (case he_gi_ltf r of Ltf1xGi800Ns \<Rightarrow> 3200 | Ltf2xGi800Ns \<Rightarrow> 6400
      | Ltf2xGi1600Ns \<Rightarrow> 6400 | Ltf4xGi3200Ns \<Rightarrow> 12800) + g"
  have st: "unat (if 2 < st then 4 else st) \<le> 8"
    using assms by (simp add: st_def word_le_nat_alt)
  have ltf: "unat ltf \<le> 16000" "unat (12800 + g) \<le> 16000"
    by (cases "he_gi_ltf r"; simp add: ltf_def g_def)+
  have "unat ((if 2 < st then 4 else st) * ltf) \<le> 128000"
    using unat_mult_le(2) [OF st ltf(1)] by simp
  then have head: "mono_upto 65535 164000 (\<lambda>x. 36000 + (if 2 < st then 4 else st) * ltf)"
    using mono_add [OF mono_const [of "36000 :: u64" 36000 65535] mono_const [of _ 128000]] by simp
  have enc: "unat (6 * enc) \<le> 42954"
    using encoders_bounds(2) [of "he_nominal_kbps r"] unat_mult_le(2) [of 6 6 enc 7159] by (simp add: enc_def)
  have bits: "mono_upto 65535 (16 + 524280 + 42954) (\<lambda>x. 16 + 8 * ucast x + 6 * enc)"
    using enc by (intro mono_add mono_psdu_bits mono_const) simp_all
  have sym: "mono_upto 65535 6807000 (\<lambda>x. div_ceil ((16 + 8 * ucast x + 6 * enc) * den) num)"
    using mono_div_ceil [OF mono_times_const(1) [OF bits, of den 12], of num] symbol_of_He [OF assms dbps] by simp
  have data: "mono_upto 65535 108912000000
      (\<lambda>x. div_ceil ((16 + 8 * ucast x + 6 * enc) * den) num * (12800 + g))"
    using mono_times_const(1) [OF sym ltf(2)] by simp
  have "mono_upto 65535 108912164000 (\<lambda>x. 36000 + (if 2 < st then 4 else st) * ltf
      + div_ceil ((16 + 8 * ucast x + 6 * enc) * den) num * (12800 + g))"
    using mono_add [OF head data] by simp
  then have "mono_upto 65535 108912164 (\<lambda>x. div_ceil (36000 + (if 2 < st then 4 else st) * ltf
      + div_ceil ((16 + 8 * ucast x + 6 * enc) * den) num * (12800 + g)) 1000)"
    by (rule mono_div_ceil_le) simp_all
  then have "mono_upto 65535 (108912164 + 16 + 6) (\<lambda>x. ucast (div_ceil (36000 + (if 2 < st then 4 else st) * ltf
      + div_ceil ((16 + 8 * ucast x + 6 * enc) * den) num * (12800 + g)) 1000 + 16 + SIGNAL_EXTENSION) :: u32)"
    by (intro mono_ucast mono_add mono_const) (simp_all add: SIGNAL_EXTENSION_def)
  then show ?thesis
    unfolding max_ppdu_duration_micros.simps Let_def dbps prod.case
      enc_def [symmetric] st_def [symmetric] g_def [symmetric] ltf_def [symmetric] by blast
qed

lemma duration_mono:
  assumes "rate_ok r" "symbol_of r \<noteq> None" "unat x \<le> unat y" "unat y \<le> 65535"
  shows "max_ppdu_duration_micros r x \<le> max_ppdu_duration_micros r y"
  using assms duration_Ht_mono duration_He_mono mono_uptoD(2) [of 65535 _ "max_ppdu_duration_micros r" y x]
  by (cases r) (auto simp: word_le_nat_alt simp del: rate_ok.simps max_ppdu_duration_micros.simps)

subsection \<open>Properties\<close>

lemma peer_max_length_le: "unat (peer_max_length lim) \<le> 65535"
  by (simp add: peer_max_length_def Let_def)

lemma limits_run_ok:
  assumes "limits_run lim lens = k" "0 < k"
  shows "\<exists>m r. minimum_mpdu_spacing_bytes (limits_rate lim) (min_mpdu_start_spacing lim) = Some m
    \<and> run_ok lim (unat m) (map psdu_bound (take k lens)) r \<and> k \<le> length lens"
proof -
  from assms obtain r where r: "run_begin lim = Some r" "run_frames (run_loop r lens) = k"
    by (auto simp: limits_run_def split: option.splits)
  from run_begin_ok [OF r(1)] obtain m where m: "minimum_mpdu_spacing_bytes (limits_rate lim) (min_mpdu_start_spacing lim) = Some m"
    "run_ok lim (unat m) [] r" by blast
  from run_loop_ok [OF m(2), of lens] obtain j where j: "j \<le> length lens"
    "run_ok lim (unat m) (map psdu_bound (take j lens)) (run_loop r lens)" by auto
  then have "j = k" using r(2) by (auto simp: run_ok_def)
  with m j show ?thesis by blast
qed

text \<open>
  C31. An admitted run fits whatever its frames are encoded to.  The planner counts each queued Ethernet
  frame by its longest protected encoding; whenever the encoder's MPDUs are no longer than that
  (header, CCMP header and MIC, LLC/SNAP and FCS add at most 54 octets), the aggregate it lays out, with its
  delimiters, padding and minimum start spacing, stays within the peer's and the port's length, and the
  aggregate with its BlockAck within the TXOP limit; the run is no longer than the queue, the Block Ack
  window, the port's subframe limit and the 64 positions of the retry masks.
\<close>

theorem admitted_run_fits_every_encoding:
  assumes "rate_ok (limits_rate lim)" and "limits_run lim lens = k" "0 < k"
    and "length psdus = k" "\<forall>i<k. psdus ! i \<le> lens ! i + 54"
  shows "\<exists>m. minimum_mpdu_spacing_bytes (limits_rate lim) (min_mpdu_start_spacing lim) = Some m
    \<and> k \<le> length lens \<and> k \<le> unat (limits_window lim) \<and> k \<le> unat (max_subframes (limits_port lim)) \<and> k \<le> 64
    \<and> layout (unat m) psdus \<le> unat (peer_max_length lim)
    \<and> layout (unat m) psdus \<le> unat (cap_max_length (limits_port lim))
    \<and> (\<forall>txop. txop_limit_micros lim = Some txop \<longrightarrow>
          unat (max_ppdu_duration_micros (limits_rate lim) (of_nat (layout (unat m) psdus)))
            + unat BLOCK_ACK_RESPONSE_MICROS \<le> unat txop)"
proof -
  obtain m r where m: "minimum_mpdu_spacing_bytes (limits_rate lim) (min_mpdu_start_spacing lim) = Some m"
    and ok: "run_ok lim (unat m) (map psdu_bound (take k lens)) r" and k: "k \<le> length lens"
    using limits_run_ok [OF assms(2,3)] by blast
  have "list_all2 (\<le>) psdus (map psdu_bound (take k lens))"
    using assms(4,5) k psdu_bound_ge
    by (auto simp: list_all2_conv_all_nth intro: order_trans)
  then have le: "layout (unat m) psdus \<le> unat (run_length r)"
    using layout_mono ok by (simp add: run_ok_def appending_def)
  have max: "unat (run_length r) \<le> unat (peer_max_length lim)"
    "unat (run_length r) \<le> unat (cap_max_length (limits_port lim))"
    using ok by (auto simp: run_ok_def min_def word_le_nat_alt split: if_splits)
  have sym: "symbol_of (limits_rate lim) \<noteq> None"
    using m by (auto simp: minimum_mpdu_spacing_bytes_def bind_eq_Some_conv)
  have u: "unat (of_nat (layout (unat m) psdus) :: u32) = layout (unat m) psdus"
    using le max(1) peer_max_length_le [of lim] by (simp add: unat_of_nat)
  have dur: "max_ppdu_duration_micros (limits_rate lim) (of_nat (layout (unat m) psdus))
      \<le> max_ppdu_duration_micros (limits_rate lim) (run_length r)"
    using le u max(1) peer_max_length_le [of lim] by (intro duration_mono [OF assms(1) sym]) simp_all
  have txop: "unat (max_ppdu_duration_micros (limits_rate lim) (of_nat (layout (unat m) psdus)))
      + unat BLOCK_ACK_RESPONSE_MICROS \<le> unat txop" if "txop_limit_micros lim = Some txop" for txop
  proof -
    have "\<not> exceeds_txop lim (run_length r)" using ok assms(3) k by (auto simp: run_ok_def)
    then show ?thesis
      using that dur by (auto simp: exceeds_txop_def word_le_nat_alt not_less dest!: unat_checked_add split: option.splits)
  qed
  show ?thesis
    using m k le max txop ok by (intro exI [of _ m]) (auto simp: run_ok_def)
qed

definition example_limits :: AmpduLimits where
  "example_limits = \<lparr>limits_window = 32,
     limits_port = \<lparr>max_subframes = 16, cap_formats = FORMATS_HT, cap_max_length = 65535\<rparr>,
     peer_ampdu_parameters = 0x1b, txop_limit_micros = Some 370,
     limits_rate = Ht \<lparr>ht_mcs = HtMcs 7, ht_bandwidth = Mhz20, ht_short_gi = False\<rparr>\<rparr>"

theorem admitted_run_fits_every_encoding_witness:
  "limits_run example_limits [1514, 60, 1514] = 2
   \<and> unat (max_ppdu_duration_micros (limits_rate example_limits) (of_nat (layout 65 [1500, 100])))
        + unat BLOCK_ACK_RESPONSE_MICROS \<le> 370"
proof
  show run: "limits_run example_limits [1514, 60, 1514] = 2" by code_simp
  have ok: "rate_ok (limits_rate example_limits)"
    and m: "minimum_mpdu_spacing_bytes (limits_rate example_limits) (min_mpdu_start_spacing example_limits) = Some 65"
    by code_simp+
  have le: "\<forall>i<2. [1500, 100] ! i \<le> [1514, 60, 1514 :: nat] ! i + 54"
    by (auto simp: less_Suc_eq numeral_2_eq_2)
  show "unat (max_ppdu_duration_micros (limits_rate example_limits) (of_nat (layout 65 [1500, 100])))
        + unat BLOCK_ACK_RESPONSE_MICROS \<le> 370"
    using admitted_run_fits_every_encoding [OF ok run _ _ le] m
    by (simp add: example_limits_def del: max_ppdu_duration_micros.simps)
qed

lemma admit_step_refuses:
  assumes ok: "run_ok lim m ps r" and stop: "admit_step r l = None"
  shows "run_frames r = run_limit r \<or> 2 ^ 32 \<le> l + 61
    \<or> unat (run_maximum r) < layout m (ps @ [psdu_bound l]) \<or> exceeds_txop lim (of_nat (layout m (ps @ [psdu_bound l])))"
proof (rule ccontr)
  define longer where "longer = layout m (ps @ [psdu_bound l])"
  assume "\<not> ?thesis"
  then have no: "run_frames r \<noteq> run_limit r" "l + 61 < 2 ^ 32" "longer \<le> unat (run_maximum r)"
    "\<not> exceeds_txop lim (of_nat longer)" by (auto simp: longer_def)
  have max: "unat (run_maximum r) \<le> 65535"
    using ok peer_max_length_le [of lim] by (auto simp: run_ok_def min_def word_le_nat_alt)
  have "checked_add (of_nat l) 61 = Some (of_nat l + 61 :: u32)"
    using no(2) by (simp add: checked_add_def unat_of_nat)
  moreover have "int l < 2 ^ 32" using no(2) by simp
  ultimately obtain b where b: "subframe_bound l = Some b" by (simp add: subframe_bound_def)
  have ub: "unat b = pad4 (l + 58)" "4 \<le> pad4 (l + 58)"
    using subframe_bound_eq [OF b] pad4_ge [of "l + 58"] by simp_all
  define p where "p = b - 4"
  have p: "checked_sub b 4 = Some p" "unat p = psdu_bound l"
    using ub by (simp_all add: checked_sub_def p_def word_le_nat_alt unat_sub psdu_bound_def)
  have p0: "p \<noteq> 0" using p(2) psdu_bound_ge [of l] by (metis add_is_0 le_zero_eq unat_0 zero_neq_numeral)
  have app: "appending m ps (run_length r) (run_previous r)"
    using ok by (simp add: run_ok_def)
  have "layout m (ps @ [unat p]) + 7 < 2 ^ 32"
    using no(3) max by (simp add: longer_def p(2))
  from appending_total [OF app p0 this] obtain len d where step:
    "length_after_append (run_length r) (run_previous r) p = Some len"
    "empty_delimiters p (minimum_subframe_bytes r) = Some d" by blast
  have len: "unat len = longer" using appended_layout [OF app step(1)] by (simp add: longer_def p(2))
  have "of_nat longer = len" unfolding len [symmetric] by simp
  then have "\<exists>r'. admit_step r l = Some r'"
    using no len ok by (simp add: admit_step_def b p(1) step word_less_nat_alt run_ok_def)
  with stop show False by simp
qed

text \<open>
  A run stops only where it must.  When fewer frames are admitted than are queued, the run has as many
  frames as the Block Ack window, the port and the 64 mask positions allow, or the next frame has no
  representable length, or with the next frame, counted by its longest encoding, the aggregate would be
  longer than the peer or the port takes, or would with its BlockAck exceed the TXOP limit.
\<close>

theorem run_stops_only_at_a_limit:
  assumes "run_begin lim = Some r0" "limits_run lim lens = k" "k < length lens"
  shows "\<exists>m. minimum_mpdu_spacing_bytes (limits_rate lim) (min_mpdu_start_spacing lim) = Some m
    \<and> (let longer = layout (unat m) (map psdu_bound (take (Suc k) lens))
       in k = min (min (unat (limits_window lim)) (unat (max_subframes (limits_port lim)))) 64
          \<or> 2 ^ 32 \<le> lens ! k + 61
          \<or> unat (min (peer_max_length lim) (cap_max_length (limits_port lim))) < longer
          \<or> exceeds_txop lim (of_nat longer))"
proof -
  from run_begin_ok [OF assms(1)] obtain m where
    m: "minimum_mpdu_spacing_bytes (limits_rate lim) (min_mpdu_start_spacing lim) = Some m"
    and "run_ok lim (unat m) [] r0" by blast
  from run_loop_ok [OF this(2), of lens] obtain j where j: "j \<le> length lens"
    "run_ok lim (unat m) (map psdu_bound (take j lens)) (run_loop r0 lens)"
    "j < length lens \<longrightarrow> admit_step (run_loop r0 lens) (lens ! j) = None" by auto
  define r where "r = run_loop r0 lens"
  define l where "l = lens ! k"
  define longer where "longer = layout (unat m) (map psdu_bound (take (Suc k) lens))"
  have "j = k" using assms j(1,2) by (auto simp: limits_run_def run_ok_def)
  with j assms(3) have ok: "run_ok lim (unat m) (map psdu_bound (take k lens)) r"
    and stop: "admit_step r l = None" by (simp_all add: r_def l_def)
  have longer: "longer = layout (unat m) (map psdu_bound (take k lens) @ [psdu_bound l])"
    using assms(3) by (simp add: longer_def l_def take_Suc_conv_app_nth)
  have "run_frames r = run_limit r \<or> 2 ^ 32 \<le> l + 61 \<or> unat (run_maximum r) < longer \<or> exceeds_txop lim (of_nat longer)"
    unfolding longer by (rule admit_step_refuses [OF ok stop])
  moreover have "run_frames r = k" "run_maximum r = min (peer_max_length lim) (cap_max_length (limits_port lim))"
    "run_limit r = min (min (unat (limits_window lim)) (unat (max_subframes (limits_port lim)))) 64"
    using ok assms(3) by (simp_all add: run_ok_def)
  ultimately show ?thesis
    unfolding Let_def using m by (intro exI [of _ m] conjI) (simp_all add: longer_def l_def)
qed

theorem run_stops_only_at_a_limit_witness:
  "exceeds_txop example_limits (of_nat (layout 65 (map psdu_bound [1514, 60, 1514])))"
proof -
  have facts: "limits_run example_limits [1514, 60, 1514] = 2" "run_begin example_limits \<noteq> None"
    "minimum_mpdu_spacing_bytes (limits_rate example_limits) (min_mpdu_start_spacing example_limits) = Some 65"
    "peer_max_length example_limits = 65535"
    by code_simp+
  then obtain r0 where "run_begin example_limits = Some r0" by auto
  from run_stops_only_at_a_limit [OF this facts(1)] facts(3) have
    "2 = min (min (unat (limits_window example_limits)) (unat (max_subframes (limits_port example_limits)))) (64 :: nat)
     \<or> 2 ^ 32 \<le> [1514, 60, 1514] ! 2 + (61 :: nat)
     \<or> unat (min (peer_max_length example_limits) (cap_max_length (limits_port example_limits)))
         < layout 65 (map psdu_bound [1514, 60, 1514])
     \<or> exceeds_txop example_limits (of_nat (layout 65 (map psdu_bound [1514, 60, 1514])))"
    by (simp add: Let_def)
  moreover have "unat (limits_window example_limits) = 32" "unat (max_subframes (limits_port example_limits)) = 16"
    "unat (min (peer_max_length example_limits) (cap_max_length (limits_port example_limits))) = 65535"
    by (simp_all add: example_limits_def facts(4) [unfolded example_limits_def])
  moreover have "layout 65 (map psdu_bound [1514, 60, 1514]) \<le> 65535"
    by (simp add: layout_def slot_def pad4_def psdu_bound_def)
  moreover have "\<not> 2 ^ 32 \<le> [1514, 60, 1514] ! 2 + (61 :: nat)" by simp
  ultimately show ?thesis by (elim disjE) simp_all
qed

text \<open>
  The planner's aggregate length is the encoder's.  For every request and every selection of its
  subframes, the length the planner gives to the protection decision is what the shared geometry computes
  by appending the selected MPDUs one by one without a minimum start spacing, and no step overflows.
\<close>

theorem planner_length_is_the_encoders:
  assumes "AmpduRequest_new tid q lengths t b = Some am" "\<forall>l\<in>set lengths. l \<noteq> 0"
  shows "append_all 0 0 None (map (\<lambda>i. ucast (lengths ! i)) (filter (bit w) [0..<length lengths]))
    = Some (aggregate_length am w)"
proof -
  let ?sel = "filter (bit w) [0..<length lengths]" and ?n = "length lengths"
  have n: "?n \<le> 64" and am: "req_subframes am = of_nat ?n" "take ?n (req_lengths am) = lengths"
    using assms(1) by (auto simp: AmpduRequest_new_def MAX_AMPDU_SUBFRAMES_def split: if_splits)
  have un: "unat (req_subframes am) = ?n" using n am(1) by (simp add: unat_of_nat)
  have enum: "enumerate 0 lengths = map (\<lambda>i. (i, lengths ! i)) [0..<?n]"
    by (rule nth_equalityI) (simp_all add: nth_enumerate_eq)
  have fil: "filter (\<lambda>i. w AND push_bit i 1 \<noteq> 0) [0..<?n] = ?sel"
    using n by (intro filter_cong) (auto simp: and_exp_eq_0_iff_not_bit)
  have len: "aggregate_length am w = aggregate_length_loop (map ((!) lengths) ?sel) 0"
    unfolding aggregate_length_def un am(2) enum filter_map fil [symmetric] by (simp add: comp_def)
  have k: "65544 * length ?sel \<le> 65544 * 64"
    using n length_filter_le [of "bit w" "[0..<?n]"] by simp
  have layout: "unat (aggregate_length am w) = layout 0 (map (unat \<circ> (!) lengths) ?sel)"
    unfolding len using k aggregate_length_loop_layout [of 0 "map ((!) lengths) ?sel"] by simp
  have "layout 0 (map (unat \<circ> (!) lengths) ?sel) \<le> 65544 * length ?sel"
    using layout_le [of "map (unat \<circ> (!) lengths) ?sel" 0 65544] slot_u16(2) by simp
  then have small: "layout 0 (map (unat \<circ> (!) lengths) ?sel) + 7 < 2 ^ 32" using k by simp
  let ?ps = "map (\<lambda>i. ucast (lengths ! i) :: u32) ?sel"
  have up: "map unat ?ps = map (unat \<circ> (!) lengths) ?sel"
    by (simp add: unsigned_ucast_eq take_bit_nat_eq_self order_less_le_trans [OF unsigned_less])
  have "(ucast l :: u32) \<noteq> 0" if "l \<in> set lengths" for l
    using assms(2) that
    by (auto simp: word_unat_eq_iff unsigned_ucast_eq take_bit_nat_eq_self order_less_le_trans [OF unsigned_less])
  then have nz: "\<forall>p\<in>set ?ps. p \<noteq> 0" by auto
  have "append_all 0 0 None ?ps = Some (of_nat (layout (unat (0 :: u32)) ([] @ map unat ?ps)))"
    by (rule append_all_layout [OF appending_Nil nz]) (use small in \<open>simp only: up append_Nil unat_0\<close>)
  then have "append_all 0 0 None ?ps = Some (of_nat (layout 0 (map unat ?ps)))" by simp
  also have "\<dots> = Some (aggregate_length am w)" unfolding up layout [symmetric] by simp
  finally show ?thesis .
qed

theorem planner_length_is_the_encoders_witness:
  "append_all 0 0 None [100, 102]
    = Some (aggregate_length \<lparr>req_tid = 0, req_first_sequence = SequenceNumber 7, req_subframes = 3,
        req_lengths = [100, 101, 102] @ replicate 61 0, req_committed_at = RadioInstant 0,
        req_block_ack_operational = True\<rparr> 5)"
proof -
  let ?am = "\<lparr>req_tid = 0, req_first_sequence = SequenceNumber 7, req_subframes = 3,
        req_lengths = [100, 101, 102] @ replicate 61 0, req_committed_at = RadioInstant 0,
        req_block_ack_operational = True\<rparr>"
  have am: "AmpduRequest_new 0 (SequenceNumber 7) [100, 101, 102] (RadioInstant 0) True = Some ?am"
    by (simp add: AmpduRequest_new_def MAX_AMPDU_SUBFRAMES_def)
  have "filter (bit (5 :: u64)) [0..<length [100, 101, 102 :: u16]] = [0, 2]" by code_simp
  with planner_length_is_the_encoders [OF am, of 5] show ?thesis by (simp del: append_all.simps)
qed

end
