(* ===== verification/Eapol_Key.thy ===== *)
theory Eapol_Key
  imports Oer_Prelude
begin

text \<open>
  EAPOL-Key packets of the RSN handshakes (\<open>ieee80211/security/rsn/src/eapol.rs\<close>, the suites of
  \<open>akm.rs\<close> and the transmit side of \<open>frames/transmit.rs\<close>): the Key Information field and the message
  it names, the validated view of a received packet, the owned copy the state machines keep, the
  builders of the six messages and their authentication.  The message authentication code is a
  parameter: \<open>mac akm kck bytes\<close> is the 16-octet code of the suite, computed by the HMAC-SHA1 and
  AES-CMAC crates.
\<close>

subsection \<open>Suites\<close>

datatype Akm = Psk | PskSha256 | Sae

fun key_descriptor_version :: "Akm \<Rightarrow> u8" where
  "key_descriptor_version Psk = 2"
| "key_descriptor_version PskSha256 = 3"
| "key_descriptor_version Sae = 0"

datatype RsnInterface = StationInterface | AccessPointInterface

subsection \<open>Big-endian counters\<close>

definition u64_from_be_bytes :: "u8 list \<Rightarrow> u64" where
  "u64_from_be_bytes bs = foldl (\<lambda>w b. push_bit 8 w OR ucast b) 0 bs"

definition u64_to_be_bytes :: "u64 \<Rightarrow> u8 list" where
  "u64_to_be_bytes w = map (\<lambda>i. ucast (drop_bit (8 * i) w)) [7, 6, 5, 4, 3, 2, 1, 0]"

lemma length_u64_to_be_bytes [simp]: "length (u64_to_be_bytes w) = 8"
  by (simp add: u64_to_be_bytes_def)

lemma bit_u64_from_be_bytes:
  "i < 64 \<Longrightarrow> bit (u64_from_be_bytes bs) i \<longleftrightarrow> i < 8 * length bs \<and> bit (rev bs ! (i div 8)) (i mod 8)"
proof (induction bs arbitrary: i rule: rev_induct)
  case (snoc b bs)
  have fold: "u64_from_be_bytes (bs @ [b]) = push_bit 8 (u64_from_be_bytes bs) OR ucast b"
    by (simp add: u64_from_be_bytes_def)
  show ?case
  proof (cases "i < 8")
    case True
    then show ?thesis by (simp add: fold bit_or_iff bit_push_bit_iff bit_ucast_iff)
  next
    case False
    then have "i div 8 = Suc ((i - 8) div 8)" "i mod 8 = (i - 8) mod 8"
      by (simp_all add: le_div_geq le_mod_geq)
    moreover have "\<not> bit b i" using False bit_imp_le_length [of b i] by auto
    ultimately show ?thesis using False snoc
      by (auto simp: fold bit_or_iff bit_push_bit_iff bit_ucast_iff)
  qed
qed (simp add: u64_from_be_bytes_def)

lemma rev_u64_to_be_bytes: "j < 8 \<Longrightarrow> rev (u64_to_be_bytes w) ! j = ucast (drop_bit (8 * j) w)"
proof -
  have "rev (u64_to_be_bytes w) = map (\<lambda>i. ucast (drop_bit (8 * i) w)) [0..<8]"
    by (simp add: u64_to_be_bytes_def upt_rec)
  then show "j < 8 \<Longrightarrow> ?thesis" by simp
qed

lemma u64_be_roundtrip [simp]: "u64_from_be_bytes (u64_to_be_bytes w) = w"
proof (rule bit_word_eqI)
  fix i assume "i < LENGTH(64)"
  then have "i < 64" "i div 8 < 8" "8 * (i div 8) + i mod 8 = i" by simp_all
  then show "bit (u64_from_be_bytes (u64_to_be_bytes w)) i = bit w i"
    by (simp add: bit_u64_from_be_bytes rev_u64_to_be_bytes bit_ucast_iff bit_drop_bit_eq)
qed

subsection \<open>Constants\<close>

definition EAPOL_HEADER_LEN :: nat where "EAPOL_HEADER_LEN = 4"
definition EAPOL_KEY_FIXED_LEN :: nat where "EAPOL_KEY_FIXED_LEN = 95"
definition EAPOL_KEY_PACKET_LEN :: nat where "EAPOL_KEY_PACKET_LEN = EAPOL_HEADER_LEN + EAPOL_KEY_FIXED_LEN"
definition EAPOL_PACKET_TYPE_KEY :: u8 where "EAPOL_PACKET_TYPE_KEY = 3"
definition RSN_KEY_DESCRIPTOR_TYPE :: u8 where "RSN_KEY_DESCRIPTOR_TYPE = 2"

definition KEY_INFO_DESCRIPTOR_VERSION_MASK :: u16 where "KEY_INFO_DESCRIPTOR_VERSION_MASK = 0x0007"
definition KEY_INFO_PAIRWISE :: u16 where "KEY_INFO_PAIRWISE = push_bit 3 1"
definition KEY_INFO_INSTALL :: u16 where "KEY_INFO_INSTALL = push_bit 6 1"
definition KEY_INFO_ACK :: u16 where "KEY_INFO_ACK = push_bit 7 1"
definition KEY_INFO_MIC :: u16 where "KEY_INFO_MIC = push_bit 8 1"
definition KEY_INFO_SECURE :: u16 where "KEY_INFO_SECURE = push_bit 9 1"
definition KEY_INFO_ERROR :: u16 where "KEY_INFO_ERROR = push_bit 10 1"
definition KEY_INFO_REQUEST :: u16 where "KEY_INFO_REQUEST = push_bit 11 1"
definition KEY_INFO_ENCRYPTED_KEY_DATA :: u16 where "KEY_INFO_ENCRYPTED_KEY_DATA = push_bit 12 1"
definition KEY_INFO_SMK :: u16 where "KEY_INFO_SMK = push_bit 13 1"

definition EAPOL_KEY_MIC_START :: nat where "EAPOL_KEY_MIC_START = 81"
definition EAPOL_KEY_MIC_END :: nat where "EAPOL_KEY_MIC_END = 97"

lemmas eapol_lengths = EAPOL_HEADER_LEN_def EAPOL_KEY_FIXED_LEN_def EAPOL_KEY_PACKET_LEN_def
  EAPOL_KEY_MIC_START_def EAPOL_KEY_MIC_END_def

lemmas key_info_bits = KEY_INFO_PAIRWISE_def KEY_INFO_INSTALL_def KEY_INFO_ACK_def KEY_INFO_MIC_def
  KEY_INFO_SECURE_def KEY_INFO_ERROR_def KEY_INFO_REQUEST_def KEY_INFO_ENCRYPTED_KEY_DATA_def
  KEY_INFO_SMK_def

subsection \<open>Key Information\<close>

datatype EapolKeyMessage =
    PairwiseMessage1 | PairwiseMessage2 | PairwiseMessage3 | PairwiseMessage4
  | GroupMessage1 | GroupMessage2 | OtherMessage

datatype EapolKeyInfo = EapolKeyInfo (key_info_raw: u16)

definition descriptor_version :: "EapolKeyInfo \<Rightarrow> u8" where
  "descriptor_version self = ucast (key_info_raw self AND KEY_INFO_DESCRIPTOR_VERSION_MASK)"

definition is_pairwise :: "EapolKeyInfo \<Rightarrow> bool" where
  "is_pairwise self \<longleftrightarrow> key_info_raw self AND KEY_INFO_PAIRWISE \<noteq> 0"

definition info_install :: "EapolKeyInfo \<Rightarrow> bool" where
  "info_install self \<longleftrightarrow> key_info_raw self AND KEY_INFO_INSTALL \<noteq> 0"

definition info_ack :: "EapolKeyInfo \<Rightarrow> bool" where
  "info_ack self \<longleftrightarrow> key_info_raw self AND KEY_INFO_ACK \<noteq> 0"

definition info_mic :: "EapolKeyInfo \<Rightarrow> bool" where
  "info_mic self \<longleftrightarrow> key_info_raw self AND KEY_INFO_MIC \<noteq> 0"

definition info_secure :: "EapolKeyInfo \<Rightarrow> bool" where
  "info_secure self \<longleftrightarrow> key_info_raw self AND KEY_INFO_SECURE \<noteq> 0"

definition info_error :: "EapolKeyInfo \<Rightarrow> bool" where
  "info_error self \<longleftrightarrow> key_info_raw self AND KEY_INFO_ERROR \<noteq> 0"

definition info_request :: "EapolKeyInfo \<Rightarrow> bool" where
  "info_request self \<longleftrightarrow> key_info_raw self AND KEY_INFO_REQUEST \<noteq> 0"

definition encrypted_key_data :: "EapolKeyInfo \<Rightarrow> bool" where
  "encrypted_key_data self \<longleftrightarrow> key_info_raw self AND KEY_INFO_ENCRYPTED_KEY_DATA \<noteq> 0"

definition info_smk :: "EapolKeyInfo \<Rightarrow> bool" where
  "info_smk self \<longleftrightarrow> key_info_raw self AND KEY_INFO_SMK \<noteq> 0"

definition classify :: "EapolKeyInfo \<Rightarrow> EapolKeyMessage" where
  "classify self =
     (if info_error self \<or> info_request self \<or> info_smk self then OtherMessage
      else if is_pairwise self
      then (case (info_ack self, info_mic self, info_install self, info_secure self) of
              (True, False, False, False) \<Rightarrow> PairwiseMessage1
            | (False, True, False, False) \<Rightarrow> PairwiseMessage2
            | (True, True, True, _) \<Rightarrow> PairwiseMessage3
            | (False, True, False, True) \<Rightarrow> PairwiseMessage4
            | _ \<Rightarrow> OtherMessage)
      else (case (info_ack self, info_mic self) of
              (True, True) \<Rightarrow> GroupMessage1
            | (False, True) \<Rightarrow> GroupMessage2
            | _ \<Rightarrow> OtherMessage))"

subsection \<open>Received packets\<close>

datatype EapolParseError = EapolTruncated | EapolLengthMismatch | NotKeyPacket | NotRsnKeyDescriptor

record EapolKeyFrame =
  key_bytes :: "u8 list"
  key_data :: "u8 list"
  key_info :: EapolKeyInfo

definition EapolKeyFrame_parse :: "u8 list \<Rightarrow> (EapolKeyFrame, EapolParseError) result" where
  "EapolKeyFrame_parse bytes =
     (if length bytes < EAPOL_KEY_PACKET_LEN then Err EapolTruncated
      else if bytes ! 1 \<noteq> EAPOL_PACKET_TYPE_KEY then Err NotKeyPacket
      else
        let body_len = unat (u16_from_be_bytes (bytes ! 2) (bytes ! 3));
            packet_len = EAPOL_HEADER_LEN + body_len
        in if packet_len \<noteq> length bytes \<or> body_len < EAPOL_KEY_FIXED_LEN then Err EapolLengthMismatch
           else if bytes ! 4 \<noteq> RSN_KEY_DESCRIPTOR_TYPE then Err NotRsnKeyDescriptor
           else
             let key_data_len = unat (u16_from_be_bytes (bytes ! 97) (bytes ! 98));
                 key_data_end = EAPOL_KEY_PACKET_LEN + key_data_len
             in if key_data_end \<noteq> packet_len then Err EapolLengthMismatch
                else Ok \<lparr>key_bytes = bytes,
                         key_data = take key_data_len (drop EAPOL_KEY_PACKET_LEN bytes),
                         key_info = EapolKeyInfo (u16_from_be_bytes (bytes ! 5) (bytes ! 6))\<rparr>)"

text \<open>A range of a validated packet.\<close>

definition key_range :: "EapolKeyFrame \<Rightarrow> nat \<Rightarrow> nat \<Rightarrow> u8 list" where
  "key_range self lo hi = take (hi - lo) (drop lo (key_bytes self))"

definition protocol_version :: "EapolKeyFrame \<Rightarrow> u8" where
  "protocol_version self = key_bytes self ! 0"

definition key_message :: "EapolKeyFrame \<Rightarrow> EapolKeyMessage" where
  "key_message self = classify (key_info self)"

definition key_length :: "EapolKeyFrame \<Rightarrow> u16" where
  "key_length self = u16_from_be_bytes (key_bytes self ! 7) (key_bytes self ! 8)"

definition replay_counter :: "EapolKeyFrame \<Rightarrow> u64" where
  "replay_counter self = u64_from_be_bytes (key_range self 9 17)"

definition key_nonce :: "EapolKeyFrame \<Rightarrow> u8 list" where
  "key_nonce self = key_range self 17 49"

definition key_iv :: "EapolKeyFrame \<Rightarrow> u8 list" where
  "key_iv self = key_range self 49 65"

definition key_mic :: "EapolKeyFrame \<Rightarrow> u8 list" where
  "key_mic self = key_range self 81 97"

definition key_receive_sequence :: "EapolKeyFrame \<Rightarrow> u8 list" where
  "key_receive_sequence self = key_range self 65 73"

definition key_identifier :: "EapolKeyFrame \<Rightarrow> u8 list" where
  "key_identifier self = key_range self 73 81"

type_synonym mac_function = "Akm \<Rightarrow> u8 list \<Rightarrow> u8 list \<Rightarrow> u8 list"

text \<open>The code is computed over the packet with its MIC field cleared.\<close>

definition verify_mic_with_kck :: "mac_function \<Rightarrow> EapolKeyFrame \<Rightarrow> Akm \<Rightarrow> u8 list \<Rightarrow> bool" where
  "verify_mic_with_kck mac self akm kck \<longleftrightarrow>
     mac akm kck (take EAPOL_KEY_MIC_START (key_bytes self)
       @ replicate (EAPOL_KEY_MIC_END - EAPOL_KEY_MIC_START) 0
       @ drop EAPOL_KEY_MIC_END (key_bytes self)) = key_mic self"

subsection \<open>Owned packets\<close>

datatype EapolCopyError = CopyCapacityExceeded | CopyInvalid EapolParseError

record OwnedEapolFrame =
  frame_interface :: RsnInterface
  frame_peer :: "u8 list"
  frame_len :: nat
  frame_bytes :: "u8 list"

definition OwnedEapolFrame_try_copy ::
    "nat \<Rightarrow> RsnInterface \<Rightarrow> u8 list \<Rightarrow> u8 list \<Rightarrow> (OwnedEapolFrame, EapolCopyError) result" where
  "OwnedEapolFrame_try_copy N interface peer bytes =
     (case EapolKeyFrame_parse bytes of
        Err e \<Rightarrow> Err (CopyInvalid e)
      | Ok _ \<Rightarrow>
          if length bytes > N then Err CopyCapacityExceeded
          else Ok \<lparr>frame_interface = interface, frame_peer = peer, frame_len = length bytes,
                   frame_bytes = write_at 0 bytes (replicate N 0)\<rparr>)"

definition frame_as_bytes :: "OwnedEapolFrame \<Rightarrow> u8 list" where
  "frame_as_bytes self = take (frame_len self) (frame_bytes self)"

text \<open>The view of an owned packet; an invalid one would panic here, which no copied packet does.\<close>

fun expect_ok :: "('a, 'e) result \<Rightarrow> 'a" where
  "expect_ok (Ok a) = a"

definition key_frame :: "OwnedEapolFrame \<Rightarrow> EapolKeyFrame" where
  "key_frame self = expect_ok (EapolKeyFrame_parse (frame_as_bytes self))"

subsection \<open>Transmitted packets\<close>

datatype RsnFrameError =
    FrameCapacityExceeded | InvalidRsnIe | InvalidRsnxe | InvalidKeyId | FrameZeroNonce | EmptyKeyData
  | MalformedKeyData | UnsupportedKeyData | DuplicateRsnIe | DuplicateRsnxe | DuplicateGtk
  | DuplicateIgtk | MissingRsnIe | MissingRsnxe | UnexpectedRsnxe | MissingGtk | MissingIgtk
  | UnexpectedIgtk | RsnIeMismatch | RsnxeMismatch | UnexpectedTransmitAction

record RsnTxFrame =
  tx_interface :: RsnInterface
  tx_peer :: "u8 list"
  tx_retransmission :: bool
  tx_len :: nat
  tx_bytes :: "u8 list"

definition RSN_GTK_LEN :: u16 where "RSN_GTK_LEN = 16"

definition RsnTxFrame_build ::
    "nat \<Rightarrow> RsnInterface \<Rightarrow> u8 list \<Rightarrow> u8 \<Rightarrow> u16 \<Rightarrow> u16 \<Rightarrow> u64 \<Rightarrow> u8 list \<Rightarrow> u8 list \<Rightarrow> u8 list
     \<Rightarrow> (RsnTxFrame, RsnFrameError) result" where
  "RsnTxFrame_build N interface peer version info keylen replay nonce key_rsc data =
     (if info AND (KEY_INFO_PAIRWISE OR KEY_INFO_ACK) = (KEY_INFO_PAIRWISE OR KEY_INFO_ACK)
         \<and> list_all (\<lambda>byte. byte = 0) nonce
      then Err FrameZeroNonce
      else
        let len = EAPOL_KEY_PACKET_LEN + length data;
            body_len = EAPOL_KEY_FIXED_LEN + length data
        in if len > N \<or> body_len > 65535 \<or> length data > 65535 then Err FrameCapacityExceeded
           else
             let bytes = replicate N 0;
                 bytes = bytes[0 := version];
                 bytes = bytes[1 := EAPOL_PACKET_TYPE_KEY];
                 bytes = write_at 2 (u16_to_be_bytes (word_of_nat body_len)) bytes;
                 bytes = bytes[4 := RSN_KEY_DESCRIPTOR_TYPE];
                 bytes = write_at 5 (u16_to_be_bytes info) bytes;
                 bytes = write_at 7 (u16_to_be_bytes keylen) bytes;
                 bytes = write_at 9 (u64_to_be_bytes replay) bytes;
                 bytes = write_at 17 nonce bytes;
                 bytes = write_at 65 key_rsc bytes;
                 bytes = write_at 97 (u16_to_be_bytes (word_of_nat (length data))) bytes;
                 bytes = write_at EAPOL_KEY_PACKET_LEN data bytes
             in Ok \<lparr>tx_interface = interface, tx_peer = peer, tx_retransmission = False,
                    tx_len = len, tx_bytes = bytes\<rparr>)"

definition tx_as_bytes :: "RsnTxFrame \<Rightarrow> u8 list" where
  "tx_as_bytes self = take (tx_len self) (tx_bytes self)"

definition tx_key_frame :: "RsnTxFrame \<Rightarrow> EapolKeyFrame" where
  "tx_key_frame self = expect_ok (EapolKeyFrame_parse (tx_as_bytes self))"

definition RsnTxFrame_message1 :: "nat \<Rightarrow> Akm \<Rightarrow> u8 list \<Rightarrow> u64 \<Rightarrow> u8 list \<Rightarrow> (RsnTxFrame, RsnFrameError) result" where
  "RsnTxFrame_message1 N akm peer replay anonce =
     RsnTxFrame_build N AccessPointInterface peer 2
       (KEY_INFO_PAIRWISE OR KEY_INFO_ACK OR ucast (key_descriptor_version akm))
       RSN_GTK_LEN replay anonce (replicate 8 0) []"

text \<open>The security elements of Message 2 are given by their octets.\<close>

definition RsnTxFrame_message2_with_security_ies ::
    "nat \<Rightarrow> Akm \<Rightarrow> u8 list \<Rightarrow> u64 \<Rightarrow> u8 list \<Rightarrow> u8 list \<Rightarrow> (RsnTxFrame, RsnFrameError) result" where
  "RsnTxFrame_message2_with_security_ies N akm peer replay snonce security_ies =
     RsnTxFrame_build N StationInterface peer 1
       (KEY_INFO_PAIRWISE OR KEY_INFO_MIC OR ucast (key_descriptor_version akm))
       0 replay snonce (replicate 8 0) security_ies"

definition RsnTxFrame_message3 ::
    "nat \<Rightarrow> Akm \<Rightarrow> u8 list \<Rightarrow> u64 \<Rightarrow> u8 list \<Rightarrow> u8 list \<Rightarrow> u8 list \<Rightarrow> (RsnTxFrame, RsnFrameError) result" where
  "RsnTxFrame_message3 N akm peer replay anonce key_rsc wrapped =
     (if wrapped = [] then Err EmptyKeyData
      else RsnTxFrame_build N AccessPointInterface peer 2
        (KEY_INFO_PAIRWISE OR KEY_INFO_INSTALL OR KEY_INFO_ACK OR KEY_INFO_MIC OR KEY_INFO_SECURE
          OR KEY_INFO_ENCRYPTED_KEY_DATA OR ucast (key_descriptor_version akm))
        RSN_GTK_LEN replay anonce key_rsc wrapped)"

definition RsnTxFrame_message4 :: "nat \<Rightarrow> Akm \<Rightarrow> u8 list \<Rightarrow> u64 \<Rightarrow> (RsnTxFrame, RsnFrameError) result" where
  "RsnTxFrame_message4 N akm peer replay =
     RsnTxFrame_build N StationInterface peer 1
       (KEY_INFO_PAIRWISE OR KEY_INFO_MIC OR KEY_INFO_SECURE OR ucast (key_descriptor_version akm))
       0 replay (replicate 32 0) (replicate 8 0) []"

definition RsnTxFrame_group_message2 :: "nat \<Rightarrow> Akm \<Rightarrow> u8 list \<Rightarrow> u64 \<Rightarrow> (RsnTxFrame, RsnFrameError) result" where
  "RsnTxFrame_group_message2 N akm peer replay =
     RsnTxFrame_build N StationInterface peer 1
       (KEY_INFO_MIC OR KEY_INFO_SECURE OR ucast (key_descriptor_version akm))
       0 replay (replicate 32 0) (replicate 8 0) []"

definition RsnTxFrame_group_message1 ::
    "nat \<Rightarrow> Akm \<Rightarrow> u8 list \<Rightarrow> u64 \<Rightarrow> u8 list \<Rightarrow> u8 list \<Rightarrow> (RsnTxFrame, RsnFrameError) result" where
  "RsnTxFrame_group_message1 N akm peer replay key_rsc wrapped =
     (if wrapped = [] then Err EmptyKeyData
      else RsnTxFrame_build N AccessPointInterface peer 2
        (KEY_INFO_ACK OR KEY_INFO_MIC OR KEY_INFO_SECURE OR KEY_INFO_ENCRYPTED_KEY_DATA
          OR ucast (key_descriptor_version akm))
        RSN_GTK_LEN replay (replicate 32 0) key_rsc wrapped)"

definition set_mic :: "RsnTxFrame \<Rightarrow> u8 list \<Rightarrow> RsnTxFrame" where
  "set_mic self mic = self\<lparr>tx_bytes := write_at 81 mic (tx_bytes self)\<rparr>"

definition authenticate_with_kck :: "mac_function \<Rightarrow> RsnTxFrame \<Rightarrow> Akm \<Rightarrow> u8 list \<Rightarrow> RsnTxFrame" where
  "authenticate_with_kck mac self akm kck =
     (let self = set_mic self (replicate 16 0)
      in set_mic self (mac akm kck (tx_as_bytes self)))"

definition mark_retransmission :: "RsnTxFrame \<Rightarrow> RsnTxFrame" where
  "mark_retransmission self = self\<lparr>tx_retransmission := True\<rparr>"

subsection \<open>Owned packets stay valid\<close>

lemma parse_bytes: "EapolKeyFrame_parse bytes = Ok k \<Longrightarrow> key_bytes k = bytes \<and> 99 \<le> length bytes"
  by (auto simp: EapolKeyFrame_parse_def Let_def eapol_lengths split: if_splits)

lemma try_copy_view:
  assumes "OwnedEapolFrame_try_copy N interface peer bytes = Ok frame"
  shows "EapolKeyFrame_parse bytes = Ok (key_frame frame)" "frame_as_bytes frame = bytes"
    "frame_interface frame = interface" "frame_peer frame = peer" "length (frame_bytes frame) = N"
    and "length bytes \<le> N"
proof -
  obtain k where k: "EapolKeyFrame_parse bytes = Ok k" and fits: "length bytes \<le> N"
    using assms by (auto simp: OwnedEapolFrame_try_copy_def split: result.splits if_splits)
  then have frame: "frame = \<lparr>frame_interface = interface, frame_peer = peer, frame_len = length bytes,
      frame_bytes = write_at 0 bytes (replicate N 0)\<rparr>"
    using assms by (simp add: OwnedEapolFrame_try_copy_def)
  then show bytes: "frame_as_bytes frame = bytes" by (simp add: frame_as_bytes_def write_at_def)
  show "EapolKeyFrame_parse bytes = Ok (key_frame frame)" unfolding key_frame_def bytes by (simp add: k)
  show "frame_interface frame = interface" "frame_peer frame = peer" "length (frame_bytes frame) = N"
    "length bytes \<le> N" using frame fits by simp_all
qed

subsection \<open>Builders and the parser\<close>

lemma info_flag_iff:
  "is_pairwise (EapolKeyInfo w) \<longleftrightarrow> bit w 3" "info_install (EapolKeyInfo w) \<longleftrightarrow> bit w 6"
  "info_ack (EapolKeyInfo w) \<longleftrightarrow> bit w 7" "info_mic (EapolKeyInfo w) \<longleftrightarrow> bit w 8"
  "info_secure (EapolKeyInfo w) \<longleftrightarrow> bit w 9" "info_error (EapolKeyInfo w) \<longleftrightarrow> bit w 10"
  "info_request (EapolKeyInfo w) \<longleftrightarrow> bit w 11" "encrypted_key_data (EapolKeyInfo w) \<longleftrightarrow> bit w 12"
  "info_smk (EapolKeyInfo w) \<longleftrightarrow> bit w 13"
  using and_exp_eq_0_iff_not_bit [of w 3] and_exp_eq_0_iff_not_bit [of w 6]
    and_exp_eq_0_iff_not_bit [of w 7] and_exp_eq_0_iff_not_bit [of w 8]
    and_exp_eq_0_iff_not_bit [of w 9] and_exp_eq_0_iff_not_bit [of w 10]
    and_exp_eq_0_iff_not_bit [of w 11] and_exp_eq_0_iff_not_bit [of w 12]
    and_exp_eq_0_iff_not_bit [of w 13]
  by (simp_all add: is_pairwise_def info_install_def info_ack_def info_mic_def info_secure_def
      info_error_def info_request_def encrypted_key_data_def info_smk_def key_info_bits)

text \<open>Writes into an array whose first part is known.\<close>

lemma write_at_0: "write_at 0 src body = src @ drop (length src) body"
  by (simp add: write_at_def)

lemma write_at_Cons: "0 < i \<Longrightarrow> write_at i src (x # xs) = x # write_at (i - 1) src xs"
  by (cases i) (simp_all add: write_at_def)

lemma write_at_append: "length xs \<le> i \<Longrightarrow> write_at i src (xs @ ys) = xs @ write_at (i - length xs) src ys"
  by (simp add: write_at_def)

lemma write_at_gap:
  "i \<le> n \<Longrightarrow> write_at i src (replicate n z) = replicate i z @ src @ replicate (n - i - length src) z"
  by (simp add: write_at_def min_def drop_replicate)

lemma update_append: "length xs \<le> i \<Longrightarrow> (xs @ ys)[i := v] = xs @ ys[i - length xs := v]"
  by (simp add: list_update_append)

lemma update_gap: "i < n \<Longrightarrow> (replicate n z)[i := v] = replicate i z @ v # replicate (n - Suc i) z"
  by (simp add: list_eq_iff_nth_eq nth_append nth_list_update nth_Cons split: nat.split)

text \<open>The octets of a packet, field by field.\<close>

definition key_octets ::
    "u8 \<Rightarrow> u16 \<Rightarrow> u16 \<Rightarrow> u64 \<Rightarrow> u8 list \<Rightarrow> u8 list \<Rightarrow> u8 list \<Rightarrow> u8 list \<Rightarrow> u8 list" where
  "key_octets version info keylen replay nonce key_rsc mic data =
     [version, EAPOL_PACKET_TYPE_KEY] @ u16_to_be_bytes (word_of_nat (95 + length data))
     @ [RSN_KEY_DESCRIPTOR_TYPE] @ u16_to_be_bytes info @ u16_to_be_bytes keylen @ u64_to_be_bytes replay
     @ nonce @ replicate 16 0 @ key_rsc @ replicate 8 0 @ mic
     @ u16_to_be_bytes (word_of_nat (length data)) @ data"

lemma length_key_octets:
  "length nonce = 32 \<Longrightarrow> length key_rsc = 8 \<Longrightarrow> length mic = 16 \<Longrightarrow>
   length (key_octets version info keylen replay nonce key_rsc mic data) = 99 + length data"
  by (simp add: key_octets_def)

lemma build_octets:
  assumes "RsnTxFrame_build N interface peer version info keylen replay nonce key_rsc data = Ok f"
    and "length nonce = 32" "length key_rsc = 8"
  shows "tx_bytes f = key_octets version info keylen replay nonce key_rsc (replicate 16 0) data
           @ replicate (N - 99 - length data) 0"
    and "tx_interface f = interface" "tx_peer f = peer" "\<not> tx_retransmission f"
    and "length data \<le> 65440" "tx_len f = 99 + length data" "tx_len f \<le> N"
proof -
  have gap: "replicate 24 (0 :: u8) = replicate 8 0 @ replicate 16 0" by (simp flip: replicate_add)
  have fits: "length data \<le> 65440" "99 + length data \<le> N" and f: "f = \<lparr>tx_interface = interface,
      tx_peer = peer, tx_retransmission = False, tx_len = 99 + length data,
      tx_bytes = key_octets version info keylen replay nonce key_rsc (replicate 16 0) data
        @ replicate (N - 99 - length data) 0\<rparr>"
    using assms by (auto simp: RsnTxFrame_build_def Let_def eapol_lengths write_at_0 write_at_Cons
        write_at_append write_at_gap update_append update_gap key_octets_def gap split: if_splits)
  then show "tx_interface f = interface" "tx_peer f = peer" "\<not> tx_retransmission f"
    "length data \<le> 65440" "tx_len f = 99 + length data" "tx_len f \<le> N"
    "tx_bytes f = key_octets version info keylen replay nonce key_rsc (replicate 16 0) data
           @ replicate (N - 99 - length data) 0" by simp_all
qed

text \<open>What the parser and the accessors read from such octets.\<close>

lemma parse_key_octets:
  fixes version :: u8 and info keylen :: u16 and replay :: u64 and nonce key_rsc mic data :: "u8 list"
  assumes "length nonce = 32" "length key_rsc = 8" "length mic = 16" "length data \<le> 65440"
  defines "octets \<equiv> key_octets version info keylen replay nonce key_rsc mic data"
  shows "EapolKeyFrame_parse octets = Ok \<lparr>key_bytes = octets, key_data = data, key_info = EapolKeyInfo info\<rparr>"
proof -
  have body: "unat (word_of_nat (95 + length data) :: u16) = 95 + length data"
    "unat (word_of_nat (length data) :: u16) = length data"
    using assms(4) by (simp_all add: unat_of_nat take_bit_eq_mod del: of_nat_add)
  have at: "octets ! Suc 0 = EAPOL_PACKET_TYPE_KEY"
    "u16_from_be_bytes (octets ! 2) (octets ! 3) = word_of_nat (95 + length data)"
    "octets ! 4 = RSN_KEY_DESCRIPTOR_TYPE" "u16_from_be_bytes (octets ! 5) (octets ! 6) = info"
    "u16_from_be_bytes (octets ! 97) (octets ! 98) = word_of_nat (length data)"
    using assms(1-3) by (simp_all add: octets_def key_octets_def nth_append nth_Cons' u16_to_be_bytes_def
        del: of_nat_add)
  have "length octets = 99 + length data" using assms(1-3) by (simp add: octets_def length_key_octets)
  moreover have "drop 99 octets = data"
    using assms(1-3) by (simp add: octets_def key_octets_def drop_Cons')
  ultimately show ?thesis by (simp add: EapolKeyFrame_parse_def Let_def eapol_lengths at body del: of_nat_add)
qed

lemma key_octets_fields:
  assumes "length nonce = 32" "length key_rsc = 8" "length mic = 16"
    and "key_bytes k = key_octets version info keylen replay nonce key_rsc mic data"
  shows "protocol_version k = version" "key_length k = keylen" "replay_counter k = replay"
    "key_nonce k = nonce" "key_iv k = replicate 16 0" "key_receive_sequence k = key_rsc"
    "key_identifier k = replicate 8 0" "key_mic k = mic"
    and "verify_mic_with_kck mac k akm kck \<longleftrightarrow>
           mac akm kck (key_octets version info keylen replay nonce key_rsc (replicate 16 0) data) = mic"
  using assms by (simp_all add: protocol_version_def key_length_def replay_counter_def key_nonce_def
      key_iv_def key_receive_sequence_def key_identifier_def key_mic_def verify_mic_with_kck_def
      key_range_def key_octets_def eapol_lengths drop_Cons' take_Cons' nth_append nth_Cons' u16_to_be_bytes_def)

text \<open>An authenticated packet carries the code of its own octets.\<close>

lemma authenticated_octets:
  assumes "RsnTxFrame_build N interface peer version info keylen replay nonce key_rsc data = Ok f"
    and "length nonce = 32" "length key_rsc = 8" and mac: "\<And>akm kck bytes. length (mac akm kck bytes) = 16"
  shows "tx_as_bytes (authenticate_with_kck mac f akm kck)
      = key_octets version info keylen replay nonce key_rsc
          (mac akm kck (key_octets version info keylen replay nonce key_rsc (replicate 16 0) data)) data"
proof -
  note built = build_octets [OF assms(1-3)]
  let ?o = "\<lambda>m. key_octets version info keylen replay nonce key_rsc m data"
  have put: "length m = 16 \<Longrightarrow> length m' = 16 \<Longrightarrow>
      write_at 81 m' (?o m @ rest) = ?o m' @ rest" for m m' rest
    using assms(2,3) by (simp add: key_octets_def write_at_def drop_Cons' take_Cons')
  have "length (?o m) = 99 + length data" if "length m = 16" for m
    using that assms(2,3) by (simp add: length_key_octets)
  then have "tx_as_bytes (f\<lparr>tx_bytes := ?o m @ rest\<rparr>) = ?o m" if "length m = 16" for m rest
    using that built(6) by (simp add: tx_as_bytes_def)
  then show ?thesis
    by (simp add: authenticate_with_kck_def Let_def set_mic_def built(1) put mac)
qed

lemma tx_read_back:
  fixes mac :: mac_function and f :: RsnTxFrame and akm :: Akm and kck :: "u8 list"
  assumes "RsnTxFrame_build N interface peer version info keylen replay nonce key_rsc data = Ok f"
    and "length nonce = 32" "length key_rsc = 8" and mac: "\<And>akm kck bytes. length (mac akm kck bytes) = 16"
  defines "k \<equiv> tx_key_frame (authenticate_with_kck mac f akm kck)"
  shows "EapolKeyFrame_parse (tx_as_bytes (authenticate_with_kck mac f akm kck)) = Ok k"
    "key_info k = EapolKeyInfo info" "key_data k = data" "key_length k = keylen"
    "replay_counter k = replay" "key_nonce k = nonce" "key_receive_sequence k = key_rsc"
    "key_iv k = replicate 16 0" "key_identifier k = replicate 8 0" "verify_mic_with_kck mac k akm kck"
proof -
  let ?o = "\<lambda>m. key_octets version info keylen replay nonce key_rsc m data"
  let ?m = "mac akm kck (?o (replicate 16 0))"
  note octets = authenticated_octets [OF assms(1-4), where akm = akm and kck = kck]
  have len: "length ?m = 16" by (rule mac)
  note parsed = parse_key_octets [OF assms(2,3) len build_octets(5) [OF assms(1-3)], of version info keylen replay]
  have k: "k = \<lparr>key_bytes = ?o ?m, key_data = data, key_info = EapolKeyInfo info\<rparr>"
    by (simp add: k_def tx_key_frame_def octets parsed)
  show "EapolKeyFrame_parse (tx_as_bytes (authenticate_with_kck mac f akm kck)) = Ok k"
    by (simp add: octets parsed k)
  have "key_bytes k = ?o ?m" by (simp add: k)
  note fields = key_octets_fields [OF assms(2,3) len this]
  show "key_info k = EapolKeyInfo info" "key_data k = data" by (simp_all add: k)
  show "key_length k = keylen" "replay_counter k = replay" "key_nonce k = nonce"
    "key_receive_sequence k = key_rsc" "key_iv k = replicate 16 0" "key_identifier k = replicate 8 0"
    "verify_mic_with_kck mac k akm kck"
    by (simp_all add: fields)
qed

text \<open>The Key Information of each message names that message and the suite's descriptor version.\<close>

lemma version_bits:
  "3 \<le> i \<Longrightarrow> \<not> bit (ucast (key_descriptor_version akm) :: u16) i"
proof -
  have "(ucast (key_descriptor_version akm) :: u16) = take_bit 3 (ucast (key_descriptor_version akm))"
    by (cases akm) (simp_all add: take_bit_eq_mod)
  then show "3 \<le> i \<Longrightarrow> \<not> bit (ucast (key_descriptor_version akm) :: u16) i"
    by (metis bit_take_bit_iff not_le)
qed

lemma version_read:
  assumes "\<And>i. i < 3 \<Longrightarrow> \<not> bit flags i"
  shows "descriptor_version (EapolKeyInfo (flags OR ucast (key_descriptor_version akm))) = key_descriptor_version akm"
proof -
  have mask: "KEY_INFO_DESCRIPTOR_VERSION_MASK = mask 3"
    by (simp add: KEY_INFO_DESCRIPTOR_VERSION_MASK_def mask_eq_exp_minus_1)
  have "flags AND mask 3 = 0" using assms by (auto intro!: bit_word_eqI simp: bit_simps)
  then have "descriptor_version (EapolKeyInfo (flags OR ucast (key_descriptor_version akm)))
      = ucast ((ucast (key_descriptor_version akm) :: u16) AND mask 3)"
    by (simp add: descriptor_version_def mask bit.conj_disj_distrib2)
  also have "\<dots> = key_descriptor_version akm" by (cases akm) (simp_all add: mask_eq_exp_minus_1)
  finally show ?thesis .
qed

definition message_info :: "EapolKeyMessage \<Rightarrow> u16" where
  "message_info m = (case m of
       PairwiseMessage1 \<Rightarrow> KEY_INFO_PAIRWISE OR KEY_INFO_ACK
     | PairwiseMessage2 \<Rightarrow> KEY_INFO_PAIRWISE OR KEY_INFO_MIC
     | PairwiseMessage3 \<Rightarrow> KEY_INFO_PAIRWISE OR KEY_INFO_INSTALL OR KEY_INFO_ACK OR KEY_INFO_MIC
         OR KEY_INFO_SECURE OR KEY_INFO_ENCRYPTED_KEY_DATA
     | PairwiseMessage4 \<Rightarrow> KEY_INFO_PAIRWISE OR KEY_INFO_MIC OR KEY_INFO_SECURE
     | GroupMessage1 \<Rightarrow> KEY_INFO_ACK OR KEY_INFO_MIC OR KEY_INFO_SECURE OR KEY_INFO_ENCRYPTED_KEY_DATA
     | GroupMessage2 \<Rightarrow> KEY_INFO_MIC OR KEY_INFO_SECURE
     | OtherMessage \<Rightarrow> 0)"

lemma bit_push_one: "n < 16 \<Longrightarrow> bit (push_bit n 1 :: u16) i \<longleftrightarrow> i = n"
  by (auto simp: bit_exp_iff)

lemma key_info_bit:
  "bit KEY_INFO_PAIRWISE i \<longleftrightarrow> i = 3" "bit KEY_INFO_INSTALL i \<longleftrightarrow> i = 6" "bit KEY_INFO_ACK i \<longleftrightarrow> i = 7"
  "bit KEY_INFO_MIC i \<longleftrightarrow> i = 8" "bit KEY_INFO_SECURE i \<longleftrightarrow> i = 9"
  "bit KEY_INFO_ENCRYPTED_KEY_DATA i \<longleftrightarrow> i = 12"
  unfolding key_info_bits by (rule bit_push_one, simp)+

lemma message_info_bits:
  "bit (message_info m) i \<longleftrightarrow> i \<in> (case m of PairwiseMessage1 \<Rightarrow> {3, 7} | PairwiseMessage2 \<Rightarrow> {3, 8}
     | PairwiseMessage3 \<Rightarrow> {3, 6, 7, 8, 9, 12} | PairwiseMessage4 \<Rightarrow> {3, 8, 9}
     | GroupMessage1 \<Rightarrow> {7, 8, 9, 12} | GroupMessage2 \<Rightarrow> {8, 9} | OtherMessage \<Rightarrow> {})"
  by (cases m) (auto simp: message_info_def key_info_bit bit_or_iff)

lemma classify_message_info:
  "classify (EapolKeyInfo (message_info m OR ucast (key_descriptor_version akm))) = m"
  by (cases m) (simp_all add: classify_def info_flag_iff bit_or_iff message_info_bits version_bits)

lemma version_message_info:
  "descriptor_version (EapolKeyInfo (message_info m OR ucast (key_descriptor_version akm))) = key_descriptor_version akm"
  by (rule version_read) (cases m; simp add: message_info_bits)

text \<open>The builder of each message, with the fields it does not carry ignored.\<close>

definition build_message ::
    "EapolKeyMessage \<Rightarrow> nat \<Rightarrow> Akm \<Rightarrow> u8 list \<Rightarrow> u64 \<Rightarrow> u8 list \<Rightarrow> u8 list \<Rightarrow> u8 list
     \<Rightarrow> (RsnTxFrame, RsnFrameError) result" where
  "build_message m N akm peer replay nonce key_rsc data = (case m of
       PairwiseMessage1 \<Rightarrow> RsnTxFrame_message1 N akm peer replay nonce
     | PairwiseMessage2 \<Rightarrow> RsnTxFrame_message2_with_security_ies N akm peer replay nonce data
     | PairwiseMessage3 \<Rightarrow> RsnTxFrame_message3 N akm peer replay nonce key_rsc data
     | PairwiseMessage4 \<Rightarrow> RsnTxFrame_message4 N akm peer replay
     | GroupMessage1 \<Rightarrow> RsnTxFrame_group_message1 N akm peer replay key_rsc data
     | GroupMessage2 \<Rightarrow> RsnTxFrame_group_message2 N akm peer replay
     | OtherMessage \<Rightarrow> Err UnexpectedTransmitAction)"

definition carried_nonce :: "EapolKeyMessage \<Rightarrow> u8 list \<Rightarrow> u8 list" where
  "carried_nonce m nonce =
     (if m \<in> {PairwiseMessage1, PairwiseMessage2, PairwiseMessage3} then nonce else replicate 32 0)"

definition carried_data :: "EapolKeyMessage \<Rightarrow> u8 list \<Rightarrow> u8 list" where
  "carried_data m data = (if m \<in> {PairwiseMessage2, PairwiseMessage3, GroupMessage1} then data else [])"

definition carried_rsc :: "EapolKeyMessage \<Rightarrow> u8 list \<Rightarrow> u8 list" where
  "carried_rsc m key_rsc = (if m \<in> {PairwiseMessage3, GroupMessage1} then key_rsc else replicate 8 0)"

lemma build_message_built:
  assumes "build_message m N akm peer replay nonce key_rsc data = Ok f"
  obtains interface version keylen where
    "RsnTxFrame_build N interface peer version (message_info m OR ucast (key_descriptor_version akm))
       keylen replay (carried_nonce m nonce) (carried_rsc m key_rsc) (carried_data m data) = Ok f"
    "interface = (if m \<in> {PairwiseMessage1, PairwiseMessage3, GroupMessage1}
       then AccessPointInterface else StationInterface)"
    "m = PairwiseMessage3 \<Longrightarrow> keylen = RSN_GTK_LEN"
    "m \<in> {PairwiseMessage3, GroupMessage1} \<Longrightarrow> data \<noteq> []"
    "m \<noteq> OtherMessage"
  using assms
  by (cases m) (force simp: build_message_def RsnTxFrame_message1_def RsnTxFrame_message2_with_security_ies_def
      RsnTxFrame_message3_def RsnTxFrame_message4_def RsnTxFrame_group_message1_def
      RsnTxFrame_group_message2_def message_info_def carried_nonce_def carried_data_def carried_rsc_def
      or.assoc split: if_splits)+

text \<open>
  C22. Every message a station or an access point builds and authenticates is accepted by the parser
  and read back with the fields it was built from: the message it names, the descriptor version of
  the suite, replay counter, nonce, receive sequence and key data; its MIC verifies under the key
  it was authenticated with.
\<close>

theorem handshake_messages_are_read_back:
  assumes "build_message m N akm peer replay nonce key_rsc data = Ok f"
    and "length nonce = 32" "length key_rsc = 8" and "\<And>akm kck bytes. length (mac akm kck bytes) = 16"
    and "k = tx_key_frame (authenticate_with_kck mac f akm kck)"
  shows "EapolKeyFrame_parse (tx_as_bytes (authenticate_with_kck mac f akm kck)) = Ok k
    \<and> key_message k = m \<and> descriptor_version (key_info k) = key_descriptor_version akm
    \<and> replay_counter k = replay \<and> key_nonce k = carried_nonce m nonce
    \<and> key_receive_sequence k = carried_rsc m key_rsc \<and> key_data k = carried_data m data
    \<and> verify_mic_with_kck mac k akm kck"
proof -
  obtain interface version keylen where built:
    "RsnTxFrame_build N interface peer version (message_info m OR ucast (key_descriptor_version akm))
       keylen replay (carried_nonce m nonce) (carried_rsc m key_rsc) (carried_data m data) = Ok f"
    using assms(1) by (rule build_message_built)
  have "length (carried_nonce m nonce) = 32" "length (carried_rsc m key_rsc) = 8"
    using assms(2,3) by (simp_all add: carried_nonce_def carried_rsc_def)
  note read = tx_read_back [OF built this assms(4), where akm = akm and kck = kck]
  show ?thesis unfolding assms(5) key_message_def
    by (intro conjI) (simp_all only: read classify_message_info version_message_info)
qed

definition sample_mac :: mac_function where
  "sample_mac akm kck bytes = replicate 16 (foldr (+) (kck @ bytes) 0)"

theorem handshake_messages_are_read_back_witness:
  "let f = expect_ok (build_message PairwiseMessage3 512 Psk [2, 0, 0, 0, 0, 1] 7 (replicate 32 5)
             (replicate 8 1) [9, 9]);
       k = tx_key_frame (authenticate_with_kck sample_mac f Psk [1, 2, 3])
   in key_message k = PairwiseMessage3 \<and> replay_counter k = 7 \<and> key_data k = [9, 9]
      \<and> verify_mic_with_kck sample_mac k Psk [1, 2, 3]"
proof -
  let ?r = "build_message PairwiseMessage3 512 Psk [2, 0, 0, 0, 0, 1] 7 (replicate 32 5) (replicate 8 1) [9, 9]"
  have "\<exists>f. ?r = Ok f"
    by (simp add: build_message_def RsnTxFrame_message3_def RsnTxFrame_build_def Let_def eapol_lengths
        list_all_iff)
  then obtain f where f: "?r = Ok f" by blast
  show ?thesis
    using handshake_messages_are_read_back [OF f _ _ _ refl, of sample_mac "[1, 2, 3]"]
    by (simp add: f Let_def sample_mac_def carried_data_def)
qed

end
