(* ===== verification/Rsn_State.thy ===== *)
theory Rsn_State
  imports Eapol_Key
begin

text \<open>
  The four-way handshake's control flow (\<open>ieee80211/security/rsn/src/state.rs\<close>,
  \<open>state/supplicant.rs\<close> and \<open>state/authenticator.rs\<close>): the station and the access point machines
  with their phases, replay counters and completion tickets, and the access point's peer table.
  The machines run no cryptography: they ask for it by an action and read its outcome from the
  completion.  An operation returns its result together with the state after it.
\<close>

subsection \<open>Shared vocabulary\<close>

definition RSN_CCMP_TEMPORAL_KEY_LEN :: u16 where "RSN_CCMP_TEMPORAL_KEY_LEN = 16"

definition pairwise_message3_key_info :: "Akm \<Rightarrow> u16" where
  "pairwise_message3_key_info akm =
     ucast (key_descriptor_version akm) OR push_bit 3 1 OR push_bit 6 1 OR push_bit 7 1
       OR push_bit 8 1 OR push_bit 9 1 OR push_bit 12 1"

datatype RsnTicket = RsnTicket (ticket_raw: u32)

record PtkContext =
  authenticator_address :: "u8 list"
  supplicant_address :: "u8 list"
  context_anonce :: "u8 list"
  context_snonce :: "u8 list"

datatype RsnTxMessage = TxMessage1 | TxMessage2 | TxMessage3 | TxMessage4

record RsnTransmit =
  transmit_message :: RsnTxMessage
  transmit_replay :: u64
  transmit_retransmission :: bool

datatype RsnStateError =
    WrongInterface | WrongPeer | UnsupportedDescriptorVersion | UnsupportedMessage | UnexpectedMessage
  | StaleReplayCounter | ReplayCounterMismatch | ReplayCounterExhausted | ZeroNonce
  | AuthenticatorNonceMismatch | InvalidKeyLength | InvalidMessage3KeyInfo | NonzeroKeyIv
  | NonzeroKeyIdentifier | MissingEncryptedKeyData | WrongPhase | StaleCompletion | RetainedFrameMismatch

definition is_peer_input_rejection :: "RsnStateError \<Rightarrow> bool" where
  "is_peer_input_rejection self \<longleftrightarrow> self \<in> {WrongInterface, WrongPeer, UnsupportedDescriptorVersion,
     UnsupportedMessage, UnexpectedMessage, StaleReplayCounter, ReplayCounterMismatch, ZeroNonce,
     AuthenticatorNonceMismatch, InvalidKeyLength, InvalidMessage3KeyInfo, NonzeroKeyIv,
     NonzeroKeyIdentifier, MissingEncryptedKeyData}"

definition nonce_is_zero :: "u8 list \<Rightarrow> bool" where
  "nonce_is_zero nonce \<longleftrightarrow> list_all (\<lambda>byte. byte = 0) nonce"

text \<open>The ticket counter of both machines: it skips zero when it wraps.\<close>

definition ticket_after :: "u32 \<Rightarrow> u32" where
  "ticket_after n = (if n + 1 = 0 then 1 else n + 1)"

subsection \<open>Station\<close>

datatype RsnStaPhase =
    StaAwaitingMessage1 | StaDerivingPtk | StaAwaitingMessage3 | StaVerifyingMessage3
  | StaDecryptingKeyData | StaInstallingKeys | StaCompleted | StaFailed

datatype RsnStaAction =
    StaNone
  | StaDerivePtk RsnTicket PtkContext
  | StaVerifyMessage3Mic RsnTicket OwnedEapolFrame
  | StaDecryptMessage3KeyData RsnTicket OwnedEapolFrame
  | StaInstallKeys RsnTicket OwnedEapolFrame
  | StaTransmit RsnTransmit
  | StaDeauthenticate

record RsnStaState =
  sta_akm :: Akm
  sta_local :: "u8 list"
  sta_authenticator :: "u8 list"
  sta_snonce :: "u8 list"
  sta_anonce :: "u8 list"
  sta_phase :: RsnStaPhase
  sta_message1_replay :: u64
  sta_message3_replay :: u64
  sta_active_ticket :: RsnTicket
  sta_next_ticket :: u32

type_synonym 'a sta_step = "('a, RsnStateError) result \<times> RsnStaState"

definition RsnStaState_new ::
    "Akm \<Rightarrow> u8 list \<Rightarrow> u8 list \<Rightarrow> u8 list \<Rightarrow> (RsnStaState, RsnStateError) result" where
  "RsnStaState_new akm local_address peer snonce =
     (if nonce_is_zero snonce then Err ZeroNonce
      else Ok \<lparr>sta_akm = akm, sta_local = local_address, sta_authenticator = peer, sta_snonce = snonce,
               sta_anonce = replicate 32 0, sta_phase = StaAwaitingMessage1,
               sta_message1_replay = 0, sta_message3_replay = 0,
               sta_active_ticket = RsnTicket 0, sta_next_ticket = 1\<rparr>)"

definition completed_replay_counter :: "RsnStaState \<Rightarrow> u64 option" where
  "completed_replay_counter self =
     (case sta_phase self of StaCompleted \<Rightarrow> Some (sta_message3_replay self) | _ \<Rightarrow> None)"

definition sta_issue_ticket :: "RsnStaState \<Rightarrow> RsnTicket \<times> RsnStaState" where
  "sta_issue_ticket self =
     (let ticket = RsnTicket (sta_next_ticket self)
      in (ticket, self\<lparr>sta_next_ticket := ticket_after (sta_next_ticket self),
                       sta_active_ticket := ticket\<rparr>))"

definition sta_ptk_context :: "RsnStaState \<Rightarrow> PtkContext" where
  "sta_ptk_context self =
     \<lparr>authenticator_address = sta_authenticator self, supplicant_address = sta_local self,
      context_anonce = sta_anonce self, context_snonce = sta_snonce self\<rparr>"

definition sta_validate_frame :: "RsnStaState \<Rightarrow> OwnedEapolFrame \<Rightarrow> (unit, RsnStateError) result" where
  "sta_validate_frame self frame =
     (if frame_interface frame \<noteq> StationInterface then Err WrongInterface
      else if frame_peer frame \<noteq> sta_authenticator self then Err WrongPeer
      else Ok ())"

definition validate_message3_fields :: "RsnStaState \<Rightarrow> OwnedEapolFrame \<Rightarrow> (unit, RsnStateError) result" where
  "validate_message3_fields self frame =
     (let key = key_frame frame
      in if key_info_raw (key_info key) \<noteq> pairwise_message3_key_info (sta_akm self)
         then Err InvalidMessage3KeyInfo
         else if key_length key \<noteq> RSN_CCMP_TEMPORAL_KEY_LEN then Err InvalidKeyLength
         else if key_nonce key \<noteq> sta_anonce self then Err AuthenticatorNonceMismatch
         else if list_ex (\<lambda>byte. byte \<noteq> 0) (key_iv key) then Err NonzeroKeyIv
         else if list_ex (\<lambda>byte. byte \<noteq> 0) (key_identifier key) then Err NonzeroKeyIdentifier
         else if key_data key = [] then Err MissingEncryptedKeyData
         else Ok ())"

definition validate_retained_message3 :: "RsnStaState \<Rightarrow> OwnedEapolFrame \<Rightarrow> (unit, RsnStateError) result" where
  "validate_retained_message3 self frame =
     (case sta_validate_frame self frame of
        Err e \<Rightarrow> Err e
      | Ok _ \<Rightarrow>
          (case validate_message3_fields self frame of
             Err e \<Rightarrow> Err e
           | Ok _ \<Rightarrow>
               if key_message (key_frame frame) \<noteq> PairwiseMessage3
                  \<or> replay_counter (key_frame frame) \<noteq> sta_message3_replay self
               then Err RetainedFrameMismatch else Ok ()))"

definition sta_check_completion :: "RsnStaState \<Rightarrow> RsnTicket \<Rightarrow> RsnStaPhase \<Rightarrow> (unit, RsnStateError) result" where
  "sta_check_completion self ticket phase =
     (if sta_phase self \<noteq> phase then Err WrongPhase
      else if sta_active_ticket self \<noteq> ticket then Err StaleCompletion
      else Ok ())"

definition start_ptk :: "RsnStaState \<Rightarrow> u64 \<Rightarrow> u8 list \<Rightarrow> RsnStaAction sta_step" where
  "start_ptk self replay nonce =
     (let self = self\<lparr>sta_message1_replay := replay, sta_message3_replay := 0,
                      sta_anonce := nonce, sta_phase := StaDerivingPtk\<rparr>;
          (ticket, self) = sta_issue_ticket self
      in (Ok (StaDerivePtk ticket (sta_ptk_context self)), self))"

definition sta_on_message1 :: "RsnStaState \<Rightarrow> OwnedEapolFrame \<Rightarrow> RsnStaAction sta_step" where
  "sta_on_message1 self frame =
     (let key = key_frame frame; replay = replay_counter key; nonce = key_nonce key
      in if nonce_is_zero nonce then (Err ZeroNonce, self)
         else case sta_phase self of
             StaAwaitingMessage1 \<Rightarrow> start_ptk self replay nonce
           | StaCompleted \<Rightarrow>
               if replay \<le> sta_message3_replay self then (Err StaleReplayCounter, self)
               else start_ptk self replay nonce
           | StaDerivingPtk \<Rightarrow>
               if replay = sta_message1_replay self \<and> nonce = sta_anonce self then (Ok StaNone, self)
               else if replay < sta_message1_replay self then (Err StaleReplayCounter, self)
               else start_ptk self replay nonce
           | StaAwaitingMessage3 \<Rightarrow>
               if replay = sta_message1_replay self \<and> nonce = sta_anonce self
               then (Ok (StaTransmit \<lparr>transmit_message = TxMessage2, transmit_replay = replay,
                       transmit_retransmission = True\<rparr>), self)
               else if replay < sta_message1_replay self then (Err StaleReplayCounter, self)
               else start_ptk self replay nonce
           | StaFailed \<Rightarrow> (Err WrongPhase, self)
           | _ \<Rightarrow>
               if replay \<le> sta_message1_replay self then (Ok StaNone, self)
               else (Err UnexpectedMessage, self))"

text \<open>Both phases that accept a Message 3 hold its counter while its MIC is verified.\<close>

definition sta_verify_message3 :: "RsnStaState \<Rightarrow> OwnedEapolFrame \<Rightarrow> RsnStaAction sta_step" where
  "sta_verify_message3 self frame =
     (let self = self\<lparr>sta_message3_replay := replay_counter (key_frame frame),
                      sta_phase := StaVerifyingMessage3\<rparr>;
          (ticket, self) = sta_issue_ticket self
      in (Ok (StaVerifyMessage3Mic ticket frame), self))"

definition sta_on_message3 :: "RsnStaState \<Rightarrow> OwnedEapolFrame \<Rightarrow> RsnStaAction sta_step" where
  "sta_on_message3 self frame =
     (case validate_message3_fields self frame of
        Err e \<Rightarrow> (Err e, self)
      | Ok _ \<Rightarrow>
          (let replay = replay_counter (key_frame frame)
           in case sta_phase self of
               StaAwaitingMessage3 \<Rightarrow>
                 if replay \<le> sta_message1_replay self then (Err StaleReplayCounter, self)
                 else sta_verify_message3 self frame
             | StaCompleted \<Rightarrow>
                 if replay = sta_message3_replay self
                 then (Ok (StaTransmit \<lparr>transmit_message = TxMessage4, transmit_replay = replay,
                         transmit_retransmission = True\<rparr>), self)
                 else if replay < sta_message3_replay self then (Err StaleReplayCounter, self)
                 else sta_verify_message3 self frame
             | StaAwaitingMessage1 \<Rightarrow> (Err UnexpectedMessage, self)
             | StaDerivingPtk \<Rightarrow> (Err UnexpectedMessage, self)
             | StaFailed \<Rightarrow> (Err UnexpectedMessage, self)
             | _ \<Rightarrow>
                 if replay = sta_message3_replay self then (Ok StaNone, self)
                 else if replay < sta_message3_replay self then (Err StaleReplayCounter, self)
                 else (Err UnexpectedMessage, self)))"

definition sta_on_frame :: "RsnStaState \<Rightarrow> OwnedEapolFrame \<Rightarrow> RsnStaAction sta_step" where
  "sta_on_frame self frame =
     (case sta_validate_frame self frame of
        Err e \<Rightarrow> (Err e, self)
      | Ok _ \<Rightarrow>
          if descriptor_version (key_info (key_frame frame)) \<noteq> key_descriptor_version (sta_akm self)
          then (Err UnsupportedDescriptorVersion, self)
          else case key_message (key_frame frame) of
              PairwiseMessage1 \<Rightarrow> sta_on_message1 self frame
            | PairwiseMessage3 \<Rightarrow> sta_on_message3 self frame
            | _ \<Rightarrow> (Err UnsupportedMessage, self))"

definition sta_complete_ptk :: "RsnStaState \<Rightarrow> RsnTicket \<Rightarrow> bool \<Rightarrow> RsnStaAction sta_step" where
  "sta_complete_ptk self ticket valid =
     (case sta_check_completion self ticket StaDerivingPtk of
        Err e \<Rightarrow> (Err e, self)
      | Ok _ \<Rightarrow>
          if \<not> valid then (Ok StaDeauthenticate, self\<lparr>sta_phase := StaFailed\<rparr>)
          else (Ok (StaTransmit \<lparr>transmit_message = TxMessage2,
                  transmit_replay = sta_message1_replay self, transmit_retransmission = False\<rparr>),
                self\<lparr>sta_phase := StaAwaitingMessage3\<rparr>))"

definition sta_complete_message3_mic ::
    "RsnStaState \<Rightarrow> RsnTicket \<Rightarrow> OwnedEapolFrame \<Rightarrow> bool \<Rightarrow> RsnStaAction sta_step" where
  "sta_complete_message3_mic self ticket frame valid =
     (case sta_check_completion self ticket StaVerifyingMessage3 of
        Err e \<Rightarrow> (Err e, self)
      | Ok _ \<Rightarrow>
          (case validate_retained_message3 self frame of
             Err e \<Rightarrow> (Err e, self)
           | Ok _ \<Rightarrow>
               if \<not> valid
               then (Ok StaNone, self\<lparr>sta_message3_replay := 0, sta_phase := StaAwaitingMessage3\<rparr>)
               else if encrypted_key_data (key_info (key_frame frame))
               then if key_data (key_frame frame) = [] then (Err MissingEncryptedKeyData, self)
                    else (let (ticket, self) = sta_issue_ticket (self\<lparr>sta_phase := StaDecryptingKeyData\<rparr>)
                          in (Ok (StaDecryptMessage3KeyData ticket frame), self))
               else (let (ticket, self) = sta_issue_ticket (self\<lparr>sta_phase := StaInstallingKeys\<rparr>)
                     in (Ok (StaInstallKeys ticket frame), self))))"

definition sta_complete_key_data ::
    "RsnStaState \<Rightarrow> RsnTicket \<Rightarrow> OwnedEapolFrame \<Rightarrow> bool \<Rightarrow> RsnStaAction sta_step" where
  "sta_complete_key_data self ticket frame valid =
     (case sta_check_completion self ticket StaDecryptingKeyData of
        Err e \<Rightarrow> (Err e, self)
      | Ok _ \<Rightarrow>
          (case validate_retained_message3 self frame of
             Err e \<Rightarrow> (Err e, self)
           | Ok _ \<Rightarrow>
               if \<not> valid then (Ok StaDeauthenticate, self\<lparr>sta_phase := StaFailed\<rparr>)
               else (let (ticket, self) = sta_issue_ticket (self\<lparr>sta_phase := StaInstallingKeys\<rparr>)
                     in (Ok (StaInstallKeys ticket frame), self))))"

definition sta_complete_key_install :: "RsnStaState \<Rightarrow> RsnTicket \<Rightarrow> bool \<Rightarrow> RsnStaAction sta_step" where
  "sta_complete_key_install self ticket installed =
     (case sta_check_completion self ticket StaInstallingKeys of
        Err e \<Rightarrow> (Err e, self)
      | Ok _ \<Rightarrow>
          if \<not> installed then (Ok StaDeauthenticate, self\<lparr>sta_phase := StaFailed\<rparr>)
          else (Ok (StaTransmit \<lparr>transmit_message = TxMessage4,
                  transmit_replay = sta_message3_replay self, transmit_retransmission = False\<rparr>),
                self\<lparr>sta_phase := StaCompleted\<rparr>))"

subsection \<open>Authenticator\<close>

datatype RsnApPhase =
    ApAwaitingMessage2 | ApDerivingPtk | ApVerifyingMessage2 | ApPreparingMessage3
  | ApAwaitingMessage4 | ApVerifyingMessage4 | ApAuthorized | ApFailed

datatype RsnApAction =
    ApNone
  | ApDerivePtk RsnTicket PtkContext OwnedEapolFrame
  | ApVerifyMessage2Mic RsnTicket OwnedEapolFrame
  | ApPrepareMessage3 RsnTicket
  | ApVerifyMessage4Mic RsnTicket OwnedEapolFrame
  | ApTransmit RsnTransmit
  | ApAuthorizePeer
  | ApDeauthenticatePeer

record RsnApState =
  ap_akm :: Akm
  ap_authenticator :: "u8 list"
  ap_supplicant :: "u8 list"
  ap_anonce :: "u8 list"
  ap_snonce :: "u8 list"
  ap_phase :: RsnApPhase
  ap_message1_replay :: u64
  ap_message3_replay :: u64
  ap_active_ticket :: RsnTicket
  ap_next_ticket :: u32

type_synonym 'a ap_step = "('a, RsnStateError) result \<times> RsnApState"

definition RsnApState_new ::
    "Akm \<Rightarrow> u8 list \<Rightarrow> u8 list \<Rightarrow> u8 list \<Rightarrow> u64 \<Rightarrow> (RsnApState, RsnStateError) result" where
  "RsnApState_new akm authenticator supplicant anonce initial_replay =
     (if initial_replay = - 1 then Err ReplayCounterExhausted
      else if nonce_is_zero anonce then Err ZeroNonce
      else Ok \<lparr>ap_akm = akm, ap_authenticator = authenticator, ap_supplicant = supplicant,
               ap_anonce = anonce, ap_snonce = replicate 32 0, ap_phase = ApAwaitingMessage2,
               ap_message1_replay = initial_replay, ap_message3_replay = 0,
               ap_active_ticket = RsnTicket 0, ap_next_ticket = 1\<rparr>)"

definition ap_issue_ticket :: "RsnApState \<Rightarrow> RsnTicket \<times> RsnApState" where
  "ap_issue_ticket self =
     (let ticket = RsnTicket (ap_next_ticket self)
      in (ticket, self\<lparr>ap_next_ticket := ticket_after (ap_next_ticket self),
                       ap_active_ticket := ticket\<rparr>))"

definition ap_ptk_context :: "RsnApState \<Rightarrow> PtkContext" where
  "ap_ptk_context self =
     \<lparr>authenticator_address = ap_authenticator self, supplicant_address = ap_supplicant self,
      context_anonce = ap_anonce self, context_snonce = ap_snonce self\<rparr>"

definition ap_validate_frame :: "RsnApState \<Rightarrow> OwnedEapolFrame \<Rightarrow> (unit, RsnStateError) result" where
  "ap_validate_frame self frame =
     (if frame_interface frame \<noteq> AccessPointInterface then Err WrongInterface
      else if frame_peer frame \<noteq> ap_supplicant self then Err WrongPeer
      else Ok ())"

definition validate_retained_message2 :: "RsnApState \<Rightarrow> OwnedEapolFrame \<Rightarrow> (unit, RsnStateError) result" where
  "validate_retained_message2 self frame =
     (case ap_validate_frame self frame of
        Err e \<Rightarrow> Err e
      | Ok _ \<Rightarrow>
          if key_message (key_frame frame) \<noteq> PairwiseMessage2
             \<or> replay_counter (key_frame frame) \<noteq> ap_message1_replay self
             \<or> key_nonce (key_frame frame) \<noteq> ap_snonce self
          then Err RetainedFrameMismatch else Ok ())"

definition validate_retained_message4 :: "RsnApState \<Rightarrow> OwnedEapolFrame \<Rightarrow> (unit, RsnStateError) result" where
  "validate_retained_message4 self frame =
     (case ap_validate_frame self frame of
        Err e \<Rightarrow> Err e
      | Ok _ \<Rightarrow>
          if key_message (key_frame frame) \<noteq> PairwiseMessage4
             \<or> replay_counter (key_frame frame) \<noteq> ap_message3_replay self
          then Err RetainedFrameMismatch else Ok ())"

definition ap_check_completion :: "RsnApState \<Rightarrow> RsnTicket \<Rightarrow> RsnApPhase \<Rightarrow> (unit, RsnStateError) result" where
  "ap_check_completion self ticket phase =
     (if ap_phase self \<noteq> phase then Err WrongPhase
      else if ap_active_ticket self \<noteq> ticket then Err StaleCompletion
      else Ok ())"

definition ap_message1 :: "RsnApState \<Rightarrow> bool \<Rightarrow> (RsnApAction, RsnStateError) result" where
  "ap_message1 self retransmission =
     (if ap_phase self \<noteq> ApAwaitingMessage2 then Err WrongPhase
      else Ok (ApTransmit \<lparr>transmit_message = TxMessage1, transmit_replay = ap_message1_replay self,
             transmit_retransmission = retransmission\<rparr>))"

definition retry_transmit :: "RsnApState \<Rightarrow> (RsnTransmit, RsnStateError) result" where
  "retry_transmit self =
     (case ap_phase self of
        ApAwaitingMessage2 \<Rightarrow> Ok \<lparr>transmit_message = TxMessage1, transmit_replay = ap_message1_replay self,
          transmit_retransmission = True\<rparr>
      | ApAwaitingMessage4 \<Rightarrow> Ok \<lparr>transmit_message = TxMessage3, transmit_replay = ap_message3_replay self,
          transmit_retransmission = True\<rparr>
      | _ \<Rightarrow> Err WrongPhase)"

definition ap_on_message2 :: "RsnApState \<Rightarrow> OwnedEapolFrame \<Rightarrow> RsnApAction ap_step" where
  "ap_on_message2 self frame =
     (let key = key_frame frame; nonce = key_nonce key
      in if replay_counter key \<noteq> ap_message1_replay self then (Err ReplayCounterMismatch, self)
         else if nonce_is_zero nonce then (Err ZeroNonce, self)
         else case ap_phase self of
             ApAwaitingMessage2 \<Rightarrow>
               (let self = self\<lparr>ap_snonce := nonce, ap_phase := ApDerivingPtk\<rparr>;
                    (ticket, self) = ap_issue_ticket self
                in (Ok (ApDerivePtk ticket (ap_ptk_context self) frame), self))
           | ApAwaitingMessage4 \<Rightarrow>
               if nonce = ap_snonce self then (Ok ApNone, self) else (Err UnexpectedMessage, self)
           | ApVerifyingMessage4 \<Rightarrow>
               if nonce = ap_snonce self then (Ok ApNone, self) else (Err UnexpectedMessage, self)
           | ApFailed \<Rightarrow> (Err WrongPhase, self)
           | _ \<Rightarrow> (Ok ApNone, self))"

definition ap_on_message4 :: "RsnApState \<Rightarrow> OwnedEapolFrame \<Rightarrow> RsnApAction ap_step" where
  "ap_on_message4 self frame =
     (if replay_counter (key_frame frame) \<noteq> ap_message3_replay self then (Err ReplayCounterMismatch, self)
      else case ap_phase self of
          ApAwaitingMessage4 \<Rightarrow>
            (let (ticket, self) = ap_issue_ticket (self\<lparr>ap_phase := ApVerifyingMessage4\<rparr>)
             in (Ok (ApVerifyMessage4Mic ticket frame), self))
        | ApVerifyingMessage4 \<Rightarrow> (Ok ApNone, self)
        | ApAuthorized \<Rightarrow> (Ok ApNone, self)
        | _ \<Rightarrow> (Err UnexpectedMessage, self))"

definition ap_on_frame :: "RsnApState \<Rightarrow> OwnedEapolFrame \<Rightarrow> RsnApAction ap_step" where
  "ap_on_frame self frame =
     (case ap_validate_frame self frame of
        Err e \<Rightarrow> (Err e, self)
      | Ok _ \<Rightarrow>
          if descriptor_version (key_info (key_frame frame)) \<noteq> key_descriptor_version (ap_akm self)
          then (Err UnsupportedDescriptorVersion, self)
          else case key_message (key_frame frame) of
              PairwiseMessage2 \<Rightarrow> ap_on_message2 self frame
            | PairwiseMessage4 \<Rightarrow> ap_on_message4 self frame
            | _ \<Rightarrow> (Err UnsupportedMessage, self))"

definition ap_complete_ptk :: "RsnApState \<Rightarrow> RsnTicket \<Rightarrow> OwnedEapolFrame \<Rightarrow> bool \<Rightarrow> RsnApAction ap_step" where
  "ap_complete_ptk self ticket message2 valid =
     (case ap_check_completion self ticket ApDerivingPtk of
        Err e \<Rightarrow> (Err e, self)
      | Ok _ \<Rightarrow>
          (case validate_retained_message2 self message2 of
             Err e \<Rightarrow> (Err e, self)
           | Ok _ \<Rightarrow>
               if \<not> valid then (Ok ApDeauthenticatePeer, self\<lparr>ap_phase := ApFailed\<rparr>)
               else (let (ticket, self) = ap_issue_ticket (self\<lparr>ap_phase := ApVerifyingMessage2\<rparr>)
                     in (Ok (ApVerifyMessage2Mic ticket message2), self))))"

definition complete_message2_mic :: "RsnApState \<Rightarrow> RsnTicket \<Rightarrow> OwnedEapolFrame \<Rightarrow> bool \<Rightarrow> RsnApAction ap_step" where
  "complete_message2_mic self ticket message2 valid =
     (case ap_check_completion self ticket ApVerifyingMessage2 of
        Err e \<Rightarrow> (Err e, self)
      | Ok _ \<Rightarrow>
          (case validate_retained_message2 self message2 of
             Err e \<Rightarrow> (Err e, self)
           | Ok _ \<Rightarrow>
               if \<not> valid
               then (Ok ApNone, self\<lparr>ap_snonce := replicate 32 0, ap_phase := ApAwaitingMessage2\<rparr>)
               else (let (ticket, self) = ap_issue_ticket (self\<lparr>ap_phase := ApPreparingMessage3\<rparr>)
                     in (Ok (ApPrepareMessage3 ticket), self))))"

definition complete_message3_preparation :: "RsnApState \<Rightarrow> RsnTicket \<Rightarrow> bool \<Rightarrow> RsnApAction ap_step" where
  "complete_message3_preparation self ticket prepared =
     (case ap_check_completion self ticket ApPreparingMessage3 of
        Err e \<Rightarrow> (Err e, self)
      | Ok _ \<Rightarrow>
          if \<not> prepared then (Ok ApDeauthenticatePeer, self\<lparr>ap_phase := ApFailed\<rparr>)
          else case checked_add (ap_message1_replay self) 1 of
              None \<Rightarrow> (Err ReplayCounterExhausted, self)
            | Some replay \<Rightarrow>
                (Ok (ApTransmit \<lparr>transmit_message = TxMessage3, transmit_replay = replay,
                       transmit_retransmission = False\<rparr>),
                 self\<lparr>ap_message3_replay := replay, ap_phase := ApAwaitingMessage4\<rparr>))"

definition complete_message4_mic :: "RsnApState \<Rightarrow> RsnTicket \<Rightarrow> OwnedEapolFrame \<Rightarrow> bool \<Rightarrow> RsnApAction ap_step" where
  "complete_message4_mic self ticket message4 valid =
     (case ap_check_completion self ticket ApVerifyingMessage4 of
        Err e \<Rightarrow> (Err e, self)
      | Ok _ \<Rightarrow>
          (case validate_retained_message4 self message4 of
             Err e \<Rightarrow> (Err e, self)
           | Ok _ \<Rightarrow>
               if \<not> valid then (Ok ApNone, self\<lparr>ap_phase := ApAwaitingMessage4\<rparr>)
               else (Ok ApAuthorizePeer, self\<lparr>ap_phase := ApAuthorized\<rparr>)))"

subsection \<open>The access point's peers\<close>

datatype RsnApPeerError = DuplicatePeer | PeersFull

text \<open>The table is an array of \<open>P\<close> optional peers.\<close>

definition RsnApPeers_new :: "nat \<Rightarrow> RsnApState option list" where
  "RsnApPeers_new P = replicate P None"

fun fill_first_vacant :: "'a \<Rightarrow> 'a option list \<Rightarrow> 'a option list option" where
  "fill_first_vacant a [] = None"
| "fill_first_vacant a (None # slots) = Some (Some a # slots)"
| "fill_first_vacant a (Some b # slots) = map_option ((#) (Some b)) (fill_first_vacant a slots)"

definition peers_insert ::
    "RsnApState option list \<Rightarrow> RsnApState \<Rightarrow> (unit, RsnApPeerError) result \<times> RsnApState option list" where
  "peers_insert peers peer =
     (if list_ex (\<lambda>existing. ap_supplicant existing = ap_supplicant peer) (flatten peers)
      then (Err DuplicatePeer, peers)
      else case fill_first_vacant peer peers of
          None \<Rightarrow> (Err PeersFull, peers)
        | Some peers' \<Rightarrow> (Ok (), peers'))"

definition peers_get :: "RsnApState option list \<Rightarrow> u8 list \<Rightarrow> RsnApState option" where
  "peers_get peers peer = find (\<lambda>state. ap_supplicant state = peer) (flatten peers)"

text \<open>\<open>get_mut\<close> with the caller's update written back.\<close>

definition peers_update ::
    "RsnApState option list \<Rightarrow> u8 list \<Rightarrow> (RsnApState \<Rightarrow> RsnApState) \<Rightarrow> RsnApState option list" where
  "peers_update peers peer f = update_first (\<lambda>state. ap_supplicant state = peer) f peers"

fun take_first :: "('a \<Rightarrow> bool) \<Rightarrow> 'a option list \<Rightarrow> 'a option \<times> 'a option list" where
  "take_first p [] = (None, [])"
| "take_first p (None # slots) = map_prod id ((#) None) (take_first p slots)"
| "take_first p (Some a # slots) =
     (if p a then (Some a, None # slots) else map_prod id ((#) (Some a)) (take_first p slots))"

definition peers_remove :: "RsnApState option list \<Rightarrow> u8 list \<Rightarrow> RsnApState option \<times> RsnApState option list" where
  "peers_remove peers peer = take_first (\<lambda>state. ap_supplicant state = peer) peers"

definition peers_len :: "RsnApState option list \<Rightarrow> nat" where
  "peers_len peers = length (flatten peers)"

end
