(* ===== verification/Rsn_Key_Data.thy ===== *)
theory Rsn_Key_Data
  imports Eapol_Key Ccmp
begin

text \<open>
  Key data of the handshakes (\<open>ieee80211/security/rsn/src/frames/key_data.rs\<close> and
  \<open>frames/security_ies.rs\<close>): the group keys, the key-data body an access point builds for Message 3,
  the parser of Message 3 and Group Message 1, and the association's owned security elements.
\<close>

definition RSN_ELEMENT_ID :: u8 where "RSN_ELEMENT_ID = 48"
definition RSN_OUI :: "u8 list" where "RSN_OUI = [0x00, 0x0f, 0xac]"
definition RSN_IE_CAPACITY :: nat where "RSN_IE_CAPACITY = 64"
definition RSN_ASSOC_SECURITY_IES_CAPACITY :: nat where "RSN_ASSOC_SECURITY_IES_CAPACITY = 128"
definition RSN_IPN_LEN :: nat where "RSN_IPN_LEN = 6"
definition RSN_PLAIN_KEY_DATA_CAPACITY :: nat where "RSN_PLAIN_KEY_DATA_CAPACITY = 128"
definition RSNXE_ELEMENT_ID :: u8 where "RSNXE_ELEMENT_ID = 0xf4"
definition VENDOR_ELEMENT_ID :: u8 where "VENDOR_ELEMENT_ID = 0xdd"
definition GTK_KDE_TYPE :: u8 where "GTK_KDE_TYPE = 1"
definition IGTK_KDE_TYPE :: u8 where "IGTK_KDE_TYPE = 9"
definition IGTK_KDE_LEN :: nat where "IGTK_KDE_LEN = 2 + 4 + 2 + RSN_IPN_LEN + 16"

subsection \<open>Security elements\<close>

record OwnedRsnIe =
  rsn_ie_len :: nat
  rsn_ie_bytes :: "u8 list"

definition OwnedRsnIe_try_copy :: "nat \<Rightarrow> u8 list \<Rightarrow> (OwnedRsnIe, RsnFrameError) result" where
  "OwnedRsnIe_try_copy N bytes =
     (if length bytes < 2 \<or> bytes ! 0 \<noteq> RSN_ELEMENT_ID \<or> unat (bytes ! 1) + 2 \<noteq> length bytes
      then Err InvalidRsnIe
      else if length bytes > N then Err FrameCapacityExceeded
      else Ok \<lparr>rsn_ie_len = length bytes, rsn_ie_bytes = write_at 0 bytes (replicate N 0)\<rparr>)"

definition rsn_ie_as_bytes :: "OwnedRsnIe \<Rightarrow> u8 list" where
  "rsn_ie_as_bytes self = take (rsn_ie_len self) (rsn_ie_bytes self)"

record OwnedAssociationSecurityIes =
  ies_len :: nat
  ies_bytes :: "u8 list"

definition Ies_try_copy :: "nat \<Rightarrow> OwnedRsnIe \<Rightarrow> u8 list \<Rightarrow> (OwnedAssociationSecurityIes, RsnFrameError) result" where
  "Ies_try_copy N rsn rsnxe =
     (if rsnxe \<noteq> [] \<and> (length rsnxe < 2 \<or> rsnxe ! 0 \<noteq> RSNXE_ELEMENT_ID \<or> unat (rsnxe ! 1) + 2 \<noteq> length rsnxe)
      then Err InvalidRsnxe
      else
        let len = length (rsn_ie_as_bytes rsn) + length rsnxe
        in if len > N then Err FrameCapacityExceeded
           else
             let bytes = replicate N 0;
                 rsn_len = length (rsn_ie_as_bytes rsn);
                 bytes = write_at 0 (rsn_ie_as_bytes rsn) bytes;
                 bytes = write_at rsn_len rsnxe bytes
             in Ok \<lparr>ies_len = len, ies_bytes = bytes\<rparr>)"

definition Ies_try_copy_bytes :: "nat \<Rightarrow> u8 list \<Rightarrow> (OwnedAssociationSecurityIes, RsnFrameError) result" where
  "Ies_try_copy_bytes N bytes =
     (if length bytes < 2 \<or> bytes ! 0 \<noteq> RSN_ELEMENT_ID then Err InvalidRsnIe
      else
        let rsn_len = unat (bytes ! 1) + 2
        in case get_slice bytes 0 rsn_len of
             None \<Rightarrow> Err InvalidRsnIe
           | Some rsn \<Rightarrow>
               (case OwnedRsnIe_try_copy RSN_IE_CAPACITY rsn of
                  Err e \<Rightarrow> Err e
                | Ok rsn \<Rightarrow> Ies_try_copy N rsn (drop rsn_len bytes)))"

definition ies_as_bytes :: "OwnedAssociationSecurityIes \<Rightarrow> u8 list" where
  "ies_as_bytes self = take (ies_len self) (ies_bytes self)"

definition ies_rsn_ie :: "OwnedAssociationSecurityIes \<Rightarrow> u8 list" where
  "ies_rsn_ie self = take (unat (ies_bytes self ! 1) + 2) (ies_bytes self)"

definition ies_rsnxe :: "OwnedAssociationSecurityIes \<Rightarrow> u8 list" where
  "ies_rsnxe self = drop (unat (ies_bytes self ! 1) + 2) (take (ies_len self) (ies_bytes self))"

subsection \<open>Group keys\<close>

record RsnGtk =
  gtk_key_id :: GroupKeyId
  gtk_transmit :: bool
  gtk_key :: "u8 list"

definition RsnGtk_new :: "GroupKeyId \<Rightarrow> bool \<Rightarrow> u8 list \<Rightarrow> RsnGtk" where
  "RsnGtk_new key_id transmit key = \<lparr>gtk_key_id = key_id, gtk_transmit = transmit, gtk_key = key\<rparr>"

record RsnIgtk =
  igtk_key_id :: u8
  igtk_packet_number :: "u8 list"
  igtk_key :: "u8 list"

definition RsnIgtk_new :: "u8 \<Rightarrow> u8 list \<Rightarrow> u8 list \<Rightarrow> (RsnIgtk, RsnFrameError) result" where
  "RsnIgtk_new key_id packet_number key =
     (if \<not> (4 \<le> key_id \<and> key_id \<le> 5) then Err InvalidKeyId
      else Ok \<lparr>igtk_key_id = key_id, igtk_packet_number = packet_number, igtk_key = key\<rparr>)"

record RsnGroupKeys =
  group_gtk :: RsnGtk
  group_igtk :: "RsnIgtk option"

record RsnPlainKeyData =
  plain_len :: nat
  plain_bytes :: "u8 list"

text \<open>The key data descriptors, written into the body at their offset.\<close>

definition gtk_kde :: "RsnGtk \<Rightarrow> u8 list" where
  "gtk_kde gtk =
     [VENDOR_ELEMENT_ID, 22] @ RSN_OUI @ [GTK_KDE_TYPE,
       GroupKeyId_get (gtk_key_id gtk) OR push_bit 2 (if gtk_transmit gtk then 1 else 0), 0] @ gtk_key gtk"

definition igtk_kde :: "RsnIgtk \<Rightarrow> u8 list" where
  "igtk_kde igtk =
     [VENDOR_ELEMENT_ID, word_of_nat (IGTK_KDE_LEN - 2)] @ RSN_OUI @ [IGTK_KDE_TYPE]
       @ u16_to_le_bytes (ucast (igtk_key_id igtk)) @ igtk_packet_number igtk @ igtk_key igtk"

definition RsnPlainKeyData_build ::
    "nat \<Rightarrow> u8 list \<Rightarrow> RsnGtk \<Rightarrow> RsnIgtk option \<Rightarrow> (RsnPlainKeyData, RsnFrameError) result" where
  "RsnPlainKeyData_build N authenticator_elements gtk igtk =
     (let igtk_len = (if igtk \<noteq> None then IGTK_KDE_LEN else 0);
          unpadded_len = length authenticator_elements + (24 + igtk_len);
          padding = (if unpadded_len < 16 then 16 - unpadded_len else (8 - unpadded_len mod 8) mod 8);
          len = unpadded_len + padding
      in if len > N then Err FrameCapacityExceeded
         else
           let bytes = replicate N 0;
               elements_end = length authenticator_elements;
               bytes = write_at 0 authenticator_elements bytes;
               bytes = write_at elements_end (gtk_kde gtk) bytes;
               bytes = (case igtk of None \<Rightarrow> bytes
                        | Some igtk \<Rightarrow> write_at (elements_end + 24) (igtk_kde igtk) bytes);
               bytes = (if padding \<noteq> 0 then bytes[unpadded_len := VENDOR_ELEMENT_ID] else bytes)
           in Ok \<lparr>plain_len = len, plain_bytes = bytes\<rparr>)"

definition plain_as_bytes :: "RsnPlainKeyData \<Rightarrow> u8 list" where
  "plain_as_bytes self = take (plain_len self) (plain_bytes self)"

subsection \<open>The parser\<close>

datatype KeyDataContext =
    Message3Context (expected_rsn_ie: "u8 list") (expected_rsnxe: "u8 list")
  | GroupMessage1Context

text \<open>The variables of the loop.\<close>

record KeyDataScan =
  saw_rsn :: bool
  saw_rsnxe :: bool
  scan_gtk :: "RsnGtk option"
  scan_igtk :: "RsnIgtk option"

text \<open>The two key descriptors of the IEEE 802.11 OUI.\<close>

definition scan_kde :: "bool \<Rightarrow> u8 list \<Rightarrow> KeyDataScan \<Rightarrow> (KeyDataScan, RsnFrameError) result" where
  "scan_kde management_protection element scan =
     (if element ! 5 = GTK_KDE_TYPE
      then if length element \<noteq> 24 \<or> element ! 7 \<noteq> 0 \<or> element ! 6 AND NOT 0x07 \<noteq> 0 then Err UnsupportedKeyData
        else if scan_gtk scan \<noteq> None then Err DuplicateGtk
        else case GroupKeyId_new (element ! 6 AND 0x03) of
            None \<Rightarrow> Err InvalidKeyId
          | Some key_id \<Rightarrow>
              Ok (scan\<lparr>scan_gtk := Some (RsnGtk_new key_id (element ! 6 AND 0x04 \<noteq> 0) (take 16 (drop 8 element)))\<rparr>)
      else if element ! 5 = IGTK_KDE_TYPE
      then if \<not> management_protection then Err UnexpectedIgtk
        else if length element \<noteq> IGTK_KDE_LEN then Err UnsupportedKeyData
        else if scan_igtk scan \<noteq> None then Err DuplicateIgtk
        else
          let key_id = u16_from_le_bytes (element ! 6) (element ! 7)
          in if unat key_id > 255 then Err InvalidKeyId
             else case RsnIgtk_new (ucast key_id) (take 6 (drop 8 element)) (take 16 (drop 14 element)) of
                 Err e \<Rightarrow> Err e
               | Ok igtk \<Rightarrow> Ok (scan\<lparr>scan_igtk := Some igtk\<rparr>)
      else Err UnsupportedKeyData)"

definition scan_vendor :: "bool \<Rightarrow> u8 list \<Rightarrow> KeyDataScan \<Rightarrow> (KeyDataScan, RsnFrameError) result" where
  "scan_vendor management_protection element scan =
     (if element ! 0 = VENDOR_ELEMENT_ID \<and> length element \<ge> 6 \<and> take 3 (drop 2 element) = RSN_OUI
      then scan_kde management_protection element scan
      else Err UnsupportedKeyData)"

definition scan_element ::
    "KeyDataContext \<Rightarrow> bool \<Rightarrow> u8 list \<Rightarrow> KeyDataScan \<Rightarrow> (KeyDataScan, RsnFrameError) result" where
  "scan_element context management_protection element scan =
     (case context of
        Message3Context rsn rsnxe \<Rightarrow>
          if element ! 0 = RSN_ELEMENT_ID
          then if saw_rsn scan then Err DuplicateRsnIe
               else if element \<noteq> rsn then Err RsnIeMismatch
               else Ok (scan\<lparr>saw_rsn := True\<rparr>)
          else if element ! 0 = RSNXE_ELEMENT_ID
          then if saw_rsnxe scan then Err DuplicateRsnxe
               else if rsnxe = [] then Err UnexpectedRsnxe
               else if element \<noteq> rsnxe then Err RsnxeMismatch
               else Ok (scan\<lparr>saw_rsnxe := True\<rparr>)
          else scan_vendor management_protection element scan
      | GroupMessage1Context \<Rightarrow> scan_vendor management_protection element scan)"

definition is_padding :: "u8 list \<Rightarrow> bool" where
  "is_padding remaining \<longleftrightarrow> list_all (\<lambda>byte. byte = 0) remaining
     \<or> remaining ! 0 = VENDOR_ELEMENT_ID \<and> list_all (\<lambda>byte. byte = 0) (drop 1 remaining)"

function scan_loop ::
    "KeyDataContext \<Rightarrow> bool \<Rightarrow> u8 list \<Rightarrow> KeyDataScan \<Rightarrow> (KeyDataScan, RsnFrameError) result" where
  "scan_loop context management_protection remaining scan =
     (if remaining = [] \<or> is_padding remaining then Ok scan
      else if length remaining < 2 then Err MalformedKeyData
      else
        let element_len = unat (remaining ! 1) + 2
        in if element_len > length remaining then Err MalformedKeyData
           else case scan_element context management_protection (take element_len remaining) scan of
               Err e \<Rightarrow> Err e
             | Ok scan \<Rightarrow> scan_loop context management_protection (drop element_len remaining) scan)"
  by pat_completeness auto
termination by (relation "measure (\<lambda>(context, mp, remaining, scan). length remaining)") auto

declare scan_loop.simps [simp del]

definition parse_key_data ::
    "u8 list \<Rightarrow> KeyDataContext \<Rightarrow> bool \<Rightarrow> (RsnGroupKeys, RsnFrameError) result" where
  "parse_key_data bytes context management_protection =
     (case scan_loop context management_protection bytes
             \<lparr>saw_rsn = False, saw_rsnxe = False, scan_gtk = None, scan_igtk = None\<rparr> of
        Err e \<Rightarrow> Err e
      | Ok scan \<Rightarrow>
          if context \<noteq> GroupMessage1Context \<and> \<not> saw_rsn scan then Err MissingRsnIe
          else if context \<noteq> GroupMessage1Context \<and> expected_rsnxe context \<noteq> [] \<and> \<not> saw_rsnxe scan
          then Err MissingRsnxe
          else case scan_gtk scan of
              None \<Rightarrow> Err MissingGtk
            | Some gtk \<Rightarrow>
                if management_protection \<and> scan_igtk scan = None then Err MissingIgtk
                else Ok \<lparr>group_gtk = gtk, group_igtk = scan_igtk scan\<rparr>)"

definition parse_gtk_key_data ::
    "u8 list \<Rightarrow> u8 list \<Rightarrow> u8 list \<Rightarrow> bool \<Rightarrow> (RsnGroupKeys, RsnFrameError) result" where
  "parse_gtk_key_data bytes rsn rsnxe management_protection =
     parse_key_data bytes (Message3Context rsn rsnxe) management_protection"

definition parse_group_gtk_key_data :: "u8 list \<Rightarrow> bool \<Rightarrow> (RsnGroupKeys, RsnFrameError) result" where
  "parse_group_gtk_key_data bytes management_protection =
     parse_key_data bytes GroupMessage1Context management_protection"

subsection \<open>What the builder writes is read back\<close>

definition element_ok :: "u8 list \<Rightarrow> bool" where
  "element_ok e \<longleftrightarrow> 2 \<le> length e \<and> unat (e ! 1) + 2 = length e"

lemma scan_loop_element:
  assumes "element_ok e" "\<not> is_padding (e @ rest)"
  shows "scan_loop context mp (e @ rest) scan =
    (case scan_element context mp e scan of Err err \<Rightarrow> Err err | Ok scan \<Rightarrow> scan_loop context mp rest scan)"
proof -
  have "e \<noteq> []" "\<not> length (e @ rest) < 2" "(e @ rest) ! 1 = e ! 1" "unat (e ! 1) + 2 = length e"
    using assms(1) by (auto simp: element_ok_def nth_append)
  then show ?thesis using assms(2) by (subst scan_loop.simps) (simp add: Let_def cong: result.case_cong)
qed

lemma scan_loop_padding: "remaining = [] \<or> is_padding remaining \<Longrightarrow> scan_loop context mp remaining scan = Ok scan"
  by (subst scan_loop.simps) simp

lemma not_padding: "e \<noteq> [] \<Longrightarrow> e ! 0 \<noteq> 0 \<Longrightarrow> e ! 0 \<noteq> VENDOR_ELEMENT_ID \<Longrightarrow> \<not> is_padding (e @ rest)"
  by (cases e) (simp_all add: is_padding_def)

lemma group_key_id_read:
  "GroupKeyId_new ((GroupKeyId_get g OR push_bit 2 (if t then 1 else 0)) AND 0x03) = Some g"
  "((GroupKeyId_get g OR push_bit 2 (if t then 1 else 0)) AND 0x04 \<noteq> 0) = t"
  "(GroupKeyId_get g OR push_bit 2 (if t then 1 else 0)) AND NOT 0x07 = 0"
  by (cases g rule: GroupKeyId_get.cases; cases t; simp add: GroupKeyId_new_def)+

lemma gtk_kde_scanned:
  assumes "length (gtk_key gtk) = 16" "scan_gtk scan = None"
  shows "element_ok (gtk_kde gtk)" "\<not> is_padding (gtk_kde gtk @ rest)"
    and "scan_element context mp (gtk_kde gtk) scan = Ok (scan\<lparr>scan_gtk := Some gtk\<rparr>)"
proof -
  show "element_ok (gtk_kde gtk)" using assms(1) by (simp add: element_ok_def gtk_kde_def RSN_OUI_def)
  show "\<not> is_padding (gtk_kde gtk @ rest)"
    by (simp add: is_padding_def gtk_kde_def VENDOR_ELEMENT_ID_def)
  have fields: "length (gtk_kde gtk) = 24" "gtk_kde gtk ! 0 = VENDOR_ELEMENT_ID" "take 3 (drop 2 (gtk_kde gtk)) = RSN_OUI"
    "gtk_kde gtk ! 5 = GTK_KDE_TYPE" "gtk_kde gtk ! 7 = 0" "take 16 (drop 8 (gtk_kde gtk)) = gtk_key gtk"
    "gtk_kde gtk ! 6 = GroupKeyId_get (gtk_key_id gtk) OR push_bit 2 (if gtk_transmit gtk then 1 else 0)"
    using assms(1) by (simp_all add: gtk_kde_def RSN_OUI_def)
  have "scan_kde mp (gtk_kde gtk) scan = Ok (scan\<lparr>scan_gtk := Some gtk\<rparr>)"
    by (simp only: scan_kde_def fields group_key_id_read assms(2) RsnGtk_new_def) (simp add: fields)
  then show "scan_element context mp (gtk_kde gtk) scan = Ok (scan\<lparr>scan_gtk := Some gtk\<rparr>)"
    by (simp add: scan_element_def scan_vendor_def fields VENDOR_ELEMENT_ID_def RSN_ELEMENT_ID_def
        RSNXE_ELEMENT_ID_def split: KeyDataContext.split)
qed

definition igtk_ok :: "RsnIgtk \<Rightarrow> bool" where
  "igtk_ok igtk \<longleftrightarrow> 4 \<le> igtk_key_id igtk \<and> igtk_key_id igtk \<le> 5
     \<and> length (igtk_packet_number igtk) = 6 \<and> length (igtk_key igtk) = 16"

lemma igtk_kde_scanned:
  assumes "igtk_ok igtk" "scan_igtk scan = None" "mp"
  shows "element_ok (igtk_kde igtk)" "\<not> is_padding (igtk_kde igtk @ rest)"
    and "scan_element context mp (igtk_kde igtk) scan = Ok (scan\<lparr>scan_igtk := Some igtk\<rparr>)"
proof -
  have sizes: "length (igtk_packet_number igtk) = 6" "length (igtk_key igtk) = 16"
    using assms(1) by (simp_all add: igtk_ok_def)
  show "element_ok (igtk_kde igtk)"
    using sizes by (simp add: element_ok_def igtk_kde_def RSN_OUI_def IGTK_KDE_LEN_def RSN_IPN_LEN_def)
  show "\<not> is_padding (igtk_kde igtk @ rest)"
    by (simp add: is_padding_def igtk_kde_def VENDOR_ELEMENT_ID_def IGTK_KDE_LEN_def RSN_IPN_LEN_def)
  have fields: "length (igtk_kde igtk) = IGTK_KDE_LEN" "igtk_kde igtk ! 0 = VENDOR_ELEMENT_ID"
    "take 3 (drop 2 (igtk_kde igtk)) = RSN_OUI" "igtk_kde igtk ! 5 = IGTK_KDE_TYPE"
    "igtk_kde igtk ! 6 = ucast (ucast (igtk_key_id igtk) :: u16)"
    "igtk_kde igtk ! 7 = ucast (drop_bit 8 (ucast (igtk_key_id igtk) :: u16))"
    "take 6 (drop 8 (igtk_kde igtk)) = igtk_packet_number igtk" "take 16 (drop 14 (igtk_kde igtk)) = igtk_key igtk"
    using sizes by (simp_all add: igtk_kde_def RSN_OUI_def IGTK_KDE_LEN_def RSN_IPN_LEN_def u16_to_le_bytes_def)
  have "unat (igtk_key_id igtk) < 2 ^ LENGTH(8)" by (rule unsigned_less)
  then have id: "unat (ucast (igtk_key_id igtk) :: u16) \<le> 255"
    by (simp add: unsigned_ucast_eq take_bit_eq_mod)
  have read: "u16_from_le_bytes (igtk_kde igtk ! 6) (igtk_kde igtk ! 7) = ucast (igtk_key_id igtk)"
    by (simp only: fields u16_le_roundtrip)
  have same: "(ucast (ucast (igtk_key_id igtk) :: u16) :: u8) = igtk_key_id igtk"
    by (rule bit_word_eqI) (auto simp: bit_ucast_iff)
  have "RsnIgtk_new (igtk_key_id igtk) (igtk_packet_number igtk) (igtk_key igtk) = Ok igtk"
    using assms(1) by (simp add: RsnIgtk_new_def igtk_ok_def)
  then have "scan_kde mp (igtk_kde igtk) scan = Ok (scan\<lparr>scan_igtk := Some igtk\<rparr>)"
    using assms(2,3) id
    by (simp add: scan_kde_def fields(1-4,7,8) read Let_def same GTK_KDE_TYPE_def IGTK_KDE_TYPE_def)
  then show "scan_element context mp (igtk_kde igtk) scan = Ok (scan\<lparr>scan_igtk := Some igtk\<rparr>)"
    by (simp add: scan_element_def scan_vendor_def fields VENDOR_ELEMENT_ID_def RSN_ELEMENT_ID_def
        RSNXE_ELEMENT_ID_def IGTK_KDE_LEN_def RSN_IPN_LEN_def split: KeyDataContext.split)
qed

text \<open>The octets of a built body.\<close>

lemma padded_to_8: "(n + (8 - n mod 8) mod 8) mod 8 = (0 :: nat)"
proof (cases "n mod 8 = 0")
  case False
  obtain q r where n: "n = 8 * q + r" "r < 8" using mult_div_mod_eq [of 8 n] by (metis mod_less_divisor zero_less_numeral)
  with False have "(8 - n mod 8) mod 8 = 8 - r" by simp
  then have "n + (8 - n mod 8) mod 8 = 8 * (q + 1)" using n by simp
  then show ?thesis by (simp only: mod_mult_self1_is_0)
qed simp

lemma build_plain_octets:
  assumes "RsnPlainKeyData_build N elements gtk igtk = Ok plain"
    and "length (gtk_key gtk) = 16" and "\<And>k. igtk = Some k \<Longrightarrow> igtk_ok k"
  obtains pad where "pad = [] \<or> is_padding pad"
    "plain_as_bytes plain = elements @ gtk_kde gtk @ (case igtk of None \<Rightarrow> [] | Some k \<Rightarrow> igtk_kde k) @ pad"
    "length (plain_as_bytes plain) mod 8 = 0" "24 \<le> length (plain_as_bytes plain)" "length (plain_as_bytes plain) \<le> N"
proof -
  define kdes where "kdes = gtk_kde gtk @ (case igtk of None \<Rightarrow> [] | Some k \<Rightarrow> igtk_kde k)"
  define n where "n = length elements + length kdes"
  define pad where "pad = (8 - n mod 8) mod 8"
  have gtk: "length (gtk_kde gtk) = 24" using assms(2) by (simp add: gtk_kde_def RSN_OUI_def)
  have igtk: "length (case igtk of None \<Rightarrow> [] | Some k \<Rightarrow> igtk_kde k) = (if igtk \<noteq> None then IGTK_KDE_LEN else 0)"
    using assms(3) by (auto simp: igtk_kde_def RSN_OUI_def IGTK_KDE_LEN_def RSN_IPN_LEN_def igtk_ok_def split: option.split)
  have len: "length elements + (24 + (if igtk \<noteq> None then IGTK_KDE_LEN else 0)) = n" "\<not> n < 16"
    using gtk igtk by (simp_all add: n_def kdes_def)
  have body: "(case igtk of None \<Rightarrow> b | Some k \<Rightarrow> write_at (length elements + 24) (igtk_kde k) b) = elements @ kdes @ replicate (N - n) 0"
    if "b = write_at (length elements) (gtk_kde gtk) (write_at 0 elements (replicate N 0))" for b
    using that gtk igtk by (cases igtk) (simp_all add: write_at_0 write_at_append kdes_def n_def add.assoc)
  have fits: "n + pad \<le> N" and plain: "plain = \<lparr>plain_len = n + pad, plain_bytes =
      (if pad \<noteq> 0 then (elements @ kdes @ replicate (N - n) 0)[n := VENDOR_ELEMENT_ID]
       else elements @ kdes @ replicate (N - n) 0)\<rparr>"
    using assms(1) unfolding RsnPlainKeyData_build_def Let_def len(1) body [OF refl] if_not_P [OF len(2)] pad_def [symmetric]
    by (simp_all split: if_splits)
  define tail where "tail = (if pad = 0 then [] else VENDOR_ELEMENT_ID # replicate (pad - 1) 0)"
  have bytes: "plain_as_bytes plain = elements @ kdes @ tail"
  proof (cases "pad = 0")
    case False
    have "(elements @ kdes @ replicate (N - n) 0)[n := VENDOR_ELEMENT_ID]
        = elements @ kdes @ VENDOR_ELEMENT_ID # replicate (N - n - 1) 0"
      using False fits by (simp add: update_append update_gap n_def)
    with False fits show ?thesis
      by (simp add: plain_as_bytes_def plain tail_def take_Cons' min_def n_def)
  qed (use fits in \<open>simp add: plain_as_bytes_def plain tail_def n_def\<close>)
  have "length (plain_as_bytes plain) = n + pad" using bytes by (simp add: n_def tail_def)
  moreover have "(n + pad) mod 8 = 0" unfolding pad_def by (rule padded_to_8)
  moreover have "tail = [] \<or> is_padding tail" by (simp add: tail_def is_padding_def list_all_iff)
  moreover have "24 \<le> n" using gtk by (simp add: n_def kdes_def)
  ultimately show thesis using that [of tail] bytes fits by (simp add: kdes_def)
qed

text \<open>The elements a station may expect.\<close>

definition rsn_element_ok :: "u8 list \<Rightarrow> bool" where
  "rsn_element_ok e \<longleftrightarrow> element_ok e \<and> e ! 0 = RSN_ELEMENT_ID"

definition rsnxe_ok :: "u8 list \<Rightarrow> bool" where
  "rsnxe_ok e \<longleftrightarrow> e = [] \<or> element_ok e \<and> e ! 0 = RSNXE_ELEMENT_ID"

lemma key_data_read_back:
  assumes "RsnPlainKeyData_build N (rsn @ rsnxe) gtk igtk = Ok plain"
    and "rsn_element_ok rsn" "rsnxe_ok rsnxe" "length (gtk_key gtk) = 16"
    and "\<And>k. igtk = Some k \<Longrightarrow> igtk_ok k"
  shows "parse_gtk_key_data (plain_as_bytes plain) rsn rsnxe (igtk \<noteq> None) = Ok \<lparr>group_gtk = gtk, group_igtk = igtk\<rparr>"
proof -
  obtain pad where pad: "pad = [] \<or> is_padding pad" and bytes:
    "plain_as_bytes plain = rsn @ rsnxe @ gtk_kde gtk @ (case igtk of None \<Rightarrow> [] | Some k \<Rightarrow> igtk_kde k) @ pad"
    using build_plain_octets [OF assms(1,4,5)] by (metis append.assoc)
  define mp where "mp = (igtk \<noteq> None)"
  let ?c = "Message3Context rsn rsnxe" and ?mp = mp
  let ?kdes = "gtk_kde gtk @ (case igtk of None \<Rightarrow> [] | Some k \<Rightarrow> igtk_kde k) @ pad"
  have rsn: "element_ok rsn" "rsn ! 0 = RSN_ELEMENT_ID" "rsn \<noteq> []"
    using assms(2) by (auto simp: rsn_element_ok_def element_ok_def)
  have first: "scan_loop ?c ?mp (rsn @ rest) scan = scan_loop ?c ?mp rest (scan\<lparr>saw_rsn := True\<rparr>)"
    if "\<not> saw_rsn scan" for rest scan
    using that rsn not_padding [of rsn rest]
    by (simp add: scan_loop_element scan_element_def RSN_ELEMENT_ID_def VENDOR_ELEMENT_ID_def)
  have second: "scan_loop ?c ?mp (rsnxe @ rest) scan
      = scan_loop ?c ?mp rest (scan\<lparr>saw_rsnxe := saw_rsnxe scan \<or> rsnxe \<noteq> []\<rparr>)"
    if "\<not> saw_rsnxe scan" for rest scan
  proof (cases "rsnxe = []")
    case False
    with assms(3) have "element_ok rsnxe" "rsnxe ! 0 = RSNXE_ELEMENT_ID" by (auto simp: rsnxe_ok_def)
    with that False not_padding [of rsnxe rest] show ?thesis
      by (simp add: scan_loop_element scan_element_def RSN_ELEMENT_ID_def RSNXE_ELEMENT_ID_def VENDOR_ELEMENT_ID_def)
  qed (use that in \<open>cases scan, simp\<close>)
  have third: "scan_loop ?c ?mp ?kdes scan = Ok (scan\<lparr>scan_gtk := Some gtk, scan_igtk := igtk\<rparr>)"
    if "scan_gtk scan = None" "scan_igtk scan = None" for scan
    using that pad assms(4,5) mp_def
    by (cases igtk) (simp_all add: scan_loop_element gtk_kde_scanned igtk_kde_scanned scan_loop_padding)
  have "parse_gtk_key_data (plain_as_bytes plain) rsn rsnxe mp = Ok \<lparr>group_gtk = gtk, group_igtk = igtk\<rparr>"
    by (simp add: parse_gtk_key_data_def parse_key_data_def bytes first second third) (simp add: mp_def)
  then show ?thesis by (simp only: mp_def)
qed

text \<open>
  An access point's Message 3 key data, built from the elements it advertises, its GTK and, when
  management frames are protected, its IGTK, is accepted by a station that expects those elements,
  and delivers exactly those keys.
\<close>

theorem key_data_roundtrip:
  assumes "RsnPlainKeyData_build N (rsn @ rsnxe) gtk igtk = Ok plain"
    and "rsn_element_ok rsn" "rsnxe_ok rsnxe" "length (gtk_key gtk) = 16"
    and "\<And>k. igtk = Some k \<Longrightarrow> igtk_ok k"
  shows "parse_gtk_key_data (plain_as_bytes plain) rsn rsnxe (igtk \<noteq> None) = Ok \<lparr>group_gtk = gtk, group_igtk = igtk\<rparr>"
  using assms by (rule key_data_read_back)

definition sample_gtk :: RsnGtk where
  "sample_gtk = RsnGtk_new (GroupKeyId One) True (replicate 16 3)"

definition sample_igtk :: RsnIgtk where
  "sample_igtk = \<lparr>igtk_key_id = 4, igtk_packet_number = replicate 6 1, igtk_key = replicate 16 5\<rparr>"

lemma sample_plain_built: "\<exists>plain. RsnPlainKeyData_build 128 ([48, 2, 1, 0] @ [0xf4, 1, 32]) sample_gtk (Some sample_igtk) = Ok plain"
  by (simp add: RsnPlainKeyData_build_def Let_def IGTK_KDE_LEN_def RSN_IPN_LEN_def)

theorem key_data_roundtrip_witness:
  "\<exists>plain. RsnPlainKeyData_build 128 ([48, 2, 1, 0] @ [0xf4, 1, 32]) sample_gtk (Some sample_igtk) = Ok plain
     \<and> parse_gtk_key_data (plain_as_bytes plain) [48, 2, 1, 0] [0xf4, 1, 32] True
         = Ok \<lparr>group_gtk = sample_gtk, group_igtk = Some sample_igtk\<rparr>"
proof -
  obtain plain where built: "RsnPlainKeyData_build 128 ([48, 2, 1, 0] @ [0xf4, 1, 32]) sample_gtk (Some sample_igtk) = Ok plain"
    using sample_plain_built by blast
  have "rsn_element_ok [48, 2, 1, 0]" "rsnxe_ok [0xf4, 1, 32]" "length (gtk_key sample_gtk) = 16" "igtk_ok sample_igtk"
    by (simp_all add: rsn_element_ok_def rsnxe_ok_def element_ok_def RSN_ELEMENT_ID_def RSNXE_ELEMENT_ID_def
        sample_gtk_def RsnGtk_new_def igtk_ok_def sample_igtk_def)
  with key_data_roundtrip [OF built] built show ?thesis by auto
qed

subsection \<open>What the parser accepts\<close>

fun scan_all :: "KeyDataContext \<Rightarrow> bool \<Rightarrow> u8 list list \<Rightarrow> KeyDataScan \<Rightarrow> (KeyDataScan, RsnFrameError) result" where
  "scan_all context mp [] scan = Ok scan"
| "scan_all context mp (e # es) scan =
     (case scan_element context mp e scan of Err err \<Rightarrow> Err err | Ok scan \<Rightarrow> scan_all context mp es scan)"

lemma scan_loop_elements:
  "scan_loop ctx mp remaining scan = Ok scan' \<Longrightarrow>
   \<exists>es pad. remaining = concat es @ pad \<and> (pad = [] \<or> is_padding pad) \<and> scan_all ctx mp es scan = Ok scan'"
proof (induction ctx mp remaining scan rule: scan_loop.induct)
  case (1 ctx mp remaining scan)
  let ?n = "unat (remaining ! 1) + 2"
  show ?case
  proof (cases "remaining = [] \<or> is_padding remaining")
    case True
    then have "remaining = concat [] @ remaining" "scan_all ctx mp [] scan = Ok scan'"
      using "1.prems" by (simp_all add: scan_loop_padding)
    with True show ?thesis by blast
  next
    case False
    with "1.prems" obtain scan1 where long: "\<not> length remaining < 2" "\<not> ?n > length remaining"
      and step: "scan_element ctx mp (take ?n remaining) scan = Ok scan1"
      and rest: "scan_loop ctx mp (drop ?n remaining) scan1 = Ok scan'"
      by (subst (asm) scan_loop.simps) (auto simp: Let_def split: if_splits result.splits)
    obtain es pad where "drop ?n remaining = concat es @ pad" "pad = [] \<or> is_padding pad"
      "scan_all ctx mp es scan1 = Ok scan'"
      using "1.IH" [OF False long(1) refl long(2) step rest] by blast
    then have "remaining = concat (take ?n remaining # es) @ pad" "scan_all ctx mp (take ?n remaining # es) scan = Ok scan'"
      using step append_take_drop_id [of ?n remaining] by (simp_all del: append_take_drop_id)
    with \<open>pad = [] \<or> is_padding pad\<close> show ?thesis by blast
  qed
qed

datatype element_kind = RsnKind | RsnxeKind | GtkKind | IgtkKind | OtherKind

definition kind_of :: "u8 list \<Rightarrow> element_kind" where
  "kind_of e =
     (if e ! 0 = RSN_ELEMENT_ID then RsnKind
      else if e ! 0 = RSNXE_ELEMENT_ID then RsnxeKind
      else if e ! 0 = VENDOR_ELEMENT_ID \<and> take 3 (drop 2 e) = RSN_OUI \<and> e ! 5 = GTK_KDE_TYPE then GtkKind
      else if e ! 0 = VENDOR_ELEMENT_ID \<and> take 3 (drop 2 e) = RSN_OUI \<and> e ! 5 = IGTK_KDE_TYPE then IgtkKind
      else OtherKind)"

text \<open>An accepted element is one of four, each of them at most once.\<close>

lemma scan_element_cases:
  assumes "scan_element (Message3Context rsn rsnxe) mp e scan = Ok scan'"
  obtains (rsn) "kind_of e = RsnKind" "e = rsn" "\<not> saw_rsn scan" "scan' = scan\<lparr>saw_rsn := True\<rparr>"
    | (rsnxe) "kind_of e = RsnxeKind" "e = rsnxe" "rsnxe \<noteq> []" "\<not> saw_rsnxe scan" "scan' = scan\<lparr>saw_rsnxe := True\<rparr>"
    | (gtk) g where "kind_of e = GtkKind" "scan_gtk scan = None" "scan' = scan\<lparr>scan_gtk := Some g\<rparr>"
        "gtk_key g = take 16 (drop 8 e)"
    | (igtk) k where "kind_of e = IgtkKind" "mp" "scan_igtk scan = None" "scan' = scan\<lparr>scan_igtk := Some k\<rparr>"
        "igtk_key k = take 16 (drop 14 e)"
  using assms
  by (auto simp: scan_element_def scan_vendor_def scan_kde_def kind_of_def RsnGtk_new_def
      RsnIgtk_new_def Let_def split: if_splits option.splits result.splits)

text \<open>The accepted sequences of elements, from the variables of the loop to their final values.\<close>

inductive scanned :: "u8 list \<Rightarrow> u8 list \<Rightarrow> bool \<Rightarrow> KeyDataScan \<Rightarrow> u8 list list \<Rightarrow> KeyDataScan \<Rightarrow> bool"
  for rsn rsnxe mp scan' where
  Nil: "scanned rsn rsnxe mp scan' [] scan'"
| Rsn: "scanned rsn rsnxe mp scan' es (scan\<lparr>saw_rsn := True\<rparr>) \<Longrightarrow> \<not> saw_rsn scan \<Longrightarrow>
    kind_of rsn = RsnKind \<Longrightarrow> scanned rsn rsnxe mp scan' (rsn # es) scan"
| Rsnxe: "scanned rsn rsnxe mp scan' es (scan\<lparr>saw_rsnxe := True\<rparr>) \<Longrightarrow> \<not> saw_rsnxe scan \<Longrightarrow>
    kind_of rsnxe = RsnxeKind \<Longrightarrow> rsnxe \<noteq> [] \<Longrightarrow> scanned rsn rsnxe mp scan' (rsnxe # es) scan"
| Gtk: "scanned rsn rsnxe mp scan' es (scan\<lparr>scan_gtk := Some g\<rparr>) \<Longrightarrow> scan_gtk scan = None \<Longrightarrow>
    kind_of e = GtkKind \<Longrightarrow> gtk_key g = take 16 (drop 8 e) \<Longrightarrow> scanned rsn rsnxe mp scan' (e # es) scan"
| Igtk: "scanned rsn rsnxe mp scan' es (scan\<lparr>scan_igtk := Some k\<rparr>) \<Longrightarrow> scan_igtk scan = None \<Longrightarrow>
    kind_of e = IgtkKind \<Longrightarrow> mp \<Longrightarrow> igtk_key k = take 16 (drop 14 e) \<Longrightarrow> scanned rsn rsnxe mp scan' (e # es) scan"

lemma scan_all_scanned:
  "scan_all (Message3Context rsn rsnxe) mp es scan = Ok scan' \<Longrightarrow> scanned rsn rsnxe mp scan' es scan"
proof (induction es arbitrary: scan)
  case (Cons e es)
  then obtain scan1 where step: "scan_element (Message3Context rsn rsnxe) mp e scan = Ok scan1"
    and rest: "scanned rsn rsnxe mp scan' es scan1" by (auto split: result.splits)
  from step show ?case
    by (cases rule: scan_element_cases) (use rest in \<open>auto intro: scanned.intros\<close>)
qed (auto intro: scanned.Nil)

lemma scanned_rsn:
  "scanned rsn rsnxe mp scan' es scan \<Longrightarrow>
   filter (\<lambda>e. kind_of e = RsnKind) es = (if saw_rsn scan' \<and> \<not> saw_rsn scan then [rsn] else [])
   \<and> (saw_rsn scan \<longrightarrow> saw_rsn scan')"
  by (induction rule: scanned.induct) simp_all

lemma scanned_rsnxe:
  "scanned rsn rsnxe mp scan' es scan \<Longrightarrow>
   filter (\<lambda>e. kind_of e = RsnxeKind) es = (if saw_rsnxe scan' \<and> \<not> saw_rsnxe scan then [rsnxe] else [])
   \<and> (saw_rsnxe scan \<longrightarrow> saw_rsnxe scan') \<and> (saw_rsnxe scan' \<longrightarrow> saw_rsnxe scan \<or> rsnxe \<noteq> [])"
  by (induction rule: scanned.induct) simp_all

lemma scanned_gtk:
  "scanned rsn rsnxe mp scan' es scan \<Longrightarrow>
   (scan_gtk scan \<noteq> None \<longrightarrow> scan_gtk scan' = scan_gtk scan \<and> filter (\<lambda>e. kind_of e = GtkKind) es = [])
   \<and> (scan_gtk scan = None \<longrightarrow> map (\<lambda>e. take 16 (drop 8 e)) (filter (\<lambda>e. kind_of e = GtkKind) es)
        = (case scan_gtk scan' of None \<Rightarrow> [] | Some g \<Rightarrow> [gtk_key g]))"
  by (induction rule: scanned.induct) (auto split: option.split)

lemma scanned_igtk:
  "scanned rsn rsnxe mp scan' es scan \<Longrightarrow>
   (scan_igtk scan \<noteq> None \<longrightarrow> scan_igtk scan' = scan_igtk scan \<and> filter (\<lambda>e. kind_of e = IgtkKind) es = [])
   \<and> (scan_igtk scan = None \<longrightarrow> map (\<lambda>e. take 16 (drop 14 e)) (filter (\<lambda>e. kind_of e = IgtkKind) es)
        = (case scan_igtk scan' of None \<Rightarrow> [] | Some k \<Rightarrow> [igtk_key k]))
   \<and> (scan_igtk scan' \<noteq> None \<longrightarrow> scan_igtk scan \<noteq> None \<or> mp)"
  by (induction rule: scanned.induct) (auto split: option.split)

lemma scanned_kinds:
  "scanned rsn rsnxe mp scan' es scan \<Longrightarrow>
   \<forall>e \<in> set es. kind_of e \<noteq> OtherKind"
  by (induction rule: scanned.induct) simp_all

definition scan_start :: KeyDataScan where
  "scan_start = \<lparr>saw_rsn = False, saw_rsnxe = False, scan_gtk = None, scan_igtk = None\<rparr>"

lemma parse_gtk_accepts:
  assumes "parse_gtk_key_data bytes rsn rsnxe mp = Ok keys"
  shows "\<exists>scan. scan_loop (Message3Context rsn rsnxe) mp bytes scan_start = Ok scan
    \<and> saw_rsn scan \<and> (rsnxe \<noteq> [] \<longrightarrow> saw_rsnxe scan) \<and> scan_gtk scan = Some (group_gtk keys)
    \<and> (mp \<longrightarrow> scan_igtk scan \<noteq> None) \<and> scan_igtk scan = group_igtk keys"
proof (cases "scan_loop (Message3Context rsn rsnxe) mp bytes scan_start")
  case (Ok scan)
  with assms show ?thesis
    by (simp add: parse_gtk_key_data_def parse_key_data_def flip: scan_start_def split: if_splits option.splits)
      force+
next
  case (Err e)
  with assms show ?thesis by (simp add: parse_gtk_key_data_def parse_key_data_def flip: scan_start_def)
qed


definition sample_key_data :: "u8 list" where
  "sample_key_data = [48, 2, 1, 0] @ gtk_kde sample_gtk @ [0xdd, 0, 0, 0]"

lemma sample_key_data_parsed:
  "parse_gtk_key_data sample_key_data [48, 2, 1, 0] [] False = Ok \<lparr>group_gtk = sample_gtk, group_igtk = None\<rparr>"
proof -
  have "RsnPlainKeyData_build 32 ([48, 2, 1, 0] @ []) sample_gtk None
      = Ok \<lparr>plain_len = 32, plain_bytes = sample_key_data\<rparr>" by code_simp
  from key_data_read_back [OF this] show ?thesis
    by (simp add: rsn_element_ok_def rsnxe_ok_def element_ok_def RSN_ELEMENT_ID_def sample_gtk_def
        RsnGtk_new_def plain_as_bytes_def sample_key_data_def gtk_kde_def RSN_OUI_def)
qed


end
