(* ===== verification/Rsn_Element.thy ===== *)
theory Rsn_Element
  imports Rsn_Key_Data
begin

text \<open>
  The RSN element (\<open>ieee80211/mac/src/security/rsn.rs\<close>): its syntax, read by a cursor over the body,
  and the policy of \<open>ieee80211/security/rsn/src/element.rs\<close>, which selects the suite of an
  association and reads the management frame protection.  The parser accepts exactly the octets of
  the format.
\<close>

definition RSN_VERSION :: u16 where "RSN_VERSION = 1"
definition RSN_CIPHER_CCMP :: u8 where "RSN_CIPHER_CCMP = 4"
definition RSN_AKM_PSK :: u8 where "RSN_AKM_PSK = 2"
definition RSN_AKM_PSK_SHA256 :: u8 where "RSN_AKM_PSK_SHA256 = 6"
definition RSN_AKM_SAE :: u8 where "RSN_AKM_SAE = 8"
definition RSN_CIPHER_BIP_CMAC_128 :: u8 where "RSN_CIPHER_BIP_CMAC_128 = 6"
definition RSN_CAPABILITY_MFPR :: u16 where "RSN_CAPABILITY_MFPR = push_bit 6 1"
definition RSN_CAPABILITY_MFPC :: u16 where "RSN_CAPABILITY_MFPC = push_bit 7 1"
definition RSN_PMKID_LEN :: nat where "RSN_PMKID_LEN = 16"
definition SUITE_LEN :: nat where "SUITE_LEN = 4"

definition ieee_suite :: "u8 \<Rightarrow> u8 list" where
  "ieee_suite suite_type = [RSN_OUI ! 0, RSN_OUI ! 1, RSN_OUI ! 2, suite_type]"

definition from_suite_selector :: "u8 list \<Rightarrow> Akm option" where
  "from_suite_selector selector =
     (if selector = [0x00, 0x0f, 0xac, RSN_AKM_PSK] then Some Psk
      else if selector = [0x00, 0x0f, 0xac, RSN_AKM_PSK_SHA256] then Some PskSha256
      else if selector = [0x00, 0x0f, 0xac, RSN_AKM_SAE] then Some Sae
      else None)"

definition suite_selector :: "Akm \<Rightarrow> u8 list" where
  "suite_selector self =
     ieee_suite (case self of Psk \<Rightarrow> RSN_AKM_PSK | PskSha256 \<Rightarrow> RSN_AKM_PSK_SHA256 | Sae \<Rightarrow> RSN_AKM_SAE)"

datatype RsnSyntaxError = SyntaxMalformed | SyntaxUnsupportedVersion

subsection \<open>The cursor\<close>

text \<open>Each read returns its value and the octets behind it; the cursor of a failed read is dropped.\<close>

type_synonym 'a read = "('a \<times> u8 list, RsnSyntaxError) result"

definition reader_take :: "nat \<Rightarrow> u8 list \<Rightarrow> u8 list read" where
  "reader_take len bytes =
     (if len \<le> length bytes then Ok (take len bytes, drop len bytes) else Err SyntaxMalformed)"

definition reader_array :: "nat \<Rightarrow> u8 list \<Rightarrow> u8 list read" where
  "reader_array N bytes =
     (case split_first_chunk N bytes of
        None \<Rightarrow> Err SyntaxMalformed
      | Some (taken, rest) \<Rightarrow> Ok (taken, rest))"

definition reader_u16 :: "u8 list \<Rightarrow> u16 read" where
  "reader_u16 bytes =
     (case reader_array 2 bytes of
        Err e \<Rightarrow> Err e
      | Ok (taken, rest) \<Rightarrow> Ok (u16_from_le_bytes (taken ! 0) (taken ! 1), rest))"

definition reader_suite :: "u8 list \<Rightarrow> u8 list read" where
  "reader_suite bytes = reader_array SUITE_LEN bytes"

function as_chunks :: "nat \<Rightarrow> 'a list \<Rightarrow> 'a list list" where
  "as_chunks n xs = (if n = 0 \<or> length xs < n then [] else take n xs # as_chunks n (drop n xs))"
  by pat_completeness auto
termination by (relation "measure (\<lambda>(n, xs). length xs)") auto

declare as_chunks.simps [simp del]

definition suite_list :: "u8 list \<Rightarrow> u8 list list read" where
  "suite_list bytes =
     (case reader_u16 bytes of
        Err e \<Rightarrow> Err e
      | Ok (n, bytes) \<Rightarrow>
          (case reader_take (unat n * SUITE_LEN) bytes of
             Err e \<Rightarrow> Err e
           | Ok (taken, bytes) \<Rightarrow> Ok (as_chunks SUITE_LEN taken, bytes)))"

definition reader_pmkids :: "u8 list \<Rightarrow> u8 list list read" where
  "reader_pmkids bytes =
     (case reader_u16 bytes of
        Err e \<Rightarrow> Err e
      | Ok (n, bytes) \<Rightarrow>
          (case reader_take (unat n * RSN_PMKID_LEN) bytes of
             Err e \<Rightarrow> Err e
           | Ok (taken, bytes) \<Rightarrow> Ok (as_chunks RSN_PMKID_LEN taken, bytes)))"

definition reader_optional :: "(u8 list \<Rightarrow> 'a read) \<Rightarrow> u8 list \<Rightarrow> 'a option read" where
  "reader_optional read bytes =
     (if bytes = [] then Ok (None, bytes)
      else case read bytes of Err e \<Rightarrow> Err e | Ok (value, rest) \<Rightarrow> Ok (Some value, rest))"

subsection \<open>The element\<close>

record RsnElement =
  group_data_cipher :: "u8 list"
  pairwise_ciphers :: "u8 list list"
  akm_suites :: "u8 list list"
  element_capabilities :: "u16 option"
  element_pmkids :: "u8 list list option"
  group_management_cipher :: "u8 list option"

definition RsnElement_parse_body :: "u8 list \<Rightarrow> (RsnElement, RsnSyntaxError) result" where
  "RsnElement_parse_body body =
     (case reader_u16 body of Err e \<Rightarrow> Err e | Ok (version, bytes) \<Rightarrow>
      if version \<noteq> RSN_VERSION then Err SyntaxUnsupportedVersion else
      (case reader_suite bytes of Err e \<Rightarrow> Err e | Ok (group_cipher, bytes) \<Rightarrow>
      (case suite_list bytes of Err e \<Rightarrow> Err e | Ok (ciphers, bytes) \<Rightarrow>
      (case suite_list bytes of Err e \<Rightarrow> Err e | Ok (akms, bytes) \<Rightarrow>
      (case reader_optional reader_u16 bytes of Err e \<Rightarrow> Err e | Ok (capabilities, bytes) \<Rightarrow>
      (case reader_optional reader_pmkids bytes of Err e \<Rightarrow> Err e | Ok (pmkids, bytes) \<Rightarrow>
      (case reader_optional reader_suite bytes of Err e \<Rightarrow> Err e | Ok (group_management, bytes) \<Rightarrow>
      if bytes \<noteq> [] then Err SyntaxMalformed
      else Ok \<lparr>group_data_cipher = group_cipher, pairwise_ciphers = ciphers, akm_suites = akms,
               element_capabilities = capabilities, element_pmkids = pmkids,
               group_management_cipher = group_management\<rparr>)))))))"

definition RsnElement_parse :: "u8 list \<Rightarrow> (RsnElement, RsnSyntaxError) result" where
  "RsnElement_parse element =
     (case element of
        element_id # len # body \<Rightarrow>
          if element_id \<noteq> RSN_ELEMENT_ID then Err SyntaxMalformed
          else if unat len \<noteq> length body then Err SyntaxMalformed
          else RsnElement_parse_body body
      | _ \<Rightarrow> Err SyntaxMalformed)"

definition pmkid_count :: "RsnElement \<Rightarrow> u16 option" where
  "pmkid_count self = map_option (\<lambda>pmkids. word_of_nat (length pmkids)) (element_pmkids self)"

definition pmkids :: "RsnElement \<Rightarrow> u8 list list" where
  "pmkids self = (case element_pmkids self of None \<Rightarrow> [] | Some pmkids \<Rightarrow> pmkids)"

subsection \<open>Policy\<close>

datatype RsnElementError =
    ElementMalformed | ElementCapacityExceeded | UnsupportedVersion | UnsupportedGroupCipher
  | UnsupportedPairwiseCipher | UnsupportedAkm | UnsupportedGroupManagementCipher

record ManagementFrameProtection =
  mfp_capable :: bool
  mfp_required :: bool

definition negotiated :: "ManagementFrameProtection \<Rightarrow> ManagementFrameProtection \<Rightarrow> bool" where
  "negotiated self peer \<longleftrightarrow> mfp_capable self \<and> mfp_capable peer"

record ValidatedRsnElement =
  validated_owned :: OwnedRsnIe
  validated_akm :: Akm
  validated_capabilities :: u16
  validated_pmkid_count :: u16

definition lists_akm :: "ValidatedRsnElement \<Rightarrow> Akm \<Rightarrow> bool" where
  "lists_akm self akm \<longleftrightarrow>
     list_ex (\<lambda>selector. from_suite_selector selector = Some akm)
       (akm_suites (expect_ok (RsnElement_parse (rsn_ie_as_bytes (validated_owned self)))))"

definition management_frame_protection :: "ValidatedRsnElement \<Rightarrow> ManagementFrameProtection" where
  "management_frame_protection self =
     \<lparr>mfp_capable = validated_capabilities self AND RSN_CAPABILITY_MFPC \<noteq> 0,
      mfp_required = validated_capabilities self AND RSN_CAPABILITY_MFPR \<noteq> 0\<rparr>"

definition validate_rsn_element :: "u8 list \<Rightarrow> (ValidatedRsnElement, RsnElementError) result" where
  "validate_rsn_element bytes =
     (case OwnedRsnIe_try_copy RSN_IE_CAPACITY bytes of
        Err FrameCapacityExceeded \<Rightarrow> Err ElementCapacityExceeded
      | Err _ \<Rightarrow> Err ElementMalformed
      | Ok owned \<Rightarrow>
          (case RsnElement_parse bytes of
             Err SyntaxMalformed \<Rightarrow> Err ElementMalformed
           | Err SyntaxUnsupportedVersion \<Rightarrow> Err UnsupportedVersion
           | Ok rsn \<Rightarrow>
               if group_data_cipher rsn \<noteq> ieee_suite RSN_CIPHER_CCMP then Err UnsupportedGroupCipher
               else if \<not> list_ex (\<lambda>candidate. candidate = ieee_suite RSN_CIPHER_CCMP) (pairwise_ciphers rsn)
               then Err UnsupportedPairwiseCipher
               else
                 let capabilities = (case element_capabilities rsn of None \<Rightarrow> 0 | Some c \<Rightarrow> c);
                     capable = (capabilities AND RSN_CAPABILITY_MFPC \<noteq> 0)
                 in case find (\<lambda>akm. capable \<or> akm \<noteq> Sae) (List.map_filter from_suite_selector (akm_suites rsn)) of
                      None \<Rightarrow> Err UnsupportedAkm
                    | Some akm \<Rightarrow>
                        if capabilities AND RSN_CAPABILITY_MFPR \<noteq> 0 \<and> \<not> capable then Err ElementMalformed
                        else if group_management_cipher rsn \<noteq> None \<and> \<not> capable then Err ElementMalformed
                        else if group_management_cipher rsn \<noteq> None
                             \<and> group_management_cipher rsn \<noteq> Some (ieee_suite RSN_CIPHER_BIP_CMAC_128)
                        then Err UnsupportedGroupManagementCipher
                        else Ok \<lparr>validated_owned = owned, validated_akm = akm,
                                 validated_capabilities = capabilities,
                                 validated_pmkid_count = (case pmkid_count rsn of None \<Rightarrow> 0 | Some n \<Rightarrow> n)\<rparr>))"

subsection \<open>The format\<close>

lemma as_chunks_end: "length xs < n \<Longrightarrow> as_chunks n xs = []"
  by (subst as_chunks.simps) (simp only: simp_thms if_True)

lemma as_chunks_step: "0 < n \<Longrightarrow> n \<le> length xs \<Longrightarrow> as_chunks n xs = take n xs # as_chunks n (drop n xs)"
  by (subst as_chunks.simps) (simp only: simp_thms if_False not_less not_gr_zero split: if_split, simp)

lemma as_chunks_concat:
  assumes "0 < n"
  shows "\<forall>x \<in> set xs. length x = n \<Longrightarrow> as_chunks n (concat xs) = xs"
proof (induction xs)
  case (Cons x xs)
  then have "as_chunks n (concat (x # xs)) = take n (x @ concat xs) # as_chunks n (drop n (x @ concat xs))"
    using as_chunks_step [OF assms, of "x @ concat xs"] by simp
  with Cons show ?case by simp
qed (simp add: as_chunks_end assms)

lemma concat_as_chunks:
  assumes "0 < n" "length xs = k * n"
  shows "concat (as_chunks n xs) = xs \<and> length (as_chunks n xs) = k \<and> (\<forall>x \<in> set (as_chunks n xs). length x = n)"
  using assms(2)
proof (induction k arbitrary: xs)
  case 0
  then show ?case using assms(1) by (simp add: as_chunks_end)
next
  case (Suc k)
  obtain a b where xs: "xs = a @ b" "length a = n" "length b = k * n"
  proof
    show "xs = take n xs @ drop n xs" by simp
    show "length (take n xs) = n" "length (drop n xs) = k * n" using Suc.prems by simp_all
  qed
  have "as_chunks n xs = a # as_chunks n b" using as_chunks_step [OF assms(1), of xs] by (simp add: xs)
  then show ?case using Suc.IH [OF xs(3)] xs(1,2) by simp
qed

lemma reader_take_iff: "reader_take n bytes = Ok (x, rest) \<longleftrightarrow> bytes = x @ rest \<and> length x = n"
  by (auto simp: reader_take_def)

lemma reader_array_iff: "reader_array n bytes = Ok (x, rest) \<longleftrightarrow> bytes = x @ rest \<and> length x = n"
  by (auto simp: reader_array_def split_first_chunk_def split: option.splits if_splits)

lemma reader_u16_iff: "reader_u16 bytes = Ok (w, rest) \<longleftrightarrow> bytes = u16_to_le_bytes w @ rest"
proof
  assume "reader_u16 bytes = Ok (w, rest)"
  then obtain x where x: "reader_array 2 bytes = Ok (x, rest)" "w = u16_from_le_bytes (x ! 0) (x ! 1)"
    by (auto simp: reader_u16_def split: result.splits)
  then obtain a b where "x = [a, b]" by (auto simp: reader_array_iff eval_nat_numeral length_Suc_conv)
  with x show "bytes = u16_to_le_bytes w @ rest"
    by (simp add: reader_array_iff u16_to_le_bytes_def u16_from_le_bytes_parts)
next
  assume "bytes = u16_to_le_bytes w @ rest"
  then have "reader_array 2 bytes = Ok (u16_to_le_bytes w, rest)" by (simp add: reader_array_iff)
  then show "reader_u16 bytes = Ok (w, rest)" by (simp add: reader_u16_def)
qed

lemma reader_suite_iff: "reader_suite bytes = Ok (x, rest) \<longleftrightarrow> bytes = x @ rest \<and> length x = 4"
  by (simp add: reader_suite_def reader_array_iff SUITE_LEN_def)

text \<open>A counted list of entries of one width.\<close>

definition counted :: "u8 list list \<Rightarrow> u8 list" where
  "counted xs = u16_to_le_bytes (word_of_nat (length xs)) @ concat xs"

definition counted_ok :: "nat \<Rightarrow> u8 list list \<Rightarrow> bool" where
  "counted_ok n xs \<longleftrightarrow> length xs < 65536 \<and> list_all (\<lambda>x. length x = n) xs"

lemma counted_read:
  assumes "0 < n" and read: "\<And>bytes. read bytes = (case reader_u16 bytes of
        Err e \<Rightarrow> Err e
      | Ok (k, bytes) \<Rightarrow>
          (case reader_take (unat k * n) bytes of
             Err e \<Rightarrow> Err e
           | Ok (taken, bytes) \<Rightarrow> Ok (as_chunks n taken, bytes)))"
  shows "read bytes = Ok (xs, rest) \<longleftrightarrow> bytes = counted xs @ rest \<and> counted_ok n xs"
proof
  assume "read bytes = Ok (xs, rest)"
  then obtain k mid taken where "reader_u16 bytes = Ok (k, mid)" "reader_take (unat k * n) mid = Ok (taken, rest)"
    "xs = as_chunks n taken"
    by (auto simp: read split: result.splits)
  then have "bytes = u16_to_le_bytes k @ taken @ rest" "concat xs = taken" "length xs = unat k"
    "\<forall>x \<in> set xs. length x = n"
    using concat_as_chunks [OF assms(1), of taken "unat k"] by (simp_all add: reader_u16_iff reader_take_iff)
  moreover have "unat k < 65536" using unsigned_less [of k] by simp
  ultimately show "bytes = counted xs @ rest \<and> counted_ok n xs"
    by (auto simp: counted_def counted_ok_def list_all_iff)
next
  assume r: "bytes = counted xs @ rest \<and> counted_ok n xs"
  then have "unat (word_of_nat (length xs) :: u16) = length xs"
    by (simp add: counted_ok_def unat_of_nat take_bit_eq_mod)
  moreover have "length (concat xs) = length xs * n" "as_chunks n (concat xs) = xs"
    using r as_chunks_concat [OF assms(1), of xs]
    by (auto simp: counted_ok_def list_all_iff length_concat sum_list_triv cong: map_cong)
  moreover have "reader_u16 bytes = Ok (word_of_nat (length xs), concat xs @ rest)"
    using r by (simp add: reader_u16_iff counted_def)
  ultimately show "read bytes = Ok (xs, rest)" by (simp add: read reader_take_iff reader_take_def)
qed

lemma suite_list_iff: "suite_list bytes = Ok (xs, rest) \<longleftrightarrow> bytes = counted xs @ rest \<and> counted_ok 4 xs"
  by (rule counted_read, simp, simp only: suite_list_def SUITE_LEN_def)

lemma reader_pmkids_iff: "reader_pmkids bytes = Ok (xs, rest) \<longleftrightarrow> bytes = counted xs @ rest \<and> counted_ok 16 xs"
  by (rule counted_read, simp, simp only: reader_pmkids_def RSN_PMKID_LEN_def)

lemma reader_optional_iff:
  "reader_optional read bytes = Ok (v, rest) \<longleftrightarrow>
     (case v of None \<Rightarrow> bytes = [] \<and> rest = [] | Some x \<Rightarrow> bytes \<noteq> [] \<and> read bytes = Ok (x, rest))"
  by (auto simp: reader_optional_def split: option.splits result.splits)

text \<open>The octets of an element, and the elements that have octets.\<close>

definition rsn_body :: "RsnElement \<Rightarrow> u8 list" where
  "rsn_body e = u16_to_le_bytes 1 @ group_data_cipher e @ counted (pairwise_ciphers e) @ counted (akm_suites e)
     @ (case element_capabilities e of None \<Rightarrow> [] | Some w \<Rightarrow> u16_to_le_bytes w)
     @ (case element_pmkids e of None \<Rightarrow> [] | Some xs \<Rightarrow> counted xs)
     @ (case group_management_cipher e of None \<Rightarrow> [] | Some x \<Rightarrow> x)"

definition rsn_octets :: "RsnElement \<Rightarrow> u8 list" where
  "rsn_octets e = [48, word_of_nat (length (rsn_body e))] @ rsn_body e"

definition rsn_ok :: "RsnElement \<Rightarrow> bool" where
  "rsn_ok e \<longleftrightarrow> length (group_data_cipher e) = 4 \<and> counted_ok 4 (pairwise_ciphers e) \<and> counted_ok 4 (akm_suites e)
     \<and> (case element_capabilities e of None \<Rightarrow> element_pmkids e = None | Some w \<Rightarrow> True)
     \<and> (case element_pmkids e of None \<Rightarrow> group_management_cipher e = None | Some xs \<Rightarrow> counted_ok 16 xs)
     \<and> (case group_management_cipher e of None \<Rightarrow> True | Some x \<Rightarrow> length x = 4)
     \<and> length (rsn_body e) \<le> 255"

lemma counted_nonempty [simp]: "counted xs \<noteq> []"
  by (simp add: counted_def u16_to_le_bytes_def)

lemma le_bytes_nonempty [simp]: "u16_to_le_bytes w \<noteq> []"
  by (simp add: u16_to_le_bytes_def)

text \<open>The tail of optional fields.\<close>

lemma optional_fields:
  "(\<exists>b2 b3. reader_optional reader_u16 b1 = Ok (caps, b2) \<and> reader_optional reader_pmkids b2 = Ok (ids, b3)
      \<and> reader_optional reader_suite b3 = Ok (mgmt, []))
   \<longleftrightarrow> b1 = (case caps of None \<Rightarrow> [] | Some w \<Rightarrow> u16_to_le_bytes w) @ (case ids of None \<Rightarrow> [] | Some xs \<Rightarrow> counted xs)
        @ (case mgmt of None \<Rightarrow> [] | Some x \<Rightarrow> x)
     \<and> (caps = None \<longrightarrow> ids = None) \<and> (ids = None \<longrightarrow> mgmt = None)
     \<and> (case ids of None \<Rightarrow> True | Some xs \<Rightarrow> counted_ok 16 xs) \<and> (case mgmt of None \<Rightarrow> True | Some x \<Rightarrow> length x = 4)"
  by (cases caps; cases ids; cases mgmt)
    (auto simp: reader_optional_iff reader_u16_iff reader_pmkids_iff reader_suite_iff)

lemma parse_body_iff:
  "RsnElement_parse_body body = Ok e \<longleftrightarrow>
     (\<exists>b0 b1 b2 b3 b4 b5. reader_u16 body = Ok (1, b0) \<and> reader_suite b0 = Ok (group_data_cipher e, b1)
        \<and> suite_list b1 = Ok (pairwise_ciphers e, b2) \<and> suite_list b2 = Ok (akm_suites e, b3)
        \<and> reader_optional reader_u16 b3 = Ok (element_capabilities e, b4)
        \<and> reader_optional reader_pmkids b4 = Ok (element_pmkids e, b5)
        \<and> reader_optional reader_suite b5 = Ok (group_management_cipher e, []))"
  by (cases e) (auto simp: RsnElement_parse_body_def RSN_VERSION_def split: result.splits if_splits)

lemma parse_body_octets:
  "RsnElement_parse_body body = Ok e \<and> length body \<le> 255 \<longleftrightarrow> rsn_ok e \<and> body = rsn_body e"
proof -
  let ?fixed = "u16_to_le_bytes 1 @ group_data_cipher e @ counted (pairwise_ciphers e) @ counted (akm_suites e)"
  have "RsnElement_parse_body body = Ok e \<longleftrightarrow>
    (\<exists>b3. body = ?fixed @ b3 \<and> length (group_data_cipher e) = 4 \<and> counted_ok 4 (pairwise_ciphers e)
      \<and> counted_ok 4 (akm_suites e)
      \<and> (\<exists>b4 b5. reader_optional reader_u16 b3 = Ok (element_capabilities e, b4)
          \<and> reader_optional reader_pmkids b4 = Ok (element_pmkids e, b5)
          \<and> reader_optional reader_suite b5 = Ok (group_management_cipher e, [])))"
    unfolding parse_body_iff reader_u16_iff reader_suite_iff suite_list_iff by auto
  also have "\<dots> \<longleftrightarrow> body = rsn_body e \<and> length (group_data_cipher e) = 4 \<and> counted_ok 4 (pairwise_ciphers e)
      \<and> counted_ok 4 (akm_suites e) \<and> (element_capabilities e = None \<longrightarrow> element_pmkids e = None)
      \<and> (element_pmkids e = None \<longrightarrow> group_management_cipher e = None)
      \<and> (case element_pmkids e of None \<Rightarrow> True | Some xs \<Rightarrow> counted_ok 16 xs)
      \<and> (case group_management_cipher e of None \<Rightarrow> True | Some x \<Rightarrow> length x = 4)"
    unfolding optional_fields rsn_body_def by auto
  also have "\<dots> \<and> length body \<le> 255 \<longleftrightarrow> rsn_ok e \<and> body = rsn_body e"
    unfolding rsn_ok_def by (auto split: option.splits)
  finally show ?thesis .
qed

lemma rsn_parse_iff:
  "RsnElement_parse bytes = Ok e \<longleftrightarrow> rsn_ok e \<and> bytes = rsn_octets e"
proof -
  have "RsnElement_parse bytes = Ok e \<longleftrightarrow>
    (\<exists>len body. bytes = 48 # len # body \<and> unat len = length body \<and> RsnElement_parse_body body = Ok e)"
    by (auto simp: RsnElement_parse_def RSN_ELEMENT_ID_def split: list.splits if_splits)
  also have "\<dots> \<longleftrightarrow> (\<exists>body. bytes = [48, word_of_nat (length body)] @ body
      \<and> RsnElement_parse_body body = Ok e \<and> length body \<le> 255)"
  proof -
    have "unat len \<le> 255" for len :: u8 using unsigned_less [of len, where 'a = nat] by simp
    then have "unat len = n \<longleftrightarrow> len = word_of_nat n \<and> n \<le> 255" for len :: u8 and n
      by (auto simp: unat_of_nat take_bit_eq_mod)
    then show ?thesis by auto
  qed
  finally show ?thesis unfolding parse_body_octets by (auto simp: rsn_octets_def)
qed

text \<open>
  C20. The RSN element parser accepts exactly the octet strings of well-formed elements: every field in
  its place, counted lists with complete entries, optional fields only as a trailing sequence,
  nothing behind them, and the length octet the length of the body; the element it returns is the one
  whose octets were given, so two elements with the same octets are equal.
\<close>

theorem rsn_element_codec:
  "RsnElement_parse bytes = Ok e \<longleftrightarrow> rsn_ok e \<and> bytes = rsn_octets e"
  by (rule rsn_parse_iff)

text \<open>An element of WPA2-Personal.\<close>

definition sample_rsn :: "u8 list" where
  "sample_rsn = [48, 20, 1, 0, 0, 15, 172, 4, 1, 0, 0, 15, 172, 4, 1, 0, 0, 15, 172, 2, 0, 0]"

lemma sample_rsn_parsed: "RsnElement_parse sample_rsn = Ok \<lparr>group_data_cipher = [0, 15, 172, 4],
    pairwise_ciphers = [[0, 15, 172, 4]], akm_suites = [[0, 15, 172, 2]], element_capabilities = Some 0,
    element_pmkids = None, group_management_cipher = None\<rparr>"
  unfolding rsn_parse_iff
  by (simp add: rsn_ok_def rsn_octets_def rsn_body_def counted_def counted_ok_def u16_to_le_bytes_def sample_rsn_def)

lemma sample_rsn_valid:
  "\<exists>v. validate_rsn_element sample_rsn = Ok v \<and> validated_akm v = Psk \<and> \<not> mfp_capable (management_frame_protection v)"
proof -
  have "\<exists>ie. OwnedRsnIe_try_copy RSN_IE_CAPACITY sample_rsn = Ok ie"
    by (simp add: OwnedRsnIe_try_copy_def RSN_ELEMENT_ID_def RSN_IE_CAPACITY_def sample_rsn_def)
  then show ?thesis
    by (auto simp: validate_rsn_element_def sample_rsn_parsed ieee_suite_def RSN_OUI_def RSN_CIPHER_CCMP_def
        from_suite_selector_def RSN_AKM_PSK_def RSN_AKM_PSK_SHA256_def RSN_AKM_SAE_def List.map_filter_simps
        management_frame_protection_def)
qed

end
