(* ===== verification/Rsn_Key_Wrap.thy ===== *)
theory Rsn_Key_Wrap
  imports Eapol_Key
begin

text \<open>
  RFC 3394 key wrap of the handshake's key data (\<open>ieee80211/security/rsn/src/aes.rs\<close>).  AES-128 of
  the \<open>aes\<close> crate is a parameter: \<open>enc kek block\<close> and \<open>dec kek block\<close> map blocks of 16 octets.
  The software leaf is modelled; the asynchronous port is an interface without behaviour.
\<close>

definition RSN_KEY_DATA_CAPACITY :: nat where "RSN_KEY_DATA_CAPACITY = 512"

definition RSN_UNWRAPPED_KEY_DATA_CAPACITY :: nat where
  "RSN_UNWRAPPED_KEY_DATA_CAPACITY = RSN_KEY_DATA_CAPACITY - 8"

definition RFC3394_IV :: "u8 list" where "RFC3394_IV = replicate 8 0xa6"

datatype SoftwareAesKeyUnwrapError = UnwrapInvalidLength | UnwrapCapacityExceeded | IntegrityCheckFailed

datatype SoftwareAesKeyWrapError = WrapInvalidLength | WrapCapacityExceeded

record RsnWrappedKeyData =
  wrapped_len :: nat
  wrapped_bytes :: "u8 list"

definition wrapped_as_bytes :: "RsnWrappedKeyData \<Rightarrow> u8 list" where
  "wrapped_as_bytes self = take (wrapped_len self) (wrapped_bytes self)"

record RsnUnwrappedKeyData =
  unwrapped_len :: nat
  unwrapped_bytes :: "u8 list"

datatype RsnUnwrappedKeyDataCapacityError = RsnUnwrappedKeyDataCapacityError

definition RsnUnwrappedKeyData_try_copy ::
    "u8 list \<Rightarrow> (RsnUnwrappedKeyData, RsnUnwrappedKeyDataCapacityError) result" where
  "RsnUnwrappedKeyData_try_copy bytes =
     (if length bytes > RSN_UNWRAPPED_KEY_DATA_CAPACITY then Err RsnUnwrappedKeyDataCapacityError
      else Ok \<lparr>unwrapped_len = length bytes,
               unwrapped_bytes = write_at 0 bytes (replicate RSN_UNWRAPPED_KEY_DATA_CAPACITY 0)\<rparr>)"

definition unwrapped_as_bytes :: "RsnUnwrappedKeyData \<Rightarrow> u8 list" where
  "unwrapped_as_bytes self = take (unwrapped_len self) (unwrapped_bytes self)"

type_synonym block_function = "u8 list \<Rightarrow> u8 list \<Rightarrow> u8 list"

text \<open>The iterations of both loops in the order the wrap takes them.\<close>

definition wrap_rounds :: "nat \<Rightarrow> (nat \<times> nat) list" where
  "wrap_rounds blocks = concat (map (\<lambda>round. map (Pair round) [1..<blocks + 1]) [0..<6])"

definition wrap_counter :: "nat \<Rightarrow> nat \<times> nat \<Rightarrow> u8 list" where
  "wrap_counter blocks step = u64_to_be_bytes (word_of_nat (fst step) * word_of_nat blocks + word_of_nat (snd step))"

definition wrap_step :: "block_function \<Rightarrow> u8 list \<Rightarrow> nat \<Rightarrow> u8 list \<Rightarrow> nat \<times> nat \<Rightarrow> u8 list" where
  "wrap_step enc kek blocks bytes step =
     (let offset = 8 + (snd step - 1) * 8;
          block = enc kek (take 8 bytes @ take 8 (drop offset bytes));
          bytes = write_at 0 (map2 (XOR) (take 8 block) (wrap_counter blocks step)) bytes
      in write_at offset (drop 8 block) bytes)"

definition software_aes128_key_wrap ::
    "block_function \<Rightarrow> u8 list \<Rightarrow> u8 list \<Rightarrow> (RsnWrappedKeyData, SoftwareAesKeyWrapError) result" where
  "software_aes128_key_wrap enc kek plaintext =
     (if length plaintext < 16 \<or> length plaintext mod 8 \<noteq> 0 then Err WrapInvalidLength
      else
        let len = length plaintext + 8
        in if len > RSN_KEY_DATA_CAPACITY then Err WrapCapacityExceeded
           else
             let bytes = replicate RSN_KEY_DATA_CAPACITY 0;
                 bytes = write_at 0 RFC3394_IV bytes;
                 bytes = write_at 8 plaintext bytes;
                 blocks = length plaintext div 8
             in Ok \<lparr>wrapped_len = len,
                    wrapped_bytes = foldl (wrap_step enc kek blocks) bytes (wrap_rounds blocks)\<rparr>)"

definition unwrap_step ::
    "block_function \<Rightarrow> u8 list \<Rightarrow> nat \<Rightarrow> u8 list \<times> u8 list \<Rightarrow> nat \<times> nat \<Rightarrow> u8 list \<times> u8 list" where
  "unwrap_step dec kek blocks state step =
     (let (accumulator, bytes) = state;
          offset = (snd step - 1) * 8;
          block = dec kek (map2 (XOR) accumulator (wrap_counter blocks step) @ take 8 (drop offset bytes))
      in (take 8 block, write_at offset (drop 8 block) bytes))"

definition software_aes128_key_unwrap ::
    "block_function \<Rightarrow> u8 list \<Rightarrow> u8 list \<Rightarrow> (RsnUnwrappedKeyData, SoftwareAesKeyUnwrapError) result" where
  "software_aes128_key_unwrap dec kek encrypted =
     (if length encrypted < 24 \<or> length encrypted mod 8 \<noteq> 0 then Err UnwrapInvalidLength
      else
        let len = length encrypted - 8
        in if len > RSN_UNWRAPPED_KEY_DATA_CAPACITY then Err UnwrapCapacityExceeded
           else
             let accumulator = take 8 encrypted;
                 bytes = write_at 0 (drop 8 encrypted) (replicate RSN_UNWRAPPED_KEY_DATA_CAPACITY 0);
                 blocks = len div 8;
                 (accumulator, bytes) =
                   foldl (unwrap_step dec kek blocks) (accumulator, bytes) (rev (wrap_rounds blocks));
                 difference = foldl (OR) 0 (map2 (XOR) accumulator RFC3394_IV)
             in if difference \<noteq> 0 then Err IntegrityCheckFailed
                else Ok \<lparr>unwrapped_len = len, unwrapped_bytes = bytes\<rparr>)"

subsection \<open>Wrap and unwrap are inverse\<close>

text \<open>What the block cipher documents: both directions map blocks of 16 octets and invert each other.\<close>

definition inverse_ciphers :: "block_function \<Rightarrow> block_function \<Rightarrow> bool" where
  "inverse_ciphers enc dec \<longleftrightarrow> (\<forall>kek block. length block = 16 \<longrightarrow>
     length (enc kek block) = 16 \<and> length (dec kek block) = 16
     \<and> dec kek (enc kek block) = block \<and> enc kek (dec kek block) = block)"

lemma xor_twice: "length ys = length xs \<Longrightarrow> map2 (XOR) (map2 (XOR) xs ys) ys = (xs :: u8 list)"
  by (induction xs ys rule: list_induct2') (auto simp: xor.assoc)

lemma difference_zero_iff:
  assumes "length xs = length ys"
  shows "foldl (OR) 0 (map2 (XOR) xs ys) = 0 \<longleftrightarrow> (xs :: u8 list) = ys"
proof -
  have fold: "foldl (OR) a bs = 0 \<longleftrightarrow> a = 0 \<and> (\<forall>b \<in> set bs. b = 0)" for a :: u8 and bs
    by (induction bs arbitrary: a) (auto simp: or_eq_0_iff)
  have xor: "x XOR y = 0 \<longleftrightarrow> x = y" for x y :: u8
    by (metis xor.left_neutral xor.assoc xor.right_neutral xor_self_eq)
  show ?thesis unfolding fold
    using assms by (induction xs ys rule: list_induct2) (auto simp: xor)
qed

text \<open>One wrap iteration on the register and the array behind it.\<close>

definition split_wrap :: "block_function \<Rightarrow> u8 list \<Rightarrow> nat \<Rightarrow> u8 list \<times> u8 list \<Rightarrow> nat \<times> nat \<Rightarrow> u8 list \<times> u8 list" where
  "split_wrap enc kek blocks state step =
     (let offset = (snd step - 1) * 8;
          block = enc kek (fst state @ take 8 (drop offset (snd state)))
      in (map2 (XOR) (take 8 block) (wrap_counter blocks step),
          write_at offset (drop 8 block) (snd state)))"

definition wrap_shape :: "nat \<Rightarrow> u8 list \<times> u8 list \<Rightarrow> bool" where
  "wrap_shape blocks state \<longleftrightarrow> length (fst state) = 8 \<and> 8 * blocks \<le> length (snd state)"

lemma wrap_rounds_index: "step \<in> set (wrap_rounds blocks) \<Longrightarrow> 1 \<le> snd step \<and> snd step \<le> blocks"
  by (auto simp: wrap_rounds_def)

lemma length_wrap_counter [simp]: "length (wrap_counter blocks step) = 8"
  by (simp add: wrap_counter_def)

lemma chunk_room:
  assumes "1 \<le> i" "i \<le> blocks" "8 * blocks \<le> length bytes"
  shows "(i - 1) * 8 + 8 \<le> length bytes"
  using assms by (cases i) auto

lemma chunk_written:
  assumes "offset + 8 \<le> length bytes" "length chunk = 8"
  shows "take 8 (drop offset (write_at offset chunk bytes)) = chunk"
    and "write_at offset (take 8 (drop offset bytes)) (write_at offset chunk bytes) = bytes"
proof -
  show "take 8 (drop offset (write_at offset chunk bytes)) = chunk"
    using assms by (simp add: write_at_def)
  show "write_at offset (take 8 (drop offset bytes)) (write_at offset chunk bytes) = bytes"
    using assms by (intro nth_equalityI) (auto simp: nth_write_at)
qed

lemma split_wrap_shape:
  assumes "inverse_ciphers enc dec" "wrap_shape blocks state" "step \<in> set (wrap_rounds blocks)"
  shows "wrap_shape blocks (split_wrap enc kek blocks state step)"
    and "wrap_step enc kek blocks (fst state @ snd state) step
      = fst (split_wrap enc kek blocks state step) @ snd (split_wrap enc kek blocks state step)"
    and "unwrap_step dec kek blocks (split_wrap enc kek blocks state step) step = state"
proof -
  let ?offset = "(snd step - 1) * 8"
  let ?in = "fst state @ take 8 (drop ?offset (snd state))"
  let ?block = "enc kek ?in"
  have room: "?offset + 8 \<le> length (snd state)"
    using assms(2) wrap_rounds_index [OF assms(3)] chunk_room [of "snd step" blocks "snd state"]
    by (simp add: wrap_shape_def)
  have len: "length (fst state) = 8" "length ?in = 16" "length ?block = 16" "dec kek ?block = ?in"
    using assms(1,2) room by (simp_all add: wrap_shape_def inverse_ciphers_def)
  show "wrap_shape blocks (split_wrap enc kek blocks state step)"
    using assms(2) room len by (simp add: wrap_shape_def split_wrap_def Let_def)
  show "wrap_step enc kek blocks (fst state @ snd state) step
      = fst (split_wrap enc kek blocks state step) @ snd (split_wrap enc kek blocks state step)"
    using len by (simp add: wrap_step_def split_wrap_def Let_def write_at_0 write_at_append)
  show "unwrap_step dec kek blocks (split_wrap enc kek blocks state step) step = state"
    using len room by (cases state)
      (simp add: unwrap_step_def split_wrap_def Let_def xor_twice chunk_written flip: append_assoc)
qed

lemma unwrap_step_shape:
  assumes "inverse_ciphers enc dec" "wrap_shape blocks state" "step \<in> set (wrap_rounds blocks)"
  shows "wrap_shape blocks (unwrap_step dec kek blocks state step)"
    and "split_wrap enc kek blocks (unwrap_step dec kek blocks state step) step = state"
    and "drop (8 * blocks) (snd (unwrap_step dec kek blocks state step)) = drop (8 * blocks) (snd state)"
proof -
  obtain acc bytes where state: "state = (acc, bytes)" by fastforce
  let ?offset = "(snd step - 1) * 8"
  let ?in = "map2 (XOR) acc (wrap_counter blocks step) @ take 8 (drop ?offset bytes)"
  let ?block = "dec kek ?in"
  note index = wrap_rounds_index [OF assms(3)]
  have room: "?offset + 8 \<le> length bytes"
    using assms(2) index chunk_room [of "snd step" blocks bytes] by (simp add: wrap_shape_def state)
  have len: "length acc = 8" "length ?in = 16" "length ?block = 16" "enc kek ?block = ?in"
    using assms(1,2) room by (simp_all add: wrap_shape_def inverse_ciphers_def state)
  have inside: "?offset + 8 \<le> 8 * blocks" using index by (cases "snd step") auto
  show "wrap_shape blocks (unwrap_step dec kek blocks state step)"
    using assms(2) room len by (simp add: wrap_shape_def unwrap_step_def Let_def state)
  show "split_wrap enc kek blocks (unwrap_step dec kek blocks state step) step = state"
    using len room by (simp add: unwrap_step_def split_wrap_def Let_def xor_twice chunk_written state)
  show "drop (8 * blocks) (snd (unwrap_step dec kek blocks state step)) = drop (8 * blocks) (snd state)"
    using inside len room by (simp add: unwrap_step_def Let_def state write_at_def min_def)
qed

text \<open>The loops: the unwrap runs the iterations of the wrap backwards.\<close>

lemma unwrap_loop:
  assumes "inverse_ciphers enc dec" "wrap_shape blocks state" "set steps \<subseteq> set (wrap_rounds blocks)"
  shows "wrap_shape blocks (foldl (unwrap_step dec kek blocks) state (rev steps))
    \<and> foldl (split_wrap enc kek blocks) (foldl (unwrap_step dec kek blocks) state (rev steps)) steps = state
    \<and> drop (8 * blocks) (snd (foldl (unwrap_step dec kek blocks) state (rev steps))) = drop (8 * blocks) (snd state)"
  using assms(3)
proof (induction steps)
  case (Cons step steps)
  let ?s = "foldl (unwrap_step dec kek blocks) state (rev steps)"
  have IH: "wrap_shape blocks ?s" "foldl (split_wrap enc kek blocks) ?s steps = state"
    "drop (8 * blocks) (snd ?s) = drop (8 * blocks) (snd state)" using Cons by simp_all
  note undone = unwrap_step_shape [OF assms(1) IH(1), of step kek]
  show ?case using undone IH Cons.prems by simp
qed (simp add: assms(2))

lemma wrap_loop:
  assumes "inverse_ciphers enc dec" "wrap_shape blocks state" "set steps \<subseteq> set (wrap_rounds blocks)"
  shows "wrap_shape blocks (foldl (split_wrap enc kek blocks) state steps)
    \<and> foldl (wrap_step enc kek blocks) (fst state @ snd state) steps
        = fst (foldl (split_wrap enc kek blocks) state steps) @ snd (foldl (split_wrap enc kek blocks) state steps)
    \<and> foldl (unwrap_step dec kek blocks) (foldl (split_wrap enc kek blocks) state steps) (rev steps) = state"
  using assms(2,3)
proof (induction steps arbitrary: state)
  case (Cons step steps)
  note one = split_wrap_shape [OF assms(1) Cons.prems(1), of step kek]
  then show ?case using Cons.IH [of "split_wrap enc kek blocks state step"] Cons.prems by simp
qed simp

lemma wrap_unfold:
  assumes "inverse_ciphers enc dec"
  shows "software_aes128_key_wrap enc kek p = Ok w \<longleftrightarrow>
     16 \<le> length p \<and> length p mod 8 = 0 \<and> length p \<le> 504 \<and>
     (\<exists>a bytes. foldl (split_wrap enc kek (length p div 8)) (RFC3394_IV, p @ replicate (504 - length p) 0)
          (wrap_rounds (length p div 8)) = (a, bytes)
        \<and> w = \<lparr>wrapped_len = length p + 8, wrapped_bytes = a @ bytes\<rparr>)"
proof -
  have start: "write_at 8 p (write_at 0 RFC3394_IV (replicate 512 0)) = RFC3394_IV @ p @ replicate (504 - length p) 0"
    by (simp add: write_at_def RFC3394_IV_def)
  have "wrap_shape (length p div 8) (RFC3394_IV, p @ replicate (504 - length p) 0)"
    if "length p \<le> 504" using that by (simp add: wrap_shape_def RFC3394_IV_def)
  then have "foldl (wrap_step enc kek (length p div 8)) (RFC3394_IV @ p @ replicate (504 - length p) 0)
      (wrap_rounds (length p div 8)) = a @ bytes"
    if "length p \<le> 504" "foldl (split_wrap enc kek (length p div 8)) (RFC3394_IV, p @ replicate (504 - length p) 0)
          (wrap_rounds (length p div 8)) = (a, bytes)" for a bytes
    using that wrap_loop [OF assms, of "length p div 8" "(RFC3394_IV, p @ replicate (504 - length p) 0)"
        "wrap_rounds (length p div 8)" kek] by simp
  then show ?thesis
    by (cases "foldl (split_wrap enc kek (length p div 8)) (RFC3394_IV, p @ replicate (504 - length p) 0)
          (wrap_rounds (length p div 8))")
      (auto simp: software_aes128_key_wrap_def Let_def RSN_KEY_DATA_CAPACITY_def start)
qed

lemma unwrap_unfold:
  assumes "inverse_ciphers enc dec"
  shows "software_aes128_key_unwrap dec kek c = Ok u \<longleftrightarrow>
     24 \<le> length c \<and> length c mod 8 = 0 \<and> length c \<le> 512 \<and>
     (\<exists>bytes. foldl (unwrap_step dec kek ((length c - 8) div 8))
          (take 8 c, drop 8 c @ replicate (512 - length c) 0) (rev (wrap_rounds ((length c - 8) div 8)))
          = (RFC3394_IV, bytes)
        \<and> u = \<lparr>unwrapped_len = length c - 8, unwrapped_bytes = bytes\<rparr>)"
proof (cases "24 \<le> length c \<and> length c \<le> 512")
  case True
  let ?blocks = "(length c - 8) div 8"
  let ?state = "(take 8 c, drop 8 c @ replicate (512 - length c) 0)"
  obtain a bytes where run: "foldl (unwrap_step dec kek ?blocks) ?state (rev (wrap_rounds ?blocks)) = (a, bytes)"
    by fastforce
  have "wrap_shape ?blocks ?state" using True by (auto simp: wrap_shape_def)
  from unwrap_loop [OF assms this subset_refl, of kek] have "length a = length RFC3394_IV"
    by (simp add: run wrap_shape_def RFC3394_IV_def)
  then have same: "foldl (OR) 0 (map2 (XOR) a RFC3394_IV) = 0 \<longleftrightarrow> a = RFC3394_IV" by (rule difference_zero_iff)
  have "write_at 0 (drop 8 c) (replicate 504 0) = drop 8 c @ replicate (512 - length c) 0"
    using True by (simp add: write_at_def)
  then show ?thesis using True run
    by (auto simp: software_aes128_key_unwrap_def Let_def RSN_UNWRAPPED_KEY_DATA_CAPACITY_def
        RSN_KEY_DATA_CAPACITY_def same)
next
  case False
  then show ?thesis by (auto simp: software_aes128_key_unwrap_def Let_def
      RSN_UNWRAPPED_KEY_DATA_CAPACITY_def RSN_KEY_DATA_CAPACITY_def)
qed

lemma wrap_then_unwrap:
  assumes inv: "inverse_ciphers enc dec" and wrap: "software_aes128_key_wrap enc kek p = Ok w"
  shows "\<exists>u. software_aes128_key_unwrap dec kek (wrapped_as_bytes w) = Ok u \<and> unwrapped_as_bytes u = p"
proof -
  let ?blocks = "length p div 8"
  let ?start = "(RFC3394_IV, p @ replicate (504 - length p) 0)"
  obtain a bytes where size: "16 \<le> length p" "length p mod 8 = 0" "length p \<le> 504"
    and run: "foldl (split_wrap enc kek ?blocks) ?start (wrap_rounds ?blocks) = (a, bytes)"
    and w: "w = \<lparr>wrapped_len = length p + 8, wrapped_bytes = a @ bytes\<rparr>"
    using wrap unfolding wrap_unfold [OF inv] by (elim conjE exE) (rule that)
  have whole: "8 * ?blocks = length p" using size(2) by auto
  have "wrap_shape ?blocks ?start" using size whole by (simp add: wrap_shape_def RFC3394_IV_def)
  from wrap_loop [OF inv this subset_refl, of kek] run
  have shape: "wrap_shape ?blocks (a, bytes)"
    and inverted: "foldl (unwrap_step dec kek ?blocks) (a, bytes) (rev (wrap_rounds ?blocks)) = ?start" by simp_all
  from unwrap_loop [OF inv shape subset_refl, of kek] inverted whole
  have tail: "drop (length p) bytes = replicate (504 - length p) 0" by simp
  have len: "length a = 8" "length p \<le> length bytes" using shape whole by (simp_all add: wrap_shape_def)
  let ?c = "wrapped_as_bytes w"
  have c: "?c = a @ take (length p) bytes" using len by (simp add: wrapped_as_bytes_def w)
  have cuts: "length ?c = length p + 8" "take 8 ?c = a" "drop 8 ?c = take (length p) bytes"
    using len by (simp_all add: c min_def)
  have "take (length p) bytes @ replicate (504 - length p) 0 = bytes" using tail by (metis append_take_drop_id)
  then have "software_aes128_key_unwrap dec kek ?c
      = Ok \<lparr>unwrapped_len = length p, unwrapped_bytes = p @ replicate (504 - length p) 0\<rparr>"
    unfolding unwrap_unfold [OF inv] using size inverted by (simp add: cuts)
  then show ?thesis by (simp add: unwrapped_as_bytes_def)
qed

lemma unwrap_then_wrap:
  assumes inv: "inverse_ciphers enc dec" and unwrap: "software_aes128_key_unwrap dec kek c = Ok u"
  shows "\<exists>w. software_aes128_key_wrap enc kek (unwrapped_as_bytes u) = Ok w \<and> wrapped_as_bytes w = c"
proof -
  have size: "24 \<le> length c" "length c mod 8 = 0" "length c \<le> 512"
    using unwrap unfolding unwrap_unfold [OF inv] by simp_all
  define n where "n = length c - 8"
  have c: "length c = n + 8" and n: "16 \<le> n" "n \<le> 504" using size(1,3) by (simp_all add: n_def)
  have "n mod 8 = 0" using size(2) by (simp add: c)
  then have whole: "8 * (n div 8) = n" by auto
  let ?state = "(take 8 c, drop 8 c @ replicate (504 - n) 0)"
  obtain bytes where run:
      "foldl (unwrap_step dec kek (n div 8)) ?state (rev (wrap_rounds (n div 8))) = (RFC3394_IV, bytes)"
    and u: "u = \<lparr>unwrapped_len = n, unwrapped_bytes = bytes\<rparr>"
    using unwrap unfolding unwrap_unfold [OF inv] by (auto simp: c)
  have "wrap_shape (n div 8) ?state" using n whole by (simp add: wrap_shape_def c)
  note loop = unwrap_loop [OF inv this subset_refl, of kek, unfolded run whole]
  have inverted: "foldl (split_wrap enc kek (n div 8)) (RFC3394_IV, bytes) (wrap_rounds (n div 8)) = ?state"
    and tail: "drop n bytes = replicate (504 - n) 0" and len: "n \<le> length bytes"
    using loop by (simp_all add: wrap_shape_def whole c)
  let ?p = "unwrapped_as_bytes u"
  have p: "length ?p = n" "?p @ replicate (504 - n) 0 = bytes"
    using len append_take_drop_id [of n bytes] by (simp_all add: unwrapped_as_bytes_def u tail)
  have "software_aes128_key_wrap enc kek ?p = Ok \<lparr>wrapped_len = n + 8, wrapped_bytes = take 8 c @ snd ?state\<rparr>"
    unfolding wrap_unfold [OF inv] p using n inverted \<open>n mod 8 = 0\<close> by simp
  then show ?thesis by (simp add: wrapped_as_bytes_def c flip: append_assoc)
qed

text \<open>
  C18. Unwrapping accepts exactly the ciphertexts the wrap produces under the same key, and returns the
  plaintext they were made from, for every plaintext of the permitted lengths.
\<close>

theorem key_unwrap_inverts_wrap:
  assumes "inverse_ciphers enc dec"
  shows "((\<exists>w. software_aes128_key_wrap enc kek p = Ok w \<and> wrapped_as_bytes w = c)
      \<longleftrightarrow> (\<exists>u. software_aes128_key_unwrap dec kek c = Ok u \<and> unwrapped_as_bytes u = p))
     \<and> ((\<exists>w. software_aes128_key_wrap enc kek p = Ok w)
      \<longleftrightarrow> 16 \<le> length p \<and> length p \<le> 504 \<and> length p mod 8 = 0)"
proof (intro conjI)
  show "(\<exists>w. software_aes128_key_wrap enc kek p = Ok w \<and> wrapped_as_bytes w = c)
     \<longleftrightarrow> (\<exists>u. software_aes128_key_unwrap dec kek c = Ok u \<and> unwrapped_as_bytes u = p)"
    using wrap_then_unwrap [OF assms, of kek p] unwrap_then_wrap [OF assms, of kek c] by metis
  show "(\<exists>w. software_aes128_key_wrap enc kek p = Ok w)
     \<longleftrightarrow> 16 \<le> length p \<and> length p \<le> 504 \<and> length p mod 8 = 0"
    by (auto simp: software_aes128_key_wrap_def Let_def RSN_KEY_DATA_CAPACITY_def)
qed

theorem key_unwrap_inverts_wrap_witness:
  "\<exists>c u. software_aes128_key_unwrap (\<lambda>_. rev) [1] c = Ok u \<and> unwrapped_as_bytes u = replicate 16 7"
proof -
  have inv: "inverse_ciphers (\<lambda>_. rev) (\<lambda>_. rev)" by (simp add: inverse_ciphers_def)
  note claim = key_unwrap_inverts_wrap [OF inv, of "[1]" "replicate 16 7"]
  have "\<exists>w. software_aes128_key_wrap (\<lambda>_. rev) [1] (replicate 16 7) = Ok w"
    using conjunct2 [OF claim] by simp
  then obtain w where "software_aes128_key_wrap (\<lambda>_. rev) [1] (replicate 16 7) = Ok w" by (rule exE)
  then show ?thesis using conjunct1 [OF claim, of "wrapped_as_bytes w"] by blast
qed

end
