(* ===== verification/Rsn_Supplicant.thy ===== *)
theory Rsn_Supplicant
  imports Rsn_State Rsn_Element Rsn_Key_Wrap
begin

text \<open>
  The station's supplicant (\<open>ieee80211/security/rsn/src/supplicant.rs\<close>) with the key hierarchy of
  \<open>crypto.rs\<close> and the installation requests of \<open>keys.rs\<close>: the owner of one four-way handshake, which
  joins the state machine to key derivation, MIC verification and key data, and the owner of a
  connected association, which authenticates repeated Messages 3 and group rekeys.  The suite's
  key expansion and message authentication code, computed by the hash crates, are parameters.
\<close>

subsection \<open>Pairwise keys\<close>

definition ordered :: "u8 list \<Rightarrow> u8 list \<Rightarrow> u8 list \<times> u8 list" where
  "ordered left right = (if lexordp_eq left right then (left, right) else (right, left))"

record Ptk =
  ptk_akm :: Akm
  ptk_bytes :: "u8 list"

type_synonym expand_function = "Akm \<Rightarrow> u8 list \<Rightarrow> u8 list \<Rightarrow> u8 list"

definition derive_ptk :: "expand_function \<Rightarrow> u8 list \<Rightarrow> Akm \<Rightarrow> PtkContext \<Rightarrow> Ptk" where
  "derive_ptk expand_ptk pmk akm ctx =
     (let (first_address, second_address) = ordered (authenticator_address ctx) (supplicant_address ctx);
          (first_nonce, second_nonce) = ordered (context_anonce ctx) (context_snonce ctx);
          canonical = first_address @ second_address @ first_nonce @ second_nonce
      in \<lparr>ptk_akm = akm, ptk_bytes = expand_ptk akm pmk canonical\<rparr>)"

definition ptk_kck :: "Ptk \<Rightarrow> u8 list" where "ptk_kck self = take 16 (ptk_bytes self)"
definition ptk_kek :: "Ptk \<Rightarrow> u8 list" where "ptk_kek self = take 16 (drop 16 (ptk_bytes self))"
definition temporal_key :: "Ptk \<Rightarrow> u8 list" where "temporal_key self = take 16 (drop 32 (ptk_bytes self))"

record RsnKeyConfirmationKey =
  confirmation_akm :: Akm
  confirmation_bytes :: "u8 list"

definition into_connected_keys :: "Ptk \<Rightarrow> RsnKeyConfirmationKey \<times> u8 list" where
  "into_connected_keys self =
     (\<lparr>confirmation_akm = ptk_akm self, confirmation_bytes = ptk_kck self\<rparr>, ptk_kek self)"

definition verify_mic :: "mac_function \<Rightarrow> EapolKeyFrame \<Rightarrow> Ptk \<Rightarrow> bool" where
  "verify_mic mac self ptk = verify_mic_with_kck mac self (ptk_akm ptk) (ptk_kck ptk)"

definition verify_mic_with_confirmation_key :: "mac_function \<Rightarrow> EapolKeyFrame \<Rightarrow> RsnKeyConfirmationKey \<Rightarrow> bool" where
  "verify_mic_with_confirmation_key mac self key =
     verify_mic_with_kck mac self (confirmation_akm key) (confirmation_bytes key)"

definition authenticate :: "mac_function \<Rightarrow> RsnTxFrame \<Rightarrow> Ptk \<Rightarrow> RsnTxFrame" where
  "authenticate mac self ptk = authenticate_with_kck mac self (ptk_akm ptk) (ptk_kck ptk)"

definition authenticate_with_confirmation_key :: "mac_function \<Rightarrow> RsnTxFrame \<Rightarrow> RsnKeyConfirmationKey \<Rightarrow> RsnTxFrame" where
  "authenticate_with_confirmation_key mac self key =
     authenticate_with_kck mac self (confirmation_akm key) (confirmation_bytes key)"

subsection \<open>Installation requests\<close>

datatype RsnKeyKind = PairwiseKind | GroupKind GroupKeyId bool

record RsnKeyInstall =
  install_interface :: RsnInterface
  install_peer :: "u8 list"
  install_kind :: RsnKeyKind
  install_receive_sequence :: "u8 list"
  install_key :: "u8 list"

definition RsnKeyInstall_pairwise :: "RsnInterface \<Rightarrow> u8 list \<Rightarrow> u8 list \<Rightarrow> Ptk \<Rightarrow> RsnKeyInstall" where
  "RsnKeyInstall_pairwise interface peer receive_sequence ptk =
     \<lparr>install_interface = interface, install_peer = peer, install_kind = PairwiseKind,
      install_receive_sequence = receive_sequence, install_key = temporal_key ptk\<rparr>"

definition RsnKeyInstall_group :: "RsnInterface \<Rightarrow> RsnGtk \<Rightarrow> u8 list \<Rightarrow> RsnKeyInstall" where
  "RsnKeyInstall_group interface gtk receive_sequence =
     \<lparr>install_interface = interface, install_peer = replicate 6 0xff,
      install_kind = GroupKind (gtk_key_id gtk) (gtk_transmit gtk),
      install_receive_sequence = receive_sequence, install_key = gtk_key gtk\<rparr>"

definition same_slot :: "RsnKeyInstall \<Rightarrow> RsnKeyInstall \<Rightarrow> bool" where
  "same_slot self other \<longleftrightarrow>
     install_interface self = install_interface other \<and> install_peer self = install_peer other
     \<and> (case (install_kind self, install_kind other) of
          (PairwiseKind, PairwiseKind) \<Rightarrow> True
        | (GroupKind left _, GroupKind right _) \<Rightarrow> left = right
        | _ \<Rightarrow> False)"

text \<open>The fixed key table: an array of optional installations.\<close>

definition find_position :: "('a \<Rightarrow> bool) \<Rightarrow> 'a list \<Rightarrow> nat option" where
  "find_position p xs = find (\<lambda>i. p (xs ! i)) [0..<length xs]"

definition slot_for :: "RsnKeyInstall option list \<Rightarrow> RsnKeyInstall \<Rightarrow> nat option" where
  "slot_for slots key =
     (case find_position (\<lambda>slot. case slot of None \<Rightarrow> False | Some old \<Rightarrow> same_slot old key) slots of
        Some i \<Rightarrow> Some i
      | None \<Rightarrow> find_position (\<lambda>slot. slot = None) slots)"

definition keys_insert :: "RsnKeyInstall option list \<Rightarrow> RsnKeyInstall \<Rightarrow> nat option \<times> RsnKeyInstall option list" where
  "keys_insert slots key =
     (case slot_for slots key of None \<Rightarrow> (None, slots) | Some i \<Rightarrow> (Some i, slots[i := Some key]))"

definition keys_replace_at :: "RsnKeyInstall option list \<Rightarrow> nat \<Rightarrow> RsnKeyInstall \<Rightarrow> bool \<times> RsnKeyInstall option list" where
  "keys_replace_at slots i key = (if i < length slots then (True, slots[i := Some key]) else (False, slots))"

definition keys_get :: "RsnKeyInstall option list \<Rightarrow> nat \<Rightarrow> RsnKeyInstall option" where
  "keys_get slots i = (if i < length slots then slots ! i else None)"

definition keys_remove :: "RsnKeyInstall option list \<Rightarrow> nat \<Rightarrow> RsnKeyInstall option \<times> RsnKeyInstall option list" where
  "keys_remove slots i = (if i < length slots then (slots ! i, slots[i := None]) else (None, slots))"

subsection \<open>Actions of the supplicants\<close>

datatype RsnStaSupplicantError =
    SupState RsnStateError
  | SupFrame RsnFrameError
  | SupElement RsnElementError
  | MissingPtk
  | InvalidMessage3Mic
  | UnexpectedAction

definition supplicant_peer_input_rejection :: "RsnStaSupplicantError \<Rightarrow> bool" where
  "supplicant_peer_input_rejection self =
     (case self of SupState e \<Rightarrow> is_peer_input_rejection e | InvalidMessage3Mic \<Rightarrow> True | _ \<Rightarrow> False)"

record RsnStaRetryInstall =
  retry_ticket :: RsnTicket
  retry_replay_counter :: u64
  retry_encrypted :: bool
  retry_plain_len :: nat
  retry_group :: RsnKeyInstall
  retry_igtk :: "RsnIgtk option"

record RsnStaKeyInstallRequest =
  request_pairwise :: RsnKeyInstall
  request_group :: RsnStaRetryInstall

record RsnStaKeyDataRequest =
  data_ticket :: RsnTicket
  data_frame :: OwnedEapolFrame
  data_kek :: "u8 list"

datatype RsnStaReady =
    ReadyNone
  | ReadyTransmit RsnTxFrame
  | ReadyInstallKeys RsnStaKeyInstallRequest
  | ReadyRetryInstall RsnStaRetryInstall
  | ReadyDeauthenticate

datatype RsnStaSupplicantAction = Ready RsnStaReady | UnwrapKeyData RsnStaKeyDataRequest

datatype 'e RsnStaProcessError = ProcessSupplicant RsnStaSupplicantError | ProcessKeyUnwrap 'e

record RsnCompletedMessage3 =
  completed_version :: u8
  completed_key_info :: u16
  completed_replay :: u64
  completed_anonce :: "u8 list"
  completed_mic :: "u8 list"

definition RsnCompletedMessage3_capture :: "EapolKeyFrame \<Rightarrow> RsnCompletedMessage3" where
  "RsnCompletedMessage3_capture frame =
     \<lparr>completed_version = protocol_version frame, completed_key_info = key_info_raw (key_info frame),
      completed_replay = replay_counter frame, completed_anonce = key_nonce frame,
      completed_mic = key_mic frame\<rparr>"

record RsnStaSupplicant =
  sup_state :: RsnStaState
  sup_ptk :: "Ptk option"
  sup_completed :: "RsnCompletedMessage3 option"
  sup_ies :: OwnedAssociationSecurityIes
  sup_authenticator_ies :: OwnedAssociationSecurityIes
  sup_management_protection :: bool

definition RsnStaSupplicant_try_new ::
    "u8 list \<Rightarrow> u8 list \<Rightarrow> u8 list \<Rightarrow> u8 list \<Rightarrow> u8 list \<Rightarrow> u8 list
     \<Rightarrow> (RsnStaSupplicant, RsnStaSupplicantError) result" where
  "RsnStaSupplicant_try_new local_address authenticator snonce association_ies peer_rsn peer_rsnxe =
     (case Ies_try_copy_bytes RSN_ASSOC_SECURITY_IES_CAPACITY association_ies of
        Err e \<Rightarrow> Err (SupFrame e)
      | Ok ies \<Rightarrow>
          (case validate_rsn_element (ies_rsn_ie ies) of
             Err e \<Rightarrow> Err (SupElement e)
           | Ok own \<Rightarrow>
               (case validate_rsn_element peer_rsn of
                  Err e \<Rightarrow> Err (SupElement e)
                | Ok peer \<Rightarrow>
                    (case RsnStaState_new (validated_akm own) local_address authenticator snonce of
                       Err e \<Rightarrow> Err (SupState e)
                     | Ok state \<Rightarrow>
                         (case OwnedRsnIe_try_copy RSN_IE_CAPACITY peer_rsn of
                            Err e \<Rightarrow> Err (SupFrame e)
                          | Ok rsn \<Rightarrow>
                              (case Ies_try_copy RSN_ASSOC_SECURITY_IES_CAPACITY rsn peer_rsnxe of
                                 Err e \<Rightarrow> Err (SupFrame e)
                               | Ok peer_ies \<Rightarrow>
                                   Ok \<lparr>sup_state = state, sup_ptk = None, sup_completed = None, sup_ies = ies,
                                       sup_authenticator_ies = peer_ies,
                                       sup_management_protection =
                                         negotiated (management_frame_protection own)
                                           (management_frame_protection peer)\<rparr>))))))"

subsection \<open>The handshake owner\<close>

definition build_sta_action_frame ::
    "nat \<Rightarrow> RsnStaState \<Rightarrow> RsnTransmit \<Rightarrow> OwnedAssociationSecurityIes \<Rightarrow> (RsnTxFrame, RsnFrameError) result" where
  "build_sta_action_frame N state transmit ies =
     (let built = (case transmit_message transmit of
            TxMessage2 \<Rightarrow> RsnTxFrame_message2_with_security_ies N (sta_akm state) (sta_authenticator state)
              (transmit_replay transmit) (sta_snonce state) (ies_as_bytes ies)
          | TxMessage4 \<Rightarrow> RsnTxFrame_message4 N (sta_akm state) (sta_authenticator state) (transmit_replay transmit)
          | _ \<Rightarrow> Err UnexpectedTransmitAction)
      in case built of
           Err e \<Rightarrow> Err e
         | Ok frame \<Rightarrow> Ok (frame\<lparr>tx_retransmission := transmit_retransmission transmit\<rparr>))"

text \<open>The constants of one handshake: the buffer capacity, the crates' functions and the PMK.\<close>

record sta_env =
  env_capacity :: nat
  env_mac :: mac_function
  env_expand :: expand_function
  env_pmk :: "u8 list"

definition build_transmit :: "sta_env \<Rightarrow> RsnStaSupplicant \<Rightarrow> RsnTransmit \<Rightarrow> (RsnStaReady, RsnStaSupplicantError) result" where
  "build_transmit env self transmit =
     (case build_sta_action_frame (env_capacity env) (sup_state self) transmit (sup_ies self) of
        Err e \<Rightarrow> Err (SupFrame e)
      | Ok frame \<Rightarrow>
          (case sup_ptk self of
             None \<Rightarrow> Err MissingPtk
           | Some ptk \<Rightarrow> Ok (ReadyTransmit (authenticate (env_mac env) frame ptk))))"

definition prepare_key_install ::
    "RsnStaSupplicant \<Rightarrow> RsnTicket \<Rightarrow> OwnedEapolFrame \<Rightarrow> u8 list option
     \<Rightarrow> (RsnStaReady, RsnStaSupplicantError) result \<times> RsnStaSupplicant" where
  "prepare_key_install self ticket frame plain_key_data =
     (let key = key_frame frame;
          plain = (case plain_key_data of Some plain \<Rightarrow> plain | None \<Rightarrow> key_data key)
      in case parse_gtk_key_data plain (ies_rsn_ie (sup_authenticator_ies self))
                (ies_rsnxe (sup_authenticator_ies self)) (sup_management_protection self) of
           Err error \<Rightarrow>
             (case sta_complete_key_install (sup_state self) ticket False of
                (Err e, state) \<Rightarrow> (Err (SupState e), self\<lparr>sup_state := state\<rparr>)
              | (Ok _, state) \<Rightarrow> (Err (SupFrame error), self\<lparr>sup_state := state\<rparr>))
         | Ok keys \<Rightarrow>
             (let retry = (sup_completed self \<noteq> None);
                  group = \<lparr>retry_ticket = ticket, retry_replay_counter = replay_counter key,
                    retry_encrypted = encrypted_key_data (key_info key), retry_plain_len = length plain,
                    retry_group = RsnKeyInstall_group StationInterface (group_gtk keys) (key_receive_sequence key),
                    retry_igtk = group_igtk keys\<rparr>;
                  self = self\<lparr>sup_completed := Some (RsnCompletedMessage3_capture key)\<rparr>
              in if retry then (Ok (ReadyRetryInstall group), self)
                 else case sup_ptk self of
                     None \<Rightarrow> (Err MissingPtk, self)
                   | Some ptk \<Rightarrow>
                       (Ok (ReadyInstallKeys \<lparr>request_pairwise = RsnKeyInstall_pairwise StationInterface
                              (sta_authenticator (sup_state self)) (replicate 8 0) ptk,
                            request_group = group\<rparr>), self)))"

definition resolve_message3 ::
    "RsnStaSupplicant \<Rightarrow> RsnStaAction \<Rightarrow> (RsnStaSupplicantAction, RsnStaSupplicantError) result \<times> RsnStaSupplicant" where
  "resolve_message3 self action =
     (case action of
        StaDecryptMessage3KeyData ticket frame \<Rightarrow>
          (case sup_ptk self of
             None \<Rightarrow> (Err MissingPtk, self)
           | Some ptk \<Rightarrow> (Ok (UnwrapKeyData \<lparr>data_ticket = ticket, data_frame = frame, data_kek = ptk_kek ptk\<rparr>), self))
      | StaInstallKeys ticket frame \<Rightarrow>
          (case prepare_key_install self ticket frame None of
             (Ok ready, self) \<Rightarrow> (Ok (Ready ready), self)
           | (Err e, self) \<Rightarrow> (Err e, self))
      | _ \<Rightarrow> (Err UnexpectedAction, self))"

text \<open>The check a completed handshake makes before a repeated Message 3 reaches the state machine.\<close>

definition repeated_message3_error :: "sta_env \<Rightarrow> RsnStaSupplicant \<Rightarrow> OwnedEapolFrame \<Rightarrow> RsnStaSupplicantError option" where
  "repeated_message3_error env self frame =
     (if sta_phase (sup_state self) = StaCompleted \<and> key_message (key_frame frame) = PairwiseMessage3
      then case sup_ptk self of
          None \<Rightarrow> Some MissingPtk
        | Some ptk \<Rightarrow>
            if \<not> verify_mic (env_mac env) (key_frame frame) ptk then Some InvalidMessage3Mic
            else (case sup_completed self of
                    Some completed \<Rightarrow>
                      if replay_counter (key_frame frame) = completed_replay completed
                         \<and> key_mic (key_frame frame) \<noteq> completed_mic completed
                      then Some (SupState UnexpectedMessage) else None
                  | None \<Rightarrow> None)
      else None)"

definition sup_resolve_action ::
    "sta_env \<Rightarrow> RsnStaSupplicant \<Rightarrow> RsnStaAction
     \<Rightarrow> (RsnStaSupplicantAction, RsnStaSupplicantError) result \<times> RsnStaSupplicant" where
  "sup_resolve_action env self action =
     (case action of
        StaNone \<Rightarrow> (Ok (Ready ReadyNone), self)
      | StaDerivePtk ticket ctx \<Rightarrow>
          (let self = self\<lparr>sup_completed := None,
                 sup_ptk := Some (derive_ptk (env_expand env) (env_pmk env) (sta_akm (sup_state self)) ctx)\<rparr>
           in case sta_complete_ptk (sup_state self) ticket True of
                (Err e, state) \<Rightarrow> (Err (SupState e), self\<lparr>sup_state := state\<rparr>)
              | (Ok (StaTransmit transmit), state) \<Rightarrow>
                  (let self = self\<lparr>sup_state := state\<rparr>
                   in case build_transmit env self transmit of
                        Err e \<Rightarrow> (Err e, self)
                      | Ok ready \<Rightarrow> (Ok (Ready ready), self))
              | (Ok _, state) \<Rightarrow> (Err UnexpectedAction, self\<lparr>sup_state := state\<rparr>))
      | StaTransmit transmit \<Rightarrow>
          (case build_transmit env self transmit of
             Err e \<Rightarrow> (Err e, self)
           | Ok ready \<Rightarrow> (Ok (Ready ready), self))
      | StaVerifyMessage3Mic ticket frame \<Rightarrow>
          (case sup_ptk self of
             None \<Rightarrow> (Err MissingPtk, self)
           | Some ptk \<Rightarrow>
               if \<not> verify_mic (env_mac env) (key_frame frame) ptk
               then case sta_complete_message3_mic (sup_state self) ticket frame False of
                   (Err e, state) \<Rightarrow> (Err (SupState e), self\<lparr>sup_state := state\<rparr>)
                 | (Ok _, state) \<Rightarrow> (Err InvalidMessage3Mic, self\<lparr>sup_state := state\<rparr>)
               else case sta_complete_message3_mic (sup_state self) ticket frame True of
                   (Err e, state) \<Rightarrow> (Err (SupState e), self\<lparr>sup_state := state\<rparr>)
                 | (Ok action, state) \<Rightarrow> resolve_message3 (self\<lparr>sup_state := state\<rparr>) action)
      | StaDeauthenticate \<Rightarrow> (Ok (Ready ReadyDeauthenticate), self)
      | _ \<Rightarrow> (Err UnexpectedAction, self))"

definition sup_on_frame ::
    "sta_env \<Rightarrow> RsnStaSupplicant \<Rightarrow> OwnedEapolFrame
     \<Rightarrow> (RsnStaSupplicantAction, RsnStaSupplicantError) result \<times> RsnStaSupplicant" where
  "sup_on_frame env self frame =
     (case repeated_message3_error env self frame of
        Some e \<Rightarrow> (Err e, self)
      | None \<Rightarrow>
          (case sta_on_frame (sup_state self) frame of
             (Err e, state) \<Rightarrow> (Err (SupState e), self\<lparr>sup_state := state\<rparr>)
           | (Ok action, state) \<Rightarrow> sup_resolve_action env (self\<lparr>sup_state := state\<rparr>) action))"

definition complete_key_data_unwrap ::
    "RsnStaSupplicant \<Rightarrow> RsnStaKeyDataRequest \<Rightarrow> (RsnUnwrappedKeyData, 'e) result
     \<Rightarrow> (RsnStaReady, 'e RsnStaProcessError) result \<times> RsnStaSupplicant" where
  "complete_key_data_unwrap self request unwrapped =
     (case unwrapped of
        Err error \<Rightarrow>
          (case sta_complete_key_data (sup_state self) (data_ticket request) (data_frame request) False of
             (Err e, state) \<Rightarrow> (Err (ProcessSupplicant (SupState e)), self\<lparr>sup_state := state\<rparr>)
           | (Ok _, state) \<Rightarrow> (Err (ProcessKeyUnwrap error), self\<lparr>sup_state := state\<rparr>))
      | Ok plain \<Rightarrow>
          (case sta_complete_key_data (sup_state self) (data_ticket request) (data_frame request) True of
             (Err e, state) \<Rightarrow> (Err (ProcessSupplicant (SupState e)), self\<lparr>sup_state := state\<rparr>)
           | (Ok (StaInstallKeys ticket frame), state) \<Rightarrow>
               (case prepare_key_install (self\<lparr>sup_state := state\<rparr>) ticket frame (Some (unwrapped_as_bytes plain)) of
                  (Ok ready, self) \<Rightarrow> (Ok ready, self)
                | (Err e, self) \<Rightarrow> (Err (ProcessSupplicant e), self))
           | (Ok _, state) \<Rightarrow> (Err (ProcessSupplicant UnexpectedAction), self\<lparr>sup_state := state\<rparr>)))"

definition complete_retry_install ::
    "sta_env \<Rightarrow> RsnStaSupplicant \<Rightarrow> RsnStaRetryInstall \<Rightarrow> bool
     \<Rightarrow> (RsnStaReady, RsnStaSupplicantError) result \<times> RsnStaSupplicant" where
  "complete_retry_install env self request installed =
     (case sta_complete_key_install (sup_state self) (retry_ticket request) installed of
        (Err e, state) \<Rightarrow> (Err (SupState e), self\<lparr>sup_state := state\<rparr>)
      | (Ok action, state) \<Rightarrow>
          (let self = self\<lparr>sup_state := state\<rparr>
           in case action of
                StaTransmit transmit \<Rightarrow> (build_transmit env self transmit, self)
              | StaDeauthenticate \<Rightarrow> (Ok ReadyDeauthenticate, self)
              | _ \<Rightarrow> (Err UnexpectedAction, self)))"

definition complete_key_install ::
    "sta_env \<Rightarrow> RsnStaSupplicant \<Rightarrow> RsnStaKeyInstallRequest \<Rightarrow> bool
     \<Rightarrow> (RsnStaReady, RsnStaSupplicantError) result \<times> RsnStaSupplicant" where
  "complete_key_install env self request installed =
     complete_retry_install env self (request_group request) installed"

end
