(* ===== verification/Rsn_Connected.thy ===== *)
theory Rsn_Connected
  imports Rsn_Supplicant
begin

text \<open>
  The supplicant of a connected association (\<open>RsnConnectedSupplicant\<close> of
  \<open>ieee80211/security/rsn/src/supplicant.rs\<close>): it authenticates repeated Messages 3 and group
  rekeys under the retained confirmation key and publishes group keys above its replay frontier.
  Its requests hold no pairwise key.
\<close>

datatype RsnConnectedSupplicantError =
    ConnWrongInterface | ConnWrongPeer | ProtocolVersionMismatch | ConnUnsupportedDescriptorVersion
  | ConnUnsupportedMessage | ConnAuthenticatorNonceMismatch | RetainedMessage3Mismatch
  | RetainedGroupMessage1Mismatch | ConnMissingEncryptedKeyData | InvalidMic | ConnStaleReplayCounter
  | ConnStaleCompletion | InstallFailed | ConnFrame RsnFrameError

datatype 'e RsnConnectedProcessError = ConnSupplicant RsnConnectedSupplicantError | ConnKeyUnwrap 'e

datatype RsnCompletedGroupMessage1 = RsnCompletedGroupMessage1 (group_mic: "u8 list")

definition group1_capture :: "EapolKeyFrame \<Rightarrow> RsnCompletedGroupMessage1" where
  "group1_capture frame = RsnCompletedGroupMessage1 (key_mic frame)"

definition group1_matches :: "RsnCompletedGroupMessage1 \<Rightarrow> EapolKeyFrame \<Rightarrow> bool" where
  "group1_matches self frame \<longleftrightarrow> group_mic self = key_mic frame"

datatype RsnCompletedKeyMessage =
    CompletedPairwise RsnCompletedMessage3
  | CompletedGroup RsnCompletedGroupMessage1

record RsnGroupKeyInstallRequest =
  install_replay_counter :: u64
  install_commitment :: RsnCompletedKeyMessage
  install_group :: RsnKeyInstall
  install_igtk :: "RsnIgtk option"
  install_response :: RsnTxFrame

record RsnGroupKeyDataRequest =
  group_frame :: OwnedEapolFrame
  group_kek :: "u8 list"

datatype RsnConnectedAction = UnwrapGroupKeyData RsnGroupKeyDataRequest | Retransmit RsnTxFrame

record RsnConnectedSupplicant =
  con_authenticator :: "u8 list"
  con_key_confirmation :: RsnKeyConfirmationKey
  con_key_encryption :: "u8 list"
  con_authenticator_ies :: OwnedAssociationSecurityIes
  con_completed_message3 :: RsnCompletedMessage3
  con_replay_counter :: u64
  con_completed_group1 :: "RsnCompletedGroupMessage1 option"
  con_management_protection :: bool

definition into_connected :: "RsnStaSupplicant \<Rightarrow> (RsnConnectedSupplicant, RsnStaSupplicantError) result" where
  "into_connected self =
     (case completed_replay_counter (sup_state self) of
        None \<Rightarrow> Err UnexpectedAction
      | Some replay \<Rightarrow>
          (case sup_ptk self of
             None \<Rightarrow> Err MissingPtk
           | Some ptk \<Rightarrow>
               (case sup_completed self of
                  None \<Rightarrow> Err UnexpectedAction
                | Some completed \<Rightarrow>
                    (let (confirmation, encryption) = into_connected_keys ptk
                     in Ok \<lparr>con_authenticator = sta_authenticator (sup_state self),
                            con_key_confirmation = confirmation, con_key_encryption = encryption,
                            con_authenticator_ies = sup_authenticator_ies self,
                            con_completed_message3 = completed, con_replay_counter = replay,
                            con_completed_group1 = None,
                            con_management_protection = sup_management_protection self\<rparr>))))"

definition validate_fields ::
    "RsnCompletedMessage3 \<Rightarrow> Akm \<Rightarrow> EapolKeyFrame \<Rightarrow> (unit, RsnConnectedSupplicantError) result" where
  "validate_fields self akm frame =
     (if protocol_version frame \<noteq> completed_version self then Err ProtocolVersionMismatch
      else if descriptor_version (key_info frame) \<noteq> key_descriptor_version akm
      then Err ConnUnsupportedDescriptorVersion
      else if key_message frame \<noteq> PairwiseMessage3 \<or> key_info_raw (key_info frame) \<noteq> completed_key_info self
      then Err ConnUnsupportedMessage
      else if key_nonce frame \<noteq> completed_anonce self then Err ConnAuthenticatorNonceMismatch
      else Ok ())"

definition request_group_unwrap ::
    "RsnConnectedSupplicant \<Rightarrow> OwnedEapolFrame \<Rightarrow> (RsnConnectedAction, RsnConnectedSupplicantError) result" where
  "request_group_unwrap self frame =
     (let key = key_frame frame
      in if \<not> encrypted_key_data (key_info key) \<or> key_data key = [] then Err ConnMissingEncryptedKeyData
         else Ok (UnwrapGroupKeyData \<lparr>group_frame = frame, group_kek = con_key_encryption self\<rparr>))"

definition con_on_message3 ::
    "nat \<Rightarrow> mac_function \<Rightarrow> RsnConnectedSupplicant \<Rightarrow> OwnedEapolFrame
     \<Rightarrow> (RsnConnectedAction, RsnConnectedSupplicantError) result" where
  "con_on_message3 N mac self frame =
     (if frame_interface frame \<noteq> StationInterface then Err ConnWrongInterface
      else if frame_peer frame \<noteq> con_authenticator self then Err ConnWrongPeer
      else
        let key = key_frame frame; akm = confirmation_akm (con_key_confirmation self)
        in case validate_fields (con_completed_message3 self) akm key of
             Err e \<Rightarrow> Err e
           | Ok _ \<Rightarrow>
               if \<not> verify_mic_with_confirmation_key mac key (con_key_confirmation self) then Err InvalidMic
               else if replay_counter key = completed_replay (con_completed_message3 self)
               then if key_mic key \<noteq> completed_mic (con_completed_message3 self) then Err RetainedMessage3Mismatch
                    else (case RsnTxFrame_message4 N akm (con_authenticator self) (replay_counter key) of
                            Err e \<Rightarrow> Err (ConnFrame e)
                          | Ok response \<Rightarrow> Ok (Retransmit (mark_retransmission
                              (authenticate_with_confirmation_key mac response (con_key_confirmation self)))))
               else if replay_counter key \<le> con_replay_counter self then Err ConnStaleReplayCounter
               else request_group_unwrap self frame)"

definition con_on_group_message1 ::
    "nat \<Rightarrow> mac_function \<Rightarrow> RsnConnectedSupplicant \<Rightarrow> OwnedEapolFrame
     \<Rightarrow> (RsnConnectedAction, RsnConnectedSupplicantError) result" where
  "con_on_group_message1 N mac self frame =
     (if frame_interface frame \<noteq> StationInterface then Err ConnWrongInterface
      else if frame_peer frame \<noteq> con_authenticator self then Err ConnWrongPeer
      else
        let key = key_frame frame; akm = confirmation_akm (con_key_confirmation self); replay = replay_counter key
        in if descriptor_version (key_info key) \<noteq> key_descriptor_version akm
           then Err ConnUnsupportedDescriptorVersion
           else if key_message key \<noteq> GroupMessage1 then Err ConnUnsupportedMessage
           else if replay < con_replay_counter self
             \<or> (replay = con_replay_counter self \<and> con_completed_group1 self = None)
           then Err ConnStaleReplayCounter
           else if \<not> verify_mic_with_confirmation_key mac key (con_key_confirmation self) then Err InvalidMic
           else case (if replay = con_replay_counter self then con_completed_group1 self else None) of
               Some completed \<Rightarrow>
                 if \<not> group1_matches completed key then Err RetainedGroupMessage1Mismatch
                 else (case RsnTxFrame_group_message2 N akm (con_authenticator self) replay of
                         Err e \<Rightarrow> Err (ConnFrame e)
                       | Ok response \<Rightarrow> Ok (Retransmit
                           (authenticate_with_confirmation_key mac response (con_key_confirmation self))))
             | None \<Rightarrow> request_group_unwrap self frame)"

text \<open>What a group installation takes from its message: the keys, the commitment and the response.\<close>

definition group_install_parts ::
    "nat \<Rightarrow> RsnConnectedSupplicant \<Rightarrow> EapolKeyFrame \<Rightarrow> u8 list
     \<Rightarrow> ((RsnGroupKeys, RsnFrameError) result \<times> RsnCompletedKeyMessage \<times> (RsnTxFrame, RsnFrameError) result) option" where
  "group_install_parts N self key plain =
     (let akm = confirmation_akm (con_key_confirmation self)
      in case key_message key of
           PairwiseMessage3 \<Rightarrow> Some
             (parse_gtk_key_data plain (ies_rsn_ie (con_authenticator_ies self))
                (ies_rsnxe (con_authenticator_ies self)) (con_management_protection self),
              CompletedPairwise (RsnCompletedMessage3_capture key),
              RsnTxFrame_message4 N akm (con_authenticator self) (replay_counter key))
         | GroupMessage1 \<Rightarrow> Some
             (parse_group_gtk_key_data plain (con_management_protection self),
              CompletedGroup (group1_capture key),
              RsnTxFrame_group_message2 N akm (con_authenticator self) (replay_counter key))
         | _ \<Rightarrow> None)"

definition prepare_group_key_install ::
    "nat \<Rightarrow> mac_function \<Rightarrow> RsnConnectedSupplicant \<Rightarrow> OwnedEapolFrame \<Rightarrow> (RsnUnwrappedKeyData, 'e) result
     \<Rightarrow> (RsnGroupKeyInstallRequest, 'e RsnConnectedProcessError) result" where
  "prepare_group_key_install N mac self frame unwrapped =
     (let key = key_frame frame
      in case unwrapped of
           Err e \<Rightarrow> Err (ConnKeyUnwrap e)
         | Ok plain \<Rightarrow>
             (case group_install_parts N self key (unwrapped_as_bytes plain) of
                None \<Rightarrow> Err (ConnSupplicant ConnUnsupportedMessage)
              | Some (Err e, _, _) \<Rightarrow> Err (ConnSupplicant (ConnFrame e))
              | Some (Ok keys, commitment, response) \<Rightarrow>
                  (case response of
                     Err e \<Rightarrow> Err (ConnSupplicant (ConnFrame e))
                   | Ok response \<Rightarrow>
                       Ok \<lparr>install_replay_counter = replay_counter key, install_commitment = commitment,
                           install_group = RsnKeyInstall_group StationInterface (group_gtk keys)
                             (key_receive_sequence key),
                           install_igtk = group_igtk keys,
                           install_response =
                             authenticate_with_confirmation_key mac response (con_key_confirmation self)\<rparr>)))"

definition complete_group_key_data_unwrap ::
    "nat \<Rightarrow> mac_function \<Rightarrow> RsnConnectedSupplicant \<Rightarrow> RsnGroupKeyDataRequest \<Rightarrow> (RsnUnwrappedKeyData, 'e) result
     \<Rightarrow> (RsnGroupKeyInstallRequest, 'e RsnConnectedProcessError) result" where
  "complete_group_key_data_unwrap N mac self request unwrapped =
     (if replay_counter (key_frame (group_frame request)) \<le> con_replay_counter self
      then Err (ConnSupplicant ConnStaleCompletion)
      else prepare_group_key_install N mac self (group_frame request) unwrapped)"

definition complete_group_key_install ::
    "RsnConnectedSupplicant \<Rightarrow> RsnGroupKeyInstallRequest \<Rightarrow> bool
     \<Rightarrow> (RsnTxFrame, RsnConnectedSupplicantError) result \<times> RsnConnectedSupplicant" where
  "complete_group_key_install self request installed =
     (if install_replay_counter request \<le> con_replay_counter self then (Err ConnStaleCompletion, self)
      else if \<not> installed then (Err InstallFailed, self)
      else
        (Ok (install_response request),
         case install_commitment request of
           CompletedPairwise completed \<Rightarrow>
             self\<lparr>con_replay_counter := install_replay_counter request, con_completed_message3 := completed,
                  con_completed_group1 := None\<rparr>
         | CompletedGroup completed \<Rightarrow>
             self\<lparr>con_replay_counter := install_replay_counter request,
                  con_completed_group1 := Some completed\<rparr>))"

end
