(* ===== verification/Rsn_Group_Run.thy ===== *)
theory Rsn_Group_Run
  imports Rsn_Connected
begin

text \<open>
  Runs of a connected association's supplicant.  Any frame may arrive at any time; the caller keeps
  every request it was handed and may complete each of them at any time and more than once, with any
  unwrap result and any installation outcome.  Group keys are published in the order of rising replay
  counters and only from frames that verified under the association's confirmation key.
\<close>

datatype con_op =
    ConMessage3 OwnedEapolFrame
  | ConGroupMessage1 OwnedEapolFrame
  | ConUnwrapped nat "(RsnUnwrappedKeyData, SoftwareAesKeyUnwrapError) result"
  | ConInstalled nat bool

record con_run =
  run_con :: RsnConnectedSupplicant
  run_requests :: "RsnGroupKeyDataRequest list"
  run_installs :: "RsnGroupKeyInstallRequest list"

definition take_action ::
    "con_run \<Rightarrow> (RsnConnectedAction, RsnConnectedSupplicantError) result \<Rightarrow> con_run" where
  "take_action run r = (case r of
      Ok (UnwrapGroupKeyData q) \<Rightarrow> run\<lparr>run_requests := run_requests run @ [q]\<rparr>
    | _ \<Rightarrow> run)"

fun con_step :: "nat \<Rightarrow> mac_function \<Rightarrow> con_run \<Rightarrow> con_op \<Rightarrow> RsnGroupKeyInstallRequest option \<times> con_run" where
  "con_step N mac run (ConMessage3 frame) = (None, take_action run (con_on_message3 N mac (run_con run) frame))"
| "con_step N mac run (ConGroupMessage1 frame) = (None, take_action run (con_on_group_message1 N mac (run_con run) frame))"
| "con_step N mac run (ConUnwrapped i unwrapped) =
     (if i < length (run_requests run)
      then case complete_group_key_data_unwrap N mac (run_con run) (run_requests run ! i) unwrapped of
          Ok q \<Rightarrow> (None, run\<lparr>run_installs := run_installs run @ [q]\<rparr>)
        | Err e \<Rightarrow> (None, run)
      else (None, run))"
| "con_step N mac run (ConInstalled i installed) =
     (if i < length (run_installs run)
      then case complete_group_key_install (run_con run) (run_installs run ! i) installed of
          (Ok response, con) \<Rightarrow> (Some (run_installs run ! i), run\<lparr>run_con := con\<rparr>)
        | (Err e, con) \<Rightarrow> (None, run\<lparr>run_con := con\<rparr>)
      else (None, run))"

text \<open>The installations that took effect, in order.\<close>

fun published :: "nat \<Rightarrow> mac_function \<Rightarrow> con_run \<Rightarrow> con_op list \<Rightarrow> RsnGroupKeyInstallRequest list" where
  "published N mac run [] = []"
| "published N mac run (op # ops) =
     (case con_step N mac run op of
        (None, run) \<Rightarrow> published N mac run ops
      | (Some q, run) \<Rightarrow> q # published N mac run ops)"

definition con_start :: "RsnConnectedSupplicant \<Rightarrow> con_run" where
  "con_start con = \<lparr>run_con = con, run_requests = [], run_installs = []\<rparr>"

subsection \<open>What requests rest on\<close>

text \<open>A frame of the association, authenticated by its confirmation key.\<close>

definition genuine :: "mac_function \<Rightarrow> RsnConnectedSupplicant \<Rightarrow> OwnedEapolFrame \<Rightarrow> bool" where
  "genuine mac con frame \<longleftrightarrow> frame_interface frame = StationInterface \<and> frame_peer frame = con_authenticator con
     \<and> key_message (key_frame frame) \<in> {PairwiseMessage3, GroupMessage1}
     \<and> verify_mic_with_confirmation_key mac (key_frame frame) (con_key_confirmation con)"

text \<open>An installation of the keys that key data of this frame carries.\<close>

definition parsed_keys :: "RsnConnectedSupplicant \<Rightarrow> EapolKeyMessage \<Rightarrow> u8 list \<Rightarrow> (RsnGroupKeys, RsnFrameError) result" where
  "parsed_keys con m plain =
     (if m = PairwiseMessage3
      then parse_gtk_key_data plain (ies_rsn_ie (con_authenticator_ies con)) (ies_rsnxe (con_authenticator_ies con))
        (con_management_protection con)
      else parse_group_gtk_key_data plain (con_management_protection con))"

definition from_frame :: "RsnConnectedSupplicant \<Rightarrow> OwnedEapolFrame \<Rightarrow> RsnGroupKeyInstallRequest \<Rightarrow> bool" where
  "from_frame con frame q \<longleftrightarrow> install_replay_counter q = replay_counter (key_frame frame)
     \<and> (\<exists>plain keys. parsed_keys con (key_message (key_frame frame)) plain = Ok keys
         \<and> install_group q = RsnKeyInstall_group StationInterface (group_gtk keys) (key_receive_sequence (key_frame frame))
         \<and> install_igtk q = group_igtk keys)"

definition con_frame :: "con_op \<Rightarrow> OwnedEapolFrame option" where
  "con_frame op = (case op of ConMessage3 frame \<Rightarrow> Some frame | ConGroupMessage1 frame \<Rightarrow> Some frame | _ \<Rightarrow> None)"

definition received :: "con_op list \<Rightarrow> OwnedEapolFrame set" where
  "received ops = {frame. \<exists>op \<in> set ops. con_frame op = Some frame}"

definition con_same :: "RsnConnectedSupplicant \<Rightarrow> RsnConnectedSupplicant \<Rightarrow> bool" where
  "con_same a b \<longleftrightarrow> con_authenticator a = con_authenticator b \<and> con_key_confirmation a = con_key_confirmation b
     \<and> con_authenticator_ies a = con_authenticator_ies b
     \<and> con_management_protection a = con_management_protection b"

definition con_ok :: "mac_function \<Rightarrow> RsnConnectedSupplicant \<Rightarrow> OwnedEapolFrame set \<Rightarrow> con_run \<Rightarrow> bool" where
  "con_ok mac con frames run \<longleftrightarrow> con_same (run_con run) con
     \<and> (\<forall>q \<in> set (run_requests run). group_frame q \<in> frames \<and> genuine mac con (group_frame q))
     \<and> (\<forall>q \<in> set (run_installs run). \<exists>frame \<in> frames. genuine mac con frame \<and> from_frame con frame q)"

lemma message3_request:
  assumes "con_on_message3 N mac con frame = Ok (UnwrapGroupKeyData q)"
  shows "group_frame q = frame" "genuine mac con frame"
  using assms by (auto simp: con_on_message3_def Let_def request_group_unwrap_def validate_fields_def genuine_def
      split: if_splits result.splits)

lemma group1_request:
  assumes "con_on_group_message1 N mac con frame = Ok (UnwrapGroupKeyData q)"
  shows "group_frame q = frame" "genuine mac con frame"
  using assms by (auto simp: con_on_group_message1_def Let_def request_group_unwrap_def genuine_def
      split: if_splits result.splits option.splits)

lemma install_parts_keys:
  assumes "group_install_parts N con key plain = Some (Ok keys, commitment, response)"
  shows "parsed_keys con (key_message key) plain = Ok keys"
  using assms by (auto simp: group_install_parts_def Let_def parsed_keys_def split: EapolKeyMessage.splits)

lemma unwrap_install:
  assumes "complete_group_key_data_unwrap N mac con request unwrapped = Ok q"
  shows "from_frame con (group_frame request) q"
proof -
  let ?key = "key_frame (group_frame request)"
  obtain plain keys commitment response
    where parts: "group_install_parts N con ?key (unwrapped_as_bytes plain) = Some (Ok keys, commitment, Ok response)"
    and q: "install_replay_counter q = replay_counter ?key" "install_igtk q = group_igtk keys"
      "install_group q = RsnKeyInstall_group StationInterface (group_gtk keys) (key_receive_sequence ?key)"
    using assms by (auto simp: complete_group_key_data_unwrap_def prepare_group_key_install_def Let_def
        split: if_splits result.splits option.splits)
  then show ?thesis using install_parts_keys [OF parts] unfolding from_frame_def by blast
qed

lemma install_effect:
  assumes "complete_group_key_install con q installed = (r, con')"
  shows "con_same con' con"
    and "r = Ok response \<Longrightarrow> con_replay_counter con < install_replay_counter q
      \<and> con_replay_counter con' = install_replay_counter q"
    and "r = Err e \<Longrightarrow> con' = con"
  using assms by (auto simp: complete_group_key_install_def con_same_def not_le
      split: if_splits RsnCompletedKeyMessage.splits)

lemma con_same_facts:
  assumes "con_same a b"
  shows "genuine mac a frame = genuine mac b frame" "from_frame a frame q = from_frame b frame q"
  using assms by (simp_all add: con_same_def genuine_def from_frame_def parsed_keys_def)

lemma con_same_trans: "con_same a b \<Longrightarrow> con_same b c \<Longrightarrow> con_same a c"
  by (simp add: con_same_def)

lemma con_ok_mono: "con_ok mac con frames run \<Longrightarrow> frames \<subseteq> frames' \<Longrightarrow> con_ok mac con frames' run"
  by (fastforce simp: con_ok_def)

text \<open>A step keeps the invariant; a step that publishes takes a request above the replay frontier and moves it.\<close>

lemma con_step_ok:
  assumes ok: "con_ok mac con frames run" and step: "con_step N mac run op = (out, run')"
    and frames: "\<forall>frame. con_frame op = Some frame \<longrightarrow> frame \<in> frames"
  shows "con_ok mac con frames run'"
    and "out = None \<Longrightarrow> con_replay_counter (run_con run') = con_replay_counter (run_con run)"
    and "out = Some q \<Longrightarrow> con_replay_counter (run_con run) < install_replay_counter q
      \<and> con_replay_counter (run_con run') = install_replay_counter q \<and> q \<in> set (run_installs run)"
proof -
  have same: "con_same (run_con run) con" using ok by (simp add: con_ok_def)
  have "con_ok mac con frames run' \<and> (out = None \<longrightarrow> con_replay_counter (run_con run') = con_replay_counter (run_con run))
    \<and> (\<forall>q. out = Some q \<longrightarrow> con_replay_counter (run_con run) < install_replay_counter q
      \<and> con_replay_counter (run_con run') = install_replay_counter q \<and> q \<in> set (run_installs run))"
  proof (cases op)
    case (ConMessage3 frame)
    have "frame \<in> frames" using frames ConMessage3 by (simp add: con_frame_def)
    then show ?thesis using ok step ConMessage3 message3_request [of N mac "run_con run" frame] con_same_facts(1) [OF same]
      by (auto simp: take_action_def con_ok_def split: result.splits RsnConnectedAction.splits)
  next
    case (ConGroupMessage1 frame)
    have "frame \<in> frames" using frames ConGroupMessage1 by (simp add: con_frame_def)
    then show ?thesis
      using ok step ConGroupMessage1 group1_request [of N mac "run_con run" frame] con_same_facts(1) [OF same]
      by (auto simp: take_action_def con_ok_def split: result.splits RsnConnectedAction.splits)
  next
    case (ConUnwrapped i unwrapped)
    have "\<exists>frame \<in> frames. genuine mac con frame \<and> from_frame con frame q"
      if "complete_group_key_data_unwrap N mac (run_con run) (run_requests run ! i) unwrapped = Ok q"
        "i < length (run_requests run)" for q
      using unwrap_install [OF that(1)] con_same_facts(2) [OF same] nth_mem [OF that(2)] ok
      by (auto simp: con_ok_def)
    then show ?thesis using ok step ConUnwrapped
      by (auto simp: con_ok_def split: if_splits result.splits)
  next
    case (ConInstalled i installed)
    show ?thesis
    proof (cases "i < length (run_installs run)")
      case True
      obtain r con' where call: "complete_group_key_install (run_con run) (run_installs run ! i) installed = (r, con')"
        by fastforce
      note effect = install_effect [OF call]
      have "con_same con' con" using effect(1) same con_same_trans by blast
      then show ?thesis using ok step ConInstalled True call effect(2,3)
        by (cases r) (auto simp: con_ok_def)
    qed (use ok step ConInstalled in simp)
  qed
  then show "con_ok mac con frames run'"
    "out = None \<Longrightarrow> con_replay_counter (run_con run') = con_replay_counter (run_con run)"
    "out = Some q \<Longrightarrow> con_replay_counter (run_con run) < install_replay_counter q
      \<and> con_replay_counter (run_con run') = install_replay_counter q \<and> q \<in> set (run_installs run)" by blast+
qed

lemma published_ok:
  assumes "con_ok mac con frames run" "received ops \<subseteq> frames"
  shows "sorted_wrt (<) (con_replay_counter (run_con run) # map install_replay_counter (published N mac run ops))
    \<and> (\<forall>q \<in> set (published N mac run ops). \<exists>frame \<in> frames. genuine mac con frame \<and> from_frame con frame q)"
  using assms
proof (induction ops arbitrary: run)
  case (Cons op ops)
  obtain out run' where step: "con_step N mac run op = (out, run')" by fastforce
  have sent: "\<forall>frame. con_frame op = Some frame \<longrightarrow> frame \<in> frames"
    using Cons.prems(2) by (auto simp: received_def)
  note next_ok = con_step_ok [OF Cons.prems(1) step sent]
  have IH: "sorted_wrt (<) (con_replay_counter (run_con run') # map install_replay_counter (published N mac run' ops))
    \<and> (\<forall>q \<in> set (published N mac run' ops). \<exists>frame \<in> frames. genuine mac con frame \<and> from_frame con frame q)"
    using Cons.IH [OF next_ok(1)] Cons.prems(2) by (auto simp: received_def)
  show ?case
  proof (cases out)
    case None
    then show ?thesis using IH step next_ok(2) by simp
  next
    case (Some q)
    have "\<exists>frame \<in> frames. genuine mac con frame \<and> from_frame con frame q"
      using next_ok(3) [OF Some] Cons.prems(1) by (simp add: con_ok_def)
    then show ?thesis using IH step Some next_ok(3) [OF Some] by (auto intro: less_trans)
  qed
qed simp


end
