(* ===== verification/Rsn_Sta_Run.thy ===== *)
theory Rsn_Sta_Run
  imports Rsn_Supplicant
begin

text \<open>
  Whole handshakes of the station.  The caller feeds frames, answers the one outstanding key-data
  unwrap and the one outstanding installation, and takes the supplicant's effects.  Any frame may
  arrive at any time, forged and replayed ones included.  The theory shows when the supplicant hands
  out keys: only for a Message 3 whose MIC verified under the pairwise key of this very exchange, and
  the pairwise key only once per accepted Message 1.
\<close>

subsection \<open>Steps of the state machine\<close>

text \<open>The parts of a station state that name the exchange.\<close>

definition same_identity :: "RsnStaState \<Rightarrow> RsnStaState \<Rightarrow> bool" where
  "same_identity a b \<longleftrightarrow> sta_akm a = sta_akm b \<and> sta_local a = sta_local b
     \<and> sta_authenticator a = sta_authenticator b \<and> sta_snonce a = sta_snonce b"

lemma same_identity_refl [simp]: "same_identity a a"
  by (simp add: same_identity_def)

text \<open>The phases in which a request of the caller is outstanding.\<close>

definition awaiting_caller :: "RsnStaPhase \<Rightarrow> bool" where
  "awaiting_caller phase \<longleftrightarrow> phase \<in> {StaDecryptingKeyData, StaInstallingKeys}"

text \<open>A frame is ignored, starts a key derivation, or has its MIC checked.\<close>

lemma sta_on_frame_cases:
  assumes "sta_on_frame st frame = (r, st')"
  obtains (idle) "st' = st" "r = Ok StaNone \<or> (\<exists>t. r = Ok (StaTransmit t)) \<or> (\<exists>e. r = Err e)"
    | (derive) ticket where "key_message (key_frame frame) = PairwiseMessage1"
        "r = Ok (StaDerivePtk ticket (sta_ptk_context st'))"
        "same_identity st' st" "sta_phase st' = StaDerivingPtk" "sta_active_ticket st' = ticket"
        "sta_anonce st' = key_nonce (key_frame frame)" "sta_message1_replay st' = replay_counter (key_frame frame)"
        "sta_phase st = StaCompleted \<longrightarrow> sta_message3_replay st < replay_counter (key_frame frame)"
        "\<not> awaiting_caller (sta_phase st)"
    | (verify) ticket where "key_message (key_frame frame) = PairwiseMessage3"
        "r = Ok (StaVerifyMessage3Mic ticket frame)" "sta_validate_frame st frame = Ok ()"
        "validate_message3_fields st frame = Ok ()"
        "same_identity st' st" "sta_anonce st' = sta_anonce st" "sta_phase st' = StaVerifyingMessage3"
        "sta_active_ticket st' = ticket" "sta_message3_replay st' = replay_counter (key_frame frame)"
        "sta_message1_replay st' = sta_message1_replay st"
        "sta_phase st = StaAwaitingMessage3 \<and> sta_message1_replay st < replay_counter (key_frame frame)
         \<or> sta_phase st = StaCompleted \<and> sta_message3_replay st < replay_counter (key_frame frame)"
proof -
  consider (refused) "\<exists>e. (r, st') = (Err e, st)"
    | (one) "key_message (key_frame frame) = PairwiseMessage1" "sta_on_message1 st frame = (r, st')"
    | (three) "key_message (key_frame frame) = PairwiseMessage3" "sta_on_message3 st frame = (r, st')"
        "sta_validate_frame st frame = Ok ()"
    using assms by (auto simp: sta_on_frame_def split: result.splits if_splits EapolKeyMessage.splits)
  then show thesis
  proof cases
    case refused
    then show ?thesis using idle by auto
  next
    case one
    have "(st' = st \<and> (r = Ok StaNone \<or> (\<exists>t. r = Ok (StaTransmit t)) \<or> (\<exists>e. r = Err e)))
      \<or> (sta_phase st = StaCompleted \<longrightarrow> sta_message3_replay st < replay_counter (key_frame frame))
        \<and> \<not> awaiting_caller (sta_phase st) \<and> start_ptk st (replay_counter (key_frame frame)) (key_nonce (key_frame frame)) = (r, st')"
      using one(2) by (auto simp: sta_on_message1_def Let_def not_le awaiting_caller_def
          split: RsnStaPhase.splits if_splits)
    then show ?thesis
      using idle one(1) by (auto simp: start_ptk_def Let_def sta_issue_ticket_def same_identity_def
          sta_ptk_context_def intro: derive)
  next
    case three
    have "(st' = st \<and> (r = Ok StaNone \<or> (\<exists>t. r = Ok (StaTransmit t)) \<or> (\<exists>e. r = Err e)))
      \<or> validate_message3_fields st frame = Ok () \<and> sta_verify_message3 st frame = (r, st')
        \<and> (sta_phase st = StaAwaitingMessage3 \<and> sta_message1_replay st < replay_counter (key_frame frame)
           \<or> sta_phase st = StaCompleted \<and> sta_message3_replay st < replay_counter (key_frame frame))"
      using three(2) by (auto simp: sta_on_message3_def Let_def not_le not_less
          split: RsnStaPhase.splits if_splits result.splits)
    then show ?thesis
      using idle three by (auto simp: sta_verify_message3_def Let_def sta_issue_ticket_def same_identity_def
          intro: verify)
  qed
qed

lemma message3_encrypted:
  assumes "validate_message3_fields st frame = Ok ()"
  shows "encrypted_key_data (key_info (key_frame frame))" "key_data (key_frame frame) \<noteq> []"
    "key_nonce (key_frame frame) = sta_anonce st"
proof -
  have "bit (pairwise_message3_key_info (sta_akm st)) 12"
    by (cases "sta_akm st") (simp_all add: pairwise_message3_key_info_def bit_simps)
  moreover have "key_info_raw (key_info (key_frame frame)) = pairwise_message3_key_info (sta_akm st)"
    using assms by (auto simp: validate_message3_fields_def Let_def split: if_splits)
  ultimately show "encrypted_key_data (key_info (key_frame frame))"
    by (cases "key_info (key_frame frame)") (simp add: info_flag_iff)
  show "key_data (key_frame frame) \<noteq> []" "key_nonce (key_frame frame) = sta_anonce st"
    using assms by (auto simp: validate_message3_fields_def Let_def split: if_splits)
qed

text \<open>The retained frame passes its validation again while the exchange is the same.\<close>

lemma retained_valid:
  assumes "sta_validate_frame st frame = Ok ()" "validate_message3_fields st frame = Ok ()"
    and "same_identity st' st" "sta_anonce st' = sta_anonce st"
    and "key_message (key_frame frame) = PairwiseMessage3" "sta_message3_replay st' = replay_counter (key_frame frame)"
  shows "validate_retained_message3 st' frame = Ok ()"
  using assms by (simp add: validate_retained_message3_def sta_validate_frame_def validate_message3_fields_def
      same_identity_def Let_def split: if_splits)

subsection \<open>Steps of the supplicant\<close>

definition exchange_ptk :: "sta_env \<Rightarrow> RsnStaState \<Rightarrow> Ptk" where
  "exchange_ptk env st = derive_ptk (env_expand env) (env_pmk env) (sta_akm st) (sta_ptk_context st)"

definition keyed :: "RsnStaPhase \<Rightarrow> bool" where
  "keyed phase \<longleftrightarrow> phase \<in> {StaAwaitingMessage3, StaDecryptingKeyData, StaInstallingKeys, StaCompleted}"

text \<open>Between calls the pairwise key in the supplicant is the one of the exchange its state names.\<close>

definition sup_ok :: "sta_env \<Rightarrow> RsnStaSupplicant \<Rightarrow> bool" where
  "sup_ok env own \<longleftrightarrow> (keyed (sta_phase (sup_state own)) \<or> sta_phase (sup_state own) \<in> {StaAwaitingMessage1, StaFailed})
     \<and> (keyed (sta_phase (sup_state own)) \<longrightarrow> sup_ptk own = Some (exchange_ptk env (sup_state own)))"

lemma exchange_ptk_cong:
  "same_identity a b \<Longrightarrow> sta_anonce a = sta_anonce b \<Longrightarrow> exchange_ptk env a = exchange_ptk env b"
  by (simp add: exchange_ptk_def sta_ptk_context_def same_identity_def)

text \<open>The request of an accepted Message 3.\<close>

definition request_ok :: "sta_env \<Rightarrow> RsnStaSupplicant \<Rightarrow> RsnStaKeyDataRequest \<Rightarrow> bool" where
  "request_ok env own q \<longleftrightarrow> sta_phase (sup_state own) = StaDecryptingKeyData
     \<and> sta_active_ticket (sup_state own) = data_ticket q
     \<and> validate_retained_message3 (sup_state own) (data_frame q) = Ok ()
     \<and> verify_mic (env_mac env) (key_frame (data_frame q)) (exchange_ptk env (sup_state own))
     \<and> data_kek q = ptk_kek (exchange_ptk env (sup_state own))"

text \<open>The effects that hand out no key.\<close>

definition keyless :: "('a, 'e) result \<Rightarrow> ('a \<Rightarrow> bool) \<Rightarrow> bool" where
  "keyless r harmless \<longleftrightarrow> (case r of Ok a \<Rightarrow> harmless a | Err e \<Rightarrow> True)"

definition plain_ready :: "RsnStaReady \<Rightarrow> bool" where
  "plain_ready ready \<longleftrightarrow> (case ready of ReadyInstallKeys _ \<Rightarrow> False | ReadyRetryInstall _ \<Rightarrow> False | _ \<Rightarrow> True)"

definition plain_action :: "RsnStaSupplicantAction \<Rightarrow> bool" where
  "plain_action action \<longleftrightarrow> (case action of Ready ready \<Rightarrow> plain_ready ready | UnwrapKeyData _ \<Rightarrow> False)"

lemma plain_ready_simps [simp]:
  "plain_ready ReadyNone" "plain_ready (ReadyTransmit f)" "plain_ready ReadyDeauthenticate"
  "\<not> plain_ready (ReadyInstallKeys q)" "\<not> plain_ready (ReadyRetryInstall p)"
  by (simp_all add: plain_ready_def)

lemma build_transmit_plain: "build_transmit env own t = Ok ready \<Longrightarrow> plain_ready ready"
  by (auto simp: build_transmit_def split: result.splits option.splits)

lemma sup_on_frame_cases:
  assumes ok: "sup_ok env own" and call: "sup_on_frame env own frame = (r, own')"
  obtains (idle) "own' = own" "keyless r plain_action"
    | (derived) "key_message (key_frame frame) = PairwiseMessage1" "keyless r plain_action"
        "sta_phase (sup_state own') = StaAwaitingMessage3" "same_identity (sup_state own') (sup_state own)"
        "sup_ok env own'" "sup_completed own' = None"
        "sta_phase (sup_state own) = StaCompleted \<longrightarrow>
           sta_message3_replay (sup_state own) < replay_counter (key_frame frame)"
        "\<not> awaiting_caller (sta_phase (sup_state own))"
    | (refused) "sta_phase (sup_state own) = StaAwaitingMessage3" "keyless r plain_action"
        "sta_phase (sup_state own') = StaAwaitingMessage3" "same_identity (sup_state own') (sup_state own)"
        "sup_ok env own'" "sup_completed own' = sup_completed own"
    | (accepted) q where "key_message (key_frame frame) = PairwiseMessage3" "r = Ok (UnwrapKeyData q)"
        "data_frame q = frame" "request_ok env own' q" "same_identity (sup_state own') (sup_state own)"
        "sup_ok env own'" "sup_completed own' = sup_completed own"
        "sta_message1_replay (sup_state own') = sta_message1_replay (sup_state own)"
        "sta_phase (sup_state own) = StaAwaitingMessage3 \<and>
           sta_message1_replay (sup_state own) < replay_counter (key_frame frame)
         \<or> sta_phase (sup_state own) = StaCompleted \<and>
           sta_message3_replay (sup_state own) < replay_counter (key_frame frame)"
proof (cases "repeated_message3_error env own frame")
  case (Some e)
  then show ?thesis using call by (intro idle) (auto simp: sup_on_frame_def keyless_def)
next
  case None
  obtain r1 st1 where frame: "sta_on_frame (sup_state own) frame = (r1, st1)" by fastforce
  then show ?thesis
  proof (cases rule: sta_on_frame_cases)
    case inner: idle
    have same: "own\<lparr>sup_state := st1\<rparr> = own" using inner(1) by simp
    have "own' = own \<and> keyless r plain_action"
      using inner(2) call None
      by (auto simp: sup_on_frame_def frame same sup_resolve_action_def keyless_def plain_action_def
          dest: build_transmit_plain split: result.splits)
    then show ?thesis using idle by blast
  next
    case inner: (derive ticket)
    let ?sup1 = "own\<lparr>sup_state := st1\<lparr>sta_phase := StaAwaitingMessage3\<rparr>, sup_completed := None,
      sup_ptk := Some (exchange_ptk env st1)\<rparr>"
    have derived_ptk: "sta_complete_ptk st1 ticket True = (Ok (StaTransmit \<lparr>transmit_message = TxMessage2,
        transmit_replay = sta_message1_replay st1, transmit_retransmission = False\<rparr>),
        st1\<lparr>sta_phase := StaAwaitingMessage3\<rparr>)"
      using inner by (simp add: sta_complete_ptk_def sta_check_completion_def)
    have own': "own' = ?sup1" "keyless r plain_action"
      using call None inner
      by (auto simp: sup_on_frame_def frame sup_resolve_action_def derived_ptk keyless_def plain_action_def
          exchange_ptk_def Let_def dest: build_transmit_plain split: result.splits)
    have "sup_ok env ?sup1"
      using exchange_ptk_cong [of "st1\<lparr>sta_phase := StaAwaitingMessage3\<rparr>" st1 env]
      by (simp add: sup_ok_def keyed_def same_identity_def)
    with inner own' show ?thesis
      by (intro derived) (simp_all add: same_identity_def)
  next
    case inner: (verify ticket)
    have "keyed (sta_phase (sup_state own))" using inner by (auto simp: keyed_def)
    then have ptk: "sup_ptk own = Some (exchange_ptk env (sup_state own))" using ok by (simp add: sup_ok_def)
    have st1: "exchange_ptk env st1 = exchange_ptk env (sup_state own)"
      using inner by (intro exchange_ptk_cong) simp_all
    have retained: "validate_retained_message3 st1 frame = Ok ()"
      using inner by (intro retained_valid [of "sup_state own"]) simp_all
    have check: "sta_check_completion st1 ticket StaVerifyingMessage3 = Ok ()"
      using inner by (simp add: sta_check_completion_def)
    show ?thesis
    proof (cases "verify_mic (env_mac env) (key_frame frame) (exchange_ptk env (sup_state own))")
      case False
      have waiting: "sta_phase (sup_state own) = StaAwaitingMessage3"
        using None False ptk inner by (auto simp: repeated_message3_error_def)
      let ?st2 = "st1\<lparr>sta_message3_replay := 0, sta_phase := StaAwaitingMessage3\<rparr>"
      have own': "own' = own\<lparr>sup_state := ?st2\<rparr>" "r = Err InvalidMessage3Mic"
        using call None inner False ptk
        by (simp_all add: sup_on_frame_def frame sup_resolve_action_def sta_complete_message3_mic_def check retained)
      have "sup_ok env own'" "same_identity ?st2 (sup_state own)"
        using exchange_ptk_cong [of ?st2 st1 env] ptk inner
        by (simp_all add: own' sup_ok_def keyed_def same_identity_def st1)
      with waiting own' show ?thesis by (intro refused) (simp_all add: keyless_def)
    next
      case True
      note enc = message3_encrypted [OF inner(4)]
      let ?t = "RsnTicket (sta_next_ticket st1)"
      let ?st2 = "st1\<lparr>sta_phase := StaDecryptingKeyData, sta_next_ticket := ticket_after (sta_next_ticket st1),
        sta_active_ticket := ?t\<rparr>"
      let ?q = "\<lparr>data_ticket = ?t, data_frame = frame, data_kek = ptk_kek (exchange_ptk env (sup_state own))\<rparr>"
      have own': "own' = own\<lparr>sup_state := ?st2\<rparr>" "r = Ok (UnwrapKeyData ?q)"
        using call None inner True ptk enc
        by (simp_all add: sup_on_frame_def frame sup_resolve_action_def sta_complete_message3_mic_def check
            retained sta_issue_ticket_def Let_def resolve_message3_def)
      have same: "exchange_ptk env ?st2 = exchange_ptk env (sup_state own)" "same_identity ?st2 (sup_state own)"
        using exchange_ptk_cong [of ?st2 st1 env] st1 inner by (simp_all add: same_identity_def)
      have "validate_retained_message3 ?st2 frame = Ok ()"
        using inner by (intro retained_valid [of "sup_state own"]) (simp_all add: same_identity_def)
      then have "request_ok env own' ?q" using True same by (simp add: request_ok_def own')
      moreover have "sup_ok env own'" using same ptk by (simp add: own' sup_ok_def keyed_def)
      ultimately show ?thesis using inner own' same by (intro accepted [of ?q]) simp_all
    qed
  qed
qed

text \<open>What a handed-out group installation rests on.\<close>

definition group_grounded :: "sta_env \<Rightarrow> RsnStaSupplicant \<Rightarrow> OwnedEapolFrame \<Rightarrow> u8 list \<Rightarrow> RsnStaRetryInstall \<Rightarrow> bool" where
  "group_grounded env own frame plain p \<longleftrightarrow>
     verify_mic (env_mac env) (key_frame frame) (exchange_ptk env (sup_state own))
     \<and> validate_retained_message3 (sup_state own) frame = Ok ()
     \<and> retry_replay_counter p = replay_counter (key_frame frame)
     \<and> (\<exists>keys. parse_gtk_key_data plain (ies_rsn_ie (sup_authenticator_ies own))
            (ies_rsnxe (sup_authenticator_ies own)) (sup_management_protection own) = Ok keys
          \<and> retry_group p = RsnKeyInstall_group StationInterface (group_gtk keys) (key_receive_sequence (key_frame frame))
          \<and> retry_igtk p = group_igtk keys)"

text \<open>The installation outstanding.\<close>

definition install_ok :: "RsnStaSupplicant \<Rightarrow> RsnStaRetryInstall \<Rightarrow> bool" where
  "install_ok own p \<longleftrightarrow> sta_phase (sup_state own) = StaInstallingKeys \<and> sta_active_ticket (sup_state own) = retry_ticket p"

lemma unwrap_cases:
  assumes ok: "sup_ok env own" and req: "request_ok env own q"
    and call: "complete_key_data_unwrap own q unwrapped = (r, own')"
  obtains (failed) "keyless r plain_ready" "sta_phase (sup_state own') = StaFailed" "sup_ok env own'"
      "same_identity (sup_state own') (sup_state own)" "sup_completed own' = sup_completed own"
    | (install) plain i where "unwrapped = Ok plain" "r = Ok (ReadyInstallKeys i)" "sup_completed own = None"
        "sup_completed own' \<noteq> None" "install_ok own' (request_group i)" "sup_ok env own'"
        "same_identity (sup_state own') (sup_state own)"
        "group_grounded env own (data_frame q) (unwrapped_as_bytes plain) (request_group i)"
        "request_pairwise i = RsnKeyInstall_pairwise StationInterface (sta_authenticator (sup_state own))
           (replicate 8 0) (exchange_ptk env (sup_state own))"
    | (retry) plain p where "unwrapped = Ok plain" "r = Ok (ReadyRetryInstall p)" "sup_completed own \<noteq> None"
        "sup_completed own' \<noteq> None" "install_ok own' p" "sup_ok env own'"
        "same_identity (sup_state own') (sup_state own)"
        "group_grounded env own (data_frame q) (unwrapped_as_bytes plain) p"
proof -
  let ?st = "sup_state own"
  let ?frame = "data_frame q"
  note q = req [unfolded request_ok_def]
  have check: "sta_check_completion ?st (data_ticket q) StaDecryptingKeyData = Ok ()"
    using q by (simp add: sta_check_completion_def)
  have ptk: "sup_ptk own = Some (exchange_ptk env ?st)" using ok q by (simp add: sup_ok_def keyed_def)
  have fail_ok: "sup_ok env (own\<lparr>sup_state := st\<lparr>sta_phase := StaFailed\<rparr>\<rparr>)" for st
    by (simp add: sup_ok_def keyed_def)
  show thesis
  proof (cases unwrapped)
    case (Err e)
    have "own' = own\<lparr>sup_state := ?st\<lparr>sta_phase := StaFailed\<rparr>\<rparr>" "r = Err (ProcessKeyUnwrap e)"
      using call q by (simp_all add: Err complete_key_data_unwrap_def sta_complete_key_data_def check)
    then show ?thesis using fail_ok [of ?st] by (intro failed) (simp_all add: keyless_def same_identity_def)
  next
    case (Ok plain)
    let ?t = "RsnTicket (sta_next_ticket ?st)"
    let ?st2 = "?st\<lparr>sta_phase := StaInstallingKeys, sta_next_ticket := ticket_after (sta_next_ticket ?st),
      sta_active_ticket := ?t\<rparr>"
    let ?own2 = "own\<lparr>sup_state := ?st2\<rparr>"
    have run: "(r, own') = (case prepare_key_install ?own2 ?t ?frame (Some (unwrapped_as_bytes plain)) of
        (Ok ready, own) \<Rightarrow> (Ok ready, own) | (Err e, own) \<Rightarrow> (Err (ProcessSupplicant e), own))"
      using call q by (simp add: Ok complete_key_data_unwrap_def sta_complete_key_data_def check sta_issue_ticket_def
          Let_def)
    have st2: "exchange_ptk env ?st2 = exchange_ptk env ?st" "same_identity ?st2 ?st"
      using exchange_ptk_cong [of ?st2 ?st env] by (simp_all add: same_identity_def)
    have check2: "sta_check_completion ?st2 ?t StaInstallingKeys = Ok ()" by (simp add: sta_check_completion_def)
    let ?parse = "parse_gtk_key_data (unwrapped_as_bytes plain) (ies_rsn_ie (sup_authenticator_ies own))
      (ies_rsnxe (sup_authenticator_ies own)) (sup_management_protection own)"
    show ?thesis
    proof (cases ?parse)
      case inner: (Err e)
      have "own' = own\<lparr>sup_state := ?st2\<lparr>sta_phase := StaFailed\<rparr>\<rparr>" "r = Err (ProcessSupplicant (SupFrame e))"
        using run by (simp_all add: prepare_key_install_def inner sta_complete_key_install_def check2)
      then show ?thesis using fail_ok [of ?st2] by (intro failed) (simp_all add: keyless_def same_identity_def)
    next
      case inner: (Ok keys)
      let ?p = "\<lparr>retry_ticket = ?t, retry_replay_counter = replay_counter (key_frame ?frame),
        retry_encrypted = encrypted_key_data (key_info (key_frame ?frame)),
        retry_plain_len = length (unwrapped_as_bytes plain),
        retry_group = RsnKeyInstall_group StationInterface (group_gtk keys) (key_receive_sequence (key_frame ?frame)),
        retry_igtk = group_igtk keys\<rparr>"
      let ?own3 = "?own2\<lparr>sup_completed := Some (RsnCompletedMessage3_capture (key_frame ?frame))\<rparr>"
      have ok3: "sup_ok env ?own3" using ptk st2 by (simp add: sup_ok_def keyed_def)
      have grounded: "group_grounded env own ?frame (unwrapped_as_bytes plain) ?p"
        using q inner by (simp add: group_grounded_def)
      have inst: "install_ok ?own3 ?p" by (simp add: install_ok_def)
      show ?thesis
      proof (cases "sup_completed own = None")
        case True
        let ?i = "\<lparr>request_pairwise = RsnKeyInstall_pairwise StationInterface (sta_authenticator ?st)
          (replicate 8 0) (exchange_ptk env ?st), request_group = ?p\<rparr>"
        have "own' = ?own3" "r = Ok (ReadyInstallKeys ?i)"
          using run by (simp_all add: prepare_key_install_def inner Let_def True ptk)
        then show ?thesis using True ok3 st2 grounded inst by (intro install [OF Ok, of ?i]) simp_all
      next
        case False
        then have "own' = ?own3" "r = Ok (ReadyRetryInstall ?p)"
          using run by (simp_all add: prepare_key_install_def inner Let_def)
        then show ?thesis using False ok3 st2 grounded inst by (intro retry [OF Ok, of ?p]) simp_all
      qed
    qed
  qed
qed

lemma install_cases:
  assumes "sup_ok env own" "install_ok own p" "complete_retry_install env own p installed = (r, own')"
  shows "sup_ok env own'" "same_identity (sup_state own') (sup_state own)" "sup_completed own' = sup_completed own"
    "keyless r plain_ready" "sta_phase (sup_state own') = (if installed then StaCompleted else StaFailed)"
    "sta_message1_replay (sup_state own') = sta_message1_replay (sup_state own)"
    "sta_message3_replay (sup_state own') = sta_message3_replay (sup_state own)"
proof -
  let ?st = "sup_state own"
  have check: "sta_check_completion ?st (retry_ticket p) StaInstallingKeys = Ok ()"
    using assms(2) by (simp add: install_ok_def sta_check_completion_def)
  have ptk: "sup_ptk own = Some (exchange_ptk env ?st)"
    using assms(1,2) by (simp add: sup_ok_def keyed_def install_ok_def)
  have own': "own' = own\<lparr>sup_state := ?st\<lparr>sta_phase := (if installed then StaCompleted else StaFailed)\<rparr>\<rparr>"
    and r: "keyless r plain_ready"
    using assms(3) by (auto simp: complete_retry_install_def sta_complete_key_install_def check Let_def keyless_def
        dest: build_transmit_plain split: if_splits result.splits)
  show "keyless r plain_ready" by (rule r)
  have "exchange_ptk env (?st\<lparr>sta_phase := StaCompleted\<rparr>) = exchange_ptk env ?st"
    by (intro exchange_ptk_cong) (simp_all add: same_identity_def)
  then show "sup_ok env own'" using ptk by (simp add: own' sup_ok_def keyed_def)
  show "same_identity (sup_state own') ?st" "sup_completed own' = sup_completed own"
    "sta_phase (sup_state own') = (if installed then StaCompleted else StaFailed)"
    "sta_message1_replay (sup_state own') = sta_message1_replay ?st"
    "sta_message3_replay (sup_state own') = sta_message3_replay ?st"
    by (simp_all add: own' same_identity_def)
qed

subsection \<open>Runs\<close>

datatype sup_op =
    FrameOp OwnedEapolFrame
  | UnwrapOp "(RsnUnwrappedKeyData, SoftwareAesKeyUnwrapError) result"
  | InstallOp bool

record sup_run =
  run_own :: RsnStaSupplicant
  run_unwrap :: "RsnStaKeyDataRequest option"
  run_install :: "RsnStaRetryInstall option"

text \<open>The caller keeps the installation it was handed until it reports its outcome.\<close>

definition take_ready :: "sup_run \<Rightarrow> RsnStaReady \<Rightarrow> RsnStaReady option \<times> sup_run" where
  "take_ready run ready =
     (Some ready, case ready of
        ReadyInstallKeys i \<Rightarrow> run\<lparr>run_install := Some (request_group i)\<rparr>
      | ReadyRetryInstall p \<Rightarrow> run\<lparr>run_install := Some p\<rparr>
      | _ \<Rightarrow> run)"

fun sup_step :: "sta_env \<Rightarrow> sup_run \<Rightarrow> sup_op \<Rightarrow> RsnStaReady option \<times> sup_run" where
  "sup_step env run (FrameOp frame) =
     (case sup_on_frame env (run_own run) frame of
        (Ok (Ready ready), own) \<Rightarrow> take_ready (run\<lparr>run_own := own\<rparr>) ready
      | (Ok (UnwrapKeyData q), own) \<Rightarrow> (None, run\<lparr>run_own := own, run_unwrap := Some q\<rparr>)
      | (Err e, own) \<Rightarrow> (None, run\<lparr>run_own := own\<rparr>))"
| "sup_step env run (UnwrapOp unwrapped) =
     (case run_unwrap run of
        None \<Rightarrow> (None, run)
      | Some q \<Rightarrow>
          (case complete_key_data_unwrap (run_own run) q unwrapped of
             (Ok ready, own) \<Rightarrow> take_ready (run\<lparr>run_own := own, run_unwrap := None\<rparr>) ready
           | (Err e, own) \<Rightarrow> (None, run\<lparr>run_own := own, run_unwrap := None\<rparr>)))"
| "sup_step env run (InstallOp installed) =
     (case run_install run of
        None \<Rightarrow> (None, run)
      | Some p \<Rightarrow>
          (case complete_retry_install env (run_own run) p installed of
             (Ok ready, own) \<Rightarrow> take_ready (run\<lparr>run_own := own, run_install := None\<rparr>) ready
           | (Err e, own) \<Rightarrow> (None, run\<lparr>run_own := own, run_install := None\<rparr>)))"

fun sup_outputs :: "sta_env \<Rightarrow> sup_run \<Rightarrow> sup_op list \<Rightarrow> RsnStaReady option list" where
  "sup_outputs env run [] = []"
| "sup_outputs env run (op # ops) = fst (sup_step env run op) # sup_outputs env (snd (sup_step env run op)) ops"

definition sup_after :: "sta_env \<Rightarrow> sup_run \<Rightarrow> sup_op list \<Rightarrow> sup_run" where
  "sup_after env run ops = foldl (\<lambda>run op. snd (sup_step env run op)) run ops"

definition run_ok :: "sta_env \<Rightarrow> sup_run \<Rightarrow> bool" where
  "run_ok env run \<longleftrightarrow> sup_ok env (run_own run)
     \<and> (\<forall>q. run_unwrap run = Some q \<longrightarrow> request_ok env (run_own run) q)
     \<and> (\<forall>p. run_install run = Some p \<longrightarrow> install_ok (run_own run) p)"

lemma outstanding_phase:
  "run_ok env run \<Longrightarrow> run_unwrap run = Some q \<Longrightarrow> sta_phase (sup_state (run_own run)) = StaDecryptingKeyData"
  "run_ok env run \<Longrightarrow> run_install run = Some p \<Longrightarrow> sta_phase (sup_state (run_own run)) = StaInstallingKeys"
  by (simp_all add: run_ok_def request_ok_def install_ok_def)

lemma none_outstanding:
  assumes "run_ok env run" "\<not> awaiting_caller (sta_phase (sup_state (run_own run)))"
  shows "run_unwrap run = None" "run_install run = None"
  using assms(2) outstanding_phase [OF assms(1)]
  by (cases "run_unwrap run"; cases "run_install run"; simp add: awaiting_caller_def)+

text \<open>Every step keeps the invariant, and the peers and nonces of the station.\<close>

lemma sup_step_ok:
  assumes ok: "run_ok env run" and step: "sup_step env run op = (out, run')"
  shows "run_ok env run' \<and> same_identity (sup_state (run_own run')) (sup_state (run_own run))"
proof (cases op)
  case (FrameOp frame)
  obtain r own' where call: "sup_on_frame env (run_own run) frame = (r, own')" by fastforce
  have own: "sup_ok env (run_own run)" using ok by (simp add: run_ok_def)
  from own call show ?thesis
  proof (cases rule: sup_on_frame_cases)
    case idle
    then show ?thesis using ok step call FrameOp
      by (auto simp: keyless_def plain_action_def take_ready_def split: result.splits
          RsnStaSupplicantAction.splits RsnStaReady.splits)
  next
    case derived
    then show ?thesis using step call FrameOp none_outstanding [OF ok]
      by (auto simp: run_ok_def keyless_def plain_action_def take_ready_def split: result.splits
          RsnStaSupplicantAction.splits RsnStaReady.splits)
  next
    case refused
    then show ?thesis using step call FrameOp none_outstanding [OF ok]
      by (auto simp: run_ok_def awaiting_caller_def keyless_def plain_action_def take_ready_def
          split: result.splits RsnStaSupplicantAction.splits RsnStaReady.splits)
  next
    case (accepted q)
    then show ?thesis using step call FrameOp none_outstanding [OF ok]
      by (auto simp: run_ok_def awaiting_caller_def)
  qed
next
  case (UnwrapOp unwrapped)
  show ?thesis
  proof (cases "run_unwrap run")
    case (Some q)
    obtain r own' where call: "complete_key_data_unwrap (run_own run) q unwrapped = (r, own')" by fastforce
    have own: "sup_ok env (run_own run)" "request_ok env (run_own run) q" using ok Some by (simp_all add: run_ok_def)
    have inst: "run_install run = None" using outstanding_phase [OF ok] Some by (cases "run_install run") auto
    from own call show ?thesis
      by (cases rule: unwrap_cases)
        (use step UnwrapOp Some call inst in \<open>auto simp: run_ok_def keyless_def take_ready_def
          split: result.splits RsnStaReady.splits\<close>)
  qed (use step UnwrapOp ok in simp)
next
  case (InstallOp installed)
  show ?thesis
  proof (cases "run_install run")
    case (Some p)
    obtain r own' where call: "complete_retry_install env (run_own run) p installed = (r, own')" by fastforce
    have own: "sup_ok env (run_own run)" "install_ok (run_own run) p" using ok Some by (simp_all add: run_ok_def)
    have unwrap: "run_unwrap run = None" using outstanding_phase [OF ok] Some by (cases "run_unwrap run") auto
    show ?thesis using install_cases [OF own call] step InstallOp Some call unwrap
      by (auto simp: run_ok_def keyless_def take_ready_def split: result.splits RsnStaReady.splits)
  qed (use step InstallOp ok in simp)
qed

subsection \<open>The pairwise key is handed out once\<close>

definition is_message1 :: "sup_op \<Rightarrow> bool" where
  "is_message1 op \<longleftrightarrow> (case op of FrameOp frame \<Rightarrow> key_message (key_frame frame) = PairwiseMessage1 | _ \<Rightarrow> False)"

definition installs_pairwise :: "RsnStaReady option \<Rightarrow> bool" where
  "installs_pairwise out \<longleftrightarrow> (case out of Some (ReadyInstallKeys _) \<Rightarrow> True | _ \<Rightarrow> False)"

lemma sup_step_completed:
  assumes ok: "run_ok env run" and step: "sup_step env run op = (out, run')"
  shows "installs_pairwise out \<Longrightarrow> sup_completed (run_own run) = None \<and> sup_completed (run_own run') \<noteq> None"
    and "sup_completed (run_own run) \<noteq> None \<Longrightarrow> \<not> is_message1 op \<Longrightarrow> sup_completed (run_own run') \<noteq> None"
proof -
  have "(installs_pairwise out \<longrightarrow> sup_completed (run_own run) = None \<and> sup_completed (run_own run') \<noteq> None)
    \<and> (sup_completed (run_own run) \<noteq> None \<longrightarrow> \<not> is_message1 op \<longrightarrow> sup_completed (run_own run') \<noteq> None)"
  proof (cases op)
    case (FrameOp frame)
    obtain r own' where call: "sup_on_frame env (run_own run) frame = (r, own')" by fastforce
    have own: "sup_ok env (run_own run)" using ok by (simp add: run_ok_def)
    from own call show ?thesis
      by (cases rule: sup_on_frame_cases)
        (use step call FrameOp in \<open>auto simp: keyless_def plain_action_def take_ready_def installs_pairwise_def
          is_message1_def split: result.splits RsnStaSupplicantAction.splits RsnStaReady.splits\<close>)
  next
    case (UnwrapOp unwrapped)
    show ?thesis
    proof (cases "run_unwrap run")
      case (Some q)
      obtain r own' where call: "complete_key_data_unwrap (run_own run) q unwrapped = (r, own')" by fastforce
      have own: "sup_ok env (run_own run)" "request_ok env (run_own run) q" using ok Some by (simp_all add: run_ok_def)
      from own call show ?thesis
        by (cases rule: unwrap_cases)
          (use step UnwrapOp Some call in \<open>auto simp: keyless_def take_ready_def installs_pairwise_def
            split: result.splits RsnStaReady.splits\<close>)
    qed (use step UnwrapOp in \<open>simp add: installs_pairwise_def\<close>)
  next
    case (InstallOp installed)
    show ?thesis
    proof (cases "run_install run")
      case (Some p)
      obtain r own' where call: "complete_retry_install env (run_own run) p installed = (r, own')" by fastforce
      have own: "sup_ok env (run_own run)" "install_ok (run_own run) p" using ok Some by (simp_all add: run_ok_def)
      show ?thesis using install_cases(3,4) [OF own call] step InstallOp Some call
        by (auto simp: keyless_def take_ready_def installs_pairwise_def split: result.splits RsnStaReady.splits)
    qed (use step InstallOp in \<open>simp add: installs_pairwise_def\<close>)
  qed
  then show "installs_pairwise out \<Longrightarrow> sup_completed (run_own run) = None \<and> sup_completed (run_own run') \<noteq> None"
    "sup_completed (run_own run) \<noteq> None \<Longrightarrow> \<not> is_message1 op \<Longrightarrow> sup_completed (run_own run') \<noteq> None" by blast+
qed

lemma no_second_install:
  assumes "run_ok env run" "sup_completed (run_own run) \<noteq> None" "\<not> list_ex is_message1 ops"
  shows "\<not> list_ex installs_pairwise (sup_outputs env run ops)"
  using assms
proof (induction ops arbitrary: run)
  case (Cons op ops)
  obtain out run' where step: "sup_step env run op = (out, run')" by fastforce
  note keep = sup_step_completed [OF Cons.prems(1) step] and ok = sup_step_ok [OF Cons.prems(1) step]
  have "\<not> installs_pairwise out" "sup_completed (run_own run') \<noteq> None" using keep Cons.prems by auto
  with Cons.IH [of run'] ok Cons.prems(3) step show ?case by simp
qed simp

definition sup_start :: "RsnStaSupplicant \<Rightarrow> sup_run" where
  "sup_start own = \<lparr>run_own = own, run_unwrap = None, run_install = None\<rparr>"

definition fresh_supplicant :: "RsnStaSupplicant \<Rightarrow> bool" where
  "fresh_supplicant own \<longleftrightarrow> (\<exists>addr peer snonce ies rsn rsnxe.
     RsnStaSupplicant_try_new addr peer snonce ies rsn rsnxe = Ok own)"

lemma try_new_state:
  assumes "RsnStaSupplicant_try_new addr peer snonce ies rsn rsnxe = Ok own"
  shows "\<exists>akm. RsnStaState_new akm addr peer snonce = Ok (sup_state own)" "sup_completed own = None"
  using assms by (auto simp: RsnStaSupplicant_try_new_def split: result.splits)

lemma fresh_run_ok:
  assumes "fresh_supplicant own"
  shows "run_ok env (sup_start own)"
proof -
  obtain addr peer snonce ies rsn rsnxe
    where new: "RsnStaSupplicant_try_new addr peer snonce ies rsn rsnxe = Ok own"
    using assms unfolding fresh_supplicant_def by blast
  obtain akm where "RsnStaState_new akm addr peer snonce = Ok (sup_state own)" using try_new_state(1) [OF new] by blast
  then have "sta_phase (sup_state own) = StaAwaitingMessage1"
    by (simp add: RsnStaState_new_def split: if_splits) (drule sym, simp)
  then show ?thesis by (simp add: run_ok_def sup_start_def sup_ok_def keyed_def)
qed

lemma sup_outputs_append:
  "sup_outputs env run (xs @ ys) = sup_outputs env run xs @ sup_outputs env (sup_after env run xs) ys"
  by (induction xs arbitrary: run) (simp_all add: sup_after_def)

interpretation supplicant: invariant_machine "run_ok env" "\<lambda>run op. snd (sup_step env run op)" for env
  by unfold_locales (use sup_step_ok [OF _ surjective_pairing] in blast)

lemma sup_after_ok: "run_ok env run \<Longrightarrow> run_ok env (sup_after env run ops)"
  unfolding sup_after_def by (rule supplicant.run_inv)

subsection \<open>Handed-out keys are authenticated\<close>

text \<open>What the supplicant was told at its creation and never changes.\<close>

definition same_setup :: "RsnStaSupplicant \<Rightarrow> RsnStaSupplicant \<Rightarrow> bool" where
  "same_setup a b \<longleftrightarrow> same_identity (sup_state a) (sup_state b)
     \<and> sup_authenticator_ies a = sup_authenticator_ies b
     \<and> sup_management_protection a = sup_management_protection b"

lemma prepare_keeps_elements:
  "prepare_key_install own ticket frame plain = (r, own') \<Longrightarrow>
     sup_authenticator_ies own' = sup_authenticator_ies own
     \<and> sup_management_protection own' = sup_management_protection own"
  by (auto simp: prepare_key_install_def Let_def split: result.splits prod.splits if_splits option.splits)

lemma resolve_message3_keeps_elements:
  "resolve_message3 own action = (r, own') \<Longrightarrow>
     sup_authenticator_ies own' = sup_authenticator_ies own
     \<and> sup_management_protection own' = sup_management_protection own"
  by (auto simp: resolve_message3_def split: result.splits prod.splits option.splits RsnStaAction.splits
      dest: prepare_keeps_elements)

lemma resolve_action_keeps_elements:
  "sup_resolve_action env own action = (r, own') \<Longrightarrow>
     sup_authenticator_ies own' = sup_authenticator_ies own
     \<and> sup_management_protection own' = sup_management_protection own"
  by (auto simp: sup_resolve_action_def Let_def split: result.splits prod.splits option.splits RsnStaAction.splits
      if_splits dest: resolve_message3_keeps_elements)

lemma on_frame_keeps_elements:
  "sup_on_frame env own frame = (r, own') \<Longrightarrow>
     sup_authenticator_ies own' = sup_authenticator_ies own
     \<and> sup_management_protection own' = sup_management_protection own"
  by (auto simp: sup_on_frame_def split: result.splits prod.splits option.splits
      dest: resolve_action_keeps_elements)

lemma unwrap_keeps_elements:
  "complete_key_data_unwrap own q unwrapped = (r, own') \<Longrightarrow>
     sup_authenticator_ies own' = sup_authenticator_ies own
     \<and> sup_management_protection own' = sup_management_protection own"
  by (auto simp: complete_key_data_unwrap_def split: result.splits prod.splits RsnStaAction.splits
      dest: prepare_keeps_elements)

lemma install_keeps_elements:
  "complete_retry_install env own p installed = (r, own') \<Longrightarrow>
     sup_authenticator_ies own' = sup_authenticator_ies own
     \<and> sup_management_protection own' = sup_management_protection own"
  by (auto simp: complete_retry_install_def Let_def split: result.splits prod.splits RsnStaAction.splits)

lemma take_ready_own [simp]: "run_own (snd (take_ready run ready)) = run_own run"
  "run_unwrap (snd (take_ready run ready)) = run_unwrap run"
  "fst (take_ready run ready) = Some ready"
  by (cases ready; simp add: take_ready_def)+

lemma sup_step_own:
  "run_own (snd (sup_step env run op)) =
     (case op of
        FrameOp frame \<Rightarrow> snd (sup_on_frame env (run_own run) frame)
      | UnwrapOp unwrapped \<Rightarrow> (case run_unwrap run of None \<Rightarrow> run_own run
          | Some q \<Rightarrow> snd (complete_key_data_unwrap (run_own run) q unwrapped))
      | InstallOp installed \<Rightarrow> (case run_install run of None \<Rightarrow> run_own run
          | Some p \<Rightarrow> snd (complete_retry_install env (run_own run) p installed)))"
  by (cases op) (simp_all split: prod.split result.split RsnStaSupplicantAction.split option.split)

lemma sup_step_setup:
  assumes "run_ok env run"
  shows "same_setup (run_own (snd (sup_step env run op))) (run_own run)"
proof -
  have "sup_authenticator_ies (run_own (snd (sup_step env run op))) = sup_authenticator_ies (run_own run)
     \<and> sup_management_protection (run_own (snd (sup_step env run op))) = sup_management_protection (run_own run)"
    by (simp add: sup_step_own on_frame_keeps_elements [OF surjective_pairing]
        unwrap_keeps_elements [OF surjective_pairing] install_keeps_elements [OF surjective_pairing]
        split: sup_op.split option.split)
  then show ?thesis
    using sup_step_ok [OF assms surjective_pairing] by (simp add: same_setup_def)
qed

lemma same_setup_trans: "same_setup a b \<Longrightarrow> same_setup b c \<Longrightarrow> same_setup a c"
  by (simp add: same_setup_def same_identity_def)

lemma sup_after_setup:
  "run_ok env run \<Longrightarrow> same_setup (run_own (sup_after env run ops)) (run_own run)"
proof (induction ops rule: rev_induct)
  case (snoc op ops)
  then show ?case
    using sup_step_setup [OF sup_after_ok [of env run ops], of op]
    by (simp add: sup_after_def) (rule same_setup_trans)
qed (simp add: sup_after_def same_setup_def)

text \<open>An unwrap request outstanding belongs to a frame received before.\<close>

lemma sup_step_unwrap:
  assumes "run_ok env run" "run_unwrap (snd (sup_step env run op)) = Some q"
  shows "run_unwrap run = Some q \<or> op = FrameOp (data_frame q)"
proof (cases op)
  case (FrameOp frame)
  obtain r own' where call: "sup_on_frame env (run_own run) frame = (r, own')" by fastforce
  have own: "sup_ok env (run_own run)" using assms(1) by (simp add: run_ok_def)
  from own call show ?thesis
    by (cases rule: sup_on_frame_cases)
      (use assms(2) call FrameOp in \<open>auto simp: keyless_def plain_action_def
        split: result.splits RsnStaSupplicantAction.splits\<close>)
qed (use assms(2) in \<open>simp_all split: option.splits prod.splits result.splits\<close>)

lemma sup_after_unwrap:
  "run_ok env run \<Longrightarrow> run_unwrap run = None \<Longrightarrow> run_unwrap (sup_after env run ops) = Some q
     \<Longrightarrow> FrameOp (data_frame q) \<in> set ops"
proof (induction ops rule: rev_induct)
  case (snoc op ops)
  then show ?case
    using sup_step_unwrap [OF sup_after_ok [of env run ops], of op q] by (auto simp: sup_after_def)
qed (simp add: sup_after_def)

lemma sup_outputs_length [simp]: "length (sup_outputs env run ops) = length ops"
  by (induction ops arbitrary: run) simp_all

lemma sup_outputs_nth:
  "i < length ops \<Longrightarrow> sup_outputs env run ops ! i = fst (sup_step env (sup_after env run (take i ops)) (ops ! i))"
proof (induction ops arbitrary: run i)
  case (Cons op ops)
  then show ?case by (cases i) (simp_all add: sup_after_def)
qed simp

lemma sup_step_install:
  assumes ok: "run_ok env run" and out: "fst (sup_step env run op) = Some (ReadyInstallKeys i)"
  obtains q plain where "run_unwrap run = Some q" "op = UnwrapOp (Ok plain)" "request_ok env (run_own run) q"
    "group_grounded env (run_own run) (data_frame q) (unwrapped_as_bytes plain) (request_group i)"
    "request_pairwise i = RsnKeyInstall_pairwise StationInterface (sta_authenticator (sup_state (run_own run)))
       (replicate 8 0) (exchange_ptk env (sup_state (run_own run)))"
proof (cases op)
  case (FrameOp frame)
  obtain r own' where call: "sup_on_frame env (run_own run) frame = (r, own')" by fastforce
  have own: "sup_ok env (run_own run)" using ok by (simp add: run_ok_def)
  from own call have False
    by (cases rule: sup_on_frame_cases)
      (use out call FrameOp in \<open>auto simp: keyless_def plain_action_def
        split: result.splits RsnStaSupplicantAction.splits\<close>)
  then show ?thesis ..
next
  case (UnwrapOp unwrapped)
  then obtain q where q: "run_unwrap run = Some q" using out by (cases "run_unwrap run") simp_all
  obtain r own' where call: "complete_key_data_unwrap (run_own run) q unwrapped = (r, own')" by fastforce
  have own: "sup_ok env (run_own run)" "request_ok env (run_own run) q" using ok q by (simp_all add: run_ok_def)
  from own call show ?thesis
    by (cases rule: unwrap_cases)
      (use out UnwrapOp q call own that in \<open>auto simp: keyless_def split: result.splits\<close>)
next
  case (InstallOp installed)
  then obtain p where p: "run_install run = Some p" using out by (cases "run_install run") simp_all
  obtain r own' where call: "complete_retry_install env (run_own run) p installed = (r, own')" by fastforce
  have own: "sup_ok env (run_own run)" "install_ok (run_own run) p" using ok p by (simp_all add: run_ok_def)
  show ?thesis using install_cases(4) [OF own call] out InstallOp p call
    by (auto simp: keyless_def split: result.splits)
qed

text \<open>The pairwise key of the exchange a frame's nonce names, with the station's own nonce.\<close>

definition frame_ptk :: "sta_env \<Rightarrow> RsnStaSupplicant \<Rightarrow> OwnedEapolFrame \<Rightarrow> Ptk" where
  "frame_ptk env own frame = derive_ptk (env_expand env) (env_pmk env) (sta_akm (sup_state own))
     \<lparr>authenticator_address = sta_authenticator (sup_state own), supplicant_address = sta_local (sup_state own),
      context_anonce = key_nonce (key_frame frame), context_snonce = sta_snonce (sup_state own)\<rparr>"

lemma retained_facts:
  assumes "validate_retained_message3 st frame = Ok ()"
  shows "key_message (key_frame frame) = PairwiseMessage3" "frame_peer frame = sta_authenticator st"
    "key_nonce (key_frame frame) = sta_anonce st"
  using assms by (auto simp: validate_retained_message3_def sta_validate_frame_def validate_message3_fields_def Let_def
      split: if_splits result.splits)

lemma exchange_is_frame_ptk:
  assumes "validate_retained_message3 (sup_state own') frame = Ok ()" "same_setup own' own"
  shows "exchange_ptk env (sup_state own') = frame_ptk env own frame"
  using assms(2) retained_facts(3) [OF assms(1)]
  by (simp add: exchange_ptk_def frame_ptk_def sta_ptk_context_def same_setup_def same_identity_def)

end
