(* ===== verification/Rsn_Handshake.thy ===== *)
theory Rsn_Handshake
  imports Rsn_Sta_Run
begin

text \<open>
  The handshake between a station and an access point that hold the same PMK, over a network that
  delivers: both sides derive the same pairwise key, and the station ends up with the access point's
  group keys.
\<close>

subsection \<open>The elements kept at creation\<close>

lemma take_write_at_0: "take (length src) (write_at 0 src body) = src"
  by (simp add: write_at_def)

lemma rsn_ie_copied:
  assumes "OwnedRsnIe_try_copy N bytes = Ok ie"
  shows "rsn_ie_as_bytes ie = bytes" "rsn_element_ok bytes"
  using assms by (auto simp: OwnedRsnIe_try_copy_def rsn_ie_as_bytes_def rsn_element_ok_def element_ok_def
      take_write_at_0 split: if_splits)

lemma ies_copied:
  assumes "OwnedRsnIe_try_copy M rsn = Ok ie" "Ies_try_copy N ie rsnxe = Ok ies"
  shows "ies_rsn_ie ies = rsn" "ies_rsnxe ies = rsnxe" "rsn_element_ok rsn" "rsnxe_ok rsnxe"
    "ies_as_bytes ies = rsn @ rsnxe"
proof -
  note rsn = rsn_ie_copied [OF assms(1)]
  show "rsn_element_ok rsn" by (rule rsn)
  show "rsnxe_ok rsnxe" using assms(2)
    by (auto simp: Ies_try_copy_def rsnxe_ok_def element_ok_def split: if_splits)
  have fits: "length rsn + length rsnxe \<le> N"
    and ies: "ies = \<lparr>ies_len = length rsn + length rsnxe,
      ies_bytes = write_at (length rsn) rsnxe (write_at 0 rsn (replicate N 0))\<rparr>"
    using assms(2) by (auto simp: Ies_try_copy_def rsn Let_def split: if_splits)
  have bytes: "ies_bytes ies = rsn @ rsnxe @ replicate (N - length rsn - length rsnxe) 0"
    using fits by (simp add: ies write_at_def)
  have "unat (ies_bytes ies ! 1) + 2 = length rsn" "ies_len ies = length rsn + length rsnxe"
    using rsn(2) by (auto simp: bytes nth_append rsn_element_ok_def element_ok_def) (simp add: ies)
  then show "ies_rsn_ie ies = rsn" "ies_rsnxe ies = rsnxe" "ies_as_bytes ies = rsn @ rsnxe"
    unfolding ies_rsn_ie_def ies_rsnxe_def ies_as_bytes_def by (simp_all add: bytes)
qed

lemma fresh_station:
  assumes "fresh_supplicant own"
  obtains "sta_phase (sup_state own) = StaAwaitingMessage1" "sup_completed own = None"
    "rsn_element_ok (ies_rsn_ie (sup_authenticator_ies own))" "rsnxe_ok (ies_rsnxe (sup_authenticator_ies own))"
    "length (ies_as_bytes (sup_ies own)) \<le> 128"
proof -
  obtain addr peer snonce ies rsn rsnxe
    where new: "RsnStaSupplicant_try_new addr peer snonce ies rsn rsnxe = Ok own"
    using assms unfolding fresh_supplicant_def by blast
  obtain akm where akm: "RsnStaState_new akm addr peer snonce = Ok (sup_state own)"
    using try_new_state(1) [OF new] by blast
  have "length (ies_as_bytes (sup_ies own)) \<le> 128"
    using new by (auto simp: RsnStaSupplicant_try_new_def Ies_try_copy_bytes_def Ies_try_copy_def Let_def
        ies_as_bytes_def RSN_ASSOC_SECURITY_IES_CAPACITY_def split: result.splits option.splits if_splits)
  moreover obtain ie where "OwnedRsnIe_try_copy RSN_IE_CAPACITY rsn = Ok ie"
    "Ies_try_copy RSN_ASSOC_SECURITY_IES_CAPACITY ie rsnxe = Ok (sup_authenticator_ies own)"
    using new by (auto simp: RsnStaSupplicant_try_new_def split: result.splits option.splits)
  note ies = ies_copied [OF this]
  moreover have "sta_phase (sup_state own) = StaAwaitingMessage1"
    using akm by (simp add: RsnStaState_new_def split: if_splits) (drule sym, simp)
  ultimately show thesis using that try_new_state(2) [OF new] ies by simp
qed

subsection \<open>Frames on the air\<close>

lemma built_unauthenticated:
  assumes "RsnTxFrame_build N interface peer version info keylen replay nonce key_rsc data = Ok f"
    and "length nonce = 32" "length key_rsc = 8"
  shows "tx_as_bytes f = tx_as_bytes (authenticate_with_kck (\<lambda>_ _ _. replicate 16 0) f akm kck)"
  using build_octets [OF assms] authenticated_octets [OF assms, of "\<lambda>_ _ _. replicate 16 0" akm kck] assms(2,3)
  by (simp add: tx_as_bytes_def length_key_octets)

text \<open>What the receiver reads in a copied packet is what its builder wrote.\<close>

lemma received_fields:
  fixes mac :: mac_function and g :: OwnedEapolFrame
  assumes "RsnTxFrame_build N interface peer version (message_info m OR ucast (key_descriptor_version akm))
      keylen replay nonce key_rsc data = Ok f"
    and "length nonce = 32" "length key_rsc = 8" and mac: "\<And>akm kck bytes. length (mac akm kck bytes) = 16"
    and "OwnedEapolFrame_try_copy M side from (tx_as_bytes (authenticate_with_kck mac f akm kck)) = Ok g"
  shows "frame_interface g = side" "frame_peer g = from"
    "key_info (key_frame g) = EapolKeyInfo (message_info m OR ucast (key_descriptor_version akm))"
    "key_message (key_frame g) = m" "descriptor_version (key_info (key_frame g)) = key_descriptor_version akm"
    "key_length (key_frame g) = keylen" "replay_counter (key_frame g) = replay" "key_nonce (key_frame g) = nonce"
    "key_receive_sequence (key_frame g) = key_rsc" "key_iv (key_frame g) = replicate 16 0"
    "key_identifier (key_frame g) = replicate 8 0" "key_data (key_frame g) = data"
    "verify_mic_with_kck mac (key_frame g) akm kck"
proof -
  note copied = try_copy_view [OF assms(5)]
  note read = tx_read_back [OF assms(1-3) mac, where akm = akm and kck = kck]
  have k: "key_frame g = tx_key_frame (authenticate_with_kck mac f akm kck)"
    using copied(1) read(1) by simp
  show "frame_interface g = side" "frame_peer g = from" using copied by simp_all
  show "key_info (key_frame g) = EapolKeyInfo (message_info m OR ucast (key_descriptor_version akm))"
    unfolding k by (rule read)
  then show "key_message (key_frame g) = m" "descriptor_version (key_info (key_frame g)) = key_descriptor_version akm"
    by (simp_all only: key_message_def classify_message_info version_message_info)
  show "key_length (key_frame g) = keylen" "replay_counter (key_frame g) = replay" "key_nonce (key_frame g) = nonce"
    "key_receive_sequence (key_frame g) = key_rsc" "key_iv (key_frame g) = replicate 16 0"
    "key_identifier (key_frame g) = replicate 8 0" "key_data (key_frame g) = data"
    "verify_mic_with_kck mac (key_frame g) akm kck"
    unfolding k by (rule read)+
qed

lemma message3_info: "message_info PairwiseMessage3 OR ucast (key_descriptor_version akm) = pairwise_message3_key_info akm"
  unfolding message_info_def pairwise_message3_key_info_def key_info_bits by (cases akm) simp_all

lemma reply_built:
  assumes "\<not> bit info 7" "99 + length data \<le> N" "length data \<le> 65440"
  shows "\<exists>f. RsnTxFrame_build N interface peer version info keylen replay nonce key_rsc data = Ok f"
proof -
  have "\<not> bit (info AND (KEY_INFO_PAIRWISE OR KEY_INFO_ACK)) 7" "bit (KEY_INFO_PAIRWISE OR KEY_INFO_ACK) 7"
    using assms(1) by (simp_all add: bit_simps key_info_bit)
  then have "info AND (KEY_INFO_PAIRWISE OR KEY_INFO_ACK) \<noteq> (KEY_INFO_PAIRWISE OR KEY_INFO_ACK)" by metis
  then show ?thesis using assms(2,3) by (simp add: RsnTxFrame_build_def Let_def eapol_lengths)
qed

text \<open>A frame of the station with the fields the access point checks.\<close>

definition answers :: "sta_env \<Rightarrow> Ptk \<Rightarrow> EapolKeyMessage \<Rightarrow> u64 \<Rightarrow> u8 list \<Rightarrow> u8 list \<Rightarrow> RsnTxFrame \<Rightarrow> bool" where
  "answers env ptk m replay nonce data tx \<longleftrightarrow>
     EapolKeyFrame_parse (tx_as_bytes tx) = Ok (tx_key_frame tx) \<and> key_message (tx_key_frame tx) = m
     \<and> descriptor_version (key_info (tx_key_frame tx)) = key_descriptor_version (ptk_akm ptk)
     \<and> replay_counter (tx_key_frame tx) = replay \<and> key_nonce (tx_key_frame tx) = nonce
     \<and> key_data (tx_key_frame tx) = data \<and> verify_mic (env_mac env) (tx_key_frame tx) ptk"

lemma answer_built:
  assumes "RsnTxFrame_build N interface peer version (message_info m OR ucast (key_descriptor_version (ptk_akm ptk)))
      keylen replay nonce key_rsc data = Ok f"
    and "length nonce = 32" "length key_rsc = 8"
    and "\<And>akm kck bytes. length (env_mac env akm kck bytes) = 16"
  shows "answers env ptk m replay nonce data (authenticate (env_mac env) (f\<lparr>tx_retransmission := r\<rparr>) ptk)"
proof -
  note read = tx_read_back [OF assms, where akm = "ptk_akm ptk" and kck = "ptk_kck ptk"]
  let ?tx = "authenticate (env_mac env) (f\<lparr>tx_retransmission := r\<rparr>) ptk"
  have same: "tx_as_bytes ?tx = tx_as_bytes (authenticate_with_kck (env_mac env) f (ptk_akm ptk) (ptk_kck ptk))"
    by (simp add: authenticate_def authenticate_with_kck_def set_mic_def tx_as_bytes_def Let_def)
  then have "tx_key_frame ?tx = tx_key_frame (authenticate_with_kck (env_mac env) f (ptk_akm ptk) (ptk_kck ptk))"
    by (simp add: tx_key_frame_def)
  with read same show ?thesis
    by (simp add: answers_def verify_mic_def key_message_def classify_message_info version_message_info)
qed

lemma message2_answer:
  assumes "sup_ptk own = Some ptk" "ptk_akm ptk = sta_akm (sup_state own)" "length (sta_snonce (sup_state own)) = 32"
    and "length (ies_as_bytes (sup_ies own)) \<le> 128" "227 \<le> env_capacity env"
    and "\<And>akm kck bytes. length (env_mac env akm kck bytes) = 16"
  obtains tx where "build_transmit env own \<lparr>transmit_message = TxMessage2, transmit_replay = replay,
      transmit_retransmission = r\<rparr> = Ok (ReadyTransmit tx)"
    "answers env ptk PairwiseMessage2 replay (sta_snonce (sup_state own)) (ies_as_bytes (sup_ies own)) tx"
proof -
  let ?info = "message_info PairwiseMessage2 OR ucast (key_descriptor_version (ptk_akm ptk))"
  have "\<not> bit ?info 7" by (simp add: bit_or_iff message_info_bits version_bits)
  then obtain f where f: "RsnTxFrame_build (env_capacity env) StationInterface (sta_authenticator (sup_state own)) 1
      ?info 0 replay (sta_snonce (sup_state own)) (replicate 8 0) (ies_as_bytes (sup_ies own)) = Ok f"
    using reply_built [of ?info "ies_as_bytes (sup_ies own)" "env_capacity env"] assms(4,5) by fastforce
  have "build_transmit env own \<lparr>transmit_message = TxMessage2, transmit_replay = replay, transmit_retransmission = r\<rparr>
      = Ok (ReadyTransmit (authenticate (env_mac env) (f\<lparr>tx_retransmission := r\<rparr>) ptk))"
    using f assms(1,2) by (simp add: build_transmit_def build_sta_action_frame_def Let_def
        RsnTxFrame_message2_with_security_ies_def message_info_def or.assoc)
  then show thesis using that answer_built [OF f assms(3) _ assms(6)] by simp
qed

lemma message4_answer:
  assumes "sup_ptk own = Some ptk" "ptk_akm ptk = sta_akm (sup_state own)" "227 \<le> env_capacity env"
    and "\<And>akm kck bytes. length (env_mac env akm kck bytes) = 16"
  obtains tx where "build_transmit env own \<lparr>transmit_message = TxMessage4, transmit_replay = replay,
      transmit_retransmission = r\<rparr> = Ok (ReadyTransmit tx)"
    "answers env ptk PairwiseMessage4 replay (replicate 32 0) [] tx"
proof -
  let ?info = "message_info PairwiseMessage4 OR ucast (key_descriptor_version (ptk_akm ptk))"
  have "\<not> bit ?info 7" by (simp add: bit_or_iff message_info_bits version_bits)
  then obtain f where f: "RsnTxFrame_build (env_capacity env) StationInterface (sta_authenticator (sup_state own)) 1
      ?info 0 replay (replicate 32 0) (replicate 8 0) [] = Ok f"
    using reply_built [of ?info "[]" "env_capacity env"] assms(3) by fastforce
  have "build_transmit env own \<lparr>transmit_message = TxMessage4, transmit_replay = replay, transmit_retransmission = r\<rparr>
      = Ok (ReadyTransmit (authenticate (env_mac env) (f\<lparr>tx_retransmission := r\<rparr>) ptk))"
    using f assms(1,2) by (simp add: build_transmit_def build_sta_action_frame_def Let_def
        RsnTxFrame_message4_def message_info_def or.assoc)
  then show thesis using that answer_built [OF f _ _ assms(4)] by simp
qed

subsection \<open>The station's half\<close>

text \<open>The station after an accepted Message 1.\<close>

definition after_message1 :: "sta_env \<Rightarrow> RsnStaSupplicant \<Rightarrow> u64 \<Rightarrow> u8 list \<Rightarrow> RsnStaSupplicant" where
  "after_message1 env own replay anonce =
     own\<lparr>sup_state := (snd (start_ptk (sup_state own) replay anonce))\<lparr>sta_phase := StaAwaitingMessage3\<rparr>,
         sup_completed := None,
         sup_ptk := Some (exchange_ptk env ((sup_state own)\<lparr>sta_anonce := anonce\<rparr>))\<rparr>"

lemma exchange_ptk_akm: "ptk_akm (exchange_ptk env st) = sta_akm st"
  by (simp add: exchange_ptk_def derive_ptk_def Let_def split_beta)

lemma after_message1_simps [simp]:
  "sta_akm (sup_state (after_message1 env own replay anonce)) = sta_akm (sup_state own)"
  "sta_local (sup_state (after_message1 env own replay anonce)) = sta_local (sup_state own)"
  "sta_authenticator (sup_state (after_message1 env own replay anonce)) = sta_authenticator (sup_state own)"
  "sta_snonce (sup_state (after_message1 env own replay anonce)) = sta_snonce (sup_state own)"
  "sta_anonce (sup_state (after_message1 env own replay anonce)) = anonce"
  "sta_phase (sup_state (after_message1 env own replay anonce)) = StaAwaitingMessage3"
  "sta_message1_replay (sup_state (after_message1 env own replay anonce)) = replay"
  "sup_completed (after_message1 env own replay anonce) = None"
  "sup_ptk (after_message1 env own replay anonce) = Some (exchange_ptk env ((sup_state own)\<lparr>sta_anonce := anonce\<rparr>))"
  "sup_ies (after_message1 env own replay anonce) = sup_ies own"
  "sup_authenticator_ies (after_message1 env own replay anonce) = sup_authenticator_ies own"
  "sup_management_protection (after_message1 env own replay anonce) = sup_management_protection own"
  by (simp_all add: after_message1_def start_ptk_def sta_issue_ticket_def Let_def)

lemma station_takes_message1:
  assumes "sta_phase (sup_state own) = StaAwaitingMessage1" "frame_interface g = StationInterface"
    and "frame_peer g = sta_authenticator (sup_state own)"
    and "descriptor_version (key_info (key_frame g)) = key_descriptor_version (sta_akm (sup_state own))"
    and "key_message (key_frame g) = PairwiseMessage1" "\<not> nonce_is_zero (key_nonce (key_frame g))"
    and tx: "build_transmit env (after_message1 env own (replay_counter (key_frame g)) (key_nonce (key_frame g)))
      \<lparr>transmit_message = TxMessage2, transmit_replay = replay_counter (key_frame g), transmit_retransmission = False\<rparr>
      = Ok (ReadyTransmit m2)"
  shows "sup_on_frame env own g = (Ok (Ready (ReadyTransmit m2)),
    after_message1 env own (replay_counter (key_frame g)) (key_nonce (key_frame g)))"
proof -
  let ?replay = "replay_counter (key_frame g)" and ?anonce = "key_nonce (key_frame g)"
  let ?st = "sup_state own"
  define st1 where "st1 = snd (start_ptk ?st ?replay ?anonce)"
  define ticket where "ticket = RsnTicket (sta_next_ticket ?st)"
  have start: "start_ptk ?st ?replay ?anonce = (Ok (StaDerivePtk ticket (sta_ptk_context st1)), st1)"
    and st1: "sta_phase st1 = StaDerivingPtk" "sta_active_ticket st1 = ticket" "sta_message1_replay st1 = ?replay"
      "sta_akm st1 = sta_akm ?st" "sta_ptk_context st1 = sta_ptk_context (?st\<lparr>sta_anonce := ?anonce\<rparr>)"
    by (simp_all add: st1_def ticket_def start_ptk_def sta_issue_ticket_def Let_def sta_ptk_context_def)
  have frame: "sta_on_frame ?st g = start_ptk ?st ?replay ?anonce"
    using assms(1-6) by (simp add: sta_on_frame_def sta_validate_frame_def sta_on_message1_def Let_def)
  have key: "derive_ptk (env_expand env) (env_pmk env) (sta_akm ?st) (sta_ptk_context (?st\<lparr>sta_anonce := ?anonce\<rparr>))
      = exchange_ptk env (?st\<lparr>sta_anonce := ?anonce\<rparr>)" by (simp add: exchange_ptk_def)
  have own: "own\<lparr>sup_completed := None, sup_ptk := Some (exchange_ptk env (?st\<lparr>sta_anonce := ?anonce\<rparr>)),
      sup_state := st1\<lparr>sta_phase := StaAwaitingMessage3\<rparr>\<rparr> = after_message1 env own ?replay ?anonce"
    by (simp add: after_message1_def start)
  have none: "repeated_message3_error env own g = None"
    using assms(1) by (simp add: repeated_message3_error_def)
  show ?thesis
    using st1 tx own by (simp add: sup_on_frame_def none frame start sup_resolve_action_def Let_def
        sta_complete_ptk_def sta_check_completion_def key)
qed

text \<open>A Message 3 under the same key leads to the installation of the keys it carries.\<close>

lemma station_takes_message3:
  fixes own :: RsnStaSupplicant
  assumes ok: "sup_ok env own" and phase: "sta_phase (sup_state own) = StaAwaitingMessage3" "sup_completed own = None"
    and m3: "sta_validate_frame (sup_state own) g = Ok ()" "validate_message3_fields (sup_state own) g = Ok ()"
      "key_message (key_frame g) = PairwiseMessage3"
      "descriptor_version (key_info (key_frame g)) = key_descriptor_version (sta_akm (sup_state own))"
      "sta_message1_replay (sup_state own) < replay_counter (key_frame g)"
      "verify_mic (env_mac env) (key_frame g) (exchange_ptk env (sup_state own))"
  obtains q own1 where "sup_on_frame env own g = (Ok (UnwrapKeyData q), own1)" "data_frame q = g"
    "request_ok env own1 q" "sup_ok env own1" "same_setup own1 own" "sup_completed own1 = None"
    "sta_message3_replay (sup_state own1) = replay_counter (key_frame g)"
    "sta_anonce (sup_state own1) = sta_anonce (sup_state own)"
proof -
  obtain r own1 where call: "sup_on_frame env own g = (r, own1)" by fastforce
  let ?st = "(sup_state own)\<lparr>sta_message3_replay := replay_counter (key_frame g), sta_phase := StaVerifyingMessage3,
    sta_next_ticket := ticket_after (sta_next_ticket (sup_state own)),
    sta_active_ticket := RsnTicket (sta_next_ticket (sup_state own))\<rparr>"
  have ptk: "sup_ptk own = Some (exchange_ptk env (sup_state own))" using ok phase by (simp add: sup_ok_def keyed_def)
  have frame: "sta_on_frame (sup_state own) g = (Ok (StaVerifyMessage3Mic (sta_active_ticket ?st) g), ?st)"
    using m3 phase by (simp add: sta_on_frame_def sta_on_message3_def sta_verify_message3_def sta_issue_ticket_def Let_def
        not_le)
  have ret: "validate_retained_message3 ?st g = Ok ()"
    using m3 by (intro retained_valid [of "sup_state own"]) (simp_all add: same_identity_def)
  have unwrap: "\<exists>q. r = Ok (UnwrapKeyData q)" "sta_message3_replay (sup_state own1) = replay_counter (key_frame g)"
    "sta_anonce (sup_state own1) = sta_anonce (sup_state own)"
    using call phase m3(6) ptk message3_encrypted [OF m3(2)]
    by (auto simp: sup_on_frame_def repeated_message3_error_def frame sup_resolve_action_def sta_complete_message3_mic_def
        sta_check_completion_def ret sta_issue_ticket_def Let_def resolve_message3_def)
  have elems: "sup_authenticator_ies own1 = sup_authenticator_ies own"
    "sup_management_protection own1 = sup_management_protection own"
    using on_frame_keeps_elements [OF call] by simp_all
  from ok call show thesis
    by (cases rule: sup_on_frame_cases)
      (use unwrap elems phase call that in \<open>auto simp: keyless_def plain_action_def same_setup_def\<close>)
qed

text \<open>Key data that carries the group keys is installed, and its installation answered with Message 4.\<close>

lemma station_installs:
  fixes own :: RsnStaSupplicant and g :: OwnedEapolFrame
  assumes ok: "sup_ok env own" "request_ok env own q" and none: "sup_completed own = None"
    and parsed: "parse_gtk_key_data (unwrapped_as_bytes plain) (ies_rsn_ie (sup_authenticator_ies own))
      (ies_rsnxe (sup_authenticator_ies own)) (sup_management_protection own) = Ok keys"
  obtains i own1 where "complete_key_data_unwrap own q (Ok plain :: (RsnUnwrappedKeyData, SoftwareAesKeyUnwrapError) result) = (Ok (ReadyInstallKeys i), own1)"
    "sup_ok env own1" "install_ok own1 (request_group i)" "same_setup own1 own"
    "request_pairwise i = RsnKeyInstall_pairwise StationInterface (sta_authenticator (sup_state own))
       (replicate 8 0) (exchange_ptk env (sup_state own))"
    "retry_group (request_group i) = RsnKeyInstall_group StationInterface (group_gtk keys)
       (key_receive_sequence (key_frame (data_frame q)))"
    "retry_igtk (request_group i) = group_igtk keys"
    "sta_message3_replay (sup_state own1) = sta_message3_replay (sup_state own)"
    "sup_ptk own1 = Some (exchange_ptk env (sup_state own))"
proof -
  obtain r own1 where call: "complete_key_data_unwrap own q (Ok plain :: (RsnUnwrappedKeyData, SoftwareAesKeyUnwrapError) result) = (r, own1)" by fastforce
  note q = ok(2) [unfolded request_ok_def]
  have ptk: "sup_ptk own = Some (exchange_ptk env (sup_state own))" using ok(1) q by (simp add: sup_ok_def keyed_def)
  have "\<exists>i. r = Ok (ReadyInstallKeys i)" and keep: "sta_message3_replay (sup_state own1) = sta_message3_replay (sup_state own)"
    "sup_ptk own1 = Some (exchange_ptk env (sup_state own))"
    using call q parsed none ptk
    by (auto simp: complete_key_data_unwrap_def sta_complete_key_data_def sta_check_completion_def sta_issue_ticket_def
        Let_def prepare_key_install_def)
  then obtain i where r: "r = Ok (ReadyInstallKeys i)" by blast
  have elems: "sup_authenticator_ies own1 = sup_authenticator_ies own"
    "sup_management_protection own1 = sup_management_protection own"
    using unwrap_keeps_elements [OF call] by simp_all
  from ok call show thesis
  proof (cases rule: unwrap_cases)
    case (install plain' i')
    then have i: "i' = i" "plain' = plain" using r by simp_all
    obtain keys' where "keys' = keys" "retry_group (request_group i) = RsnKeyInstall_group StationInterface
        (group_gtk keys') (key_receive_sequence (key_frame (data_frame q)))" "retry_igtk (request_group i) = group_igtk keys'"
      using install(8) parsed unfolding group_grounded_def i by auto
    then show thesis using install keep elems call r i that [of i own1] by (simp add: same_setup_def)
  qed (use r in \<open>simp_all add: keyless_def\<close>)
qed

text \<open>From an authenticated Message 3 to Message 4.\<close>

lemma station_completes:
  fixes env :: sta_env and own :: RsnStaSupplicant
  defines "ptk \<equiv> exchange_ptk env (sup_state own)"
  assumes ok: "sup_ok env own" "sta_phase (sup_state own) = StaAwaitingMessage3" "sup_completed own = None"
    and m3: "sta_validate_frame (sup_state own) g = Ok ()" "validate_message3_fields (sup_state own) g = Ok ()"
      "key_message (key_frame g) = PairwiseMessage3"
      "descriptor_version (key_info (key_frame g)) = key_descriptor_version (sta_akm (sup_state own))"
      "sta_message1_replay (sup_state own) < replay_counter (key_frame g)"
      "verify_mic (env_mac env) (key_frame g) ptk"
    and parsed: "parse_gtk_key_data (unwrapped_as_bytes u) (ies_rsn_ie (sup_authenticator_ies own))
      (ies_rsnxe (sup_authenticator_ies own)) (sup_management_protection own) = Ok keys"
    and cap: "227 \<le> env_capacity env" and mac: "\<And>akm kck bytes. length (env_mac env akm kck bytes) = 16"
  obtains i m4 where "sup_outputs env (sup_start own) [FrameOp g, UnwrapOp (Ok u), InstallOp True]
      = [None, Some (ReadyInstallKeys i), Some (ReadyTransmit m4)]"
    "request_pairwise i = RsnKeyInstall_pairwise StationInterface (sta_authenticator (sup_state own)) (replicate 8 0) ptk"
    "retry_group (request_group i) = RsnKeyInstall_group StationInterface (group_gtk keys) (key_receive_sequence (key_frame g))"
    "retry_igtk (request_group i) = group_igtk keys"
    "answers env ptk PairwiseMessage4 (replay_counter (key_frame g)) (replicate 32 0) [] m4"
proof -
  obtain q own2 where two: "sup_on_frame env own g = (Ok (UnwrapKeyData q), own2)" "data_frame q = g"
    "request_ok env own2 q" "sup_ok env own2" "same_setup own2 own" "sup_completed own2 = None"
    "sta_message3_replay (sup_state own2) = replay_counter (key_frame g)"
    "sta_anonce (sup_state own2) = sta_anonce (sup_state own)"
    using station_takes_message3 [OF ok m3(1-5)] m3(6) unfolding ptk_def by blast
  have ptk2: "exchange_ptk env (sup_state own2) = ptk"
    unfolding ptk_def using two(5,8) by (intro exchange_ptk_cong) (simp_all add: same_setup_def)
  have "parse_gtk_key_data (unwrapped_as_bytes u) (ies_rsn_ie (sup_authenticator_ies own2))
      (ies_rsnxe (sup_authenticator_ies own2)) (sup_management_protection own2) = Ok keys"
    using parsed two(5) by (simp add: same_setup_def)
  from station_installs [OF two(4,3,6) this]
  obtain i own3 where inst: "complete_key_data_unwrap own2 q (Ok u :: (RsnUnwrappedKeyData, SoftwareAesKeyUnwrapError) result)
        = (Ok (ReadyInstallKeys i), own3)" "install_ok own3 (request_group i)" "same_setup own3 own2"
      "request_pairwise i = RsnKeyInstall_pairwise StationInterface (sta_authenticator (sup_state own2)) (replicate 8 0) ptk"
      "retry_group (request_group i) = RsnKeyInstall_group StationInterface (group_gtk keys) (key_receive_sequence (key_frame g))"
      "retry_igtk (request_group i) = group_igtk keys"
      "sta_message3_replay (sup_state own3) = replay_counter (key_frame g)" "sup_ptk own3 = Some ptk"
    unfolding ptk2 two(2,7) by blast
  let ?own4 = "own3\<lparr>sup_state := (sup_state own3)\<lparr>sta_phase := StaCompleted\<rparr>\<rparr>"
  have same: "sta_akm (sup_state own3) = sta_akm (sup_state own)"
    "sta_authenticator (sup_state own2) = sta_authenticator (sup_state own)"
    using two(5) inst(3) by (simp_all add: same_setup_def same_identity_def)
  obtain m4 where m4: "build_transmit env ?own4 \<lparr>transmit_message = TxMessage4,
      transmit_replay = replay_counter (key_frame g), transmit_retransmission = False\<rparr> = Ok (ReadyTransmit m4)"
    "answers env ptk PairwiseMessage4 (replay_counter (key_frame g)) (replicate 32 0) [] m4"
    using message4_answer [of ?own4 ptk env "replay_counter (key_frame g)" False] cap mac same(1) inst(8)
    by (auto simp: ptk_def exchange_ptk_akm)
  have four: "complete_retry_install env own3 (request_group i) True = (Ok (ReadyTransmit m4), ?own4)"
    using inst(2,7) m4(1) by (simp add: complete_retry_install_def sta_complete_key_install_def sta_check_completion_def
        install_ok_def Let_def)
  have "sup_outputs env (sup_start own) [FrameOp g, UnwrapOp (Ok u), InstallOp True]
    = [None, Some (ReadyInstallKeys i), Some (ReadyTransmit m4)]"
    by (simp add: sup_start_def two(1) inst(1) four take_ready_def)
  then show thesis using that m4(2) inst(4-6) same(2) by simp
qed

lemma message1_nonce:
  assumes "RsnTxFrame_message1 N akm peer replay anonce = Ok f"
  shows "\<not> nonce_is_zero anonce"
proof -
  let ?bits = "KEY_INFO_PAIRWISE OR KEY_INFO_ACK"
  have "(KEY_INFO_PAIRWISE OR KEY_INFO_ACK OR ucast (key_descriptor_version akm)) AND ?bits = ?bits"
    by (auto intro!: bit_word_eqI simp: bit_simps key_info_bit)
  then show ?thesis using assms by (auto simp: RsnTxFrame_message1_def RsnTxFrame_build_def nonce_is_zero_def)
qed

text \<open>
  The frames of an access point that knows the PMK: Message 1, and a Message 3 authenticated with the
  pairwise key whose key data, wrapped under the key encryption key, carries the advertised elements
  and the group keys; each received by the station as its owned copy.
\<close>

definition handshake_ptk :: "sta_env \<Rightarrow> RsnStaSupplicant \<Rightarrow> u8 list \<Rightarrow> Ptk" where
  "handshake_ptk env own anonce = exchange_ptk env ((sup_state own)\<lparr>sta_anonce := anonce\<rparr>)"

definition message1_from_ap :: "RsnStaSupplicant \<Rightarrow> u8 list \<Rightarrow> u64 \<Rightarrow> OwnedEapolFrame \<Rightarrow> bool" where
  "message1_from_ap own anonce r g \<longleftrightarrow> (\<exists>N M f.
     RsnTxFrame_message1 N (sta_akm (sup_state own)) (sta_local (sup_state own)) r anonce = Ok f
     \<and> OwnedEapolFrame_try_copy M StationInterface (sta_authenticator (sup_state own)) (tx_as_bytes f) = Ok g)"

definition message3_from_ap ::
    "sta_env \<Rightarrow> block_function \<Rightarrow> RsnStaSupplicant \<Rightarrow> u8 list \<Rightarrow> u64 \<Rightarrow> u8 list \<Rightarrow> RsnGtk \<Rightarrow> RsnIgtk option
     \<Rightarrow> OwnedEapolFrame \<Rightarrow> bool" where
  "message3_from_ap env enc own anonce r rsc gtk igtk g \<longleftrightarrow> (\<exists>N M P plain w f.
     RsnPlainKeyData_build P (ies_rsn_ie (sup_authenticator_ies own) @ ies_rsnxe (sup_authenticator_ies own)) gtk igtk
       = Ok plain
     \<and> software_aes128_key_wrap enc (ptk_kek (handshake_ptk env own anonce)) (plain_as_bytes plain) = Ok w
     \<and> RsnTxFrame_message3 N (sta_akm (sup_state own)) (sta_local (sup_state own)) r anonce rsc (wrapped_as_bytes w)
       = Ok f
     \<and> OwnedEapolFrame_try_copy M StationInterface (sta_authenticator (sup_state own))
         (tx_as_bytes (authenticate (env_mac env) f (handshake_ptk env own anonce))) = Ok g)"

text \<open>The key data of the group keys, as the negotiation permits.\<close>

definition keys_for :: "RsnStaSupplicant \<Rightarrow> RsnGtk \<Rightarrow> RsnIgtk option \<Rightarrow> bool" where
  "keys_for own gtk igtk \<longleftrightarrow> length (gtk_key gtk) = 16
     \<and> (case igtk of None \<Rightarrow> \<not> sup_management_protection own | Some k \<Rightarrow> igtk_ok k \<and> sup_management_protection own)"

lemma handshake_completes:
  assumes fresh: "fresh_supplicant own" and cap: "227 \<le> env_capacity env"
    and lens: "length anonce = 32" "length (sta_snonce (sup_state own)) = 32" "length rsc = 8"
    and mac: "\<And>akm kck bytes. length (env_mac env akm kck bytes) = 16"
    and ciphers: "inverse_ciphers enc dec"
    and m1: "message1_from_ap own anonce r1 g1"
    and m3: "message3_from_ap env enc own anonce r3 rsc gtk igtk g3"
    and keys: "keys_for own gtk igtk" and rising: "r1 < r3"
  shows "\<exists>m2 i m4. sup_outputs env (sup_start own)
        [FrameOp g1, FrameOp g3,
         UnwrapOp (software_aes128_key_unwrap dec (ptk_kek (handshake_ptk env own anonce)) (key_data (key_frame g3))),
         InstallOp True]
      = [Some (ReadyTransmit m2), None, Some (ReadyInstallKeys i), Some (ReadyTransmit m4)]
    \<and> answers env (handshake_ptk env own anonce) PairwiseMessage2 r1 (sta_snonce (sup_state own))
        (ies_as_bytes (sup_ies own)) m2
    \<and> request_pairwise i = RsnKeyInstall_pairwise StationInterface (sta_authenticator (sup_state own)) (replicate 8 0)
        (handshake_ptk env own anonce)
    \<and> retry_group (request_group i) = RsnKeyInstall_group StationInterface gtk rsc
    \<and> retry_igtk (request_group i) = igtk
    \<and> answers env (handshake_ptk env own anonce) PairwiseMessage4 r3 (replicate 32 0) [] m4"
proof -
  define st where "st = sup_state own"
  define ptk where "ptk = handshake_ptk env own anonce"
  define rsn where "rsn = ies_rsn_ie (sup_authenticator_ies own)"
  define rsnxe where "rsnxe = ies_rsnxe (sup_authenticator_ies own)"
  note ptk_def = ptk_def [unfolded handshake_ptk_def]
  note lens = lens [folded st_def]
  obtain N M f1 where f1: "RsnTxFrame_message1 N (sta_akm st) (sta_local st) r1 anonce = Ok f1"
    and g1: "OwnedEapolFrame_try_copy M StationInterface (sta_authenticator st) (tx_as_bytes f1) = Ok g1"
    using m1 unfolding message1_from_ap_def st_def by blast
  obtain N' M' P plain w f3 where plain: "RsnPlainKeyData_build P (rsn @ rsnxe) gtk igtk = Ok plain"
    and wrapped: "software_aes128_key_wrap enc (ptk_kek ptk) (plain_as_bytes plain) = Ok w"
    and f3: "RsnTxFrame_message3 N' (sta_akm st) (sta_local st) r3 anonce rsc (wrapped_as_bytes w) = Ok f3"
    and g3: "OwnedEapolFrame_try_copy M' StationInterface (sta_authenticator st)
      (tx_as_bytes (authenticate (env_mac env) f3 ptk)) = Ok g3"
    using m3 unfolding message3_from_ap_def st_def rsn_def rsnxe_def ptk_def handshake_ptk_def by blast
  have keys: "length (gtk_key gtk) = 16" "\<And>k. igtk = Some k \<Longrightarrow> igtk_ok k" "sup_management_protection own \<longleftrightarrow> igtk \<noteq> None"
    using keys by (auto simp: keys_for_def split: option.splits)
  obtain start: "sta_phase st = StaAwaitingMessage1" "rsn_element_ok rsn" "rsnxe_ok rsnxe"
      "length (ies_as_bytes (sup_ies own)) \<le> 128"
    using fresh_station [OF fresh] unfolding st_def rsn_def rsnxe_def by metis
  have akm: "ptk_akm ptk = sta_akm st" by (simp add: ptk_def exchange_ptk_akm st_def)
  have b3: "RsnTxFrame_build N' AccessPointInterface (sta_local st) 2
      (message_info PairwiseMessage3 OR ucast (key_descriptor_version (sta_akm st))) RSN_GTK_LEN r3 anonce rsc
      (wrapped_as_bytes w) = Ok f3" and data: "wrapped_as_bytes w \<noteq> []"
    using f3 by (simp_all add: RsnTxFrame_message3_def message_info_def or.assoc split: if_splits)
  have b1: "RsnTxFrame_build N AccessPointInterface (sta_local st) 2
      (message_info PairwiseMessage1 OR ucast (key_descriptor_version (sta_akm st))) RSN_GTK_LEN r1 anonce
      (replicate 8 0) [] = Ok f1"
    using f1 by (simp add: RsnTxFrame_message1_def message_info_def or.assoc)
  have g1': "OwnedEapolFrame_try_copy M StationInterface (sta_authenticator st)
      (tx_as_bytes (authenticate_with_kck (\<lambda>_ _ _. replicate 16 0) f1 (sta_akm st) [])) = Ok g1"
    using g1 built_unauthenticated [OF b1 lens(1), of "sta_akm st" "[]"] by simp
  note k1 = received_fields [OF b1 lens(1) _ _ g1', simplified]
  note k3 = received_fields [OF b3 lens(1,3) mac g3 [unfolded authenticate_def akm]]
  define own1 where "own1 = after_message1 env own r1 anonce"
  have ptk1: "exchange_ptk env (sup_state own1) = ptk"
    unfolding ptk_def st_def own1_def by (intro exchange_ptk_cong) (simp_all add: same_identity_def)
  obtain m2 where m2: "build_transmit env own1 \<lparr>transmit_message = TxMessage2, transmit_replay = r1,
      transmit_retransmission = False\<rparr> = Ok (ReadyTransmit m2)"
    "answers env ptk PairwiseMessage2 r1 (sta_snonce st) (ies_as_bytes (sup_ies own)) m2"
    using message2_answer [of own1 ptk env r1 False] lens(2) start(4) cap mac akm
    by (auto simp: own1_def ptk_def st_def)
  have one: "sup_on_frame env own g1 = (Ok (Ready (ReadyTransmit m2)), own1)"
    using station_takes_message1 [of own g1 env m2] start(1) k1 message1_nonce [OF f1] m2(1)
    by (simp add: own1_def st_def)
  have ok1: "sup_ok env own1" using ptk1 by (simp add: sup_ok_def keyed_def own1_def ptk_def st_def)
  have three: "sta_validate_frame (sup_state own1) g3 = Ok ()" "validate_message3_fields (sup_state own1) g3 = Ok ()"
    using k3 data by (simp_all add: sta_validate_frame_def validate_message3_fields_def Let_def message3_info own1_def
        st_def RSN_GTK_LEN_def RSN_CCMP_TEMPORAL_KEY_LEN_def list_ex_iff)
  have mic: "verify_mic (env_mac env) (key_frame g3) (exchange_ptk env (sup_state own1))"
    using k3(13) akm by (simp add: verify_mic_def ptk1)
  obtain u where u: "software_aes128_key_unwrap dec (ptk_kek ptk) (key_data (key_frame g3)) = Ok u"
    "unwrapped_as_bytes u = plain_as_bytes plain"
    using wrap_then_unwrap [OF ciphers wrapped] k3(12) by auto
  have "parse_gtk_key_data (unwrapped_as_bytes u) (ies_rsn_ie (sup_authenticator_ies own1))
      (ies_rsnxe (sup_authenticator_ies own1)) (sup_management_protection own1) = Ok \<lparr>group_gtk = gtk, group_igtk = igtk\<rparr>"
    using key_data_read_back [OF plain start(2,3) keys(1,2)] keys(3) by (simp add: u(2) own1_def rsn_def rsnxe_def)
  from station_completes [OF ok1 _ _ three _ _ _ mic this cap mac]
  obtain i m4 where rest: "sup_outputs env (sup_start own1) [FrameOp g3, UnwrapOp (Ok u), InstallOp True]
      = [None, Some (ReadyInstallKeys i), Some (ReadyTransmit m4)]"
    "request_pairwise i = RsnKeyInstall_pairwise StationInterface (sta_authenticator st) (replicate 8 0) ptk"
    "retry_group (request_group i) = RsnKeyInstall_group StationInterface gtk rsc" "retry_igtk (request_group i) = igtk"
    "answers env ptk PairwiseMessage4 r3 (replicate 32 0) [] m4"
    unfolding ptk1 using k3 rising by (auto simp: own1_def st_def)
  have "sup_outputs env (sup_start own) (FrameOp g1 # ops) = Some (ReadyTransmit m2) # sup_outputs env (sup_start own1) ops" for ops
    by (simp add: sup_start_def one take_ready_def)
  then show ?thesis using rest m2(2) unfolding ptk_def st_def handshake_ptk_def
    by (auto simp: u(1) [unfolded ptk_def] simp del: sup_outputs.simps)
qed

text \<open>
  C7. A station and an access point that hold the same PMK and exchange Message 1, Message 3 and their
  answers complete the handshake: for every pair of nonces, every GTK and IGTK and every advertised
  element, the station answers Message 1 with a Message 2 that carries its nonce and elements and
  verifies under the access point's pairwise key, asks for the key data of Message 3 to be unwrapped,
  installs the temporal key of that same pairwise key and exactly the access point's group keys, and
  then confirms with a Message 4 of Message 3's replay counter that verifies under the same key.
\<close>

theorem honest_handshake_completes:
  assumes "fresh_supplicant own" and "227 \<le> env_capacity env"
    and "length anonce = 32" "length (sta_snonce (sup_state own)) = 32" "length rsc = 8"
    and "\<And>akm kck bytes. length (env_mac env akm kck bytes) = 16"
    and "inverse_ciphers enc dec"
    and "message1_from_ap own anonce r1 g1"
    and "message3_from_ap env enc own anonce r3 rsc gtk igtk g3"
    and "keys_for own gtk igtk" and "r1 < r3"
  shows "\<exists>m2 i m4. sup_outputs env (sup_start own)
        [FrameOp g1, FrameOp g3,
         UnwrapOp (software_aes128_key_unwrap dec (ptk_kek (handshake_ptk env own anonce)) (key_data (key_frame g3))),
         InstallOp True]
      = [Some (ReadyTransmit m2), None, Some (ReadyInstallKeys i), Some (ReadyTransmit m4)]
    \<and> answers env (handshake_ptk env own anonce) PairwiseMessage2 r1 (sta_snonce (sup_state own))
        (ies_as_bytes (sup_ies own)) m2
    \<and> request_pairwise i = RsnKeyInstall_pairwise StationInterface (sta_authenticator (sup_state own)) (replicate 8 0)
        (handshake_ptk env own anonce)
    \<and> retry_group (request_group i) = RsnKeyInstall_group StationInterface gtk rsc
    \<and> retry_igtk (request_group i) = igtk
    \<and> answers env (handshake_ptk env own anonce) PairwiseMessage4 r3 (replicate 32 0) [] m4"
  using assms by (rule handshake_completes)

subsection \<open>Witnesses\<close>

definition sample_env :: sta_env where
  "sample_env = \<lparr>env_capacity = 256, env_mac = sample_mac,
     env_expand = (\<lambda>akm pmk canonical. take 48 (pmk @ canonical)), env_pmk = [7, 7, 7]\<rparr>"

lemma nonce_is_zero_replicate [simp]: "nonce_is_zero (replicate 32 x) \<longleftrightarrow> x = 0"
  by (simp add: nonce_is_zero_def list_all_iff)

lemma sample_station_created:
  "\<exists>own. RsnStaSupplicant_try_new [2, 0, 0, 0, 0, 1] [2, 0, 0, 0, 0, 2] (replicate 32 9)
     sample_rsn sample_rsn [] = Ok own \<and> sta_snonce (sup_state own) = replicate 32 9
     \<and> sup_management_protection own = False \<and> ies_rsn_ie (sup_authenticator_ies own) = sample_rsn
     \<and> ies_rsnxe (sup_authenticator_ies own) = []"
proof -
  have "\<exists>ie. OwnedRsnIe_try_copy RSN_IE_CAPACITY sample_rsn = Ok ie"
    by (simp add: OwnedRsnIe_try_copy_def RSN_ELEMENT_ID_def RSN_IE_CAPACITY_def sample_rsn_def)
  then obtain ie where ie: "OwnedRsnIe_try_copy RSN_IE_CAPACITY sample_rsn = Ok ie" by blast
  have "\<exists>ies. Ies_try_copy RSN_ASSOC_SECURITY_IES_CAPACITY ie [] = Ok ies"
    by (simp add: Ies_try_copy_def rsn_ie_copied(1) [OF ie] RSN_ASSOC_SECURITY_IES_CAPACITY_def Let_def sample_rsn_def)
  then obtain ies where ies: "Ies_try_copy RSN_ASSOC_SECURITY_IES_CAPACITY ie [] = Ok ies" by blast
  have "get_slice sample_rsn 0 22 = Some sample_rsn" "drop 22 sample_rsn = []"
    by (simp_all add: get_slice_def sample_rsn_def)
  then have "Ies_try_copy_bytes RSN_ASSOC_SECURITY_IES_CAPACITY sample_rsn = Ok ies"
    using ie ies by (simp add: Ies_try_copy_bytes_def RSN_ELEMENT_ID_def) (simp add: sample_rsn_def)
  moreover obtain v where "validate_rsn_element sample_rsn = Ok v" "\<not> mfp_capable (management_frame_protection v)"
    using sample_rsn_valid by blast
  ultimately show ?thesis
    by (simp add: RsnStaSupplicant_try_new_def ie ies ies_copied [OF ie ies] RsnStaState_new_def negotiated_def)
qed

text \<open>The frames of a builder are received.\<close>

lemma copy_built:
  fixes mac :: mac_function
  assumes "RsnTxFrame_build N interface peer version info keylen replay nonce key_rsc data = Ok f"
    and "length nonce = 32" "length key_rsc = 8" and mac: "\<And>akm kck bytes. length (mac akm kck bytes) = 16"
  shows "\<exists>g. OwnedEapolFrame_try_copy N side from (tx_as_bytes (authenticate_with_kck mac f akm kck)) = Ok g"
proof -
  have "length (tx_as_bytes (authenticate_with_kck mac f akm kck)) \<le> N"
    using authenticated_octets [OF assms, where akm = akm and kck = kck] build_octets(6,7) [OF assms(1-3)] assms(2,3)
    by (simp add: length_key_octets mac)
  then show ?thesis using tx_read_back(1) [OF assms, where akm = akm and kck = kck] by (simp add: OwnedEapolFrame_try_copy_def)
qed

lemma request_built:
  assumes "\<not> nonce_is_zero nonce" "99 + length data \<le> N" "length data \<le> 65440"
  shows "\<exists>f. RsnTxFrame_build N interface peer version info keylen replay nonce key_rsc data = Ok f"
  using assms by (simp add: RsnTxFrame_build_def Let_def eapol_lengths nonce_is_zero_def)

lemma sample_message1: "\<exists>g. message1_from_ap own (replicate 32 5) r g"
proof -
  let ?info = "KEY_INFO_PAIRWISE OR KEY_INFO_ACK OR ucast (key_descriptor_version (sta_akm (sup_state own)))"
  obtain f where f: "RsnTxFrame_build 99 AccessPointInterface (sta_local (sup_state own)) 2 ?info RSN_GTK_LEN r
      (replicate 32 5) (replicate 8 0) [] = Ok f"
    using request_built [of "replicate 32 5" "[]" 99] by force
  obtain g where "OwnedEapolFrame_try_copy 99 StationInterface (sta_authenticator (sup_state own)) (tx_as_bytes f) = Ok g"
    using copy_built [OF f, of "\<lambda>_ _ _. replicate 16 0"] built_unauthenticated [OF f] by fastforce
  with f show ?thesis unfolding message1_from_ap_def RsnTxFrame_message1_def by blast
qed

lemma sample_message3:
  assumes "RsnPlainKeyData_build 48 (ies_rsn_ie (sup_authenticator_ies own) @ ies_rsnxe (sup_authenticator_ies own)) gtk igtk
      = Ok plain" "length (plain_as_bytes plain) = 48"
    and mac: "\<And>akm kck bytes. length (env_mac env akm kck bytes) = 16"
  shows "\<exists>g. message3_from_ap env (\<lambda>_. rev) own (replicate 32 5) r (replicate 8 1) gtk igtk g"
proof -
  let ?ptk = "handshake_ptk env own (replicate 32 5)"
  have "\<exists>w. software_aes128_key_wrap (\<lambda>_. rev) (ptk_kek ?ptk) (plain_as_bytes plain) = Ok w \<and> wrapped_len w = 56"
    using assms(2) by (simp add: software_aes128_key_wrap_def Let_def RSN_KEY_DATA_CAPACITY_def)
  then obtain w where w: "software_aes128_key_wrap (\<lambda>_. rev) (ptk_kek ?ptk) (plain_as_bytes plain) = Ok w"
    and "wrapped_len w = 56" by blast
  then have len: "length (wrapped_as_bytes w) \<le> 56" by (simp add: wrapped_as_bytes_def)
  have "inverse_ciphers (\<lambda>_. rev) (\<lambda>_. rev)" by (simp add: inverse_ciphers_def)
  from wrap_then_unwrap [OF this w] have nonempty: "wrapped_as_bytes w \<noteq> []"
    by (auto simp: software_aes128_key_unwrap_def)
  have akm: "sta_akm (sup_state own) = ptk_akm ?ptk" by (simp add: handshake_ptk_def exchange_ptk_akm)
  let ?info = "KEY_INFO_PAIRWISE OR KEY_INFO_INSTALL OR KEY_INFO_ACK OR KEY_INFO_MIC OR KEY_INFO_SECURE
    OR KEY_INFO_ENCRYPTED_KEY_DATA OR ucast (key_descriptor_version (sta_akm (sup_state own)))"
  obtain f where f: "RsnTxFrame_build 155 AccessPointInterface (sta_local (sup_state own)) 2 ?info RSN_GTK_LEN r
      (replicate 32 5) (replicate 8 1) (wrapped_as_bytes w) = Ok f"
    using request_built [of "replicate 32 5" "wrapped_as_bytes w" 155] len by force
  obtain g where "OwnedEapolFrame_try_copy 155 StationInterface (sta_authenticator (sup_state own))
      (tx_as_bytes (authenticate (env_mac env) f ?ptk)) = Ok g"
    using copy_built [OF f _ _ mac] unfolding authenticate_def by force
  moreover have "RsnTxFrame_message3 155 (sta_akm (sup_state own)) (sta_local (sup_state own)) r (replicate 32 5)
      (replicate 8 1) (wrapped_as_bytes w) = Ok f"
    using f nonempty by (simp add: RsnTxFrame_message3_def)
  ultimately show ?thesis using assms(1) w unfolding message3_from_ap_def by blast
qed

lemma sample_handshake:
  obtains own g1 g3 where "fresh_supplicant own" "length (sta_snonce (sup_state own)) = 32"
    "message1_from_ap own (replicate 32 5) 1 g1"
    "message3_from_ap sample_env (\<lambda>_. rev) own (replicate 32 5) 2 (replicate 8 1) sample_gtk None g3"
    "keys_for own sample_gtk None"
proof -
  obtain own where own: "fresh_supplicant own" "sta_snonce (sup_state own) = replicate 32 9"
    "\<not> sup_management_protection own" "ies_rsn_ie (sup_authenticator_ies own) = sample_rsn"
    "ies_rsnxe (sup_authenticator_ies own) = []"
    using sample_station_created unfolding fresh_supplicant_def by blast
  have plain: "RsnPlainKeyData_build 48 (ies_rsn_ie (sup_authenticator_ies own) @ ies_rsnxe (sup_authenticator_ies own))
      sample_gtk None = Ok \<lparr>plain_len = 48, plain_bytes = sample_rsn @ gtk_kde sample_gtk @ [0xdd, 0]\<rparr>"
    unfolding own by code_simp
  have "length (plain_as_bytes \<lparr>plain_len = 48, plain_bytes = sample_rsn @ gtk_kde sample_gtk @ [0xdd, 0]\<rparr>) = 48"
    by code_simp
  then obtain g3 where "message3_from_ap sample_env (\<lambda>_. rev) own (replicate 32 5) 2 (replicate 8 1) sample_gtk None g3"
    using sample_message3 [OF plain, of sample_env] by (auto simp: sample_env_def sample_mac_def)
  moreover have "keys_for own sample_gtk None" using own(3) by (simp add: keys_for_def sample_gtk_def RsnGtk_new_def)
  ultimately show thesis using that own(1,2) sample_message1 by fastforce
qed

theorem honest_handshake_completes_witness:
  "\<exists>own ops m2 i m4. fresh_supplicant own
     \<and> sup_outputs sample_env (sup_start own) ops
         = [Some (ReadyTransmit m2), None, Some (ReadyInstallKeys i), Some (ReadyTransmit m4)]
     \<and> retry_group (request_group i) = RsnKeyInstall_group StationInterface sample_gtk (replicate 8 1)"
proof -
  obtain own g1 g3 where s: "fresh_supplicant own" "length (sta_snonce (sup_state own)) = 32"
    "message1_from_ap own (replicate 32 5) 1 g1"
    "message3_from_ap sample_env (\<lambda>_. rev) own (replicate 32 5) 2 (replicate 8 1) sample_gtk None g3"
    "keys_for own sample_gtk None"
    by (rule sample_handshake)
  have inv: "inverse_ciphers (\<lambda>_. rev) (\<lambda>_. rev)" by (simp add: inverse_ciphers_def)
  have env: "227 \<le> env_capacity sample_env" "\<And>akm kck bytes. length (env_mac sample_env akm kck bytes) = 16"
    by (simp_all add: sample_env_def sample_mac_def)
  show ?thesis
    using honest_handshake_completes [OF s(1) env(1) _ s(2) _ env(2) inv s(3-5)] s(1) by fastforce
qed

lemma sample_run:
  obtains own ops m2 i m4 where "fresh_supplicant own" "length ops = 4" "\<not> list_ex is_message1 (drop 3 ops)"
    "sup_outputs sample_env (sup_start own) ops
       = [Some (ReadyTransmit m2), None, Some (ReadyInstallKeys i), Some (ReadyTransmit m4)]"
proof -
  obtain own g1 g3 where s: "fresh_supplicant own" "length (sta_snonce (sup_state own)) = 32"
    "message1_from_ap own (replicate 32 5) 1 g1"
    "message3_from_ap sample_env (\<lambda>_. rev) own (replicate 32 5) 2 (replicate 8 1) sample_gtk None g3"
    "keys_for own sample_gtk None"
    by (rule sample_handshake)
  have inv: "inverse_ciphers (\<lambda>_. rev) (\<lambda>_. rev)" by (simp add: inverse_ciphers_def)
  have env: "227 \<le> env_capacity sample_env" "\<And>akm kck bytes. length (env_mac sample_env akm kck bytes) = 16"
    by (simp_all add: sample_env_def sample_mac_def)
  let ?ops = "[FrameOp g1, FrameOp g3, UnwrapOp (software_aes128_key_unwrap (\<lambda>_. rev)
    (ptk_kek (handshake_ptk sample_env own (replicate 32 5))) (key_data (key_frame g3))), InstallOp True]"
  obtain m2 i m4 where "sup_outputs sample_env (sup_start own) ?ops
      = [Some (ReadyTransmit m2), None, Some (ReadyInstallKeys i), Some (ReadyTransmit m4)]"
    using handshake_completes [OF s(1) env(1) _ s(2) _ env(2) inv s(3-5)] by fastforce
  then show thesis using that [of own ?ops m2 i m4] s(1) by (simp add: is_message1_def del: sup_outputs.simps)
qed

text \<open>
  C5. Once the supplicant has handed out the pairwise key, no sequence of frames, forged, replayed or
  repeated Messages 3 included, of unwrap results and of installation outcomes makes it hand out a
  pairwise key again, unless a Message 1 arrives in between.
\<close>

theorem pairwise_key_is_installed_once:
  assumes "fresh_supplicant own"
    and "installs_pairwise (last (sup_outputs env (sup_start own) (before @ [op])))"
    and "\<not> list_ex is_message1 later"
  shows "\<not> list_ex installs_pairwise (sup_outputs env (sup_after env (sup_start own) (before @ [op])) later)"
proof -
  let ?run = "sup_after env (sup_start own) before"
  have ok: "run_ok env ?run" using fresh_run_ok [OF assms(1)] by (rule sup_after_ok)
  obtain out run' where step: "sup_step env ?run op = (out, run')" by fastforce
  have "installs_pairwise out" using assms(2) step by (simp add: sup_outputs_append)
  then have "sup_completed (run_own run') \<noteq> None" using sup_step_completed(1) [OF ok step] by blast
  moreover have "run_ok env run'" using sup_step_ok [OF ok step] by blast
  moreover have "sup_after env (sup_start own) (before @ [op]) = run'"
    using step by (simp add: sup_after_def)
  ultimately show ?thesis using no_second_install [OF _ _ assms(3)] by simp
qed

theorem pairwise_key_is_installed_once_witness:
  "\<exists>own before op later. fresh_supplicant own \<and> later \<noteq> []
     \<and> installs_pairwise (last (sup_outputs sample_env (sup_start own) (before @ [op])))
     \<and> \<not> list_ex installs_pairwise (sup_outputs sample_env (sup_after sample_env (sup_start own) (before @ [op])) later)"
proof -
  obtain own ops m2 i m4 where run: "fresh_supplicant own" "length ops = 4" "\<not> list_ex is_message1 (drop 3 ops)"
    "sup_outputs sample_env (sup_start own) ops
       = [Some (ReadyTransmit m2), None, Some (ReadyInstallKeys i), Some (ReadyTransmit m4)]"
    by (rule sample_run)
  then obtain a b c d where ops: "ops = [a, b, c, d]"
    by (auto simp: length_Suc_conv eval_nat_numeral)
  have "installs_pairwise (last (sup_outputs sample_env (sup_start own) ([a, b] @ [c])))"
    using run(4) by (auto simp: ops installs_pairwise_def)
  note this pairwise_key_is_installed_once [OF run(1) this, of "[d]"]
  moreover have "\<not> list_ex is_message1 [d]" using run(3) by (simp add: ops)
  ultimately show ?thesis using run(1) by blast
qed

text \<open>
  C6. Every installation of a pairwise key the supplicant ever asks for rests on a Message 3 it received
  from the access point, whose MIC verifies under the pairwise key derived from the PMK, the two
  addresses, the nonce that frame carries and the station's own nonce.  The key to install is the
  temporal key of that pairwise key, and the group keys come from the unwrapped key data, which
  repeats the security elements the access point advertised.
\<close>

theorem installed_keys_are_authenticated:
  assumes "fresh_supplicant own" "i < length ops"
    and "sup_outputs env (sup_start own) ops ! i = Some (ReadyInstallKeys request)"
  shows "\<exists>j<i. \<exists>frame plain keys. ops ! j = FrameOp frame \<and> ops ! i = UnwrapOp (Ok plain)
    \<and> key_message (key_frame frame) = PairwiseMessage3 \<and> frame_peer frame = sta_authenticator (sup_state own)
    \<and> verify_mic (env_mac env) (key_frame frame) (frame_ptk env own frame)
    \<and> request_pairwise request = RsnKeyInstall_pairwise StationInterface (frame_peer frame) (replicate 8 0)
        (frame_ptk env own frame)
    \<and> parse_gtk_key_data (unwrapped_as_bytes plain) (ies_rsn_ie (sup_authenticator_ies own))
        (ies_rsnxe (sup_authenticator_ies own)) (sup_management_protection own) = Ok keys
    \<and> retry_group (request_group request) = RsnKeyInstall_group StationInterface (group_gtk keys)
        (key_receive_sequence (key_frame frame))
    \<and> retry_igtk (request_group request) = group_igtk keys"
proof -
  let ?run = "sup_after env (sup_start own) (take i ops)"
  have start: "run_ok env (sup_start own)" using fresh_run_ok [OF assms(1)] .
  then have ok: "run_ok env ?run" by (rule sup_after_ok)
  have conf: "same_setup (run_own ?run) own"
    using sup_after_setup [OF start, of "take i ops"] by (simp add: sup_start_def)
  have "fst (sup_step env ?run (ops ! i)) = Some (ReadyInstallKeys request)"
    using assms(2,3) by (simp add: sup_outputs_nth)
  with ok obtain q plain where q: "run_unwrap ?run = Some q" and op: "ops ! i = UnwrapOp (Ok plain)"
    and ground: "group_grounded env (run_own ?run) (data_frame q) (unwrapped_as_bytes plain) (request_group request)"
    and pairwise: "request_pairwise request = RsnKeyInstall_pairwise StationInterface
       (sta_authenticator (sup_state (run_own ?run))) (replicate 8 0) (exchange_ptk env (sup_state (run_own ?run)))"
    by (rule sup_step_install)
  note g = ground [unfolded group_grounded_def]
  have ret: "validate_retained_message3 (sup_state (run_own ?run)) (data_frame q) = Ok ()" using g by blast
  note facts = retained_facts [OF ret] and ptk = exchange_is_frame_ptk [OF ret conf, of env]
  have auth: "sta_authenticator (sup_state (run_own ?run)) = sta_authenticator (sup_state own)"
    "sup_authenticator_ies (run_own ?run) = sup_authenticator_ies own"
    "sup_management_protection (run_own ?run) = sup_management_protection own"
    using conf by (simp_all add: same_setup_def same_identity_def)
  have "FrameOp (data_frame q) \<in> set (take i ops)"
    using sup_after_unwrap [OF start _ q] by (simp add: sup_start_def)
  then obtain j where j: "j < i" "ops ! j = FrameOp (data_frame q)"
    by (auto simp: in_set_conv_nth)
  obtain keys where "parse_gtk_key_data (unwrapped_as_bytes plain) (ies_rsn_ie (sup_authenticator_ies own))
      (ies_rsnxe (sup_authenticator_ies own)) (sup_management_protection own) = Ok keys"
    "retry_group (request_group request) = RsnKeyInstall_group StationInterface (group_gtk keys)
        (key_receive_sequence (key_frame (data_frame q)))"
    "retry_igtk (request_group request) = group_igtk keys"
    using g unfolding auth by blast
  moreover have "verify_mic (env_mac env) (key_frame (data_frame q)) (frame_ptk env own (data_frame q))"
    using g unfolding ptk by blast
  ultimately show ?thesis
    using j op facts(1,2) pairwise unfolding ptk auth by (metis (no_types, lifting))
qed

theorem installed_keys_are_authenticated_witness:
  "\<exists>own (request :: RsnStaKeyInstallRequest) frame. fresh_supplicant own
     \<and> verify_mic (env_mac sample_env) (key_frame frame) (frame_ptk sample_env own frame)
     \<and> request_pairwise request = RsnKeyInstall_pairwise StationInterface (frame_peer frame) (replicate 8 0)
         (frame_ptk sample_env own frame)"
proof -
  obtain own ops m2 i m4 where run: "fresh_supplicant own" "length ops = 4"
    "sup_outputs sample_env (sup_start own) ops
       = [Some (ReadyTransmit m2), None, Some (ReadyInstallKeys i), Some (ReadyTransmit m4)]"
    by (rule sample_run)
  then have "2 < length ops" "sup_outputs sample_env (sup_start own) ops ! 2 = Some (ReadyInstallKeys i)" by simp_all
  from installed_keys_are_authenticated [OF run(1) this] run(1) show ?thesis
    by blast
qed

end
