(* ===== verification/Rsn_Authenticator.thy ===== *)
theory Rsn_Authenticator
  imports Rsn_Handshake
begin

text \<open>
  Whole handshakes of the access point's machine (\<open>ieee80211/security/rsn/src/state/authenticator.rs\<close>):
  frames and completions arrive in any order, with any ticket and any frame.  A peer is authorized
  only when the MICs of a Message 2 and of a Message 4 were found valid for the pairwise key of one
  exchange, and a station that holds the PMK is authorized.
\<close>

subsection \<open>Runs\<close>

datatype ap_op =
    ApFrame OwnedEapolFrame
  | ApPtk RsnTicket OwnedEapolFrame bool
  | ApMic2 RsnTicket OwnedEapolFrame bool
  | ApPrepared RsnTicket bool
  | ApMic4 RsnTicket OwnedEapolFrame bool

fun ap_run_step :: "RsnApState \<Rightarrow> ap_op \<Rightarrow> (RsnApAction, RsnStateError) result \<times> RsnApState" where
  "ap_run_step st (ApFrame frame) = ap_on_frame st frame"
| "ap_run_step st (ApPtk ticket frame valid) = ap_complete_ptk st ticket frame valid"
| "ap_run_step st (ApMic2 ticket frame valid) = complete_message2_mic st ticket frame valid"
| "ap_run_step st (ApPrepared ticket prepared) = complete_message3_preparation st ticket prepared"
| "ap_run_step st (ApMic4 ticket frame valid) = complete_message4_mic st ticket frame valid"

fun ap_outputs :: "RsnApState \<Rightarrow> ap_op list \<Rightarrow> (RsnApAction, RsnStateError) result list" where
  "ap_outputs st [] = []"
| "ap_outputs st (op # ops) = fst (ap_run_step st op) # ap_outputs (snd (ap_run_step st op)) ops"

definition ap_after :: "RsnApState \<Rightarrow> ap_op list \<Rightarrow> RsnApState" where
  "ap_after st ops = foldl (\<lambda>st op. snd (ap_run_step st op)) st ops"

lemma ap_after_simps [simp]: "ap_after st [] = st" "ap_after st (op # ops) = ap_after (snd (ap_run_step st op)) ops"
  "ap_after st (ops @ [op]) = snd (ap_run_step (ap_after st ops) op)"
  by (simp_all add: ap_after_def)

lemma ap_outputs_nth:
  "i < length ops \<Longrightarrow> ap_outputs st ops ! i = fst (ap_run_step (ap_after st (take i ops)) (ops ! i))"
proof (induction ops arbitrary: st i)
  case (Cons op ops)
  then show ?case by (cases i) simp_all
qed simp

subsection \<open>What a phase rests on\<close>

text \<open>The peer and nonce of the access point, and the counter its handshake started with.\<close>

definition ap_same :: "RsnApState \<Rightarrow> RsnApState \<Rightarrow> bool" where
  "ap_same a b \<longleftrightarrow> ap_akm a = ap_akm b \<and> ap_authenticator a = ap_authenticator b \<and> ap_supplicant a = ap_supplicant b
     \<and> ap_anonce a = ap_anonce b \<and> ap_message1_replay a = ap_message1_replay b"

text \<open>A Message 2 of this handshake whose MIC was reported valid.\<close>

definition verified2 :: "RsnApState \<Rightarrow> ap_op \<Rightarrow> bool" where
  "verified2 st op \<longleftrightarrow> (case op of
      ApMic2 ticket frame valid \<Rightarrow> valid \<and> key_message (key_frame frame) = PairwiseMessage2
        \<and> frame_peer frame = ap_supplicant st \<and> replay_counter (key_frame frame) = ap_message1_replay st
        \<and> key_nonce (key_frame frame) = ap_snonce st
    | _ \<Rightarrow> False)"

lemma verified2_iff:
  "verified2 st op \<longleftrightarrow> (\<exists>t f. op = ApMic2 t f True \<and> key_message (key_frame f) = PairwiseMessage2
     \<and> frame_peer f = ap_supplicant st \<and> replay_counter (key_frame f) = ap_message1_replay st
     \<and> key_nonce (key_frame f) = ap_snonce st)"
  by (cases op) (auto simp: verified2_def)

definition after_message2 :: "RsnApPhase \<Rightarrow> bool" where
  "after_message2 phase \<longleftrightarrow> phase \<in> {ApPreparingMessage3, ApAwaitingMessage4, ApVerifyingMessage4, ApAuthorized}"

definition after_message3 :: "RsnApPhase \<Rightarrow> bool" where
  "after_message3 phase \<longleftrightarrow> phase \<in> {ApAwaitingMessage4, ApVerifyingMessage4, ApAuthorized}"

definition ap_grounded :: "ap_op list \<Rightarrow> RsnApState \<Rightarrow> bool" where
  "ap_grounded ops st \<longleftrightarrow> (after_message2 (ap_phase st) \<longrightarrow> list_ex (verified2 st) ops)
     \<and> (after_message3 (ap_phase st) \<longrightarrow> ap_message3_replay st = ap_message1_replay st + 1)"

lemma verified2_cong:
  "ap_same st' st \<Longrightarrow> ap_snonce st' = ap_snonce st \<Longrightarrow> verified2 st' = verified2 st"
  by (rule ext) (simp add: verified2_def ap_same_def split: ap_op.split)

lemma retained2_facts:
  assumes "validate_retained_message2 st frame = Ok ()"
  shows "key_message (key_frame frame) = PairwiseMessage2" "frame_peer frame = ap_supplicant st"
    "replay_counter (key_frame frame) = ap_message1_replay st" "key_nonce (key_frame frame) = ap_snonce st"
  using assms by (auto simp: validate_retained_message2_def ap_validate_frame_def Let_def split: if_splits result.splits)

lemma retained4_facts:
  assumes "validate_retained_message4 st frame = Ok ()"
  shows "key_message (key_frame frame) = PairwiseMessage4" "frame_peer frame = ap_supplicant st"
    "replay_counter (key_frame frame) = ap_message3_replay st"
  using assms by (auto simp: validate_retained_message4_def ap_validate_frame_def Let_def split: if_splits result.splits)

text \<open>A step keeps what its phase rests on, or reaches a phase for which the step itself is the reason.\<close>

lemma ap_step_cases:
  assumes "ap_run_step st op = (r, st')"
  shows "ap_same st' st"
    and "after_message2 (ap_phase st') \<Longrightarrow> after_message2 (ap_phase st) \<and> ap_snonce st' = ap_snonce st \<or> verified2 st' op"
    and "after_message3 (ap_phase st') \<Longrightarrow> after_message3 (ap_phase st) \<and> ap_message3_replay st' = ap_message3_replay st
      \<or> ap_message3_replay st' = ap_message1_replay st + 1"
proof -
  have "ap_same st' st
    \<and> (after_message2 (ap_phase st') \<longrightarrow> after_message2 (ap_phase st) \<and> ap_snonce st' = ap_snonce st \<or> verified2 st' op)
    \<and> (after_message3 (ap_phase st') \<longrightarrow> after_message3 (ap_phase st) \<and> ap_message3_replay st' = ap_message3_replay st
      \<or> ap_message3_replay st' = ap_message1_replay st + 1)"
  proof (cases op)
    case (ApFrame frame)
    then show ?thesis using assms
      by (auto simp: ap_on_frame_def ap_on_message2_def ap_on_message4_def Let_def ap_issue_ticket_def ap_same_def
          after_message2_def after_message3_def split: result.splits if_splits EapolKeyMessage.splits RsnApPhase.splits)
  next
    case (ApPtk ticket frame valid)
    then show ?thesis using assms
      by (auto simp: ap_complete_ptk_def Let_def ap_issue_ticket_def ap_same_def
          after_message2_def after_message3_def split: result.splits if_splits)
  next
    case (ApMic2 ticket frame valid)
    then show ?thesis using assms retained2_facts [of st frame]
      by (auto simp: complete_message2_mic_def Let_def ap_issue_ticket_def ap_same_def verified2_def
          after_message2_def after_message3_def split: result.splits if_splits)
  next
    case (ApPrepared ticket prepared)
    then show ?thesis using assms
      by (auto simp: complete_message3_preparation_def ap_same_def ap_check_completion_def checked_add_def
          after_message2_def after_message3_def split: result.splits if_splits option.splits)
  next
    case (ApMic4 ticket frame valid)
    then show ?thesis using assms
      by (auto simp: complete_message4_mic_def ap_same_def ap_check_completion_def
          after_message2_def after_message3_def split: result.splits if_splits)
  qed
  then show "ap_same st' st"
    "after_message2 (ap_phase st') \<Longrightarrow> after_message2 (ap_phase st) \<and> ap_snonce st' = ap_snonce st \<or> verified2 st' op"
    "after_message3 (ap_phase st') \<Longrightarrow> after_message3 (ap_phase st) \<and> ap_message3_replay st' = ap_message3_replay st
      \<or> ap_message3_replay st' = ap_message1_replay st + 1" by blast+
qed

text \<open>The derivation of the pairwise key was asked for with the nonces of the exchange.\<close>

definition derived_for :: "RsnApState \<Rightarrow> (RsnApAction, RsnStateError) result \<Rightarrow> bool" where
  "derived_for st r \<longleftrightarrow> (case r of Ok (ApDerivePtk ticket ctx frame) \<Rightarrow> ctx = ap_ptk_context st | _ \<Rightarrow> False)"

lemma derived_for_iff: "derived_for st r \<longleftrightarrow> (\<exists>t f. r = Ok (ApDerivePtk t (ap_ptk_context st) f))"
  by (auto simp: derived_for_def split: result.splits RsnApAction.splits)

definition after_derivation :: "RsnApPhase \<Rightarrow> bool" where
  "after_derivation phase \<longleftrightarrow> phase \<in> {ApDerivingPtk, ApVerifyingMessage2} \<or> after_message2 phase"

lemma ap_step_derived:
  assumes "ap_run_step st op = (r, st')" "after_derivation (ap_phase st')"
  shows "after_derivation (ap_phase st) \<and> ap_snonce st' = ap_snonce st \<or> derived_for st' r"
proof (cases op)
  case (ApFrame frame)
  then show ?thesis using assms
    by (auto simp: ap_on_frame_def ap_on_message2_def ap_on_message4_def Let_def ap_issue_ticket_def after_derivation_def
        after_message2_def derived_for_def ap_ptk_context_def
        split: result.splits if_splits EapolKeyMessage.splits RsnApPhase.splits)
next
  case (ApPtk ticket frame valid)
  then show ?thesis using assms
    by (auto simp: ap_complete_ptk_def Let_def ap_issue_ticket_def ap_check_completion_def after_derivation_def
        after_message2_def split: result.splits if_splits)
next
  case (ApMic2 ticket frame valid)
  then show ?thesis using assms
    by (auto simp: complete_message2_mic_def Let_def ap_issue_ticket_def ap_check_completion_def after_derivation_def
        after_message2_def split: result.splits if_splits)
next
  case (ApPrepared ticket prepared)
  then show ?thesis using assms
    by (auto simp: complete_message3_preparation_def ap_check_completion_def after_derivation_def
        after_message2_def split: result.splits if_splits option.splits)
next
  case (ApMic4 ticket frame valid)
  then show ?thesis using assms
    by (auto simp: complete_message4_mic_def ap_check_completion_def after_derivation_def
        after_message2_def split: result.splits if_splits)
qed

lemma ap_same_trans: "ap_same a b \<Longrightarrow> ap_same b c \<Longrightarrow> ap_same a c"
  by (simp add: ap_same_def)

lemma derived_for_cong:
  "ap_same st' st \<Longrightarrow> ap_snonce st' = ap_snonce st \<Longrightarrow> derived_for st' = derived_for st"
  by (rule ext) (simp add: derived_for_def ap_same_def ap_ptk_context_def split: result.split RsnApAction.split)

lemma ap_outputs_append:
  "ap_outputs st (ops @ [op]) = ap_outputs st ops @ [fst (ap_run_step (ap_after st ops) op)]"
  by (induction ops arbitrary: st) simp_all

lemma ap_outputs_length [simp]: "length (ap_outputs st ops) = length ops"
  by (induction ops arbitrary: st) simp_all

lemma ap_run_grounded:
  assumes "ap_phase st = ApAwaitingMessage2"
  shows "ap_same (ap_after st ops) st \<and> ap_grounded ops (ap_after st ops)
    \<and> (after_derivation (ap_phase (ap_after st ops)) \<longrightarrow> list_ex (derived_for (ap_after st ops)) (ap_outputs st ops))"
proof (induction ops rule: rev_induct)
  case Nil
  then show ?case using assms
    by (simp add: ap_same_def ap_grounded_def after_message2_def after_message3_def after_derivation_def)
next
  case (snoc op ops)
  let ?st = "ap_after st ops"
  obtain r st' where step: "ap_run_step ?st op = (r, st')" by fastforce
  note cases = ap_step_cases [OF step] and derived = ap_step_derived [OF step]
  have same: "ap_same st' st" using cases(1) snoc.IH ap_same_trans by blast
  have replay: "ap_message1_replay st' = ap_message1_replay ?st" using cases(1) by (simp add: ap_same_def)
  have "after_message2 (ap_phase st') \<Longrightarrow> list_ex (verified2 st') (ops @ [op])"
    using cases(2) snoc.IH verified2_cong [OF cases(1)] by (auto simp: ap_grounded_def)
  moreover have "after_message3 (ap_phase st') \<Longrightarrow> ap_message3_replay st' = ap_message1_replay st' + 1"
    using cases(3) snoc.IH replay by (auto simp: ap_grounded_def)
  moreover have "after_derivation (ap_phase st') \<Longrightarrow> list_ex (derived_for st') (ap_outputs st (ops @ [op]))"
    using derived snoc.IH derived_for_cong [OF cases(1)] step by (auto simp: ap_outputs_append)
  ultimately show ?case using same step by (simp add: ap_grounded_def)
qed

lemma ap_authorizes:
  assumes "fst (ap_run_step st op) = Ok ApAuthorizePeer"
  obtains ticket frame where "op = ApMic4 ticket frame True" "ap_phase st = ApVerifyingMessage4"
    "validate_retained_message4 st frame = Ok ()"
proof (cases op)
  case (ApFrame frame)
  then show ?thesis using assms
    by (auto simp: ap_on_frame_def ap_on_message2_def ap_on_message4_def Let_def ap_issue_ticket_def
        split: result.splits if_splits EapolKeyMessage.splits RsnApPhase.splits)
next
  case (ApMic4 ticket frame valid)
  then show ?thesis using assms that
    by (auto simp: complete_message4_mic_def ap_check_completion_def split: result.splits if_splits)
qed (use assms in \<open>auto simp: ap_complete_ptk_def complete_message2_mic_def complete_message3_preparation_def
    Let_def ap_issue_ticket_def split: result.splits if_splits option.splits\<close>)

text \<open>
  C8. Over any run of the access point's machine, with frames, completions and tickets in any order, a
  peer is authorized only by a Message 4 from that peer with the counter after Message 1's, reported
  to carry a valid MIC, and only after a Message 2 from that peer with Message 1's counter was
  reported valid; the pairwise key both refer to was derived for the two addresses, the access
  point's nonce and the nonce of that Message 2.
\<close>

theorem authorization_needs_verified_messages:
  assumes "RsnApState_new akm ap peer anonce r = Ok st" "i < length ops"
    and "ap_outputs st ops ! i = Ok ApAuthorizePeer"
  shows "\<exists>j<i. \<exists>k<i. \<exists>t2 f2 t4 f4 t f. ops ! j = ApMic2 t2 f2 True \<and> ops ! i = ApMic4 t4 f4 True
    \<and> key_message (key_frame f2) = PairwiseMessage2 \<and> frame_peer f2 = peer \<and> replay_counter (key_frame f2) = r
    \<and> key_message (key_frame f4) = PairwiseMessage4 \<and> frame_peer f4 = peer \<and> replay_counter (key_frame f4) = r + 1
    \<and> ap_outputs st ops ! k = Ok (ApDerivePtk t \<lparr>authenticator_address = ap, supplicant_address = peer,
        context_anonce = anonce, context_snonce = key_nonce (key_frame f2)\<rparr> f)"
proof -
  let ?st = "ap_after st (take i ops)"
  have st: "ap_phase st = ApAwaitingMessage2" "ap_authenticator st = ap" "ap_supplicant st = peer"
    "ap_anonce st = anonce" "ap_message1_replay st = r"
    using assms(1) by (auto simp: RsnApState_new_def split: if_splits)
  obtain t4 f4 where op: "ops ! i = ApMic4 t4 f4 True" and phase: "ap_phase ?st = ApVerifyingMessage4"
    and ret: "validate_retained_message4 ?st f4 = Ok ()"
    using ap_authorizes assms(2,3) by (metis ap_outputs_nth)
  have after: "after_message2 (ap_phase ?st)" "after_message3 (ap_phase ?st)" "after_derivation (ap_phase ?st)"
    using phase by (simp_all add: after_message2_def after_message3_def after_derivation_def)
  then have run: "ap_same ?st st" "list_ex (verified2 ?st) (take i ops)"
    "ap_message3_replay ?st = ap_message1_replay ?st + 1" "list_ex (derived_for ?st) (ap_outputs st (take i ops))"
    using ap_run_grounded [OF st(1), of "take i ops"] by (simp_all add: ap_grounded_def)
  have same: "ap_supplicant ?st = peer" "ap_message1_replay ?st = r" "ap_message3_replay ?st = r + 1"
    "ap_ptk_context ?st = \<lparr>authenticator_address = ap, supplicant_address = peer, context_anonce = anonce,
       context_snonce = ap_snonce ?st\<rparr>"
    using run(1,3) st by (simp_all add: ap_same_def ap_ptk_context_def)
  obtain j t2 f2 where j: "j < i" "ops ! j = ApMic2 t2 f2 True" "key_message (key_frame f2) = PairwiseMessage2"
    "frame_peer f2 = peer" "replay_counter (key_frame f2) = r" "key_nonce (key_frame f2) = ap_snonce ?st"
    using run(2) same assms(2) by (auto simp: list_ex_length verified2_iff)
  obtain k t f where k: "k < i" "ap_outputs st ops ! k = Ok (ApDerivePtk t (ap_ptk_context ?st) f)"
    using run(4) assms(2) by (auto simp: list_ex_length derived_for_iff ap_outputs_nth min_def)
  show ?thesis
    using j k op retained4_facts [OF ret] unfolding same by metis
qed

subsection \<open>An honest station\<close>

lemma station_authorized:
  fixes g2 g4 :: OwnedEapolFrame
  assumes new: "RsnApState_new akm ap peer anonce r = Ok st"
    and g2: "frame_interface g2 = AccessPointInterface" "frame_peer g2 = peer" "key_message (key_frame g2) = PairwiseMessage2"
      "descriptor_version (key_info (key_frame g2)) = key_descriptor_version akm" "replay_counter (key_frame g2) = r"
      "\<not> nonce_is_zero (key_nonce (key_frame g2))"
    and g4: "frame_interface g4 = AccessPointInterface" "frame_peer g4 = peer" "key_message (key_frame g4) = PairwiseMessage4"
      "descriptor_version (key_info (key_frame g4)) = key_descriptor_version akm" "replay_counter (key_frame g4) = r + 1"
  shows "ap_outputs st [ApFrame g2, ApPtk (RsnTicket 1) g2 True, ApMic2 (RsnTicket 2) g2 True,
      ApPrepared (RsnTicket 3) True, ApFrame g4, ApMic4 (RsnTicket 4) g4 True]
    = [Ok (ApDerivePtk (RsnTicket 1) \<lparr>authenticator_address = ap, supplicant_address = peer, context_anonce = anonce,
         context_snonce = key_nonce (key_frame g2)\<rparr> g2), Ok (ApVerifyMessage2Mic (RsnTicket 2) g2),
       Ok (ApPrepareMessage3 (RsnTicket 3)),
       Ok (ApTransmit \<lparr>transmit_message = TxMessage3, transmit_replay = r + 1, transmit_retransmission = False\<rparr>),
       Ok (ApVerifyMessage4Mic (RsnTicket 4) g4), Ok ApAuthorizePeer]"
proof -
  have top: "r \<noteq> - 1" and st: "st = \<lparr>ap_akm = akm, ap_authenticator = ap, ap_supplicant = peer,
      ap_anonce = anonce, ap_snonce = replicate 32 0, ap_phase = ApAwaitingMessage2, ap_message1_replay = r,
      ap_message3_replay = 0, ap_active_ticket = RsnTicket 0, ap_next_ticket = 1\<rparr>"
    using new by (auto simp: RsnApState_new_def split: if_splits)
  have "unat r \<noteq> unat (- 1 :: u64)" using top by (simp add: word_unat_eq_iff)
  moreover have "unat (- 1 :: u64) = 2 ^ 64 - 1" by (simp add: unsigned_minus_1_eq_mask mask_eq_exp_minus_1)
  moreover have "unat r < 2 ^ 64" using unsigned_less [of r] by simp
  ultimately have "checked_add r 1 = Some (r + 1)" by (simp add: checked_add_def)
  then show ?thesis using g2 g4
    by (simp add: st ap_on_frame_def ap_on_message2_def ap_on_message4_def ap_validate_frame_def Let_def
        ap_issue_ticket_def ticket_after_def ap_complete_ptk_def complete_message2_mic_def
        complete_message3_preparation_def complete_message4_mic_def ap_check_completion_def ap_ptk_context_def
        validate_retained_message2_def validate_retained_message4_def)
qed

text \<open>A frame of the station, as \<open>answers\<close> describes it, received by the access point.\<close>

lemma answer_received:
  assumes "answers env ptk m replay nonce data tx"
    and "OwnedEapolFrame_try_copy M AccessPointInterface peer (tx_as_bytes tx) = Ok g"
  shows "frame_interface g = AccessPointInterface" "frame_peer g = peer" "key_message (key_frame g) = m"
    "descriptor_version (key_info (key_frame g)) = key_descriptor_version (ptk_akm ptk)"
    "replay_counter (key_frame g) = replay" "key_nonce (key_frame g) = nonce" "verify_mic (env_mac env) (key_frame g) ptk"
proof -
  note copied = try_copy_view [OF assms(2)] and a = assms(1) [unfolded answers_def]
  have "key_frame g = tx_key_frame tx" using copied(1) a by simp
  then show "frame_interface g = AccessPointInterface" "frame_peer g = peer" "key_message (key_frame g) = m"
    "descriptor_version (key_info (key_frame g)) = key_descriptor_version (ptk_akm ptk)"
    "replay_counter (key_frame g) = replay" "key_nonce (key_frame g) = nonce" "verify_mic (env_mac env) (key_frame g) ptk"
    using copied a by simp_all
qed

text \<open>
  C19. An access point authorizes a station that answers as the handshake's supplicant does: Messages 2
  and 4 that answer its Message 1 and its Message 3 under the pairwise key of the PMK, the two
  addresses and the two nonces.  The machine asks for the key of exactly these nonces, both MICs
  verify under it, Message 3 takes the next replay counter, and the run ends with the authorization.
\<close>

theorem honest_station_is_authorized:
  fixes env akm ap peer anonce snonce
  defines "ctx \<equiv> \<lparr>authenticator_address = ap, supplicant_address = peer, context_anonce = anonce, context_snonce = snonce\<rparr>"
  defines "ptk \<equiv> derive_ptk (env_expand env) (env_pmk env) akm ctx"
  assumes "RsnApState_new akm ap peer anonce r = Ok st" "\<not> nonce_is_zero snonce"
    and "answers env ptk PairwiseMessage2 r snonce data m2"
    and "answers env ptk PairwiseMessage4 (r + 1) (replicate 32 0) [] m4"
    and "OwnedEapolFrame_try_copy M AccessPointInterface peer (tx_as_bytes m2) = Ok g2"
    and "OwnedEapolFrame_try_copy M AccessPointInterface peer (tx_as_bytes m4) = Ok g4"
  shows "ap_outputs st [ApFrame g2, ApPtk (RsnTicket 1) g2 True,
      ApMic2 (RsnTicket 2) g2 (verify_mic (env_mac env) (key_frame g2) ptk), ApPrepared (RsnTicket 3) True,
      ApFrame g4, ApMic4 (RsnTicket 4) g4 (verify_mic (env_mac env) (key_frame g4) ptk)]
    = [Ok (ApDerivePtk (RsnTicket 1) ctx g2), Ok (ApVerifyMessage2Mic (RsnTicket 2) g2),
       Ok (ApPrepareMessage3 (RsnTicket 3)),
       Ok (ApTransmit \<lparr>transmit_message = TxMessage3, transmit_replay = r + 1, transmit_retransmission = False\<rparr>),
       Ok (ApVerifyMessage4Mic (RsnTicket 4) g4), Ok ApAuthorizePeer]"
proof -
  have akm: "ptk_akm ptk = akm" by (simp add: ptk_def derive_ptk_def Let_def split_beta)
  note two = answer_received [OF assms(5,7)] and four = answer_received [OF assms(6,8)]
  have "ap_outputs st [ApFrame g2, ApPtk (RsnTicket 1) g2 True, ApMic2 (RsnTicket 2) g2 True,
      ApPrepared (RsnTicket 3) True, ApFrame g4, ApMic4 (RsnTicket 4) g4 True]
    = [Ok (ApDerivePtk (RsnTicket 1) \<lparr>authenticator_address = ap, supplicant_address = peer, context_anonce = anonce,
         context_snonce = key_nonce (key_frame g2)\<rparr> g2), Ok (ApVerifyMessage2Mic (RsnTicket 2) g2),
       Ok (ApPrepareMessage3 (RsnTicket 3)),
       Ok (ApTransmit \<lparr>transmit_message = TxMessage3, transmit_replay = r + 1, transmit_retransmission = False\<rparr>),
       Ok (ApVerifyMessage4Mic (RsnTicket 4) g4), Ok ApAuthorizePeer]"
    using two four assms(4) akm by (intro station_authorized [OF assms(3)]) simp_all
  then show ?thesis using two(6,7) four(7) by (simp only: ctx_def)
qed

subsection \<open>Witnesses\<close>

text \<open>A station's answers under any key, received.\<close>

lemma sample_answer:
  assumes m: "m = PairwiseMessage2 \<or> m = PairwiseMessage4" and "length nonce = 32"
    and mac: "\<And>akm kck bytes. length (env_mac env akm kck bytes) = 16"
  shows "\<exists>tx g. answers env ptk m replay nonce [] tx
    \<and> OwnedEapolFrame_try_copy 99 AccessPointInterface peer (tx_as_bytes tx) = Ok g"
proof -
  let ?info = "message_info m OR ucast (key_descriptor_version (ptk_akm ptk))"
  have "\<not> bit ?info 7" using m by (auto simp: bit_or_iff message_info_bits version_bits)
  then obtain f where f: "RsnTxFrame_build 99 StationInterface peer 1 ?info 0 replay nonce (replicate 8 0) [] = Ok f"
    using reply_built [of ?info "[]" 99] by fastforce
  have "f\<lparr>tx_retransmission := tx_retransmission f\<rparr> = f" by simp
  then have "answers env ptk m replay nonce [] (authenticate (env_mac env) f ptk)"
    using answer_built [OF f assms(2) _ mac, of "tx_retransmission f"] by simp
  moreover obtain g where "OwnedEapolFrame_try_copy 99 AccessPointInterface peer
      (tx_as_bytes (authenticate (env_mac env) f ptk)) = Ok g"
    using copy_built [OF f assms(2) _ mac] unfolding authenticate_def by force
  ultimately show ?thesis by blast
qed

definition sample_ap :: RsnApState where
  "sample_ap = expect_ok (RsnApState_new Psk [2, 0, 0, 0, 0, 2] [2, 0, 0, 0, 0, 1] (replicate 32 5) 1)"

lemma sample_ap_created:
  "RsnApState_new Psk [2, 0, 0, 0, 0, 2] [2, 0, 0, 0, 0, 1] (replicate 32 5) 1 = Ok sample_ap"
  by (simp add: sample_ap_def RsnApState_new_def)

abbreviation sample_ap_ptk :: Ptk where
  "sample_ap_ptk \<equiv> derive_ptk (env_expand sample_env) (env_pmk sample_env) Psk
     \<lparr>authenticator_address = [2, 0, 0, 0, 0, 2], supplicant_address = [2, 0, 0, 0, 0, 1],
      context_anonce = replicate 32 5, context_snonce = replicate 32 9\<rparr>"

lemma sample_answers:
  obtains m2 g2 m4 g4 where "answers sample_env sample_ap_ptk PairwiseMessage2 1 (replicate 32 9) [] m2"
    "OwnedEapolFrame_try_copy 99 AccessPointInterface [2, 0, 0, 0, 0, 1] (tx_as_bytes m2) = Ok g2"
    "answers sample_env sample_ap_ptk PairwiseMessage4 (1 + 1) (replicate 32 0) [] m4"
    "OwnedEapolFrame_try_copy 99 AccessPointInterface [2, 0, 0, 0, 0, 1] (tx_as_bytes m4) = Ok g4"
proof -
  have mac: "\<And>akm kck bytes. length (env_mac sample_env akm kck bytes) = 16"
    by (simp add: sample_env_def sample_mac_def)
  show thesis
    using sample_answer [OF _ _ mac, of PairwiseMessage2 "replicate 32 9" sample_ap_ptk 1]
      sample_answer [OF _ _ mac, of PairwiseMessage4 "replicate 32 0" sample_ap_ptk "1 + 1"] that
    by (metis (no_types, lifting) length_replicate)
qed

theorem honest_station_is_authorized_witness:
  "\<exists>ops. length ops = 6 \<and> last (ap_outputs sample_ap ops) = Ok ApAuthorizePeer"
proof -
  obtain m2 g2 m4 g4 where m: "answers sample_env sample_ap_ptk PairwiseMessage2 1 (replicate 32 9) [] m2"
    "OwnedEapolFrame_try_copy 99 AccessPointInterface [2, 0, 0, 0, 0, 1] (tx_as_bytes m2) = Ok g2"
    "answers sample_env sample_ap_ptk PairwiseMessage4 (1 + 1) (replicate 32 0) [] m4"
    "OwnedEapolFrame_try_copy 99 AccessPointInterface [2, 0, 0, 0, 0, 1] (tx_as_bytes m4) = Ok g4"
    by (rule sample_answers)
  let ?ops = "[ApFrame g2, ApPtk (RsnTicket 1) g2 True,
      ApMic2 (RsnTicket 2) g2 (verify_mic (env_mac sample_env) (key_frame g2) sample_ap_ptk), ApPrepared (RsnTicket 3) True,
      ApFrame g4, ApMic4 (RsnTicket 4) g4 (verify_mic (env_mac sample_env) (key_frame g4) sample_ap_ptk)]"
  have "last (ap_outputs sample_ap ?ops) = Ok ApAuthorizePeer"
    by (subst honest_station_is_authorized [OF sample_ap_created _ m(1,3,2,4)]) simp_all
  then show ?thesis by (intro exI [of _ ?ops] conjI) simp_all
qed

theorem authorization_needs_verified_messages_witness:
  "\<exists>ops j t2 f2. j < 5 \<and> ap_outputs sample_ap ops ! 5 = Ok ApAuthorizePeer \<and> ops ! j = ApMic2 t2 f2 True
     \<and> key_message (key_frame f2) = PairwiseMessage2 \<and> replay_counter (key_frame f2) = 1"
proof -
  obtain m2 g2 m4 g4 where m: "answers sample_env sample_ap_ptk PairwiseMessage2 1 (replicate 32 9) [] m2"
    "OwnedEapolFrame_try_copy 99 AccessPointInterface [2, 0, 0, 0, 0, 1] (tx_as_bytes m2) = Ok g2"
    "answers sample_env sample_ap_ptk PairwiseMessage4 (1 + 1) (replicate 32 0) [] m4"
    "OwnedEapolFrame_try_copy 99 AccessPointInterface [2, 0, 0, 0, 0, 1] (tx_as_bytes m4) = Ok g4"
    by (rule sample_answers)
  have akm: "ptk_akm sample_ap_ptk = Psk" by (simp add: derive_ptk_def Let_def split_beta)
  let ?ops = "[ApFrame g2, ApPtk (RsnTicket 1) g2 True, ApMic2 (RsnTicket 2) g2 True,
      ApPrepared (RsnTicket 3) True, ApFrame g4, ApMic4 (RsnTicket 4) g4 True]"
  note two = answer_received [OF m(1,2)] and four = answer_received [OF m(3,4)]
  have "ap_outputs sample_ap ?ops ! 5 = Ok ApAuthorizePeer"
    using two four akm by (subst station_authorized [OF sample_ap_created]) simp_all
  then obtain ops where ops: "5 < length ops" "ap_outputs sample_ap ops ! 5 = Ok ApAuthorizePeer"
    by (rule that [rotated]) simp
  from authorization_needs_verified_messages [OF sample_ap_created ops] ops(2) show ?thesis by blast
qed

end
