(* ===== verification/Rsn_Retry.thy ===== *)
theory Rsn_Retry
  imports Rsn_State Rsn_Key_Data Oer_Time
begin

text \<open>
  Timers and envelopes around the handshake: the access point's retransmission schedule
  (\<open>ieee80211/security/rsn/src/retry.rs\<close>), the station's response deadline (\<open>supplicant.rs\<close>), the
  access point's frames of its machine's transmissions and the Ethernet envelope (\<open>frames/transmit.rs\<close>).
\<close>

subsection \<open>Retransmission\<close>

record RsnRetryConfig =
  first_interval :: Duration
  subsequent_interval :: Duration
  config_attempts :: u8

datatype RsnRetryError = ZeroFirstInterval | ZeroSubsequentInterval | ZeroAttempts | RetryDeadlineOverflow

record RsnRetryAlarm =
  alarm_generation :: u32
  alarm_deadline :: Instant

datatype RsnRetryAction = RetryStale | RetryExhausted | RetryTransmit RsnTransmit RsnRetryAlarm

record RsnRetry =
  retry_config :: RsnRetryConfig
  retry_generation :: u32
  retry_pending :: "RsnTransmit option"
  retry_attempts_left :: u8

definition RsnRetry_new :: "RsnRetryConfig \<Rightarrow> (RsnRetry, RsnRetryError) result" where
  "RsnRetry_new config =
     (if duration_micros (first_interval config) = 0 then Err ZeroFirstInterval
      else if duration_micros (subsequent_interval config) = 0 then Err ZeroSubsequentInterval
      else if config_attempts config = 0 then Err ZeroAttempts
      else Ok \<lparr>retry_config = config, retry_generation = 0, retry_pending = None, retry_attempts_left = 0\<rparr>)"

definition next_generation :: "u32 \<Rightarrow> u32" where
  "next_generation current = (let next_value = current + 1 in if next_value = 0 then 1 else next_value)"

definition retry_arm ::
    "RsnRetry \<Rightarrow> RsnTransmit \<Rightarrow> Instant \<Rightarrow> (RsnRetryAlarm, RsnRetryError) result \<times> RsnRetry" where
  "retry_arm self original now =
     (case Instant_checked_add now (first_interval (retry_config self)) of
        None \<Rightarrow> (Err RetryDeadlineOverflow, self)
      | Some deadline \<Rightarrow>
          (let self = self\<lparr>retry_generation := next_generation (retry_generation self),
                 retry_pending := Some (original\<lparr>transmit_retransmission := True\<rparr>),
                 retry_attempts_left := config_attempts (retry_config self)\<rparr>
           in (Ok \<lparr>alarm_generation = retry_generation self, alarm_deadline = deadline\<rparr>, self)))"

definition retry_cancel :: "RsnRetry \<Rightarrow> RsnRetry" where
  "retry_cancel self = self\<lparr>retry_generation := next_generation (retry_generation self), retry_pending := None,
     retry_attempts_left := 0\<rparr>"

definition alarm_after :: "RsnRetry \<Rightarrow> Instant \<Rightarrow> (RsnRetryAlarm, RsnRetryError) result" where
  "alarm_after self now =
     (case Instant_checked_add now (subsequent_interval (retry_config self)) of
        None \<Rightarrow> Err RetryDeadlineOverflow
      | Some deadline \<Rightarrow> Ok \<lparr>alarm_generation = retry_generation self, alarm_deadline = deadline\<rparr>)"

definition defer_first_after_ack :: "RsnRetry \<Rightarrow> Instant \<Rightarrow> (RsnRetryAlarm option, RsnRetryError) result" where
  "defer_first_after_ack self now =
     (if retry_pending self = None \<or> retry_attempts_left self \<noteq> config_attempts (retry_config self) then Ok None
      else case alarm_after self now of Err e \<Rightarrow> Err e | Ok alarm \<Rightarrow> Ok (Some alarm))"

definition retry_on_alarm ::
    "RsnRetry \<Rightarrow> RsnRetryAlarm \<Rightarrow> Instant \<Rightarrow> (RsnRetryAction, RsnRetryError) result \<times> RsnRetry" where
  "retry_on_alarm self alarm now =
     (if alarm_generation alarm \<noteq> retry_generation self then (Ok RetryStale, self)
      else case retry_pending self of
          None \<Rightarrow> (Ok RetryStale, self)
        | Some frame \<Rightarrow>
            if retry_attempts_left self = 0 then (Ok RetryExhausted, retry_cancel self)
            else
              (let self = self\<lparr>retry_attempts_left := retry_attempts_left self - 1\<rparr>
               in case alarm_after self now of
                    Err e \<Rightarrow> (Err e, self)
                  | Ok next_alarm \<Rightarrow> (Ok (RetryTransmit frame next_alarm), self)))"

definition is_armed :: "RsnRetry \<Rightarrow> bool" where
  "is_armed self \<longleftrightarrow> retry_pending self \<noteq> None"

definition pending_message :: "RsnRetry \<Rightarrow> RsnTxMessage option" where
  "pending_message self = map_option transmit_message (retry_pending self)"

subsection \<open>Response deadlines of the station\<close>

definition RSN_STA_MESSAGE1_TIMEOUT :: Duration where "RSN_STA_MESSAGE1_TIMEOUT = Duration_from_secs 3"
definition RSN_STA_MESSAGE3_TIMEOUT :: Duration where "RSN_STA_MESSAGE3_TIMEOUT = Duration_from_secs 6"

datatype RsnStaResponseWait = WaitMessage1 | WaitMessage3

fun wait_timeout :: "RsnStaResponseWait \<Rightarrow> Duration" where
  "wait_timeout WaitMessage1 = RSN_STA_MESSAGE1_TIMEOUT"
| "wait_timeout WaitMessage3 = RSN_STA_MESSAGE3_TIMEOUT"

datatype RsnStaDeadlineEvent = DeadlinePending | DeadlineExpired RsnStaResponseWait Duration

record RsnStaResponseDeadline =
  deadline_wait :: RsnStaResponseWait
  deadline_started :: Instant
  deadline_at :: Instant

definition RsnStaResponseDeadline_start :: "RsnStaResponseWait \<Rightarrow> Instant \<Rightarrow> RsnStaResponseDeadline option" where
  "RsnStaResponseDeadline_start wait now =
     (case Instant_checked_add now (wait_timeout wait) of
        Some deadline \<Rightarrow> Some \<lparr>deadline_wait = wait, deadline_started = now, deadline_at = deadline\<rparr>
      | None \<Rightarrow> None)"

definition deadline_poll :: "RsnStaResponseDeadline \<Rightarrow> Instant \<Rightarrow> RsnStaDeadlineEvent" where
  "deadline_poll self now =
     (if as_micros now \<ge> as_micros (deadline_at self)
      then DeadlineExpired (deadline_wait self) (saturating_duration_since now (deadline_started self))
      else DeadlinePending)"

subsection \<open>Frames of the access point and their envelope\<close>

definition RsnTxFrame_message2 ::
    "nat \<Rightarrow> nat \<Rightarrow> Akm \<Rightarrow> u8 list \<Rightarrow> u64 \<Rightarrow> u8 list \<Rightarrow> OwnedRsnIe \<Rightarrow> (RsnTxFrame, RsnFrameError) result" where
  "RsnTxFrame_message2 N R akm peer replay snonce rsn_ie =
     (case Ies_try_copy R rsn_ie [] of
        Err e \<Rightarrow> Err e
      | Ok security_ies \<Rightarrow> RsnTxFrame_message2_with_security_ies N akm peer replay snonce (ies_as_bytes security_ies))"

definition build_ap_action_frame ::
    "nat \<Rightarrow> RsnApState \<Rightarrow> RsnTransmit \<Rightarrow> u8 list \<Rightarrow> u8 list \<Rightarrow> (RsnTxFrame, RsnFrameError) result" where
  "build_ap_action_frame N state transmit key_rsc wrapped =
     (let built = (case transmit_message transmit of
            TxMessage1 \<Rightarrow> RsnTxFrame_message1 N (ap_akm state) (ap_supplicant state) (transmit_replay transmit)
              (ap_anonce state)
          | TxMessage3 \<Rightarrow> RsnTxFrame_message3 N (ap_akm state) (ap_supplicant state) (transmit_replay transmit)
              (ap_anonce state) key_rsc wrapped
          | _ \<Rightarrow> Err UnexpectedTransmitAction)
      in case built of
           Err e \<Rightarrow> Err e
         | Ok frame \<Rightarrow> Ok (frame\<lparr>tx_retransmission := transmit_retransmission transmit\<rparr>))"

definition EAPOL_ETHERTYPE :: "u8 list" where "EAPOL_ETHERTYPE = [0x88, 0x8e]"

record RsnEthernetFrame =
  ethernet_interface :: RsnInterface
  ethernet_len :: nat
  ethernet_bytes :: "u8 list"

definition RsnEthernetFrame_build :: "nat \<Rightarrow> u8 list \<Rightarrow> RsnTxFrame \<Rightarrow> (RsnEthernetFrame, RsnFrameError) result" where
  "RsnEthernetFrame_build N local_address eapol =
     (let len = 14 + length (tx_as_bytes eapol)
      in if len > N then Err FrameCapacityExceeded
         else
           let bytes = replicate N 0;
               bytes = write_at 0 (tx_peer eapol) bytes;
               bytes = write_at 6 local_address bytes;
               bytes = write_at 12 EAPOL_ETHERTYPE bytes;
               bytes = write_at 14 (tx_as_bytes eapol) bytes
           in Ok \<lparr>ethernet_interface = tx_interface eapol, ethernet_len = len, ethernet_bytes = bytes\<rparr>)"

definition ethernet_as_bytes :: "RsnEthernetFrame \<Rightarrow> u8 list" where
  "ethernet_as_bytes self = take (ethernet_len self) (ethernet_bytes self)"

lemma ethernet_envelope:
  assumes "RsnEthernetFrame_build N local_address eapol = Ok frame" "length (tx_peer eapol) = 6" "length local_address = 6"
  shows "ethernet_as_bytes frame = tx_peer eapol @ local_address @ EAPOL_ETHERTYPE @ tx_as_bytes eapol"
proof -
  have fits: "14 + length (tx_as_bytes eapol) \<le> N"
    and frame: "ethernet_len frame = 14 + length (tx_as_bytes eapol)"
      "ethernet_bytes frame = write_at 14 (tx_as_bytes eapol) (write_at 12 EAPOL_ETHERTYPE
         (write_at 6 local_address (write_at 0 (tx_peer eapol) (replicate N 0))))"
    using assms(1) by (auto simp: RsnEthernetFrame_build_def Let_def split: if_splits)
  then show ?thesis using assms(2,3)
    by (simp add: ethernet_as_bytes_def write_at_def EAPOL_ETHERTYPE_def)
qed

subsection \<open>The schedule is finite\<close>

fun transmits :: "(RsnRetryAction, RsnRetryError) result \<Rightarrow> bool" where
  "transmits (Ok (RetryTransmit _ _)) = True"
| "transmits _ = False"

text \<open>Alarms delivered in any order, old and repeated ones included.\<close>

fun alarm_outputs ::
    "RsnRetry \<Rightarrow> (RsnRetryAlarm \<times> Instant) list \<Rightarrow> (RsnRetryAction, RsnRetryError) result list" where
  "alarm_outputs retry [] = []"
| "alarm_outputs retry ((alarm, now) # alarms) =
     (let (r, retry') = retry_on_alarm retry alarm now in r # alarm_outputs retry' alarms)"

text \<open>Each alarm of the schedule delivered once, at the given times.\<close>

fun alarm_chain :: "RsnRetry \<Rightarrow> RsnRetryAlarm \<Rightarrow> Instant list \<Rightarrow> (RsnRetryAction, RsnRetryError) result list" where
  "alarm_chain retry alarm [] = []"
| "alarm_chain retry alarm (now # instants) =
     (let (r, retry') = retry_on_alarm retry alarm now
      in r # (case r of Ok (RetryTransmit frame next_alarm) \<Rightarrow> alarm_chain retry' next_alarm instants | _ \<Rightarrow> []))"

text \<open>The transmissions left: the attempts of a pending message.\<close>

definition transmissions_left :: "RsnRetry \<Rightarrow> nat" where
  "transmissions_left retry = (if retry_pending retry = None then 0 else unat (retry_attempts_left retry))"

lemma alarm_budget:
  assumes "retry_on_alarm retry alarm now = (r, retry')"
  shows "transmissions_left retry' + (if transmits r then 1 else 0) \<le> transmissions_left retry"
proof -
  have "retry_attempts_left retry \<noteq> 0 \<Longrightarrow> unat (retry_attempts_left retry - 1) + 1 = unat (retry_attempts_left retry)"
    by (simp add: unat_minus_one unat_gt_0)
  then show ?thesis using assms
    by (auto simp: retry_on_alarm_def transmissions_left_def retry_cancel_def Let_def split: if_splits option.splits result.splits)
qed

lemma alarm_outputs_budget: "length (filter transmits (alarm_outputs retry alarms)) \<le> transmissions_left retry"
proof (induction retry alarms rule: alarm_outputs.induct)
  case (2 retry alarm now alarms)
  obtain r retry' where call: "retry_on_alarm retry alarm now = (r, retry')" by fastforce
  with 2 [OF call [symmetric]] alarm_budget [OF call] show ?case by auto
qed simp

lemma alarm_chain_runs:
  assumes "retry_pending retry = Some frame" "alarm_generation alarm = retry_generation retry"
    and "length instants = Suc n" "unat (retry_attempts_left retry) = n"
    and "\<forall>now \<in> set instants. Instant_checked_add now (subsequent_interval (retry_config retry)) \<noteq> None"
  shows "\<exists>alarms. length alarms = n
    \<and> alarm_chain retry alarm instants = map (\<lambda>a. Ok (RetryTransmit frame a)) alarms @ [Ok RetryExhausted]"
  using assms
proof (induction n arbitrary: retry alarm instants)
  case 0
  then obtain now where "instants = [now]" by (cases instants) simp_all
  moreover have "retry_attempts_left retry = 0" using 0 by (simp add: word_unat_eq_iff)
  ultimately show ?case using 0 by (simp add: retry_on_alarm_def)
next
  case (Suc n)
  then obtain now rest where instants: "instants = now # rest" "length rest = Suc n" by (cases instants) simp_all
  have nonzero: "retry_attempts_left retry \<noteq> 0" using Suc.prems(4) by auto
  have left: "retry_attempts_left retry \<noteq> 0" "unat (retry_attempts_left retry - 1) = n"
    using nonzero unat_minus_one [OF nonzero] Suc.prems(4) by simp_all
  obtain deadline where deadline: "Instant_checked_add now (subsequent_interval (retry_config retry)) = Some deadline"
    using Suc.prems(5) instants(1) by auto
  let ?retry = "retry\<lparr>retry_attempts_left := retry_attempts_left retry - 1\<rparr>"
  let ?alarm = "\<lparr>alarm_generation = retry_generation retry, alarm_deadline = deadline\<rparr>"
  have call: "retry_on_alarm retry alarm now = (Ok (RetryTransmit frame ?alarm), ?retry)"
    using Suc.prems(1,2) left(1) deadline by (simp add: retry_on_alarm_def alarm_after_def)
  obtain alarms where alarms: "length alarms = n"
    "alarm_chain ?retry ?alarm rest = map (\<lambda>a. Ok (RetryTransmit frame a)) alarms @ [Ok RetryExhausted]"
    using Suc.IH [of ?retry ?alarm rest] Suc.prems instants left by auto
  then show ?case
    by (intro exI [of _ "?alarm # alarms"]) (simp add: instants call)
qed

text \<open>
  C21. An armed retransmission schedule is finite: whatever alarms are delivered, in any order and at any
  times, the message is sent again at most as often as configured; and when each alarm of the
  schedule is delivered, it is sent again exactly that often, marked as a retransmission, and the
  alarm after the last one reports exhaustion.
\<close>

theorem handshake_retries_are_finite:
  assumes "retry_arm retry original now = (Ok alarm, armed)"
    and "length instants = Suc (unat (config_attempts (retry_config retry)))"
    and "list_all (\<lambda>t. Instant_checked_add t (subsequent_interval (retry_config retry)) \<noteq> None) instants"
  shows "length (filter transmits (alarm_outputs armed alarms)) \<le> unat (config_attempts (retry_config retry))
    \<and> (\<exists>next_alarms. length next_alarms = unat (config_attempts (retry_config retry))
        \<and> alarm_chain armed alarm instants
          = map (\<lambda>a. Ok (RetryTransmit (original\<lparr>transmit_retransmission := True\<rparr>) a)) next_alarms
            @ [Ok RetryExhausted])"
proof -
  have armed: "retry_pending armed = Some (original\<lparr>transmit_retransmission := True\<rparr>)" "retry_config armed = retry_config retry"
    "alarm_generation alarm = retry_generation armed" "retry_attempts_left armed = config_attempts (retry_config retry)"
    using assms(1) by (auto simp: retry_arm_def Let_def split: option.splits)
  then have "transmissions_left armed = unat (config_attempts (retry_config retry))" by (simp add: transmissions_left_def)
  then show ?thesis
    using alarm_outputs_budget [of armed alarms] armed assms(2,3)
      alarm_chain_runs [of armed "original\<lparr>transmit_retransmission := True\<rparr>" alarm instants]
    by (simp add: list_all_iff)
qed

definition sample_retry :: RsnRetry where
  "sample_retry = \<lparr>retry_config = \<lparr>first_interval = Duration 100, subsequent_interval = Duration 1000,
     config_attempts = 2\<rparr>, retry_generation = 7, retry_pending = None, retry_attempts_left = 0\<rparr>"

theorem handshake_retries_are_finite_witness:
  "\<exists>armed alarm next_alarms. retry_arm sample_retry \<lparr>transmit_message = TxMessage1, transmit_replay = 1,
       transmit_retransmission = False\<rparr> (Instant 5) = (Ok alarm, armed)
     \<and> alarm_chain armed alarm [Instant 105, Instant 1105, Instant 2105]
       = map (\<lambda>a. Ok (RetryTransmit \<lparr>transmit_message = TxMessage1, transmit_replay = 1,
           transmit_retransmission = True\<rparr> a)) next_alarms @ [Ok RetryExhausted]"
proof -
  let ?tx = "\<lparr>transmit_message = TxMessage1, transmit_replay = 1, transmit_retransmission = False\<rparr>"
  have "\<exists>alarm armed. retry_arm sample_retry ?tx (Instant 5) = (Ok alarm, armed)"
    by (simp add: retry_arm_def sample_retry_def Instant_checked_add_def checked_add_def Let_def)
  then obtain alarm armed where arm: "retry_arm sample_retry ?tx (Instant 5) = (Ok alarm, armed)" by blast
  have "length [Instant 105, Instant 1105, Instant 2105] = Suc (unat (config_attempts (retry_config sample_retry)))"
    "list_all (\<lambda>t. Instant_checked_add t (subsequent_interval (retry_config sample_retry)) \<noteq> None)
       [Instant 105, Instant 1105, Instant 2105]"
    by (simp_all add: sample_retry_def Instant_checked_add_def checked_add_def)
  from handshake_retries_are_finite [OF arm this] arm show ?thesis by auto
qed

end
