(* ===== verification/Ble_Acknowledgement.thy ===== *)
theory Ble_Acknowledgement
  imports Oer_Prelude
begin

text \<open>
  Acknowledgement and flow control of a Bluetooth LE connection
  (\<open>bluetooth/le/ll/src/connection/acknowledgement.rs\<close>): the one-bit sequence numbers, the header
  fields they travel in, and the state machine each side of a connection runs.  The second half
  joins two such machines by a link that may lose any transmission, with the callers that keep the
  payloads as the module asks of them, and shows that every PDU is delivered exactly once and in
  order.
\<close>

subsection \<open>Sequence numbers and header fields\<close>

datatype LlSequenceNumber = LlSequenceNumber (sequence_bit: bool)

definition LlSequenceNumber_ZERO :: LlSequenceNumber where
  "LlSequenceNumber_ZERO = LlSequenceNumber False"

definition LlSequenceNumber_ONE :: LlSequenceNumber where
  "LlSequenceNumber_ONE = LlSequenceNumber True"

definition LlSequenceNumber_next :: "LlSequenceNumber \<Rightarrow> LlSequenceNumber" where
  "LlSequenceNumber_next self = LlSequenceNumber (\<not> sequence_bit self)"

definition LLID_MASK :: u8 where "LLID_MASK = 0b11"
definition LLID_CONTINUATION_OR_EMPTY :: u8 where "LLID_CONTINUATION_OR_EMPTY = 0b01"
definition NESN :: u8 where "NESN = push_bit 2 1"
definition SN :: u8 where "SN = push_bit 3 1"
definition MD :: u8 where "MD = push_bit 4 1"

record HeaderFlags =
  sn :: LlSequenceNumber
  nesn :: LlSequenceNumber
  md :: bool

definition HeaderFlags_from_octet :: "u8 \<Rightarrow> HeaderFlags" where
  "HeaderFlags_from_octet octet =
     \<lparr>sn = LlSequenceNumber (octet AND SN \<noteq> 0),
      nesn = LlSequenceNumber (octet AND NESN \<noteq> 0),
      md = (octet AND MD \<noteq> 0)\<rparr>"

definition HeaderFlags_apply :: "HeaderFlags \<Rightarrow> u8 \<Rightarrow> u8" where
  "HeaderFlags_apply self octet0 =
     (let octet = octet0 AND NOT (SN OR NESN OR MD);
          octet = (if sequence_bit (sn self) then octet OR SN else octet);
          octet = (if sequence_bit (nesn self) then octet OR NESN else octet);
          octet = (if md self then octet OR MD else octet)
      in octet)"

record ReceivedHeader =
  header_flags :: HeaderFlags
  header_empty :: bool

text \<open>The argument is the two-octet header in air order.\<close>

definition ReceivedHeader_new :: "u8 \<times> u8 \<Rightarrow> ReceivedHeader" where
  "ReceivedHeader_new header =
     \<lparr>header_flags = HeaderFlags_from_octet (fst header),
      header_empty = (fst header AND LLID_MASK = LLID_CONTINUATION_OR_EMPTY \<and> snd header = 0)\<rparr>"

subsection \<open>The state machine\<close>

datatype Sent = SentData | SentEmpty

datatype Delivery = DeliverPdu | EmptyPdu | DuplicatePdu | DeferredPdu

record Received =
  acknowledged :: "Sent option"
  delivery :: Delivery

datatype Transmit = Resend Sent | TransmitData | TransmitEmpty

record Transmission =
  transmission_pdu :: Transmit
  transmission_flags :: HeaderFlags

record Acknowledgement =
  transmit_sequence :: LlSequenceNumber
  next_expected :: LlSequenceNumber
  in_flight :: "Sent option"
  sent_more_data :: bool
  received_more_data :: bool

definition Acknowledgement_new :: Acknowledgement where
  "Acknowledgement_new =
     \<lparr>transmit_sequence = LlSequenceNumber_ZERO, next_expected = LlSequenceNumber_ZERO,
      in_flight = None, sent_more_data = False, received_more_data = False\<rparr>"

text \<open>The release of the PDU in flight; a peer acknowledging nothing in flight is ignored.\<close>

definition release_in_flight :: "Acknowledgement \<Rightarrow> HeaderFlags \<Rightarrow> Sent option \<times> Acknowledgement" where
  "release_in_flight self flags =
     (if nesn flags = transmit_sequence self then (None, self)
      else let released = in_flight self;
               self = self\<lparr>in_flight := None\<rparr>
           in (released,
               if released \<noteq> None
               then self\<lparr>transmit_sequence := LlSequenceNumber_next (transmit_sequence self)\<rparr>
               else self))"

definition take_delivery :: "Acknowledgement \<Rightarrow> ReceivedHeader \<Rightarrow> bool \<Rightarrow> Delivery \<times> Acknowledgement" where
  "take_delivery self header room =
     (let advanced = self\<lparr>next_expected := LlSequenceNumber_next (next_expected self)\<rparr>
      in if sn (header_flags header) \<noteq> next_expected self then (DuplicatePdu, self)
         else if header_empty header then (EmptyPdu, advanced)
         else if room then (DeliverPdu, advanced)
         else (DeferredPdu, self))"

definition ack_receive :: "Acknowledgement \<Rightarrow> ReceivedHeader \<Rightarrow> bool \<Rightarrow> Received \<times> Acknowledgement" where
  "ack_receive self header room =
     (let flags = header_flags header;
          self = self\<lparr>received_more_data := md flags\<rparr>;
          (released, self) = release_in_flight self flags;
          (taken, self) = take_delivery self header room
      in (\<lparr>acknowledged = released, delivery = taken\<rparr>, self))"

text \<open>\<open>queued\<close> counts the PDUs the caller has waiting, not counting the one in flight.\<close>

definition ack_transmit :: "Acknowledgement \<Rightarrow> nat \<Rightarrow> Transmission \<times> Acknowledgement" where
  "ack_transmit self queued =
     (let (pdu, more_data, self) =
            (case in_flight self of
               Some sent \<Rightarrow> (Resend sent, queued > 0, self)
             | None \<Rightarrow> (if queued > 0
                       then (TransmitData, queued > 1, self\<lparr>in_flight := Some SentData\<rparr>)
                       else (TransmitEmpty, False, self\<lparr>in_flight := Some SentEmpty\<rparr>)));
          self = self\<lparr>sent_more_data := more_data\<rparr>
      in (\<lparr>transmission_pdu = pdu,
           transmission_flags = \<lparr>sn = transmit_sequence self, nesn = next_expected self,
             md = more_data\<rparr>\<rparr>, self))"

definition more_data :: "Acknowledgement \<Rightarrow> bool" where
  "more_data self \<longleftrightarrow> sent_more_data self \<or> received_more_data self"

subsection \<open>Header fields round trip\<close>

lemma sequence_next_neq [simp]:
  "LlSequenceNumber_next s \<noteq> s" "s \<noteq> LlSequenceNumber_next s"
  "LlSequenceNumber_next (LlSequenceNumber_next s) = s"
  by (cases s; simp add: LlSequenceNumber_next_def)+

lemma sequence_neq_iff: "s \<noteq> t \<longleftrightarrow> s = LlSequenceNumber_next t"
  by (cases s; cases t) (auto simp: LlSequenceNumber_next_def)

lemmas flag_masks = SN_def NESN_def MD_def

lemma bit_apply:
  "bit (HeaderFlags_apply f octet) i \<longleftrightarrow>
     (if i = 3 then sequence_bit (sn f) else if i = 2 then sequence_bit (nesn f)
      else if i = 4 then md f else bit octet i)"
proof (cases "i < 8")
  case True
  then have "i \<in> {0, 1, 2, 3, 4, 5, 6, 7}" by auto
  then show ?thesis
    by (elim insertE)
      (auto simp: HeaderFlags_apply_def Let_def flag_masks bit_simps)
next
  case False
  then show ?thesis using bit_imp_le_length [of octet i] bit_imp_le_length [of "HeaderFlags_apply f octet" i]
    by auto
qed

lemma octet_and_flag:
  "octet AND SN \<noteq> 0 \<longleftrightarrow> bit octet 3" "octet AND NESN \<noteq> 0 \<longleftrightarrow> bit octet 2"
  "octet AND MD \<noteq> 0 \<longleftrightarrow> bit octet 4"
  using and_exp_eq_0_iff_not_bit [of octet 3] and_exp_eq_0_iff_not_bit [of octet 2]
    and_exp_eq_0_iff_not_bit [of octet 4] by (simp_all add: flag_masks)

lemma from_octet_apply [simp]: "HeaderFlags_from_octet (HeaderFlags_apply f octet) = f"
  by (cases f) (simp add: HeaderFlags_from_octet_def octet_and_flag bit_apply)

lemma apply_keeps_llid [simp]: "HeaderFlags_apply f octet AND LLID_MASK = octet AND LLID_MASK"
proof (rule bit_word_eqI)
  fix i assume "i < LENGTH(8)"
  have "bit LLID_MASK i \<longleftrightarrow> i < 2"
    using bit_mask_iff [where 'a = "8 word", of 2 i] by (auto simp: LLID_MASK_def mask_eq_exp_minus_1)
  then show "bit (HeaderFlags_apply f octet AND LLID_MASK) i = bit (octet AND LLID_MASK) i"
    by (auto simp: bit_and_iff bit_apply)
qed

theorem header_flags_roundtrip:
  "HeaderFlags_from_octet (HeaderFlags_apply f octet) = f
   \<and> HeaderFlags_apply (HeaderFlags_from_octet octet) octet = octet
   \<and> (\<forall>i. i \<notin> {2, 3, 4} \<longrightarrow> bit (HeaderFlags_apply f octet) i = bit octet i)"
  by (auto simp: bit_apply HeaderFlags_from_octet_def octet_and_flag
      intro!: bit_word_eqI split: if_splits)

subsection \<open>Two sides and a link that loses transmissions\<close>

text \<open>
  A PDU of the caller: its LLID bits with the other header bits that are not sequenced, and its
  payload.  A PDU that would read as empty cannot be queued, and the length field has one octet.
\<close>

record LlPdu =
  llid_octet :: u8
  pdu_body :: "u8 list"

definition queueable :: "LlPdu \<Rightarrow> bool" where
  "queueable pdu \<longleftrightarrow> length (pdu_body pdu) < 256
     \<and> \<not> (llid_octet pdu AND LLID_MASK = LLID_CONTINUATION_OR_EMPTY \<and> pdu_body pdu = [])"

text \<open>
  One side of the connection with its caller: the PDUs waiting, the PDU held while it is in
  flight, and the PDUs taken from the peer.  \<open>submitted\<close> and \<open>released\<close> are the histories of what
  was queued and of what an acknowledgement released.
\<close>

record Side =
  side_state :: Acknowledgement
  waiting :: "LlPdu list"
  held_pdu :: "LlPdu option"
  delivered :: "LlPdu list"
  submitted :: "LlPdu list"
  released :: "LlPdu list"

definition Side_new :: Side where
  "Side_new = \<lparr>side_state = Acknowledgement_new, waiting = [], held_pdu = None, delivered = [],
     submitted = [], released = []\<rparr>"

definition submit :: "Side \<Rightarrow> LlPdu \<Rightarrow> Side" where
  "submit side pdu = (if queueable pdu
     then side\<lparr>waiting := waiting side @ [pdu], submitted := submitted side @ [pdu]\<rparr> else side)"

definition empty_pdu :: LlPdu where
  "empty_pdu = \<lparr>llid_octet = LLID_CONTINUATION_OR_EMPTY, pdu_body = []\<rparr>"

text \<open>The caller's part of a transmission: the PDU on air with its header.\<close>

definition side_send :: "Side \<Rightarrow> ((u8 \<times> u8) \<times> LlPdu) \<times> Side" where
  "side_send side =
     (let (transmission, state) = ack_transmit (side_state side) (length (waiting side));
          (pdu, side) =
            (case transmission_pdu transmission of
               TransmitData \<Rightarrow> (hd (waiting side),
                 side\<lparr>waiting := tl (waiting side), held_pdu := Some (hd (waiting side))\<rparr>)
             | TransmitEmpty \<Rightarrow> (empty_pdu, side)
             | Resend SentData \<Rightarrow> (the (held_pdu side), side)
             | Resend SentEmpty \<Rightarrow> (empty_pdu, side))
      in (((HeaderFlags_apply (transmission_flags transmission) (llid_octet pdu),
            word_of_nat (length (pdu_body pdu))), pdu), side\<lparr>side_state := state\<rparr>))"

text \<open>The caller's part of a reception with a valid CRC.\<close>

definition side_receive :: "Side \<Rightarrow> (u8 \<times> u8) \<times> LlPdu \<Rightarrow> bool \<Rightarrow> Side" where
  "side_receive side air room =
     (let (received, state) = ack_receive (side_state side) (ReceivedHeader_new (fst air)) room;
          side = side\<lparr>side_state := state\<rparr>;
          side = (if acknowledged received = Some SentData
                  then side\<lparr>released := released side @ [the (held_pdu side)], held_pdu := None\<rparr> else side)
      in if delivery received = DeliverPdu
         then side\<lparr>delivered := delivered side @ [snd air]\<rparr> else side)"

text \<open>
  One transmission from the first side to the second: \<open>None\<close> when it is lost or fails its CRC,
  otherwise whether the receiver has room.
\<close>

definition air_transfer :: "bool option \<Rightarrow> Side \<times> Side \<Rightarrow> Side \<times> Side" where
  "air_transfer reception sides =
     (let (air, sender) = side_send (fst sides)
      in (sender, case reception of None \<Rightarrow> snd sides | Some room \<Rightarrow> side_receive (snd sides) air room))"

datatype link_op =
    SubmitCentral LlPdu
  | SubmitPeripheral LlPdu
  | SendCentral "bool option"
  | SendPeripheral "bool option"

fun link_step :: "Side \<times> Side \<Rightarrow> link_op \<Rightarrow> Side \<times> Side" where
  "link_step (c, p) (SubmitCentral pdu) = (submit c pdu, p)"
| "link_step (c, p) (SubmitPeripheral pdu) = (c, submit p pdu)"
| "link_step (c, p) (SendCentral reception) = air_transfer reception (c, p)"
| "link_step (c, p) (SendPeripheral reception) = prod.swap (air_transfer reception (p, c))"

definition link_run :: "link_op list \<Rightarrow> Side \<times> Side" where
  "link_run = foldl link_step (Side_new, Side_new)"

subsection \<open>The invariant of one direction\<close>

text \<open>The PDU in flight that the peer has not taken, and the one it has taken already.\<close>

definition peer_took :: "Side \<Rightarrow> Side \<Rightarrow> bool" where
  "peer_took a b \<longleftrightarrow> next_expected (side_state b) \<noteq> transmit_sequence (side_state a)"

definition untaken :: "Side \<Rightarrow> Side \<Rightarrow> LlPdu list" where
  "untaken a b = (case held_pdu a of Some pdu \<Rightarrow> if peer_took a b then [] else [pdu] | None \<Rightarrow> [])"

definition unreleased :: "Side \<Rightarrow> Side \<Rightarrow> LlPdu list" where
  "unreleased a b = (case held_pdu a of Some pdu \<Rightarrow> if peer_took a b then [pdu] else [] | None \<Rightarrow> [])"

definition side_ok :: "Side \<Rightarrow> bool" where
  "side_ok a \<longleftrightarrow> (held_pdu a \<noteq> None \<longleftrightarrow> in_flight (side_state a) = Some SentData)
     \<and> (\<forall>pdu \<in> set (waiting a). queueable pdu) \<and> (\<forall>pdu. held_pdu a = Some pdu \<longrightarrow> queueable pdu)"

definition direction_ok :: "Side \<Rightarrow> Side \<Rightarrow> bool" where
  "direction_ok a b \<longleftrightarrow> (in_flight (side_state a) = None \<longrightarrow> \<not> peer_took a b)
     \<and> submitted a = delivered b @ untaken a b @ waiting a
     \<and> delivered b = released a @ unreleased a b"

definition link_ok :: "Side \<times> Side \<Rightarrow> bool" where
  "link_ok sides \<longleftrightarrow> side_ok (fst sides) \<and> side_ok (snd sides)
     \<and> direction_ok (fst sides) (snd sides) \<and> direction_ok (snd sides) (fst sides)"

lemma link_ok_swap: "link_ok (prod.swap sides) \<longleftrightarrow> link_ok sides"
  by (cases sides) (auto simp: link_ok_def)

lemmas direction_defs = direction_ok_def side_ok_def peer_took_def untaken_def unreleased_def

lemma link_ok_new: "link_ok (Side_new, Side_new)"
  by (simp add: link_ok_def direction_defs Side_new_def Acknowledgement_new_def)

lemma submit_ok:
  assumes "link_ok (a, b)"
  shows "link_ok (submit a pdu, b)"
  using assms by (auto simp: link_ok_def direction_defs submit_def split: option.splits)

text \<open>What is on air, as the receiver reads it.\<close>

definition air_of :: "Side \<Rightarrow> ReceivedHeader \<Rightarrow> LlPdu \<Rightarrow> bool" where
  "air_of a header pdu \<longleftrightarrow>
     sn (header_flags header) = transmit_sequence (side_state a)
     \<and> nesn (header_flags header) = next_expected (side_state a)
     \<and> (header_empty header \<longleftrightarrow> in_flight (side_state a) = Some SentEmpty)
     \<and> (\<forall>p. held_pdu a = Some p \<longrightarrow> pdu = p)"

lemma queueable_header:
  assumes "queueable pdu"
  shows "\<not> header_empty (ReceivedHeader_new (HeaderFlags_apply f (llid_octet pdu),
           word_of_nat (length (pdu_body pdu))))"
proof -
  have "(word_of_nat (length (pdu_body pdu)) :: u8) = 0 \<longleftrightarrow> pdu_body pdu = []"
    using assms by (auto simp: queueable_def word_of_nat_eq_0_iff dest: dvd_imp_le)
  with assms show ?thesis by (auto simp: ReceivedHeader_new_def queueable_def)
qed

lemma empty_header:
  "header_empty (ReceivedHeader_new (HeaderFlags_apply f (llid_octet empty_pdu),
     word_of_nat (length (pdu_body empty_pdu))))"
proof -
  have "LLID_CONTINUATION_OR_EMPTY AND LLID_MASK = LLID_CONTINUATION_OR_EMPTY"
    by (simp add: LLID_MASK_def LLID_CONTINUATION_OR_EMPTY_def)
  then show ?thesis by (simp add: ReceivedHeader_new_def empty_pdu_def)
qed

lemma header_flags_new [simp]:
  "header_flags (ReceivedHeader_new (HeaderFlags_apply f octet, len)) = f"
  by (simp add: ReceivedHeader_new_def)

definition pdu_on_air :: "HeaderFlags \<Rightarrow> LlPdu \<Rightarrow> (u8 \<times> u8) \<times> LlPdu" where
  "pdu_on_air f pdu = ((HeaderFlags_apply f (llid_octet pdu), word_of_nat (length (pdu_body pdu))), pdu)"

abbreviation current_flags :: "Side \<Rightarrow> bool \<Rightarrow> HeaderFlags" where
  "current_flags a m \<equiv> \<lparr>sn = transmit_sequence (side_state a), nesn = next_expected (side_state a), md = m\<rparr>"

text \<open>The four transmissions a side can make.\<close>

lemma side_send_cases:
  assumes "side_ok a"
  obtains (resend_data) p m where "in_flight (side_state a) = Some SentData" "held_pdu a = Some p" "queueable p"
      "side_send a = (pdu_on_air (current_flags a m) p, a\<lparr>side_state := (side_state a)\<lparr>sent_more_data := m\<rparr>\<rparr>)"
    | (resend_empty) m where "in_flight (side_state a) = Some SentEmpty" "held_pdu a = None"
      "side_send a = (pdu_on_air (current_flags a m) empty_pdu,
         a\<lparr>side_state := (side_state a)\<lparr>sent_more_data := m\<rparr>\<rparr>)"
    | (data) p ps m where "in_flight (side_state a) = None" "held_pdu a = None" "waiting a = p # ps" "queueable p"
      "side_send a = (pdu_on_air (current_flags a m) p, a\<lparr>waiting := ps, held_pdu := Some p,
         side_state := (side_state a)\<lparr>in_flight := Some SentData, sent_more_data := m\<rparr>\<rparr>)"
    | (idle) m where "in_flight (side_state a) = None" "held_pdu a = None" "waiting a = []"
      "side_send a = (pdu_on_air (current_flags a m) empty_pdu, a\<lparr>side_state :=
         (side_state a)\<lparr>in_flight := Some SentEmpty, sent_more_data := m\<rparr>\<rparr>)"
proof (cases "in_flight (side_state a)")
  case None
  show ?thesis
  proof (cases "waiting a")
    case Nil
    with None assms show ?thesis
      by (intro idle) (auto simp: side_ok_def side_send_def ack_transmit_def pdu_on_air_def)
  next
    case (Cons p ps)
    with None assms show ?thesis
      by (intro data [of p ps "ps \<noteq> []"]) (auto simp: side_ok_def side_send_def ack_transmit_def pdu_on_air_def)
  qed
next
  case (Some sent)
  show ?thesis
  proof (cases sent)
    case SentData
    with Some assms obtain p where "held_pdu a = Some p" "queueable p" by (auto simp: side_ok_def)
    with Some SentData show ?thesis
      by (intro resend_data [of p "waiting a \<noteq> []"]) (auto simp: side_send_def ack_transmit_def pdu_on_air_def)
  next
    case SentEmpty
    with Some assms show ?thesis
      by (intro resend_empty [of "waiting a \<noteq> []"])
        (auto simp: side_ok_def side_send_def ack_transmit_def pdu_on_air_def)
  qed
qed

lemma on_air_header [simp]:
  "header_flags (ReceivedHeader_new (fst (pdu_on_air f pdu))) = f" "snd (pdu_on_air f pdu) = pdu"
  "queueable pdu \<Longrightarrow> \<not> header_empty (ReceivedHeader_new (fst (pdu_on_air f pdu)))"
  "header_empty (ReceivedHeader_new (fst (pdu_on_air f empty_pdu)))"
  using queueable_header empty_header by (simp_all add: pdu_on_air_def)

text \<open>A direction reads of the receiving side only its expected number and what it delivered.\<close>

lemma direction_receiver_cong:
  assumes "next_expected (side_state a') = next_expected (side_state a)" "delivered a' = delivered a"
  shows "direction_ok b a' \<longleftrightarrow> direction_ok b a"
  using assms by (simp add: direction_ok_def peer_took_def untaken_def unreleased_def cong: option.case_cong)

lemma side_send_ok:
  assumes "side_ok a" and "side_send a = (air, a')"
  shows "side_ok a'" and "in_flight (side_state a') \<noteq> None"
    and "air_of a' (ReceivedHeader_new (fst air)) (snd air)"
    and "direction_ok a b \<Longrightarrow> direction_ok a' b" and "direction_ok b a \<Longrightarrow> direction_ok b a'"
proof -
  have "side_ok a' \<and> in_flight (side_state a') \<noteq> None
    \<and> air_of a' (ReceivedHeader_new (fst air)) (snd air)
    \<and> (direction_ok a b \<longrightarrow> direction_ok a' b) \<and> (direction_ok b a \<longrightarrow> direction_ok b a')"
    using assms(1)
  proof (cases rule: side_send_cases)
    case (resend_data p m)
    with assms have "air = pdu_on_air (current_flags a m) p"
      "a' = a\<lparr>side_state := (side_state a)\<lparr>sent_more_data := m\<rparr>\<rparr>" by simp_all
    with resend_data assms(1) show ?thesis
      using direction_receiver_cong [of a' a b]
      by (simp add: air_of_def side_ok_def direction_ok_def [of a] direction_ok_def [of _ b]
          peer_took_def untaken_def unreleased_def)
  next
    case (resend_empty m)
    with assms have "air = pdu_on_air (current_flags a m) empty_pdu"
      "a' = a\<lparr>side_state := (side_state a)\<lparr>sent_more_data := m\<rparr>\<rparr>" by simp_all
    with resend_empty assms(1) show ?thesis
      using direction_receiver_cong [of a' a b]
      by (simp add: air_of_def side_ok_def direction_ok_def [of a] direction_ok_def [of _ b]
          peer_took_def untaken_def unreleased_def)
  next
    case (data p ps m)
    with assms have "air = pdu_on_air (current_flags a m) p"
      "a' = a\<lparr>waiting := ps, held_pdu := Some p,
         side_state := (side_state a)\<lparr>in_flight := Some SentData, sent_more_data := m\<rparr>\<rparr>" by simp_all
    with data assms(1) show ?thesis
      using direction_receiver_cong [of a' a b]
      by (simp add: air_of_def side_ok_def direction_ok_def [of a] direction_ok_def [of _ b]
          peer_took_def untaken_def unreleased_def)
  next
    case (idle m)
    with assms have "air = pdu_on_air (current_flags a m) empty_pdu"
      "a' = a\<lparr>side_state := (side_state a)\<lparr>in_flight := Some SentEmpty, sent_more_data := m\<rparr>\<rparr>" by simp_all
    with idle assms(1) show ?thesis
      using direction_receiver_cong [of a' a b]
      by (simp add: air_of_def side_ok_def direction_ok_def [of a] direction_ok_def [of _ b]
          peer_took_def untaken_def unreleased_def)
  qed
  then show "side_ok a'" "in_flight (side_state a') \<noteq> None"
    "air_of a' (ReceivedHeader_new (fst air)) (snd air)"
    "direction_ok a b \<Longrightarrow> direction_ok a' b" "direction_ok b a \<Longrightarrow> direction_ok b a'" by blast+
qed

text \<open>A reception in two parts: what it releases and what it takes.\<close>

definition side_release :: "Side \<Rightarrow> ReceivedHeader \<Rightarrow> Side" where
  "side_release b header =
     (let (sent, state) = release_in_flight ((side_state b)\<lparr>received_more_data := md (header_flags header)\<rparr>)
            (header_flags header);
          b = b\<lparr>side_state := state\<rparr>
      in if sent = Some SentData then b\<lparr>released := released b @ [the (held_pdu b)], held_pdu := None\<rparr> else b)"

definition side_take :: "Side \<Rightarrow> ReceivedHeader \<Rightarrow> LlPdu \<Rightarrow> bool \<Rightarrow> Side" where
  "side_take b header pdu room =
     (let (taken, state) = take_delivery (side_state b) header room;
          b = b\<lparr>side_state := state\<rparr>
      in if taken = DeliverPdu then b\<lparr>delivered := delivered b @ [pdu]\<rparr> else b)"

lemma side_receive_split:
  "side_receive b air room = side_take (side_release b (ReceivedHeader_new (fst air)))
     (ReceivedHeader_new (fst air)) (snd air) room"
  by (auto simp: side_receive_def ack_receive_def side_release_def side_take_def Let_def split: prod.split)

lemma side_release_ok:
  assumes "side_ok b" "direction_ok a b" "direction_ok b a"
    and "nesn (header_flags header) = next_expected (side_state a)"
  shows "side_ok (side_release b header)" and "direction_ok a (side_release b header)"
    and "direction_ok (side_release b header) a"
proof -
  note defs = side_release_def release_in_flight_def Let_def direction_ok_def peer_took_def
    untaken_def unreleased_def side_ok_def
  show "side_ok (side_release b header)"
    using assms by (auto simp: defs)
  show "direction_ok a (side_release b header)"
    using assms by (auto simp: defs split: option.split)
  show "direction_ok (side_release b header) a"
    using assms sequence_neq_iff [of "next_expected (side_state a)" "transmit_sequence (side_state b)"]
    by (cases "in_flight (side_state b)"; cases "held_pdu b") (auto simp: defs)
qed

lemma side_take_ok:
  assumes "side_ok a" "side_ok b" "direction_ok a b" "direction_ok b a"
    and air: "air_of a header pdu" and flight: "in_flight (side_state a) \<noteq> None"
  shows "side_ok (side_take b header pdu room)" and "direction_ok a (side_take b header pdu room)"
    and "direction_ok (side_take b header pdu room) a"
proof -
  note defs = side_take_def take_delivery_def Let_def direction_ok_def peer_took_def
    untaken_def unreleased_def side_ok_def air_of_def
  show "side_ok (side_take b header pdu room)"
    using assms by (auto simp: defs)
  show "direction_ok (side_take b header pdu room) a"
    using assms by (auto simp: defs split: option.split)
  show "direction_ok a (side_take b header pdu room)"
    using assms sequence_neq_iff [of "next_expected (side_state b)" "transmit_sequence (side_state a)"]
    by (cases "in_flight (side_state a)"; cases "the (in_flight (side_state a))"; cases "held_pdu a")
      (auto simp: defs)
qed

lemma transfer_ok:
  assumes "link_ok (a, b)"
  shows "link_ok (air_transfer reception (a, b))"
proof -
  obtain air a' where send: "side_send a = (air, a')" by fastforce
  from assms have ok: "side_ok a" "side_ok b" "direction_ok a b" "direction_ok b a"
    by (simp_all add: link_ok_def)
  note sent = side_send_ok(1-3) [OF ok(1) send] side_send_ok(4) [OF ok(1) send ok(3)]
    side_send_ok(5) [OF ok(1) send ok(4)]
  let ?h = "ReceivedHeader_new (fst air)"
  have "nesn (header_flags ?h) = next_expected (side_state a')" using sent(3) by (simp add: air_of_def)
  note freed = side_release_ok [OF ok(2) sent(4,5) this]
  note took = side_take_ok [OF sent(1) freed sent(3,2)]
  show ?thesis using sent ok took
    by (cases reception) (simp_all add: air_transfer_def send link_ok_def side_receive_split)
qed

lemma link_step_ok: "link_ok sides \<Longrightarrow> link_ok (link_step sides op)"
proof (induction sides op rule: link_step.induct)
  case (2 c p pdu)
  then show ?case using submit_ok [of p c pdu] link_ok_swap [of "(c, p)"] link_ok_swap [of "(c, submit p pdu)"]
    by simp
next
  case (4 c p reception)
  then show ?case using transfer_ok [of p c reception] link_ok_swap [of "(c, p)"] by (simp add: link_ok_swap)
qed (simp_all add: submit_ok transfer_ok)

interpretation ble_link: invariant_machine link_ok link_step
  by unfold_locales (rule link_step_ok)

lemma link_run_ok: "link_ok (link_run ops)"
  unfolding link_run_def by (rule ble_link.run_inv) (rule link_ok_new)

text \<open>What the callers submitted, read off the operations.\<close>

fun central_submissions :: "link_op list \<Rightarrow> LlPdu list" where
  "central_submissions [] = []"
| "central_submissions (SubmitCentral pdu # ops) =
     (if queueable pdu then [pdu] else []) @ central_submissions ops"
| "central_submissions (_ # ops) = central_submissions ops"

fun peripheral_submissions :: "link_op list \<Rightarrow> LlPdu list" where
  "peripheral_submissions [] = []"
| "peripheral_submissions (SubmitPeripheral pdu # ops) =
     (if queueable pdu then [pdu] else []) @ peripheral_submissions ops"
| "peripheral_submissions (_ # ops) = peripheral_submissions ops"

lemma side_send_submitted: "submitted (snd (side_send a)) = submitted a"
  by (simp add: side_send_def Let_def split: prod.split Transmit.split Sent.split)

lemma side_receive_submitted: "submitted (side_receive b air room) = submitted b"
  by (simp add: side_receive_def Let_def split: prod.split)

lemma transfer_submitted:
  "submitted (fst (air_transfer reception sides)) = submitted (fst sides)"
  "submitted (snd (air_transfer reception sides)) = submitted (snd sides)"
  using side_send_submitted [of "fst sides"]
  by (auto simp: air_transfer_def side_receive_submitted split: prod.split option.split)

lemma foldl_submitted:
  "submitted (fst (foldl link_step sides ops)) = submitted (fst sides) @ central_submissions ops
   \<and> submitted (snd (foldl link_step sides ops)) = submitted (snd sides) @ peripheral_submissions ops"
proof (induction ops arbitrary: sides)
  case (Cons op ops)
  show ?case using Cons [of "link_step sides op"]
    by (cases sides; cases op) (simp_all add: submit_def transfer_submitted)
qed simp

lemma link_run_submitted:
  "submitted (fst (link_run ops)) = central_submissions ops"
  "submitted (snd (link_run ops)) = peripheral_submissions ops"
  using foldl_submitted [of "(Side_new, Side_new)" ops] by (simp_all add: link_run_def Side_new_def)

lemma in_flight_once: "length (unreleased a b @ untaken a b) \<le> 1"
  by (simp add: unreleased_def untaken_def split: option.split)

text \<open>
  C10. However the transmissions of both sides interleave, whatever is lost and whenever a receiver has
  no room, the peer has delivered exactly the PDUs released by acknowledgements, in the order they
  were submitted and each of them once, and at most the one PDU in flight besides; nothing
  submitted is lost: what is not released is in flight or still waiting.
\<close>

theorem pdus_are_delivered_once_in_order:
  "case link_run ops of (c, p) \<Rightarrow>
     central_submissions ops = released c @ unreleased c p @ untaken c p @ waiting c
     \<and> delivered p = released c @ unreleased c p \<and> length (unreleased c p @ untaken c p) \<le> 1
     \<and> peripheral_submissions ops = released p @ unreleased p c @ untaken p c @ waiting p
     \<and> delivered c = released p @ unreleased p c \<and> length (unreleased p c @ untaken p c) \<le> 1"
proof (cases "link_run ops")
  case (Pair c p)
  then have "direction_ok c p" "direction_ok p c" "submitted c = central_submissions ops"
    "submitted p = peripheral_submissions ops"
    using link_run_ok [of ops] link_run_submitted [of ops] by (simp_all add: link_ok_def)
  with Pair show ?thesis
    using in_flight_once [of c p] in_flight_once [of p c] by (simp add: direction_ok_def)
qed

subsection \<open>Progress\<close>

lemma transfer_taken:
  assumes ok: "link_ok (a, b)" and step: "air_transfer (Some True) (a, b) = (a', b')"
  shows "peer_took a' b'" "in_flight (side_state a') \<noteq> None"
    and "waiting a' = (if in_flight (side_state a) = None then tl (waiting a) else waiting a)"
proof -
  obtain air a1 where send: "side_send a = (air, a1)" by fastforce
  from ok have sok: "side_ok a" by (simp add: link_ok_def)
  note sent = side_send_ok(2,3) [OF sok send]
  have a': "a' = a1" and b': "b' = side_receive b air True"
    using step by (simp_all add: air_transfer_def send)
  show "in_flight (side_state a') \<noteq> None" using sent(1) a' by simp
  show "peer_took a' b'"
    using sent(2) unfolding a' b' side_receive_split
    by (auto simp: peer_took_def air_of_def side_take_def take_delivery_def Let_def)
  show "waiting a' = (if in_flight (side_state a) = None then tl (waiting a) else waiting a)"
    using sok a' send by (cases rule: side_send_cases) auto
qed

lemma transfer_released:
  assumes ok: "link_ok (b, a)" and took: "peer_took a b"
    and step: "air_transfer (Some room) (b, a) = (b', a')"
  shows "in_flight (side_state a') = None" "waiting a' = waiting a"
proof -
  obtain air b1 where send: "side_send b = (air, b1)" by fastforce
  from ok have sok: "side_ok b" by (simp add: link_ok_def)
  have "nesn (header_flags (ReceivedHeader_new (fst air))) = next_expected (side_state b)"
    using sok send by (cases rule: side_send_cases) auto
  moreover have "a' = side_receive a air room" using step by (simp add: air_transfer_def send)
  ultimately show "in_flight (side_state a') = None" "waiting a' = waiting a"
    using took unfolding side_receive_split
    by (auto simp: peer_took_def side_take_def side_release_def take_delivery_def release_in_flight_def Let_def)
qed

text \<open>One connection interval without loss, the peripheral having room.\<close>

definition exchange :: "bool \<Rightarrow> link_op list" where
  "exchange room = [SendCentral (Some True), SendPeripheral (Some room)]"

lemma exchange_clears:
  assumes ok: "link_ok (c, p)" and run: "foldl link_step (c, p) (exchange room) = (c', p')"
  shows "link_ok (c', p')" "in_flight (side_state c') = None" "submitted c' = submitted c"
    and "waiting c' = (if in_flight (side_state c) = None then tl (waiting c) else waiting c)"
proof -
  obtain c1 p1 where first: "air_transfer (Some True) (c, p) = (c1, p1)" by fastforce
  then have second: "air_transfer (Some room) (p1, c1) = (p', c')"
    using run by (auto simp: exchange_def prod.swap_def)
  have ok1: "link_ok (p1, c1)" using transfer_ok [OF ok, of "Some True"] first link_ok_swap [of "(c1, p1)"] by simp
  note taken = transfer_taken [OF ok first] and freed = transfer_released [OF ok1 _ second]
  show "link_ok (c', p')" using transfer_ok [OF ok1, of "Some room"] second link_ok_swap [of "(c', p')"] by simp
  show "in_flight (side_state c') = None" "waiting c' = (if in_flight (side_state c) = None
      then tl (waiting c) else waiting c)"
    using taken freed by simp_all
  show "submitted c' = submitted c"
    using transfer_submitted(1) [of "Some True" "(c, p)"] transfer_submitted(2) [of "Some room" "(p1, c1)"]
      first second by simp
qed

lemma exchanges_drain:
  assumes "link_ok (c, p)" and "foldl link_step (c, p) (concat (map exchange rooms)) = (c', p')"
    and "length (waiting c) + (if in_flight (side_state c) = None then 0 else 1) \<le> length rooms"
    and "rooms \<noteq> [] \<or> in_flight (side_state c) = None"
  shows "link_ok (c', p') \<and> in_flight (side_state c') = None \<and> waiting c' = [] \<and> submitted c' = submitted c"
  using assms
proof (induction rooms arbitrary: c p)
  case (Cons room rooms)
  obtain c1 p1 where first: "foldl link_step (c, p) (exchange room) = (c1, p1)" by fastforce
  note cleared = exchange_clears [OF Cons.prems(1) first]
  have "length (waiting c1) \<le> length rooms"
    using Cons.prems(3) cleared(4) by (cases "waiting c") (auto split: if_splits)
  with Cons.IH [OF cleared(1)] cleared Cons.prems(2) first show ?case by simp
qed auto

text \<open>
  C16. Whatever a run lost before, as many loss-free exchanges as the central has PDUs waiting, and one
  more for a PDU already in flight, deliver everything it submitted and release all of it,
  whether or not the central itself has room for what the peripheral sends.
\<close>

theorem exchanges_deliver_everything:
  assumes "link_run ops = (c, p)" and "length (waiting c) < length rooms"
    and "link_run (ops @ concat (map exchange rooms)) = (c', p')"
  shows "delivered p' = central_submissions ops \<and> released c' = central_submissions ops
     \<and> waiting c' = [] \<and> in_flight (side_state c') = None"
proof -
  have ok: "link_ok (c, p)" and sub: "submitted c = central_submissions ops"
    using link_run_ok [of ops] link_run_submitted(1) [of ops] assms(1) by simp_all
  have "foldl link_step (c, p) (concat (map exchange rooms)) = (c', p')"
    using assms(1,3) by (simp add: link_run_def)
  moreover have "length (waiting c) + (if in_flight (side_state c) = None then 0 else 1) \<le> length rooms" "rooms \<noteq> []"
    using assms(2) by auto
  ultimately have drained: "link_ok (c', p')" "in_flight (side_state c') = None" "waiting c' = []" "submitted c' = submitted c"
    using exchanges_drain [OF ok] by blast+
  then have "held_pdu c' = None" by (auto simp: link_ok_def side_ok_def)
  with drained sub show ?thesis
    by (simp add: link_ok_def direction_ok_def untaken_def unreleased_def)
qed

definition sample_pdu :: "u8 \<Rightarrow> LlPdu" where
  "sample_pdu octet = \<lparr>llid_octet = 2, pdu_body = [octet]\<rparr>"

text \<open>Two PDUs: the first is delivered and its acknowledgement lost, the second is waiting.\<close>

definition lossy_start :: "link_op list" where
  "lossy_start = [SubmitCentral (sample_pdu 7), SubmitCentral (sample_pdu 9), SendCentral None,
     SendCentral (Some False), SendCentral (Some True), SendPeripheral None]"

lemma lossy_start_waiting: "length (waiting (fst (link_run lossy_start))) = 1"
  by code_simp

theorem exchanges_deliver_everything_witness:
  "delivered (snd (link_run (lossy_start @ concat (map exchange [True, False])))) = [sample_pdu 7, sample_pdu 9]"
proof -
  obtain c p where run: "link_run lossy_start = (c, p)" by fastforce
  obtain c' p' where end_run: "link_run (lossy_start @ concat (map exchange [True, False])) = (c', p')" by fastforce
  have "length (waiting c) < length [True, False]" using lossy_start_waiting run by simp
  from exchanges_deliver_everything [OF run this end_run]
  have "delivered p' = central_submissions lossy_start" by simp
  also have "\<dots> = [sample_pdu 7, sample_pdu 9]" by code_simp
  finally show ?thesis using end_run by simp
qed

end
