(* ===== verification/Spec2Isabelle.thy ===== *)
theory Spec2Isabelle
  imports Oer_Prelude Oer_Time Sequence_Number Tx_Sequence Rx_Duplicate Frame_Header Wmm_Qos
    Data_Framing Block_Ack_Originator Block_Ack_Reorder Ccmp_Replay Fragment_Delivery
    Receive_Admission Tx_Exchange Ampdu_Run Rsn_Group_Run Rsn_Authenticator
    Rsn_Retry Ble_Acknowledgement
begin

text \<open>
  \<^bold>\<open>The IEEE 802.11 data path and key handshake of open-esp-radio-rs.\<close>

  The repository is a set of \<open>no_std\<close> Rust crates that drive the radios of ESP32 chips.  Its own
  logic is in the chip-independent protocol crates under \<open>crates/protocols\<close>; the hardware crates
  around them access registers.  This development models the core of the 802.11 MAC crate
  \<open>crates/protocols/ieee80211/mac/src\<close> (below: \<open>mac\<close>), the transmit policy of the upper MAC
  (\<open>crates/protocols/ieee80211/upper-mac/src\<close>), the WPA2 and WPA3 key handshake
  (\<open>crates/protocols/ieee80211/security/rsn/src\<close>, below: \<open>rsn\<close>), the acknowledgement scheme of Bluetooth LE
  connections (\<open>crates/protocols/bluetooth/le/ll/src/connection/acknowledgement.rs\<close>) and the time crate they
  count in.

  \<^bold>\<open>How the parts interact.\<close>  An outgoing Ethernet frame is classified (\<open>qos.rs\<close>), gets a planned
  802.11 header (\<open>data.rs\<close>), a number of its sequence space (\<open>station/sequence.rs\<close>) and a CCMP packet
  number (\<open>ccmp.rs\<close>); the Block Ack originator (\<open>block_ack/originator.rs\<close>) negotiates one
  session per TID (\<open>block_ack/session.rs\<close>) in action frames (\<open>block_ack/frame.rs\<close>).  A received MPDU is
  decoded (\<open>frame.rs\<close>), checked against the retry history (\<open>data/duplicate.rs\<close>) and the replay frontiers
  (\<open>ccmp/replay.rs\<close>) at the receive boundary (\<open>receive.rs\<close>), put in order by the reorder buffer (\<open>block_ack/reorder.rs\<close>) or joined by the
  reassembler (\<open>fragmentation\<close>), and decapsulated into Ethernet frames (\<open>data.rs\<close>).  The upper MAC sends each outgoing MPDU or
  aggregate as one exchange: it bounds the aggregate (\<open>aggregate.rs\<close>), plans every hardware attempt with its
  rate, protection and Retry bits (\<open>tx.rs\<close>, \<open>protection.rs\<close>) and retries by what the hardware reports
  (\<open>retry.rs\<close>, \<open>ampdu.rs\<close>).  The keys of all this come from the four-way handshake: the supplicant
  (\<open>rsn/supplicant.rs\<close>) feeds EAPOL-Key packets (\<open>rsn/eapol.rs\<close>, \<open>rsn/frames\<close>) to its state machine
  (\<open>rsn/state\<close>), derives the pairwise key, has the key data unwrapped (\<open>rsn/aes.rs\<close>) and hands the keys out
  for installation.

  \<^bold>\<open>Conventions.\<close>  Rust's unsigned integers are words of their width, so that \<open>+\<close> wraps, and the checked
  and saturating operations are definitions of the prelude.  \<open>usize\<close> offsets and lengths are natural
  numbers: they index slices, which are shorter than \<open>usize::MAX\<close>.  Arrays, slices and addresses are lists;
  an array of \<open>Option\<close> cells is a list of options.  Const generics are arguments.  A method that takes
  \<open>&mut self\<close> returns the updated state beside its result; an early return keeps the state it
  leaves behind.  \<open>Result\<close> is the type \<open>result\<close>, and every error constructor is one of the source's.
  Iterators are states with a \<open>next\<close> function.  Field names carry a prefix where two Rust structs share
  one.  All definitions are executable.

  \<^bold>\<open>Theories, in the order of their use.\<close>
  \<^item> \<open>Oer_Prelude\<close>: words, results, byte orders, lists with vacant cells, and the interfaces: the locales
    \<open>sequence_space\<close> (interpreted on sequence numbers), \<open>invariant_machine\<close> (interpreted on the Block Ack
    session, the originator, the reorder buffer, the reassembler, the handshake supplicant and the Bluetooth
    link) and \<open>rising_frontier\<close>
    (interpreted on the replay lanes of one key and on the replay epoch of an association).
  \<^item> \<open>Oer_Time\<close> (\<open>crates/time/src/lib.rs\<close>): instants, durations, deadlines.
  \<^item> \<open>Sequence_Number\<close> (\<open>mac/sequence.rs\<close>): modular sequence numbers; their distance is a cyclic order.
  \<^item> \<open>Tx_Sequence\<close> (\<open>mac/station/sequence.rs\<close>): every space hands out consecutive numbers, independently
    of the others.
  \<^item> \<open>Rx_Duplicate\<close> (\<open>mac/data/duplicate.rs\<close>): over any history a frame is a duplicate exactly if it is a
    retry of the last frame of its class.
  \<^item> \<open>Frame_Header\<close> (\<open>mac/frame.rs\<close>): the header decoder is inverse to writing the header's octets.
  \<^item> \<open>Wmm_Qos\<close> (\<open>mac/qos.rs\<close>): priorities, arrays selected by them, classification.
  \<^item> \<open>Data_Framing\<close> (\<open>mac/data.rs\<close>): encapsulated frames decapsulate to what they were; the A-MSDU iterator ends, stays
    in bounds and reads exactly the format; a flipped A-MSDU bit is refused; the receive entry points agree.
  \<^item> \<open>Block_Ack_Frame\<close>, \<open>Block_Ack_Session\<close>, \<open>Block_Ack_Originator\<close> (\<open>mac/block_ack\<close>): the codecs round trip; an
    operational agreement is what both sides agreed on; stale alarms are ignored; attempts are bounded;
    responses reach the TID they name; the first overdue negotiation expires.
  \<^item> \<open>Block_Ack_Reorder\<close> (\<open>mac/block_ack/reorder.rs\<close>): delivery is in order, slots are conserved, ingesting
    refines an abstract window of positions, the fast path agrees with the full path, expiry makes progress.
  \<^item> \<open>Ccmp\<close>, \<open>Ccmp_Replay\<close> (\<open>mac/ccmp.rs\<close>, \<open>mac/ccmp/replay.rs\<close>): the header codec, no packet number is used or
    accepted twice, the life cycle of group keys.
  \<^item> \<open>Fragment_Parsing\<close>, \<open>Fragment_Reassembly\<close>, \<open>Fragment_Delivery\<close> (\<open>mac/fragmentation.rs\<close> and
    \<open>mac/fragmentation\<close>): the parser agrees with the frame decoder; a delivered MSDU is one genuine train,
    trains do not mix, only exact retransmissions are suppressed, and a whole train is delivered.
  \<^item> \<open>Receive_Admission\<close> (\<open>mac/receive.rs\<close>, \<open>mac/address.rs\<close>): what the station's receive boundary accepts, that it
    accepts no protected frame twice, and that a protected frame of the access point arrives intact and once.
  \<^item> \<open>Radio_Time\<close> (\<open>crates/time/src/radio.rs\<close>), \<open>Tx_Port\<close> (\<open>lower-mac/src/tx.rs\<close>,
    \<open>softmac/src/contract.rs\<close>) and \<open>Phy_Rates\<close> (\<open>mac/phy.rs\<close>): what the transmit policy counts, reports and chooses;
    the MPDU start spacing is exact.
  \<^item> \<open>Mpdu_Retry\<close> (\<open>upper-mac/src/retry.rs\<close>): every MPDU exchange ends within its limits, as its statuses say.
  \<^item> \<open>Bit_Masks\<close>, \<open>Ampdu_Retry\<close> (\<open>upper-mac/src/ampdu.rs\<close>): the retry state of an aggregate and what its decisions leave;
    compacting the caller's arrays by a decision's mask follows the state.
  \<^item> \<open>Tx_Protection\<close> (\<open>upper-mac/src/protection.rs\<close>, \<open>mac/protection.rs\<close>,
    \<open>upper-mac/src/rate_control/legacy.rs\<close>): a PPDU is protected exactly for a stated reason, at the best control rate.

  \<^item> \<open>Tx_Planner\<close>, \<open>Tx_Exchange\<close> (\<open>upper-mac/src/tx.rs\<close>): the planner, and over the trace of a whole exchange:
    its report accounts for every subframe and attempt, every attempt carries what is unacknowledged with the
    right Retry bits, and an aged exchange ends.
  \<^item> \<open>Ampdu_Run\<close> (\<open>upper-mac/src/aggregate.rs\<close>, \<open>mac/ampdu.rs\<close>): an admitted run fits the peer, the port and the
    TXOP however its frames are encoded, and stops only at a limit; the planner's lengths are the encoder's.

  \<^item> \<open>Eapol_Key\<close> (\<open>rsn/eapol.rs\<close>, \<open>rsn/frames/transmit.rs\<close>): what any of the six handshake messages is
    built from is read back from its octets, and its MIC verifies.
  \<^item> \<open>Rsn_Key_Wrap\<close> (\<open>rsn/aes.rs\<close>): unwrapping accepts exactly what wrapping produces.
  \<^item> \<open>Rsn_Key_Data\<close> (\<open>rsn/frames/key_data.rs\<close>, \<open>rsn/frames/security_ies.rs\<close>): key data round trips, and the parser
    accepts nothing but one copy of each advertised element and the keys.
  \<^item> \<open>Rsn_Element\<close> (\<open>mac/security/rsn.rs\<close>, \<open>rsn/element.rs\<close>): the RSN element parser accepts exactly the octets of
    the format; the validation selects the suite of an association.
  \<^item> \<open>Rsn_State\<close> (\<open>rsn/state\<close>), \<open>Rsn_Supplicant\<close> and \<open>Rsn_Connected\<close> (\<open>rsn/supplicant.rs\<close>, \<open>rsn/crypto.rs\<close>,
    \<open>rsn/keys.rs\<close>): both machines of the handshake, the station's owner of one handshake and of a connected
    association.
  \<^item> \<open>Rsn_Sta_Run\<close>, \<open>Rsn_Handshake\<close>: runs of the station's supplicant with an adversary who sends any frame at any
    time.  A pairwise key is handed out once, only for an authenticated Message 3 of this exchange, with the
    group keys of its key data; and with an honest access point the handshake completes with equal keys.
  \<^item> \<open>Rsn_Authenticator\<close>: runs of the access point's machine.  A peer is authorized only after its Messages 2 and
    4 verified for one pairwise key, and a station that answers as the supplicant does is authorized.
  \<^item> \<open>Rsn_Group_Run\<close>: runs of a connected association.  Group keys take effect in the order of rising replay
    counters and only from authenticated frames.
  \<^item> \<open>Rsn_Retry\<close> (\<open>rsn/retry.rs\<close>, the deadlines of \<open>rsn/supplicant.rs\<close>, the envelope of
    \<open>rsn/frames/transmit.rs\<close>): a retransmission schedule is finite and ends in exhaustion.
  \<^item> \<open>Ble_Acknowledgement\<close> (\<open>connection/acknowledgement.rs\<close>): two sides over a lossy, repeating air deliver every
    data PDU once and in order, and deliver everything when exchanges succeed.

  \<^bold>\<open>Parameters.\<close>  The functions of external crates are arguments: the message authentication code and the key
  expansion of a suite, and the AES block cipher, of which the theorems that need it assume that decryption
  inverts encryption (\<open>inverse_ciphers\<close>) or that a code has 16 octets; the witnesses instantiate them.

  \<^bold>\<open>Bounds and termination.\<close>  No definition of the model uses fuel.  The loops of the sources are folds or
  searches over arrays of fixed length, or structural recursions; the loops whose bound is in the data, draining
  an A-MSDU, scanning key data and splitting counted lists, are the functions \<open>amsdu_items\<close>, \<open>scan_loop\<close> and
  \<open>as_chunks\<close> with termination proofs, and
  \<open>drain\<close> counts calls of the iterator: the theorem on it says how many calls are enough.

  \<^bold>\<open>Borrowed state.\<close>  A replay candidate and a fragment admission hold a mutable borrow of their owner between
  two calls.  The model passes the owner beside them; the borrow checker guarantees that nothing happens in
  between, so the two calls compose as the model composes them.

  \<^bold>\<open>Not modelled.\<close>  The CCM cipher itself (the sources take verified plaintext from the hardware), the
  management-frame codecs, the station and access-point service machines, the passphrase derivation, SAE and the
  software ciphers of \<open>rsn\<close> (they compose external crates), the upper MAC's
  rate-control traits, the runtime and executors, IEEE 802.15.4, Bluetooth LE beyond the acknowledgement, and
  the hardware crates, which are register access.
\<close>

end
